(* ===== verification/Prelude.thy ===== *)
theory Prelude
  imports Main "HOL-Library.Word"
begin

text \<open>
  Shared vocabulary of the development: names for the machine types of the C code, the
  collections of simplification rules the component theories fill, and generic lemmas on
  lists and options that several components use.

  \<^item> \<open>u32\<close>/\<open>u16\<close>/\<open>u8\<close> are the C types \<open>uint32_t\<close>, \<open>uint16_t\<close> and \<open>uint8_t\<close>; \<open>int\<close> bit masks are
    also \<open>u32\<close>, since only their bits matter.
  \<^item> A C string is a \<open>string\<close> without its terminating NUL.
  \<^item> C \<open>int\<close> counters that stay far from the limits of the type are HOL \<open>int\<close> or \<open>nat\<close>.
\<close>

unbundle bit_operations_syntax

type_synonym u8 = "8 word"
type_synonym u16 = "16 word"
type_synonym u32 = "32 word"

named_theorems cstr_simps "unfolding rules for the C string layer"
named_theorems inv_simps "definitions of component invariants"

text \<open>C's division truncates towards zero; Isabelle's rounds down.\<close>

definition cdiv :: "int \<Rightarrow> int \<Rightarrow> int" where
  "cdiv a b = sgn a * sgn b * (\<bar>a\<bar> div \<bar>b\<bar>)"

lemma cdiv_nonneg: "0 \<le> a \<Longrightarrow> 0 < b \<Longrightarrow> cdiv a b = a div b"
  by (cases "a = 0") (auto simp: cdiv_def sgn_if)

subsection \<open>Lists\<close>

text \<open>Splitting a list at the first element that satisfies a predicate.\<close>

lemma takeWhile_append_stop: "\<forall>x \<in> set xs. P x \<Longrightarrow> \<not> P y \<Longrightarrow> takeWhile P (xs @ y # ys) = xs"
  by (simp add: takeWhile_append2)

lemma dropWhile_append_stop: "\<forall>x \<in> set xs. P x \<Longrightarrow> \<not> P y \<Longrightarrow> dropWhile P (xs @ y # ys) = y # ys"
  by (simp add: dropWhile_append2)

lemma dropWhile_none: "xs = [] \<or> \<not> P (hd xs) \<Longrightarrow> dropWhile P xs = xs"
  by (cases xs) auto

text \<open>The last occurrence of an element splits a list uniquely.\<close>

lemma last_occurrence_unique:
  assumes "xs @ c # ys = xs' @ c # ys'" and "c \<notin> set ys" and "c \<notin> set ys'"
  shows "xs = xs' \<and> ys = ys'"
proof -
  from assms(1) have "rev ys @ c # rev xs = rev ys' @ c # rev xs'"
    by (metis append.assoc append_Cons append_Nil rev.simps(2) rev_append rev_rev_ident)
  moreover have "takeWhile (\<lambda>x. x \<noteq> c) (rev ys @ c # rev xs) = rev ys"
    using assms(2) by (intro takeWhile_append_stop) auto
  moreover have "takeWhile (\<lambda>x. x \<noteq> c) (rev ys' @ c # rev xs') = rev ys'"
    using assms(3) by (intro takeWhile_append_stop) auto
  ultimately have "ys = ys'" by (metis rev_rev_ident)
  with assms(1) show ?thesis by simp
qed

text \<open>Removing the first occurrence of an element and putting it in front keeps the elements.\<close>

lemma distinct_move_front:
  "distinct (map f (xs @ y # ys)) \<Longrightarrow> distinct (map f (y # xs @ ys))"
  by auto

lemma nth_append_mid [simp]: "(xs @ y # ys) ! length xs = y"
  by (simp add: nth_append)

lemma nth_append_after [simp]: "(xs @ y # ys) ! Suc (length xs + k) = ys ! k"
  by (simp add: nth_append)

text \<open>An invariant of a step is one of a loop over steps.\<close>

lemma fold_inv: "(\<And>x s. P s \<Longrightarrow> P (f x s)) \<Longrightarrow> P s \<Longrightarrow> P (fold f xs s)"
  by (induction xs arbitrary: s) simp_all

text \<open>A loop over indices, with an invariant that mentions the index.\<close>

lemma fold_upt_inv:
  assumes "P 0 s" and "\<And>k s. k < n \<Longrightarrow> P k s \<Longrightarrow> P (Suc k) (f k s)"
  shows "P n (fold f [0..<n] s)"
  using assms(2)
proof (induction n)
  case 0
  then show ?case using assms(1) by simp
next
  case (Suc n)
  then show ?case by simp
qed

end
