(* ===== verification/CString.thy ===== *)
theory CString
  imports Prelude
begin

text \<open>
  The part of the C standard library's string and character functions that the sources use,
  on strings without their NUL: pointers into a string returned by \<open>strchr\<close>/\<open>strrchr\<close> are
  indices (\<open>None\<close> for a null pointer), and truncating a string in place (\<open>tmp[0] = '\0'\<close>) is
  \<^const>\<open>take\<close>. \<open>snprintf\<close> into a buffer of \<open>n\<close> bytes keeps \<open>n - 1\<close> characters; \<open>fgets\<close> reads
  a line in pieces of at most \<open>n - 1\<close> characters.
\<close>

definition char_newline :: char where "char_newline = CHR 0x0A"
definition char_return :: char where "char_return = CHR 0x0D"
definition char_tab :: char where "char_tab = CHR 0x09"

definition isdigit :: "char \<Rightarrow> bool" where
  "isdigit c \<longleftrightarrow> 48 \<le> (of_char c :: nat) \<and> (of_char c :: nat) \<le> 57"

definition isblank :: "char \<Rightarrow> bool" where
  "isblank c \<longleftrightarrow> c = CHR '' '' \<or> c = char_tab"

definition isspace :: "char \<Rightarrow> bool" where
  "isspace c \<longleftrightarrow> c = CHR '' '' \<or> (9 \<le> (of_char c :: nat) \<and> (of_char c :: nat) \<le> 13)"

definition tolower :: "char \<Rightarrow> char" where
  "tolower c = (if 65 \<le> (of_char c :: nat) \<and> (of_char c :: nat) \<le> 90
                then char_of ((of_char c :: nat) + 32) else c)"

fun strchr :: "string \<Rightarrow> char \<Rightarrow> nat option" where
  "strchr [] c = None"
| "strchr (x # xs) c = (if x = c then Some 0 else map_option Suc (strchr xs c))"

fun strrchr :: "string \<Rightarrow> char \<Rightarrow> nat option" where
  "strrchr [] c = None"
| "strrchr (x # xs) c =
     (case strrchr xs c of Some i \<Rightarrow> Some (Suc i) | None \<Rightarrow> if x = c then Some 0 else None)"

definition strncasecmp_eq :: "string \<Rightarrow> string \<Rightarrow> nat \<Rightarrow> bool" where
  \<comment> \<open>\<open>strncasecmp(a, b, n) == 0\<close>\<close>
  "strncasecmp_eq a b n \<longleftrightarrow> map tolower (take n a) = map tolower (take n b)"

text \<open>The key of \<open>strcasecmp\<close>: it compares the lower-cased bytes lexicographically.\<close>

definition casekey :: "string \<Rightarrow> nat list" where
  "casekey s = map (\<lambda>c. of_char (tolower c)) s"

fun strcasestr :: "string \<Rightarrow> string \<Rightarrow> nat option" where
  "strcasestr [] needle = (if needle = [] then Some 0 else None)"
| "strcasestr (x # xs) needle =
     (if strncasecmp_eq (x # xs) needle (length needle) then Some 0
      else map_option Suc (strcasestr xs needle))"

fun strstr :: "string \<Rightarrow> string \<Rightarrow> nat option" where
  "strstr [] needle = (if needle = [] then Some 0 else None)"
| "strstr (x # xs) needle =
     (if take (length needle) (x # xs) = needle then Some 0
      else map_option Suc (strstr xs needle))"

definition snprintf_buf :: "nat \<Rightarrow> string \<Rightarrow> string" where
  "snprintf_buf n s = take (n - 1) s"

text \<open>\<open>fgets(line, n, file)\<close>: at most \<open>n - 1\<close> characters, up to and including a newline.\<close>

fun fgets_piece :: "nat \<Rightarrow> string \<Rightarrow> string \<times> string" where
  "fgets_piece 0 s = ([], s)"
| "fgets_piece (Suc k) [] = ([], [])"
| "fgets_piece (Suc k) (c # s) =
     (if c = char_newline then ([c], s)
      else case fgets_piece k s of (a, b) \<Rightarrow> (c # a, b))"

lemma fgets_piece_length: "length (snd (fgets_piece k s)) \<le> length s"
  by (induction k s rule: fgets_piece.induct) (auto split: prod.splits)

lemma fgets_piece_shorter: "s \<noteq> [] \<Longrightarrow> length (snd (fgets_piece (Suc k) s)) < length s"
  using fgets_piece_length [of k "tl s"] by (cases s) (auto split: prod.splits)

function fgets_all :: "nat \<Rightarrow> string \<Rightarrow> string list" where
  "fgets_all n s =
     (if s = [] \<or> n < 2 then []
      else case fgets_piece (n - 1) s of (a, b) \<Rightarrow> a # fgets_all n b)"
  by pat_completeness auto
termination
proof (relation "measure (\<lambda>(n, s). length s)", goal_cases)
  case (2 n s x y)
  then have "length (snd (fgets_piece (Suc (n - 2)) s)) < length s"
    by (intro fgets_piece_shorter) simp
  moreover have "Suc (n - 2) = n - 1" using 2 by linarith
  ultimately have "length (snd (x, y)) < length s" using 2 by simp
  then show ?case by simp
qed simp

declare fgets_all.simps [simp del]

subsection \<open>Facts\<close>

lemma strchr_None: "strchr s c = None \<longleftrightarrow> c \<notin> set s"
  by (induction s) auto

lemma strrchr_None: "strrchr s c = None \<longleftrightarrow> c \<notin> set s"
  by (induction s) (auto split: option.splits)

lemma strchr_append: "c \<notin> set xs \<Longrightarrow> strchr (xs @ c # ys) c = Some (length xs)"
  by (induction xs) auto

lemma strrchr_append: "c \<notin> set ys \<Longrightarrow> strrchr (xs @ c # ys) c = Some (length xs)"
  by (induction xs) (auto simp: strrchr_None split: option.splits)

lemma strchr_Some:
  "strchr s c = Some i \<Longrightarrow> i < length s \<and> s ! i = c \<and> c \<notin> set (take i s)"
  by (induction s arbitrary: i) (auto split: if_splits)

lemma strrchr_Some:
  "strrchr s c = Some i \<Longrightarrow> i < length s \<and> s ! i = c \<and> c \<notin> set (drop (Suc i) s)"
proof (induction s arbitrary: i)
  case Nil
  then show ?case by simp
next
  case (Cons x xs)
  then show ?case by (auto simp: strrchr_None split: option.splits if_splits)
qed

lemma strrchr_less [dest]: "strrchr s c = Some i \<Longrightarrow> i < length s"
  using strrchr_Some by blast

lemma strchr_less [dest]: "strchr s c = Some i \<Longrightarrow> i < length s"
  using strchr_Some by blast

lemma strncasecmp_eq_refl [simp]: "strncasecmp_eq s s n"
  by (simp add: strncasecmp_eq_def)

lemma snprintf_buf_fits: "length s < n \<Longrightarrow> snprintf_buf n s = s"
  by (simp add: snprintf_buf_def)

lemma snprintf_buf_length: "0 < n \<Longrightarrow> length (snprintf_buf n s) < n"
  by (simp add: snprintf_buf_def)

text \<open>A line that fits the buffer is read whole.\<close>

lemma fgets_piece_line:
  "char_newline \<notin> set l \<Longrightarrow> length l < k \<Longrightarrow> fgets_piece k (l @ char_newline # s) = (l @ [char_newline], s)"
proof (induction l arbitrary: k)
  case Nil
  then show ?case by (cases k) auto
next
  case (Cons c l)
  then show ?case by (cases k) auto
qed

lemma fgets_all_line:
  assumes "char_newline \<notin> set l" and "length l + 1 < n"
  shows "fgets_all n (l @ char_newline # s) = (l @ [char_newline]) # fgets_all n s"
proof -
  have "fgets_piece (n - 1) (l @ char_newline # s) = (l @ [char_newline], s)"
    using assms by (intro fgets_piece_line) auto
  then show ?thesis
    using assms by (subst fgets_all.simps) simp
qed

lemma fgets_all_Nil [simp]: "fgets_all n [] = []"
  by (simp add: fgets_all.simps)

text \<open>Every piece fits the buffer.\<close>

lemma fgets_piece_fst_length: "length (fst (fgets_piece k s)) \<le> k"
  by (induction k s rule: fgets_piece.induct) (auto split: prod.splits)

lemma fgets_all_length: "\<forall>l \<in> set (fgets_all n s). length l < n"
proof (induction n s rule: fgets_all.induct)
  case (1 n s)
  show ?case
  proof (cases "s = [] \<or> n < 2")
    case True
    then show ?thesis by (auto simp: fgets_all.simps)
  next
    case False
    obtain a b where ab: "fgets_piece (n - 1) s = (a, b)" by fastforce
    then have "length a < n" using fgets_piece_fst_length [of "n - 1" s] False by auto
    moreover have "\<forall>l \<in> set (fgets_all n b). length l < n"
      using "1.IH" [OF False ab [symmetric]] .
    ultimately show ?thesis using False ab by (subst fgets_all.simps) auto
  qed
qed

text \<open>The pieces put together are the file (no character is lost or duplicated).\<close>

lemma fgets_piece_concat: "fst (fgets_piece k s) @ snd (fgets_piece k s) = s"
  by (induction k s rule: fgets_piece.induct) (auto split: prod.splits)

lemma fgets_all_concat: "2 \<le> n \<Longrightarrow> concat (fgets_all n s) = s"
proof (induction n s rule: fgets_all.induct)
  case (1 n s)
  show ?case
  proof (cases "s = []")
    case True
    then show ?thesis by simp
  next
    case False
    obtain a b where ab: "fgets_piece (n - 1) s = (a, b)" by fastforce
    then have "a @ b = s" using fgets_piece_concat [of "n - 1" s] by simp
    moreover have "concat (fgets_all n b) = b"
      using "1.IH" [OF _ ab [symmetric]] False "1.prems" by auto
    ultimately show ?thesis using False ab "1.prems" by (subst fgets_all.simps) auto
  qed
qed

end
