(* ===== verification/FileSystem.thy ===== *)
theory FileSystem
  imports CString
begin

text \<open>
  The file system the sources work on, and the file helpers of \<open>common/utils.c\<close>
  (\<open>exists\<close>, \<open>touch\<close>, \<open>putFile\<close>, \<open>getFile\<close>, \<open>allocFile\<close>, \<open>getInt\<close>, \<open>putInt\<close>).

  A file system is an association list from absolute paths to nodes; a directory is read
  (\<open>readdir\<close>) in the order of the list. Opening a file for writing succeeds when the parent is a
  directory and the path itself is not one; opening it for reading when it is a regular file.
  The decimal printing of \<open>"%d"\<close> and the base-detecting reading of \<open>"%i"\<close> are written out, for
  numbers in the range of \<open>int\<close>.
\<close>

datatype node = File string | Dir

type_synonym fs = "(string \<times> node) list"

definition dirname :: "string \<Rightarrow> string" where
  "dirname p = (case strrchr p (CHR ''/'') of Some i \<Rightarrow> take i p | None \<Rightarrow> [])"

definition basename :: "string \<Rightarrow> string" where
  "basename p = (case strrchr p (CHR ''/'') of Some i \<Rightarrow> drop (Suc i) p | None \<Rightarrow> p)"

definition exists :: "fs \<Rightarrow> string \<Rightarrow> bool" where
  "exists fs p \<longleftrightarrow> map_of fs p \<noteq> None"

fun fs_put :: "string \<Rightarrow> node \<Rightarrow> fs \<Rightarrow> fs" where
  "fs_put p n [] = [(p, n)]"
| "fs_put p n ((q, m) # fs) = (if p = q then (q, n) # fs else (q, m) # fs_put p n fs)"

definition unlink :: "string \<Rightarrow> fs \<Rightarrow> fs" where
  "unlink p fs = filter (\<lambda>(q, _). q \<noteq> p) fs"

definition fopen_r :: "fs \<Rightarrow> string \<Rightarrow> string option" where
  "fopen_r fs p = (case map_of fs p of Some (File s) \<Rightarrow> Some s | _ \<Rightarrow> None)"

definition fopen_w :: "fs \<Rightarrow> string \<Rightarrow> bool" where
  "fopen_w fs p \<longleftrightarrow> map_of fs p \<noteq> Some Dir \<and> map_of fs (dirname p) = Some Dir"

definition mkdir :: "string \<Rightarrow> fs \<Rightarrow> fs" where
  "mkdir p fs = (if map_of fs p = None \<and> map_of fs (dirname p) = Some Dir then fs_put p Dir fs else fs)"

definition opendir :: "fs \<Rightarrow> string \<Rightarrow> string list option" where
  \<comment> \<open>\<open>opendir\<close> (a trailing slash is allowed) and the names \<open>readdir\<close> then returns, but for \<open>.\<close> and \<open>..\<close>\<close>
  "opendir fs dir =
     (let p = (if dir \<noteq> [] \<and> last dir = CHR ''/'' then butlast dir else dir) in
      if map_of fs p = Some Dir
      then Some (map (\<lambda>(q, _). basename q) (filter (\<lambda>(q, _). q \<noteq> p \<and> dirname q = p) fs))
      else None)"

definition is_dir :: "fs \<Rightarrow> string \<Rightarrow> bool" where
  \<comment> \<open>\<open>d_type == DT_DIR\<close> of the entry\<close>
  "is_dir fs p \<longleftrightarrow> map_of fs p = Some Dir"

subsection \<open>Numbers as text\<close>

definition digit_char :: "nat \<Rightarrow> char" where
  "digit_char d = char_of (48 + d)"

fun dec_nat :: "nat \<Rightarrow> string" where
  "dec_nat n = (if n < 10 then [digit_char n] else dec_nat (n div 10) @ [digit_char (n mod 10)])"

declare dec_nat.simps [simp del]

definition dec_int :: "int \<Rightarrow> string" where
  \<comment> \<open>\<open>"%d"\<close>\<close>
  "dec_int i = (if i < 0 then CHR ''-'' # dec_nat (nat (- i)) else dec_nat (nat i))"

definition digit_value :: "char \<Rightarrow> nat option" where
  "digit_value c =
     (let k = of_char (tolower c) :: nat in
      if 48 \<le> k \<and> k \<le> 57 then Some (k - 48)
      else if 97 \<le> k \<and> k \<le> 102 then Some (k - 87) else None)"

definition in_base :: "nat \<Rightarrow> char \<Rightarrow> bool" where
  "in_base b c \<longleftrightarrow> (case digit_value c of Some d \<Rightarrow> d < b | None \<Rightarrow> False)"

definition read_base :: "nat \<Rightarrow> string \<Rightarrow> nat" where
  "read_base b s = foldl (\<lambda>acc c. acc * b + the (digit_value c)) 0 (takeWhile (in_base b) s)"

definition scan_nat :: "string \<Rightarrow> nat" where
  \<comment> \<open>the digits of \<open>"%i"\<close>: hexadecimal after \<open>0x\<close>, octal after \<open>0\<close>, decimal otherwise\<close>
  "scan_nat s =
     (case s of
        [] \<Rightarrow> 0
      | c # s' \<Rightarrow>
          if c = CHR ''0'' then
            (case s' of [] \<Rightarrow> 0
             | x # s'' \<Rightarrow> if tolower x = CHR ''x'' then read_base 16 s'' else read_base 8 s')
          else read_base 10 s)"

definition scan_int :: "string \<Rightarrow> int" where
  "scan_int s =
     (case dropWhile isspace s of
        [] \<Rightarrow> 0
      | c # s' \<Rightarrow> if c = CHR ''-'' then - int (scan_nat s')
                 else if c = CHR ''+'' then int (scan_nat s')
                 else int (scan_nat (c # s')))"

subsection \<open>The helpers of utils.c\<close>

definition touch :: "string \<Rightarrow> fs \<Rightarrow> fs" where
  "touch p fs = (if map_of fs p = None \<and> fopen_w fs p then fs_put p (File []) fs else fs)"

definition putFile :: "string \<Rightarrow> string \<Rightarrow> fs \<Rightarrow> fs" where
  "putFile p contents fs = (if fopen_w fs p then fs_put p (File contents) fs else fs)"

definition getFile :: "fs \<Rightarrow> string \<Rightarrow> string \<Rightarrow> nat \<Rightarrow> string" where
  \<comment> \<open>the buffer keeps its old contents when the file cannot be opened\<close>
  "getFile fs p buffer buffer_size =
     (case fopen_r fs p of
        None \<Rightarrow> buffer
      | Some s \<Rightarrow> take (if length s > buffer_size - 1 then buffer_size - 1 else length s) s)"

definition allocFile :: "fs \<Rightarrow> string \<Rightarrow> string option" where
  "allocFile fs p = fopen_r fs p"

definition getInt :: "fs \<Rightarrow> string \<Rightarrow> int" where
  "getInt fs p = (case fopen_r fs p of None \<Rightarrow> 0 | Some s \<Rightarrow> scan_int s)"

definition putInt :: "string \<Rightarrow> int \<Rightarrow> fs \<Rightarrow> fs" where
  "putInt p value fs = putFile p (snprintf_buf 16 (dec_int value)) fs"

subsection \<open>Facts\<close>

lemma map_of_fs_put: "map_of (fs_put p n fs) q = (if q = p then Some n else map_of fs q)"
  by (induction p n fs rule: fs_put.induct) auto

lemma map_of_unlink: "map_of (unlink p fs) q = (if q = p then None else map_of fs q)"
  by (induction fs) (auto simp: unlink_def)

lemma exists_unlink: "exists (unlink p fs) q \<longleftrightarrow> q \<noteq> p \<and> exists fs q"
  by (simp add: exists_def map_of_unlink)

lemma fopen_r_putFile:
  "fopen_w fs p \<Longrightarrow> fopen_r (putFile p s fs) q = (if q = p then Some s else fopen_r fs q)"
  by (simp add: fopen_r_def putFile_def map_of_fs_put)

lemma fopen_r_putFile_other: "q \<noteq> p \<Longrightarrow> fopen_r (putFile p s fs) q = fopen_r fs q"
  by (simp add: fopen_r_def putFile_def map_of_fs_put)

lemma exists_putFile:
  "exists (putFile p s fs) q \<longleftrightarrow> exists fs q \<or> (q = p \<and> fopen_w fs p)"
  by (auto simp: exists_def putFile_def map_of_fs_put)

lemma fopen_w_putFile: "fopen_w fs q \<Longrightarrow> fopen_w (putFile p s fs) q"
  by (auto simp: fopen_w_def putFile_def map_of_fs_put)

lemma basename_join: "CHR ''/'' \<notin> set n \<Longrightarrow> basename (d @ ''/'' @ n) = n"
  by (simp add: basename_def strrchr_append)

lemma dirname_join: "CHR ''/'' \<notin> set n \<Longrightarrow> dirname (d @ ''/'' @ n) = d"
  by (simp add: dirname_def strrchr_append)

lemma of_char_digit_char: "d < 10 \<Longrightarrow> (of_char (digit_char d) :: nat) = 48 + d"
  by (simp add: digit_char_def)

lemma digit_value_digit_char: "d < 10 \<Longrightarrow> digit_value (digit_char d) = Some d"
  by (simp add: digit_value_def tolower_def of_char_digit_char Let_def)

lemma in_base_digit_char: "d < 10 \<Longrightarrow> in_base 10 (digit_char d)"
  by (simp add: in_base_def digit_value_digit_char)

lemma dec_nat_digits: "\<forall>c \<in> set (dec_nat n). in_base 10 c"
proof (induction n rule: dec_nat.induct)
  case (1 n)
  then show ?case
    by (subst dec_nat.simps) (auto simp: in_base_digit_char)
qed

lemma foldl_dec_nat:
  "foldl (\<lambda>acc c. acc * 10 + the (digit_value c)) 0 (dec_nat n) = n"
proof (induction n rule: dec_nat.induct)
  case (1 n)
  then show ?case
    by (subst dec_nat.simps) (auto simp: digit_value_digit_char)
qed

lemma read_base_dec_nat: "read_base 10 (dec_nat n) = n"
  using dec_nat_digits [of n] foldl_dec_nat [of n]
  by (simp add: read_base_def takeWhile_eq_all_conv [THEN iffD2])

lemma dec_nat_nonempty: "dec_nat n \<noteq> []"
  by (subst dec_nat.simps) simp

lemma digit_char_not_punct:
  assumes "0 < d" "d < 10"
  shows "digit_char d \<noteq> CHR ''0''" "digit_char d \<noteq> CHR ''-''" "digit_char d \<noteq> CHR ''+''"
    "\<not> isspace (digit_char d)"
proof -
  have *: "(of_char (digit_char d) :: nat) = 48 + d" using assms of_char_digit_char by simp
  show "digit_char d \<noteq> CHR ''0''" "digit_char d \<noteq> CHR ''-''" "digit_char d \<noteq> CHR ''+''"
    using assms * by auto
  have "digit_char d \<noteq> CHR '' ''" using * by auto
  then show "\<not> isspace (digit_char d)" using assms * by (simp add: isspace_def)
qed

lemma dec_nat_leading: "0 < n \<Longrightarrow> \<exists>d r. dec_nat n = digit_char d # r \<and> 0 < d \<and> d < 10"
proof (induction n rule: dec_nat.induct)
  case (1 n)
  show ?case
  proof (cases "n < 10")
    case True
    then have "dec_nat n = [digit_char n]" by (simp add: dec_nat.simps)
    then show ?thesis using 1 True by blast
  next
    case False
    then have "0 < n div 10" by (simp add: div_greater_zero_iff)
    with 1 False obtain d r where "dec_nat (n div 10) = digit_char d # r" "0 < d" "d < 10" by blast
    moreover have "dec_nat n = dec_nat (n div 10) @ [digit_char (n mod 10)]"
      using False by (subst dec_nat.simps) simp
    ultimately show ?thesis by auto
  qed
qed

lemma digit_char_0: "digit_char 0 = CHR ''0''"
  by code_simp

lemma scan_nat_dec_nat: "scan_nat (dec_nat n) = n"
proof (cases "n = 0")
  case True
  then show ?thesis by (simp add: dec_nat.simps scan_nat_def digit_char_0)
next
  case False
  then obtain d r where "dec_nat n = digit_char d # r" "0 < d" "d < 10"
    using dec_nat_leading by blast
  then show ?thesis
    using read_base_dec_nat [of n] digit_char_not_punct [of d] by (simp add: scan_nat_def)
qed

lemma scan_int_dec_int: "scan_int (dec_int i) = i"
proof (cases "i < 0")
  case True
  then show ?thesis by (simp add: scan_int_def dec_int_def isspace_def scan_nat_dec_nat)
next
  case nonneg: False
  show ?thesis
  proof (cases "i = 0")
    case True
    then show ?thesis
      by (simp add: scan_int_def dec_int_def dec_nat.simps digit_char_0 isspace_def scan_nat_def)
  next
    case False
    then obtain d r where d: "dec_nat (nat i) = digit_char d # r" "0 < d" "d < 10"
      using dec_nat_leading nonneg by (metis nat_0_iff antisym_conv3 less_imp_le zero_less_nat_eq)
    then show ?thesis
      using scan_nat_dec_nat [of "nat i"] digit_char_not_punct [of d] nonneg
      by (simp add: scan_int_def dec_int_def)
  qed
qed

lemma dec_nat_length: "n < 10 ^ Suc k \<Longrightarrow> length (dec_nat n) \<le> Suc k"
proof (induction k arbitrary: n)
  case 0
  then show ?case by (simp add: dec_nat.simps)
next
  case (Suc k)
  have "n div 10 < 10 ^ Suc k" using Suc.prems by (simp add: less_mult_imp_div_less mult.commute)
  then have "length (dec_nat (n div 10)) \<le> Suc k" using Suc.IH by blast
  then show ?case by (subst dec_nat.simps) simp
qed

lemma dec_int_length:
  assumes "\<bar>i\<bar> < 10 ^ Suc k"
  shows "length (dec_int i) \<le> Suc (Suc k)"
proof -
  have "nat \<bar>i\<bar> < 10 ^ Suc k" using assms by (simp add: nat_less_iff)
  from dec_nat_length [OF this] show ?thesis by (auto simp: dec_int_def)
qed

subsection \<open>Properties\<close>

text \<open>An integer written with \<open>putInt\<close> (through its 16-byte buffer) is the integer \<open>getInt\<close> reads
  back, for every value of a 32-bit \<open>int\<close>, negative ones included, and no other file changes.\<close>

theorem getInt_putInt:
  assumes "fopen_w fs p" and "- (2 ^ 31) \<le> v" and "v < 2 ^ 31"
  shows "getInt (putInt p v fs) p = v \<and> (\<forall>q. q \<noteq> p \<longrightarrow> fopen_r (putInt p v fs) q = fopen_r fs q)"
proof -
  have "length (dec_int v) \<le> Suc (Suc 10)"
    using assms(2,3) by (intro dec_int_length) simp
  then have "snprintf_buf 16 (dec_int v) = dec_int v" by (intro snprintf_buf_fits) simp
  with assms(1) show ?thesis
    by (simp add: getInt_def putInt_def fopen_r_putFile scan_int_dec_int)
qed

theorem getInt_putInt_witness:
  "getInt (putInt ''/tmp/a'' (- 42) [(''/tmp'', Dir)]) ''/tmp/a'' = - 42"
  by (rule getInt_putInt [THEN conjunct1]) (simp_all add: fopen_w_def dirname_def)

end
