(* ===== verification/Utils.thy ===== *)
theory Utils
  imports FileSystem
begin

text \<open>
  The string helpers of \<open>common/utils.c\<close>: name matching, the display name and the emulator tag of
  a path, and the clean-up of lines read from text files. The build's \<open>PLATFORM\<close> string is the
  argument \<open>plat\<close>; the fixed paths are those of \<open>common/defines.h\<close>. Where the code tests its
  arguments for NULL (\<open>prefixMatch\<close>, \<open>exactMatch\<close>) they are options.
\<close>

definition SDCARD_PATH :: string where "SDCARD_PATH = ''/mnt/sdcard''"
definition ROMS_PATH :: string where "ROMS_PATH = SDCARD_PATH @ ''/Roms''"

definition MAX_PATH :: nat where "MAX_PATH = 512"
definition AUTO_RESUME_SLOT :: int where "AUTO_RESUME_SLOT = 9"
definition RESUME_SLOT_PATH :: string where "RESUME_SLOT_PATH = ''/tmp/resume_slot.txt''"

definition paks_path :: "string \<Rightarrow> string" where
  "paks_path plat = SDCARD_PATH @ ''/.system/'' @ plat @ ''/paks''"

definition prefix_match :: "string \<Rightarrow> string \<Rightarrow> bool" where
  "prefix_match pre str \<longleftrightarrow> strncasecmp_eq pre str (length pre)"

definition prefixMatch :: "string option \<Rightarrow> string option \<Rightarrow> bool" where
  "prefixMatch pre str =
     (case (pre, str) of (Some a, Some b) \<Rightarrow> prefix_match a b | _ \<Rightarrow> False)"

definition suffixMatch :: "string \<Rightarrow> string \<Rightarrow> bool" where
  "suffixMatch suf str =
     (let len = length suf; offset = int (length str) - int len in
      offset \<ge> 0 \<and> strncasecmp_eq suf (drop (nat offset) str) len)"

definition exact_match :: "string \<Rightarrow> string \<Rightarrow> bool" where
  "exact_match str1 str2 =
     (let len1 = length str1 in
      if len1 \<noteq> length str2 then False else take len1 str1 = take len1 str2)"

definition exactMatch :: "string option \<Rightarrow> string option \<Rightarrow> bool" where
  "exactMatch str1 str2 =
     (case (str1, str2) of (Some a, Some b) \<Rightarrow> exact_match a b | _ \<Rightarrow> False)"

definition containsString :: "string \<Rightarrow> string \<Rightarrow> bool" where
  "containsString haystack needle \<longleftrightarrow> strcasestr haystack needle \<noteq> None"

definition hide :: "string \<Rightarrow> bool" where
  "hide file_name \<longleftrightarrow>
     (file_name \<noteq> [] \<and> hd file_name = CHR ''.'') \<or> suffixMatch ''.disabled'' file_name
     \<or> exact_match ''map.txt'' file_name"

subsection \<open>Display names\<close>

function strip_ext :: "string \<Rightarrow> string" where
  "strip_ext s =
     (case strrchr s (CHR ''.'') of
        None \<Rightarrow> s
      | Some i \<Rightarrow> (let len = length s - i in
                  if len > 2 \<and> len \<le> 5 then strip_ext (take i s) else s))"
  by pat_completeness auto
termination
  by (relation "measure length") (auto dest: strrchr_less)

definition last_paren :: "string \<Rightarrow> nat option" where
  "last_paren s =
     (case strrchr s (CHR ''('') of Some i \<Rightarrow> Some i | None \<Rightarrow> strrchr s (CHR ''[''))"

function strip_parens :: "string \<Rightarrow> string" where
  "strip_parens s =
     (case last_paren s of
        None \<Rightarrow> s
      | Some i \<Rightarrow> if i = 0 then s else strip_parens (take i s))"
  by pat_completeness auto
termination
  by (relation "measure length") (auto simp: last_paren_def split: option.splits dest: strrchr_less)

declare strip_ext.simps [simp del] strip_parens.simps [simp del]

fun trim_trailing :: "string \<Rightarrow> string" where
  \<comment> \<open>\<open>tmp > out_name\<close>: the first character stays even when it is white space\<close>
  "trim_trailing [] = []"
| "trim_trailing (c # s) = c # rev (dropWhile isspace (rev s))"

definition getDisplayName :: "string \<Rightarrow> string \<Rightarrow> string" where
  "getDisplayName plat in_name =
     (let work_name =
            (if suffixMatch (''/'' @ plat) in_name
             then (case strrchr in_name (CHR ''/'') of Some i \<Rightarrow> take i in_name | None \<Rightarrow> in_name)
             else in_name);
          out_name =
            (case strrchr work_name (CHR ''/'') of Some i \<Rightarrow> drop (Suc i) work_name | None \<Rightarrow> in_name);
          out_name = strip_ext out_name;
          work_name = out_name;
          out_name = strip_parens out_name;
          out_name = (if out_name = [] then work_name else out_name)
      in trim_trailing out_name)"

subsection \<open>Emulator names\<close>

definition getEmuName :: "string \<Rightarrow> string" where
  "getEmuName in_name =
     (let out_name =
            (if prefix_match ROMS_PATH in_name then
               (let tmp = drop (length ROMS_PATH + 1) in_name in
                case strchr tmp (CHR ''/'') of Some i \<Rightarrow> take i tmp | None \<Rightarrow> tmp)
             else in_name)
      in case strrchr out_name (CHR ''('') of
           None \<Rightarrow> out_name
         | Some i \<Rightarrow>
             (let tmp = drop (i + 1) out_name in
              case strchr tmp (CHR '')'') of Some j \<Rightarrow> take j tmp | None \<Rightarrow> tmp))"

definition getEmuPath :: "fs \<Rightarrow> string \<Rightarrow> string \<Rightarrow> string" where
  "getEmuPath fs plat emu_name =
     (let pak_path = SDCARD_PATH @ ''/Emus/'' @ plat @ ''/'' @ emu_name @ ''.pak/launch.sh'' in
      if exists fs pak_path then pak_path
      else paks_path plat @ ''/Emus/'' @ emu_name @ ''.pak/launch.sh'')"

subsection \<open>Lines\<close>

definition normalizeNewline :: "string \<Rightarrow> string" where
  "normalizeNewline line =
     (let len = length line in
      if len > 1 \<and> line ! (len - 1) = char_newline \<and> line ! (len - 2) = char_return
      then take (len - 2) line @ [char_newline] else line)"

definition trimTrailingNewlines :: "string \<Rightarrow> string" where
  "trimTrailingNewlines line = rev (dropWhile (\<lambda>c. c = char_newline) (rev line))"

definition trimSortingMeta :: "string \<Rightarrow> string" where
  "trimSortingMeta str =
     (case dropWhile isdigit str of
        [] \<Rightarrow> str
      | c # rest \<Rightarrow> if c = CHR '')'' then dropWhile isblank rest else str)"

text \<open>The common use of the two line helpers: read a line, normalise it, trim it.\<close>

definition clean_line :: "string \<Rightarrow> string" where
  "clean_line line = trimTrailingNewlines (normalizeNewline line)"

subsection \<open>Facts\<close>

lemma exact_match_eq [simp]: "exact_match a b \<longleftrightarrow> a = b"
  by (auto simp: exact_match_def Let_def)

lemma exactMatch_Some [simp]: "exactMatch (Some a) (Some b) \<longleftrightarrow> a = b"
  by (simp add: exactMatch_def)

lemma exactMatch_None [simp]: "\<not> exactMatch None b" "\<not> exactMatch a None"
  by (auto simp: exactMatch_def split: option.splits)

lemma prefix_match_append [simp]: "prefix_match p (p @ s)"
  by (simp add: prefix_match_def strncasecmp_eq_def)

lemma prefix_match_refl [simp]: "prefix_match p p"
  by (simp add: prefix_match_def)

lemma suffixMatch_append [simp]: "suffixMatch p (s @ p)"
  by (simp add: suffixMatch_def)

lemma suffixMatch_iff:
  "suffixMatch p s \<longleftrightarrow> length p \<le> length s \<and> map tolower p = map tolower (drop (length s - length p) s)"
proof (cases "length p \<le> length s")
  case True
  then show ?thesis
    by (simp add: suffixMatch_def strncasecmp_eq_def Let_def of_nat_diff [symmetric] del: of_nat_diff)
next
  case False
  then show ?thesis by (simp add: suffixMatch_def Let_def)
qed

lemma normalizeNewline_crlf:
  "normalizeNewline (s @ [char_return, char_newline]) = s @ [char_newline]"
  by (simp add: normalizeNewline_def nth_append)

lemma normalizeNewline_lf:
  "s = [] \<or> last s \<noteq> char_return \<Longrightarrow> normalizeNewline (s @ [char_newline]) = s @ [char_newline]"
  by (auto simp: normalizeNewline_def Let_def nth_append last_conv_nth)

lemma trimTrailingNewlines_append:
  "s = [] \<or> last s \<noteq> char_newline \<Longrightarrow> trimTrailingNewlines (s @ [char_newline]) = s"
  by (cases s rule: rev_cases) (auto simp: trimTrailingNewlines_def)

lemma clean_line_lf:
  assumes "char_newline \<notin> set s" and "char_return \<notin> set s"
  shows "clean_line (s @ [char_newline]) = s"
proof -
  have "s = [] \<or> last s \<noteq> char_return" "s = [] \<or> last s \<noteq> char_newline"
    using assms last_in_set by metis+
  then show ?thesis
    by (simp add: clean_line_def normalizeNewline_lf trimTrailingNewlines_append)
qed

lemma clean_line_crlf:
  assumes "char_newline \<notin> set s"
  shows "clean_line (s @ [char_return, char_newline]) = s"
proof -
  have "s = [] \<or> last s \<noteq> char_newline" using assms last_in_set by metis
  then show ?thesis
    by (simp add: clean_line_def normalizeNewline_crlf trimTrailingNewlines_append)
qed

lemma clean_line_Nil [simp]: "clean_line [char_newline] = []" "clean_line [] = []"
  by (simp_all add: clean_line_def normalizeNewline_def trimTrailingNewlines_def)

text \<open>The whole of a text file that was written line by line is read back line by line.\<close>

definition write_lines :: "string list \<Rightarrow> string" where
  "write_lines ls = concat (map (\<lambda>l. l @ [char_newline]) ls)"

definition plain_line :: "string \<Rightarrow> bool" where
  "plain_line l \<longleftrightarrow> char_newline \<notin> set l \<and> char_return \<notin> set l"

lemma write_lines_simps [simp]:
  "write_lines [] = []" "write_lines (l # ls) = l @ char_newline # write_lines ls"
  by (simp_all add: write_lines_def)

lemma fgets_all_write_lines:
  "\<forall>l \<in> set ls. plain_line l \<and> length l + 1 < n \<Longrightarrow>
   fgets_all n (write_lines ls) = map (\<lambda>l. l @ [char_newline]) ls"
  by (induction ls) (simp_all add: fgets_all_line plain_line_def)

lemma read_lines_write_lines:
  "\<forall>l \<in> set ls. plain_line l \<and> length l + 1 < n \<Longrightarrow>
   map clean_line (fgets_all n (write_lines ls)) = ls"
  by (induction ls) (simp_all add: fgets_all_line clean_line_lf plain_line_def)

text \<open>Case-insensitive comparison cannot confuse a separator with another character.\<close>

lemma tolower_fixed:
  assumes "tolower c = d" and "of_char d < (65::nat)"
  shows "c = d"
proof (cases "65 \<le> (of_char c :: nat) \<and> (of_char c :: nat) \<le> 90")
  case True
  then have "(of_char (tolower c) :: nat) \<ge> 65" by (simp add: tolower_def)
  then show ?thesis using assms by simp
next
  case False
  then show ?thesis using assms by (simp add: tolower_def split: if_splits)
qed

lemma tolower_in_set: "of_char d < (65::nat) \<Longrightarrow> d \<in> tolower ` set s \<longleftrightarrow> d \<in> set s"
proof -
  assume d: "of_char d < (65::nat)"
  then have "tolower d = d" by (simp add: tolower_def)
  with d show ?thesis using tolower_fixed [of _ d] by (metis image_iff)
qed

lemma map_tolower_in_set:
  assumes "map tolower a = map tolower b" and "of_char d < (65::nat)"
  shows "d \<in> set a \<longleftrightarrow> d \<in> set b"
  using tolower_in_set [OF assms(2), of a] tolower_in_set [OF assms(2), of b] assms(1)
  by (metis set_map)

text \<open>A suffix test against \<open>/plat\<close> looks at the last path component only.\<close>

lemma suffixMatch_component:
  assumes "suffixMatch (''/'' @ p) (d @ ''/'' @ n)" and "CHR ''/'' \<notin> set n" and "CHR ''/'' \<notin> set p"
  shows "map tolower n = map tolower p"
proof -
  let ?s = "d @ ''/'' @ n" and ?l = "length p"
  define off where "off = length ?s - Suc ?l"
  obtain u where u: "u = drop off ?s" by blast
  have "map tolower u = map tolower (''/'' @ p)"
    using assms(1) by (simp add: suffixMatch_iff off_def u)
  then have "map tolower u = tolower (CHR ''/'') # map tolower p" by simp
  then obtain c w where cw: "u = c # w" "tolower c = tolower (CHR ''/'')"
    "map tolower w = map tolower p"
    by (auto simp only: map_eq_Cons_conv)
  note w = cw(1) [unfolded u] cw(2,3)
  have "c = CHR ''/''" using tolower_fixed [OF w(2)] by (simp add: tolower_def)
  moreover have "CHR ''/'' \<notin> set w" using w(3) assms(3) map_tolower_in_set [of w p "CHR ''/''"] by simp
  moreover have "take off ?s @ drop off ?s = ?s" by (rule append_take_drop_id)
  ultimately have "n = w"
    using w(1) assms(2) last_occurrence_unique [of d "CHR ''/''" n "take off ?s" w] by simp
  with w(3) show ?thesis by simp
qed

text \<open>Stripping extensions or parentheses only shortens the name.\<close>

lemma strip_ext_keeps:
  "CHR ''.'' \<notin> set p \<Longrightarrow> \<exists>r'. strip_ext (p @ r) = p @ r'"
proof (induction "length r" arbitrary: r rule: less_induct)
  case less
  show ?case
  proof (cases "strrchr (p @ r) (CHR ''.'')")
    case None
    then show ?thesis by (auto simp: strip_ext.simps)
  next
    case (Some i)
    then have i: "i < length (p @ r)" "(p @ r) ! i = CHR ''.''" using strrchr_Some by blast+
    have ge: "length p \<le> i" using i less.prems by (metis nth_append not_le nth_mem)
    then have "\<exists>r'. strip_ext (p @ take (i - length p) r) = p @ r'"
      using i less by (intro less.hyps) auto
    with Some ge show ?thesis by (subst strip_ext.simps) (auto simp: Let_def)
  qed
qed

lemma strip_parens_prefix:
  assumes "p \<noteq> []" and "CHR ''('' \<notin> set p" and "CHR ''['' \<notin> set p"
  shows "strip_parens (p @ CHR ''('' # r) = p"
proof (induction "length r" arbitrary: r rule: less_induct)
  case less
  let ?s = "p @ CHR ''('' # r"
  have base: "strip_parens p = p"
    using assms(2,3) by (simp add: strip_parens.simps last_paren_def strrchr_None [THEN iffD2])
  have "strrchr ?s (CHR ''('') \<noteq> None" by (simp add: strrchr_None)
  then obtain i where i: "strrchr ?s (CHR ''('') = Some i" by blast
  then have s: "i < length ?s" "?s ! i = CHR ''(''" using strrchr_Some by blast+
  then have ge: "length p \<le> i" using assms(2) by (metis nth_append not_le nth_mem)
  have step: "strip_parens ?s = strip_parens (take i ?s)"
    using i ge assms(1) by (subst strip_parens.simps) (auto simp: last_paren_def)
  show ?case
  proof (cases "i = length p")
    case True
    then show ?thesis using step base by simp
  next
    case False
    then have "take i ?s = p @ CHR ''('' # take (i - length p - 1) r"
      using ge by (simp add: take_Cons')
    moreover have "strip_parens (p @ CHR ''('' # take (i - length p - 1) r) = p"
      using False ge s by (intro less) auto
    ultimately show ?thesis using step by simp
  qed
qed

lemma trim_trailing_one:
  assumes "p \<noteq> []" and "\<not> isspace (last p)"
  shows "trim_trailing (p @ '' '') = p"
proof -
  obtain c s where p: "p = c # s" using assms(1) by (cases p) auto
  have "isspace (CHR '' '')" by (simp add: isspace_def)
  moreover have "s \<noteq> [] \<Longrightarrow> dropWhile isspace (rev s) = rev s"
    using assms(2) p by (intro dropWhile_none) (simp add: hd_rev)
  ultimately show ?thesis using p by (cases "s = []") auto
qed

lemma map_tolower_subset_absent:
  assumes "map tolower n = map tolower p" and "of_char d < (65::nat)" and "d \<notin> set p"
  shows "d \<notin> set n"
  using map_tolower_in_set [OF assms(1,2)] assms(3) by simp

subsection \<open>Properties\<close>

text \<open>The display name of a file \<open>dir/Name (...anything...)\<close>, the shape of the library's ROM files
  with region tags, disc numbers and extensions after the name, is \<open>Name\<close>: extensions, all the
  parenthesised tags and the blank before them are removed and nothing of the name is lost.\<close>

theorem getDisplayName_tagged:
  assumes "name \<noteq> []" and "\<not> isspace (last name)"
    and "set name \<inter> {CHR ''/'', CHR ''.'', CHR ''('', CHR ''[''} = {}"
    and "CHR ''/'' \<notin> set tail" and "set plat \<inter> {CHR ''/'', CHR ''(''} = {}"
  shows "getDisplayName plat (dir @ ''/'' @ name @ '' ('' @ tail) = name"
proof -
  let ?file = "name @ '' ('' @ tail"
  have slash: "CHR ''/'' \<notin> set ?file" using assms by auto
  have "\<not> suffixMatch (''/'' @ plat) (dir @ ''/'' @ ?file)"
  proof
    assume "suffixMatch (''/'' @ plat) (dir @ ''/'' @ ?file)"
    then have "map tolower ?file = map tolower plat"
      using slash assms(5) by (intro suffixMatch_component [of plat dir]) auto
    then have "CHR ''('' \<notin> set ?file"
      using assms(5) by (intro map_tolower_subset_absent [of ?file plat]) auto
    then show False by simp
  qed
  moreover have "strrchr (dir @ ''/'' @ ?file) (CHR ''/'') = Some (length dir)"
    using strrchr_append [OF slash, of dir] by simp
  moreover obtain r where r: "strip_ext ((name @ '' ('') @ tail) = (name @ '' ('') @ r"
    using strip_ext_keeps [of "name @ '' (''" tail] assms(3) by auto
  moreover have "strip_parens ((name @ '' '') @ CHR ''('' # r) = name @ '' ''"
    using assms by (intro strip_parens_prefix) auto
  ultimately show ?thesis
    using trim_trailing_one [OF assms(1,2)] by (simp add: getDisplayName_def)
qed

theorem getDisplayName_tagged_witness:
  "getDisplayName ''rg35xx'' (''/mnt/sdcard/Roms/PS (PS)'' @ ''/'' @ ''Alpha'' @ '' ('' @ ''USA) [!].p8.png'')
   = ''Alpha''"
  by (rule getDisplayName_tagged) (simp_all add: isspace_def)

text \<open>For every file at any depth below \<open>Roms/Name (TAG)/\<close> the emulator name is \<open>TAG\<close>, whatever
  parentheses the file's own path holds, and it is the name the folder itself gives.\<close>

theorem getEmuName_rom:
  assumes "set tag \<inter> {CHR ''/'', CHR ''('', CHR '')''} = {}" and "CHR ''/'' \<notin> set name"
  shows "getEmuName (ROMS_PATH @ ''/'' @ name @ ''('' @ tag @ '')'' @ ''/'' @ rom) = tag
         \<and> getEmuName (ROMS_PATH @ ''/'' @ name @ ''('' @ tag @ '')'') = tag"
proof -
  let ?folder = "name @ ''('' @ tag @ '')''"
  have folder: "CHR ''/'' \<notin> set ?folder" using assms by auto
  have "strrchr ?folder (CHR ''('') = Some (length name)"
    using strrchr_append [of "CHR ''(''" "tag @ '')''" name] assms(1) by simp
  moreover have "strchr (tag @ '')'') (CHR '')'') = Some (length tag)"
    using strchr_append [of "CHR '')''" tag "[]"] assms(1) by simp
  moreover have "strchr (?folder @ ''/'' @ rom) (CHR ''/'') = Some (length ?folder)"
    using strchr_append [OF folder, of rom] by simp
  moreover have "strchr ?folder (CHR ''/'') = None" using folder strchr_None by blast
  ultimately show ?thesis by (simp add: getEmuName_def)
qed

theorem getEmuName_rom_witness:
  "getEmuName (ROMS_PATH @ ''/'' @ ''Game Boy '' @ ''('' @ ''GB'' @ '')'' @ ''/'' @ ''Disc (1)/a(b).gb'') = ''GB''"
  by (rule getEmuName_rom [THEN conjunct1]) simp_all

text \<open>\<open>trimSortingMeta\<close> removes exactly a sorting prefix: digits, a closing parenthesis and the
  blanks after it; a name without such a prefix (a year, a number, a plain name) is unchanged.\<close>

theorem trimSortingMeta_spec:
  "(\<forall>ds bs rest. (\<forall>c \<in> set ds. isdigit c) \<and> (\<forall>c \<in> set bs. isblank c)
      \<and> (rest = [] \<or> \<not> isblank (hd rest)) \<longrightarrow> trimSortingMeta (ds @ '')'' @ bs @ rest) = rest)
   \<and> (\<forall>s. (\<nexists>ds rest. (\<forall>c \<in> set ds. isdigit c) \<and> s = ds @ '')'' @ rest) \<longrightarrow> trimSortingMeta s = s)"
proof (intro conjI allI impI, goal_cases)
  case (1 ds bs rest)
  have "dropWhile isdigit (ds @ CHR '')'' # bs @ rest) = CHR '')'' # bs @ rest"
    using 1 by (intro dropWhile_append_stop) (simp_all add: isdigit_def)
  moreover have "dropWhile isblank (bs @ rest) = rest"
    using 1 by (simp add: dropWhile_append2 dropWhile_none)
  ultimately show ?case by (simp add: trimSortingMeta_def)
next
  case (2 s)
  then have "\<not> (\<exists>rest. dropWhile isdigit s = CHR '')'' # rest)"
    by (metis append_Cons append_Nil set_takeWhileD takeWhile_dropWhile_id)
  then show ?case by (auto simp: trimSortingMeta_def split: list.splits)
qed

theorem trimSortingMeta_spec_witness:
  "trimSortingMeta (''01'' @ '')'' @ '' '' @ ''Zelda'') = ''Zelda'' \<and> trimSortingMeta ''1942'' = ''1942''"
proof
  show "trimSortingMeta (''01'' @ '')'' @ '' '' @ ''Zelda'') = ''Zelda''"
    by (rule trimSortingMeta_spec [THEN conjunct1, rule_format]) (simp add: isdigit_def isblank_def char_tab_def)
  show "trimSortingMeta ''1942'' = ''1942''" by (simp add: trimSortingMeta_def isdigit_def)
qed

end
