(* ===== verification/Collections.thy ===== *)
theory Collections
  imports Utils
begin

text \<open>
  The launcher's containers, \<open>minui/collections.c\<close>: the growing \<open>Array\<close> of pointers, the string
  \<open>Hash\<close> made of two arrays, and the bounded \<open>IntArray\<close>.

  \<open>items\<close> is the allocated block: its length is what \<open>malloc\<close>/\<open>realloc\<close> really returned, apart from
  the \<open>capacity\<close> field the code keeps. A slot is a pointer (\<open>None\<close> is NULL or not yet written). The
  result of \<open>realloc\<close> is the argument \<open>ok\<close>; a write outside the block is the result \<open>None\<close>. The
  locale \<open>growing_seq\<close> is the interface the launcher uses, a sequence that grows at both ends; its
  interpretation on \<open>Array\<close> lets the other components work with lists.
\<close>

record 'a Array =
  count :: nat
  capacity :: nat
  items :: "'a option list"

definition Array_new :: "'a Array" where
  "Array_new = \<lparr>count = 0, capacity = 8, items = replicate 8 None\<rparr>"

definition Array_write :: "'a Array \<Rightarrow> 'a option \<Rightarrow> 'a Array option" where
  \<comment> \<open>\<open>self->items[self->count++] = item\<close>\<close>
  "Array_write self item =
     (if count self < length (items self)
      then Some (self\<lparr>items := (items self)[count self := item], count := count self + 1\<rparr>)
      else None)"

definition Array_push :: "bool \<Rightarrow> 'a Array \<Rightarrow> 'a option \<Rightarrow> 'a Array option" where
  "Array_push ok self item =
     (if count self \<ge> capacity self then
        (let self = self\<lparr>capacity := capacity self * 2\<rparr> in
         if \<not> ok then Some self
         else Array_write
                (self\<lparr>items := take (capacity self) (items self)
                        @ replicate (capacity self - length (items self)) None\<rparr>) item)
      else Array_write self item)"

fun shift_up :: "nat \<Rightarrow> 'b list \<Rightarrow> 'b list" where
  \<comment> \<open>\<open>for (i = n-1; i>=0; i--) items[i+1] = items[i]\<close>\<close>
  "shift_up 0 xs = xs"
| "shift_up (Suc i) xs = shift_up i (xs[Suc i := xs ! i])"

definition Array_unshift :: "bool \<Rightarrow> 'a Array \<Rightarrow> 'a option \<Rightarrow> 'a Array option" where
  "Array_unshift ok self item =
     (if count self = 0 then Array_push ok self item
      else (case Array_push ok self None of
              None \<Rightarrow> None
            | Some self \<Rightarrow>
                Some (self\<lparr>items := (shift_up (count self - 1) (items self))[0 := item]\<rparr>)))"

definition Array_pop :: "'a Array \<Rightarrow> 'a option \<times> 'a Array" where
  "Array_pop self =
     (if count self = 0 then (None, self)
      else (items self ! (count self - 1), self\<lparr>count := count self - 1\<rparr>))"

fun swap_loop :: "nat \<Rightarrow> nat list \<Rightarrow> 'b list \<Rightarrow> 'b list" where
  \<comment> \<open>swap \<open>items[i]\<close> and \<open>items[end-i]\<close> for the indices in turn\<close>
  "swap_loop e [] xs = xs"
| "swap_loop e (i # is) xs = swap_loop e is (xs[i := xs ! (e - i), e - i := xs ! i])"

definition Array_reverse :: "'a Array \<Rightarrow> 'a Array" where
  "Array_reverse self =
     self\<lparr>items := swap_loop (count self - 1) [0..<count self div 2] (items self)\<rparr>"

fun index_from :: "nat \<Rightarrow> string \<Rightarrow> string option list \<Rightarrow> int" where
  "index_from i str [] = -1"
| "index_from i str (p # ps) = (if exactMatch p (Some str) then int i else index_from (i + 1) str ps)"

definition StringArray_indexOf :: "string Array \<Rightarrow> string \<Rightarrow> int" where
  "StringArray_indexOf self str = index_from 0 str (take (count self) (items self))"

record Hash =
  hkeys :: "string Array"
  hvalues :: "string Array"

definition Hash_new :: Hash where
  "Hash_new = \<lparr>hkeys = Array_new, hvalues = Array_new\<rparr>"

definition Hash_set :: "bool \<Rightarrow> bool \<Rightarrow> Hash \<Rightarrow> string \<Rightarrow> string \<Rightarrow> Hash option" where
  "Hash_set ok1 ok2 self key val =
     (case Array_push ok1 (hkeys self) (Some key) of
        None \<Rightarrow> None
      | Some ks \<Rightarrow> (case Array_push ok2 (hvalues self) (Some val) of
                     None \<Rightarrow> None
                   | Some vs \<Rightarrow> Some (self\<lparr>hkeys := ks, hvalues := vs\<rparr>)))"

definition Hash_get :: "Hash \<Rightarrow> string \<Rightarrow> string option" where
  "Hash_get self key =
     (let i = StringArray_indexOf (hkeys self) key in
      if i = -1 then None else items (hvalues self) ! nat i)"

definition INT_ARRAY_MAX :: nat where "INT_ARRAY_MAX = 27"

record IntArray =
  icount :: nat
  iitems :: "int list"

definition IntArray_new :: IntArray where
  "IntArray_new = \<lparr>icount = 0, iitems = replicate INT_ARRAY_MAX 0\<rparr>"

definition IntArray_push :: "IntArray \<Rightarrow> int \<Rightarrow> IntArray" where
  "IntArray_push self i =
     (if icount self \<ge> INT_ARRAY_MAX then self
      else self\<lparr>iitems := (iitems self)[icount self := i], icount := icount self + 1\<rparr>)"

subsection \<open>Representation\<close>

definition arr :: "'a Array \<Rightarrow> 'a option list" where
  "arr self = take (count self) (items self)"

definition Array_ok :: "'a Array \<Rightarrow> bool" where
  "Array_ok self \<longleftrightarrow> count self \<le> capacity self \<and> length (items self) = capacity self \<and> 0 < capacity self"

definition ints :: "IntArray \<Rightarrow> int list" where
  "ints self = take (icount self) (iitems self)"

definition IntArray_ok :: "IntArray \<Rightarrow> bool" where
  "IntArray_ok self \<longleftrightarrow> icount self \<le> INT_ARRAY_MAX \<and> length (iitems self) = INT_ARRAY_MAX"

lemmas array_defs = arr_def Array_ok_def

subsection \<open>The interface of a growing sequence\<close>

locale growing_seq =
  fixes inv :: "'s \<Rightarrow> bool" and elems :: "'s \<Rightarrow> 'a list" and new :: 's
    and push :: "'s \<Rightarrow> 'a \<Rightarrow> 's option" and unshift :: "'s \<Rightarrow> 'a \<Rightarrow> 's option"
    and pop :: "'s \<Rightarrow> 'a \<times> 's" and reverse :: "'s \<Rightarrow> 's"
  assumes new: "inv new \<and> elems new = []"
    and push: "inv s \<Longrightarrow> \<exists>s'. push s x = Some s' \<and> inv s' \<and> elems s' = elems s @ [x]"
    and unshift: "inv s \<Longrightarrow> \<exists>s'. unshift s x = Some s' \<and> inv s' \<and> elems s' = x # elems s"
    and pop: "inv s \<Longrightarrow> elems s \<noteq> [] \<Longrightarrow>
              fst (pop s) = last (elems s) \<and> inv (snd (pop s)) \<and> elems (snd (pop s)) = butlast (elems s)"
    and reverse: "inv s \<Longrightarrow> inv (reverse s) \<and> elems (reverse s) = rev (elems s)"
begin

fun push_all :: "'s \<Rightarrow> 'a list \<Rightarrow> 's option" where
  "push_all s [] = Some s"
| "push_all s (x # xs) = Option.bind (push s x) (\<lambda>s'. push_all s' xs)"

lemma push_all_elems: "inv s \<Longrightarrow> \<exists>s'. push_all s xs = Some s' \<and> inv s' \<and> elems s' = elems s @ xs"
proof (induction xs arbitrary: s)
  case (Cons x xs)
  then obtain s1 where "push s x = Some s1" "inv s1" "elems s1 = elems s @ [x]"
    using push by blast
  with Cons.IH [of s1] show ?case by auto
qed simp

lemma pop_after_push:
  assumes "inv s" and "push s x = Some s'"
  shows "fst (pop s') = x \<and> inv (snd (pop s')) \<and> elems (snd (pop s')) = elems s"
proof -
  have "inv s'" "elems s' = elems s @ [x]" using push [OF assms(1), of x] assms(2) by auto
  with pop [of s'] show ?thesis by simp
qed

lemma reverse_is_unshift_all:
  "inv s \<Longrightarrow> elems (reverse s) = fold (\<lambda>x acc. x # acc) (elems s) []"
  by (simp add: reverse fold_Cons_rev)

end

subsection \<open>Array implements the interface\<close>

lemma Array_new_ok: "Array_ok Array_new" "arr Array_new = []"
  by (simp_all add: Array_new_def array_defs)

lemma Array_write_ok:
  assumes "Array_ok self" and "count self < capacity self"
  shows "\<exists>s'. Array_write self x = Some s' \<and> Array_ok s' \<and> arr s' = arr self @ [x]
              \<and> count s' = count self + 1"
  using assms by (auto simp: Array_write_def array_defs take_Suc_conv_app_nth)

lemma Array_push_ok:
  assumes "Array_ok self"
  shows "\<exists>s'. Array_push True self x = Some s' \<and> Array_ok s' \<and> arr s' = arr self @ [x]
              \<and> count s' = count self + 1"
proof (cases "count self \<ge> capacity self")
  case True
  let ?c = "capacity self * 2"
  let ?s = "self\<lparr>capacity := ?c, items := take ?c (items self) @ replicate (?c - length (items self)) None\<rparr>"
  have s: "Array_ok ?s" "count ?s < capacity ?s" "arr ?s = arr self" "count ?s = count self"
    using assms True by (auto simp: array_defs)
  moreover have "Array_push True self x = Array_write ?s x"
    using True by (simp add: Array_push_def)
  ultimately show ?thesis using Array_write_ok [OF s(1,2), of x] by simp
next
  case False
  then show ?thesis using assms Array_write_ok [of self x] by (simp add: Array_push_def)
qed

lemma shift_up_length [simp]: "length (shift_up k xs) = length xs"
  by (induction k xs rule: shift_up.induct) simp_all

lemma shift_up_nth:
  "k < length xs \<Longrightarrow> j < length xs \<Longrightarrow>
   shift_up k xs ! j = (if 0 < j \<and> j \<le> k then xs ! (j - 1) else xs ! j)"
proof (induction k xs rule: shift_up.induct)
  case (2 i xs)
  then show ?case by (cases "j = Suc i") (auto simp: nth_list_update)
qed simp

lemma shift_up_front:
  assumes "k < length xs"
  shows "take (Suc k) ((shift_up k xs)[0 := x]) = x # take k xs"
proof (rule nth_equalityI)
  show "length (take (Suc k) ((shift_up k xs)[0 := x])) = length (x # take k xs)"
    using assms by simp
  fix j assume "j < length (take (Suc k) ((shift_up k xs)[0 := x]))"
  then show "take (Suc k) ((shift_up k xs)[0 := x]) ! j = (x # take k xs) ! j"
    using assms by (cases j; cases xs) (simp_all add: nth_list_update shift_up_nth)
qed

lemma Array_unshift_ok:
  assumes "Array_ok self"
  shows "\<exists>s'. Array_unshift True self x = Some s' \<and> Array_ok s' \<and> arr s' = x # arr self"
proof (cases "count self = 0")
  case True
  then show ?thesis
    using Array_push_ok [OF assms, of x] by (auto simp: Array_unshift_def arr_def)
next
  case False
  obtain s where s: "Array_push True self None = Some s" "Array_ok s" "arr s = arr self @ [None]"
    "count s = count self + 1"
    using Array_push_ok [OF assms] by blast
  let ?s' = "s\<lparr>items := (shift_up (count self) (items s))[0 := x]\<rparr>"
  have len: "count self < length (items s)" using s(2,4) by (simp add: Array_ok_def)
  have "arr ?s' = x # take (count self) (items s)"
    using shift_up_front [OF len, of x] s(4) by (simp add: arr_def)
  moreover have "take (count self) (items s) = arr self"
  proof -
    have "length (arr self) = count self" using assms by (simp add: array_defs)
    then have "take (count self) (arr s) = arr self" using s(3) by simp
    then show ?thesis using s(4) by (simp add: arr_def)
  qed
  moreover have "Array_ok ?s'" using s(2) by (simp add: Array_ok_def)
  ultimately show ?thesis using False s(1,4) by (simp add: Array_unshift_def)
qed

lemma Array_pop_ok:
  assumes "Array_ok self" and "arr self \<noteq> []"
  shows "fst (Array_pop self) = last (arr self) \<and> Array_ok (snd (Array_pop self))
         \<and> arr (snd (Array_pop self)) = butlast (arr self)"
proof -
  have c: "count self \<noteq> 0" "length (arr self) = count self" using assms by (auto simp: array_defs)
  then have "last (arr self) = items self ! (count self - 1)"
    using assms by (simp add: last_conv_nth arr_def)
  moreover have "butlast (arr self) = take (count self - 1) (items self)"
    using c by (simp add: butlast_conv_take arr_def min_def)
  ultimately show ?thesis using assms c by (auto simp: Array_pop_def array_defs)
qed

lemma swap_loop_length [simp]: "length (swap_loop e is xs) = length xs"
  by (induction e "is" xs rule: swap_loop.induct) simp_all

lemma swap_loop_snoc: "swap_loop e (is @ [i]) xs =
    (let ys = swap_loop e is xs in ys[i := ys ! (e - i), e - i := ys ! i])"
  by (induction e "is" xs rule: swap_loop.induct) simp_all

lemma swap_loop_nth:
  assumes "0 < n" and "n \<le> length xs" and "k \<le> n div 2" and "j < length xs"
  shows "swap_loop (n - 1) [0..<k] xs ! j =
         (if j < n \<and> (j < k \<or> n - k \<le> j) then xs ! (n - 1 - j) else xs ! j)"
  using assms(3,4)
proof (induction k arbitrary: j)
  case 0
  then show ?case by auto
next
  case (Suc k)
  let ?ys = "swap_loop (n - 1) [0..<k] xs"
  have k: "k < n" "n - 1 - k < n" "k < n - 1 - k" using Suc.prems(1) by linarith+
  have "swap_loop (n - 1) [0..<Suc k] xs = ?ys[k := ?ys ! (n - 1 - k), n - 1 - k := ?ys ! k]"
    by (simp add: swap_loop_snoc Let_def)
  moreover have "?ys ! k = xs ! k" "?ys ! (n - 1 - k) = xs ! (n - 1 - k)"
    using Suc k assms(1,2) by auto
  moreover have "?ys ! j = (if j < n \<and> (j < k \<or> n - k \<le> j) then xs ! (n - 1 - j) else xs ! j)"
    using Suc by simp
  ultimately show ?case
    using Suc.prems k assms(1,2) by (auto simp: nth_list_update)
qed

lemma Array_reverse_ok:
  assumes "Array_ok self"
  shows "Array_ok (Array_reverse self) \<and> arr (Array_reverse self) = rev (arr self)"
proof (cases "count self = 0")
  case True
  then show ?thesis using assms by (simp add: Array_reverse_def array_defs)
next
  case False
  have len: "count self \<le> length (items self)" using assms by (simp add: Array_ok_def)
  have "take (count self) (swap_loop (count self - 1) [0..<count self div 2] (items self)) ! j
        = rev (take (count self) (items self)) ! j" if j: "j < count self" for j
  proof -
    have "j < count self div 2 \<or> count self - count self div 2 \<le> j \<or> j = count self - 1 - j"
      using j by linarith
    then have "swap_loop (count self - 1) [0..<count self div 2] (items self) ! j
               = items self ! (count self - 1 - j)"
      using j len False swap_loop_nth [of "count self" "items self" "count self div 2" j] by auto
    then show ?thesis using j len by (simp add: rev_nth)
  qed
  then have "arr (Array_reverse self) = rev (arr self)"
    using len by (intro nth_equalityI) (simp_all add: arr_def Array_reverse_def)
  then show ?thesis using assms by (simp add: Array_ok_def Array_reverse_def)
qed

interpretation array: growing_seq Array_ok arr Array_new "Array_push True" "Array_unshift True"
  Array_pop Array_reverse
proof (unfold_locales, goal_cases)
  case 1 show ?case by (simp add: Array_new_ok)
next
  case (2 s x) then show ?case using Array_push_ok by blast
next
  case (3 s x) then show ?case by (rule Array_unshift_ok)
next
  case (4 s) then show ?case by (rule Array_pop_ok)
next
  case (5 s) then show ?case by (rule Array_reverse_ok)
qed

subsection \<open>Programs over an Array\<close>

text \<open>An operation that may grow the array carries the answer \<open>realloc\<close> gives should it be asked.\<close>

datatype 'a array_op = Push bool "'a option" | Unshift bool "'a option" | Pop | Reverse

text \<open>What the code's array does, with the values popped so far, and the same on a list.\<close>

fun array_step :: "'a array_op \<Rightarrow> 'a option list \<times> 'a Array \<Rightarrow> ('a option list \<times> 'a Array) option" where
  "array_step (Push ok x) (out, a) = map_option (Pair out) (Array_push ok a x)"
| "array_step (Unshift ok x) (out, a) = map_option (Pair out) (Array_unshift ok a x)"
| "array_step Pop (out, a) = (case Array_pop a of (x, a') \<Rightarrow> Some (out @ [x], a'))"
| "array_step Reverse (out, a) = Some (out, Array_reverse a)"

fun list_step :: "'a array_op \<Rightarrow> 'a option list \<times> 'a option list \<Rightarrow> 'a option list \<times> 'a option list" where
  "list_step (Push _ x) (out, xs) = (out, xs @ [x])"
| "list_step (Unshift _ x) (out, xs) = (out, x # xs)"
| "list_step Pop (out, xs) = (if xs = [] then (out @ [None], xs) else (out @ [last xs], butlast xs))"
| "list_step Reverse (out, xs) = (out, rev xs)"

fun array_run :: "'a array_op list \<Rightarrow> 'a option list \<times> 'a Array \<Rightarrow> ('a option list \<times> 'a Array) option" where
  "array_run [] s = Some s"
| "array_run (p # ps) s = Option.bind (array_step p s) (array_run ps)"

fun growth_ok :: "'a array_op \<Rightarrow> 'a Array \<Rightarrow> bool" where
  \<comment> \<open>the array has room, or \<open>realloc\<close> gives it\<close>
  "growth_ok (Push ok x) a = (ok \<or> count a < capacity a)"
| "growth_ok (Unshift ok x) a = (ok \<or> count a < capacity a)"
| "growth_ok _ a = True"

fun memory_permits :: "'a array_op list \<Rightarrow> 'a option list \<times> 'a Array \<Rightarrow> bool" where
  "memory_permits [] s = True"
| "memory_permits (p # ps) s \<longleftrightarrow> growth_ok p (snd s) \<and> (case array_step p s of None \<Rightarrow> False | Some s \<Rightarrow> memory_permits ps s)"

lemma growth_unasked:
  assumes "ok \<or> count a < capacity a"
  shows "Array_push ok a x = Array_push True a x" "Array_unshift ok a x = Array_unshift True a x"
  using assms by (auto simp: Array_push_def Array_unshift_def)

lemma array_step_refines:
  assumes "Array_ok a" "growth_ok p a"
  shows "\<exists>out' a'. array_step p (out, a) = Some (out', a') \<and> Array_ok a'
                   \<and> (out', arr a') = list_step p (out, arr a)"
proof (cases p)
  case Pop
  have "arr a = [] \<longleftrightarrow> count a = 0" using assms by (auto simp: array_defs)
  then show ?thesis
    using Pop assms array.pop [OF assms(1)]
    by (cases "arr a = []") (auto simp: Array_pop_def split: prod.splits)
next
  case (Push ok x)
  then show ?thesis using array.push [OF assms(1), of x] growth_unasked(1) [of ok a x] assms(2) by auto
next
  case (Unshift ok x)
  then show ?thesis using array.unshift [OF assms(1), of x] growth_unasked(2) [of ok a x] assms(2) by auto
qed (use array.reverse [OF assms(1)] in auto)

lemma array_run_refines:
  "Array_ok a \<Longrightarrow> memory_permits ps (out, a) \<Longrightarrow> \<exists>out' a'. array_run ps (out, a) = Some (out', a') \<and> Array_ok a'
                   \<and> (out', arr a') = fold list_step ps (out, arr a)"
proof (induction ps arbitrary: out a)
  case (Cons p ps)
  have "growth_ok p a" using Cons.prems(2) by simp
  from array_step_refines [OF Cons.prems(1) this] obtain o1 a1 where 1: "array_step p (out, a) = Some (o1, a1)" "Array_ok a1"
    "(o1, arr a1) = list_step p (out, arr a)"
    by blast
  then have m: "memory_permits ps (o1, a1)" using Cons.prems(2) by simp
  show ?case using 1(1) 1(3) [symmetric] Cons.IH [OF 1(2) m] by simp
qed simp

lemma memory_permits_append:
  "memory_permits (ps @ qs) s \<longleftrightarrow> memory_permits ps s \<and> (case array_run ps s of None \<Rightarrow> False | Some s \<Rightarrow> memory_permits qs s)"
  by (induction ps arbitrary: s) (auto split: option.splits)

lemma array_run_append: "array_run (ps @ qs) s = Option.bind (array_run ps s) (array_run qs)"
  by (induction ps arbitrary: s) (auto intro: Option.bind_cong split: option.splits)

text \<open>When \<open>realloc\<close> fails a push drops its item; an unshift overwrites the last one. The doubled \<open>capacity\<close> stays.\<close>

fun left_by :: "'a array_op \<Rightarrow> 'a option list \<Rightarrow> 'a option list" where
  "left_by (Unshift _ x) xs = x # butlast xs"
| "left_by _ xs = xs"

lemma failed_growth:
  assumes "Array_ok a" "\<not> growth_ok p a"
  shows "\<exists>b. array_step p (out, a) = Some (out, b) \<and> arr b = left_by p (arr a) \<and> (\<forall>ok y. Array_push ok b y = None)"
proof -
  have full: "count a = capacity a" "0 < count a" "length (items a) = count a" using assms by (cases p; simp add: array_defs; fail)+
  show ?thesis
  proof (cases p)
    case (Push ok x)
    then show ?thesis using full assms(2) by (auto simp: Array_push_def Array_write_def arr_def)
  next
    case (Unshift ok x)
    let ?b = "a\<lparr>capacity := capacity a * 2, items := (shift_up (count a - 1) (items a))[0 := x]\<rparr>"
    have "take (Suc (count a - 1)) ((shift_up (count a - 1) (items a))[0 := x]) = x # take (count a - 1) (items a)"
      using full by (intro shift_up_front) simp
    then have "arr ?b = x # butlast (arr a)" using full by (simp add: arr_def butlast_conv_take)
    moreover have "array_step p (out, a) = Some (out, ?b)"
      using full assms(2) Unshift by (simp add: Array_unshift_def Array_push_def)
    moreover have "Array_push ok' ?b y = None" for ok' y using full by (simp add: Array_push_def Array_write_def)
    ultimately show ?thesis using Unshift by auto
  qed (use assms(2) in simp_all)
qed

subsection \<open>Hash and IntArray\<close>

fun Hash_set_all :: "Hash \<Rightarrow> (string \<times> string) list \<Rightarrow> Hash option" where
  "Hash_set_all h [] = Some h"
| "Hash_set_all h ((k, v) # kvs) = Option.bind (Hash_set True True h k v) (\<lambda>h. Hash_set_all h kvs)"

definition hash_rel :: "(string \<times> string) list \<Rightarrow> Hash \<Rightarrow> bool" where
  "hash_rel kvs h \<longleftrightarrow> Array_ok (hkeys h) \<and> Array_ok (hvalues h)
     \<and> arr (hkeys h) = map (\<lambda>kv. Some (fst kv)) kvs \<and> arr (hvalues h) = map (\<lambda>kv. Some (snd kv)) kvs"

lemma hash_rel_new: "hash_rel [] Hash_new"
  by (simp add: hash_rel_def Hash_new_def array.new)

lemma hash_rel_set:
  assumes "hash_rel kvs h"
  shows "\<exists>h'. Hash_set True True h k v = Some h' \<and> hash_rel (kvs @ [(k, v)]) h'"
proof -
  obtain ks where "Array_push True (hkeys h) (Some k) = Some ks" "Array_ok ks"
    "arr ks = arr (hkeys h) @ [Some k]"
    using assms array.push by (force simp: hash_rel_def)
  moreover obtain vs where "Array_push True (hvalues h) (Some v) = Some vs" "Array_ok vs"
    "arr vs = arr (hvalues h) @ [Some v]"
    using assms array.push by (force simp: hash_rel_def)
  ultimately show ?thesis using assms by (auto simp: Hash_set_def hash_rel_def)
qed

lemma hash_rel_set_all:
  "hash_rel kvs h \<Longrightarrow> \<exists>h'. Hash_set_all h kvs' = Some h' \<and> hash_rel (kvs @ kvs') h'"
proof (induction kvs' arbitrary: kvs h)
  case (Cons kv kvs')
  obtain k v where kv: "kv = (k, v)" by fastforce
  obtain h1 where "Hash_set True True h k v = Some h1" "hash_rel (kvs @ [(k, v)]) h1"
    using hash_rel_set [OF Cons.prems] by blast
  with Cons.IH [of "kvs @ [(k, v)]" h1] kv show ?case by simp
qed simp

lemma index_from_spec:
  "case map_of kvs k of
     None \<Rightarrow> index_from i k (map (\<lambda>kv. Some (fst kv)) kvs) = -1
   | Some v \<Rightarrow> \<exists>j < length kvs. index_from i k (map (\<lambda>kv. Some (fst kv)) kvs) = int (i + j)
                 \<and> snd (kvs ! j) = v"
proof (induction kvs arbitrary: i)
  case (Cons kv kvs)
  show ?case
  proof (cases "fst kv = k")
    case True
    then show ?thesis by (cases kv) auto
  next
    case False
    then show ?thesis
      using Cons [of "i + 1"] by (cases kv) (force split: option.splits)
  qed
qed simp

lemma hash_rel_get:
  assumes "hash_rel kvs h"
  shows "Hash_get h k = map_of kvs k"
proof -
  have idx: "StringArray_indexOf (hkeys h) k = index_from 0 k (map (\<lambda>kv. Some (fst kv)) kvs)"
    using assms by (simp add: StringArray_indexOf_def hash_rel_def arr_def)
  have "items (hvalues h) ! j = Some (snd (kvs ! j))" if "j < length kvs" for j
  proof -
    have "arr (hvalues h) ! j = Some (snd (kvs ! j))" "j < length (arr (hvalues h))"
      using that assms by (simp_all add: hash_rel_def)
    then show ?thesis by (simp add: arr_def)
  qed
  then show ?thesis
    using index_from_spec [where kvs = kvs and k = k and i = 0] by (auto simp: Hash_get_def idx split: option.splits)
qed

lemma IntArray_push_ints:
  "IntArray_ok a \<Longrightarrow> IntArray_ok (IntArray_push a i) \<and> ints (IntArray_push a i) = take INT_ARRAY_MAX (ints a @ [i])"
  by (auto simp: IntArray_push_def IntArray_ok_def ints_def take_Suc_conv_app_nth)

lemma take_take_append: "take n (take n xs @ ys) = take n (xs @ ys)"
  by (simp add: min_def)

lemma IntArray_push_all:
  "IntArray_ok a \<Longrightarrow> IntArray_ok (foldl IntArray_push a is)
     \<and> ints (foldl IntArray_push a is) = take INT_ARRAY_MAX (ints a @ is)"
proof (induction "is" arbitrary: a)
  case Nil
  then show ?case by (simp add: ints_def IntArray_ok_def)
next
  case (Cons i "is")
  have "ints (IntArray_push a i) = take INT_ARRAY_MAX (ints a @ [i])" "IntArray_ok (IntArray_push a i)"
    using IntArray_push_ints [OF Cons.prems, of i] by blast+
  then show ?case
    using Cons.IH [of "IntArray_push a i"] take_take_append [of INT_ARRAY_MAX "ints a @ [i]" "is"]
    by (simp del: take_append)
qed

subsection \<open>Properties\<close>

text \<open>C29: every sequence of pushes, unshifts, pops and reversals of a new \<open>Array\<close>, as long as \<open>realloc\<close> gives memory whenever the array grows,
  stays inside the allocated block, keeps the invariant, and gives the values and the contents the
  same sequence gives on a list. The first time it does not, a push loses its item and an unshift the last element, and whatever is
  pushed next is written outside the block.\<close>

theorem Array_refines_list:
  assumes "memory_permits ps ([], Array_new)"
  shows "\<exists>out a. array_run ps ([], Array_new) = Some (out, a) \<and> Array_ok a \<and> (out, arr a) = fold list_step ps ([], [])
    \<and> (\<not> memory_permits (ps @ [p]) ([], Array_new) \<longrightarrow>
        (\<exists>b. array_run (ps @ [p]) ([], Array_new) = Some (out, b) \<and> arr b = left_by p (arr a) \<and> (\<forall>ok y. Array_push ok b y = None)))"
proof -
  obtain out a where a: "array_run ps ([], Array_new) = Some (out, a)" "Array_ok a" "(out, arr a) = fold list_step ps ([], [])"
    using array_run_refines [OF array.new [THEN conjunct1] assms] by (auto simp: array.new)
  have "\<exists>b. array_run (ps @ [p]) ([], Array_new) = Some (out, b) \<and> arr b = left_by p (arr a) \<and> (\<forall>ok y. Array_push ok b y = None)"
    if fails: "\<not> memory_permits (ps @ [p]) ([], Array_new)"
  proof -
    have "\<not> growth_ok p a"
      using fails a(1) assms array_step_refines [OF a(2), of p out] by (auto simp: memory_permits_append)
    from failed_growth [OF a(2) this, of out] show ?thesis using a(1) by (auto simp: array_run_append)
  qed
  with a show ?thesis by blast
qed

text \<open>Eight items, an unshift for which there is no memory, and the push after it.\<close>

theorem Array_refines_list_witness:
  "\<exists>a b. array_run (map (\<lambda>n. Push False (Some n)) [1..<9]) ([], Array_new) = Some ([], a) \<and> arr a = map Some [1..<9]
     \<and> array_run (map (\<lambda>n. Push False (Some n)) [1..<9] @ [Unshift False (Some 0)]) ([], Array_new) = Some ([], b)
     \<and> arr b = map Some [0..<8] \<and> Array_push True b (Some (9 :: nat)) = None"
proof -
  let ?ps = "map (\<lambda>n. Push False (Some n)) [1..<9] :: nat array_op list"
  have m: "memory_permits ?ps ([], Array_new)" "\<not> memory_permits (?ps @ [Unshift False (Some 0)]) ([], Array_new)" by code_simp+
  have "fold list_step ?ps ([], []) = ([], map Some [1..<9])" "left_by (Unshift False (Some 0)) (map Some [1..<9]) = map Some [0..<8 :: nat]"
    by code_simp+
  then show ?thesis using Array_refines_list [OF m(1), of "Unshift False (Some 0)"] m(2) by auto
qed

text \<open>A \<open>Hash\<close> filled by any sequence of \<open>Hash_set\<close> calls maps each key to the value of its first
  \<open>Hash_set\<close>, and keys never set to NULL.\<close>

theorem Hash_get_first_set:
  "\<exists>h. Hash_set_all Hash_new kvs = Some h \<and> (\<forall>k. Hash_get h k = map_of kvs k)"
  using hash_rel_set_all [OF hash_rel_new, of kvs] hash_rel_get by auto

text \<open>An \<open>IntArray\<close> keeps the first 27 of the integers pushed and drops the rest, never writing
  outside its fixed block.\<close>

theorem IntArray_keeps_first:
  "IntArray_ok (foldl IntArray_push IntArray_new is)
   \<and> ints (foldl IntArray_push IntArray_new is) = take INT_ARRAY_MAX is"
  using IntArray_push_all [of IntArray_new "is"] by (simp add: IntArray_new_def IntArray_ok_def ints_def)

end
