(* ===== verification/Directory.thy ===== *)
theory Directory
  imports Collections "HOL-Library.List_Lexorder" "HOL-Library.Multiset"
begin

text \<open>
  The launcher's entries and directories (\<open>minui/minui.c\<close>, lines 15-258): the \<open>Entry\<close> and
  \<open>Directory\<close> structures, sorting, the aliases of \<open>map.txt\<close>, the disambiguation of equal names and
  the alphabetical index used by the shoulder buttons. Arrays are lists (the theory
  \<open>Collections\<close> shows that an \<open>Array\<close> is one); a \<open>map.txt\<close> is the list of its key/value pairs in
  file order, looked up as \<open>Hash_get\<close> does, the first pair of a key winning.
\<close>

datatype EntryType = ENTRY_DIR | ENTRY_PAK | ENTRY_ROM

record Entry =
  path :: string
  name :: string
  unique :: "string option"
  etype :: EntryType
  alpha :: int


definition FAUX_RECENT_PATH :: string where "FAUX_RECENT_PATH = SDCARD_PATH @ ''/Recently Played''"
definition COLLECTIONS_PATH :: string where "COLLECTIONS_PATH = SDCARD_PATH @ ''/Collections''"

definition Entry_new :: "string \<Rightarrow> string \<Rightarrow> EntryType \<Rightarrow> Entry" where
  "Entry_new plat p t =
     \<lparr>path = p, name = getDisplayName plat p, unique = None, etype = t, alpha = 0\<rparr>"

fun EntryArray_indexOf :: "Entry list \<Rightarrow> string \<Rightarrow> int" where
  "EntryArray_indexOf [] p = -1"
| "EntryArray_indexOf (e # es) p =
     (if exact_match (path e) p then 0
      else (let i = EntryArray_indexOf es p in if i = -1 then -1 else i + 1))"

definition sort_name :: "Entry \<Rightarrow> nat list" where
  \<comment> \<open>\<open>EntryArray_sortEntry\<close> compares these keys\<close>
  "sort_name e = casekey (name e)"

definition EntryArray_sort :: "Entry list \<Rightarrow> Entry list" where
  "EntryArray_sort es = sort_key sort_name es"

record Directory =
  dpath :: string
  dname :: string
  entries :: "Entry list"
  alphas :: IntArray
  selected :: int
  start :: int
  end_row :: int

definition getIndexChar :: "string \<Rightarrow> int" where
  "getIndexChar str =
     (case str of [] \<Rightarrow> 0
      | ch # _ \<Rightarrow> (let c = of_char (tolower ch) :: nat in
                 if 97 \<le> c \<and> c \<le> 122 then int c - 97 + 1 else 0))"

definition getUniqueName :: "Entry \<Rightarrow> string" where
  "getUniqueName entry =
     snprintf_buf MAX_PATH (name entry @ '' ('' @ getEmuName (path entry) @ '')'')"

subsection \<open>map.txt\<close>

definition filename :: "Entry \<Rightarrow> string" where
  \<comment> \<open>\<open>strrchr(entry->path, '/')+1\<close>\<close>
  "filename e = basename (path e)"

definition map_line :: "string \<Rightarrow> (string \<times> string) list" where
  "map_line raw =
     (let line = trimTrailingNewlines (normalizeNewline raw) in
      if length line = 0 then []
      else (case strchr line char_tab of
              None \<Rightarrow> []
            | Some i \<Rightarrow> [(take i line, drop (Suc i) line)]))"

definition read_map :: "string \<Rightarrow> (string \<times> string) list" where
  "read_map contents = concat (map map_line (fgets_all 256 contents))"

definition load_map :: "fs \<Rightarrow> string \<Rightarrow> (string \<times> string) list option" where
  \<comment> \<open>NULL when the file is missing or cannot be opened\<close>
  "load_map fs map_path =
     (if exists fs map_path then map_option read_map (fopen_r fs map_path) else None)"

definition alias_entry :: "(string \<times> string) list \<Rightarrow> Entry \<Rightarrow> Entry" where
  "alias_entry m e = (case map_of m (filename e) of Some a \<Rightarrow> e\<lparr>name := a\<rparr> | None \<Rightarrow> e)"

definition has_alias :: "(string \<times> string) list \<Rightarrow> Entry \<Rightarrow> bool" where
  "has_alias m e \<longleftrightarrow> map_of m (filename e) \<noteq> None"

definition map_entries :: "(string \<times> string) list \<Rightarrow> Entry list \<Rightarrow> Entry list" where
  \<comment> \<open>rename, then drop the hidden ones if an alias is hidden, then sort again if there was an alias\<close>
  "map_entries m es =
     (let resort = list_ex (has_alias m) es;
          filt = list_ex (\<lambda>e. has_alias m e \<and> hide (name (alias_entry m e))) es;
          es = map (alias_entry m) es;
          es = (if filt then filter (\<lambda>e. \<not> hide (name e)) es else es)
      in if resort then EntryArray_sort es else es)"

subsection \<open>The index\<close>

definition disambiguate :: "Entry \<Rightarrow> Entry \<Rightarrow> Entry \<times> Entry" where
  "disambiguate prior entry =
     (if exact_match (name prior) (name entry) then
        (if exact_match (filename prior) (filename entry)
         then (prior\<lparr>unique := Some (getUniqueName prior)\<rparr>, entry\<lparr>unique := Some (getUniqueName entry)\<rparr>)
         else (prior\<lparr>unique := Some (filename prior)\<rparr>, entry\<lparr>unique := Some (filename entry)\<rparr>))
      else (prior, entry))"

text \<open>The loop of \<open>Directory_index\<close>; \<open>acc\<close> holds the entries done, newest first, so \<open>prior\<close> is its head.\<close>

fun index_loop :: "(string \<times> string) list option \<Rightarrow> bool \<Rightarrow> int \<Rightarrow> Entry list \<Rightarrow> IntArray \<Rightarrow> int \<Rightarrow> int
    \<Rightarrow> Entry list \<Rightarrow> Entry list \<times> IntArray" where
  "index_loop m skip_index i acc al alpha_c index [] = (rev acc, al)"
| "index_loop m skip_index i acc al alpha_c index (entry # es) =
     (let entry = (case m of Some kvs \<Rightarrow> alias_entry kvs entry | None \<Rightarrow> entry);
          (acc, entry) = (case acc of [] \<Rightarrow> ([], entry)
                          | prior # ps \<Rightarrow> (case disambiguate prior entry of (p, e) \<Rightarrow> (p # ps, e)))
      in if skip_index then index_loop m skip_index (i + 1) (entry # acc) al alpha_c index es
         else (let a = getIndexChar (name entry);
                   (index, al, alpha_c) =
                     (if a \<noteq> alpha_c then (int (icount al), IntArray_push al i, a)
                      else (index, al, alpha_c))
               in index_loop m skip_index (i + 1) (entry\<lparr>alpha := index\<rparr> # acc) al alpha_c index es))"

definition Directory_index :: "fs \<Rightarrow> Directory \<Rightarrow> Directory" where
  "Directory_index fs self =
     (let is_collection = prefix_match COLLECTIONS_PATH (dpath self);
          skip_index = (exact_match FAUX_RECENT_PATH (dpath self) \<or> is_collection);
          map_path = snprintf_buf MAX_PATH ((if is_collection then COLLECTIONS_PATH else dpath self) @ ''/map.txt'');
          m = load_map fs map_path;
          es = (case m of Some kvs \<Rightarrow> map_entries kvs (entries self) | None \<Rightarrow> entries self);
          (es', al) = index_loop m skip_index 0 [] (alphas self) (-1) 0 es
      in self\<lparr>entries := es', alphas := al\<rparr>)"

subsection \<open>What every sort gives\<close>

text \<open>\<open>qsort\<close> promises a sorted permutation and nothing about ties; the lemmas below need no more.\<close>

locale entry_sorter =
  fixes srt :: "Entry list \<Rightarrow> Entry list"
  assumes permutes: "mset (srt es) = mset es"
    and sorts: "sorted (map sort_name (srt es))"
begin

lemma length_srt: "length (srt es) = length es"
  using permutes by (metis size_mset)

lemma set_srt: "set (srt es) = set es"
  using permutes by (metis set_mset_mset)

lemma names_determined: "map sort_name (srt es) = sort (map sort_name es)"
  using sorts permutes by (metis mset_map properties_for_sort)

lemma distinct_srt: "distinct (map f (srt es)) \<longleftrightarrow> distinct (map f es)"
  using permutes by (metis mset_eq_imp_distinct_iff mset_map)

end

interpretation esort: entry_sorter EntryArray_sort
  by unfold_locales (simp_all add: EntryArray_sort_def)

subsection \<open>The alphabetical index on its own\<close>

text \<open>What \<open>index_loop\<close> does to \<open>alpha\<close> and \<open>alphas\<close> depends only on the entries' first letters.\<close>

fun alpha_loop :: "int \<Rightarrow> IntArray \<Rightarrow> int \<Rightarrow> int \<Rightarrow> int list \<Rightarrow> int list \<times> IntArray" where
  "alpha_loop i al c index [] = ([], al)"
| "alpha_loop i al c index (l # ls) =
     (let (index, al, c) = (if l \<noteq> c then (int (icount al), IntArray_push al i, l) else (index, al, c));
          (as, al') = alpha_loop (i + 1) al c index ls
      in (index # as, al'))"

definition mapped :: "(string \<times> string) list option \<Rightarrow> Entry \<Rightarrow> Entry" where
  "mapped m e = (case m of Some kvs \<Rightarrow> alias_entry kvs e | None \<Rightarrow> e)"

definition with_prior :: "Entry list \<Rightarrow> Entry \<Rightarrow> Entry list \<times> Entry" where
  "with_prior acc entry = (case acc of [] \<Rightarrow> ([], entry)
     | prior # ps \<Rightarrow> (case disambiguate prior entry of (p, e) \<Rightarrow> (p # ps, e)))"

lemma index_loop_Cons:
  "index_loop m skip i acc al c index (entry # es) =
     (let (acc, entry) = with_prior acc (mapped m entry)
      in if skip then index_loop m skip (i + 1) (entry # acc) al c index es
         else (let a = getIndexChar (name entry);
                   (index, al, c) = (if a \<noteq> c then (int (icount al), IntArray_push al i, a) else (index, al, c))
               in index_loop m skip (i + 1) (entry\<lparr>alpha := index\<rparr> # acc) al c index es))"
  by (simp add: mapped_def with_prior_def Let_def split del: if_split)

declare index_loop.simps(2) [simp del]

text \<open>Disambiguation changes nothing but \<open>unique\<close>.\<close>

lemma disambiguate_keeps:
  assumes "disambiguate p e = (p', e')"
  shows "alpha p' = alpha p" "name p' = name p" "path p' = path p" "etype p' = etype p"
    "alpha e' = alpha e" "name e' = name e" "path e' = path e" "etype e' = etype e"
  using assms by (auto simp: disambiguate_def split: if_splits)

lemma with_prior_keeps:
  assumes "with_prior acc e = (acc', e')"
  shows "map alpha acc' = map alpha acc" "map path acc' = map path acc" "map name acc' = map name acc"
    "alpha e' = alpha e" "name e' = name e" "path e' = path e"
  using assms disambiguate_keeps by (fastforce simp: with_prior_def split: list.splits prod.splits)+

lemma mapped_path [simp]: "path (mapped m e) = path e"
  by (simp add: mapped_def alias_entry_def split: option.splits)

lemma mapped_alpha [simp]: "alpha (mapped m e) = alpha e"
  by (simp add: mapped_def alias_entry_def split: option.splits)

lemma index_loop_alpha:
  "map alpha (fst (index_loop m False i acc al c index es)) =
     map alpha (rev acc) @ fst (alpha_loop i al c index (map (\<lambda>e. getIndexChar (name (mapped m e))) es))
   \<and> snd (index_loop m False i acc al c index es) =
     snd (alpha_loop i al c index (map (\<lambda>e. getIndexChar (name (mapped m e))) es))"
proof (induction es arbitrary: i acc al c index)
  case (Cons e es)
  obtain acc' e' where w: "with_prior acc (mapped m e) = (acc', e')" by fastforce
  show ?case
    using Cons.IH with_prior_keeps [OF w]
    by (simp add: index_loop_Cons w Let_def rev_map [symmetric] split: prod.splits)
qed simp

lemma index_loop_names:
  "map name (fst (index_loop m skip i acc al c index es)) = map name (rev acc) @ map (\<lambda>e. name (mapped m e)) es
   \<and> map path (fst (index_loop m skip i acc al c index es)) = map path (rev acc @ es)"
proof (induction es arbitrary: i acc al c index)
  case (Cons e es)
  obtain acc' e' where w: "with_prior acc (mapped m e) = (acc', e')" by fastforce
  show ?case
    using Cons.IH with_prior_keeps [OF w]
    by (cases skip) (simp_all add: index_loop_Cons w Let_def rev_map [symmetric])
qed simp

lemma index_loop_skip:
  "map alpha (fst (index_loop m True i acc al c index es)) = map alpha (rev acc @ es)
   \<and> snd (index_loop m True i acc al c index es) = al"
proof (induction es arbitrary: i acc al c index)
  case (Cons e es)
  obtain acc' e' where w: "with_prior acc (mapped m e) = (acc', e')" by fastforce
  show ?case
    using Cons.IH with_prior_keeps [OF w]
    by (simp add: index_loop_Cons w Let_def rev_map [symmetric])
qed simp

text \<open>The state of the index after the letters \<open>pre\<close>: group starts are increasing positions, and the
  current group (unless the index overflowed its 27 slots) starts at its own letter.\<close>

definition alpha_inv :: "int list \<Rightarrow> IntArray \<Rightarrow> int \<Rightarrow> int \<Rightarrow> bool" where
  "alpha_inv pre al c index \<longleftrightarrow> IntArray_ok al
     \<and> (\<forall>x \<in> set (ints al). 0 \<le> x \<and> x < int (length pre)) \<and> sorted_wrt (<) (ints al)
     \<and> (if pre = [] then c = -1 else c = last pre \<and> 0 \<le> index \<and> index \<le> int (icount al)
          \<and> (index = int (icount al) \<longrightarrow> icount al = INT_ARRAY_MAX)
          \<and> (index < int (icount al) \<longrightarrow> pre ! nat (ints al ! nat index) = c))"

lemma length_ints: "IntArray_ok al \<Longrightarrow> length (ints al) = icount al"
  by (simp add: IntArray_ok_def ints_def)

lemma IntArray_push_cases:
  assumes "IntArray_ok al"
  shows "(icount al = INT_ARRAY_MAX \<and> IntArray_push al i = al)
       \<or> (icount al < INT_ARRAY_MAX \<and> ints (IntArray_push al i) = ints al @ [i]
          \<and> icount (IntArray_push al i) = icount al + 1)"
  using IntArray_push_ints [OF assms, of i] length_ints [OF assms] assms
  by (auto simp: IntArray_push_def IntArray_ok_def)

lemma alpha_inv_step:
  assumes inv: "alpha_inv pre al c index" and "0 \<le> l" and "i = int (length pre)"
    and step: "(index', al', c') = (if l \<noteq> c then (int (icount al), IntArray_push al i, l) else (index, al, c))"
  shows "alpha_inv (pre @ [l]) al' c' index' \<and> (\<exists>ys. ints al' = ints al @ ys)"
proof (cases "l = c")
  case True
  then have "pre \<noteq> []" using inv assms(2) by (auto simp: alpha_inv_def)
  moreover have "pre ! nat (ints al ! nat index) = (pre @ [l]) ! nat (ints al ! nat index)"
    if "index < int (icount al)"
  proof -
    have ok: "IntArray_ok al" "0 \<le> index" using inv \<open>pre \<noteq> []\<close> by (auto simp: alpha_inv_def)
    then have "nat index < length (ints al)" using that by (simp add: length_ints)
    then have "ints al ! nat index < int (length pre)" "0 \<le> ints al ! nat index"
      using inv nth_mem by (auto simp: alpha_inv_def)
    then have "nat (ints al ! nat index) < length pre" by linarith
    then show ?thesis by (simp add: nth_append)
  qed
  ultimately show ?thesis using inv step True by (auto simp: alpha_inv_def)
next
  case False
  have ok: "IntArray_ok al" using inv by (simp add: alpha_inv_def)
  have "IntArray_ok (IntArray_push al i)" using IntArray_push_ints [OF ok] by blast
  moreover have "ints al ! nat (int (icount al)) = ints al ! icount al" by simp
  ultimately show ?thesis
    using inv step False IntArray_push_cases [OF ok, of i] assms(3) length_ints [OF ok]
    by (elim disjE) (force simp: alpha_inv_def sorted_wrt_append nth_append)+
qed

definition alpha_post :: "int list \<Rightarrow> nat \<Rightarrow> int list \<Rightarrow> IntArray \<Rightarrow> bool" where
  \<comment> \<open>for the letters \<open>ls\<close> from position \<open>n\<close> on, \<open>as\<close> are their group numbers\<close>
  "alpha_post ls n as al \<longleftrightarrow> length as + n = length ls \<and> IntArray_ok al \<and> sorted_wrt (<) (ints al)
     \<and> (\<forall>x \<in> set (ints al). 0 \<le> x \<and> x < int (length ls))
     \<and> (\<forall>k < length as. 0 \<le> as ! k \<and> as ! k \<le> int (icount al)
          \<and> (as ! k < int (icount al) \<longrightarrow>
               ints al ! nat (as ! k) \<le> int (n + k) \<and> ls ! nat (ints al ! nat (as ! k)) = ls ! (n + k)))"

lemma alpha_loop_post:
  assumes "alpha_inv pre al c index" and "\<forall>l \<in> set ls. 0 \<le> l" and "i = int (length pre)"
  shows "(\<exists>ys. ints (snd (alpha_loop i al c index ls)) = ints al @ ys)
         \<and> alpha_post (pre @ ls) (length pre) (fst (alpha_loop i al c index ls)) (snd (alpha_loop i al c index ls))"
  using assms
proof (induction ls arbitrary: pre al c index i)
  case Nil
  then show ?case by (simp add: alpha_post_def alpha_inv_def)
next
  case (Cons l ls)
  obtain index' al' c' where step:
    "(index', al', c') = (if l \<noteq> c then (int (icount al), IntArray_push al i, l) else (index, al, c))"
    by (metis prod_cases3)
  have inv': "alpha_inv (pre @ [l]) al' c' index'" and ext: "\<exists>ys. ints al' = ints al @ ys"
    using alpha_inv_step [OF Cons.prems(1) _ Cons.prems(3) step] Cons.prems(2) by auto
  obtain as al2 where rec: "alpha_loop (i + 1) al' c' index' ls = (as, al2)" by fastforce
  have ih: "\<exists>ys. ints al2 = ints al' @ ys" "alpha_post (pre @ l # ls) (Suc (length pre)) as al2"
    using Cons.IH [OF inv', of "i + 1"] Cons.prems(2,3) rec by auto
  have loop: "alpha_loop i al c index (l # ls) = (index' # as, al2)"
    using step rec by (simp add: Let_def split: if_splits)
  have c': "c' = l" using step by (auto split: if_splits)
  have ok: "IntArray_ok al'" "IntArray_ok al2" "0 \<le> index'" "index' \<le> int (icount al')"
    using inv' ih(2) by (auto simp: alpha_inv_def alpha_post_def)
  obtain zs where zs: "ints al2 = ints al' @ zs" using ih(1) by blast
  have le: "icount al' \<le> icount al2" using zs length_ints [OF ok(1)] length_ints [OF ok(2)] by simp
  have full: "index' < int (icount al2) \<Longrightarrow> index' < int (icount al')"
    using inv' ok le by (auto simp: alpha_inv_def IntArray_ok_def)
  have now: "ints al2 ! nat index' \<le> int (length pre) \<and> (pre @ l # ls) ! nat (ints al2 ! nat index') = l"
    if lt: "index' < int (icount al2)"
  proof -
    have i: "nat index' < length (ints al')" using full [OF lt] ok length_ints by auto
    then have "ints al2 ! nat index' = ints al' ! nat index'" by (simp add: zs nth_append)
    moreover have b: "0 \<le> ints al' ! nat index'" "ints al' ! nat index' < int (Suc (length pre))"
      using inv' i nth_mem by (auto simp: alpha_inv_def)
    moreover have "(pre @ [l]) ! nat (ints al' ! nat index') = l"
      using inv' full [OF lt] c' by (simp add: alpha_inv_def)
    then have "(pre @ l # ls) ! nat (ints al' ! nat index') = l"
      using b by (auto simp: nth_append split: if_splits)
    ultimately show ?thesis by simp
  qed
  have "alpha_post (pre @ l # ls) (length pre) (index' # as) al2"
    using ih(2) ok(3,4) le now
    by (auto simp: alpha_post_def nth_Cons split: nat.splits)
  moreover have "\<exists>ys. ints al2 = ints al @ ys" using ext zs by auto
  ultimately show ?case using loop by simp
qed

subsection \<open>Equal names\<close>

text \<open>Neighbours with equal names always end with a \<open>unique\<close> label.\<close>

definition labelled :: "Entry list \<Rightarrow> bool" where
  "labelled es \<longleftrightarrow> successively (\<lambda>a b. name a = name b \<longrightarrow> unique a \<noteq> None \<and> unique b \<noteq> None) es"

lemma disambiguate_labels:
  "disambiguate p e = (p', e') \<Longrightarrow>
   (name p = name e \<longrightarrow> unique p' \<noteq> None \<and> unique e' \<noteq> None) \<and> (unique p \<noteq> None \<longrightarrow> unique p' \<noteq> None)"
  by (auto simp: disambiguate_def split: if_splits)

lemma labelled_rev: "labelled (rev es) \<longleftrightarrow> labelled es"
  unfolding labelled_def successively_rev by (rule arg_cong2 [where f = successively]) (auto simp: fun_eq_iff)

lemma labelled_Cons2:
  "labelled (a # b # es) \<longleftrightarrow> (name a = name b \<longrightarrow> unique a \<noteq> None \<and> unique b \<noteq> None) \<and> labelled (b # es)"
  by (simp add: labelled_def)

lemma with_prior_labelled:
  assumes "labelled acc" and "with_prior acc e = (acc', e')"
  shows "labelled (e' # acc')"
proof (cases acc)
  case Nil
  then show ?thesis using assms by (simp add: with_prior_def labelled_def)
next
  case (Cons p ps)
  then obtain p' where d: "disambiguate p e = (p', e')" "acc' = p' # ps"
    using assms(2) by (auto simp: with_prior_def split: prod.splits)
  note keeps = disambiguate_keeps [OF d(1)] and labels = disambiguate_labels [OF d(1)]
  have "labelled (p' # ps)"
    using assms(1) Cons keeps labels by (cases ps) (auto simp: labelled_def)
  then show ?thesis using d(2) keeps labels by (simp add: labelled_Cons2)
qed

lemma labelled_alpha: "labelled (e\<lparr>alpha := x\<rparr> # es) \<longleftrightarrow> labelled (e # es)"
  by (cases es) (simp_all add: labelled_def)

lemma index_loop_labelled:
  "labelled acc \<Longrightarrow> labelled (fst (index_loop m skip i acc al c index es))"
proof (induction es arbitrary: i acc al c index)
  case (Cons e es)
  obtain acc' e' where w: "with_prior acc (mapped m e) = (acc', e')" by fastforce
  have "labelled (e' # acc')" using with_prior_labelled [OF Cons.prems w] .
  then show ?case
    using Cons.IH by (cases skip) (simp_all add: index_loop_Cons w Let_def labelled_alpha)
qed (simp add: labelled_rev)

subsection \<open>The whole of Directory\_index\<close>

definition fresh_dir :: "Directory \<Rightarrow> bool" where
  \<comment> \<open>as \<open>Directory_new\<close> leaves it before indexing\<close>
  "fresh_dir d \<longleftrightarrow> alphas d = IntArray_new \<and> (\<forall>e \<in> set (entries d). alpha e = 0)"

definition index_skipped :: "Directory \<Rightarrow> bool" where
  "index_skipped d \<longleftrightarrow> exact_match FAUX_RECENT_PATH (dpath d) \<or> prefix_match COLLECTIONS_PATH (dpath d)"

definition dir_map :: "fs \<Rightarrow> Directory \<Rightarrow> (string \<times> string) list option" where
  "dir_map fs d = load_map fs (snprintf_buf MAX_PATH
     ((if prefix_match COLLECTIONS_PATH (dpath d) then COLLECTIONS_PATH else dpath d) @ ''/map.txt''))"

definition dir_entries :: "fs \<Rightarrow> Directory \<Rightarrow> Entry list" where
  "dir_entries fs d = (case dir_map fs d of Some kvs \<Rightarrow> map_entries kvs (entries d) | None \<Rightarrow> entries d)"

lemma Directory_index_unfold:
  "Directory_index fs d =
     d\<lparr>entries := fst (index_loop (dir_map fs d) (index_skipped d) 0 [] (alphas d) (-1) 0 (dir_entries fs d)),
       alphas := snd (index_loop (dir_map fs d) (index_skipped d) 0 [] (alphas d) (-1) 0 (dir_entries fs d))\<rparr>"
  by (simp add: Directory_index_def index_skipped_def dir_map_def dir_entries_def Let_def split: prod.splits)

lemma map_entries_alpha:
  "\<forall>e \<in> set es. alpha e = 0 \<Longrightarrow> \<forall>e \<in> set (map_entries m es). alpha e = 0"
  by (auto simp: map_entries_def Let_def esort.set_srt alias_entry_def split: option.splits)

lemma dir_entries_alpha:
  "fresh_dir d \<Longrightarrow> \<forall>e \<in> set (dir_entries fs d). alpha e = 0"
  using map_entries_alpha by (auto simp: dir_entries_def fresh_dir_def split: option.splits)

lemma getIndexChar_nonneg: "0 \<le> getIndexChar s"
  by (simp add: getIndexChar_def Let_def split: list.splits)

lemma Directory_index_letters:
  fixes fs d
  defines "d' \<equiv> Directory_index fs d"
  shows "map (\<lambda>e. getIndexChar (name e)) (entries d') =
         map (\<lambda>e. getIndexChar (name (mapped (dir_map fs d) e))) (dir_entries fs d)"
proof -
  have "map name (entries d') = map (\<lambda>e. name (mapped (dir_map fs d) e)) (dir_entries fs d)"
    using index_loop_names by (simp add: d'_def Directory_index_unfold)
  then have "map getIndexChar (map name (entries d')) =
             map getIndexChar (map (\<lambda>e. name (mapped (dir_map fs d) e)) (dir_entries fs d))" by simp
  then show ?thesis by (simp add: comp_def)
qed

lemma Directory_index_post:
  assumes "fresh_dir d" and "\<not> index_skipped d"
  shows "alpha_post (map (\<lambda>e. getIndexChar (name e)) (entries (Directory_index fs d))) 0
           (map alpha (entries (Directory_index fs d))) (alphas (Directory_index fs d))"
proof -
  let ?ls = "map (\<lambda>e. getIndexChar (name (mapped (dir_map fs d) e))) (dir_entries fs d)"
  have inv: "alpha_inv [] (alphas d) (-1) 0"
    using assms(1) by (simp add: fresh_dir_def alpha_inv_def IntArray_new_def IntArray_ok_def ints_def)
  have "map alpha (entries (Directory_index fs d)) = fst (alpha_loop 0 (alphas d) (-1) 0 ?ls)"
    "alphas (Directory_index fs d) = snd (alpha_loop 0 (alphas d) (-1) 0 ?ls)"
    using index_loop_alpha assms(2) by (simp_all add: Directory_index_unfold)
  moreover have "alpha_post ([] @ ?ls) (length ([] :: int list)) (fst (alpha_loop 0 (alphas d) (-1) 0 ?ls))
      (snd (alpha_loop 0 (alphas d) (-1) 0 ?ls))"
    using alpha_loop_post [OF inv, of ?ls 0] getIndexChar_nonneg by auto
  ultimately show ?thesis by (simp add: Directory_index_letters)
qed

subsection \<open>Properties\<close>

text \<open>C28: the alphabetical index of a freshly read directory is sound for the shoulder buttons. Every
  entry's group number is at most the number of groups, so that both neighbours \<open>alpha-1\<close> and
  (when below the count) \<open>alpha+1\<close> are valid slots of the index; every slot holds the position of an
  entry, in increasing order; and a group's slot is at or before the entry and starts with the same
  letter, even when the 27 slots overflow. In the lists that are not indexed (recents and
  collections) every group number is 0 and the index is empty, so the buttons do nothing.\<close>

theorem Directory_index_alphas:
  assumes "fresh_dir d"
  shows "let d' = Directory_index fs d; es = entries d'; slots = ints (alphas d') in
    sorted_wrt (<) slots \<and> (\<forall>x \<in> set slots. 0 \<le> x \<and> x < int (length es))
    \<and> (if index_skipped d then slots = [] \<and> (\<forall>e \<in> set es. alpha e = 0)
       else \<forall>k < length es. 0 \<le> alpha (es ! k) \<and> alpha (es ! k) \<le> int (length slots)
          \<and> (alpha (es ! k) < int (length slots) \<longrightarrow>
               slots ! nat (alpha (es ! k)) \<le> int k
               \<and> getIndexChar (name (es ! nat (slots ! nat (alpha (es ! k))))) = getIndexChar (name (es ! k))))"
proof (cases "index_skipped d")
  case True
  have "map alpha (entries (Directory_index fs d)) = map alpha (dir_entries fs d)"
    "alphas (Directory_index fs d) = IntArray_new"
    using True assms index_loop_skip by (simp_all add: Directory_index_unfold fresh_dir_def)
  moreover from this(1) have "\<forall>e \<in> set (entries (Directory_index fs d)). alpha e = 0"
    using dir_entries_alpha [OF assms, of fs] by (metis (no_types, lifting) imageE image_eqI list.set_map)
  ultimately show ?thesis using True by (simp add: Let_def IntArray_new_def ints_def)
next
  case False
  have post: "alpha_post (map (\<lambda>e. getIndexChar (name e)) (entries (Directory_index fs d))) 0
      (map alpha (entries (Directory_index fs d))) (alphas (Directory_index fs d))"
    using Directory_index_post [OF assms False] .
  have len: "length (ints (alphas (Directory_index fs d))) = icount (alphas (Directory_index fs d))"
    using post length_ints by (simp add: alpha_post_def)
  have "nat (ints (alphas (Directory_index fs d)) ! nat a) < length (entries (Directory_index fs d))"
    if "0 \<le> a" "a < int (icount (alphas (Directory_index fs d)))" for a
  proof -
    have "ints (alphas (Directory_index fs d)) ! nat a \<in> set (ints (alphas (Directory_index fs d)))"
      using that len by (intro nth_mem) simp
    then show ?thesis using post by (force simp: alpha_post_def)
  qed
  then have "map (\<lambda>e. getIndexChar (name e)) (entries (Directory_index fs d)) ! nat (ints (alphas (Directory_index fs d)) ! nat a)
             = getIndexChar (name (entries (Directory_index fs d) ! nat (ints (alphas (Directory_index fs d)) ! nat a)))"
    if "0 \<le> a" "a < int (icount (alphas (Directory_index fs d)))" for a
    using that by simp
  then show ?thesis using post False len by (auto simp: alpha_post_def Let_def)
qed

theorem Directory_index_alphas_witness:
  "let d = \<lparr>dpath = ''/mnt/sdcard/Roms/A'', dname = ''A'',
            entries = [Entry_new ''rg35xx'' ''/r/Bob.gb'' ENTRY_ROM, Entry_new ''rg35xx'' ''/r/Cat.gb'' ENTRY_ROM],
            alphas = IntArray_new, selected = 0, start = 0, end_row = 0\<rparr>
   in fresh_dir d \<and> sorted_wrt (<) (ints (alphas (Directory_index [] d)))"
proof -
  let ?d = "\<lparr>dpath = ''/mnt/sdcard/Roms/A'', dname = ''A'',
            entries = [Entry_new ''rg35xx'' ''/r/Bob.gb'' ENTRY_ROM, Entry_new ''rg35xx'' ''/r/Cat.gb'' ENTRY_ROM],
            alphas = IntArray_new, selected = 0, start = 0, end_row = 0\<rparr>"
  have "fresh_dir ?d" by (simp add: fresh_dir_def Entry_new_def)
  with Directory_index_alphas [OF this, of "[]"] show ?thesis by (simp add: Let_def)
qed

text \<open>After indexing, any two neighbouring entries with the same name both have a label that tells
  them apart on screen (their file names, or the name with the emulator tag), and without a
  \<open>map.txt\<close> the entries are those that were read, in the same order.\<close>

theorem Directory_index_labels:
  "labelled (entries (Directory_index fs d))
   \<and> map path (entries (Directory_index fs d)) = map path (dir_entries fs d)
   \<and> (dir_map fs d = None \<longrightarrow> map path (entries (Directory_index fs d)) = map path (entries d))"
  using index_loop_labelled [of "[]"] index_loop_names
  by (simp add: Directory_index_unfold labelled_def dir_entries_def)

theorem Directory_index_labels_witness:
  "dir_map [] \<lparr>dpath = ''/a'', dname = ''A'', entries = [], alphas = IntArray_new, selected = 0, start = 0, end_row = 0\<rparr> = None
   \<and> map path (entries (Directory_index []
        \<lparr>dpath = ''/a'', dname = ''A'', entries = [], alphas = IntArray_new, selected = 0, start = 0, end_row = 0\<rparr>)) = []"
  using Directory_index_labels [of "[]" "\<lparr>dpath = ''/a'', dname = ''A'', entries = [], alphas = IntArray_new,
      selected = 0, start = 0, end_row = 0\<rparr>"]
  by (simp add: dir_map_def load_map_def exists_def)

end
