(* ===== verification/Recents.thy ===== *)
theory Recents
  imports Directory
begin

text \<open>
  The recently played list (\<open>minui/minui.c\<close>, lines 260-484): \<open>Recent\<close>, \<open>saveRecents\<close>, \<open>addRecent\<close>,
  \<open>hasRecents\<close>, and the file probes \<open>hasEmu\<close>, \<open>hasCue\<close>, \<open>hasM3u\<close>. The static array \<open>recents\<close> is an
  explicit argument and result.
\<close>

record Recent =
  rpath :: string
  ralias :: "string option"
  available :: bool

definition SHARED_USERDATA_PATH :: string where
  "SHARED_USERDATA_PATH = SDCARD_PATH @ ''/.userdata/shared''"

definition RECENT_PATH :: string where
  "RECENT_PATH = SHARED_USERDATA_PATH @ ''/.minui/recent.txt''"

definition CHANGE_DISC_PATH :: string where "CHANGE_DISC_PATH = ''/tmp/change_disc.txt''"

definition MAX_RECENTS :: nat where "MAX_RECENTS = 24"

definition hasEmu :: "fs \<Rightarrow> string \<Rightarrow> string \<Rightarrow> bool" where
  "hasEmu fs plat emu_name \<longleftrightarrow>
     exists fs (snprintf_buf MAX_PATH (paks_path plat @ ''/Emus/'' @ emu_name @ ''.pak/launch.sh''))
     \<or> exists fs (snprintf_buf MAX_PATH
          (SDCARD_PATH @ ''/Emus/'' @ plat @ ''/'' @ emu_name @ ''.pak/launch.sh''))"

definition Recent_new :: "fs \<Rightarrow> string \<Rightarrow> string \<Rightarrow> string option \<Rightarrow> Recent" where
  "Recent_new fs plat p alias =
     (let sd_path = snprintf_buf MAX_PATH (SDCARD_PATH @ p) in
      \<lparr>rpath = p, ralias = alias, available = hasEmu fs plat (getEmuName sd_path)\<rparr>)"

fun RecentArray_indexOf :: "Recent list \<Rightarrow> string \<Rightarrow> int" where
  "RecentArray_indexOf [] p = -1"
| "RecentArray_indexOf (r # rs) p =
     (if exact_match (rpath r) p then 0
      else (let i = RecentArray_indexOf rs p in if i = -1 then -1 else i + 1))"

definition recent_line :: "Recent \<Rightarrow> string" where
  "recent_line r = rpath r @ (case ralias r of Some a \<Rightarrow> [char_tab] @ a | None \<Rightarrow> [])"

definition saveRecents :: "Recent list \<Rightarrow> fs \<Rightarrow> fs" where
  "saveRecents recents fs =
     (if fopen_w fs RECENT_PATH
      then fs_put RECENT_PATH (File (concat (map (\<lambda>r. recent_line r @ [char_newline]) recents))) fs
      else fs)"

function pop_recents :: "Recent list \<Rightarrow> Recent list" where
  \<comment> \<open>\<open>while (recents->count>=MAX_RECENTS) Recent_free(Array_pop(recents))\<close>\<close>
  "pop_recents rs = (if length rs \<ge> MAX_RECENTS then pop_recents (butlast rs) else rs)"
  by pat_completeness auto
termination
  by (relation "measure length") (auto simp: MAX_RECENTS_def)

declare pop_recents.simps [simp del]

fun bump :: "nat \<Rightarrow> 'a list \<Rightarrow> 'a list" where
  \<comment> \<open>\<open>for (i=id; i>0; i--)\<close> swap items \<open>i-1\<close> and \<open>i\<close>\<close>
  "bump 0 xs = xs"
| "bump (Suc i) xs = bump i (xs[i := xs ! Suc i, Suc i := xs ! i])"

definition addRecent :: "string \<Rightarrow> string \<Rightarrow> string option \<Rightarrow> Recent list \<Rightarrow> fs \<Rightarrow> Recent list \<times> fs" where
  "addRecent plat p alias recents fs =
     (let p = drop (length SDCARD_PATH) p;
          id = RecentArray_indexOf recents p;
          recents = (if id = -1 then Recent_new fs plat p alias # pop_recents recents
                     else if id > 0 then bump (nat id) recents
                     else recents)
      in (recents, saveRecents recents fs))"

definition hasCue :: "fs \<Rightarrow> string \<Rightarrow> bool \<times> string" where
  "hasCue fs dir_path =
     (let cue_path = snprintf_buf MAX_PATH (dir_path @ ''/'' @ basename dir_path @ ''.cue'')
      in (exists fs cue_path, cue_path))"

definition from_slash :: "string \<Rightarrow> string" where
  \<comment> \<open>\<open>strrchr(s, '/')\<close> as a string\<close>
  "from_slash s = (case strrchr s (CHR ''/'') of Some i \<Rightarrow> drop i s | None \<Rightarrow> [])"

definition hasM3u :: "fs \<Rightarrow> string \<Rightarrow> bool \<times> string" where
  "hasM3u fs rom_path =
     (let m3u_path = dirname rom_path;
          dir_name = from_slash m3u_path;
          m3u_path = m3u_path @ dir_name @ ''.m3u''
      in (exists fs m3u_path, m3u_path))"

definition parent_path :: "string \<Rightarrow> string" where
  \<comment> \<open>cut behind the last slash\<close>
  "parent_path p = (case strrchr p (CHR ''/'') of Some i \<Rightarrow> take (Suc i) p | None \<Rightarrow> [])"

record recents_state =
  has :: int
  recents_list :: "Recent list"
  parent_paths :: "string list"

definition recents_line :: "fs \<Rightarrow> string \<Rightarrow> string \<Rightarrow> recents_state \<Rightarrow> recents_state" where
  "recents_line fs plat raw st =
     (let line = trimTrailingNewlines (normalizeNewline raw) in
      if length line = 0 then st
      else
        (let (p, alias) = (case strchr line char_tab of
                             None \<Rightarrow> (line, None)
                           | Some i \<Rightarrow> (take i line, Some (drop (Suc i) line)));
             sd_path = snprintf_buf MAX_PATH (SDCARD_PATH @ p)
         in if exists fs sd_path \<and> length (recents_list st) < MAX_RECENTS then
              (let is_m3u = fst (hasM3u fs sd_path);
                   found = (is_m3u \<and> list_ex (\<lambda>q. prefix_match q (parent_path p)) (parent_paths st))
               in if found then st
                  else (let st = (if is_m3u then st\<lparr>parent_paths := parent_paths st @ [parent_path p]\<rparr> else st);
                            recent = Recent_new fs plat p alias
                        in st\<lparr>has := has st + (if available recent then 1 else 0),
                              recents_list := recents_list st @ [recent]\<rparr>))
            else st))"

definition change_disc :: "fs \<Rightarrow> string \<Rightarrow> recents_state \<Rightarrow> recents_state" where
  "change_disc fs plat st =
     (let sd_path = getFile fs CHANGE_DISC_PATH [] MAX_PATH in
      if exists fs sd_path then
        (let disc_path = drop (length SDCARD_PATH) sd_path;
             recent = Recent_new fs plat disc_path None
         in \<lparr>has = has st + (if available recent then 1 else 0),
             recents_list = recents_list st @ [recent],
             parent_paths = parent_paths st @ [parent_path disc_path]\<rparr>)
      else st)"

definition hasRecents :: "string \<Rightarrow> Recent list \<Rightarrow> fs \<Rightarrow> bool \<times> Recent list \<times> fs" where
  "hasRecents plat recents fs =
     (let st = \<lparr>has = 0, recents_list = recents, parent_paths = []\<rparr>;
          (st, fs) = (if exists fs CHANGE_DISC_PATH
                      then (change_disc fs plat st, unlink CHANGE_DISC_PATH fs) else (st, fs));
          st = (case fopen_r fs RECENT_PATH of
                  Some s \<Rightarrow> fold (recents_line fs plat) (fgets_all 256 s) st
                | None \<Rightarrow> st)
      in (has st > 0, recents_list st, saveRecents (recents_list st) fs))"

subsection \<open>Facts about addRecent\<close>

lemma pop_recents_take: "pop_recents rs = take (MAX_RECENTS - 1) rs"
proof (induction rs rule: pop_recents.induct)
  case (1 rs)
  show ?case
  proof (cases "length rs \<ge> MAX_RECENTS")
    case True
    then have "pop_recents rs = take (MAX_RECENTS - 1) (butlast rs)"
      using 1 by (subst pop_recents.simps) simp
    then show ?thesis using True by (simp add: butlast_conv_take min_def)
  next
    case False
    then show ?thesis by (subst pop_recents.simps) (simp add: MAX_RECENTS_def)
  qed
qed

lemma bump_front: "bump (length xs) (xs @ y # ys) = y # xs @ ys"
proof (induction xs arbitrary: ys rule: rev_induct)
  case (snoc x xs)
  have "bump (length (xs @ [x])) ((xs @ [x]) @ y # ys) = bump (length xs) (xs @ y # x # ys)"
    by (simp add: nth_append list_update_append)
  then show ?case using snoc [of "x # ys"] by simp
qed simp

lemma RecentArray_indexOf_ge: "-1 \<le> RecentArray_indexOf rs p"
  by (induction rs) (auto simp: Let_def)

lemma RecentArray_indexOf_None: "RecentArray_indexOf rs p = -1 \<longleftrightarrow> p \<notin> rpath ` set rs"
proof (induction rs)
  case (Cons r rs)
  then show ?case using RecentArray_indexOf_ge [of rs p] by (auto simp: Let_def)
qed simp

lemma RecentArray_indexOf_Some:
  assumes "RecentArray_indexOf rs p \<noteq> -1"
  obtains xs y ys where "rs = xs @ y # ys" "rpath y = p" "p \<notin> rpath ` set xs"
    "RecentArray_indexOf rs p = int (length xs)"
proof -
  have "\<exists>xs y ys. rs = xs @ y # ys \<and> rpath y = p \<and> p \<notin> rpath ` set xs
          \<and> RecentArray_indexOf rs p = int (length xs)"
    using assms
  proof (induction rs)
    case (Cons r rs)
    show ?case
    proof (cases "rpath r = p")
      case True
      then show ?thesis by (intro exI [of _ "[]"]) simp
    next
      case False
      then have "RecentArray_indexOf rs p \<noteq> -1" using Cons.prems by (auto simp: Let_def split: if_splits)
      with Cons.IH obtain xs y ys where "rs = xs @ y # ys" "rpath y = p" "p \<notin> rpath ` set xs"
        "RecentArray_indexOf rs p = int (length xs)" by blast
      then show ?thesis using False by (intro exI [of _ "r # xs"]) auto
    qed
  qed simp
  then show thesis using that by blast
qed

lemma addRecent_new:
  assumes "drop (length SDCARD_PATH) p \<notin> rpath ` set rs"
  shows "fst (addRecent plat p alias rs fs) =
         Recent_new fs plat (drop (length SDCARD_PATH) p) alias # take (MAX_RECENTS - 1) rs"
  using assms RecentArray_indexOf_None [of rs] by (simp add: addRecent_def Let_def pop_recents_take)

lemma addRecent_known:
  assumes "drop (length SDCARD_PATH) p \<in> rpath ` set rs"
  obtains xs y ys where "rs = xs @ y # ys" "rpath y = drop (length SDCARD_PATH) p"
    "fst (addRecent plat p alias rs fs) = y # xs @ ys"
proof -
  let ?p = "drop (length SDCARD_PATH) p"
  have "RecentArray_indexOf rs ?p \<noteq> -1" using assms RecentArray_indexOf_None by blast
  then obtain xs y ys where s: "rs = xs @ y # ys" "rpath y = ?p" "?p \<notin> rpath ` set xs"
    "RecentArray_indexOf rs ?p = int (length xs)"
    by (rule RecentArray_indexOf_Some)
  have "fst (addRecent plat p alias rs fs) = y # xs @ ys"
    using s bump_front [of xs y ys] by (cases "xs = []") (simp_all add: addRecent_def Let_def)
  with s that show thesis by blast
qed

subsection \<open>Reading the list back\<close>

definition recents_ok :: "Recent list \<Rightarrow> bool" where
  "recents_ok rs \<longleftrightarrow> length rs \<le> MAX_RECENTS \<and> distinct (map rpath rs)"

lemma saveRecents_contents:
  "fopen_w fs RECENT_PATH \<Longrightarrow> fopen_r (saveRecents rs fs) RECENT_PATH = Some (write_lines (map recent_line rs))"
  by (simp add: saveRecents_def fopen_r_def map_of_fs_put write_lines_def comp_def)

text \<open>A recent whose line can be read back: its file exists, it fits the line buffer, and its text
  holds no separator.\<close>

definition recent_good :: "fs \<Rightarrow> string \<Rightarrow> Recent \<Rightarrow> bool" where
  "recent_good fs plat r \<longleftrightarrow>
     recent_line r \<noteq> [] \<and> plain_line (recent_line r) \<and> length (recent_line r) + 1 < 256
     \<and> char_tab \<notin> set (rpath r) \<and> r = Recent_new fs plat (rpath r) (ralias r)
     \<and> exists fs (snprintf_buf MAX_PATH (SDCARD_PATH @ rpath r))
     \<and> \<not> fst (hasM3u fs (snprintf_buf MAX_PATH (SDCARD_PATH @ rpath r)))"

lemma recents_line_good:
  assumes "recent_good fs plat r" and "length (recents_list st) < MAX_RECENTS"
  shows "recents_line fs plat (recent_line r @ [char_newline]) st =
         st\<lparr>has := has st + (if available r then 1 else 0), recents_list := recents_list st @ [r]\<rparr>"
proof -
  have line: "trimTrailingNewlines (normalizeNewline (recent_line r @ [char_newline])) = recent_line r"
    using assms(1) clean_line_lf [of "recent_line r"] by (simp add: recent_good_def plain_line_def clean_line_def)
  have split: "(case strchr (recent_line r) char_tab of None \<Rightarrow> (recent_line r, None)
      | Some i \<Rightarrow> (take i (recent_line r), Some (drop (Suc i) (recent_line r)))) = (rpath r, ralias r)"
    using assms(1) strchr_append [of char_tab "rpath r"] strchr_None [of "rpath r" char_tab]
    by (cases "ralias r") (auto simp: recent_good_def recent_line_def)
  have "Recent_new fs plat (rpath r) (ralias r) = r" using assms(1) by (simp add: recent_good_def)
  then show ?thesis
    using assms by (simp add: recents_line_def line split recent_good_def Let_def)
qed

lemma recents_lines_good:
  "\<forall>r \<in> set rs. recent_good fs plat r \<Longrightarrow> length (recents_list st) + length rs \<le> MAX_RECENTS \<Longrightarrow>
   fold (recents_line fs plat) (map (\<lambda>r. recent_line r @ [char_newline]) rs) st =
   st\<lparr>has := has st + int (length (filter available rs)), recents_list := recents_list st @ rs\<rparr>"
proof (induction rs arbitrary: st)
  case (Cons r rs)
  then show ?case by (simp add: recents_line_good)
qed simp

text \<open>Only one disc of a multi-disc game is kept.\<close>

definition is_multi :: "fs \<Rightarrow> Recent \<Rightarrow> bool" where
  "is_multi fs r \<longleftrightarrow> fst (hasM3u fs (snprintf_buf MAX_PATH (SDCARD_PATH @ rpath r)))"

definition one_disc :: "fs \<Rightarrow> Recent list \<Rightarrow> bool" where
  "one_disc fs rs \<longleftrightarrow> sorted_wrt (\<lambda>a b. is_multi fs a \<and> is_multi fs b \<longrightarrow>
     \<not> prefix_match (parent_path (rpath a)) (parent_path (rpath b))) rs"

definition recents_inv :: "fs \<Rightarrow> recents_state \<Rightarrow> bool" where
  "recents_inv fs st \<longleftrightarrow> length (recents_list st) \<le> MAX_RECENTS \<and> one_disc fs (recents_list st)
     \<and> (\<forall>r \<in> set (recents_list st). is_multi fs r \<longrightarrow> parent_path (rpath r) \<in> set (parent_paths st))"

lemma one_disc_append:
  "one_disc fs (rs @ [r]) \<longleftrightarrow> one_disc fs rs \<and>
     (is_multi fs r \<longrightarrow> (\<forall>a \<in> set rs. is_multi fs a \<longrightarrow> \<not> prefix_match (parent_path (rpath a)) (parent_path (rpath r))))"
  by (auto simp: one_disc_def sorted_wrt_append)

lemma Recent_new_rpath [simp]: "rpath (Recent_new fs plat p a) = p"
  by (simp add: Recent_new_def Let_def)

definition push_recent :: "Recent \<Rightarrow> recents_state \<Rightarrow> recents_state" where
  "push_recent r st = st\<lparr>has := has st + (if available r then 1 else 0), recents_list := recents_list st @ [r]\<rparr>"

lemma recents_inv_push:
  assumes "recents_inv fs st" and "length (recents_list st) < MAX_RECENTS"
    and "is_multi fs r \<longrightarrow> \<not> list_ex (\<lambda>q. prefix_match q (parent_path (rpath r))) (parent_paths st)"
    and "st' = (if is_multi fs r then st\<lparr>parent_paths := parent_paths st @ [parent_path (rpath r)]\<rparr> else st)"
  shows "recents_inv fs (push_recent r st')"
  using assms by (auto simp: recents_inv_def push_recent_def one_disc_append list_ex_iff)

lemma recents_line_inv:
  assumes "recents_inv fs st"
  shows "recents_inv fs (recents_line fs plat raw st)"
proof -
  let ?line = "trimTrailingNewlines (normalizeNewline raw)"
  obtain p al where pa: "(case strchr ?line char_tab of None \<Rightarrow> (?line, None)
      | Some i \<Rightarrow> (take i ?line, Some (drop (Suc i) ?line))) = (p, al)" by fastforce
  let ?r = "Recent_new fs plat p al"
  have "recents_line fs plat raw st = st \<or>
    (length (recents_list st) < MAX_RECENTS
     \<and> (is_multi fs ?r \<longrightarrow> \<not> list_ex (\<lambda>q. prefix_match q (parent_path p)) (parent_paths st))
     \<and> recents_line fs plat raw st = push_recent ?r
          (if is_multi fs ?r then st\<lparr>parent_paths := parent_paths st @ [parent_path p]\<rparr> else st))"
    by (simp add: recents_line_def pa Let_def is_multi_def push_recent_def)
  then show ?thesis using assms recents_inv_push [OF assms, of ?r] by auto
qed

lemma recents_lines_inv: "recents_inv fs st \<Longrightarrow> recents_inv fs (fold (recents_line fs plat) ls st)"
  by (induction ls arbitrary: st) (simp_all add: recents_line_inv)

lemma change_disc_inv:
  "recents_inv fs' (change_disc fs plat \<lparr>has = 0, recents_list = [], parent_paths = []\<rparr>)"
  by (simp add: recents_inv_def change_disc_def one_disc_def MAX_RECENTS_def Let_def)

subsection \<open>Properties\<close>

text \<open>C5: after a game is launched its path is first in the recents, the list has at most 24 entries with
  distinct paths, no other entry changed its relative order (a new path drops at most the oldest
  entry), and \<open>recent.txt\<close> holds exactly that list.\<close>

theorem addRecent_spec:
  assumes "recents_ok rs" and "fopen_w fs RECENT_PATH"
  shows "let (rs', fs') = addRecent plat p alias rs fs; q = drop (length SDCARD_PATH) p in
     recents_ok rs' \<and> rs' \<noteq> [] \<and> rpath (hd rs') = q
     \<and> (if q \<in> rpath ` set rs then hd rs' \<in> set rs \<and> tl rs' = filter (\<lambda>r. rpath r \<noteq> q) rs
        else tl rs' = take (MAX_RECENTS - 1) rs)
     \<and> fopen_r fs' RECENT_PATH = Some (write_lines (map recent_line rs'))"
proof -
  let ?q = "drop (length SDCARD_PATH) p" and ?rs = "fst (addRecent plat p alias rs fs)"
  have saved: "fopen_r (snd (addRecent plat p alias rs fs)) RECENT_PATH = Some (write_lines (map recent_line ?rs))"
    using saveRecents_contents [OF assms(2)] by (simp add: addRecent_def Let_def)
  have "recents_ok ?rs \<and> ?rs \<noteq> [] \<and> rpath (hd ?rs) = ?q
     \<and> (if ?q \<in> rpath ` set rs then hd ?rs \<in> set rs \<and> tl ?rs = filter (\<lambda>r. rpath r \<noteq> ?q) rs
        else tl ?rs = take (MAX_RECENTS - 1) rs)"
  proof (cases "?q \<in> rpath ` set rs")
    case True
    then obtain xs y ys where s: "rs = xs @ y # ys" "rpath y = ?q" "?rs = y # xs @ ys"
      by (rule addRecent_known)
    moreover from this assms(1) have d: "?q \<notin> rpath ` set xs" "?q \<notin> rpath ` set ys"
      by (auto simp: recents_ok_def)
    moreover have "filter (\<lambda>r. rpath r \<noteq> ?q) xs = xs" "filter (\<lambda>r. rpath r \<noteq> ?q) ys = ys"
      using d by (force simp: filter_id_conv)+
    ultimately show ?thesis using True assms(1) by (auto simp: recents_ok_def)
  next
    case False
    have "distinct (map rpath (take (MAX_RECENTS - 1) rs))" "?q \<notin> rpath ` set (take (MAX_RECENTS - 1) rs)"
      using assms(1) False by (auto simp: recents_ok_def take_map [symmetric] dest: in_set_takeD)
    with addRecent_new [OF False, of plat "alias" fs] show ?thesis
      using False by (simp add: recents_ok_def MAX_RECENTS_def)
  qed
  with saved show ?thesis by (simp add: Let_def split_beta)
qed

theorem addRecent_spec_witness:
  "let (rs', fs') = addRecent ''rg35xx'' (SDCARD_PATH @ ''/Roms/GB/a.gb'') None
         [\<lparr>rpath = ''/Roms/GB/b.gb'', ralias = None, available = True\<rparr>] [(dirname RECENT_PATH, Dir)]
   in recents_ok rs' \<and> rpath (hd rs') = ''/Roms/GB/a.gb''"
proof -
  have "recents_ok [\<lparr>rpath = ''/Roms/GB/b.gb'', ralias = None, available = True\<rparr>]"
    "fopen_w [(dirname RECENT_PATH, Dir)] RECENT_PATH"
    by (simp_all add: recents_ok_def MAX_RECENTS_def fopen_w_def dirname_def RECENT_PATH_def
        SHARED_USERDATA_PATH_def SDCARD_PATH_def)
  from addRecent_spec [OF this, of "''rg35xx''" "SDCARD_PATH @ ''/Roms/GB/a.gb''" None]
  show ?thesis by (simp add: Let_def split_beta)
qed

text \<open>What \<open>saveRecents\<close> wrote is what the next start of the launcher reads: the same recents in the
  same order, aliases included, and the same file again.\<close>

theorem hasRecents_reads_saved:
  assumes "fopen_r fs RECENT_PATH = Some (write_lines (map recent_line rs))"
    and "\<forall>r \<in> set rs. recent_good fs plat r" and "length rs \<le> MAX_RECENTS"
    and "\<not> exists fs CHANGE_DISC_PATH"
  shows "hasRecents plat [] fs = ((\<exists>r \<in> set rs. available r), rs, saveRecents rs fs)"
proof -
  have "fgets_all 256 (write_lines (map recent_line rs)) = map (\<lambda>l. l @ [char_newline]) (map recent_line rs)"
    using assms(2) by (intro fgets_all_write_lines) (auto simp: recent_good_def)
  then have lines: "fgets_all 256 (write_lines (map recent_line rs)) = map (\<lambda>r. recent_line r @ [char_newline]) rs"
    by simp
  have "(0 < int (length (filter available rs))) = (\<exists>r \<in> set rs. available r)"
    by (simp add: filter_empty_conv)
  then show ?thesis
    using assms recents_lines_good [OF assms(2), of "\<lparr>has = 0, recents_list = [], parent_paths = []\<rparr>"]
    by (simp add: hasRecents_def lines)
qed

theorem hasRecents_reads_saved_witness:
  "hasRecents ''rg35xx'' [] [(RECENT_PATH, File [])] = (False, [], saveRecents [] [(RECENT_PATH, File [])])"
proof -
  have "\<not> exists [(RECENT_PATH, File [])] CHANGE_DISC_PATH"
    by (simp add: exists_def RECENT_PATH_def CHANGE_DISC_PATH_def SHARED_USERDATA_PATH_def SDCARD_PATH_def)
  then show ?thesis
    using hasRecents_reads_saved [of "[(RECENT_PATH, File [])]" "[]" "''rg35xx''"] by (simp add: fopen_r_def)
qed

text \<open>Whatever \<open>recent.txt\<close> and the disc-change file hold, the list read at start has at most 24
  entries, and of the discs of a game with an \<open>.m3u\<close> at most one is listed, the most recent.\<close>

theorem hasRecents_bounded_one_disc:
  "let (h, rs, fs') = hasRecents plat [] fs;
       fs0 = (if exists fs CHANGE_DISC_PATH then unlink CHANGE_DISC_PATH fs else fs)
   in length rs \<le> MAX_RECENTS \<and> one_disc fs0 rs"
proof -
  let ?fs = "if exists fs CHANGE_DISC_PATH then unlink CHANGE_DISC_PATH fs else fs"
  let ?st0 = "\<lparr>has = 0, recents_list = [], parent_paths = []\<rparr> :: recents_state"
  let ?st1 = "if exists fs CHANGE_DISC_PATH then change_disc fs plat ?st0 else ?st0"
  let ?st2 = "case fopen_r ?fs RECENT_PATH of Some s \<Rightarrow> fold (recents_line ?fs plat) (fgets_all 256 s) ?st1 | None \<Rightarrow> ?st1"
  have "recents_inv fs' ?st0" for fs' by (simp add: recents_inv_def one_disc_def)
  then have "recents_inv ?fs ?st1" using change_disc_inv [of _ fs plat] by simp
  then have "recents_inv ?fs ?st2" using recents_lines_inv by (auto split: option.split)
  moreover have "fst (snd (hasRecents plat [] fs)) = recents_list ?st2"
    by (simp add: hasRecents_def Let_def split: option.split)
  ultimately show ?thesis by (simp add: Let_def split_beta recents_inv_def)
qed

end
