(* ===== verification/Roms.thy ===== *)
theory Roms
  imports Recents
begin

text \<open>
  Reading the SD card into lists of entries (\<open>minui/minui.c\<close>, lines 485-828): \<open>hasCollections\<close>,
  \<open>hasRoms\<close>, \<open>getRoot\<close>, \<open>getRecents\<close>, \<open>getCollection\<close>, \<open>getDiscs\<close>, \<open>getFirstDisc\<close>, \<open>addEntries\<close>,
  \<open>isConsoleDir\<close>, \<open>getEntries\<close>, and \<open>Directory_new\<close> (lines 215-241), which chooses among them.
  \<open>readdir\<close> also returns \<open>.\<close> and \<open>..\<close>, which \<open>hide\<close> drops at once, so the model's directory
  listings leave them out.
\<close>

definition visible :: "string list option \<Rightarrow> string list" where
  "visible names = (case names of None \<Rightarrow> [] | Some ns \<Rightarrow> filter (\<lambda>n. \<not> hide n) ns)"

definition hasCollections :: "fs \<Rightarrow> bool" where
  "hasCollections fs \<longleftrightarrow> exists fs COLLECTIONS_PATH \<and> visible (opendir fs COLLECTIONS_PATH) \<noteq> []"

definition hasRoms :: "fs \<Rightarrow> string \<Rightarrow> string \<Rightarrow> bool" where
  "hasRoms fs plat dir_name =
     (let emu_name = getEmuName dir_name in
      if \<not> hasEmu fs plat emu_name then False
      else visible (opendir fs (snprintf_buf MAX_PATH (ROMS_PATH @ ''/'' @ dir_name @ ''/''))) \<noteq> [])"

fun drop_repeats :: "Entry option \<Rightarrow> Entry list \<Rightarrow> Entry list" where
  \<comment> \<open>the loop over \<open>emus\<close> in \<open>getRoot\<close>: skip an entry named like the last one kept\<close>
  "drop_repeats prev [] = []"
| "drop_repeats prev (e # es) =
     (case prev of
        Some p \<Rightarrow> if exact_match (name p) (name e) then drop_repeats prev es else e # drop_repeats (Some e) es
      | None \<Rightarrow> e # drop_repeats (Some e) es)"

definition root_systems :: "fs \<Rightarrow> string \<Rightarrow> Entry list" where
  "root_systems fs plat =
     (let emus = map (\<lambda>n. Entry_new plat (ROMS_PATH @ ''/'' @ n) ENTRY_DIR)
                   (filter (hasRoms fs plat) (visible (opendir fs ROMS_PATH)))
      in drop_repeats None (EntryArray_sort emus))"

definition root_aliases :: "fs \<Rightarrow> Entry list \<Rightarrow> Entry list" where
  \<comment> \<open>the part of \<open>getRoot\<close> copied from \<open>Directory_index\<close>, without hidden aliases\<close>
  "root_aliases fs es =
     (case (if es \<noteq> [] then load_map fs (snprintf_buf MAX_PATH (ROMS_PATH @ ''/map.txt'')) else None) of
        None \<Rightarrow> es
      | Some m \<Rightarrow> (let es' = map (alias_entry m) es in
                   if list_ex (has_alias m) es then EntryArray_sort es' else es'))"

definition getRoot :: "string \<Rightarrow> bool \<Rightarrow> Recent list \<Rightarrow> fs \<Rightarrow> Entry list \<times> Recent list \<times> fs" where
  "getRoot plat simple_mode recents fs =
     (let (has_recents, recents, fs) = hasRecents plat recents fs;
          root = (if has_recents then [Entry_new plat FAUX_RECENT_PATH ENTRY_DIR] else []);
          es = root_aliases fs (root_systems fs plat);
          (root, es) =
            (if hasCollections fs then
               (if es \<noteq> [] then (root @ [Entry_new plat COLLECTIONS_PATH ENTRY_DIR], es)
                else (root, EntryArray_sort
                        (map (\<lambda>n. Entry_new plat (COLLECTIONS_PATH @ ''/'' @ n) ENTRY_DIR)
                          (visible (opendir fs COLLECTIONS_PATH)))))
             else (root, es));
          root = root @ es;
          tools_path = SDCARD_PATH @ ''/Tools/'' @ plat;
          root = (if exists fs tools_path \<and> \<not> simple_mode
                  then root @ [Entry_new plat tools_path ENTRY_DIR] else root)
      in (root, recents, fs))"

definition sd_type :: "string \<Rightarrow> EntryType" where
  "sd_type sd_path = (if suffixMatch ''.pak'' sd_path then ENTRY_PAK else ENTRY_ROM)"

definition recent_entry :: "string \<Rightarrow> Recent \<Rightarrow> Entry list" where
  "recent_entry plat recent =
     (if \<not> available recent then []
      else (let sd_path = snprintf_buf MAX_PATH (SDCARD_PATH @ rpath recent);
                entry = Entry_new plat sd_path (sd_type sd_path)
            in [case ralias recent of Some a \<Rightarrow> entry\<lparr>name := a\<rparr> | None \<Rightarrow> entry]))"

definition getRecents :: "string \<Rightarrow> Recent list \<Rightarrow> Entry list" where
  "getRecents plat recents = concat (map (recent_entry plat) recents)"

definition collection_line :: "fs \<Rightarrow> string \<Rightarrow> string \<Rightarrow> Entry list" where
  "collection_line fs plat raw =
     (let line = trimTrailingNewlines (normalizeNewline raw) in
      if length line = 0 then []
      else (let sd_path = snprintf_buf MAX_PATH (SDCARD_PATH @ line) in
            if exists fs sd_path then
              (if hide (basename sd_path) then []
               else if \<not> hasEmu fs plat (getEmuName sd_path) then []
               else [Entry_new plat sd_path (sd_type sd_path)])
            else []))"

definition getCollection :: "fs \<Rightarrow> string \<Rightarrow> string \<Rightarrow> Entry list" where
  "getCollection fs plat p =
     (case fopen_r fs p of
        None \<Rightarrow> []
      | Some s \<Rightarrow> concat (map (collection_line fs plat) (fgets_all 256 s)))"

fun disc_loop :: "fs \<Rightarrow> string \<Rightarrow> string \<Rightarrow> int \<Rightarrow> string list \<Rightarrow> Entry list" where
  "disc_loop fs plat base_path disc [] = []"
| "disc_loop fs plat base_path disc (raw # raws) =
     (let line = trimTrailingNewlines (normalizeNewline raw) in
      if length line = 0 then disc_loop fs plat base_path disc raws
      else (let disc_path = snprintf_buf MAX_PATH (base_path @ line) in
            if exists fs disc_path then
              (let disc = disc + 1;
                   entry = (Entry_new plat disc_path ENTRY_ROM)\<lparr>name := snprintf_buf 16 (''Disc '' @ dec_int disc)\<rparr>
               in entry # disc_loop fs plat base_path disc raws)
            else disc_loop fs plat base_path disc raws))"

definition getDiscs :: "fs \<Rightarrow> string \<Rightarrow> string \<Rightarrow> Entry list" where
  "getDiscs fs plat p =
     (let base_path = parent_path p in
      case fopen_r fs p of None \<Rightarrow> [] | Some s \<Rightarrow> disc_loop fs plat base_path 0 (fgets_all 256 s))"

fun first_disc_loop :: "fs \<Rightarrow> string \<Rightarrow> string \<Rightarrow> string list \<Rightarrow> bool \<times> string" where
  "first_disc_loop fs base_path disc_path [] = (False, disc_path)"
| "first_disc_loop fs base_path disc_path (raw # raws) =
     (let line = trimTrailingNewlines (normalizeNewline raw) in
      if length line = 0 then first_disc_loop fs base_path disc_path raws
      else (let disc_path = snprintf_buf MAX_PATH (base_path @ line) in (exists fs disc_path, disc_path)))"

definition getFirstDisc :: "fs \<Rightarrow> string \<Rightarrow> string \<Rightarrow> bool \<times> string" where
  \<comment> \<open>the last argument is what the caller's buffer held\<close>
  "getFirstDisc fs m3u_path disc_path =
     (let base_path = parent_path m3u_path in
      case fopen_r fs m3u_path of
        None \<Rightarrow> (False, disc_path)
      | Some s \<Rightarrow> first_disc_loop fs base_path disc_path (fgets_all 256 s))"

definition entry_type :: "fs \<Rightarrow> string \<Rightarrow> string \<Rightarrow> EntryType" where
  "entry_type fs d_name full_path =
     (if is_dir fs full_path then (if suffixMatch ''.pak'' d_name then ENTRY_PAK else ENTRY_DIR)
      else if prefix_match COLLECTIONS_PATH full_path then ENTRY_DIR else ENTRY_ROM)"

definition addEntries :: "fs \<Rightarrow> string \<Rightarrow> Entry list \<Rightarrow> string \<Rightarrow> Entry list" where
  "addEntries fs plat es p =
     es @ map (\<lambda>n. Entry_new plat (p @ ''/'' @ n) (entry_type fs n (p @ ''/'' @ n))) (visible (opendir fs p))"

definition isConsoleDir :: "string \<Rightarrow> bool" where
  "isConsoleDir p \<longleftrightarrow> exact_match (dirname p) ROMS_PATH"

definition collated_path :: "string \<Rightarrow> string" where
  \<comment> \<open>keep the opening parenthesis\<close>
  "collated_path p = (case strrchr p (CHR ''('') of Some i \<Rightarrow> take (Suc i) p | None \<Rightarrow> p)"

definition collated_dirs :: "fs \<Rightarrow> string \<Rightarrow> string list" where
  "collated_dirs fs p =
     filter (\<lambda>full_path. is_dir fs full_path \<and> prefix_match (collated_path p) full_path)
       (map (\<lambda>n. ROMS_PATH @ ''/'' @ n) (visible (opendir fs ROMS_PATH)))"

definition getEntries :: "fs \<Rightarrow> string \<Rightarrow> string \<Rightarrow> Entry list" where
  "getEntries fs plat p =
     EntryArray_sort
       (if isConsoleDir p then foldl (addEntries fs plat) [] (collated_dirs fs p)
        else addEntries fs plat [] p)"

definition Directory_new :: "string \<Rightarrow> bool \<Rightarrow> Recent list \<Rightarrow> fs \<Rightarrow> string \<Rightarrow> int \<Rightarrow> Directory \<times> Recent list \<times> fs" where
  \<comment> \<open>\<open>start\<close> and \<open>end\<close> are left for \<open>openDirectory\<close> to set\<close>
  "Directory_new plat simple_mode recents fs p sel =
     (let (es, recents', fs') =
            (if exact_match p SDCARD_PATH then getRoot plat simple_mode recents fs
             else if exact_match p FAUX_RECENT_PATH then (getRecents plat recents, recents, fs)
             else if \<not> exact_match p COLLECTIONS_PATH \<and> prefix_match COLLECTIONS_PATH p \<and> suffixMatch ''.txt'' p
               then (getCollection fs plat p, recents, fs)
             else if suffixMatch ''.m3u'' p then (getDiscs fs plat p, recents, fs)
             else (getEntries fs plat p, recents, fs));
          self = \<lparr>dpath = p, dname = getDisplayName plat p, entries = es, alphas = IntArray_new,
                  selected = sel, start = 0, end_row = 0\<rparr>
      in (Directory_index fs' self, recents', fs'))"

subsection \<open>Facts\<close>

lemma Entry_new_simps [simp]:
  "path (Entry_new plat p t) = p" "alpha (Entry_new plat p t) = 0" "etype (Entry_new plat p t) = t"
  "name (Entry_new plat p t) = getDisplayName plat p" "unique (Entry_new plat p t) = None"
  by (simp_all add: Entry_new_def)

lemma drop_repeats_set: "set (drop_repeats prev es) \<subseteq> set es"
  by (induction prev es rule: drop_repeats.induct) (auto split: option.splits if_splits)

lemma drop_repeats_successive:
  "successively (\<lambda>a b. name a \<noteq> name b) (drop_repeats prev es)
   \<and> (\<forall>p e rest. prev = Some p \<and> drop_repeats prev es = e # rest \<longrightarrow> name p \<noteq> name e)"
proof (induction es arbitrary: prev)
  case (Cons e es)
  have e: "successively (\<lambda>a b. name a \<noteq> name b) (e # drop_repeats (Some e) es)"
    using Cons.IH [of "Some e"] by (cases "drop_repeats (Some e) es") auto
  show ?case
  proof (cases "\<exists>p. prev = Some p \<and> name p = name e")
    case True
    then have eq: "drop_repeats prev (e # es) = drop_repeats prev es" by auto
    show ?thesis unfolding eq by (rule Cons.IH)
  next
    case False
    then have "drop_repeats prev (e # es) = e # drop_repeats (Some e) es" by (auto split: option.split)
    then show ?thesis using e False by (auto simp del: drop_repeats.simps)
  qed
qed simp

lemma root_aliases_alpha:
  "\<forall>e \<in> set es. alpha e = 0 \<Longrightarrow> \<forall>e \<in> set (root_aliases fs es). alpha e = 0"
  by (auto simp: root_aliases_def Let_def esort.set_srt alias_entry_def split: option.splits)

lemma root_systems_entries:
  "e \<in> set (root_systems fs plat) \<Longrightarrow>
   \<exists>n. n \<in> set (visible (opendir fs ROMS_PATH)) \<and> hasRoms fs plat n \<and> e = Entry_new plat (ROMS_PATH @ ''/'' @ n) ENTRY_DIR"
proof -
  let ?emus = "map (\<lambda>n. Entry_new plat (ROMS_PATH @ ''/'' @ n) ENTRY_DIR)
                   (filter (hasRoms fs plat) (visible (opendir fs ROMS_PATH)))"
  assume "e \<in> set (root_systems fs plat)"
  then have "e \<in> set (EntryArray_sort ?emus)"
    using drop_repeats_set unfolding root_systems_def Let_def by blast
  then have "e \<in> set ?emus" by (simp add: esort.set_srt)
  then show ?thesis by (auto simp only: set_map set_filter)
qed

lemma root_systems_alpha: "\<forall>e \<in> set (root_systems fs plat). alpha e = 0"
  using root_systems_entries by fastforce

lemma getRoot_alpha: "\<forall>e \<in> set (fst (getRoot plat simple recents fs)). alpha e = 0"
  using root_aliases_alpha [OF root_systems_alpha]
  by (simp add: getRoot_def Let_def split_beta esort.set_srt) (auto simp: image_iff)

lemma disc_loop_alpha: "\<forall>e \<in> set (disc_loop fs plat b d ls). alpha e = 0"
  by (induction ls arbitrary: d) (auto simp: Let_def)

lemma foldl_addEntries:
  "foldl (addEntries fs plat) es ds = es @ concat (map (\<lambda>d. addEntries fs plat [] d) ds)"
  by (induction ds arbitrary: es) (simp_all add: addEntries_def)

lemma getEntries_alpha: "\<forall>e \<in> set (getEntries fs plat p). alpha e = 0"
  by (auto simp: getEntries_def esort.set_srt foldl_addEntries addEntries_def)

lemma Directory_new_fresh:
  "\<exists>d fs'. fst (Directory_new plat simple recents fs p sel) = Directory_index fs' d
           \<and> fresh_dir d \<and> selected d = sel \<and> dpath d = p"
proof -
  have recents: "\<forall>e \<in> set (getRecents plat recents). alpha e = 0"
    by (auto simp: getRecents_def recent_entry_def Let_def split: option.splits if_splits)
  have collection: "\<forall>e \<in> set (getCollection fs plat p). alpha e = 0"
    by (auto simp: getCollection_def collection_line_def Let_def split: option.splits if_splits)
  have discs: "\<forall>e \<in> set (getDiscs fs plat p). alpha e = 0"
    using disc_loop_alpha by (auto simp: getDiscs_def split: option.splits)
  show ?thesis
    using recents collection discs getEntries_alpha getRoot_alpha
    by (auto simp: Directory_new_def fresh_dir_def Let_def split_beta)
qed

lemma collated_path_prefix: "prefix_match (collated_path p) p"
proof (cases "strrchr p (CHR ''('')")
  case None
  then show ?thesis by (simp add: collated_path_def)
next
  case (Some i)
  then have "take (Suc i) p @ drop (Suc i) p = p" by simp
  then show ?thesis using Some prefix_match_append [of "take (Suc i) p" "drop (Suc i) p"]
    by (simp add: collated_path_def)
qed

subsection \<open>Properties\<close>

text \<open>A folder's list holds exactly the visible children of the folder, or, for a system folder
  directly under \<open>Roms\<close>, of every visible folder that shares its name up to the tag's parenthesis
  (the folder itself among them), and it is sorted by name without regard to case.\<close>

theorem getEntries_spec:
  "sorted (map sort_name (getEntries fs plat p))
   \<and> path ` set (getEntries fs plat p) =
       {d @ ''/'' @ n | d n. d \<in> (if isConsoleDir p then set (collated_dirs fs p) else {p})
                            \<and> n \<in> set (visible (opendir fs d))}
   \<and> (isConsoleDir p \<and> is_dir fs p \<and> (\<exists>n \<in> set (visible (opendir fs ROMS_PATH)). p = ROMS_PATH @ ''/'' @ n)
        \<longrightarrow> p \<in> set (collated_dirs fs p))"
proof (intro conjI)
  show "sorted (map sort_name (getEntries fs plat p))"
    unfolding getEntries_def by (rule esort.sorts)
  show "path ` set (getEntries fs plat p) =
       {d @ ''/'' @ n | d n. d \<in> (if isConsoleDir p then set (collated_dirs fs p) else {p})
                            \<and> n \<in> set (visible (opendir fs d))}"
    by (auto simp: getEntries_def esort.set_srt foldl_addEntries addEntries_def image_iff) blast+
  show "isConsoleDir p \<and> is_dir fs p \<and> (\<exists>n \<in> set (visible (opendir fs ROMS_PATH)). p = ROMS_PATH @ ''/'' @ n)
        \<longrightarrow> p \<in> set (collated_dirs fs p)"
    using collated_path_prefix by (auto simp: collated_dirs_def)
qed

theorem getEntries_spec_witness:
  "let fs = [(ROMS_PATH, Dir), (ROMS_PATH @ ''/GB'', Dir)] in ROMS_PATH @ ''/GB'' \<in> set (collated_dirs fs (ROMS_PATH @ ''/GB''))"
proof -
  let ?fs = "[(ROMS_PATH, Dir), (ROMS_PATH @ ''/GB'', Dir)]"
  have "isConsoleDir (ROMS_PATH @ ''/GB'')" "is_dir ?fs (ROMS_PATH @ ''/GB'')"
    "''GB'' \<in> set (visible (opendir ?fs ROMS_PATH))"
    by (simp_all add: isConsoleDir_def dirname_def basename_def is_dir_def visible_def opendir_def hide_def suffixMatch_def
        ROMS_PATH_def SDCARD_PATH_def)
  then show ?thesis using getEntries_spec [of ?fs "''rg35xx''" "ROMS_PATH @ ''/GB''"] by (auto simp: Let_def)
qed

text \<open>The disc \<open>getFirstDisc\<close> finds for an \<open>.m3u\<close> is the first entry, \<open>Disc 1\<close>, of the list \<open>getDiscs\<close>
  builds from the same file.\<close>

theorem getFirstDisc_agrees:
  assumes "getFirstDisc fs m3u buf = (True, disc)"
  shows "\<exists>es. getDiscs fs plat m3u = (Entry_new plat disc ENTRY_ROM)\<lparr>name := ''Disc 1''\<rparr> # es"
proof -
  have loop: "\<exists>es. disc_loop fs plat b 0 ls = (Entry_new plat disc ENTRY_ROM)\<lparr>name := ''Disc 1''\<rparr> # es"
    if "first_disc_loop fs b buf ls = (True, disc)" for b ls
    using that
  proof (induction ls)
    case (Cons l ls)
    have "snprintf_buf 16 (''Disc '' @ dec_int 1) = ''Disc 1''" by code_simp
    then show ?case using Cons by (auto simp: Let_def split: if_splits)
  qed simp
  show ?thesis using assms loop by (auto simp: getFirstDisc_def getDiscs_def Let_def split: option.splits)
qed

theorem getFirstDisc_agrees_witness:
  "\<exists>es. getDiscs [(''/g/a.m3u'', File (write_lines [''d1.cue''])), (''/g/d1.cue'', File [])] ''rg35xx'' ''/g/a.m3u''
        = (Entry_new ''rg35xx'' ''/g/d1.cue'' ENTRY_ROM)\<lparr>name := ''Disc 1''\<rparr> # es"
  by (rule getFirstDisc_agrees [where buf = "[]"]) code_simp

text \<open>The root menu is, in this order, Recently Played (exactly when a recent game is available),
  Collections or the systems with their aliases, and Tools (unless in simple mode); a system is shown
  only when its emulator is installed and its folder holds a visible file, and no two systems that
  follow each other have the same name.\<close>

theorem getRoot_shape:
  "\<exists>cols sys tools h rs fs'. hasRecents plat recents fs = (h, rs, fs')
     \<and> getRoot plat simple recents fs =
         ((if h then [Entry_new plat FAUX_RECENT_PATH ENTRY_DIR] else []) @ cols @ sys @ tools, rs, fs')
     \<and> sys = (if root_systems fs' plat = [] \<and> hasCollections fs'
              then EntryArray_sort (map (\<lambda>n. Entry_new plat (COLLECTIONS_PATH @ ''/'' @ n) ENTRY_DIR)
                                     (visible (opendir fs' COLLECTIONS_PATH)))
              else root_aliases fs' (root_systems fs' plat))
     \<and> (cols \<noteq> [] \<longleftrightarrow> hasCollections fs' \<and> root_systems fs' plat \<noteq> [])
     \<and> (tools \<noteq> [] \<longleftrightarrow> \<not> simple \<and> exists fs' (SDCARD_PATH @ ''/Tools/'' @ plat))
     \<and> (\<forall>e \<in> set (root_systems fs' plat). \<exists>n. path e = ROMS_PATH @ ''/'' @ n \<and> hasRoms fs' plat n)
     \<and> successively (\<lambda>a b. name a \<noteq> name b) (root_systems fs' plat)"
proof -
  obtain h rs fs' where hr: "hasRecents plat recents fs = (h, rs, fs')" by (metis prod_cases3)
  have empty: "root_aliases fs' (root_systems fs' plat) = [] \<longleftrightarrow> root_systems fs' plat = []"
    using esort.length_srt by (auto simp: root_aliases_def Let_def split: option.splits) (metis length_0_conv length_map)
  let ?cols = "if hasCollections fs' \<and> root_systems fs' plat \<noteq> [] then [Entry_new plat COLLECTIONS_PATH ENTRY_DIR] else []"
  let ?tools = "if exists fs' (SDCARD_PATH @ ''/Tools/'' @ plat) \<and> \<not> simple
                then [Entry_new plat (SDCARD_PATH @ ''/Tools/'' @ plat) ENTRY_DIR] else []"
  let ?sys = "if root_systems fs' plat = [] \<and> hasCollections fs'
              then EntryArray_sort (map (\<lambda>n. Entry_new plat (COLLECTIONS_PATH @ ''/'' @ n) ENTRY_DIR)
                                     (visible (opendir fs' COLLECTIONS_PATH)))
              else root_aliases fs' (root_systems fs' plat)"
  have "\<forall>e \<in> set (root_systems fs' plat). \<exists>n. path e = ROMS_PATH @ ''/'' @ n \<and> hasRoms fs' plat n"
    using root_systems_entries by fastforce
  moreover have "successively (\<lambda>a b. name a \<noteq> name b) (root_systems fs' plat)"
    using drop_repeats_successive by (simp add: root_systems_def Let_def)
  moreover have "getRoot plat simple recents fs =
      ((if h then [Entry_new plat FAUX_RECENT_PATH ENTRY_DIR] else []) @ ?cols @ ?sys @ ?tools, rs, fs')"
    by (simp add: hr getRoot_def Let_def empty)
  ultimately show ?thesis
    using hr by (rule_tac exI [of _ ?cols], rule_tac exI [of _ ?sys], rule_tac exI [of _ ?tools]) auto
qed

theorem getRoot_shape_witness:
  "\<exists>rs fs'. getRoot ''rg35xx'' True [] [] = ([], rs, fs')"
proof -
  obtain cols sys tools h rs fs' where *: "hasRecents ''rg35xx'' [] [] = (h, rs, fs')"
    "getRoot ''rg35xx'' True [] [] = ((if h then [Entry_new ''rg35xx'' FAUX_RECENT_PATH ENTRY_DIR] else []) @ cols @ sys @ tools, rs, fs')"
    "sys = (if root_systems fs' ''rg35xx'' = [] \<and> hasCollections fs'
              then EntryArray_sort (map (\<lambda>n. Entry_new ''rg35xx'' (COLLECTIONS_PATH @ ''/'' @ n) ENTRY_DIR)
                                     (visible (opendir fs' COLLECTIONS_PATH)))
              else root_aliases fs' (root_systems fs' ''rg35xx''))"
    "cols \<noteq> [] \<longleftrightarrow> hasCollections fs' \<and> root_systems fs' ''rg35xx'' \<noteq> []"
    "tools \<noteq> [] \<longleftrightarrow> \<not> True \<and> exists fs' (SDCARD_PATH @ ''/Tools/'' @ ''rg35xx'')"
    using getRoot_shape [of "''rg35xx''" "[]" "[]" True] by blast
  have "h = False" "fs' = []"
    using *(1) by (auto simp: hasRecents_def exists_def fopen_r_def saveRecents_def fopen_w_def)
  moreover have "root_systems [] ''rg35xx'' = []"
    by (simp add: root_systems_def opendir_def visible_def EntryArray_sort_def)
  moreover have "\<not> hasCollections []" by (simp add: hasCollections_def exists_def)
  ultimately have "cols = []" "sys = []" "tools = []" "\<not> h"
    using *(3,4,5) by (simp_all add: root_aliases_def)
  then show ?thesis using *(2) by simp
qed

end
