(* ===== verification/Shell.thy ===== *)
theory Shell
  imports CString
begin

text \<open>
  Quoting for the shell. The launcher writes a command line to \<open>/tmp/next\<close> for a shell script to
  run, and the Wi-Fi tool passes commands to \<open>popen\<close>; both put untrusted strings (file names,
  network names) between single quotes. This theory holds the lexer of a POSIX shell for the
  characters involved, the two quoting routines (\<open>escapeSingleQuotes\<close> of \<open>minui/minui.c\<close> and
  \<open>Wifi_shellQuote\<close> of \<open>wifi/wifi.c\<close>) with their output limits, and the locale \<open>shell_quoting\<close>: a
  quoted string is one word of the command, whatever it holds.
\<close>

definition char_quote :: char where "char_quote = CHR 0x27"
definition char_backslash :: char where "char_backslash = CHR 0x5C"

text \<open>Characters with a meaning of their own outside quotes: the lexer gives up on them, so that a
  successful result shows there was none.\<close>

definition sh_special :: "char \<Rightarrow> bool" where
  "sh_special c \<longleftrightarrow> c \<in> set ''$`&|;<>()*?[]#~!{}%=^'' \<or> c = CHR 0x22 \<or> (of_char c :: nat) < 32"

fun sh_lex :: "bool \<Rightarrow> string option \<Rightarrow> string \<Rightarrow> string list option" where
  \<comment> \<open>inside quotes?, the word read so far (reversed), the input\<close>
  "sh_lex True w [] = None"
| "sh_lex False w [] = Some (case w of None \<Rightarrow> [] | Some x \<Rightarrow> [rev x])"
| "sh_lex True w (c # cs) =
     (if c = char_quote then sh_lex False w cs
      else sh_lex True (Some (c # (case w of Some x \<Rightarrow> x | None \<Rightarrow> []))) cs)"
| "sh_lex False w (c # cs) =
     (let x = (case w of Some x \<Rightarrow> x | None \<Rightarrow> []) in
      if c = char_quote then sh_lex True (Some x) cs
      else if c = char_backslash then
        (case cs of [] \<Rightarrow> None | d # ds \<Rightarrow> sh_lex False (Some (d # x)) ds)
      else if c = CHR '' '' then
        (case w of None \<Rightarrow> sh_lex False None cs | Some x \<Rightarrow> map_option (Cons (rev x)) (sh_lex False None cs))
      else if sh_special c then None
      else sh_lex False (Some (c # x)) cs)"

definition sh_words :: "string \<Rightarrow> string list option" where
  "sh_words cmd = sh_lex False None cmd"

subsection \<open>escapeSingleQuotes\<close>

definition quote_char :: "char \<Rightarrow> string" where
  "quote_char c = (if c = char_quote then [char_quote, char_backslash, char_quote, char_quote] else [c])"

fun escape_loop :: "nat \<Rightarrow> nat \<Rightarrow> string \<Rightarrow> string" where
  "escape_loop dst_size di [] = []"
| "escape_loop dst_size di (c # src) =
     (let needed = (if c = char_quote then 4 else 1) in
      if di + needed \<ge> dst_size then []
      else quote_char c @ escape_loop dst_size (di + needed) src)"

definition escapeSingleQuotes :: "nat \<Rightarrow> string \<Rightarrow> string" where
  "escapeSingleQuotes dst_size src = (if dst_size = 0 then [] else escape_loop dst_size 0 src)"

subsection \<open>Wifi\_shellQuote\<close>

fun shellquote_loop :: "nat \<Rightarrow> nat \<Rightarrow> string \<Rightarrow> string" where
  "shellquote_loop outlen oi [] = []"
| "shellquote_loop outlen oi (c # src) =
     (if oi + 6 \<ge> outlen then []
      else quote_char c @ shellquote_loop outlen (oi + length (quote_char c)) src)"

definition Wifi_shellQuote :: "nat \<Rightarrow> string \<Rightarrow> string" where
  "Wifi_shellQuote outlen src =
     (if outlen < 3 then [] else [char_quote] @ shellquote_loop outlen 1 src @ [char_quote])"

subsection \<open>Facts\<close>

definition quote_all :: "string \<Rightarrow> string" where
  "quote_all s = concat (map quote_char s)"

lemma quote_all_simps [simp]: "quote_all [] = []" "quote_all (c # s) = quote_char c @ quote_all s"
  by (simp_all add: quote_all_def)

lemma char_quote_neq [simp]: "char_quote \<noteq> char_backslash" "char_backslash \<noteq> char_quote"
  by (simp_all add: char_quote_def char_backslash_def)

lemma sh_lex_quote_all:
  "sh_lex True (Some x) (quote_all s @ char_quote # cs) = sh_lex False (Some (rev s @ x)) cs"
proof (induction s arbitrary: x)
  case (Cons c s)
  then show ?case by (simp add: quote_char_def)
qed simp

lemma escape_loop_prefix: "\<exists>k. escape_loop n di s = quote_all (take k s)"
proof (induction s arbitrary: di)
  case (Cons c s)
  show ?case
  proof (cases "di + (if c = char_quote then 4 else 1) \<ge> n")
    case True
    then have "escape_loop n di (c # s) = quote_all (take 0 (c # s))" by (simp add: Let_def)
    then show ?thesis by blast
  next
    case False
    obtain k where "escape_loop n (di + (if c = char_quote then 4 else 1)) s = quote_all (take k s)"
      using Cons by blast
    then have "escape_loop n di (c # s) = quote_all (take (Suc k) (c # s))" using False by (simp add: Let_def)
    then show ?thesis by blast
  qed
qed simp

lemma length_quote_char: "length (quote_char c) = (if c = char_quote then 4 else 1)"
  by (simp add: quote_char_def)

lemma escape_loop_whole: "di + length (quote_all s) < n \<Longrightarrow> escape_loop n di s = quote_all s"
  by (induction s arbitrary: di) (auto simp: Let_def length_quote_char)

lemma escape_loop_length: "di < n \<Longrightarrow> di + length (escape_loop n di s) < n"
proof (induction s arbitrary: di)
  case (Cons c s)
  show ?case
  proof (cases "di + (if c = char_quote then 4 else 1) \<ge> n")
    case True
    then show ?thesis using Cons.prems by (simp add: Let_def)
  next
    case False
    then have "di + (if c = char_quote then 4 else 1) < n" by simp
    from Cons.IH [OF this] False show ?thesis by (simp add: Let_def length_quote_char)
  qed
qed simp

lemma shellquote_loop_prefix: "\<exists>k. shellquote_loop n i s = quote_all (take k s)"
proof (induction s arbitrary: i)
  case (Cons c s)
  show ?case
  proof (cases "i + 6 \<ge> n")
    case True
    then have "shellquote_loop n i (c # s) = quote_all (take 0 (c # s))" by simp
    then show ?thesis by blast
  next
    case False
    obtain k where "shellquote_loop n (i + length (quote_char c)) s = quote_all (take k s)"
      using Cons by blast
    then have "shellquote_loop n i (c # s) = quote_all (take (Suc k) (c # s))" using False by simp
    then show ?thesis by blast
  qed
qed simp

lemma shellquote_loop_whole: "i + length (quote_all s) + 6 \<le> n \<Longrightarrow> shellquote_loop n i s = quote_all s"
proof (induction s arbitrary: i)
  case (Cons c s)
  have "length (quote_char c) \<ge> 1" by (simp add: length_quote_char)
  then show ?case using Cons by simp
qed simp

lemma length_quote_all: "length (quote_all s) \<le> 4 * length s"
  by (induction s) (simp_all add: length_quote_char)

subsection \<open>The contract of quoting\<close>

text \<open>A quoting function turns any string into text that the shell reads as one word: a prefix of
  the string, the whole of it when it fits.\<close>

locale shell_quoting =
  fixes quoted :: "string \<Rightarrow> string" and fits :: "string \<Rightarrow> bool"
  assumes one_word: "\<exists>k. (\<forall>x cs. sh_lex False x (quoted s @ cs)
                         = sh_lex False (Some (rev (take k s) @ (case x of Some w \<Rightarrow> w | None \<Rightarrow> []))) cs)
                       \<and> (fits s \<longrightarrow> k = length s)"
begin

lemma word_alone: "\<exists>k. sh_words (quoted s) = Some [take k s] \<and> (fits s \<longrightarrow> take k s = s)"
proof -
  obtain k where k: "\<And>x cs. sh_lex False x (quoted s @ cs)
      = sh_lex False (Some (rev (take k s) @ (case x of Some w \<Rightarrow> w | None \<Rightarrow> []))) cs"
    "fits s \<longrightarrow> k = length s"
    using one_word [of s] by blast
  have "sh_words (quoted s) = Some [take k s]" using k(1) [of None "[]"] by (simp add: sh_words_def)
  then show ?thesis using k(2) by auto
qed

text \<open>Two quoted words with a blank between them are exactly two words.\<close>

lemma two_words:
  "\<exists>k l. sh_words (quoted s @ '' '' @ quoted t) = Some [take k s, take l t]
         \<and> (fits s \<longrightarrow> take k s = s) \<and> (fits t \<longrightarrow> take l t = t)"
proof -
  obtain k where k: "\<And>x cs. sh_lex False x (quoted s @ cs)
      = sh_lex False (Some (rev (take k s) @ (case x of Some w \<Rightarrow> w | None \<Rightarrow> []))) cs"
    "fits s \<longrightarrow> k = length s"
    using one_word [of s] by blast
  obtain l where l: "\<And>x cs. sh_lex False x (quoted t @ cs)
      = sh_lex False (Some (rev (take l t) @ (case x of Some w \<Rightarrow> w | None \<Rightarrow> []))) cs"
    "fits t \<longrightarrow> l = length t"
    using one_word [of t] by blast
  have "CHR '' '' \<noteq> char_quote" "CHR '' '' \<noteq> char_backslash" by (simp_all add: char_quote_def char_backslash_def)
  then have "sh_words (quoted s @ '' '' @ quoted t) = Some [take k s, take l t]"
    using k(1) [of None "CHR '' '' # quoted t"] l(1) [of None "[]"] by (simp add: sh_words_def)
  then show ?thesis using k(2) l(2) by auto
qed

end

lemma sh_lex_quoted:
  "sh_lex False x (char_quote # quote_all s @ char_quote # cs)
   = sh_lex False (Some (rev s @ (case x of Some w \<Rightarrow> w | None \<Rightarrow> []))) cs"
  using sh_lex_quote_all [of "case x of Some w \<Rightarrow> w | None \<Rightarrow> []" s cs]
  by (simp add: Let_def)

definition esc_quoted :: "nat \<Rightarrow> string \<Rightarrow> string" where
  \<comment> \<open>how the callers use it: \<open>'%s'\<close>\<close>
  "esc_quoted n s = [char_quote] @ escapeSingleQuotes n s @ [char_quote]"

interpretation esc: shell_quoting "esc_quoted n" "\<lambda>s. length (quote_all s) < n" for n
proof
  fix s
  obtain k where k: "escapeSingleQuotes n s = quote_all (take k s)"
    using escape_loop_prefix [of n 0 s] by (metis escapeSingleQuotes_def quote_all_simps(1) take0)
  show "\<exists>k. (\<forall>x cs. sh_lex False x (esc_quoted n s @ cs)
      = sh_lex False (Some (rev (take k s) @ (case x of Some w \<Rightarrow> w | None \<Rightarrow> []))) cs)
      \<and> (length (quote_all s) < n \<longrightarrow> k = length s)"
  proof (cases "length (quote_all s) < n")
    case True
    then have "escapeSingleQuotes n s = quote_all (take (length s) s)"
      by (simp add: escapeSingleQuotes_def escape_loop_whole)
    then show ?thesis using sh_lex_quoted by (intro exI [of _ "length s"]) (simp add: esc_quoted_def)
  next
    case False
    then show ?thesis using k sh_lex_quoted by (intro exI [of _ k]) (simp add: esc_quoted_def)
  qed
qed

interpretation wifi: shell_quoting "Wifi_shellQuote (n + 3)" "\<lambda>s. length (quote_all s) + 4 \<le> n" for n
proof
  fix s
  obtain k where k: "shellquote_loop (n + 3) 1 s = quote_all (take k s)"
    using shellquote_loop_prefix by blast
  show "\<exists>k. (\<forall>x cs. sh_lex False x (Wifi_shellQuote (n + 3) s @ cs)
      = sh_lex False (Some (rev (take k s) @ (case x of Some w \<Rightarrow> w | None \<Rightarrow> []))) cs)
      \<and> (length (quote_all s) + 4 \<le> n \<longrightarrow> k = length s)"
  proof (cases "length (quote_all s) + 4 \<le> n")
    case True
    then have "shellquote_loop (n + 3) 1 s = quote_all (take (length s) s)"
      by (simp add: shellquote_loop_whole)
    then show ?thesis using sh_lex_quoted by (intro exI [of _ "length s"]) (simp add: Wifi_shellQuote_def)
  next
    case False
    then show ?thesis using k sh_lex_quoted by (intro exI [of _ k]) (simp add: Wifi_shellQuote_def)
  qed
qed

end
