(* ===== verification/Pad.thy ===== *)
theory Pad
  imports Utils
begin

text \<open>
  The input layer: \<open>common/pad.c\<close> (button state, SDL polling used by the rg35xx, analog sticks,
  menu taps, wake-up) and the evdev polling of \<open>rg35xxplus/platform/platform.c\<close>. Button masks
  and tick counts are 32-bit words, so comparisons and sums wrap as in C.

  What SDL or the kernel delivers in one poll (the event lists, whether the lid switch changed,
  whether a gamepad is plugged in and its name) is an argument.
\<close>

subsection \<open>Buttons\<close>

definition BTN_ID_COUNT :: nat where "BTN_ID_COUNT = 25"

definition btn_mask :: "nat \<Rightarrow> u32" where
  \<comment> \<open>\<open>1 << id\<close>\<close>
  "btn_mask i = push_bit i 1"

abbreviation "BTN_ID_A \<equiv> 4 :: nat"
abbreviation "BTN_ID_B \<equiv> 5 :: nat"
abbreviation "BTN_ID_X \<equiv> 6 :: nat"
abbreviation "BTN_ID_Y \<equiv> 7 :: nat"
abbreviation "BTN_ID_START \<equiv> 8 :: nat"
abbreviation "BTN_ID_SELECT \<equiv> 9 :: nat"
abbreviation "BTN_ID_L1 \<equiv> 10 :: nat"
abbreviation "BTN_ID_R1 \<equiv> 11 :: nat"
abbreviation "BTN_ID_L2 \<equiv> 12 :: nat"
abbreviation "BTN_ID_R2 \<equiv> 13 :: nat"
abbreviation "BTN_ID_L3 \<equiv> 14 :: nat"
abbreviation "BTN_ID_R3 \<equiv> 15 :: nat"
abbreviation "BTN_ID_MENU \<equiv> 16 :: nat"
abbreviation "BTN_ID_PLUS \<equiv> 17 :: nat"
abbreviation "BTN_ID_MINUS \<equiv> 18 :: nat"
abbreviation "BTN_ID_POWER \<equiv> 19 :: nat"
abbreviation "BTN_ID_POWEROFF \<equiv> 20 :: nat"
abbreviation "BTN_ID_ANALOG_UP \<equiv> 21 :: nat"
abbreviation "BTN_ID_ANALOG_DOWN \<equiv> 22 :: nat"
abbreviation "BTN_ID_ANALOG_LEFT \<equiv> 23 :: nat"
abbreviation "BTN_ID_ANALOG_RIGHT \<equiv> 24 :: nat"

definition BTN_UP :: u32 where "BTN_UP = btn_mask 0 OR btn_mask BTN_ID_ANALOG_UP"
definition BTN_DOWN :: u32 where "BTN_DOWN = btn_mask 1 OR btn_mask BTN_ID_ANALOG_DOWN"
definition BTN_LEFT :: u32 where "BTN_LEFT = btn_mask 2 OR btn_mask BTN_ID_ANALOG_LEFT"
definition BTN_RIGHT :: u32 where "BTN_RIGHT = btn_mask 3 OR btn_mask BTN_ID_ANALOG_RIGHT"
definition BTN_SLEEP :: u32 where "BTN_SLEEP = btn_mask BTN_ID_POWER"

definition PAD_REPEAT_DELAY :: u32 where "PAD_REPEAT_DELAY = 300"
definition PAD_REPEAT_INTERVAL :: u32 where "PAD_REPEAT_INTERVAL = 100"

record PAD_Axis =
  ax_x :: int
  ax_y :: int

record PAD_Context =
  is_pressed :: u32
  just_pressed :: u32
  just_released :: u32
  just_repeated :: u32
  repeat_at :: "u32 list"
  laxis :: PAD_Axis
  raxis :: PAD_Axis

subsection \<open>State changes\<close>

definition pad_release :: "nat \<Rightarrow> PAD_Context \<Rightarrow> PAD_Context" where
  "pad_release i pad = pad\<lparr>
     is_pressed := is_pressed pad AND NOT (btn_mask i),
     just_repeated := just_repeated pad AND NOT (btn_mask i),
     just_released := just_released pad OR btn_mask i\<rparr>"

definition pad_press :: "nat \<Rightarrow> u32 \<Rightarrow> PAD_Context \<Rightarrow> PAD_Context" where
  "pad_press i rep pad = pad\<lparr>
     just_pressed := just_pressed pad OR btn_mask i,
     just_repeated := just_repeated pad OR btn_mask i,
     is_pressed := is_pressed pad OR btn_mask i,
     repeat_at := (repeat_at pad)[i := rep]\<rparr>"

definition is_held :: "PAD_Context \<Rightarrow> nat \<Rightarrow> bool" where
  "is_held pad i \<longleftrightarrow> is_pressed pad AND btn_mask i \<noteq> 0"

definition pad_button :: "bool \<Rightarrow> nat \<Rightarrow> u32 \<Rightarrow> PAD_Context \<Rightarrow> PAD_Context" where
  \<comment> \<open>the common tail of both pollers\<close>
  "pad_button pressed i tick pad =
     (if \<not> pressed then pad_release i pad
      else if \<not> is_held pad i then pad_press i (tick + PAD_REPEAT_DELAY) pad
      else pad)"

definition AXIS_DEADZONE :: int where "AXIS_DEADZONE = 0x4000"

definition analog_unpress :: "nat \<Rightarrow> PAD_Context \<Rightarrow> PAD_Context" where
  \<comment> \<open>the two blocks under \<open>not pressing\<close>: \<open>just_repeated &= neg\<close>, without the complement\<close>
  "analog_unpress i pad =
     (if is_held pad i then pad\<lparr>
        is_pressed := is_pressed pad AND NOT (btn_mask i),
        just_repeated := just_repeated pad AND btn_mask i,
        just_released := just_released pad OR btn_mask i\<rparr>
      else pad)"

definition analog_press :: "nat \<Rightarrow> nat \<Rightarrow> u32 \<Rightarrow> PAD_Context \<Rightarrow> PAD_Context" where
  "analog_press i opposite rep pad =
     (if \<not> is_held pad i then
        (let pad = pad_press i rep pad in
         if is_held pad opposite then pad_release opposite pad else pad)
      else pad)"

definition PAD_setAnalog :: "nat \<Rightarrow> nat \<Rightarrow> int \<Rightarrow> u32 \<Rightarrow> PAD_Context \<Rightarrow> PAD_Context" where
  "PAD_setAnalog neg_id pos_id val rep pad =
     (if val > AXIS_DEADZONE then analog_press pos_id neg_id rep pad
      else if val < - AXIS_DEADZONE then analog_press neg_id pos_id rep pad
      else analog_unpress pos_id (analog_unpress neg_id pad))"

definition PAD_reset :: "PAD_Context \<Rightarrow> PAD_Context" where
  "PAD_reset pad = pad\<lparr>just_pressed := 0, is_pressed := 0, just_released := 0, just_repeated := 0\<rparr>"

definition poll_reset :: "PAD_Context \<Rightarrow> PAD_Context" where
  "poll_reset pad = pad\<lparr>just_pressed := 0, just_released := 0, just_repeated := 0\<rparr>"

definition repeat_step :: "u32 \<Rightarrow> nat \<Rightarrow> PAD_Context \<Rightarrow> PAD_Context" where
  "repeat_step tick i pad =
     (if is_held pad i \<and> tick \<ge> repeat_at pad ! i
      then pad\<lparr>just_repeated := just_repeated pad OR btn_mask i,
               repeat_at := (repeat_at pad)[i := repeat_at pad ! i + PAD_REPEAT_INTERVAL]\<rparr>
      else pad)"

definition poll_begin :: "u32 \<Rightarrow> PAD_Context \<Rightarrow> PAD_Context" where
  "poll_begin tick pad = fold (repeat_step tick) [0..<BTN_ID_COUNT] (poll_reset pad)"

fun hat_loop :: "u32 \<Rightarrow> nat \<Rightarrow> int list \<Rightarrow> PAD_Context \<Rightarrow> PAD_Context" where
  \<comment> \<open>-1 no change, 0 released, 1 pressed\<close>
  "hat_loop tick i [] pad = pad"
| "hat_loop tick i (state # hats) pad =
     hat_loop tick (i + 1) hats
       (if state = 0 then pad_release i pad
        else if state = 1 \<and> \<not> is_held pad i then pad_press i (tick + PAD_REPEAT_DELAY) pad
        else pad)"

definition poll_end :: "bool \<Rightarrow> PAD_Context \<Rightarrow> PAD_Context" where
  \<comment> \<open>\<open>lid.has_lid && PLAT_lidChanged(NULL)\<close>\<close>
  "poll_end lid_changed pad =
     (if lid_changed then pad\<lparr>just_released := just_released pad OR BTN_SLEEP\<rparr> else pad)"

subsection \<open>SDL polling (rg35xx)\<close>

datatype sdl_event =
    SDL_KEY bool int       \<comment> \<open>pressed, scancode\<close>
  | SDL_JOYBUTTON bool int
  | SDL_JOYHAT int
  | SDL_JOYAXIS int int    \<comment> \<open>axis, value\<close>
  | SDL_OTHER

record pad_codes =
  key_codes :: "(int \<times> nat) list"  \<comment> \<open>\<open>CODE_*\<close> and button id, in the order of the chain of tests\<close>
  joy_codes :: "(int \<times> nat) list"
  axis_l2 :: int
  axis_r2 :: int
  axis_lx :: int
  axis_ly :: int
  axis_rx :: int
  axis_ry :: int

definition rg35xx_codes :: pad_codes where
  \<comment> \<open>of \<open>rg35xx/platform/platform.h\<close>; entries that are not available are -1, which no event has\<close>
  "rg35xx_codes = \<lparr>key_codes =
     [(0x5A, 0), (0x5B, 1), (0x5C, 2), (0x5D, 3), (0x5E, BTN_ID_A), (0x5F, BTN_ID_B), (0x60, BTN_ID_X),
      (0x61, BTN_ID_Y), (0x62, BTN_ID_START), (0x63, BTN_ID_SELECT), (0x68, BTN_ID_MENU), (-1, BTN_ID_MENU),
      (0x64, BTN_ID_L1), (0x66, BTN_ID_L2), (-1, BTN_ID_L3), (0x65, BTN_ID_R1), (0x67, BTN_ID_R2),
      (-1, BTN_ID_R3), (0x6C, BTN_ID_PLUS), (0x6D, BTN_ID_MINUS), (0x74, BTN_ID_POWER), (-1, BTN_ID_POWEROFF)],
    joy_codes = [], axis_l2 = -1, axis_r2 = -1, axis_lx = -1, axis_ly = -1, axis_rx = -1, axis_ry = -1\<rparr>"

definition sdl_hats :: "int \<Rightarrow> int list" where
  \<comment> \<open>up is 1, right 2, down 4, left 8\<close>
  "sdl_hats hat =
     (if hat = 1 then [1,0,0,0] else if hat = 4 then [0,1,0,0] else if hat = 8 then [0,0,1,0]
      else if hat = 2 then [0,0,0,1] else if hat = 9 then [1,0,1,0] else if hat = 12 then [0,1,1,0]
      else if hat = 3 then [1,0,0,1] else if hat = 6 then [0,1,0,1] else if hat = 0 then [0,0,0,0]
      else [-1,-1,-1,-1])"

definition sdl_axis :: "pad_codes \<Rightarrow> u32 \<Rightarrow> int \<Rightarrow> int \<Rightarrow> PAD_Context \<Rightarrow> PAD_Context" where
  "sdl_axis c tick axis val pad =
     (let trigger = (\<lambda>i. if \<not> val > 0 \<and> \<not> is_held pad i then pad else pad_button (val > 0) i tick pad) in
      if axis = axis_l2 c then trigger BTN_ID_L2
      else if axis = axis_r2 c then trigger BTN_ID_R2
      else if axis = axis_lx c then
        PAD_setAnalog BTN_ID_ANALOG_LEFT BTN_ID_ANALOG_RIGHT val (tick + PAD_REPEAT_DELAY)
          (pad\<lparr>laxis := (laxis pad)\<lparr>ax_x := val\<rparr>\<rparr>)
      else if axis = axis_ly c then
        PAD_setAnalog BTN_ID_ANALOG_UP BTN_ID_ANALOG_DOWN val (tick + PAD_REPEAT_DELAY)
          (pad\<lparr>laxis := (laxis pad)\<lparr>ax_y := val\<rparr>\<rparr>)
      else if axis = axis_rx c then pad\<lparr>raxis := (raxis pad)\<lparr>ax_x := val\<rparr>\<rparr>
      else if axis = axis_ry c then pad\<lparr>raxis := (raxis pad)\<lparr>ax_y := val\<rparr>\<rparr>
      else pad)"

definition sdl_step :: "pad_codes \<Rightarrow> u32 \<Rightarrow> sdl_event \<Rightarrow> PAD_Context \<Rightarrow> PAD_Context" where
  "sdl_step c tick event pad =
     (case event of
        SDL_KEY pressed code \<Rightarrow>
          (case map_of (key_codes c) code of Some i \<Rightarrow> pad_button pressed i tick pad | None \<Rightarrow> pad)
      | SDL_JOYBUTTON pressed joy \<Rightarrow>
          (case map_of (joy_codes c) joy of Some i \<Rightarrow> pad_button pressed i tick pad | None \<Rightarrow> pad)
      | SDL_JOYHAT hat \<Rightarrow> hat_loop tick 0 (sdl_hats hat) pad
      | SDL_JOYAXIS axis val \<Rightarrow> sdl_axis c tick axis val pad
      | SDL_OTHER \<Rightarrow> pad)"

definition PLAT_pollInput :: "pad_codes \<Rightarrow> u32 \<Rightarrow> sdl_event list \<Rightarrow> bool \<Rightarrow> PAD_Context \<Rightarrow> PAD_Context" where
  "PLAT_pollInput c tick events lid_changed pad =
     poll_end lid_changed (fold (sdl_step c tick) events (poll_begin tick pad))"

subsection \<open>evdev polling (rg35xxplus)\<close>

datatype GamepadType = kGamepadTypeUnknown | kGamepadTypeRGP01 | kGamepadTypeXbox

record gamepad =
  pad_open :: bool        \<comment> \<open>\<open>inputs[kPadIndex] >= 0\<close>\<close>
  pad_type :: GamepadType
  last_check :: u32

definition checkForGamepad :: "u32 \<Rightarrow> bool \<Rightarrow> string \<Rightarrow> bool \<Rightarrow> gamepad \<Rightarrow> gamepad" where
  \<comment> \<open>arguments: the tick, whether the device node exists, its name, whether \<open>open\<close> succeeds\<close>
  "checkForGamepad now connected pad_name opened g =
     (if last_check g = 0 \<or> now - last_check g > 2000 then
        (let g = g\<lparr>last_check := now\<rparr> in
         if \<not> pad_open g \<and> connected then
           g\<lparr>pad_type := (if containsString pad_name ''Anbernic'' then kGamepadTypeRGP01
                          else if containsString pad_name ''Microsoft'' then kGamepadTypeXbox
                          else kGamepadTypeUnknown),
             pad_open := opened\<rparr>
         else if pad_open g \<and> \<not> connected then g\<lparr>pad_open := False, pad_type := kGamepadTypeUnknown\<rparr>
         else g)
      else g)"

definition raw_keys :: "(int \<times> nat) list" where
  "raw_keys = [(103, 0), (108, 1), (105, 2), (106, 3), (304, BTN_ID_A), (305, BTN_ID_B), (307, BTN_ID_X),
     (306, BTN_ID_Y), (311, BTN_ID_START), (312, BTN_ID_SELECT), (310, BTN_ID_MENU), (313, BTN_ID_MENU),
     (316, BTN_ID_MENU), (308, BTN_ID_L1), (314, BTN_ID_L2), (313, BTN_ID_L3), (309, BTN_ID_R1),
     (315, BTN_ID_R2), (316, BTN_ID_R3), (115, BTN_ID_PLUS), (114, BTN_ID_MINUS), (116, BTN_ID_POWER)]"

definition rgp01_keys :: "(int \<times> nat) list" where
  "rgp01_keys = [(305, BTN_ID_A), (304, BTN_ID_B), (308, BTN_ID_X), (307, BTN_ID_Y), (315, BTN_ID_START),
     (314, BTN_ID_SELECT), (316, BTN_ID_MENU), (317, BTN_ID_MENU), (318, BTN_ID_MENU), (310, BTN_ID_L1),
     (312, BTN_ID_L2), (317, BTN_ID_L3), (311, BTN_ID_R1), (313, BTN_ID_R2), (318, BTN_ID_R3)]"

definition xbox_keys :: "(int \<times> nat) list" where
  "xbox_keys = [(305, BTN_ID_A), (304, BTN_ID_B), (308, BTN_ID_X), (307, BTN_ID_Y), (315, BTN_ID_START),
     (314, BTN_ID_SELECT), (316, BTN_ID_MENU), (317, BTN_ID_MENU), (318, BTN_ID_MENU), (310, BTN_ID_L1),
     (317, BTN_ID_L3), (311, BTN_ID_R1), (318, BTN_ID_R3)]"

definition plus_keys :: "nat \<Rightarrow> GamepadType \<Rightarrow> (int \<times> nat) list" where
  "plus_keys i pt = (if i = 2 then (case pt of kGamepadTypeRGP01 \<Rightarrow> rgp01_keys | kGamepadTypeXbox \<Rightarrow> xbox_keys
                                     | kGamepadTypeUnknown \<Rightarrow> [])
                     else raw_keys)"

definition plus_stick :: "u32 \<Rightarrow> int \<Rightarrow> int \<Rightarrow> int \<Rightarrow> int \<Rightarrow> int \<Rightarrow> int \<Rightarrow> PAD_Context \<Rightarrow> PAD_Context" where
  \<comment> \<open>the four stick axes, with their codes and the scaled value\<close>
  "plus_stick tick lsx lsy rsx rsy code val pad =
     (if code = lsx then
        PAD_setAnalog BTN_ID_ANALOG_LEFT BTN_ID_ANALOG_RIGHT val (tick + PAD_REPEAT_DELAY)
          (pad\<lparr>laxis := (laxis pad)\<lparr>ax_x := val\<rparr>\<rparr>)
      else if code = lsy then
        PAD_setAnalog BTN_ID_ANALOG_UP BTN_ID_ANALOG_DOWN val (tick + PAD_REPEAT_DELAY)
          (pad\<lparr>laxis := (laxis pad)\<lparr>ax_y := val\<rparr>\<rparr>)
      else if code = rsx then pad\<lparr>raxis := (raxis pad)\<lparr>ax_x := val\<rparr>\<rparr>
      else if code = rsy then pad\<lparr>raxis := (raxis pad)\<lparr>ax_y := val\<rparr>\<rparr>
      else pad)"

definition plus_abs :: "nat \<Rightarrow> GamepadType \<Rightarrow> u32 \<Rightarrow> int \<Rightarrow> int \<Rightarrow> PAD_Context \<Rightarrow> PAD_Context" where
  "plus_abs i pt tick code val pad =
     (if code = 17 \<or> code = 16 then
        (if val > 1 then pad
         else hat_loop tick 0
                (if code = 17 then [if val = -1 then 1 else 0, if val = 1 then 1 else 0, -1, -1]
                 else [-1, -1, if val = -1 then 1 else 0, if val = 1 then 1 else 0]) pad)
      else if i = 2 then
        (case pt of
           kGamepadTypeRGP01 \<Rightarrow> plus_stick tick 0 1 2 5 code (cdiv ((val - 128) * 32767) 128) pad
         | kGamepadTypeXbox \<Rightarrow>
             (if code = 2 then pad_button (val > 0) BTN_ID_L2 tick pad
              else if code = 5 then pad_button (val > 0) BTN_ID_R2 tick pad
              else plus_stick tick 0 1 3 4 code val pad)
         | kGamepadTypeUnknown \<Rightarrow> pad)
      else plus_stick tick 2 3 4 5 code (cdiv (val * 32767) 4096) pad)"

definition plus_step :: "nat \<Rightarrow> GamepadType \<Rightarrow> u32 \<Rightarrow> int \<times> int \<times> int \<Rightarrow> PAD_Context \<Rightarrow> PAD_Context" where
  \<comment> \<open>an event is its type (\<open>EV_KEY\<close> 1, \<open>EV_ABS\<close> 3), code and value\<close>
  "plus_step i pt tick event pad =
     (case event of (ty, code, val) \<Rightarrow>
        if ty = 1 then
          (if val > 1 then pad
           else (case map_of (plus_keys i pt) code of
                   Some b \<Rightarrow> pad_button (val \<noteq> 0) b tick pad
                 | None \<Rightarrow> pad))
        else if ty = 3 then plus_abs i pt tick code val pad
        else pad)"

definition plus_pollInput :: "u32 \<Rightarrow> gamepad \<Rightarrow> (int \<times> int \<times> int) list list \<Rightarrow> bool \<Rightarrow> PAD_Context \<Rightarrow> PAD_Context" where
  \<comment> \<open>\<open>g\<close> is the state \<open>checkForGamepad\<close> leaves; \<open>reads\<close> the events of the three devices\<close>
  "plus_pollInput tick g reads lid_changed pad =
     poll_end lid_changed
       (fold (\<lambda>(i, evs) pad. if i = 2 \<and> \<not> pad_open g then pad
                              else fold (plus_step i (pad_type g) tick) evs pad)
             (enumerate 0 reads) (poll_begin tick pad))"

subsection \<open>Queries\<close>

definition PAD_justPressed :: "PAD_Context \<Rightarrow> u32 \<Rightarrow> bool" where "PAD_justPressed pad btn \<longleftrightarrow> just_pressed pad AND btn \<noteq> 0"
definition PAD_isPressed :: "PAD_Context \<Rightarrow> u32 \<Rightarrow> bool" where "PAD_isPressed pad btn \<longleftrightarrow> is_pressed pad AND btn \<noteq> 0"
definition PAD_justReleased :: "PAD_Context \<Rightarrow> u32 \<Rightarrow> bool" where "PAD_justReleased pad btn \<longleftrightarrow> just_released pad AND btn \<noteq> 0"
definition PAD_justRepeated :: "PAD_Context \<Rightarrow> u32 \<Rightarrow> bool" where "PAD_justRepeated pad btn \<longleftrightarrow> just_repeated pad AND btn \<noteq> 0"
definition PAD_anyJustPressed :: "PAD_Context \<Rightarrow> bool" where "PAD_anyJustPressed pad \<longleftrightarrow> just_pressed pad \<noteq> 0"
definition PAD_anyPressed :: "PAD_Context \<Rightarrow> bool" where "PAD_anyPressed pad \<longleftrightarrow> is_pressed pad \<noteq> 0"
definition PAD_anyJustReleased :: "PAD_Context \<Rightarrow> bool" where "PAD_anyJustReleased pad \<longleftrightarrow> just_released pad \<noteq> 0"

record tap_state =
  menu_start :: u32
  ignore_menu :: bool

definition PAD_tappedMenu :: "u32 \<Rightarrow> PAD_Context \<Rightarrow> tap_state \<Rightarrow> bool \<times> tap_state" where
  "PAD_tappedMenu now pad t =
     (let menu = btn_mask BTN_ID_MENU;
          t = (if PAD_justPressed pad menu then \<lparr>menu_start = now, ignore_menu = False\<rparr>
               else if PAD_isPressed pad menu \<and> (PAD_justPressed pad (btn_mask BTN_ID_PLUS)
                         \<or> PAD_justPressed pad (btn_mask BTN_ID_MINUS))
               then t\<lparr>ignore_menu := True\<rparr> else t)
      in (\<not> ignore_menu t \<and> PAD_justReleased pad menu \<and> now - menu_start t < 250, t))"

record LID_Context =
  has_lid :: bool
  is_open :: bool

definition PLAT_lidChanged :: "bool \<Rightarrow> LID_Context \<Rightarrow> bool \<times> LID_Context" where
  \<comment> \<open>\<open>lid_open\<close> is what the hall sensor reads\<close>
  "PLAT_lidChanged lid_open lid =
     (if has_lid lid \<and> lid_open \<noteq> is_open lid then (True, lid\<lparr>is_open := lid_open\<rparr>) else (False, lid))"

fun wake_scan :: "LID_Context \<Rightarrow> (int \<times> int \<times> int) list \<Rightarrow> bool option" where
  \<comment> \<open>the loop of \<open>PLAT_shouldWake\<close>: the first release of the power key decides\<close>
  "wake_scan lid [] = None"
| "wake_scan lid (e # es) =
     (if e = (1, 116, 0) then Some (\<not> (has_lid lid \<and> \<not> is_open lid)) else wake_scan lid es)"

definition PLAT_shouldWake :: "bool \<Rightarrow> (int \<times> int \<times> int) list list \<Rightarrow> LID_Context \<Rightarrow> bool \<times> LID_Context" where
  "PLAT_shouldWake lid_open reads lid =
     (let (changed, lid) = PLAT_lidChanged lid_open lid in
      if changed \<and> lid_open then (True, lid)
      else (case wake_scan lid (concat reads) of Some r \<Rightarrow> (r, lid) | None \<Rightarrow> (False, lid)))"

subsection \<open>Vibration\<close>

record VIB_Context =
  queued_strength :: int
  strength :: int
  defer_count :: nat
  rumble :: int     \<comment> \<open>the last argument of \<open>PLAT_setRumble\<close>\<close>

definition VIB_init :: "VIB_Context \<Rightarrow> VIB_Context" where
  "VIB_init v = v\<lparr>queued_strength := 0, strength := 0\<rparr>"

definition VIB_setStrength :: "int \<Rightarrow> VIB_Context \<Rightarrow> VIB_Context" where
  "VIB_setStrength s v = (if queued_strength v = s then v else v\<lparr>queued_strength := s\<rparr>)"

definition VIB_tick :: "VIB_Context \<Rightarrow> VIB_Context" where
  \<comment> \<open>one round of \<open>VIB_thread\<close>; \<open>DEFER_FRAMES\<close> is 3\<close>
  "VIB_tick v =
     (if queued_strength v \<noteq> strength v then
        (if defer_count v < 3 \<and> queued_strength v = 0 then v\<lparr>defer_count := defer_count v + 1\<rparr>
         else v\<lparr>strength := queued_strength v, defer_count := 0, rumble := queued_strength v\<rparr>)
      else v)"

subsection \<open>Bits\<close>

lemma bit_btn_mask: "bit (btn_mask i) n \<longleftrightarrow> n = i \<and> i < 32"
  by (auto simp: btn_mask_def bit_exp_iff possible_bit_word)

lemma is_held_bit: "is_held pad i \<longleftrightarrow> bit (is_pressed pad) i"
proof
  assume "is_held pad i"
  then obtain n where "bit (is_pressed pad AND btn_mask i) n" by (auto simp: is_held_def bit_eq_iff)
  then show "bit (is_pressed pad) i" by (auto simp: bit_and_iff bit_btn_mask)
next
  assume b: "bit (is_pressed pad) i"
  then have "i < 32" using bit_imp_le_length by fastforce
  then have "bit (is_pressed pad AND btn_mask i) i" using b by (simp add: bit_and_iff bit_btn_mask)
  then show "is_held pad i" by (auto simp: is_held_def)
qed

lemma bit_u32_less: "bit (w :: u32) n \<Longrightarrow> n < 32"
  using bit_imp_le_length by fastforce

lemma bit_clear: "bit (w AND NOT (btn_mask i) :: u32) n \<longleftrightarrow> bit w n \<and> n \<noteq> i"
  using bit_u32_less [of w n] by (auto simp: bit_and_iff bit_not_iff bit_btn_mask)

lemma bit_set: "i < 32 \<Longrightarrow> bit (w OR btn_mask i :: u32) n \<longleftrightarrow> bit w n \<or> n = i"
  by (auto simp: bit_or_iff bit_btn_mask)

lemma bit_keep: "i < 32 \<Longrightarrow> bit (w AND btn_mask i :: u32) n \<longleftrightarrow> bit w n \<and> n = i"
  by (auto simp: bit_and_iff bit_btn_mask)

lemmas btn_bits = bit_clear bit_set bit_keep is_held_bit

subsection \<open>Invariants\<close>

text \<open>Holds after every poll: a press of this frame is still held or was released again.\<close>

definition pad_ok :: "PAD_Context \<Rightarrow> bool" where
  "pad_ok pad \<longleftrightarrow> length (repeat_at pad) = BTN_ID_COUNT
     \<and> (\<forall>n. bit (just_pressed pad) n \<longrightarrow> bit (is_pressed pad) n \<or> bit (just_released pad) n)"

text \<open>Holds when no stick moved: only held buttons repeat.\<close>

definition pad_digital :: "PAD_Context \<Rightarrow> bool" where
  "pad_digital pad \<longleftrightarrow> pad_ok pad \<and> (\<forall>n. bit (just_repeated pad) n \<longrightarrow> bit (is_pressed pad) n)"

lemma pad_release_inv:
  assumes "i < BTN_ID_COUNT"
  shows "pad_ok pad \<Longrightarrow> pad_ok (pad_release i pad)"
    and "pad_digital pad \<Longrightarrow> pad_digital (pad_release i pad)"
  using assms by (auto simp: pad_digital_def pad_ok_def pad_release_def btn_bits BTN_ID_COUNT_def)

lemma pad_press_inv:
  assumes "i < BTN_ID_COUNT"
  shows "pad_ok pad \<Longrightarrow> pad_ok (pad_press i rep pad)"
    and "pad_digital pad \<Longrightarrow> pad_digital (pad_press i rep pad)"
  using assms by (auto simp: pad_digital_def pad_ok_def pad_press_def btn_bits BTN_ID_COUNT_def)

lemma pad_button_inv:
  assumes "i < BTN_ID_COUNT"
  shows "pad_ok pad \<Longrightarrow> pad_ok (pad_button b i tick pad)"
    and "pad_digital pad \<Longrightarrow> pad_digital (pad_button b i tick pad)"
  using pad_release_inv [OF assms] pad_press_inv [OF assms] by (simp_all add: pad_button_def)

lemma analog_unpress_ok: "i < BTN_ID_COUNT \<Longrightarrow> pad_ok pad \<Longrightarrow> pad_ok (analog_unpress i pad)"
  by (auto simp: pad_ok_def analog_unpress_def btn_bits BTN_ID_COUNT_def)

lemma analog_press_ok:
  "i < BTN_ID_COUNT \<Longrightarrow> j < BTN_ID_COUNT \<Longrightarrow> pad_ok pad \<Longrightarrow> pad_ok (analog_press i j rep pad)"
  by (simp add: analog_press_def Let_def pad_press_inv pad_release_inv)

lemma PAD_setAnalog_ok:
  "i < BTN_ID_COUNT \<Longrightarrow> j < BTN_ID_COUNT \<Longrightarrow> pad_ok pad \<Longrightarrow> pad_ok (PAD_setAnalog i j val rep pad)"
  by (simp add: PAD_setAnalog_def analog_press_ok analog_unpress_ok)

lemma hat_loop_inv:
  "i + length hats \<le> BTN_ID_COUNT \<Longrightarrow> pad_ok pad \<Longrightarrow> pad_ok (hat_loop tick i hats pad)"
  "i + length hats \<le> BTN_ID_COUNT \<Longrightarrow> pad_digital pad \<Longrightarrow> pad_digital (hat_loop tick i hats pad)"
  by (induction tick i hats pad rule: hat_loop.induct) (simp_all add: pad_release_inv pad_press_inv)

lemma repeat_step_digital:
  "i < BTN_ID_COUNT \<Longrightarrow> pad_digital pad \<Longrightarrow> pad_digital (repeat_step tick i pad)"
  by (auto simp: pad_digital_def pad_ok_def repeat_step_def btn_bits BTN_ID_COUNT_def)

lemma fold_repeat_digital:
  "\<forall>i \<in> set is. i < BTN_ID_COUNT \<Longrightarrow> pad_digital pad \<Longrightarrow> pad_digital (fold (repeat_step tick) is pad)"
  by (induction "is" arbitrary: pad) (simp_all add: repeat_step_digital)

lemma poll_begin_digital: "length (repeat_at pad) = BTN_ID_COUNT \<Longrightarrow> pad_digital (poll_begin tick pad)"
  unfolding poll_begin_def
  by (rule fold_repeat_digital) (simp_all add: pad_digital_def pad_ok_def poll_reset_def)

lemma pad_digital_ok: "pad_digital pad \<Longrightarrow> pad_ok pad"
  by (simp add: pad_digital_def)

lemma pad_ok_length: "pad_ok pad \<Longrightarrow> length (repeat_at pad) = BTN_ID_COUNT"
  by (simp add: pad_ok_def)

lemma poll_end_inv:
  "pad_ok pad \<Longrightarrow> pad_ok (poll_end b pad)"
  "pad_digital pad \<Longrightarrow> pad_digital (poll_end b pad)"
  by (auto simp: pad_digital_def pad_ok_def poll_end_def bit_or_iff)

lemma pad_axes_inv [simp]:
  "pad_ok (pad\<lparr>laxis := a\<rparr>) = pad_ok pad" "pad_ok (pad\<lparr>raxis := a\<rparr>) = pad_ok pad"
  by (simp_all add: pad_ok_def)

text \<open>Every table maps codes to button ids.\<close>

definition ids_ok :: "(int \<times> nat) list \<Rightarrow> bool" where
  "ids_ok tab \<longleftrightarrow> list_all (\<lambda>(_, i). i < BTN_ID_COUNT) tab"

lemma ids_okD: "ids_ok tab \<Longrightarrow> map_of tab c = Some i \<Longrightarrow> i < BTN_ID_COUNT"
  by (auto simp: ids_ok_def list_all_iff dest!: map_of_SomeD)

lemma ids_ok_tables: "ids_ok raw_keys" "ids_ok rgp01_keys" "ids_ok xbox_keys" "ids_ok (key_codes rg35xx_codes)"
  "ids_ok (joy_codes rg35xx_codes)" "ids_ok (plus_keys i pt)"
  by (simp_all add: ids_ok_def raw_keys_def rgp01_keys_def xbox_keys_def rg35xx_codes_def plus_keys_def
      BTN_ID_COUNT_def split: GamepadType.split)

lemma sdl_step_ok:
  assumes "ids_ok (key_codes c)" and "ids_ok (joy_codes c)" and "pad_ok pad"
  shows "pad_ok (sdl_step c tick e pad)"
proof (cases e)
  case (SDL_JOYHAT h)
  then show ?thesis using assms hat_loop_inv(1) [of 0 "sdl_hats h"]
    by (simp add: sdl_step_def sdl_hats_def BTN_ID_COUNT_def)
next
  case (SDL_JOYAXIS a v)
  then show ?thesis using assms pad_button_inv(1) PAD_setAnalog_ok
    by (simp add: sdl_step_def sdl_axis_def Let_def BTN_ID_COUNT_def)
qed (use assms ids_okD pad_button_inv(1) in \<open>auto simp: sdl_step_def split: option.split\<close>)

lemma plus_step_ok: "pad_ok pad \<Longrightarrow> pad_ok (plus_step i pt tick e pad)"
proof -
  assume ok: "pad_ok pad"
  have stick: "pad_ok (plus_stick tick a b c d code v pad)" for a b c d code v
    using ok PAD_setAnalog_ok by (simp add: plus_stick_def BTN_ID_COUNT_def)
  have btn: "pad_ok (pad_button v b tick pad)" if "b < 25" for b v
    using that ok pad_button_inv(1) by (simp add: BTN_ID_COUNT_def)
  have hat: "pad_ok (hat_loop tick 0 hats pad)" if "length hats = 4" for hats
    using that ok hat_loop_inv(1) by (simp add: BTN_ID_COUNT_def)
  obtain ty code v where e: "e = (ty, code, v)" by (metis prod_cases3)
  have "pad_ok (plus_abs i pt tick code v pad)"
    using ok stick btn hat by (simp add: plus_abs_def del: hat_loop.simps split: GamepadType.split)
  then show ?thesis
    using e ok ids_okD [OF ids_ok_tables(6)] btn
    by (auto simp: plus_step_def BTN_ID_COUNT_def split: option.split)
qed

subsection \<open>What a client may rely on\<close>

text \<open>The interface both pollers offer: a frame of input keeps \<open>pad_ok\<close>.\<close>

locale pad_poller =
  fixes poll :: "'frame \<Rightarrow> PAD_Context \<Rightarrow> PAD_Context"
  assumes poll_ok: "pad_ok pad \<Longrightarrow> pad_ok (poll fr pad)"
begin

lemma polls_ok: "pad_ok pad \<Longrightarrow> pad_ok (fold poll frs pad)"
  by (rule fold_inv) (rule poll_ok)

text \<open>A button reported as just pressed and not released in the same frame is held.\<close>

lemma pressed_is_held:
  assumes "pad_ok pad" and "PAD_justPressed (poll fr pad) (btn_mask i)"
    and "\<not> PAD_justReleased (poll fr pad) (btn_mask i)"
  shows "is_held (poll fr pad) i"
proof -
  obtain n where n: "bit (just_pressed (poll fr pad)) n" "bit (btn_mask i) n"
    using assms(2) by (auto simp: PAD_justPressed_def bit_eq_iff bit_and_iff)
  then have i: "n = i" by (simp add: bit_btn_mask)
  have "\<not> bit (just_released (poll fr pad)) i"
  proof
    assume "bit (just_released (poll fr pad)) i"
    then have "bit (just_released (poll fr pad) AND btn_mask i) i"
      using n i by (simp add: bit_and_iff)
    then show False using assms(3) by (auto simp: PAD_justReleased_def)
  qed
  then show ?thesis using poll_ok [OF assms(1), of fr] n i by (auto simp: pad_ok_def is_held_bit)
qed

end

interpretation sdl: pad_poller "\<lambda>(tick, events, lid). PLAT_pollInput rg35xx_codes tick events lid"
proof (unfold_locales, clarsimp simp: PLAT_pollInput_def)
  fix pad tick events lid assume "pad_ok pad"
  then have "pad_ok (poll_begin tick pad)" by (simp add: poll_begin_digital pad_digital_ok pad_ok_length)
  then have "pad_ok (fold (sdl_step rg35xx_codes tick) events (poll_begin tick pad))"
    by (intro fold_inv [where P = pad_ok]) (rule sdl_step_ok [OF ids_ok_tables(4,5)])
  then show "pad_ok (poll_end lid (fold (sdl_step rg35xx_codes tick) events (poll_begin tick pad)))"
    by (rule poll_end_inv(1))
qed

interpretation evdev: pad_poller "\<lambda>(tick, g, reads, lid). plus_pollInput tick g reads lid"
proof (unfold_locales, clarsimp simp: plus_pollInput_def)
  fix pad tick g reads lid assume "pad_ok pad"
  then have "pad_ok (poll_begin tick pad)" by (simp add: poll_begin_digital pad_digital_ok pad_ok_length)
  then have "pad_ok (fold (\<lambda>(i, evs) pad. if i = 2 \<and> \<not> pad_open g then pad
      else fold (plus_step i (pad_type g) tick) evs pad) (enumerate 0 reads) (poll_begin tick pad))"
    by (rule fold_inv [where P = pad_ok, rotated])
       (auto split: prod.splits intro!: fold_inv [where P = pad_ok] plus_step_ok)
  then show "pad_ok (poll_end lid (fold (\<lambda>(i, evs) pad. if i = 2 \<and> \<not> pad_open g then pad
      else fold (plus_step i (pad_type g) tick) evs pad) (enumerate 0 reads) (poll_begin tick pad)))"
    by (rule poll_end_inv(1))
qed

subsection \<open>Repeats\<close>

lemma repeat_step_other:
  "j \<noteq> i \<Longrightarrow> bit (just_repeated (repeat_step tick i pad)) j = bit (just_repeated pad) j
   \<and> repeat_at (repeat_step tick i pad) ! j = repeat_at pad ! j"
  by (cases "i < 32") (auto simp: repeat_step_def bit_set bit_or_iff bit_btn_mask)

lemma repeat_step_keeps [simp]:
  "is_pressed (repeat_step tick i pad) = is_pressed pad"
  "just_pressed (repeat_step tick i pad) = just_pressed pad"
  "just_released (repeat_step tick i pad) = just_released pad"
  "length (repeat_at (repeat_step tick i pad)) = length (repeat_at pad)"
  by (simp_all add: repeat_step_def)

lemma repeat_step_here:
  "i < 32 \<Longrightarrow> i < length (repeat_at pad) \<Longrightarrow>
   bit (just_repeated (repeat_step tick i pad)) i =
     (bit (just_repeated pad) i \<or> bit (is_pressed pad) i \<and> repeat_at pad ! i \<le> tick)
   \<and> repeat_at (repeat_step tick i pad) ! i =
     (if bit (is_pressed pad) i \<and> repeat_at pad ! i \<le> tick then repeat_at pad ! i + PAD_REPEAT_INTERVAL
      else repeat_at pad ! i)"
  by (auto simp: repeat_step_def is_held_bit bit_set)

lemma fold_repeat_keeps [simp]:
  "is_pressed (fold (repeat_step tick) is pad) = is_pressed pad"
  "just_pressed (fold (repeat_step tick) is pad) = just_pressed pad"
  "just_released (fold (repeat_step tick) is pad) = just_released pad"
  "length (repeat_at (fold (repeat_step tick) is pad)) = length (repeat_at pad)"
  by (induction "is" arbitrary: pad) simp_all

lemma fold_repeat:
  assumes "distinct is" and "i < 32" and "i < length (repeat_at pad)"
  shows "bit (just_repeated (fold (repeat_step tick) is pad)) i =
     (bit (just_repeated pad) i \<or> i \<in> set is \<and> bit (is_pressed pad) i \<and> repeat_at pad ! i \<le> tick)
   \<and> repeat_at (fold (repeat_step tick) is pad) ! i =
     (if i \<in> set is \<and> bit (is_pressed pad) i \<and> repeat_at pad ! i \<le> tick then repeat_at pad ! i + PAD_REPEAT_INTERVAL
      else repeat_at pad ! i)"
  using assms
proof (induction "is" arbitrary: pad)
  case (Cons j "is")
  show ?case
  proof (cases "i = j")
    case True
    then show ?thesis using Cons repeat_step_here [of i pad tick] by simp
  next
    case False
    then show ?thesis using Cons repeat_step_other [of i j tick pad] by simp
  qed
qed simp

lemma poll_quiet:
  assumes "length (repeat_at pad) = BTN_ID_COUNT" and "i < BTN_ID_COUNT"
  shows "bit (just_repeated (poll_begin tick pad)) i = (bit (is_pressed pad) i \<and> repeat_at pad ! i \<le> tick)
   \<and> repeat_at (poll_begin tick pad) ! i =
     (if bit (is_pressed pad) i \<and> repeat_at pad ! i \<le> tick then repeat_at pad ! i + PAD_REPEAT_INTERVAL
      else repeat_at pad ! i)"
  using fold_repeat [of "[0..<BTN_ID_COUNT]" i "poll_reset pad" tick] assms
  by (simp add: poll_begin_def poll_reset_def BTN_ID_COUNT_def)

subsection \<open>Menu taps\<close>

definition tap_frames :: "(u32 \<times> PAD_Context) list \<Rightarrow> tap_state \<Rightarrow> tap_state" where
  "tap_frames fs t = fold (\<lambda>(now, pad) t. snd (PAD_tappedMenu now pad t)) fs t"

definition adjusting :: "PAD_Context \<Rightarrow> bool" where
  \<comment> \<open>plus or minus pressed with menu held: the menu button is a modifier\<close>
  "adjusting pad \<longleftrightarrow> PAD_isPressed pad (btn_mask BTN_ID_MENU)
     \<and> (PAD_justPressed pad (btn_mask BTN_ID_PLUS) \<or> PAD_justPressed pad (btn_mask BTN_ID_MINUS))"

lemma tap_frame_held:
  "\<not> PAD_justPressed pad (btn_mask BTN_ID_MENU) \<Longrightarrow>
   snd (PAD_tappedMenu now pad t) = t\<lparr>ignore_menu := ignore_menu t \<or> adjusting pad\<rparr>"
  by (auto simp: PAD_tappedMenu_def Let_def adjusting_def)

lemma tap_frames_held:
  "\<forall>(now, pad) \<in> set fs. \<not> PAD_justPressed pad (btn_mask BTN_ID_MENU) \<Longrightarrow>
   tap_frames fs t = t\<lparr>ignore_menu := ignore_menu t \<or> (\<exists>(now, pad) \<in> set fs. adjusting pad)\<rparr>"
proof (induction fs arbitrary: t)
  case (Cons f fs)
  obtain now pad where f: "f = (now, pad)" by fastforce
  have "tap_frames (f # fs) t = tap_frames fs (snd (PAD_tappedMenu now pad t))" by (simp add: f tap_frames_def)
  then show ?case using Cons f by (simp add: tap_frame_held disj_assoc)
qed (simp add: tap_frames_def)

subsection \<open>Properties\<close>

text \<open>On the rg35xx, whatever events SDL delivers (its axis numbers are never negative), after each
  poll a button repeats only while it is held and a press is only reported for a button that is held
  or was released in the same frame.\<close>

theorem pollInput_rg35xx_digital:
  assumes "length (repeat_at pad) = BTN_ID_COUNT"
    and "\<forall>e \<in> set events. case e of SDL_JOYAXIS axis val \<Rightarrow> 0 \<le> axis | _ \<Rightarrow> True"
  shows "pad_digital (PLAT_pollInput rg35xx_codes tick events lid pad)"
proof -
  have step: "pad_digital (sdl_step rg35xx_codes tick e p)"
    if "pad_digital p" "case e of SDL_JOYAXIS axis val \<Rightarrow> 0 \<le> axis | _ \<Rightarrow> True" for e p
  proof (cases e)
    case (SDL_JOYHAT h)
    then show ?thesis using that hat_loop_inv(2) [of 0 "sdl_hats h"]
      by (simp add: sdl_step_def sdl_hats_def BTN_ID_COUNT_def)
  next
    case (SDL_JOYAXIS a v)
    then show ?thesis using that by (simp add: sdl_step_def sdl_axis_def Let_def rg35xx_codes_def)
  qed (use that ids_okD [OF ids_ok_tables(4)] ids_okD [OF ids_ok_tables(5)] pad_button_inv(2) in
        \<open>auto simp: sdl_step_def split: option.split\<close>)
  have "pad_digital (fold (sdl_step rg35xx_codes tick) events p)" if "pad_digital p" for p
    using that assms(2) by (induction events arbitrary: p) (simp_all add: step)
  then show ?thesis
    using assms(1) poll_begin_digital poll_end_inv(2) by (simp add: PLAT_pollInput_def)
qed

theorem pollInput_rg35xx_digital_witness:
  "pad_digital (PLAT_pollInput rg35xx_codes 7 [SDL_KEY True 0x5E, SDL_JOYAXIS 1 20000] False
     \<lparr>is_pressed = 0, just_pressed = 0, just_released = 0, just_repeated = 0, repeat_at = replicate 25 0,
      laxis = \<lparr>ax_x = 0, ax_y = 0\<rparr>, raxis = \<lparr>ax_x = 0, ax_y = 0\<rparr>\<rparr>)"
  by (rule pollInput_rg35xx_digital) (simp_all add: BTN_ID_COUNT_def)

text \<open>Auto-repeat timing, on both pollers: in a frame without events a held button repeats exactly
  when its time has come and its next time is then 100 ms later; a button that is not held never
  repeats and keeps its time; no press or release is reported and the set of held buttons stays.\<close>

theorem pollInput_repeats:
  assumes "length (repeat_at pad) = BTN_ID_COUNT" and "i < BTN_ID_COUNT"
    and "pad' = PLAT_pollInput c tick [] False pad \<or> pad' = plus_pollInput tick g [[], [], []] False pad"
  shows "(bit (just_repeated pad') i \<longleftrightarrow> bit (is_pressed pad) i \<and> repeat_at pad ! i \<le> tick)
    \<and> repeat_at pad' ! i = (if bit (is_pressed pad) i \<and> repeat_at pad ! i \<le> tick
                            then repeat_at pad ! i + 100 else repeat_at pad ! i)
    \<and> is_pressed pad' = is_pressed pad \<and> just_pressed pad' = 0 \<and> just_released pad' = 0"
proof -
  have "pad' = poll_begin tick pad"
    using assms(3) by (auto simp: PLAT_pollInput_def plus_pollInput_def poll_end_def enumerate_eq_zip)
  moreover have "is_pressed (poll_begin tick pad) = is_pressed pad \<and> just_pressed (poll_begin tick pad) = 0
      \<and> just_released (poll_begin tick pad) = 0"
    by (simp add: poll_begin_def poll_reset_def)
  ultimately show ?thesis using poll_quiet [OF assms(1,2), of tick] by (simp add: PAD_REPEAT_INTERVAL_def)
qed

theorem pollInput_repeats_witness:
  "let pad = \<lparr>is_pressed = 16, just_pressed = 0, just_released = 0, just_repeated = 0, repeat_at = replicate 25 300,
              laxis = \<lparr>ax_x = 0, ax_y = 0\<rparr>, raxis = \<lparr>ax_x = 0, ax_y = 0\<rparr>\<rparr>
   in repeat_at (PLAT_pollInput rg35xx_codes 300 [] False pad) ! 4 = 400"
  unfolding Let_def
  by (subst pollInput_repeats [where c = rg35xx_codes and tick = 300 and i = 4, THEN conjunct2, THEN conjunct1, OF _ _ disjI1 [OF refl]])
     (simp_all add: BTN_ID_COUNT_def bit_numeral_rec)

text \<open>When the left stick returns to its centre, \<open>PAD_setAnalog\<close> keeps in \<open>just_repeated\<close> only the
  direction that was released: that direction still counts as repeating although it is no longer held,
  and the repeats of all other buttons of this frame are lost.\<close>

theorem setAnalog_centre_repeats:
  assumes "bit (is_pressed pad) neg" and "\<not> bit (is_pressed pad) pos" and "neg < BTN_ID_COUNT"
    and "- AXIS_DEADZONE \<le> val" and "val \<le> AXIS_DEADZONE"
  shows "\<not> bit (is_pressed (PAD_setAnalog neg pos val rep pad)) neg
    \<and> (\<forall>n. bit (just_repeated (PAD_setAnalog neg pos val rep pad)) n \<longleftrightarrow> bit (just_repeated pad) neg \<and> n = neg)"
  using assms
  by (auto simp: PAD_setAnalog_def analog_unpress_def btn_bits BTN_ID_COUNT_def)

theorem setAnalog_centre_repeats_witness:
  "\<not> bit (just_repeated (PAD_setAnalog 23 24 0 0 \<lparr>is_pressed = 8388624, just_pressed = 0, just_released = 0,
       just_repeated = 16, repeat_at = replicate 25 0, laxis = \<lparr>ax_x = 0, ax_y = 0\<rparr>, raxis = \<lparr>ax_x = 0, ax_y = 0\<rparr>\<rparr>)) 4"
  using setAnalog_centre_repeats [of "\<lparr>is_pressed = 8388624, just_pressed = 0, just_released = 0, just_repeated = 16,
      repeat_at = replicate 25 0, laxis = \<lparr>ax_x = 0, ax_y = 0\<rparr>, raxis = \<lparr>ax_x = 0, ax_y = 0\<rparr>\<rparr>" 23 24 0 0]
  by (simp add: BTN_ID_COUNT_def AXIS_DEADZONE_def bit_numeral_rec)

text \<open>A menu press at \<open>t0\<close>, any number of frames in which it stays down, and a release at \<open>now\<close> count
  as a tap exactly when less than 250 ms passed (in wrapping 32-bit time) and the button was not used
  as the modifier of plus or minus in between.\<close>

theorem tappedMenu_trace:
  assumes "PAD_justPressed pad0 (btn_mask BTN_ID_MENU)"
    and "\<forall>(n, p) \<in> set fs. \<not> PAD_justPressed p (btn_mask BTN_ID_MENU)"
    and "\<not> PAD_justPressed pad1 (btn_mask BTN_ID_MENU)" and "\<not> PAD_isPressed pad1 (btn_mask BTN_ID_MENU)"
    and "PAD_justReleased pad1 (btn_mask BTN_ID_MENU)"
  shows "fst (PAD_tappedMenu now pad1 (tap_frames fs (snd (PAD_tappedMenu t0 pad0 t)))) \<longleftrightarrow>
         now - t0 < 250 \<and> \<not> (\<exists>(n, p) \<in> set fs. adjusting p)"
  using assms tap_frames_held [OF assms(2), of "snd (PAD_tappedMenu t0 pad0 t)"]
  by (simp add: PAD_tappedMenu_def Let_def) blast

theorem tappedMenu_trace_witness:
  "let up = \<lparr>is_pressed = 0, just_pressed = 0, just_released = 65536, just_repeated = 0, repeat_at = [],
             laxis = \<lparr>ax_x = 0, ax_y = 0\<rparr>, raxis = \<lparr>ax_x = 0, ax_y = 0\<rparr>\<rparr>;
       down = \<lparr>is_pressed = 65536, just_pressed = 65536, just_released = 0, just_repeated = 0, repeat_at = [],
             laxis = \<lparr>ax_x = 0, ax_y = 0\<rparr>, raxis = \<lparr>ax_x = 0, ax_y = 0\<rparr>\<rparr>
   in fst (PAD_tappedMenu 5 up (tap_frames [] (snd (PAD_tappedMenu (- 1) down \<lparr>menu_start = 0, ignore_menu = True\<rparr>))))"
  unfolding Let_def
  by (subst tappedMenu_trace) (simp_all add: PAD_justPressed_def PAD_isPressed_def PAD_justReleased_def btn_mask_def)

text \<open>The vibration thread always catches up: whatever strength is queued, four rounds later it is the
  strength of the motor, and a strength other than 0 is applied in the next round.\<close>

theorem VIB_catches_up:
  assumes "defer_count v \<le> 3" and "rumble v = strength v"
  shows "strength ((VIB_tick ^^ 4) v) = queued_strength v \<and> rumble ((VIB_tick ^^ 4) v) = queued_strength v
    \<and> (queued_strength v \<noteq> 0 \<longrightarrow> strength (VIB_tick v) = queued_strength v \<and> rumble (VIB_tick v) = queued_strength v)
    \<and> defer_count (VIB_tick v) \<le> 3 \<and> rumble (VIB_tick v) = strength (VIB_tick v)"
proof -
  consider "defer_count v = 0" | "defer_count v = 1" | "defer_count v = 2" | "defer_count v = 3"
    using assms(1) by linarith
  then show ?thesis using assms by cases (simp_all add: VIB_tick_def numeral_eq_Suc)
qed

theorem VIB_catches_up_witness:
  "strength ((VIB_tick ^^ 4) \<lparr>queued_strength = 0, strength = 5, defer_count = 0, rumble = 5\<rparr>) = 0"
  using VIB_catches_up [of "\<lparr>queued_strength = 0, strength = 5, defer_count = 0, rumble = 5\<rparr>"] by simp

end
