(* ===== verification/Pwr.thy ===== *)
theory Pwr
  imports Pad
begin

text \<open>
  Power management (\<open>common/pwr.c\<close>): battery status, the per-frame \<open>PWR_update\<close> (charging, power
  button, idle time, manual sleep, the settings overlay), and the wait for waking up. The function's
  static variables are the record \<open>pwr_timers\<close>. What the outside does in a frame is an argument (the
  tick, the button state, whether HDMI is plugged in and sound is muted, the tick at which a sleep
  ends); what the code does to it is a list of actions. \<open>PLAT_getBatteryStatus\<close> is that of the two
  platforms; \<open>readings\<close> maps the sysfs files to their numbers.
\<close>

record PWR_Context =
  can_sleep :: bool
  can_poweroff :: bool
  can_autosleep :: bool
  requested_sleep :: bool
  requested_wake :: bool
  is_charging :: bool
  charge :: int
  should_warn :: bool
  overlay_on :: bool    \<comment> \<open>the last argument of \<open>PLAT_enableOverlay\<close>\<close>

definition PWR_LOW_CHARGE :: int where "PWR_LOW_CHARGE = 10"

subsection \<open>Battery\<close>

definition charge_level :: "int \<Rightarrow> int" where
  "charge_level i =
     (if i > 80 then 100 else if i > 60 then 80 else if i > 40 then 60
      else if i > 20 then 40 else if i > 10 then 20 else 10)"

definition rg35xx_getBatteryStatus :: "fs \<Rightarrow> bool \<times> int" where
  "rg35xx_getBatteryStatus fs =
     (let i = cdiv (getInt fs ''/sys/class/power_supply/battery/voltage_now'') 10000 - 310
      in (getInt fs ''/sys/class/power_supply/battery/charger_online'' \<noteq> 0, charge_level i))"

definition plus_getBatteryStatus :: "fs \<Rightarrow> string \<Rightarrow> (bool \<times> int) \<times> bool" where
  \<comment> \<open>also updates \<open>online\<close>; the second argument is what the status buffer held\<close>
  "plus_getBatteryStatus fs buf =
     ((getInt fs ''/sys/class/power_supply/axp2202-usb/online'' \<noteq> 0,
       charge_level (getInt fs ''/sys/class/power_supply/axp2202-battery/capacity'')),
      prefix_match ''up'' (getFile fs ''/sys/class/net/wlan0/operstate'' buf 16))"

definition PWR_updateBatteryStatus :: "bool \<times> int \<Rightarrow> PWR_Context \<Rightarrow> PWR_Context" where
  "PWR_updateBatteryStatus status p =
     p\<lparr>is_charging := fst status, charge := snd status,
       overlay_on := should_warn p \<and> snd status \<le> PWR_LOW_CHARGE\<rparr>"

definition PWR_init :: "bool \<times> int \<Rightarrow> PWR_Context \<Rightarrow> PWR_Context" where
  "PWR_init status p =
     PWR_updateBatteryStatus status
       (p\<lparr>can_sleep := True, can_poweroff := True, can_autosleep := True, requested_sleep := False,
          requested_wake := False, should_warn := False, charge := PWR_LOW_CHARGE\<rparr>)"

definition PWR_warn :: "bool \<Rightarrow> PWR_Context \<Rightarrow> PWR_Context" where
  "PWR_warn enable p = p\<lparr>should_warn := enable, overlay_on := enable \<and> charge p \<le> PWR_LOW_CHARGE\<rparr>"

definition PWR_disableSleep :: "PWR_Context \<Rightarrow> PWR_Context" where "PWR_disableSleep p = p\<lparr>can_sleep := False\<rparr>"
definition PWR_enableSleep :: "PWR_Context \<Rightarrow> PWR_Context" where "PWR_enableSleep p = p\<lparr>can_sleep := True\<rparr>"
definition PWR_disablePowerOff :: "PWR_Context \<Rightarrow> PWR_Context" where "PWR_disablePowerOff p = p\<lparr>can_poweroff := False\<rparr>"
definition PWR_disableAutosleep :: "PWR_Context \<Rightarrow> PWR_Context" where "PWR_disableAutosleep p = p\<lparr>can_autosleep := False\<rparr>"
definition PWR_enableAutosleep :: "PWR_Context \<Rightarrow> PWR_Context" where "PWR_enableAutosleep p = p\<lparr>can_autosleep := True\<rparr>"

definition PWR_preventAutosleep :: "bool \<Rightarrow> PWR_Context \<Rightarrow> bool" where
  "PWR_preventAutosleep hdmi p \<longleftrightarrow> is_charging p \<or> \<not> can_autosleep p \<or> hdmi"

definition PWR_ignoreSettingInput :: "u32 \<Rightarrow> int \<Rightarrow> bool" where
  "PWR_ignoreSettingInput btn show_setting \<longleftrightarrow>
     show_setting \<noteq> 0 \<and> (btn = btn_mask BTN_ID_PLUS \<or> btn = btn_mask BTN_ID_MINUS)"

subsection \<open>Every frame\<close>

record pwr_timers =
  last_input_at :: u32
  checked_charge_at :: u32
  setting_shown_at :: u32
  power_pressed_at :: u32
  mod_unpressed_at :: u32
  was_muted :: bool
  was_charging :: bool

datatype pwr_action = Before_Sleep | Faux_Sleep | After_Sleep | Power_Off

record pwr_frame =
  now :: u32
  wake_at :: u32       \<comment> \<open>\<open>SDL_GetTicks()\<close> after \<open>PWR_fauxSleep\<close>\<close>
  hdmi :: bool
  muted :: bool
  callbacks :: bool    \<comment> \<open>\<open>before_sleep\<close> and \<open>after_sleep\<close> given\<close>

record pwr_state =
  ctx :: PWR_Context
  timers :: pwr_timers
  ppad :: PAD_Context
  dirty :: bool
  show_setting :: int

definition PWR_powerOff :: "PWR_Context \<Rightarrow> pwr_action list" where
  "PWR_powerOff p = (if can_poweroff p then [Power_Off] else [])"

definition update_charge :: "pwr_frame \<Rightarrow> pwr_state \<Rightarrow> pwr_state" where
  "update_charge f s =
     (let t = timers s;
          t = (if was_charging t \<or> PAD_anyPressed (ppad s) \<or> last_input_at t = 0
               then t\<lparr>last_input_at := now f\<rparr> else t)
      in if dirty s \<or> now f - checked_charge_at t \<ge> 1000
         then s\<lparr>dirty := dirty s \<or> was_charging t \<noteq> is_charging (ctx s),
                timers := t\<lparr>was_charging := is_charging (ctx s), checked_charge_at := now f\<rparr>\<rparr>
         else s\<lparr>timers := t\<rparr>)"

definition update_power :: "pwr_frame \<Rightarrow> pwr_state \<Rightarrow> pwr_action list \<times> pwr_state" where
  "update_power f s =
     (let t = timers s;
          off = (PAD_justReleased (ppad s) (btn_mask BTN_ID_POWEROFF)
                 \<or> (power_pressed_at t \<noteq> 0 \<and> now f - power_pressed_at t \<ge> 1000));
          acts = (if off then (if callbacks f then [Before_Sleep] else []) @ PWR_powerOff (ctx s) else []);
          t = (if PAD_justPressed (ppad s) (btn_mask BTN_ID_POWER) then t\<lparr>power_pressed_at := now f\<rparr> else t)
      in (acts, s\<lparr>timers := t\<rparr>))"

definition SLEEP_DELAY :: u32 where "SLEEP_DELAY = 30000"

definition wants_sleep :: "pwr_frame \<Rightarrow> pwr_state \<Rightarrow> bool" where
  "wants_sleep f s \<longleftrightarrow> requested_sleep (ctx s) \<or> now f - last_input_at (timers s) \<ge> SLEEP_DELAY
     \<or> (can_sleep (ctx s) \<and> PAD_justReleased (ppad s) BTN_SLEEP)"

definition update_sleep :: "pwr_frame \<Rightarrow> pwr_state \<Rightarrow> pwr_action list \<times> u32 \<times> pwr_state" where
  \<comment> \<open>also gives the value of \<open>now\<close> for the rest of the frame\<close>
  "update_sleep f s =
     (let s = (if now f - last_input_at (timers s) \<ge> SLEEP_DELAY \<and> PWR_preventAutosleep (hdmi f) (ctx s)
               then s\<lparr>timers := (timers s)\<lparr>last_input_at := now f\<rparr>\<rparr> else s)
      in if wants_sleep f s
         then (if callbacks f then [Before_Sleep, Faux_Sleep, After_Sleep] else [Faux_Sleep], wake_at f,
               s\<lparr>ctx := (ctx s)\<lparr>requested_sleep := False\<rparr>,
                 ppad := PAD_reset (ppad s),
                 timers := (timers s)\<lparr>last_input_at := wake_at f, power_pressed_at := 0\<rparr>,
                 dirty := True\<rparr>)
         else ([], now f, s))"

definition update_settings :: "bool \<Rightarrow> u32 \<Rightarrow> pwr_state \<Rightarrow> pwr_state" where
  \<comment> \<open>with the build's modifiers: none for the volume, the menu button for the brightness\<close>
  "update_settings is_muted tick s =
     (let mod_down = PAD_isPressed (ppad s) (btn_mask BTN_ID_MENU);
          t = timers s;
          (show, dirt) = (if show_setting s \<noteq> 0 \<and> tick - setting_shown_at t \<ge> 500 \<and> \<not> mod_down
                          then (0, True) else (show_setting s, dirty s));
          t = (if show = 0 \<and> \<not> mod_down then t\<lparr>mod_unpressed_at := tick\<rparr> else t);
          (show, t) =
            (if (mod_down \<and> tick - mod_unpressed_at t \<ge> 250)
                \<or> PAD_justRepeated (ppad s) (btn_mask BTN_ID_PLUS) \<or> PAD_justRepeated (ppad s) (btn_mask BTN_ID_MINUS)
             then (if mod_down then 1 else 2, t\<lparr>setting_shown_at := tick\<rparr>) else (show, t));
          (show, t) =
            (if is_muted \<noteq> was_muted t then (2, t\<lparr>was_muted := is_muted, setting_shown_at := tick\<rparr>) else (show, t))
      in s\<lparr>show_setting := show, dirty := dirt \<or> show \<noteq> 0, timers := t\<rparr>)"

definition PWR_update :: "pwr_frame \<Rightarrow> pwr_state \<Rightarrow> pwr_action list \<times> pwr_state" where
  "PWR_update f s =
     (let s = update_charge f s;
          (acts1, s) = update_power f s;
          (acts2, tick, s) = update_sleep f s
      in (acts1 @ acts2, update_settings (muted f) tick s))"

subsection \<open>Asleep\<close>

record wake_poll =
  woken :: bool       \<comment> \<open>\<open>PAD_wake()\<close>\<close>
  wake_request :: bool
  ticks :: u32        \<comment> \<open>\<open>SDL_GetTicks()\<close> after the delay\<close>
  charging :: bool

definition SLEEP_POWEROFF_DELAY :: u32 where "SLEEP_POWEROFF_DELAY = 1800000"

definition sleep_expired :: "u32 \<Rightarrow> wake_poll \<Rightarrow> bool" where
  "sleep_expired sleep_ticks w \<longleftrightarrow> ticks w - sleep_ticks \<ge> SLEEP_POWEROFF_DELAY"

fun PWR_waitForWake :: "bool \<Rightarrow> u32 \<Rightarrow> wake_poll list \<Rightarrow> pwr_action list" where
  \<comment> \<open>the rounds of the loop, as far as they are observed\<close>
  "PWR_waitForWake can_off sleep_ticks [] = []"
| "PWR_waitForWake can_off sleep_ticks (w # ws) =
     (if woken w \<or> wake_request w then []
      else if can_off \<and> sleep_expired sleep_ticks w then
        (if charging w then PWR_waitForWake can_off (sleep_ticks + 60000) ws
         else Power_Off # PWR_waitForWake can_off sleep_ticks ws)
      else PWR_waitForWake can_off sleep_ticks ws)"

subsection \<open>Facts\<close>

lemma charge_level_range: "charge_level i \<in> {10, 20, 40, 60, 80, 100}"
  by (simp add: charge_level_def)

lemma charge_level_mono: "i \<le> j \<Longrightarrow> charge_level i \<le> charge_level j"
  by (simp add: charge_level_def)

lemma update_charge_keeps [simp]:
  "ctx (update_charge f s) = ctx s" "ppad (update_charge f s) = ppad s"
  "show_setting (update_charge f s) = show_setting s"
  "power_pressed_at (timers (update_charge f s)) = power_pressed_at (timers s)"
  "last_input_at (timers (update_charge f s)) =
     (if was_charging (timers s) \<or> PAD_anyPressed (ppad s) \<or> last_input_at (timers s) = 0 then now f
      else last_input_at (timers s))"
  by (simp_all add: update_charge_def Let_def)

lemma update_power_keeps [simp]:
  "ctx (snd (update_power f s)) = ctx s" "ppad (snd (update_power f s)) = ppad s"
  "last_input_at (timers (snd (update_power f s))) = last_input_at (timers s)"
  "show_setting (snd (update_power f s)) = show_setting s"
  by (simp_all add: update_power_def Let_def)

lemma update_power_acts: "Faux_Sleep \<notin> set (fst (update_power f s))"
  by (simp add: update_power_def PWR_powerOff_def Let_def)

lemma update_settings_timer [simp]:
  "last_input_at (timers (update_settings m tick s)) = last_input_at (timers s)"
  by (simp add: update_settings_def Let_def)

lemma update_settings_range: "show_setting s \<in> {0, 1, 2} \<Longrightarrow> show_setting (update_settings m tick s) \<in> {0, 1, 2}"
  by (simp add: update_settings_def Let_def)

lemma PWR_update_acts:
  "fst (PWR_update f s) = fst (update_power f (update_charge f s))
     @ fst (update_sleep f (snd (update_power f (update_charge f s))))"
  by (simp add: PWR_update_def Let_def split_beta)

lemma waitForWake_skip:
  "\<forall>w \<in> set ws. \<not> woken w \<and> \<not> wake_request w \<and> \<not> sleep_expired t0 w \<Longrightarrow>
   PWR_waitForWake b t0 (ws @ vs) = PWR_waitForWake b t0 vs"
proof (induction ws)
  case (Cons w ws)
  then have "\<not> woken w" "\<not> wake_request w" "\<not> sleep_expired t0 w" by (metis list.set_intros(1))+
  then have "PWR_waitForWake b t0 ((w # ws) @ vs) = PWR_waitForWake b t0 (ws @ vs)"
    by (metis PWR_waitForWake.simps(2) append_Cons)
  then show ?case using Cons by (metis list.set_intros(2))
qed simp

text \<open>Idle time as the sleep test sees it: since the last input, unless this frame counts as input.\<close>

definition idle :: "pwr_frame \<Rightarrow> pwr_state \<Rightarrow> u32" where
  "idle f s = (if was_charging (timers s) \<or> PAD_anyPressed (ppad s) \<or> last_input_at (timers s) = 0 then 0
               else now f - last_input_at (timers s))"

lemma sleep_actions:
  "Faux_Sleep \<in> set (fst (update_sleep f s)) \<longleftrightarrow>
     requested_sleep (ctx s)
     \<or> (now f - last_input_at (timers s) \<ge> SLEEP_DELAY \<and> \<not> PWR_preventAutosleep (hdmi f) (ctx s))
     \<or> (can_sleep (ctx s) \<and> PAD_justReleased (ppad s) BTN_SLEEP)"
  by (simp add: update_sleep_def wants_sleep_def Let_def SLEEP_DELAY_def)

subsection \<open>Properties\<close>

text \<open>C31: a frame puts the device to sleep exactly when the hardware requested it, the sleep button was
  released while sleeping is allowed, or 30 s passed without input, charging, HDMI or a disabled
  autosleep to prevent it; and afterwards the idle time is below 30 s again, so that no later frame
  repeats the same sleep.\<close>

theorem PWR_update_sleep:
  "(Faux_Sleep \<in> set (fst (PWR_update f s)) \<longleftrightarrow>
      requested_sleep (ctx s)
      \<or> (idle f s \<ge> SLEEP_DELAY \<and> \<not> is_charging (ctx s) \<and> can_autosleep (ctx s) \<and> \<not> hdmi f)
      \<or> (can_sleep (ctx s) \<and> PAD_justReleased (ppad s) BTN_SLEEP))
   \<and> (let tick = (if Faux_Sleep \<in> set (fst (PWR_update f s)) then wake_at f else now f)
      in tick - last_input_at (timers (snd (PWR_update f s))) < SLEEP_DELAY)"
proof -
  let ?s = "snd (update_power f (update_charge f s))"
  have ctx: "ctx ?s = ctx s" "ppad ?s = ppad s" by simp_all
  have idle: "now f - last_input_at (timers ?s) = idle f s" by (simp add: idle_def)
  have acts: "Faux_Sleep \<in> set (fst (PWR_update f s)) \<longleftrightarrow> Faux_Sleep \<in> set (fst (update_sleep f ?s))"
    by (simp add: PWR_update_acts update_power_acts)
  have timer: "last_input_at (timers (snd (PWR_update f s))) = last_input_at (timers (snd (snd (update_sleep f ?s))))"
    by (simp add: PWR_update_def Let_def split_beta)
  have "(if Faux_Sleep \<in> set (fst (update_sleep f ?s)) then wake_at f else now f)
          - last_input_at (timers (snd (snd (update_sleep f ?s)))) < SLEEP_DELAY"
    by (simp add: update_sleep_def wants_sleep_def Let_def SLEEP_DELAY_def not_le)
  moreover have "Faux_Sleep \<in> set (fst (update_sleep f ?s)) \<longleftrightarrow> requested_sleep (ctx s)
      \<or> (idle f s \<ge> SLEEP_DELAY \<and> \<not> is_charging (ctx s) \<and> can_autosleep (ctx s) \<and> \<not> hdmi f)
      \<or> (can_sleep (ctx s) \<and> PAD_justReleased (ppad s) BTN_SLEEP)"
    unfolding sleep_actions ctx idle PWR_preventAutosleep_def by blast
  ultimately show ?thesis unfolding acts timer Let_def by blast
qed

text \<open>The battery level is one of six steps and never falls when the capacity (rg35xxplus) or the
  voltage (rg35xx) rises; the low-battery overlay is on exactly when warnings are enabled and the
  lowest step is reached.\<close>

theorem battery_levels:
  "snd (rg35xx_getBatteryStatus fs) \<in> {10, 20, 40, 60, 80, 100}
   \<and> snd (fst (plus_getBatteryStatus fs buf)) \<in> {10, 20, 40, 60, 80, 100}
   \<and> (getInt fs ''/sys/class/power_supply/axp2202-battery/capacity''
        \<le> getInt fs' ''/sys/class/power_supply/axp2202-battery/capacity''
      \<longrightarrow> snd (fst (plus_getBatteryStatus fs buf)) \<le> snd (fst (plus_getBatteryStatus fs' buf')))
   \<and> (0 \<le> getInt fs ''/sys/class/power_supply/battery/voltage_now''
      \<and> getInt fs ''/sys/class/power_supply/battery/voltage_now'' \<le> getInt fs' ''/sys/class/power_supply/battery/voltage_now''
      \<longrightarrow> snd (rg35xx_getBatteryStatus fs) \<le> snd (rg35xx_getBatteryStatus fs'))
   \<and> overlay_on (PWR_updateBatteryStatus (b, charge_level i) p)
       = (should_warn p \<and> i \<le> 10)"
proof (intro conjI impI)
  show "snd (rg35xx_getBatteryStatus fs) \<in> {10, 20, 40, 60, 80, 100}"
    "snd (fst (plus_getBatteryStatus fs buf)) \<in> {10, 20, 40, 60, 80, 100}"
    unfolding rg35xx_getBatteryStatus_def plus_getBatteryStatus_def Let_def fst_conv snd_conv
    by (rule charge_level_range)+
  show "snd (fst (plus_getBatteryStatus fs buf)) \<le> snd (fst (plus_getBatteryStatus fs' buf'))"
    if "getInt fs ''/sys/class/power_supply/axp2202-battery/capacity''
        \<le> getInt fs' ''/sys/class/power_supply/axp2202-battery/capacity''"
    unfolding plus_getBatteryStatus_def fst_conv snd_conv using that by (rule charge_level_mono)
  show "snd (rg35xx_getBatteryStatus fs) \<le> snd (rg35xx_getBatteryStatus fs')"
    if "0 \<le> getInt fs ''/sys/class/power_supply/battery/voltage_now''
      \<and> getInt fs ''/sys/class/power_supply/battery/voltage_now'' \<le> getInt fs' ''/sys/class/power_supply/battery/voltage_now''"
    unfolding rg35xx_getBatteryStatus_def Let_def snd_conv using that
    by (intro charge_level_mono) (simp add: cdiv_nonneg zdiv_mono1)
  show "overlay_on (PWR_updateBatteryStatus (b, charge_level i) p) = (should_warn p \<and> i \<le> 10)"
    unfolding PWR_updateBatteryStatus_def PWR_LOW_CHARGE_def charge_level_def by simp
qed

theorem battery_levels_witness:
  "let f = (\<lambda>n. [(''/sys/class/power_supply/axp2202-battery/capacity'', File (dec_int n))])
   in snd (fst (plus_getBatteryStatus (f 15) [])) \<le> snd (fst (plus_getBatteryStatus (f 90) []))"
  unfolding Let_def
  by (rule battery_levels [THEN conjunct2, THEN conjunct2, THEN conjunct1, rule_format])
     (simp add: getInt_def fopen_r_def scan_int_dec_int)

text \<open>Asleep on battery, the device powers itself off no earlier than 30 minutes after it fell asleep,
  does so at the first check after that unless woken, and never does so while the charger is
  connected or when powering off is disabled.\<close>

theorem waitForWake_poweroff:
  "((\<forall>w \<in> set ws. \<not> sleep_expired t0 w) \<or> (\<forall>w \<in> set ws. charging w) \<or> \<not> can_off
      \<longrightarrow> PWR_waitForWake can_off t0 ws = [])
   \<and> ((\<forall>w \<in> set ws. \<not> woken w \<and> \<not> wake_request w \<and> \<not> sleep_expired t0 w)
      \<and> \<not> woken v \<and> \<not> wake_request v \<and> sleep_expired t0 v \<and> \<not> charging v
      \<longrightarrow> (\<exists>rest. PWR_waitForWake True t0 (ws @ v # vs) = Power_Off # rest))"
proof (intro conjI impI)
  assume "(\<forall>w \<in> set ws. \<not> sleep_expired t0 w) \<or> (\<forall>w \<in> set ws. charging w) \<or> \<not> can_off"
  then show "PWR_waitForWake can_off t0 ws = []"
  proof (elim disjE)
    assume "\<forall>w \<in> set ws. \<not> sleep_expired t0 w"
    then show ?thesis by (induction ws) simp_all
  next
    assume "\<forall>w \<in> set ws. charging w"
    then show ?thesis by (induction can_off t0 ws rule: PWR_waitForWake.induct) auto
  next
    assume "\<not> can_off"
    then show ?thesis by (induction ws) simp_all
  qed
next
  assume "(\<forall>w \<in> set ws. \<not> woken w \<and> \<not> wake_request w \<and> \<not> sleep_expired t0 w)
      \<and> \<not> woken v \<and> \<not> wake_request v \<and> sleep_expired t0 v \<and> \<not> charging v"
  then show "\<exists>rest. PWR_waitForWake True t0 (ws @ v # vs) = Power_Off # rest"
    using waitForWake_skip [of ws t0 True "v # vs"] by simp
qed

theorem waitForWake_poweroff_witness:
  "PWR_waitForWake True 0 [\<lparr>woken = False, wake_request = False, ticks = 1799999, charging = False\<rparr>] = []
   \<and> (\<exists>rest. PWR_waitForWake True 0 ([] @ \<lparr>woken = False, wake_request = False, ticks = 1800000, charging = False\<rparr> # [])
        = Power_Off # rest)"
  using waitForWake_poweroff [of "[\<lparr>woken = False, wake_request = False, ticks = 1799999, charging = False\<rparr>]" 0]
    waitForWake_poweroff [of "[]" 0 _ "\<lparr>woken = False, wake_request = False, ticks = 1800000, charging = False\<rparr>" "[]"]
  by (simp add: SLEEP_POWEROFF_DELAY_def sleep_expired_def)

end
