(* ===== verification/Launcher.thy ===== *)
theory Launcher
  imports Roms Shell Pwr
begin

text \<open>
  The launcher proper (\<open>minui/minui.c\<close>, lines 305-321 and 830-1607): opening and closing
  directories, starting games and tools, resuming, restoring the last position, deleting a
  collection, and one frame of input handling. The static variables are the record \<open>launcher\<close>;
  \<open>top\<close> is the last directory of \<open>stack\<close>. \<open>plat\<close> is the build's \<open>PLATFORM\<close> and \<open>R\<close> its
  \<open>MAIN_ROW_COUNT\<close> (6, or 8 on HDMI with the rg35xxplus).
\<close>

record launcher =
  lfs :: fs
  recents :: "Recent list"
  stack :: "Directory list"
  quit :: bool
  can_resume :: bool
  should_resume :: bool
  simple_mode :: bool
  slot_path :: string
  restore_depth :: int
  restore_relative :: int
  restore_selected :: int
  restore_start :: int
  restore_end :: int
  recent_alias :: "string option"

definition AUTO_RESUME_PATH :: string where "AUTO_RESUME_PATH = SHARED_USERDATA_PATH @ ''/.minui/auto_resume.txt''"
definition LAST_PATH :: string where "LAST_PATH = ''/tmp/last.txt''"
definition NEXT_PATH :: string where "NEXT_PATH = ''/tmp/next''"

definition top :: "launcher \<Rightarrow> Directory" where "top st = last (stack st)"

definition set_top :: "Directory \<Rightarrow> launcher \<Rightarrow> launcher" where
  "set_top d st = st\<lparr>stack := butlast (stack st) @ [d]\<rparr>"

subsection \<open>Starting programs\<close>

definition queueNext :: "string \<Rightarrow> launcher \<Rightarrow> launcher" where
  "queueNext cmd st = st\<lparr>lfs := putFile NEXT_PATH cmd (lfs st), quit := True\<rparr>"

definition m3u_of :: "string \<Rightarrow> string" where
  \<comment> \<open>\<open>tmp = strrchr(path, '.') + 1; strcpy(tmp, "m3u")\<close>\<close>
  "m3u_of p = (case strrchr p (CHR ''.'') of Some i \<Rightarrow> take (Suc i) p @ ''m3u'' | None \<Rightarrow> p)"

definition readyResumePath :: "string \<Rightarrow> EntryType \<Rightarrow> launcher \<Rightarrow> launcher" where
  "readyResumePath rom_path ty st =
     (let st = st\<lparr>can_resume := False\<rparr>; fs = lfs st in
      if \<not> prefix_match ROMS_PATH rom_path then st
      else
        (let auto = (if ty = ENTRY_DIR then
                       (let (has_cue, auto_path) = hasCue fs rom_path in
                        if has_cue then Some auto_path
                        else if exists fs (m3u_of auto_path) then Some (m3u_of auto_path) else None)
                     else Some rom_path)
         in case auto of
              None \<Rightarrow> st
            | Some p \<Rightarrow>
                (let p = (if \<not> suffixMatch ''.m3u'' p
                          then (let (has_m3u, m3u_path) = hasM3u fs p in if has_m3u then m3u_path else p)
                          else p);
                     slot = snprintf_buf MAX_PATH
                              (SHARED_USERDATA_PATH @ ''/.minui/'' @ getEmuName p @ ''/'' @ basename p @ ''.txt'')
                 in st\<lparr>slot_path := slot, can_resume := exists fs slot\<rparr>)))"

definition readyResume :: "Entry \<Rightarrow> launcher \<Rightarrow> launcher" where
  "readyResume entry st = readyResumePath (path entry) (etype entry) st"

definition saveLast :: "string \<Rightarrow> launcher \<Rightarrow> launcher" where
  "saveLast p st =
     (let p = (if exact_match (dpath (top st)) FAUX_RECENT_PATH then FAUX_RECENT_PATH else p)
      in st\<lparr>lfs := putFile LAST_PATH p (lfs st)\<rparr>)"

definition add_recent :: "string \<Rightarrow> string \<Rightarrow> string option \<Rightarrow> launcher \<Rightarrow> launcher" where
  "add_recent plat p alias st =
     (let (rs, fs) = addRecent plat p alias (recents st) (lfs st) in st\<lparr>recents := rs, lfs := fs\<rparr>)"

definition run_command :: "string \<Rightarrow> string \<Rightarrow> string" where
  \<comment> \<open>\<open>"'%s' '%s'"\<close> with both strings escaped\<close>
  "run_command emu_path sd_path =
     snprintf_buf (MAX_PATH * 4 + 16)
       ([char_quote] @ escapeSingleQuotes (MAX_PATH * 2) emu_path @ [char_quote] @ '' '' @
        [char_quote] @ escapeSingleQuotes (MAX_PATH * 2) sd_path @ [char_quote])"

definition autoResume :: "string \<Rightarrow> launcher \<Rightarrow> bool \<times> launcher" where
  "autoResume plat st =
     (if \<not> exists (lfs st) AUTO_RESUME_PATH then (False, st)
      else
        (let p = getFile (lfs st) AUTO_RESUME_PATH [] MAX_PATH;
             st = st\<lparr>lfs := unlink AUTO_RESUME_PATH (lfs st)\<rparr>;
             sd_path = snprintf_buf MAX_PATH (SDCARD_PATH @ p)
         in if \<not> exists (lfs st) sd_path then (False, st)
            else
              (let emu_path = getEmuPath (lfs st) plat (getEmuName sd_path) in
               if \<not> exists (lfs st) emu_path then (False, st)
               else (let st = st\<lparr>lfs := putInt RESUME_SLOT_PATH AUTO_RESUME_SLOT (lfs st)\<rparr>
                     in (True, queueNext (run_command emu_path sd_path) st)))))"

definition openPak :: "string \<Rightarrow> string \<Rightarrow> launcher \<Rightarrow> launcher" where
  "openPak plat p st =
     (let st = (if prefix_match ROMS_PATH p then add_recent plat p None st else st);
          st = saveLast p st;
          cmd = snprintf_buf (MAX_PATH * 2 + 16)
                  ([char_quote] @ escapeSingleQuotes (MAX_PATH * 2) p @ ''/launch.sh'' @ [char_quote])
      in queueNext cmd st)"

definition resume_disc :: "fs \<Rightarrow> string \<Rightarrow> string \<Rightarrow> string \<Rightarrow> string \<Rightarrow> string" where
  \<comment> \<open>the disc the state of this slot was saved with, if it was recorded\<close>
  "resume_disc fs emu_name m3u_path slot sd_path =
     (let disc_path_path = snprintf_buf MAX_PATH
            (SHARED_USERDATA_PATH @ ''/.minui/'' @ emu_name @ ''/'' @ basename m3u_path @ ''.'' @ slot @ ''.txt'')
      in if exists fs disc_path_path then
           (let disc_path = getFile fs disc_path_path [] MAX_PATH in
            if disc_path \<noteq> [] \<and> hd disc_path = CHR ''/'' then disc_path
            else parent_path m3u_path @ disc_path)
         else sd_path)"

definition openRom :: "string \<Rightarrow> string \<Rightarrow> string option \<Rightarrow> launcher \<Rightarrow> launcher" where
  "openRom plat p last_arg st =
     (let (has_m3u, m3u_path) = hasM3u (lfs st) p;
          recent_path = (if has_m3u then m3u_path else p);
          sd_path = (if has_m3u \<and> suffixMatch ''.m3u'' p then snd (getFirstDisc (lfs st) m3u_path p) else p);
          emu_name = getEmuName sd_path;
          (sd_path, st) =
            (if should_resume st then
               (let slot = getFile (lfs st) (slot_path st) [] 16;
                    st = st\<lparr>lfs := putFile RESUME_SLOT_PATH slot (lfs st), should_resume := False\<rparr>
                in (if has_m3u then resume_disc (lfs st) emu_name m3u_path slot sd_path else sd_path, st))
             else (sd_path, st\<lparr>lfs := putInt RESUME_SLOT_PATH 8 (lfs st)\<rparr>));
          emu_path = getEmuPath (lfs st) plat emu_name
      in if \<not> exists (lfs st) emu_path then st
         else
           (let st = add_recent plat recent_path (recent_alias st) st;
                st = saveLast (case last_arg of None \<Rightarrow> sd_path | Some l \<Rightarrow> l) st
            in queueNext (run_command emu_path sd_path) st))"

subsection \<open>Directories\<close>

definition push_directory :: "string \<Rightarrow> int \<Rightarrow> string \<Rightarrow> launcher \<Rightarrow> launcher" where
  \<comment> \<open>the part of \<open>openDirectory\<close> after the tests for an automatic launch\<close>
  "push_directory plat R p st =
     (let restored = (stack st \<noteq> [] \<and> entries (top st) \<noteq> []
                      \<and> restore_depth st = int (length (stack st)) \<and> selected (top st) = restore_relative st);
          sel = (if restored then restore_selected st else 0);
          s = (if restored then restore_start st else 0);
          e = (if restored then restore_end st else 0);
          (d, rs, fs) = Directory_new plat (simple_mode st) (recents st) (lfs st) p sel;
          n = int (length (entries d));
          d = d\<lparr>start := s, end_row := (if e \<noteq> 0 then e else if n < R then n else R)\<rparr>
      in st\<lparr>recents := rs, lfs := fs, stack := stack st @ [d]\<rparr>)"

definition openDirectory :: "string \<Rightarrow> int \<Rightarrow> string \<Rightarrow> bool \<Rightarrow> launcher \<Rightarrow> launcher" where
  "openDirectory plat R p auto_launch st =
     (let (has_cue, auto_path) = hasCue (lfs st) p in
      if has_cue \<and> auto_launch then openRom plat auto_path (Some p) st
      else
        (let m3u_path = m3u_of auto_path in
         if exists (lfs st) m3u_path \<and> auto_launch \<and> fst (getFirstDisc (lfs st) m3u_path [])
         then openRom plat (snd (getFirstDisc (lfs st) m3u_path [])) (Some p) st
         else push_directory plat R p st))"

definition closeDirectory :: "launcher \<Rightarrow> launcher" where
  "closeDirectory st =
     (let st = st\<lparr>restore_selected := selected (top st), restore_start := start (top st),
                  restore_end := end_row (top st), stack := butlast (stack st)\<rparr>
      in st\<lparr>restore_depth := int (length (stack st)), restore_relative := selected (top st)\<rparr>)"

definition Entry_open :: "string \<Rightarrow> int \<Rightarrow> Entry \<Rightarrow> launcher \<Rightarrow> launcher" where
  "Entry_open plat R self st =
     (let st = st\<lparr>recent_alias := Some (name self)\<rparr> in
      case etype self of
        ENTRY_ROM \<Rightarrow>
          openRom plat (path self)
            (if prefix_match COLLECTIONS_PATH (dpath (top st))
             then Some (snprintf_buf MAX_PATH (dpath (top st) @ ''/'' @ basename (path self))) else None) st
      | ENTRY_PAK \<Rightarrow> openPak plat (path self) st
      | ENTRY_DIR \<Rightarrow> openDirectory plat R (path self) True st)"

subsection \<open>Restoring the last position\<close>

function last_paths :: "string \<Rightarrow> string list option" where
  \<comment> \<open>the path and its parents below \<open>SDCARD_PATH\<close>, deepest first; \<open>None\<close> when the loop runs out of
     slashes and follows a null pointer\<close>
  "last_paths p =
     (if exact_match p SDCARD_PATH then Some []
      else (case strrchr p (CHR ''/'') of
              None \<Rightarrow> None
            | Some i \<Rightarrow> map_option (Cons p) (last_paths (take i p))))"
  by pat_completeness auto
termination
  by (relation "measure length") (auto dest: strrchr_less)

declare last_paths.simps [simp del]

definition load_match :: "string \<Rightarrow> string \<Rightarrow> string \<Rightarrow> Entry \<Rightarrow> bool" where
  "load_match full_path fname p entry \<longleftrightarrow>
     (let collated = (if suffixMatch '')'' p \<and> isConsoleDir p then collated_path p else []) in
      exact_match (path entry) p
      \<or> (collated \<noteq> [] \<and> prefix_match collated (path entry))
      \<or> (prefix_match COLLECTIONS_PATH full_path \<and> suffixMatch fname (path entry)))"

definition load_select :: "int \<Rightarrow> nat \<Rightarrow> Directory \<Rightarrow> Directory" where
  "load_select R i d =
     (let d = d\<lparr>selected := int i\<rparr>; n = int (length (entries d)) in
      if int i \<ge> end_row d then
        (if int i + R > n then d\<lparr>end_row := n, start := n - R\<rparr>
         else d\<lparr>start := int i, end_row := int i + R\<rparr>)
      else d)"

fun load_scan :: "string \<Rightarrow> int \<Rightarrow> string \<Rightarrow> string \<Rightarrow> string \<Rightarrow> bool \<Rightarrow> nat \<Rightarrow> Entry list \<Rightarrow> launcher \<Rightarrow> launcher" where
  "load_scan plat R full_path fname p is_last i [] st = st"
| "load_scan plat R full_path fname p is_last i (entry # es) st =
     (if load_match full_path fname p entry then
        (let st = set_top (load_select R i (top st)) st in
         if is_last \<and> \<not> exact_match (path entry) FAUX_RECENT_PATH
            \<and> \<not> (\<not> exact_match (path entry) COLLECTIONS_PATH \<and> prefix_match COLLECTIONS_PATH (path entry))
         then st
         else if etype entry = ENTRY_DIR then openDirectory plat R (path entry) False st
         else load_scan plat R full_path fname p is_last (i + 1) es st)
      else load_scan plat R full_path fname p is_last (i + 1) es st)"

fun load_paths :: "string \<Rightarrow> int \<Rightarrow> string \<Rightarrow> string \<Rightarrow> string list \<Rightarrow> launcher \<Rightarrow> launcher" where
  "load_paths plat R full_path fname [] st = st"
| "load_paths plat R full_path fname (p # ps) st =
     load_paths plat R full_path fname ps
       (if \<not> exact_match p ROMS_PATH
        then load_scan plat R full_path fname p (ps = []) 0 (entries (top st)) st else st)"

definition loadLast :: "string \<Rightarrow> int \<Rightarrow> launcher \<Rightarrow> launcher option" where
  "loadLast plat R st =
     (if \<not> exists (lfs st) LAST_PATH then Some st
      else
        (let full_path = getFile (lfs st) LAST_PATH [] MAX_PATH;
             fname = from_slash full_path
         in case last_paths full_path of
              None \<Rightarrow> None
            | Some ps \<Rightarrow> Some (load_paths plat R full_path fname (rev ps) st)))"

definition Menu_init :: "string \<Rightarrow> int \<Rightarrow> launcher \<Rightarrow> launcher option" where
  "Menu_init plat R st =
     loadLast plat R (openDirectory plat R SDCARD_PATH False (st\<lparr>stack := [], recents := []\<rparr>))"

subsection \<open>Deleting a collection\<close>

definition is_collection_entry :: "Entry \<Rightarrow> bool" where
  "is_collection_entry e \<longleftrightarrow> prefix_match COLLECTIONS_PATH (path e) \<and> suffixMatch ''.txt'' (path e)"

definition selected_entry :: "Directory \<Rightarrow> Entry" where
  "selected_entry d = entries d ! nat (selected d)"

definition Menu_deleteSelectedCollection :: "string \<Rightarrow> int \<Rightarrow> bool \<Rightarrow> bool \<Rightarrow> launcher \<Rightarrow> bool \<times> launcher" where
  \<comment> \<open>\<open>confirmed\<close> is the answer of \<open>Menu_confirm\<close>, \<open>unlinked\<close> whether \<open>unlink\<close> succeeds\<close>
  "Menu_deleteSelectedCollection plat R confirmed unlinked st =
     (if entries (top st) = [] then (False, st)
      else if \<not> is_collection_entry (selected_entry (top st)) then (False, st)
      else if \<not> confirmed then (True, st)
      else if \<not> unlinked then (False, st)
      else
        (let st = st\<lparr>lfs := unlink (path (selected_entry (top st))) (lfs st)\<rparr>;
             (d, rs, fs) = Directory_new plat (simple_mode st) (recents st) (lfs st) (dpath (top st)) (selected (top st));
             st = set_top d (st\<lparr>recents := rs, lfs := fs\<rparr>);
             cnt = int (length (entries d))
         in if cnt = 0 then
              (True, if length (stack st) > 1 then closeDirectory st
                     else set_top (d\<lparr>selected := 0, start := 0, end_row := 0\<rparr>) st)
            else
              (let sel = (if selected d \<ge> cnt then cnt - 1 else selected d);
                   e = (if cnt < R then cnt else R)
               in (True, set_top (if sel \<ge> e then d\<lparr>selected := sel, end_row := sel + 1, start := sel + 1 - R\<rparr>
                                  else d\<lparr>selected := sel, start := 0, end_row := e\<rparr>) st))))"

subsection \<open>A frame of input\<close>

text \<open>The cursor and the visible window while keys are handled.\<close>

record cursor =
  csel :: int
  cstart :: int
  cend :: int

definition key_updown :: "int \<Rightarrow> int \<Rightarrow> PAD_Context \<Rightarrow> cursor \<Rightarrow> cursor" where
  "key_updown R tot pad c =
     (if PAD_justRepeated pad BTN_UP then
        (if csel c = 0 \<and> \<not> PAD_justPressed pad BTN_UP then c
         else (let sel = csel c - 1 in
               if sel < 0 then \<lparr>csel = tot - 1, cstart = (if tot - R < 0 then 0 else tot - R), cend = tot\<rparr>
               else if sel < cstart c then \<lparr>csel = sel, cstart = cstart c - 1, cend = cend c - 1\<rparr>
               else c\<lparr>csel := sel\<rparr>))
      else if PAD_justRepeated pad BTN_DOWN then
        (if csel c = tot - 1 \<and> \<not> PAD_justPressed pad BTN_DOWN then c
         else (let sel = csel c + 1 in
               if sel \<ge> tot then \<lparr>csel = 0, cstart = 0, cend = (if tot < R then tot else R)\<rparr>
               else if sel \<ge> cend c then \<lparr>csel = sel, cstart = cstart c + 1, cend = cend c + 1\<rparr>
               else c\<lparr>csel := sel\<rparr>))
      else c)"

definition key_leftright :: "int \<Rightarrow> int \<Rightarrow> PAD_Context \<Rightarrow> cursor \<Rightarrow> cursor" where
  "key_leftright R tot pad c =
     (if PAD_justRepeated pad BTN_LEFT then
        (let sel = csel c - R in
         if sel < 0 then \<lparr>csel = 0, cstart = 0, cend = (if tot < R then tot else R)\<rparr>
         else if sel < cstart c then
           (let s = (if cstart c - R < 0 then 0 else cstart c - R) in \<lparr>csel = sel, cstart = s, cend = s + R\<rparr>)
         else c\<lparr>csel := sel\<rparr>)
      else if PAD_justRepeated pad BTN_RIGHT then
        (let sel = csel c + R in
         if sel \<ge> tot then \<lparr>csel = tot - 1, cstart = (if tot - R < 0 then 0 else tot - R), cend = tot\<rparr>
         else if sel \<ge> cend c then
           (let e = (if cend c + R > tot then tot else cend c + R) in \<lparr>csel = sel, cstart = e - R, cend = e\<rparr>)
         else c\<lparr>csel := sel\<rparr>)
      else c)"

definition jump_to :: "int \<Rightarrow> int \<Rightarrow> int \<Rightarrow> cursor \<Rightarrow> cursor" where
  "jump_to R tot sel c =
     (if tot > R then
        (let e = (if sel + R > tot then tot else sel + R) in \<lparr>csel = sel, cstart = e - R, cend = e\<rparr>)
      else c\<lparr>csel := sel\<rparr>)"

definition key_alpha :: "int \<Rightarrow> int \<Rightarrow> Directory \<Rightarrow> PAD_Context \<Rightarrow> int \<Rightarrow> cursor \<Rightarrow> cursor option" where
  \<comment> \<open>\<open>None\<close>: the code reads the entry at \<open>selected\<close> of an empty list\<close>
  "key_alpha R tot d pad setting c =
     (let L1 = btn_mask BTN_ID_L1; R1 = btn_mask BTN_ID_R1 in
      if PAD_justRepeated pad L1 \<and> \<not> PAD_isPressed pad R1 \<and> \<not> PWR_ignoreSettingInput L1 setting then
        (if csel c < 0 \<or> csel c \<ge> int (length (entries d)) then None
         else (let i = alpha (entries d ! nat (csel c)) - 1 in
               Some (if i \<ge> 0 then jump_to R tot (iitems (alphas d) ! nat i) c else c)))
      else if PAD_justRepeated pad R1 \<and> \<not> PAD_isPressed pad L1 \<and> \<not> PWR_ignoreSettingInput R1 setting then
        (if csel c < 0 \<or> csel c \<ge> int (length (entries d)) then None
         else (let i = alpha (entries d ! nat (csel c)) + 1 in
               Some (if i < int (icount (alphas d)) then jump_to R tot (iitems (alphas d) ! nat i) c else c)))
      else Some c)"

definition move_cursor :: "int \<Rightarrow> PAD_Context \<Rightarrow> int \<Rightarrow> Directory \<Rightarrow> cursor option" where
  "move_cursor R pad setting d =
     (let tot = int (length (entries d));
          c = \<lparr>csel = selected d, cstart = start d, cend = end_row d\<rparr>;
          c = (if tot > 0 then key_leftright R tot pad (key_updown R tot pad c) else c)
      in key_alpha R tot d pad setting c)"

record menu_frame =
  frame_now :: u32
  confirmed :: bool
  unlinked :: bool
  no_power_button :: bool   \<comment> \<open>\<open>!HAS_POWER_BUTTON\<close>\<close>

record menu_vars =
  mst :: launcher
  show_version :: bool
  mdirty :: bool
  tap :: tap_state
  mpwr :: PWR_Context

definition ready_selected :: "launcher \<Rightarrow> launcher" where
  \<comment> \<open>\<open>if (total>0) readyResume(top->entries->items[top->selected])\<close>\<close>
  "ready_selected st = (if entries (top st) \<noteq> [] then readyResume (selected_entry (top st)) st else st)"

definition menu_action :: "string \<Rightarrow> int \<Rightarrow> PAD_Context \<Rightarrow> menu_frame \<Rightarrow> menu_vars \<Rightarrow> menu_vars" where
  "menu_action plat R pad f v =
     (let st = mst v; tot = length (entries (top st)) in
      if tot > 0 \<and> can_resume st \<and> PAD_justReleased pad (btn_mask BTN_ID_X) then
        v\<lparr>mst := Entry_open plat R (selected_entry (top st)) (st\<lparr>should_resume := True\<rparr>), mdirty := True\<rparr>
      else if tot > 0 \<and> PAD_justPressed pad (btn_mask BTN_ID_A) then
        v\<lparr>mst := ready_selected (Entry_open plat R (selected_entry (top st)) st), mdirty := True\<rparr>
      else if PAD_justPressed pad (btn_mask BTN_ID_Y) \<and> length (stack st) > 1 \<and> tot > 0
              \<and> is_collection_entry (selected_entry (top st)) then
        (let (changed, st) = Menu_deleteSelectedCollection plat R (confirmed f) (unlinked f) st
         in v\<lparr>mst := st, mdirty := mdirty v \<or> changed\<rparr>)
      else if PAD_justPressed pad (btn_mask BTN_ID_B) \<and> length (stack st) > 1 then
        v\<lparr>mst := ready_selected (closeDirectory st), mdirty := True\<rparr>
      else v)"

definition Menu_handleInput :: "string \<Rightarrow> int \<Rightarrow> PAD_Context \<Rightarrow> menu_frame \<Rightarrow> int \<Rightarrow> menu_vars \<Rightarrow> menu_vars option" where
  "Menu_handleInput plat R pad f setting v =
     (let (tapped, t) = PAD_tappedMenu (frame_now f) pad (tap v);
          vt = v\<lparr>tap := t\<rparr>
      in if show_version v then
           (let b = PAD_justPressed pad (btn_mask BTN_ID_B) in
            if b \<or> tapped then
              Some ((if b then v else vt)\<lparr>show_version := False, mdirty := True,
                      mpwr := (if no_power_button f \<and> \<not> simple_mode (mst v)
                               then PWR_disableSleep (mpwr v) else mpwr v)\<rparr>)
            else Some vt)
         else
           (let vs = (if tapped then vt\<lparr>show_version := True, mdirty := True,
                                        mpwr := (if no_power_button f \<and> \<not> simple_mode (mst v)
                                                 then PWR_enableSleep (mpwr v) else mpwr v)\<rparr>
                      else vt);
                d = top (mst v);
                moved = (if tapped
                         then key_alpha R (int (length (entries d))) d pad setting
                                \<lparr>csel = selected d, cstart = start d, cend = end_row d\<rparr>
                         else move_cursor R pad setting d)
            in case moved of
                 None \<Rightarrow> None
               | Some c \<Rightarrow>
                   (let vs = vs\<lparr>mdirty := mdirty vs \<or> csel c \<noteq> selected d,
                                mst := set_top (d\<lparr>selected := csel c, start := cstart c, end_row := cend c\<rparr>) (mst vs)\<rparr>;
                        vs = (if mdirty vs then vs\<lparr>mst := ready_selected (mst vs)\<rparr> else vs)
                    in Some (menu_action plat R pad f vs))))"

end
