(* ===== verification/Browse.thy ===== *)
theory Browse
  imports Launcher
begin

text \<open>
  Properties of the launcher: the cursor and the visible window stay valid while browsing, closing
  and reopening a directory restores the position, commands are quoted, and the last position is
  found again. Browsing is a step relation on launcher states (cursor keys, opening the selected
  folder, going back) whose invariant is proved by rule induction.
\<close>

subsection \<open>The window\<close>

definition win_ok :: "int \<Rightarrow> int \<Rightarrow> cursor \<Rightarrow> bool" where
  "win_ok R tot c \<longleftrightarrow> 0 \<le> cstart c \<and> cstart c \<le> csel c \<and> csel c < cend c \<and> cend c \<le> tot
     \<and> cend c - cstart c = min tot R"

lemma key_updown_ok:
  assumes "0 < R" and "0 < tot" and "win_ok R tot c"
  shows "win_ok R tot (key_updown R tot pad c)"
  using assms by (auto simp: win_ok_def key_updown_def Let_def min_def split: if_splits)

lemma key_leftright_ok:
  assumes "0 < R" and "0 < tot" and "win_ok R tot c"
  shows "win_ok R tot (key_leftright R tot pad c)"
  using assms by (auto simp: win_ok_def key_leftright_def Let_def min_def split: if_splits)

lemma jump_to_ok:
  assumes "0 < R" and "win_ok R tot c" and "0 \<le> sel" and "sel < tot"
  shows "win_ok R tot (jump_to R tot sel c)"
  using assms by (auto simp: win_ok_def jump_to_def Let_def min_def split: if_splits)

subsection \<open>The index of a directory\<close>

definition alpha_ok :: "Directory \<Rightarrow> bool" where
  "alpha_ok d \<longleftrightarrow> IntArray_ok (alphas d)
     \<and> (\<forall>x \<in> set (ints (alphas d)). 0 \<le> x \<and> x < int (length (entries d)))
     \<and> (\<forall>e \<in> set (entries d). 0 \<le> alpha e \<and> alpha e \<le> int (icount (alphas d)))"

lemma IntArray_new_ok: "IntArray_ok IntArray_new" "ints IntArray_new = []" "icount IntArray_new = 0"
  by (simp_all add: IntArray_new_def IntArray_ok_def ints_def)

lemma Directory_index_alpha_ok:
  assumes "fresh_dir d"
  shows "alpha_ok (Directory_index fs d)"
proof (cases "index_skipped d")
  case True
  have al: "map alpha (entries (Directory_index fs d)) = map alpha (dir_entries fs d)"
    "alphas (Directory_index fs d) = IntArray_new"
    using True assms index_loop_skip by (simp_all add: Directory_index_unfold fresh_dir_def)
  have "alpha e = 0" if e: "e \<in> set (entries (Directory_index fs d))" for e
  proof -
    have "alpha e \<in> set (map alpha (dir_entries fs d))" using e by (simp add: al(1) [symmetric])
    then show ?thesis using dir_entries_alpha [OF assms, of fs] by auto
  qed
  then show ?thesis by (simp add: alpha_ok_def al(2) IntArray_new_ok)
next
  case False
  note post = Directory_index_post [OF assms False, of fs]
  have "0 \<le> alpha e \<and> alpha e \<le> int (icount (alphas (Directory_index fs d)))"
    if "e \<in> set (entries (Directory_index fs d))" for e
    using that post by (auto simp: alpha_post_def in_set_conv_nth)
  then show ?thesis using post by (simp add: alpha_ok_def alpha_post_def)
qed

lemma Directory_new_alpha_ok: "alpha_ok (fst (Directory_new plat simple rs fs p sel))"
  using Directory_new_fresh [of plat simple rs fs p sel] Directory_index_alpha_ok by metis

lemma ints_slot:
  assumes "IntArray_ok al" and "0 \<le> i" and "i < int (icount al)"
  shows "iitems al ! nat i \<in> set (ints al)"
proof -
  have "nat i < length (ints al)" using assms by (simp add: length_ints)
  then have "ints al ! nat i \<in> set (ints al)" by (rule nth_mem)
  then show ?thesis using assms by (simp add: ints_def)
qed

lemma key_alpha_ok:
  assumes R: "0 < R" and "tot = int (length (entries d))" and "alpha_ok d" and "win_ok R tot c"
  shows "\<exists>c'. key_alpha R tot d pad setting c = Some c' \<and> win_ok R tot c'"
proof -
  have c: "0 \<le> csel c" "csel c < int (length (entries d))" using assms(2,4) by (auto simp: win_ok_def)
  let ?a = "alpha (entries d ! nat (csel c))"
  have a: "0 \<le> ?a" "?a \<le> int (icount (alphas d))"
    using assms(3) c by (auto simp: alpha_ok_def nat_less_iff)
  have slot: "0 \<le> iitems (alphas d) ! nat i \<and> iitems (alphas d) ! nat i < tot"
    if "0 \<le> i" "i < int (icount (alphas d))" for i
    using ints_slot [OF _ that] assms(2,3) by (auto simp: alpha_ok_def)
  have jump: "win_ok R tot (jump_to R tot (iitems (alphas d) ! nat i) c)"
    if "0 \<le> i" "i < int (icount (alphas d))" for i
    using slot [OF that] jump_to_ok [OF R assms(4)] by simp
  show ?thesis
    using c a assms(4) jump [of "?a - 1"] jump [of "?a + 1"] by (auto simp: key_alpha_def Let_def)
qed

definition dir_cursor :: "Directory \<Rightarrow> cursor" where
  "dir_cursor d = \<lparr>csel = selected d, cstart = start d, cend = end_row d\<rparr>"

definition dir_ok :: "int \<Rightarrow> Directory \<Rightarrow> bool" where
  "dir_ok R d \<longleftrightarrow> alpha_ok d \<and> (entries d \<noteq> [] \<longrightarrow> win_ok R (int (length (entries d))) (dir_cursor d))"

definition with_cursor :: "cursor \<Rightarrow> Directory \<Rightarrow> Directory" where
  "with_cursor c d = d\<lparr>selected := csel c, start := cstart c, end_row := cend c\<rparr>"

lemma with_cursor_simps [simp]:
  "entries (with_cursor c d) = entries d" "dpath (with_cursor c d) = dpath d" "alphas (with_cursor c d) = alphas d"
  "dir_cursor (with_cursor c d) = c" "selected (with_cursor c d) = csel c"
  by (simp_all add: with_cursor_def dir_cursor_def)

lemma alpha_ok_with_cursor [simp]: "alpha_ok (with_cursor c d) = alpha_ok d"
  by (simp add: alpha_ok_def)

lemma move_cursor_ok:
  assumes "0 < R" and "dir_ok R d" and "entries d \<noteq> []"
  shows "\<exists>c. move_cursor R pad setting d = Some c \<and> win_ok R (int (length (entries d))) c"
proof -
  let ?tot = "int (length (entries d))"
  have "0 < ?tot" using assms(3) by simp
  then have "win_ok R ?tot (key_leftright R ?tot pad (key_updown R ?tot pad (dir_cursor d)))"
    using assms by (intro key_leftright_ok key_updown_ok) (simp_all add: dir_ok_def)
  from key_alpha_ok [OF assms(1) refl _ this, of pad setting] assms \<open>0 < ?tot\<close>
  show ?thesis by (auto simp: move_cursor_def dir_ok_def dir_cursor_def)
qed

subsection \<open>Opening and closing\<close>

text \<open>The list of a directory depends on its path and the card only, not on the cursor.\<close>

definition listing :: "string \<Rightarrow> launcher \<Rightarrow> string \<Rightarrow> Entry list" where
  "listing plat st p = entries (fst (Directory_new plat (simple_mode st) (recents st) (lfs st) p 0))"

lemma Directory_index_entries_sel:
  "entries (Directory_index fs (d\<lparr>selected := s\<rparr>)) = entries (Directory_index fs d)"
  by (simp add: Directory_index_unfold index_skipped_def dir_map_def dir_entries_def split: option.split)

lemma Directory_new_entries_sel:
  "entries (fst (Directory_new plat sm rs fs p sel)) = entries (fst (Directory_new plat sm rs fs p 0))"
proof -
  define X where "X = (if exact_match p SDCARD_PATH then getRoot plat sm rs fs
      else if exact_match p FAUX_RECENT_PATH then (getRecents plat rs, rs, fs)
      else if \<not> exact_match p COLLECTIONS_PATH \<and> prefix_match COLLECTIONS_PATH p \<and> suffixMatch ''.txt'' p
        then (getCollection fs plat p, rs, fs)
      else if suffixMatch ''.m3u'' p then (getDiscs fs plat p, rs, fs)
      else (getEntries fs plat p, rs, fs))"
  obtain es rs' fs' where e: "X = (es, rs', fs')" by (cases X)
  let ?d = "\<lparr>dpath = p, dname = getDisplayName plat p, entries = es, alphas = IntArray_new,
      selected = 0, start = 0, end_row = 0\<rparr>"
  have "fst (Directory_new plat sm rs fs p sel) = Directory_index fs' (?d\<lparr>selected := sel\<rparr>)" for sel
    unfolding Directory_new_def X_def [symmetric] e by simp
  then show ?thesis by (simp only: Directory_index_entries_sel)
qed

lemma Directory_new_keeps:
  "p \<noteq> SDCARD_PATH \<Longrightarrow> snd (Directory_new plat sm rs fs p sel) = (rs, fs)"
  by (simp add: Directory_new_def Let_def)

lemma Directory_new_fields:
  "selected (fst (Directory_new plat sm rs fs p sel)) = sel" "dpath (fst (Directory_new plat sm rs fs p sel)) = p"
  using Directory_new_fresh [of plat sm rs fs p sel] by (auto simp: Directory_index_unfold)

definition restored :: "launcher \<Rightarrow> bool" where
  "restored st \<longleftrightarrow> stack st \<noteq> [] \<and> entries (top st) \<noteq> []
     \<and> restore_depth st = int (length (stack st)) \<and> selected (top st) = restore_relative st"

definition restore_cursor :: "launcher \<Rightarrow> cursor" where
  "restore_cursor st = \<lparr>csel = restore_selected st, cstart = restore_start st, cend = restore_end st\<rparr>"

lemma push_directory_top:
  assumes "p \<noteq> SDCARD_PATH" and st'_def: "st' = push_directory plat R p st"
  shows "stack st' = stack st @ [top st']" "entries (top st') = listing plat st p" "alpha_ok (top st')"
    "dpath (top st') = p"
    "selected (top st') = (if restored st then restore_selected st else 0)"
    "start (top st') = (if restored st then restore_start st else 0)"
    "end_row (top st') = (if restored st \<and> restore_end st \<noteq> 0 then restore_end st
                          else min (int (length (listing plat st p))) R)"
    "lfs st' = lfs st" "recents st' = recents st" "simple_mode st' = simple_mode st"
    "restore_depth st' = restore_depth st" "restore_relative st' = restore_relative st"
    "restore_cursor st' = restore_cursor st"
proof -
  let ?sel = "if restored st then restore_selected st else 0"
  let ?new = "Directory_new plat (simple_mode st) (recents st) (lfs st) p ?sel"
  define d where "d = fst ?new"
  let ?n = "int (length (entries d))" and ?e = "if restored st then restore_end st else 0"
  let ?d = "d\<lparr>start := if restored st then restore_start st else 0,
      end_row := if ?e \<noteq> 0 then ?e else if ?n < R then ?n else R\<rparr>"
  have st': "st' = st\<lparr>recents := recents st, lfs := lfs st, stack := stack st @ [?d]\<rparr>"
    unfolding st'_def push_directory_def d_def restored_def [symmetric]
    by (cases "restored st") (simp_all add: Let_def split_beta Directory_new_keeps [OF assms(1)])
  have es: "entries d = listing plat st p"
    unfolding d_def listing_def by (rule Directory_new_entries_sel)
  have a: "alpha_ok d" unfolding d_def by (rule Directory_new_alpha_ok)
  have f: "selected d = ?sel" "dpath d = p" unfolding d_def by (rule Directory_new_fields)+
  show "stack st' = stack st @ [top st']" "entries (top st') = listing plat st p" "alpha_ok (top st')"
    "dpath (top st') = p" "selected (top st') = ?sel"
    "start (top st') = (if restored st then restore_start st else 0)"
    "end_row (top st') = (if restored st \<and> restore_end st \<noteq> 0 then restore_end st
                          else min (int (length (listing plat st p))) R)"
    "lfs st' = lfs st" "recents st' = recents st" "simple_mode st' = simple_mode st"
    "restore_depth st' = restore_depth st" "restore_relative st' = restore_relative st"
    "restore_cursor st' = restore_cursor st"
    using a f es by (simp_all add: st' top_def alpha_ok_def restore_cursor_def min_def)
qed

subsection \<open>Browsing\<close>

definition auto_launches :: "launcher \<Rightarrow> string \<Rightarrow> bool" where
  \<comment> \<open>a folder with a \<open>.cue\<close> or \<open>.m3u\<close> of its own name starts a game instead of being opened\<close>
  "auto_launches st p \<longleftrightarrow> fst (hasCue (lfs st) p)
     \<or> (exists (lfs st) (m3u_of (snd (hasCue (lfs st) p)))
        \<and> fst (getFirstDisc (lfs st) (m3u_of (snd (hasCue (lfs st) p))) []))"

inductive browse_step :: "string \<Rightarrow> int \<Rightarrow> launcher \<Rightarrow> launcher \<Rightarrow> bool" for plat R where
  step_move: "stack st \<noteq> [] \<Longrightarrow> move_cursor R pad setting (top st) = Some c \<Longrightarrow>
         browse_step plat R st (set_top (with_cursor c (top st)) st)"
| step_enter: "stack st \<noteq> [] \<Longrightarrow> entries (top st) \<noteq> [] \<Longrightarrow> e = selected_entry (top st) \<Longrightarrow> etype e = ENTRY_DIR \<Longrightarrow>
         path e \<noteq> SDCARD_PATH \<Longrightarrow> \<not> auto_launches st (path e) \<Longrightarrow>
         browse_step plat R st (ready_selected (Entry_open plat R e st))"
| step_back: "length (stack st) > 1 \<Longrightarrow> browse_step plat R st (ready_selected (closeDirectory st))"

inductive_cases browse_stepE: "browse_step plat R st st'"

definition chained :: "string \<Rightarrow> launcher \<Rightarrow> Directory \<Rightarrow> Directory \<Rightarrow> bool" where
  "chained plat st a b \<longleftrightarrow> entries a \<noteq> [] \<and> entries b = listing plat st (path (selected_entry a))"

definition restore_ok :: "string \<Rightarrow> int \<Rightarrow> launcher \<Rightarrow> bool" where
  "restore_ok plat R st \<longleftrightarrow> restore_depth st \<le> int (length (stack st))
     \<and> (restore_depth st = int (length (stack st)) \<and> entries (top st) \<noteq> [] \<longrightarrow>
          (let es = listing plat st (path (entries (top st) ! nat (restore_relative st)))
           in es \<noteq> [] \<longrightarrow> win_ok R (int (length es)) (restore_cursor st)))"

definition browse_inv :: "string \<Rightarrow> int \<Rightarrow> launcher \<Rightarrow> bool" where
  "browse_inv plat R st \<longleftrightarrow> stack st \<noteq> [] \<and> (\<forall>d \<in> set (stack st). dir_ok R d)
     \<and> successively (chained plat st) (stack st) \<and> restore_ok plat R st"

definition same_card :: "launcher \<Rightarrow> launcher \<Rightarrow> bool" where
  "same_card a b \<longleftrightarrow> lfs a = lfs b \<and> recents a = recents b \<and> simple_mode a = simple_mode b"

lemma listing_same: "same_card a b \<Longrightarrow> listing plat a p = listing plat b p"
  by (simp add: same_card_def listing_def)

lemma chained_same: "same_card a b \<Longrightarrow> chained plat a = chained plat b"
  by (auto simp: chained_def fun_eq_iff listing_same)

lemma readyResume_keeps:
  "stack (readyResume e st) = stack st" "lfs (readyResume e st) = lfs st" "recents (readyResume e st) = recents st"
  "simple_mode (readyResume e st) = simple_mode st" "restore_depth (readyResume e st) = restore_depth st"
  "restore_relative (readyResume e st) = restore_relative st" "restore_selected (readyResume e st) = restore_selected st"
  "restore_start (readyResume e st) = restore_start st" "restore_end (readyResume e st) = restore_end st"
  by (simp_all add: readyResume_def readyResumePath_def Let_def split_beta split: option.split)

lemma ready_selected_keeps [simp]:
  "stack (ready_selected st) = stack st" "lfs (ready_selected st) = lfs st" "recents (ready_selected st) = recents st"
  "simple_mode (ready_selected st) = simple_mode st" "restore_depth (ready_selected st) = restore_depth st"
  "restore_relative (ready_selected st) = restore_relative st" "restore_cursor (ready_selected st) = restore_cursor st"
  "top (ready_selected st) = top st"
  by (simp_all add: ready_selected_def readyResume_keeps restore_cursor_def top_def)

lemma browse_inv_ready: "browse_inv plat R (ready_selected st) = browse_inv plat R st"
proof -
  have "same_card (ready_selected st) st" by (simp add: same_card_def)
  then show ?thesis
    by (simp add: browse_inv_def restore_ok_def chained_same listing_same Let_def)
qed

lemma stack_top: "stack st \<noteq> [] \<Longrightarrow> stack st = butlast (stack st) @ [top st]"
  by (simp add: top_def)

lemma dir_ok_selected:
  "dir_ok R d \<Longrightarrow> entries d \<noteq> [] \<Longrightarrow> 0 \<le> selected d \<and> selected d < int (length (entries d))"
  by (auto simp: dir_ok_def win_ok_def dir_cursor_def)

lemma move_inv:
  assumes "0 < R" and inv: "browse_inv plat R st" and mv: "move_cursor R pad setting (top st) = Some c"
  shows "browse_inv plat R (set_top (with_cursor c (top st)) st)"
proof -
  let ?t = "with_cursor c (top st)" and ?st = "set_top (with_cursor c (top st)) st"
  have ne: "stack st \<noteq> []" and ok: "dir_ok R (top st)"
    using inv by (auto simp: browse_inv_def top_def)
  have t: "dir_ok R ?t"
  proof (cases "entries (top st) = []")
    case True
    then show ?thesis using ok by (simp add: dir_ok_def)
  next
    case False
    then show ?thesis using ok mv move_cursor_ok [OF assms(1) ok False, of pad setting] by (simp add: dir_ok_def)
  qed
  have st: "stack ?st = butlast (stack st) @ [?t]" "top ?st = ?t" by (simp_all add: set_top_def top_def)
  have card: "same_card ?st st" by (simp add: same_card_def set_top_def)
  have len: "length (stack ?st) = length (stack st)" using ne st by (cases "stack st" rule: rev_cases) simp_all
  have "successively (chained plat st) (butlast (stack st) @ [top st])"
    using inv stack_top [OF ne] by (simp add: browse_inv_def)
  then have chain: "successively (chained plat st) (butlast (stack st) @ [?t])"
    by (simp add: successively_append_iff chained_def)
  have "\<forall>d \<in> set (stack ?st). dir_ok R d" using inv t st in_set_butlastD by (fastforce simp: browse_inv_def)
  moreover have "restore_ok plat R ?st"
    using inv len st listing_same [OF card]
    by (simp add: browse_inv_def restore_ok_def restore_cursor_def set_top_def Let_def)
  ultimately show ?thesis using st chain by (simp add: browse_inv_def chained_same [OF card])
qed

lemma back_inv:
  assumes inv: "browse_inv plat R st" and "length (stack st) > 1"
  shows "browse_inv plat R (closeDirectory st)"
proof -
  let ?st = "closeDirectory st"
  obtain ds a b where s: "stack st = ds @ [a, b]"
    using assms(2) by (cases "stack st" rule: rev_cases; cases "butlast (stack st)" rule: rev_cases) auto
  have st: "stack ?st = ds @ [a]" "top ?st = a" "restore_depth ?st = int (length (ds @ [a]))"
    "restore_relative ?st = selected a" "restore_cursor ?st = dir_cursor b"
    by (simp_all add: closeDirectory_def Let_def s top_def restore_cursor_def dir_cursor_def butlast_append)
  have card: "same_card ?st st" by (simp add: same_card_def closeDirectory_def Let_def)
  have "chained plat st a b" "successively (chained plat st) (ds @ [a])"
    using inv s by (auto simp: browse_inv_def successively_append_iff)
  then have "restore_ok plat R ?st"
    using inv s by (auto simp: restore_ok_def st chained_def listing_same [OF card] browse_inv_def dir_ok_def
        selected_entry_def Let_def)
  then show ?thesis
    using inv s st \<open>successively (chained plat st) (ds @ [a])\<close>
    by (simp add: browse_inv_def chained_same [OF card])
qed

lemma enter_is_push:
  assumes "etype e = ENTRY_DIR" and "\<not> auto_launches st (path e)"
  shows "Entry_open plat R e st = push_directory plat R (path e) (st\<lparr>recent_alias := Some (name e)\<rparr>)"
  using assms by (auto simp: Entry_open_def openDirectory_def auto_launches_def Let_def split_beta)

lemma push_inv:
  assumes R: "0 < R" and inv: "browse_inv plat R st" and ne: "entries (top st) \<noteq> []"
    and p: "p = path (selected_entry (top st))" "p \<noteq> SDCARD_PATH"
  shows "browse_inv plat R (push_directory plat R p st)"
proof -
  let ?st = "push_directory plat R p st"
  note t = push_directory_top [OF p(2) refl, of plat R st]
  have card: "same_card ?st st" by (simp add: same_card_def t)
  have stk: "stack st \<noteq> []" using inv by (simp add: browse_inv_def)
  have win: "win_ok R (int (length (listing plat st p))) (dir_cursor (top ?st))" if "listing plat st p \<noteq> []"
  proof (cases "restored st")
    case True
    then have "win_ok R (int (length (listing plat st p))) (restore_cursor st)"
      using inv that p(1) by (simp add: browse_inv_def restore_ok_def restored_def selected_entry_def Let_def)
    moreover from this have "restore_end st \<noteq> 0" by (auto simp: win_ok_def restore_cursor_def)
    ultimately show ?thesis using True by (simp add: dir_cursor_def t restore_cursor_def)
  next
    case False
    have "0 < int (length (listing plat st p))" using that by simp
    then show ?thesis using R False by (simp add: dir_cursor_def t win_ok_def)
  qed
  then have "dir_ok R (top ?st)" by (simp add: dir_ok_def t)
  moreover have "successively (chained plat st) (stack st @ [top ?st])"
    using inv ne p(1) t(2) by (simp add: browse_inv_def successively_append_iff chained_def top_def)
  moreover have "restore_ok plat R ?st"
    using inv t by (simp add: restore_ok_def browse_inv_def)
  ultimately show ?thesis
    using inv stk t(1) chained_same [OF card, of plat] by (simp add: browse_inv_def)
qed

lemma browse_step_inv:
  assumes "browse_step plat R st st'" and "0 < R" and "browse_inv plat R st"
  shows "browse_inv plat R st'"
  using assms(1)
proof cases
  case (step_move pad setting c)
  then show ?thesis using assms move_inv by blast
next
  case (step_enter e)
  let ?st = "st\<lparr>recent_alias := Some (name e)\<rparr>"
  have card: "same_card ?st st" by (simp add: same_card_def)
  have "browse_inv plat R ?st"
    using assms(3) by (simp add: browse_inv_def restore_ok_def restore_cursor_def top_def Let_def
        chained_same [OF card] listing_same [OF card])
  then have "browse_inv plat R (push_directory plat R (path e) ?st)"
    using step_enter assms(2) by (intro push_inv) (simp_all add: top_def)
  then show ?thesis using step_enter by (simp add: enter_is_push browse_inv_ready)
next
  case step_back
  then show ?thesis using assms back_inv browse_inv_ready by simp
qed

lemma browse_reachable_inv:
  assumes "(browse_step plat R)\<^sup>*\<^sup>* st st'" and "0 < R" and "browse_inv plat R st"
  shows "browse_inv plat R st'"
  using assms by (induction rule: rtranclp_induct) (auto intro: browse_step_inv)

text \<open>The number of entries of an ordinary folder and of an empty collection.\<close>

lemma Directory_index_length:
  "\<not> exists fs (snprintf_buf MAX_PATH ((if prefix_match COLLECTIONS_PATH (dpath d) then COLLECTIONS_PATH else dpath d) @ ''/map.txt''))
   \<Longrightarrow> length (entries (Directory_index fs d)) = length (entries d)"
proof -
  assume "\<not> exists fs (snprintf_buf MAX_PATH ((if prefix_match COLLECTIONS_PATH (dpath d) then COLLECTIONS_PATH else dpath d) @ ''/map.txt''))"
  then have "dir_map fs d = None" by (simp add: dir_map_def load_map_def)
  then have "map path (entries (Directory_index fs d)) = map path (entries d)"
    using index_loop_names [of "dir_map fs d"] by (simp add: Directory_index_unfold dir_entries_def)
  then show ?thesis by (metis length_map)
qed

lemma listing_folder:
  assumes "p \<noteq> SDCARD_PATH" and "p \<noteq> FAUX_RECENT_PATH" and "p = COLLECTIONS_PATH \<or> \<not> suffixMatch ''.txt'' p"
    and "\<not> suffixMatch ''.m3u'' p" and "\<not> isConsoleDir p"
    and "\<not> exists (lfs st) (snprintf_buf MAX_PATH ((if prefix_match COLLECTIONS_PATH p then COLLECTIONS_PATH else p) @ ''/map.txt''))"
  shows "length (listing plat st p) = length (visible (opendir (lfs st) p))"
proof -
  have "length (entries (Directory_index (lfs st) d)) = length (entries d)" if "dpath d = p" for d
    by (rule Directory_index_length [of "lfs st" d, unfolded that, OF assms(6)])
  then have "length (listing plat st p) = length (getEntries (lfs st) plat p)"
    using assms(1-5) by (auto simp: listing_def Directory_new_def Let_def)
  then show ?thesis using assms(5) esort.length_srt by (simp add: getEntries_def addEntries_def)
qed

lemma listing_empty_collection:
  assumes "p \<noteq> SDCARD_PATH" and "p \<noteq> FAUX_RECENT_PATH" and "p \<noteq> COLLECTIONS_PATH" and "prefix_match COLLECTIONS_PATH p"
    and "suffixMatch ''.txt'' p" and "fopen_r (lfs st) p = Some []"
    and "\<not> exists (lfs st) (snprintf_buf MAX_PATH (COLLECTIONS_PATH @ ''/map.txt''))"
  shows "listing plat st p = []"
proof -
  have "length (listing plat st p) = length (getCollection (lfs st) plat p)"
    using assms Directory_index_length [of "lfs st"] by (simp add: listing_def Directory_new_def Let_def)
  then show ?thesis using assms(6) by (simp add: getCollection_def)
qed

text \<open>The parent chain of a path on the card.\<close>

lemma last_paths_exact [simp]: "last_paths SDCARD_PATH = Some []"
  by (simp add: last_paths.simps)

lemma last_paths_below:
  "\<exists>ps. last_paths (SDCARD_PATH @ CHR ''/'' # s) = Some ps \<and> ps \<noteq> [] \<and> hd ps = SDCARD_PATH @ CHR ''/'' # s
        \<and> dirname (last ps) = SDCARD_PATH"
proof (induction "length s" arbitrary: s rule: less_induct)
  case less
  let ?p = "SDCARD_PATH @ CHR ''/'' # s"
  have ne: "?p \<noteq> SDCARD_PATH" by simp
  show ?case
  proof (cases "CHR ''/'' \<in> set s")
    case False
    then have i: "strrchr ?p (CHR ''/'') = Some (length SDCARD_PATH)" using strrchr_append [of "CHR ''/''" s SDCARD_PATH] by simp
    then have "last_paths ?p = Some [?p]" using ne by (subst last_paths.simps) simp
    then show ?thesis using i by (simp add: dirname_def)
  next
    case True
    then obtain j where j: "strrchr s (CHR ''/'') = Some j" using strrchr_None [of s "CHR ''/''"] by fastforce
    then have "s = take j s @ CHR ''/'' # drop (Suc j) s" "CHR ''/'' \<notin> set (drop (Suc j) s)"
      using strrchr_Some [OF j] id_take_nth_drop [of j s] by auto
    then have "strrchr ?p (CHR ''/'') = Some (length (SDCARD_PATH @ CHR ''/'' # take j s))"
      using strrchr_append [of "CHR ''/''" "drop (Suc j) s" "SDCARD_PATH @ CHR ''/'' # take j s"] by simp
    then have i: "strrchr ?p (CHR ''/'') = Some (Suc (length SDCARD_PATH + j))" using strrchr_less [OF j] by simp
    obtain ps where ps: "last_paths (SDCARD_PATH @ CHR ''/'' # take j s) = Some ps" "ps \<noteq> []"
      "dirname (last ps) = SDCARD_PATH"
      using less [of "take j s"] strrchr_less [OF j] by auto
    have "last_paths ?p = Some (?p # ps)" using i ne ps(1) by (subst last_paths.simps) simp
    then show ?thesis using ps by simp
  qed
qed

subsection \<open>Commands\<close>

lemma escapeSingleQuotes_length: "0 < n \<Longrightarrow> length (escapeSingleQuotes n s) < n"
  using escape_loop_length [of 0 n s] by (simp add: escapeSingleQuotes_def)

lemma run_command_whole:
  "run_command emu sd = esc_quoted (MAX_PATH * 2) emu @ '' '' @ esc_quoted (MAX_PATH * 2) sd"
proof -
  have "length (escapeSingleQuotes (MAX_PATH * 2) s) < 1024" for s
    using escapeSingleQuotes_length [of "MAX_PATH * 2" s] by (simp add: MAX_PATH_def)
  from this [of emu] this [of sd] show ?thesis
    unfolding run_command_def esc_quoted_def by (subst snprintf_buf_fits) (simp_all add: MAX_PATH_def)
qed

lemma addRecent_keeps:
  "q \<noteq> RECENT_PATH \<Longrightarrow> fopen_r (snd (addRecent plat p al rs fs)) q = fopen_r fs q"
  "fopen_w fs q \<Longrightarrow> fopen_w (snd (addRecent plat p al rs fs)) q"
proof -
  have put: "saveRecents rs fs = putFile RECENT_PATH (concat (map (\<lambda>r. recent_line r @ [char_newline]) rs)) fs" for rs
    by (simp add: saveRecents_def putFile_def)
  show "q \<noteq> RECENT_PATH \<Longrightarrow> fopen_r (snd (addRecent plat p al rs fs)) q = fopen_r fs q"
    by (simp add: addRecent_def Let_def put fopen_r_putFile_other)
  show "fopen_w fs q \<Longrightarrow> fopen_w (snd (addRecent plat p al rs fs)) q"
    by (simp add: addRecent_def Let_def put fopen_w_putFile)
qed

lemma paths_apart:
  "NEXT_PATH \<noteq> RECENT_PATH" "RESUME_SLOT_PATH \<noteq> RECENT_PATH" "NEXT_PATH \<noteq> RESUME_SLOT_PATH" "NEXT_PATH \<noteq> LAST_PATH"
  "RESUME_SLOT_PATH \<noteq> LAST_PATH"
  by code_simp+

lemma fopen_w_step:
  "fopen_w (lfs st) q \<Longrightarrow> fopen_w (lfs (saveLast p st)) q"
  "fopen_w (lfs st) q \<Longrightarrow> fopen_w (lfs (add_recent plat p al st)) q"
  by (simp_all add: saveLast_def add_recent_def Let_def split_beta fopen_w_putFile addRecent_keeps)

lemma addRecent_first: "fst (addRecent plat p al rs fs) \<noteq> []
    \<and> rpath (hd (fst (addRecent plat p al rs fs))) = drop (length SDCARD_PATH) p"
proof (cases "drop (length SDCARD_PATH) p \<in> rpath ` set rs")
  case True
  then obtain xs y ys where "rpath y = drop (length SDCARD_PATH) p" "fst (addRecent plat p al rs fs) = y # xs @ ys"
    by (rule addRecent_known)
  then show ?thesis by simp
next
  case False
  then show ?thesis by (simp add: addRecent_new)
qed

text \<open>The state in which \<open>openRom\<close> looks for the emulator: the resume slot has been written.\<close>

definition rom_started :: "launcher \<Rightarrow> launcher" where
  "rom_started st =
     (if should_resume st
      then st\<lparr>lfs := putFile RESUME_SLOT_PATH (getFile (lfs st) (slot_path st) [] 16) (lfs st), should_resume := False\<rparr>
      else st\<lparr>lfs := putInt RESUME_SLOT_PATH 8 (lfs st)\<rparr>)"

definition rom_recent :: "string \<Rightarrow> launcher \<Rightarrow> string" where
  "rom_recent p st = (if fst (hasM3u (lfs st) p) then snd (hasM3u (lfs st) p) else p)"

text \<open>The game a choice stands for, its first disc for a list of discs; and the disc that runs, which on resuming is the one the
  state was saved with.\<close>

definition chosen_rom :: "string \<Rightarrow> launcher \<Rightarrow> string" where
  "chosen_rom p st =
     (if fst (hasM3u (lfs st) p) \<and> suffixMatch ''.m3u'' p then snd (getFirstDisc (lfs st) (snd (hasM3u (lfs st) p)) p) else p)"

definition rom_to_run :: "string \<Rightarrow> launcher \<Rightarrow> string" where
  "rom_to_run p st =
     (if should_resume st \<and> fst (hasM3u (lfs st) p)
      then resume_disc (lfs (rom_started st)) (getEmuName (chosen_rom p st)) (snd (hasM3u (lfs st) p))
             (getFile (lfs st) (slot_path st) [] 16) (chosen_rom p st)
      else chosen_rom p st)"

lemma emulator_card: "take 4 (getEmuPath fs plat emu) = ''/mnt''"
  by (simp add: getEmuPath_def paks_path_def SDCARD_PATH_def Let_def)

lemma rom_started_exists: "take 4 q = ''/mnt'' \<Longrightarrow> exists (lfs (rom_started st)) q = exists (lfs st) q"
  by (auto simp: rom_started_def putInt_def exists_putFile RESUME_SLOT_PATH_def)

lemma rom_started_emulator:
  "getEmuPath (lfs (rom_started st)) plat emu = getEmuPath (lfs st) plat emu"
  "exists (lfs (rom_started st)) (getEmuPath (lfs st) plat emu) = exists (lfs st) (getEmuPath (lfs st) plat emu)"
  using rom_started_exists [OF emulator_card] by (simp_all add: getEmuPath_def SDCARD_PATH_def rom_started_exists Let_def)

lemma openRom_eq:
  "openRom plat p l st =
     (let emu = getEmuPath (lfs st) plat (getEmuName (chosen_rom p st)) in
      if \<not> exists (lfs st) emu then rom_started st
      else queueNext (run_command emu (rom_to_run p st))
        (saveLast (case l of None \<Rightarrow> rom_to_run p st | Some l \<Rightarrow> l)
           (add_recent plat (rom_recent p st) (recent_alias st) (rom_started st))))"
proof -
  let ?e = "getEmuName (chosen_rom p st)"
  have "openRom plat p l st =
     (let emu = getEmuPath (lfs (rom_started st)) plat ?e in
      if \<not> exists (lfs (rom_started st)) emu then rom_started st
      else queueNext (run_command emu (rom_to_run p st))
        (saveLast (case l of None \<Rightarrow> rom_to_run p st | Some l \<Rightarrow> l)
           (add_recent plat (rom_recent p st) (recent_alias st) (rom_started st))))"
    unfolding openRom_def chosen_rom_def rom_to_run_def rom_started_def rom_recent_def
    by (cases "should_resume st"; cases l) (simp_all add: Let_def split_beta)
  then show ?thesis by (simp add: rom_started_emulator)
qed

lemma rom_started_keeps:
  "stack (rom_started st) = stack st" "recents (rom_started st) = recents st" "quit (rom_started st) = quit st"
  "\<not> should_resume (rom_started st)"
  "fopen_r (lfs (rom_started st)) NEXT_PATH = fopen_r (lfs st) NEXT_PATH"
  "fopen_w (lfs st) q \<Longrightarrow> fopen_w (lfs (rom_started st)) q"
  "fopen_w (lfs st) RESUME_SLOT_PATH \<Longrightarrow>
     fopen_r (lfs (rom_started st)) RESUME_SLOT_PATH = Some (if should_resume st then getFile (lfs st) (slot_path st) [] 16 else ''8'')"
proof -
  have "dec_int 8 = ''8''" by code_simp
  then show "fopen_w (lfs st) RESUME_SLOT_PATH \<Longrightarrow>
     fopen_r (lfs (rom_started st)) RESUME_SLOT_PATH = Some (if should_resume st then getFile (lfs st) (slot_path st) [] 16 else ''8'')"
    by (simp add: rom_started_def putInt_def fopen_r_putFile snprintf_buf_fits)
qed (simp_all add: rom_started_def putInt_def fopen_r_putFile_other fopen_w_putFile paths_apart)

subsection \<open>Properties\<close>

text \<open>C2: browsing is memory safe and the display is right: from any good state, after any number of
  cursor moves (including page and letter jumps), folders opened and folders left, in every open
  directory that is not empty the selected entry exists, it lies in the visible window, the window
  lies in the list and is as large as the screen allows; this includes the position restored when a
  folder is opened again.\<close>

theorem browse_window_safe:
  assumes "(browse_step plat R)\<^sup>*\<^sup>* st st'" and "0 < R" and "browse_inv plat R st"
  shows "stack st' \<noteq> [] \<and> (\<forall>d \<in> set (stack st'). entries d \<noteq> [] \<longrightarrow>
    0 \<le> start d \<and> start d \<le> selected d \<and> selected d < end_row d \<and> end_row d \<le> int (length (entries d))
    \<and> end_row d - start d = min (int (length (entries d))) R)"
  using browse_reachable_inv [OF assms] by (auto simp: browse_inv_def dir_ok_def win_ok_def dir_cursor_def)

definition demo_dir :: Directory where
  "demo_dir = \<lparr>dpath = ''/mnt/sdcard'', dname = ''sdcard'',
     entries = [Entry_new ''rg35xx'' ''/mnt/sdcard/Tools'' ENTRY_ROM, Entry_new ''rg35xx'' ''/mnt/sdcard/Roms'' ENTRY_ROM],
     alphas = IntArray_new, selected = 0, start = 0, end_row = 2\<rparr>"

definition demo_launcher :: launcher where
  "demo_launcher = \<lparr>lfs = [], recents = [], stack = [demo_dir], quit = False, can_resume = False, should_resume = False,
     simple_mode = False, slot_path = [], restore_depth = -1, restore_relative = -1, restore_selected = 0,
     restore_start = 0, restore_end = 0, recent_alias = None\<rparr>"

lemma demo_inv: "browse_inv ''rg35xx'' 6 demo_launcher"
  by (simp add: browse_inv_def demo_launcher_def demo_dir_def dir_ok_def alpha_ok_def IntArray_new_ok win_ok_def
      dir_cursor_def restore_ok_def)

definition demo_down_pad :: PAD_Context where
  "demo_down_pad = \<lparr>is_pressed = 2, just_pressed = 2, just_released = 0, just_repeated = 2, repeat_at = replicate 25 0,
     laxis = \<lparr>ax_x = 0, ax_y = 0\<rparr>, raxis = \<lparr>ax_x = 0, ax_y = 0\<rparr>\<rparr>"

lemma demo_move: "move_cursor 6 demo_down_pad 0 demo_dir = Some \<lparr>csel = 1, cstart = 0, cend = 2\<rparr>"
  by (simp add: move_cursor_def key_alpha_def key_updown_def key_leftright_def demo_dir_def demo_down_pad_def PAD_justRepeated_def
      PAD_justPressed_def BTN_UP_def BTN_DOWN_def BTN_LEFT_def BTN_RIGHT_def btn_mask_def Let_def)

theorem browse_window_safe_witness:
  "\<exists>st'. (browse_step ''rg35xx'' 6)\<^sup>*\<^sup>* demo_launcher st' \<and> selected (top st') = 1 \<and> stack st' \<noteq> []"
proof -
  let ?c = "\<lparr>csel = 1, cstart = 0, cend = 2\<rparr>"
  let ?st = "set_top (with_cursor ?c (top demo_launcher)) demo_launcher"
  have top: "top demo_launcher = demo_dir" by (simp add: demo_launcher_def top_def)
  have "browse_step ''rg35xx'' 6 demo_launcher ?st"
    by (rule step_move [of _ _ demo_down_pad 0]) (simp_all add: demo_move top, simp add: demo_launcher_def)
  then have step: "(browse_step ''rg35xx'' 6)\<^sup>*\<^sup>* demo_launcher ?st" by blast
  have "stack ?st \<noteq> []" using browse_window_safe [OF step _ demo_inv] by simp
  moreover have "selected (top ?st) = 1" by (simp add: set_top_def top_def)
  ultimately show ?thesis using step by blast
qed

text \<open>C4: opening a game either starts it or changes nothing that matters. The emulator is the one of the chosen game (its
  first disc for a list of discs). If it is not installed, the launcher goes on with the same directories, recents and queued command. If it is, the
  launcher quits; the queued command is for the shell exactly two words, prefixes of the path of that emulator and
  of the game to run (the whole paths when their quoted forms fit 1023 bytes), whatever characters they hold; the
  game is first in the recents and is the position to come back to, unless the recents or the folder it stands for are. Either way the
  slot left for the emulator is the resume slot chosen, or 8 for a fresh start, and resuming is used up.\<close>

theorem openRom_launches_or_not:
  assumes "fopen_w (lfs st) NEXT_PATH" and "fopen_w (lfs st) RESUME_SLOT_PATH" and "fopen_w (lfs st) LAST_PATH" and "\<not> quit st"
  shows "let st' = openRom plat p l st; emu = getEmuPath (lfs st) plat (getEmuName (chosen_rom p st)); sd = rom_to_run p st in
    stack st' = stack st \<and> \<not> should_resume st'
    \<and> fopen_r (lfs st') RESUME_SLOT_PATH = Some (if should_resume st then getFile (lfs st) (slot_path st) [] 16 else ''8'')
    \<and> (if \<not> exists (lfs st) emu then \<not> quit st' \<and> recents st' = recents st \<and> fopen_r (lfs st') NEXT_PATH = fopen_r (lfs st) NEXT_PATH
       else quit st' \<and> rpath (hd (recents st')) = drop (length SDCARD_PATH) (rom_recent p st)
         \<and> fopen_r (lfs st') LAST_PATH
             = Some (if dpath (top st) = FAUX_RECENT_PATH then FAUX_RECENT_PATH else case l of None \<Rightarrow> sd | Some l \<Rightarrow> l)
         \<and> fopen_r (lfs st') NEXT_PATH = Some (run_command emu sd)
         \<and> (\<exists>j k. sh_words (run_command emu sd) = Some [take j emu, take k sd]
              \<and> (length (quote_all emu) < 1024 \<longrightarrow> take j emu = emu) \<and> (length (quote_all sd) < 1024 \<longrightarrow> take k sd = sd)))"
proof (cases "exists (lfs st) (getEmuPath (lfs st) plat (getEmuName (chosen_rom p st)))")
  case False
  then show ?thesis using assms rom_started_keeps by (simp add: openRom_eq Let_def)
next
  case True
  let ?emu = "getEmuPath (lfs st) plat (getEmuName (chosen_rom p st))" and ?sd = "rom_to_run p st"
  let ?a = "add_recent plat (rom_recent p st) (recent_alias st) (rom_started st)"
  let ?l = "case l of None \<Rightarrow> ?sd | Some l \<Rightarrow> l"
  have o: "openRom plat p l st = queueNext (run_command ?emu ?sd) (saveLast ?l ?a)" using True by (simp add: openRom_eq Let_def)
  have a: "fopen_w (lfs ?a) q" if "fopen_w (lfs st) q" for q using that rom_started_keeps(6) by (intro fopen_w_step) simp
  have keeps: "stack ?a = stack st" "\<not> should_resume ?a" "q \<noteq> RECENT_PATH \<Longrightarrow> fopen_r (lfs ?a) q = fopen_r (lfs (rom_started st)) q"
    "rpath (hd (recents ?a)) = drop (length SDCARD_PATH) (rom_recent p st)" for q
    using addRecent_first by (simp_all add: add_recent_def Let_def split_beta rom_started_keeps addRecent_keeps)
  obtain j k where words: "sh_words (run_command ?emu ?sd) = Some [take j ?emu, take k ?sd]"
    "length (quote_all ?emu) < 1024 \<longrightarrow> take j ?emu = ?emu" "length (quote_all ?sd) < 1024 \<longrightarrow> take k ?sd = ?sd"
    using esc.two_words [of "MAX_PATH * 2" ?emu ?sd] by (auto simp: run_command_whole MAX_PATH_def)
  note w = a [OF assms(1)] a [OF assms(3)]
  have "fopen_r (lfs (openRom plat p l st)) NEXT_PATH = Some (run_command ?emu ?sd)"
    using w by (simp add: o queueNext_def saveLast_def fopen_r_putFile fopen_w_putFile)
  moreover have "fopen_r (lfs (openRom plat p l st)) LAST_PATH = Some (if dpath (top st) = FAUX_RECENT_PATH then FAUX_RECENT_PATH else ?l)"
    using w paths_apart(4) keeps(1)
    by (simp add: o queueNext_def saveLast_def fopen_r_putFile fopen_r_putFile_other exact_match_eq top_def Let_def)
  moreover have "fopen_r (lfs (openRom plat p l st)) RESUME_SLOT_PATH = Some (if should_resume st then getFile (lfs st) (slot_path st) [] 16 else ''8'')"
    using paths_apart keeps(3) [OF paths_apart(2)] rom_started_keeps(7) [OF assms(2)]
    by (simp add: o queueNext_def saveLast_def fopen_r_putFile_other)
  moreover have "stack (openRom plat p l st) = stack st" "quit (openRom plat p l st)" "\<not> should_resume (openRom plat p l st)"
    "rpath (hd (recents (openRom plat p l st))) = drop (length SDCARD_PATH) (rom_recent p st)"
    using keeps by (simp_all add: o queueNext_def saveLast_def)
  ultimately show ?thesis using True words by (simp add: Let_def) blast
qed

definition demo_shop :: launcher where
  "demo_shop = demo_launcher\<lparr>lfs := [(''/tmp'', Dir), (paks_path ''rg35xx'' @ ''/Emus/GB.pak/launch.sh'', File ''#!'')]\<rparr>"

text \<open>A Game Boy game with a quote in its name starts; the emulator of a Nintendo game is missing.\<close>

theorem openRom_launches_or_not_witness:
  "let st' = openRom ''rg35xx'' (ROMS_PATH @ ''/GB/a'' @ [char_quote] @ ''b.gb'') None demo_shop in
     quit st' \<and> fopen_r (lfs st') NEXT_PATH = Some (run_command (paks_path ''rg35xx'' @ ''/Emus/GB.pak/launch.sh'') (ROMS_PATH @ ''/GB/a'' @ [char_quote] @ ''b.gb''))
     \<and> \<not> quit (openRom ''rg35xx'' (ROMS_PATH @ ''/FC/a.nes'') None demo_shop)"
proof -
  let ?p = "ROMS_PATH @ ''/GB/a'' @ [char_quote] @ ''b.gb''"
  have w: "fopen_w (lfs demo_shop) NEXT_PATH" "fopen_w (lfs demo_shop) RESUME_SLOT_PATH" "fopen_w (lfs demo_shop) LAST_PATH" "\<not> quit demo_shop"
    by code_simp+
  have gb: "getEmuPath (lfs demo_shop) ''rg35xx'' (getEmuName (chosen_rom ?p demo_shop)) = paks_path ''rg35xx'' @ ''/Emus/GB.pak/launch.sh''"
    "exists (lfs demo_shop) (paks_path ''rg35xx'' @ ''/Emus/GB.pak/launch.sh'')" "rom_to_run ?p demo_shop = ?p" by code_simp+
  have 1: "let st' = openRom ''rg35xx'' ?p None demo_shop in
     quit st' \<and> fopen_r (lfs st') NEXT_PATH = Some (run_command (paks_path ''rg35xx'' @ ''/Emus/GB.pak/launch.sh'') ?p)"
    using openRom_launches_or_not [OF w, of "''rg35xx''" ?p None] gb by (simp add: Let_def)
  have "\<not> exists (lfs demo_shop) (getEmuPath (lfs demo_shop) ''rg35xx'' (getEmuName (chosen_rom (ROMS_PATH @ ''/FC/a.nes'') demo_shop)))" by code_simp
  then have "\<not> quit (openRom ''rg35xx'' (ROMS_PATH @ ''/FC/a.nes'') None demo_shop)"
    using openRom_launches_or_not [OF w, of "''rg35xx''" "ROMS_PATH @ ''/FC/a.nes''" None] by (simp add: Let_def)
  with 1 show ?thesis by (simp add: Let_def)
qed

text \<open>Leaving a folder and opening it again restores the cursor and the window exactly, and the
  folder shows the same entries.\<close>

theorem close_open_restores:
  assumes "browse_inv plat R st" and "stack st = ds @ [a, b]" and "p = path (selected_entry a)"
    and "p \<noteq> SDCARD_PATH" and "entries b \<noteq> []"
  shows "let st' = push_directory plat R p (closeDirectory st) in
    length (stack st') = length (stack st) \<and> entries (top st') = entries b
    \<and> selected (top st') = selected b \<and> start (top st') = start b \<and> end_row (top st') = end_row b"
proof -
  let ?c = "closeDirectory st"
  have c: "stack ?c = ds @ [a]" "top ?c = a" "restore_depth ?c = int (length (ds @ [a]))"
    "restore_relative ?c = selected a" "restore_selected ?c = selected b" "restore_start ?c = start b"
    "restore_end ?c = end_row b"
    by (simp_all add: closeDirectory_def Let_def assms(2) top_def butlast_append)
  have card: "same_card ?c st" by (simp add: same_card_def closeDirectory_def Let_def)
  have ch: "chained plat st a b" using assms(1,2) by (auto simp: browse_inv_def successively_append_iff)
  have "win_ok R (int (length (entries b))) (dir_cursor b)"
    using assms(1,2,5) by (simp add: browse_inv_def dir_ok_def)
  then have "end_row b \<noteq> 0" by (auto simp: win_ok_def dir_cursor_def)
  moreover have "restored ?c" using ch c by (simp add: restored_def chained_def)
  moreover have "listing plat ?c p = entries b" using ch assms(3) listing_same [OF card] by (simp add: chained_def)
  ultimately show ?thesis
    using push_directory_top [OF assms(4) refl, of plat R ?c] c assms(2) by (simp add: Let_def)
qed

definition demo_parent :: launcher where
  "demo_parent = demo_launcher\<lparr>lfs := [(''/d'', Dir), (''/d/x.gb'', File [])],
     stack := [demo_dir\<lparr>entries := [Entry_new ''rg35xx'' ''/d'' ENTRY_DIR], end_row := 1\<rparr>]\<rparr>"

lemma demo_parent_inv: "browse_inv ''rg35xx'' 6 demo_parent"
  by (simp add: browse_inv_def demo_parent_def demo_launcher_def demo_dir_def dir_ok_def alpha_ok_def IntArray_new_ok
      win_ok_def dir_cursor_def restore_ok_def)

lemma demo_listing: "listing ''rg35xx'' demo_parent ''/d'' \<noteq> []"
proof -
  have "length (listing ''rg35xx'' demo_parent ''/d'') = length (visible (opendir (lfs demo_parent) ''/d''))"
    by (rule listing_folder) code_simp+
  also have "\<dots> = 1" by code_simp
  finally show ?thesis by auto
qed

theorem close_open_restores_witness:
  "\<exists>st b. browse_inv ''rg35xx'' 6 st \<and> stack st \<noteq> [] \<and> entries b \<noteq> [] \<and> b = top st
     \<and> selected (top (push_directory ''rg35xx'' 6 ''/d'' (closeDirectory st))) = selected b"
proof -
  let ?st = "push_directory ''rg35xx'' 6 ''/d'' demo_parent"
  have sd: "''/d'' \<noteq> SDCARD_PATH" by (simp add: SDCARD_PATH_def)
  have sel: "path (selected_entry (top demo_parent)) = ''/d''" "entries (top demo_parent) \<noteq> []"
    by (simp_all add: demo_parent_def demo_launcher_def demo_dir_def top_def selected_entry_def)
  have inv: "browse_inv ''rg35xx'' 6 ?st"
    using sd sel demo_parent_inv by (intro push_inv) simp_all
  have "stack demo_parent = [top demo_parent]" by (simp add: demo_parent_def top_def)
  then have s: "stack ?st = [] @ [top demo_parent, top ?st]"
    using push_directory_top(1) [OF sd refl, of "''rg35xx''" 6 demo_parent] by (metis append_Cons append_Nil)
  have "entries (top ?st) \<noteq> []"
    using push_directory_top(2) [OF sd refl, of "''rg35xx''" 6 demo_parent] demo_listing by metis
  from close_open_restores [OF inv s sel(1) [symmetric] sd this] inv this s show ?thesis
    by (intro exI [of _ ?st] exI [of _ "top ?st"]) (simp add: Let_def)
qed

text \<open>Every path below the card's root that was saved as the last position is taken apart by
  \<open>loadLast\<close> in finitely many steps: the list of its parents starts with the path itself and ends with
  a child of the root.\<close>

theorem last_paths_terminates:
  "\<exists>ps. last_paths (SDCARD_PATH @ ''/'' @ s) = Some ps \<and> ps \<noteq> [] \<and> hd ps = SDCARD_PATH @ ''/'' @ s
        \<and> dirname (last ps) = SDCARD_PATH"
  using last_paths_below [of s] by simp

text \<open>Deleting a collection keeps the position remembered from the folder closed last: when the
  collection that takes its place is opened, its cursor is that stale position, whatever the number
  of its entries, which can put the cursor past the end of the list.\<close>

theorem delete_then_open_stale:
  assumes "Menu_deleteSelectedCollection plat R True True st = (True, st')"
    and "entries (top st) \<noteq> []" and "is_collection_entry (selected_entry (top st))"
    and "dpath (top st) \<noteq> SDCARD_PATH" and "stack st \<noteq> []"
    and "entries (top st') \<noteq> []" and "selected (top st) < int (length (entries (top st')))"
    and "length (stack st') = length (stack st)"
    and "restore_depth st = int (length (stack st))" and "selected (top st) = restore_relative st"
    and "p \<noteq> SDCARD_PATH"
  shows "selected (top (push_directory plat R p st')) = restore_selected st
         \<and> entries (top (push_directory plat R p st')) = listing plat st' p"
proof -
  let ?fs = "unlink (path (selected_entry (top st))) (lfs st)"
  let ?d = "fst (Directory_new plat (simple_mode st) (recents st) ?fs (dpath (top st)) (selected (top st)))"
  have new: "Directory_new plat (simple_mode st) (recents st) ?fs (dpath (top st)) (selected (top st)) = (?d, recents st, ?fs)"
    using Directory_new_keeps [OF assms(4)] by (metis prod.collapse)
  have top: "top (st\<lparr>lfs := ?fs\<rparr>) = top st" by (simp add: top_def)
  have ne: "entries ?d \<noteq> []"
  proof
    assume e: "entries ?d = []"
    have "length (stack st') < length (stack st) \<or> entries (top st') = []"
      using assms(1,2,3,5) e new top
      by (auto simp: Menu_deleteSelectedCollection_def Let_def split_beta set_top_def closeDirectory_def top_def split: if_splits)
    then show False using assms(6,8) by simp
  qed
  have sel: "selected ?d = selected (top st)" by (rule Directory_new_fields)
  have st': "entries (top st') = entries ?d" "selected (top st') = selected (top st)"
    "restore_depth st' = restore_depth st" "restore_relative st' = restore_relative st"
    "restore_selected st' = restore_selected st"
    using assms(1,2,3,7) ne new top sel
    by (auto simp: Menu_deleteSelectedCollection_def Let_def split_beta set_top_def top_def split: if_splits)
  then have "restored st'" using assms(5,6,8,9,10) by (auto simp: restored_def)
  then show ?thesis using push_directory_top [OF assms(11) refl, of plat R st'] st' by simp
qed

definition demo_collections :: launcher where
  "demo_collections = demo_launcher\<lparr>
     lfs := [(''/mnt/sdcard/Collections'', Dir), (''/mnt/sdcard/Collections/A.txt'', File []),
             (''/mnt/sdcard/Collections/B.txt'', File [])],
     stack := [demo_dir, demo_dir\<lparr>dpath := ''/mnt/sdcard/Collections'',
       entries := [Entry_new ''rg35xx'' ''/mnt/sdcard/Collections/A.txt'' ENTRY_DIR,
                   Entry_new ''rg35xx'' ''/mnt/sdcard/Collections/B.txt'' ENTRY_DIR]\<rparr>],
     restore_depth := 2, restore_relative := 0, restore_selected := 5\<rparr>"

definition demo_deleted :: launcher where
  "demo_deleted = snd (Menu_deleteSelectedCollection ''rg35xx'' 6 True True demo_collections)"

lemma demo_delete:
  "Menu_deleteSelectedCollection ''rg35xx'' 6 True True demo_collections = (True, demo_deleted)
   \<and> length (stack demo_deleted) = 2 \<and> length (entries (top demo_deleted)) = 1
   \<and> lfs demo_deleted = [(''/mnt/sdcard/Collections'', Dir), (''/mnt/sdcard/Collections/B.txt'', File [])]"
proof -
  let ?c = "''/mnt/sdcard/Collections''"
  define fs where "fs = unlink (path (selected_entry (top demo_collections))) (lfs demo_collections)"
  define d where "d = fst (Directory_new ''rg35xx'' False [] fs ?c 0)"
  let ?st = "demo_collections\<lparr>lfs := fs\<rparr>"
  have fs: "fs = [(?c, Dir), (''/mnt/sdcard/Collections/B.txt'', File [])]" unfolding fs_def by code_simp
  have c: "is_collection_entry (selected_entry (top demo_collections))" "dpath (top demo_collections) = ?c"
    "selected (top demo_collections) = 0" "simple_mode demo_collections = False" "recents demo_collections = []"
    "entries (top demo_collections) \<noteq> []" "length (stack demo_collections) = 2" "?c \<noteq> SDCARD_PATH"
    by code_simp+
  have "length (listing ''rg35xx'' ?st ?c) = length (visible (opendir (lfs ?st) ?c))"
    by (rule listing_folder) (simp_all only: fs launcher.simps, code_simp+)
  also have "\<dots> = 1" unfolding launcher.simps fs by code_simp
  finally have one: "length (entries d) = 1" by (simp add: listing_def c d_def)
  have new: "Directory_new ''rg35xx'' False [] fs ?c 0 = (d, [], fs)"
    unfolding d_def using Directory_new_keeps [OF c(8)] by (metis prod.collapse)
  have top: "top ?st = top demo_collections" by (simp add: top_def)
  have "entries d \<noteq> []" "selected d = 0" using one unfolding d_def by (auto simp: Directory_new_fields)
  then have "Menu_deleteSelectedCollection ''rg35xx'' 6 True True demo_collections =
    (True, set_top (d\<lparr>selected := 0, start := 0, end_row := 1\<rparr>) (?st\<lparr>recents := []\<rparr>))"
    using one new c top by (simp add: Menu_deleteSelectedCollection_def Let_def fs_def [symmetric] set_top_def)
  then show ?thesis
    using one c(7) fs by (simp add: demo_deleted_def set_top_def top_def)
qed

theorem delete_then_open_stale_witness:
  "selected (top (push_directory ''rg35xx'' 6 ''/mnt/sdcard/Collections/B.txt'' demo_deleted)) = 5
   \<and> entries (top (push_directory ''rg35xx'' 6 ''/mnt/sdcard/Collections/B.txt'' demo_deleted)) = []"
proof -
  have 3: "entries (top demo_collections) \<noteq> []" "is_collection_entry (selected_entry (top demo_collections))"
    "dpath (top demo_collections) \<noteq> SDCARD_PATH" "stack demo_collections \<noteq> []"
    "restore_depth demo_collections = int (length (stack demo_collections))"
    "selected (top demo_collections) = restore_relative demo_collections"
    "''/mnt/sdcard/Collections/B.txt'' \<noteq> SDCARD_PATH" "restore_selected demo_collections = 5"
    "length (stack demo_collections) = 2" "selected (top demo_collections) = 0"
    by code_simp+
  have "listing ''rg35xx'' demo_deleted ''/mnt/sdcard/Collections/B.txt'' = []"
    by (rule listing_empty_collection) (simp_all only: demo_delete, code_simp+)
  moreover have "entries (top demo_deleted) \<noteq> []" using demo_delete by auto
  ultimately show ?thesis
    using delete_then_open_stale [of "''rg35xx''" 6 demo_collections demo_deleted "''/mnt/sdcard/Collections/B.txt''"]
      demo_delete 3 by simp
qed

end
