(* ===== verification/Text.thy ===== *)
theory Text
  imports Utils
begin

text \<open>
  Fitting text into a width (\<open>common/gfx.c\<close>: \<open>GFX_truncateText\<close>, \<open>GFX_wrapText\<close>, \<open>GFX_sizeText\<close>). The width a font gives a
  text is an argument. Pointers into the text are indices; writing before the start of a buffer or past its end
  has no result.
\<close>

definition char_space :: char where "char_space = CHR '' ''"

definition dots :: string where "dots = ''...''"

subsection \<open>Cutting a text\<close>

function truncate_loop :: "(string \<Rightarrow> int) \<Rightarrow> int \<Rightarrow> int \<Rightarrow> string \<Rightarrow> (string \<times> int) option" where
  "truncate_loop width max_width padding out =
     (let text_width = width out + padding in
      if text_width > max_width then
        (if length out < 4 then None else truncate_loop width max_width padding (take (length out - 4) out @ dots))
      else Some (out, text_width))"
  by pat_completeness auto

termination
  by (relation "measure (\<lambda>(_, _, _, out). length out)") (auto simp: dots_def)

definition GFX_truncateText :: "(string \<Rightarrow> int) \<Rightarrow> string \<Rightarrow> int \<Rightarrow> int \<Rightarrow> (string \<times> int) option" where
  "GFX_truncateText width in_name max_width padding = truncate_loop width max_width padding in_name"

subsection \<open>Breaking a text into lines\<close>

function wrap_loop :: "(string \<Rightarrow> int) \<Rightarrow> int \<Rightarrow> nat \<Rightarrow> string \<Rightarrow> nat \<Rightarrow> nat option \<Rightarrow> nat \<Rightarrow> nat \<Rightarrow> int \<Rightarrow> string \<times> nat \<times> int" where
  \<comment> \<open>the text, and the variables \<open>line\<close>, \<open>prev\<close>, \<open>tmp\<close>, \<open>lines\<close> and \<open>max_line_width\<close>\<close>
  "wrap_loop width max_width max_lines s line prev tmp lines widest =
     (if max_lines \<noteq> 0 \<and> lines \<ge> max_lines then (s, line, widest)
      else case strchr (drop tmp s) char_space of
        None \<Rightarrow>
          (case prev of
             None \<Rightarrow> (s, line, widest)
           | Some p \<Rightarrow>
               (let line_width = width (drop line s) in
                if line_width \<ge> max_width then (s[p := char_newline], p + 1, max widest line_width) else (s, line, widest)))
      | Some k \<Rightarrow>
          (let tmp = tmp + k; line_width = width (take (tmp - line) (drop line s)) in
           if line_width \<ge> max_width then
             (case prev of
                Some p \<Rightarrow> wrap_loop width max_width max_lines (s[p := char_newline]) (p + 1) (Some (p + 1)) (tmp + 1) (lines + 1) (max widest line_width)
              | None \<Rightarrow> wrap_loop width max_width max_lines s line None (tmp + 1) lines (max widest line_width))
           else wrap_loop width max_width max_lines s line (Some tmp) (tmp + 1) lines widest))"
  by pat_completeness auto

termination
  by (relation "measure (\<lambda>(_, _, _, s, _, _, tmp, _, _). length s - tmp)") (auto dest!: strchr_less)

definition GFX_wrapText :: "(string \<Rightarrow> int) \<Rightarrow> string \<Rightarrow> int \<Rightarrow> nat \<Rightarrow> (string \<times> int) option" where
  "GFX_wrapText width str max_width max_lines =
     (let finish = (\<lambda>s line widest.
            if length (drop line s) \<ge> MAX_PATH then None
            else map_option (\<lambda>(out, line_width). (take line s @ out, max widest line_width)) (GFX_truncateText width (drop line s) max_width 0))
      in if width str \<le> max_width then (if length str \<ge> MAX_PATH then None else GFX_truncateText width str max_width 0)
         else (case wrap_loop width max_width max_lines str 0 None 0 1 0 of (s, line, widest) \<Rightarrow> finish s line widest))"

subsection \<open>Measuring a text\<close>

definition MAX_TEXT_LINES :: nat where "MAX_TEXT_LINES = 16"

fun text_lines :: "nat \<Rightarrow> string \<Rightarrow> string list" where
  \<comment> \<open>at most that many; the last keeps the line feeds after it\<close>
  "text_lines 0 s = [s]"
| "text_lines (Suc n) s = (case strchr s char_newline of Some i \<Rightarrow> take i s # text_lines n (drop (Suc i) s) | None \<Rightarrow> [s])"

definition GFX_sizeText :: "(string \<Rightarrow> int) \<Rightarrow> string \<Rightarrow> int \<Rightarrow> (int \<times> int) option" where
  "GFX_sizeText width str leading =
     (let ls = text_lines (MAX_TEXT_LINES - 1) str in
      if \<exists>l \<in> set ls. length l \<ge> 256 then None
      else Some (fold (\<lambda>l mw. if l \<noteq> [] \<and> width l > mw then width l else mw) ls 0, int (length ls) * leading))"

subsection \<open>Reference\<close>

fun join_with :: "char \<Rightarrow> string list \<Rightarrow> string" where
  "join_with c [] = []"
| "join_with c [w] = w"
| "join_with c (w # v # ws) = w @ c # join_with c (v # ws)"

abbreviation join :: "string list \<Rightarrow> string" where
  "join \<equiv> join_with char_space"

definition lines_text :: "string list list \<Rightarrow> string" where
  "lines_text ls = join_with char_newline (map join ls)"

fun greedy :: "(string \<Rightarrow> int) \<Rightarrow> int \<Rightarrow> nat option \<Rightarrow> string list \<Rightarrow> string list \<Rightarrow> string list list" where
  \<comment> \<open>as many words on each line as leave it narrower than the width; \<open>n\<close> more line breaks are allowed\<close>
  "greedy width m n cur [] = [cur]"
| "greedy width m n cur (w # ws) =
     (if n = Some 0 then [cur @ w # ws]
      else if width (join (cur @ [w])) < m then greedy width m n (cur @ [w]) ws
      else cur # greedy width m (map_option (\<lambda>k. k - 1) n) [w] ws)"

fun pairs_fit :: "(string \<Rightarrow> int) \<Rightarrow> int \<Rightarrow> string list \<Rightarrow> bool" where
  "pairs_fit width m (a # b # ws) \<longleftrightarrow> width (join [a, b]) < m \<and> pairs_fit width m (b # ws)"
| "pairs_fit width m ws \<longleftrightarrow> True"

subsection \<open>Facts\<close>

declare truncate_loop.simps [simp del] wrap_loop.simps [simp del]

lemma join_append: "xs \<noteq> [] \<Longrightarrow> ys \<noteq> [] \<Longrightarrow> join_with c (xs @ ys) = join_with c xs @ c # join_with c ys"
proof (induction xs rule: induct_list012)
  case (2 x)
  then show ?case by (cases ys) simp_all
next
  case (3 x y zs)
  then show ?case by simp
qed simp

lemma join_Cons: "ws \<noteq> [] \<Longrightarrow> join_with c (w # ws) = w @ c # join_with c ws"
  using join_append [of "[w]" ws c] by simp

lemma greedy_concat: "concat (greedy width m n cur ws) = cur @ ws"
  by (induction width m n cur ws rule: greedy.induct) simp_all

lemma greedy_not_Nil [simp]: "greedy width m n cur ws \<noteq> []"
  by (induction width m n cur ws rule: greedy.induct) simp_all

lemma greedy_count: "n = Some k \<Longrightarrow> length (greedy width m n cur ws) \<le> k + 1"
  by (induction width m n cur ws arbitrary: k rule: greedy.induct) (auto simp: Suc_le_eq)

lemma greedy_narrow: "width (join cur) < m \<or> length cur = 1 \<Longrightarrow> l \<in> set (butlast (greedy width m n cur ws)) \<Longrightarrow> width (join l) < m \<or> length l = 1"
  by (induction width m n cur ws rule: greedy.induct) (auto split: if_splits)

lemma truncate_result:
  assumes "width dots + padding \<le> max_width" and "4 \<le> length s \<or> width s + padding \<le> max_width"
  shows "\<exists>out. GFX_truncateText width s max_width padding = Some (out, width out + padding) \<and> width out + padding \<le> max_width
    \<and> (out = s \<and> width s + padding \<le> max_width
       \<or> (\<exists>k. k + 4 \<le> length s \<and> out = take k s @ dots \<and> (\<forall>j. k < j \<and> j + 4 \<le> length s \<longrightarrow> width (take j s @ dots) + padding > max_width)))"
proof -
  let ?goal = "\<lambda>out. width out + padding \<le> max_width
    \<and> (\<exists>k. k + 4 \<le> length s \<and> out = take k s @ dots \<and> (\<forall>j. k < j \<and> j + 4 \<le> length s \<longrightarrow> width (take j s @ dots) + padding > max_width))"
  have loop: "\<exists>out. truncate_loop width max_width padding (take k s @ dots) = Some (out, width out + padding) \<and> ?goal out"
    if "k + 4 \<le> length s" "\<forall>j. k < j \<and> j + 4 \<le> length s \<longrightarrow> width (take j s @ dots) + padding > max_width" for k
    using that
  proof (induction k)
    case 0
    then have "?goal dots" using assms(1) by (intro conjI exI [of _ 0]) simp_all
    then show ?case using assms(1) by (subst truncate_loop.simps) simp
  next
    case (Suc k)
    show ?case
    proof (cases "width (take (Suc k) s @ dots) + padding > max_width")
      case True
      have "truncate_loop width max_width padding (take (Suc k) s @ dots) = truncate_loop width max_width padding (take k s @ dots)"
        using True Suc.prems(1) by (subst truncate_loop.simps) (simp add: dots_def min_def)
      moreover have "\<forall>j. k < j \<and> j + 4 \<le> length s \<longrightarrow> width (take j s @ dots) + padding > max_width"
        using Suc.prems(2) True by (metis Suc_lessI)
      ultimately show ?thesis using Suc.IH Suc.prems(1) by simp
    next
      case False
      then have "?goal (take (Suc k) s @ dots)" using Suc.prems by (intro conjI exI [of _ "Suc k"]) simp_all
      then show ?thesis using False by (subst truncate_loop.simps) simp
    qed
  qed
  show ?thesis
  proof (cases "width s + padding \<le> max_width")
    case True
    then show ?thesis unfolding GFX_truncateText_def by (subst truncate_loop.simps) simp
  next
    case False
    then have len: "4 \<le> length s" using assms(2) by simp
    have "truncate_loop width max_width padding s = truncate_loop width max_width padding (take (length s - 4) s @ dots)"
      using False len by (subst truncate_loop.simps) simp
    moreover have "\<forall>j. length s - 4 < j \<and> j + 4 \<le> length s \<longrightarrow> width (take j s @ dots) + padding > max_width" by auto
    ultimately show ?thesis using loop [of "length s - 4"] len unfolding GFX_truncateText_def by auto
  qed
qed

lemma wrap_loop_greedy:
  assumes "cur \<noteq> []" "todo \<noteq> []" "\<forall>w \<in> set todo. char_space \<notin> set w" "pairs_fit width m todo"
    and "prev = Some (length pre + length (join cur)) \<or> prev = Some (length pre) \<and> width (join (cur @ [hd todo])) < m"
    and "n = (if max_lines = 0 then None else Some (max_lines - lines))"
    and "ls = greedy width m n cur todo"
  shows "\<exists>widest'. wrap_loop width m max_lines (pre @ join (cur @ todo)) (length pre) prev (length pre + length (join cur) + 1) lines widest
    = (pre @ lines_text ls, length pre + length (lines_text ls) - length (join (last ls)), widest')"
  using assms
proof (induction todo arbitrary: pre cur prev n lines widest ls)
  case Nil
  then show ?case by simp
next
  case (Cons w ws)
  let ?s = "pre @ join (cur @ w # ws)"
  let ?tmp = "length pre + length (join cur) + 1"
  have s: "?s = pre @ join cur @ char_space # join (w # ws)" using Cons.prems(1) by (simp add: join_append)
  then have rest: "drop ?tmp ?s = join (w # ws)" by simp
  have w: "char_space \<notin> set w" using Cons.prems(3) by simp
  show ?case
  proof (cases "n = Some 0")
    case True
    then have "max_lines \<noteq> 0 \<and> lines \<ge> max_lines" using Cons.prems(6) by (auto split: if_splits)
    then show ?thesis using True Cons.prems(7) by (subst wrap_loop.simps) (simp add: lines_text_def)
  next
    case False
    then have go: "\<not> (max_lines \<noteq> 0 \<and> lines \<ge> max_lines)" using Cons.prems(6) by auto
    show ?thesis
    proof (cases ws)
      case Nil
      obtain p where p: "prev = Some p" using Cons.prems(5) by auto
      have none: "strchr (drop ?tmp ?s) char_space = None" using w strchr_None rest Nil by simp
      show ?thesis
      proof (cases "width (join (cur @ [w])) < m")
        case True
        then show ?thesis using go none p Nil False Cons.prems(7) by (subst wrap_loop.simps) (simp add: lines_text_def)
      next
        case wide: False
        then have "p = length pre + length (join cur)" using Cons.prems(5) p by simp
        then have "?s[p := char_newline] = pre @ join cur @ char_newline # w" using s Nil by (simp add: list_update_append)
        then show ?thesis using go none p Nil False wide Cons.prems(7) \<open>p = _\<close> by (subst wrap_loop.simps) (simp add: lines_text_def)
      qed
    next
      case vs: (Cons v vs)
      have found: "strchr (drop ?tmp ?s) char_space = Some (length w)"
        using strchr_append [OF w, of "join (v # vs)"] rest vs by simp
      have whole: "?s = pre @ join (cur @ [w]) @ char_space # join (v # vs)"
        using s vs Cons.prems(1) by (simp add: join_append)
      have upto: "take (?tmp + length w - length pre) (drop (length pre) ?s) = join (cur @ [w])"
        using whole Cons.prems(1) by (simp add: join_append)
      have here: "?tmp + length w = length pre + length (join (cur @ [w]))" using Cons.prems(1) by (simp add: join_append)
      have ws: "ws \<noteq> []" "\<forall>w \<in> set ws. char_space \<notin> set w" "pairs_fit width m ws"
        using vs Cons.prems(3,4) by simp_all
      show ?thesis
      proof (cases "width (join (cur @ [w])) < m")
        case True
        have step: "wrap_loop width m max_lines ?s (length pre) prev ?tmp lines widest
            = wrap_loop width m max_lines ?s (length pre) (Some (?tmp + length w)) (?tmp + length w + 1) lines widest"
          using go found upto True by (subst wrap_loop.simps) (auto simp: Let_def)
        have ls: "ls = greedy width m n (cur @ [w]) ws" using Cons.prems(7) False True by simp
        have "\<exists>widest'. wrap_loop width m max_lines (pre @ join ((cur @ [w]) @ ws)) (length pre)
            (Some (length pre + length (join (cur @ [w])))) (length pre + length (join (cur @ [w])) + 1) lines widest
          = (pre @ lines_text ls, length pre + length (lines_text ls) - length (join (last ls)), widest')"
          by (rule Cons.IH [OF _ ws _ Cons.prems(6) ls]) simp_all
        then show ?thesis unfolding step here by simp
      next
        case wide: False
        then have p: "prev = Some (length pre + length (join cur))" using Cons.prems(5) by simp
        let ?pre = "pre @ join cur @ [char_newline]"
        have new: "?s[length pre + length (join cur) := char_newline] = ?pre @ join ([w] @ ws)"
          using s by (simp add: list_update_append)
        have step: "wrap_loop width m max_lines ?s (length pre) prev ?tmp lines widest
            = wrap_loop width m max_lines (?pre @ join ([w] @ ws)) (length ?pre) (Some (length ?pre)) (length ?pre + length (join [w]) + 1)
                (lines + 1) (max widest (width (join (cur @ [w]))))"
          using go found upto wide p new by (subst wrap_loop.simps) (auto simp: Let_def)
        define gs where "gs = greedy width m (map_option (\<lambda>k. k - 1) n) [w] ws"
        have ls: "ls = cur # gs" using Cons.prems(7) False wide gs_def by simp
        have "width (join ([w] @ [hd ws])) < m" using Cons.prems(4) vs by simp
        moreover have "map_option (\<lambda>k. k - 1) n = (if max_lines = 0 then None else Some (max_lines - (lines + 1)))"
          using Cons.prems(6) by simp
        ultimately have "\<exists>widest'. wrap_loop width m max_lines (?pre @ join ([w] @ ws)) (length ?pre) (Some (length ?pre))
            (length ?pre + length (join [w]) + 1) (lines + 1) (max widest (width (join (cur @ [w]))))
          = (?pre @ lines_text gs, length ?pre + length (lines_text gs) - length (join (last gs)), widest')"
          by (intro Cons.IH [OF _ ws _ _ gs_def]) simp_all
        moreover have "lines_text ls = join cur @ char_newline # lines_text gs" "last ls = last gs"
          using ls gs_def by (simp_all add: lines_text_def join_Cons)
        ultimately show ?thesis unfolding step by (simp add: add.assoc)
      qed
    qed
  qed
qed

lemma lines_text_snoc: "lines_text (ls @ [l]) = (if ls = [] then join l else lines_text ls @ char_newline # join l)"
  by (simp add: lines_text_def join_append)

lemma join_last_length:
  assumes "ls \<noteq> []"
  shows "length (join_with c (last ls)) \<le> length (join_with c (concat ls))"
proof -
  have "concat ls = concat (butlast ls) @ last ls"
    using assms append_butlast_last_id [of ls] concat_append [of "butlast ls" "[last ls]"] by simp
  moreover have "length (join_with c ys) \<le> length (join_with c (xs @ ys))" for xs ys
    using join_append [of xs ys c] by (cases "xs = []"; cases "ys = []") simp_all
  ultimately show ?thesis by metis
qed

lemma wrap_loop_words:
  assumes "\<forall>u \<in> set (w # v # ws). char_space \<notin> set u" "width w < m" "pairs_fit width m (w # v # ws)"
    and ls: "ls = greedy width m (if max_lines = 0 then None else Some (max_lines - 1)) [w] (v # ws)"
  shows "\<exists>widest. wrap_loop width m max_lines (join (w # v # ws)) 0 None 0 1 0
    = (lines_text ls, length (lines_text ls) - length (join (last ls)), widest)"
proof (cases "max_lines = 1")
  case True
  then show ?thesis using ls by (subst wrap_loop.simps) (simp add: lines_text_def)
next
  case False
  let ?e = "[] :: string"
  have "strchr (join (w # v # ws)) char_space = Some (length w)"
    using strchr_append [of char_space w "join (v # ws)"] assms(1) by simp
  then have "wrap_loop width m max_lines (join (w # v # ws)) 0 None 0 1 0
      = wrap_loop width m max_lines (?e @ join ([w] @ v # ws)) (length ?e) (Some (length ?e + length (join [w]))) (length ?e + length (join [w]) + 1) 1 0"
    using False assms(2) by (subst wrap_loop.simps) (auto simp: Let_def)
  moreover have "\<exists>widest. wrap_loop width m max_lines (?e @ join ([w] @ v # ws)) (length ?e) (Some (length ?e + length (join [w]))) (length ?e + length (join [w]) + 1) 1 0
      = (?e @ lines_text ls, length ?e + length (lines_text ls) - length (join (last ls)), widest)"
    by (rule wrap_loop_greedy [OF _ _ _ _ _ _ ls]) (use assms(1,3) in simp_all)
  ultimately show ?thesis by simp
qed



text \<open>Without the condition on neighbouring words a letter is lost: the break is written over the start of the line.\<close>

lemma wrap_loses_letter:
  "GFX_wrapText (\<lambda>s. int (length s)) ''aaa bbbbbb ccccccc ddd'' 10 0
    = Some (''aaa'' @ [char_newline, char_newline, char_newline] @ ''bbbb cc...'', 17)"
  by code_simp

end
