(* ===== verification/Atomic.thy ===== *)
theory Atomic
  imports Utils
begin

text \<open>
  Replacing a file by writing a temporary one and renaming it over the target, the protocol that
  the settings (\<open>common/msettings_core.c\<close>) and the battery saves, clock and save states of the
  emulator (\<open>minarch/minarch.c\<close>) follow.

  A save is modelled by the list of the file systems it goes through, one after every system call
  and one after every byte written, so that a power cut is a choice of one of them. The system
  calls take effect in program order. \<open>room\<close> is the number of bytes the card still accepts.
\<close>

subsection \<open>System calls\<close>

definition rename_ok :: "string \<Rightarrow> string \<Rightarrow> fs \<Rightarrow> bool" where
  "rename_ok old new fs \<longleftrightarrow> fopen_r fs old \<noteq> None \<and> fopen_w fs new"

definition rename :: "string \<Rightarrow> string \<Rightarrow> fs \<Rightarrow> fs" where
  "rename old new fs =
     (if rename_ok old new fs \<and> old \<noteq> new
      then (case fopen_r fs old of Some s \<Rightarrow> fs_put new (File s) (unlink old fs) | None \<Rightarrow> fs)
      else fs)"

definition fill :: "string \<Rightarrow> string \<Rightarrow> nat \<Rightarrow> fs \<Rightarrow> fs list" where
  \<comment> \<open>opening the file truncates it, then the bytes that fit arrive one by one\<close>
  "fill p bytes room fs =
     map (\<lambda>k. fs_put p (File (take k bytes)) fs) [0..<Suc (min room (length bytes))]"

text \<open>\<open>fwrite\<close> to a stream just opened sends whole blocks to the card and leaves the rest in the stream's buffer until \<open>fclose\<close>, whose
  result the code does not look at: its own result only tells whether the whole blocks had room.\<close>

definition STDIO_BLOCK :: nat where "STDIO_BLOCK = 4096"

definition fwrite_ok :: "nat \<Rightarrow> nat \<Rightarrow> bool" where
  "fwrite_ok n room \<longleftrightarrow> n - n mod STDIO_BLOCK \<le> room"

definition shortage_noticed :: "nat \<Rightarrow> nat \<Rightarrow> bool" where
  \<comment> \<open>there is no shortage, or \<open>fwrite\<close> reports it\<close>
  "shortage_noticed n room \<longleftrightarrow> n \<le> room \<or> \<not> fwrite_ok n room"

lemma fwrite_ok_room: "n \<le> room \<Longrightarrow> fwrite_ok n room"
  by (simp add: fwrite_ok_def)

text \<open>A power cut during one of a series of saves: earlier ones ran to their end.\<close>

fun crash_states :: "('a \<Rightarrow> fs \<Rightarrow> fs list) \<Rightarrow> 'a list \<Rightarrow> fs \<Rightarrow> fs list" where
  "crash_states save [] fs = [fs]"
| "crash_states save (x # xs) fs = save x fs @ crash_states save xs (last (save x fs))"

subsection \<open>Facts\<close>

lemma fopen_r_fs_put: "fopen_r (fs_put p (File s) fs) q = (if q = p then Some s else fopen_r fs q)"
  by (simp add: fopen_r_def map_of_fs_put)

lemma fopen_r_unlink: "fopen_r (unlink p fs) q = (if q = p then None else fopen_r fs q)"
  by (simp add: fopen_r_def map_of_unlink)

lemma fopen_w_fs_put: "fopen_w fs q \<Longrightarrow> fopen_w (fs_put p (File s) fs) q \<or> p = dirname q"
  by (auto simp: fopen_w_def map_of_fs_put)

lemma fopen_w_put_file:
  assumes "fopen_w fs p" and "fopen_w fs q"
  shows "fopen_w (fs_put p (File s) fs) q"
  using assms by (auto simp: fopen_w_def map_of_fs_put)

lemma fopen_r_rename:
  assumes "rename_ok old new fs" and "old \<noteq> new"
  shows "fopen_r (rename old new fs) q
         = (if q = new then fopen_r fs old else if q = old then None else fopen_r fs q)"
  using assms by (auto simp: rename_def rename_ok_def fopen_r_fs_put fopen_r_unlink)

lemma fopen_r_rename_fail: "\<not> rename_ok old new fs \<Longrightarrow> rename old new fs = fs"
  by (simp add: rename_def)

lemma rename_filled:
  assumes "tmp \<noteq> path" and "fopen_w fs tmp"
  shows "fopen_r (rename tmp path (fs_put tmp (File b) fs)) q =
           (if fopen_w fs path then if q = path then Some b else if q = tmp then None else fopen_r fs q
            else if q = tmp then Some b else fopen_r fs q)"
proof (cases "fopen_w fs path")
  case True
  then have "rename_ok tmp path (fs_put tmp (File b) fs)"
    using assms(2) by (simp add: rename_ok_def fopen_r_fs_put fopen_w_put_file)
  then show ?thesis using True assms(1) by (simp add: fopen_r_rename fopen_r_fs_put)
next
  case False
  have "dirname path \<noteq> tmp \<or> map_of fs (dirname path) \<noteq> Some Dir"
    using assms(2) by (auto simp: fopen_w_def)
  then have "\<not> rename_ok tmp path (fs_put tmp (File b) fs)"
    using False assms(1) by (auto simp: rename_ok_def fopen_w_def map_of_fs_put split: if_splits)
  then show ?thesis using False by (simp add: fopen_r_rename_fail fopen_r_fs_put)
qed

lemma fill_not_Nil [simp]: "fill p bytes room fs \<noteq> []"
  by (simp add: fill_def)

lemma fill_other: "s \<in> set (fill p bytes room fs) \<Longrightarrow> q \<noteq> p \<Longrightarrow> fopen_r s q = fopen_r fs q"
  by (auto simp: fill_def fopen_r_fs_put)

lemma last_fill: "last (fill p bytes room fs) = fs_put p (File (take room bytes)) fs"
  by (simp add: fill_def min_def)

lemma tmp_name_differs:
  assumes "length p + 1 < n"
  shows "snprintf_buf n (p @ ''.tmp'') \<noteq> p"
proof -
  have "length (snprintf_buf n (p @ ''.tmp'')) > length p"
    using assms by (simp add: snprintf_buf_def)
  then show ?thesis by auto
qed

subsection \<open>The contract of an atomic save\<close>

text \<open>
  What a save promises, whatever the moment it is cut off: the target holds its old or the complete
  new contents, and no file but the target and the temporary one is touched. Series of saves then
  keep, at every moment, the contents of one of the saves that were made.
\<close>

locale atomic_save =
  fixes save :: "'a \<Rightarrow> fs \<Rightarrow> fs list"
    and target :: "'a \<Rightarrow> string" and temp :: "'a \<Rightarrow> string" and contents :: "'a \<Rightarrow> string"
    and sound :: "'a \<Rightarrow> bool"
  assumes save_not_Nil: "save x fs \<noteq> []"
    and all_or_nothing:
      "sound x \<Longrightarrow> s \<in> set (save x fs) \<Longrightarrow>
       fopen_r s (target x) = fopen_r fs (target x) \<or> fopen_r s (target x) = Some (contents x)"
    and frame:
      "s \<in> set (save x fs) \<Longrightarrow> q \<noteq> target x \<Longrightarrow> q \<noteq> temp x \<Longrightarrow> fopen_r s q = fopen_r fs q"
begin

lemma one_of_the_saves:
  assumes "\<forall>x \<in> set xs. sound x \<and> target x = p" and "s \<in> set (crash_states save xs fs)"
  shows "fopen_r s p = fopen_r fs p \<or> fopen_r s p \<in> (\<lambda>x. Some (contents x)) ` set xs"
  using assms
proof (induction xs arbitrary: fs)
  case Nil
  then show ?case by simp
next
  case (Cons x xs)
  let ?mid = "last (save x fs)"
  have x: "sound x" "target x = p" using Cons.prems(1) by auto
  have step: "t \<in> set (save x fs) \<Longrightarrow> fopen_r t p = fopen_r fs p \<or> fopen_r t p = Some (contents x)" for t
    using all_or_nothing [OF x(1), of t fs] x(2) by auto
  from Cons.prems(2) consider "s \<in> set (save x fs)" | "s \<in> set (crash_states save xs ?mid)" by auto
  then show ?case
  proof cases
    case 1
    then show ?thesis using step by auto
  next
    case 2
    then have "fopen_r s p = fopen_r ?mid p \<or> fopen_r s p \<in> (\<lambda>x. Some (contents x)) ` set xs"
      using Cons by simp
    moreover have "?mid \<in> set (save x fs)" using save_not_Nil by simp
    ultimately show ?thesis using step [of ?mid] by auto
  qed
qed

lemma others_kept:
  assumes "\<forall>x \<in> set xs. q \<noteq> target x \<and> q \<noteq> temp x" and "s \<in> set (crash_states save xs fs)"
  shows "fopen_r s q = fopen_r fs q"
  using assms
proof (induction xs arbitrary: fs)
  case Nil
  then show ?case by simp
next
  case (Cons x xs)
  have "t \<in> set (save x fs) \<Longrightarrow> fopen_r t q = fopen_r fs q" for t
    using Cons.prems(1) frame [of t x fs q] by simp
  moreover have "last (save x fs) \<in> set (save x fs)" using save_not_Nil by simp
  ultimately show ?case using Cons by auto
qed

end

end
