(* ===== verification/Settings.thy ===== *)
theory Settings
  imports Atomic
begin

text \<open>
  The shared settings of \<open>common/msettings_core.c\<close> and of the two platforms'
  \<open>libmsettings/msettings.c\<close>: a struct of 32-bit integers in shared memory, created by the host
  (normally \<open>keymon\<close>) from \<open>msettings.bin\<close> or the defaults, and saved by every setter through a
  temporary file. The record of the rg35xxplus extends the other one by \<open>hdmi\<close>, as its struct does.

  The system's answers are arguments: whether the shared-memory object could be created, the sizes
  the client's polls see, whether it could be sized and mapped. \<open>uninit\<close> is the value of a local
  variable the code did not assign. The device state holds the settings, the card, and what was
  last written to the backlight and to the amplifier.
\<close>

definition BRIGHTNESS_MAX :: u32 where "BRIGHTNESS_MAX = 10"
definition VOLUME_MAX :: u32 where "VOLUME_MAX = 20"
definition SETTINGS_VERSION :: u32 where "SETTINGS_VERSION = 2"

record Settings =
  version :: u32
  brightness :: u32
  headphones :: u32
  speaker :: u32
  unused0 :: u32
  unused1 :: u32
  jack :: u32

record plus_Settings = Settings +
  hdmi :: u32

definition DefaultSettings :: Settings where
  "DefaultSettings = \<lparr>version = SETTINGS_VERSION, brightness = 2, headphones = 4, speaker = 8,
     unused0 = 0, unused1 = 0, jack = 0\<rparr>"

definition plus_DefaultSettings :: plus_Settings where
  "plus_DefaultSettings = \<lparr>version = SETTINGS_VERSION, brightness = 2, headphones = 4, speaker = 8,
     unused0 = 0, unused1 = 0, jack = 0, hdmi = 0\<rparr>"

subsection \<open>The struct as bytes\<close>

definition le32 :: "u32 \<Rightarrow> string" where
  "le32 w = map (\<lambda>k. char_of (unat w div 256 ^ k)) [0, 1, 2, 3]"

definition un_le32 :: "string \<Rightarrow> u32" where
  "un_le32 s = of_nat (foldr (\<lambda>c acc. of_char c + 256 * acc) (take 4 s) (0::nat))"

definition word_at :: "string \<Rightarrow> nat \<Rightarrow> u32" where
  "word_at s k = un_le32 (drop (4 * k) s)"

definition encode :: "'a Settings_scheme \<Rightarrow> string" where
  "encode s = concat (map le32 [version s, brightness s, headphones s, speaker s,
     unused0 s, unused1 s, jack s])"

definition plus_encode :: "plus_Settings \<Rightarrow> string" where
  "plus_encode s = encode s @ le32 (hdmi s)"

definition decode :: "string \<Rightarrow> Settings" where
  "decode b = \<lparr>version = word_at b 0, brightness = word_at b 1, headphones = word_at b 2,
     speaker = word_at b 3, unused0 = word_at b 4, unused1 = word_at b 5, jack = word_at b 6\<rparr>"

definition plus_decode :: "string \<Rightarrow> plus_Settings" where
  "plus_decode b = \<lparr>version = word_at b 0, brightness = word_at b 1, headphones = word_at b 2,
     speaker = word_at b 3, unused0 = word_at b 4, unused1 = word_at b 5, jack = word_at b 6,
     hdmi = word_at b 7\<rparr>"

subsection \<open>The shared core\<close>

datatype init_error = No_userdata | Shm_open_failed | Never_ready | Truncate_failed | Mmap_failed

datatype shm_open = Created | Already "nat list" string | Shm_error
  \<comment> \<open>\<open>Already sizes bytes\<close>: the sizes successive \<open>fstat\<close> calls report, and what the object holds\<close>

definition SettingsPath :: "string \<Rightarrow> string" where
  "SettingsPath userdata_path = snprintf_buf 256 (userdata_path @ ''/msettings.bin'')"

definition read_settings :: "string \<Rightarrow> nat \<Rightarrow> string \<Rightarrow> fs \<Rightarrow> string" where
  "read_settings default_settings settings_size path fs =
     (case fopen_r fs path of
        None \<Rightarrow> default_settings
      | Some s \<Rightarrow> (let got = take settings_size s in
                  if length got < settings_size then default_settings else got))"

definition InitSettingsCore ::
  "string \<Rightarrow> nat \<Rightarrow> string option \<Rightarrow> shm_open \<Rightarrow> bool \<Rightarrow> bool \<Rightarrow> fs \<Rightarrow> init_error + string \<times> bool" where
  \<comment> \<open>the bytes mapped and \<open>is_host\<close>\<close>
  "InitSettingsCore default_settings settings_size userdata shm truncated mapped fs =
     (case userdata of
        None \<Rightarrow> Inl No_userdata
      | Some userdata_path \<Rightarrow>
          (case shm of
             Already sizes bytes \<Rightarrow>
               if \<not> list_ex (\<lambda>sz. sz \<ge> settings_size) (take 200 sizes) then Inl Never_ready
               else if \<not> mapped then Inl Mmap_failed
               else Inr (take settings_size bytes, False)
           | Shm_error \<Rightarrow> Inl Shm_open_failed
           | Created \<Rightarrow>
               if \<not> truncated then Inl Truncate_failed
               else if \<not> mapped then Inl Mmap_failed
               else Inr (read_settings default_settings settings_size (SettingsPath userdata_path) fs,
                         True)))"

definition settings_tmp :: "string \<Rightarrow> string" where
  "settings_tmp path = snprintf_buf 264 (path @ ''.tmp'')"

definition SaveSettingsCore :: "string \<Rightarrow> nat \<Rightarrow> string \<Rightarrow> fs \<Rightarrow> fs list" where
  "SaveSettingsCore path room settings fs =
     (let tmp_path = settings_tmp path in
      if fopen_w fs tmp_path then
        (let states = fill tmp_path settings room fs; n = min room (length settings) in
         fs # states @ (if n = length settings then [rename tmp_path path (last states)] else []))
      else [fs])"

subsection \<open>Setters and getters\<close>

record 's dev =
  shm :: 's
  card :: fs
  spath :: string
  room :: nat
  lcd :: "u32 option"
  amp :: "u32 option"

definition SaveSettings :: "Settings dev \<Rightarrow> Settings dev" where
  "SaveSettings d = d\<lparr>card := last (SaveSettingsCore (spath d) (room d) (encode (shm d)) (card d))\<rparr>"

definition plus_SaveSettings :: "plus_Settings dev \<Rightarrow> plus_Settings dev" where
  "plus_SaveSettings d =
     d\<lparr>card := last (SaveSettingsCore (spath d) (room d) (plus_encode (shm d)) (card d))\<rparr>"

definition GetBrightness :: "'a Settings_scheme dev \<Rightarrow> u32" where
  "GetBrightness d = brightness (shm d)"

definition GetVolume :: "'a Settings_scheme dev \<Rightarrow> u32" where
  "GetVolume d = (if jack (shm d) \<noteq> 0 then headphones (shm d) else speaker (shm d))"

definition level_table :: "u32 list \<Rightarrow> u32 \<Rightarrow> u32 \<Rightarrow> u32" where
  "level_table t uninit value = (if unat value < length t then t ! unat value else uninit)"

definition SetBrightness :: "u32 \<Rightarrow> u32 \<Rightarrow> Settings dev \<Rightarrow> Settings dev" where
  "SetBrightness uninit value d =
     (let raw = level_table [16, 24, 40, 64, 128, 192, 256, 384, 512, 768, 1024] uninit value;
          d = d\<lparr>lcd := Some raw\<rparr>;
          d = d\<lparr>shm := (shm d)\<lparr>brightness := value\<rparr>\<rparr>
      in SaveSettings d)"

definition set_level :: "u32 \<Rightarrow> 'a Settings_scheme \<Rightarrow> 'a Settings_scheme" where
  "set_level value s = (if jack s \<noteq> 0 then s\<lparr>headphones := value\<rparr> else s\<lparr>speaker := value\<rparr>)"

definition SetVolume :: "u32 \<Rightarrow> Settings dev \<Rightarrow> Settings dev" where
  "SetVolume value d =
     (let d = d\<lparr>shm := set_level value (shm d)\<rparr>;
          raw = value * 2;
          d = d\<lparr>amp := Some raw\<rparr>
      in SaveSettings d)"

definition SetJack :: "u32 \<Rightarrow> Settings dev \<Rightarrow> Settings dev" where
  "SetJack value d = (let d = d\<lparr>shm := (shm d)\<lparr>jack := value\<rparr>\<rparr> in SetVolume (GetVolume d) d)"

definition InitSettings ::
  "u32 \<Rightarrow> string option \<Rightarrow> shm_open \<Rightarrow> bool \<Rightarrow> bool \<Rightarrow> nat \<Rightarrow> fs \<Rightarrow> init_error + Settings dev" where
  "InitSettings uninit userdata obj truncated mapped r fs =
     (case InitSettingsCore (encode DefaultSettings) 28 userdata obj truncated mapped fs of
        Inl e \<Rightarrow> Inl e
      | Inr (bytes, is_host) \<Rightarrow>
          (let s = decode bytes;
               s = (if is_host \<and> version s \<noteq> SETTINGS_VERSION then DefaultSettings else s);
               d = \<lparr>shm = s, card = fs, spath = SettingsPath (the userdata), room = r,
                    lcd = None, amp = None\<rparr>;
               d = SetVolume (GetVolume d) d
           in Inr (SetBrightness uninit (GetBrightness d) d)))"

definition plus_SetRawBrightness :: "u32 \<Rightarrow> plus_Settings dev \<Rightarrow> plus_Settings dev" where
  "plus_SetRawBrightness val d = (if hdmi (shm d) \<noteq> 0 then d else d\<lparr>lcd := Some val\<rparr>)"

definition plus_SetBrightness :: "u32 \<Rightarrow> u32 \<Rightarrow> plus_Settings dev \<Rightarrow> plus_Settings dev" where
  "plus_SetBrightness uninit value d =
     (if hdmi (shm d) \<noteq> 0 then d
      else
        (let raw = level_table [4, 6, 10, 16, 32, 48, 64, 96, 128, 192, 255] uninit value;
             d = plus_SetRawBrightness raw d;
             d = d\<lparr>shm := (shm d)\<lparr>brightness := value\<rparr>\<rparr>
         in plus_SaveSettings d))"

definition plus_SetVolume :: "u32 \<Rightarrow> plus_Settings dev \<Rightarrow> plus_Settings dev" where
  "plus_SetVolume value d =
     (if hdmi (shm d) \<noteq> 0 then d
      else
        (let d = d\<lparr>shm := set_level value (shm d)\<rparr>;
             raw = value * 5;
             d = d\<lparr>amp := Some raw\<rparr>
         in plus_SaveSettings d))"

definition plus_SetJack :: "u32 \<Rightarrow> plus_Settings dev \<Rightarrow> plus_Settings dev" where
  "plus_SetJack value d =
     (let d = d\<lparr>shm := (shm d)\<lparr>jack := value\<rparr>\<rparr> in plus_SetVolume (GetVolume d) d)"

definition plus_SetHDMI :: "u32 \<Rightarrow> plus_Settings dev \<Rightarrow> plus_Settings dev" where
  "plus_SetHDMI value d =
     (let d = d\<lparr>shm := (shm d)\<lparr>hdmi := value\<rparr>\<rparr> in
      if value \<noteq> 0 then d\<lparr>amp := Some 100\<rparr> else plus_SetVolume (GetVolume d) d)"

definition plus_InitSettings ::
  "u32 \<Rightarrow> string option \<Rightarrow> shm_open \<Rightarrow> bool \<Rightarrow> bool \<Rightarrow> nat \<Rightarrow> u32 \<Rightarrow> u32 \<Rightarrow> fs \<Rightarrow>
   init_error + plus_Settings dev" where
  \<comment> \<open>\<open>jack_state\<close> and \<open>hdmi_state\<close> are read from the two state files under \<open>/sys\<close>\<close>
  "plus_InitSettings uninit userdata obj truncated mapped r jack_state hdmi_state fs =
     (case InitSettingsCore (plus_encode plus_DefaultSettings) 32 userdata obj truncated mapped fs of
        Inl e \<Rightarrow> Inl e
      | Inr (bytes, is_host) \<Rightarrow>
          (let s = plus_decode bytes;
               s = (if is_host \<and> version s \<noteq> SETTINGS_VERSION then plus_DefaultSettings else s);
               d = \<lparr>shm = s, card = fs, spath = SettingsPath (the userdata), room = r,
                    lcd = None, amp = None\<rparr>;
               d = plus_SetJack jack_state d;
               d = plus_SetHDMI hdmi_state d
           in Inr (plus_SetBrightness uninit (GetBrightness d) d)))"

subsection \<open>Facts\<close>

lemma le32_length [simp]: "length (le32 w) = 4"
  by (simp add: le32_def)

lemma four_bytes:
  fixes n :: nat
  assumes "n < 2 ^ 32"
  shows "n mod 256 + 256 * (n div 256 mod 256 + 256 * (n div 256 ^ 2 mod 256
         + 256 * (n div 256 ^ 3 mod 256))) = n"
proof -
  have split: "k mod 256 + 256 * (k div 256) = k" for k :: nat by (metis mod_mult_div_eq)
  have "n div 256 ^ 3 < 256" using assms by (simp add: div_less_iff_less_mult)
  then have last: "n div 256 ^ 3 mod 256 = n div 256 ^ 3" by simp
  have "n div 256 ^ 2 = n div 256 div 256" "n div 256 ^ 3 = n div 256 div 256 div 256"
    by (simp_all add: div_mult2_eq [symmetric])
  then show ?thesis unfolding last by (simp only: split)
qed

lemma un_le32_le32 [simp]: "un_le32 (le32 w @ r) = w"
proof -
  have "un_le32 (le32 w @ r) = of_nat (unat w mod 256 + 256 * (unat w div 256 mod 256
      + 256 * (unat w div 256 ^ 2 mod 256 + 256 * (unat w div 256 ^ 3 mod 256))))"
    unfolding un_le32_def le32_def by (simp only: list.map append.simps) simp
  also have "\<dots> = w"
    using unsigned_less [of w, where 'a = nat] by (subst four_bytes) simp_all
  finally show ?thesis .
qed

lemma word_at_0 [simp]: "word_at (le32 w @ r) 0 = w"
  by (simp add: word_at_def)

lemma word_at_Suc [simp]: "word_at (le32 w @ r) (Suc k) = word_at r k"
  by (simp add: word_at_def)

lemma numerals_as_Suc:
  "word_at s 1 = word_at s (Suc 0)" "word_at s 2 = word_at s (Suc (Suc 0))"
  "word_at s 3 = word_at s (Suc (Suc (Suc 0)))" "word_at s 4 = word_at s (Suc (Suc (Suc (Suc 0))))"
  "word_at s 5 = word_at s (Suc (Suc (Suc (Suc (Suc 0)))))"
  "word_at s 6 = word_at s (Suc (Suc (Suc (Suc (Suc (Suc 0))))))"
  "word_at s 7 = word_at s (Suc (Suc (Suc (Suc (Suc (Suc (Suc 0)))))))"
  by (simp_all add: eval_nat_numeral)

lemma encode_length [simp]: "length (encode s) = 28" "length (plus_encode p) = 32"
  by (simp_all add: encode_def plus_encode_def)

lemma decode_encode [simp]: "decode (encode s) = s"
proof -
  have "encode s = encode s @ []" by simp
  then show ?thesis
    by (simp add: decode_def encode_def numerals_as_Suc word_at_0 [where r = "[]", simplified] del: append_Nil2)
qed

lemma plus_decode_encode [simp]: "plus_decode (plus_encode s) = s"
  by (simp add: plus_decode_def plus_encode_def encode_def numerals_as_Suc
      word_at_0 [where r = "[]", simplified])

lemma settings_tmp_differs: "length p < 256 \<Longrightarrow> settings_tmp p \<noteq> p"
  unfolding settings_tmp_def by (rule tmp_name_differs) simp

lemma SettingsPath_length: "length (SettingsPath u) < 256"
  unfolding SettingsPath_def by (rule snprintf_buf_length) simp

lemma SaveSettingsCore_states:
  assumes "s \<in> set (SaveSettingsCore p r b fs)"
  shows "s = fs \<or> s \<in> set (fill (settings_tmp p) b r fs)
         \<or> s = rename (settings_tmp p) p (fs_put (settings_tmp p) (File b) fs) \<and> fopen_w fs (settings_tmp p)"
  using assms by (auto simp: SaveSettingsCore_def Let_def last_fill split: if_splits)

interpretation settings_file: atomic_save
  "\<lambda>(r, b). SaveSettingsCore p r b" "\<lambda>_. p" "\<lambda>_. settings_tmp p" snd "\<lambda>_. length p < 256" for p
proof (unfold_locales, goal_cases)
  case (1 x fs)
  then show ?case by (auto simp: SaveSettingsCore_def Let_def split: prod.splits)
next
  case (2 x s fs)
  obtain r b where x: "x = (r, b)" by fastforce
  show ?case
    using SaveSettingsCore_states [of s p r b fs] 2 settings_tmp_differs [OF 2(1)]
    by (auto simp: x fill_other rename_filled split: if_splits)
next
  case (3 s x fs q)
  obtain r b where x: "x = (r, b)" by fastforce
  show ?case
  proof (cases "settings_tmp p = p")
    case True
    then show ?thesis
      using SaveSettingsCore_states [of s p r b fs] 3
      by (auto simp: x fill_other rename_def fopen_r_fs_put)
  next
    case False
    then show ?thesis
      using SaveSettingsCore_states [of s p r b fs] 3
      by (auto simp: x fill_other rename_filled)
  qed
qed

text \<open>A save with room on the card leaves exactly the settings in the file.\<close>

lemma SaveSettingsCore_complete:
  assumes "length p < 256" and "fopen_w fs p" and "fopen_w fs (settings_tmp p)" and "length b \<le> r"
  shows "fopen_r (last (SaveSettingsCore p r b fs)) p = Some b"
  using assms settings_tmp_differs [OF assms(1)]
  by (simp add: SaveSettingsCore_def Let_def last_fill rename_filled min_absorb2)

lemma set_level_own [simp]:
  "set_level (if jack s \<noteq> 0 then headphones s else speaker s) s = s"
  by (simp add: set_level_def)

lemma SaveSettings_shm [simp]:
  "shm (SaveSettings d) = shm d" "lcd (SaveSettings d) = lcd d" "amp (SaveSettings d) = amp d"
  "spath (SaveSettings d) = spath d" "room (SaveSettings d) = room d"
  by (simp_all add: SaveSettings_def)

lemma plus_SaveSettings_shm [simp]:
  "shm (plus_SaveSettings d) = shm d" "lcd (plus_SaveSettings d) = lcd d"
  "amp (plus_SaveSettings d) = amp d" "spath (plus_SaveSettings d) = spath d"
  "room (plus_SaveSettings d) = room d"
  by (simp_all add: plus_SaveSettings_def)

lemma SetVolume_shm [simp]:
  "shm (SetVolume v d) = set_level v (shm d)" "amp (SetVolume v d) = Some (v * 2)"
  "lcd (SetVolume v d) = lcd d"
  by (simp_all add: SetVolume_def Let_def)

lemma SetBrightness_shm [simp]:
  "shm (SetBrightness u v d) = (shm d)\<lparr>brightness := v\<rparr>" "amp (SetBrightness u v d) = amp d"
  by (simp_all add: SetBrightness_def Let_def)

lemma plus_SetVolume_shm [simp]:
  "shm (plus_SetVolume v d) = (if hdmi (shm d) \<noteq> 0 then shm d else set_level v (shm d))"
  by (simp add: plus_SetVolume_def Let_def)

lemma plus_SetBrightness_shm [simp]:
  "shm (plus_SetBrightness u v d) = (if hdmi (shm d) \<noteq> 0 then shm d else (shm d)\<lparr>brightness := v\<rparr>)"
  by (simp add: plus_SetBrightness_def plus_SetRawBrightness_def Let_def)

lemma plus_SetBrightness_amp [simp]: "amp (plus_SetBrightness u v d) = amp d"
  by (simp add: plus_SetBrightness_def plus_SetRawBrightness_def Let_def)

lemma read_settings_saved:
  assumes "fopen_r fs p = Some b" and "length b = n"
  shows "read_settings def n p fs = b"
  using assms by (simp add: read_settings_def)

subsection \<open>Properties\<close>

text \<open>C16: cut off at any moment of any series of saves (whatever room the card has), the next host starts
  either with the complete settings of one of those saves or with exactly what it would have
  started with before the first of them; never with a torn mixture.\<close>

theorem settings_survive_power_cut:
  assumes "\<forall>x \<in> set saves. length (snd x) = n"
    and "s \<in> set (crash_states (\<lambda>(r, b). SaveSettingsCore (SettingsPath u) r b) saves fs)"
  shows "InitSettingsCore def n (Some u) Created True True s
           = InitSettingsCore def n (Some u) Created True True fs
         \<or> (\<exists>x \<in> set saves. InitSettingsCore def n (Some u) Created True True s = Inr (snd x, True))"
proof -
  let ?p = "SettingsPath u"
  have "fopen_r s ?p = fopen_r fs ?p \<or> fopen_r s ?p \<in> (\<lambda>x. Some (snd x)) ` set saves"
    using settings_file.one_of_the_saves [OF _ assms(2)] SettingsPath_length by blast
  then show ?thesis
  proof
    assume "fopen_r s ?p = fopen_r fs ?p"
    then show ?thesis by (simp add: InitSettingsCore_def read_settings_def)
  next
    assume "fopen_r s ?p \<in> (\<lambda>x. Some (snd x)) ` set saves"
    then obtain x where "x \<in> set saves" "fopen_r s ?p = Some (snd x)" by auto
    with assms(1) show ?thesis
      by (auto simp: InitSettingsCore_def read_settings_saved)
  qed
qed

definition demo_card :: fs where
  "demo_card = [(''/u'', Dir), (''/u/msettings.bin'', File ''old!'')]"

theorem settings_survive_power_cut_witness:
  "InitSettingsCore ''dflt'' 4 (Some ''/u'') Created True True
     (fs_put ''/u/msettings.bin.tmp'' (File ''ne'') demo_card)
     = InitSettingsCore ''dflt'' 4 (Some ''/u'') Created True True demo_card
   \<or> (\<exists>x \<in> set [(2 :: nat, ''new!'')]. InitSettingsCore ''dflt'' 4 (Some ''/u'') Created True True
     (fs_put ''/u/msettings.bin.tmp'' (File ''ne'') demo_card) = Inr (snd x, True))"
  by (rule settings_survive_power_cut [where saves = "[(2, ''new!'')]" and u = "''/u''"])
    (simp_all add: SaveSettingsCore_def Let_def fill_def demo_card_def settings_tmp_def SettingsPath_def
      snprintf_buf_def fopen_w_def dirname_def eval_nat_numeral)

text \<open>Settings saved with room on the card are the settings of the next start on both platforms: the
  host restores them all, sends the stored volume of the active output to the amplifier, and only
  the plus platform's jack and HDMI fields are replaced, by the state of the ports.\<close>

theorem settings_reboot:
  assumes "spath d = SettingsPath u" and "fopen_w (card d) (spath d)"
    and "fopen_w (card d) (settings_tmp (spath d))" and "28 \<le> room d" and "version (shm d) = 2"
    and "spath e = SettingsPath u" and "fopen_w (card e) (spath e)"
    and "fopen_w (card e) (settings_tmp (spath e))" and "32 \<le> room e" and "version (shm e) = 2"
    and "hdmi (shm e) = 0"
  shows "(\<exists>d'. InitSettings uninit (Some u) Created True True r (card (SaveSettings d)) = Inr d'
            \<and> shm d' = shm d \<and> amp d' = Some (GetVolume d * 2))
         \<and> (\<exists>e'. plus_InitSettings uninit (Some u) Created True True r jk hm (card (plus_SaveSettings e)) = Inr e'
            \<and> shm e' = (shm e)\<lparr>jack := jk, hdmi := hm\<rparr>
            \<and> amp e' = Some (if hm \<noteq> 0 then 100 else GetVolume e' * 5))"
proof (rule conjI, goal_cases)
  case 1
  have "fopen_r (card (SaveSettings d)) (spath d) = Some (encode (shm d))"
    using assms SettingsPath_length by (simp add: SaveSettings_def SaveSettingsCore_complete)
  then have "read_settings df 28 (SettingsPath u) (card (SaveSettings d)) = encode (shm d)" for df
    using assms(1) by (intro read_settings_saved) simp_all
  then show ?case
    using assms(5)
    by (simp add: InitSettings_def InitSettingsCore_def SETTINGS_VERSION_def Let_def GetBrightness_def
        GetVolume_def set_level_def)
next
  case 2
  have "fopen_r (card (plus_SaveSettings e)) (spath e) = Some (plus_encode (shm e))"
    using assms SettingsPath_length by (simp add: plus_SaveSettings_def SaveSettingsCore_complete)
  then have "read_settings df 32 (SettingsPath u) (card (plus_SaveSettings e)) = plus_encode (shm e)" for df
    using assms(6) by (intro read_settings_saved) simp_all
  then show ?case
    using assms(10,11)
    by (simp add: plus_InitSettings_def InitSettingsCore_def SETTINGS_VERSION_def Let_def
        plus_SetJack_def plus_SetHDMI_def plus_SetVolume_def GetBrightness_def GetVolume_def set_level_def)
qed

definition demo_dev :: "Settings dev" where
  "demo_dev = \<lparr>shm = DefaultSettings\<lparr>brightness := 7, speaker := 12\<rparr>, card = demo_card,
     spath = SettingsPath ''/u'', room = 100, lcd = None, amp = None\<rparr>"

definition plus_demo_dev :: "plus_Settings dev" where
  "plus_demo_dev = \<lparr>shm = plus_DefaultSettings\<lparr>brightness := 7, headphones := 3\<rparr>, card = demo_card,
     spath = SettingsPath ''/u'', room = 100, lcd = None, amp = None\<rparr>"

theorem settings_reboot_witness:
  "(\<exists>d'. InitSettings 0 (Some ''/u'') Created True True 50 (card (SaveSettings demo_dev)) = Inr d'
      \<and> shm d' = shm demo_dev \<and> amp d' = Some (GetVolume demo_dev * 2))
   \<and> (\<exists>e'. plus_InitSettings 0 (Some ''/u'') Created True True 50 1 0 (card (plus_SaveSettings plus_demo_dev)) = Inr e'
      \<and> shm e' = (shm plus_demo_dev)\<lparr>jack := 1, hdmi := 0\<rparr>
      \<and> amp e' = Some (if (0 :: u32) \<noteq> 0 then 100 else GetVolume e' * 5))"
  by (rule settings_reboot)
    (simp_all add: demo_dev_def plus_demo_dev_def demo_card_def settings_tmp_def SettingsPath_def
      snprintf_buf_def fopen_w_def dirname_def DefaultSettings_def plus_DefaultSettings_def
      SETTINGS_VERSION_def)

end
