(* ===== verification/Draw.thy ===== *)
theory Draw
  imports Text Pwr Settings
begin

text \<open>
  Drawing with the sheet of pictures, filled rectangles and text (\<open>common/gfx.c\<close>). What a function does to the
  surface is the list of its calls of SDL, in order: a copy from the sheet, a fill, or a copy of a rendered text.
  The size a font gives a text is an argument. Positions and sizes are mathematical integers: those of a screen of at most 1280 by
  720 pixels and of a text on it are far from the limits of \<open>SDL_Rect\<close>.
\<close>

type_synonym rect = "int \<times> int \<times> int \<times> int" \<comment> \<open>\<open>SDL_Rect\<close>: x, y, w, h\<close>

datatype font = font_large | font_medium | font_small | font_tiny

datatype rgb = RGB_WHITE | RGB_BLACK | RGB_ACCENT | RGB_LIGHT_GRAY | RGB_GRAY | RGB_DARK_GRAY | COLOR_LIGHT_TEXT | COLOR_DARK_TEXT

datatype asset =
    ASSET_WHITE_PILL | ASSET_BLACK_PILL | ASSET_DARK_GRAY_PILL | ASSET_OPTION | ASSET_BUTTON | ASSET_PAGE_BG | ASSET_STATE_BG
  | ASSET_PAGE | ASSET_BAR | ASSET_BAR_BG | ASSET_BAR_BG_MENU | ASSET_UNDERLINE | ASSET_DOT | ASSET_HOLE
  | ASSET_BRIGHTNESS | ASSET_VOLUME_MUTE | ASSET_VOLUME | ASSET_BATTERY | ASSET_BATTERY_LOW | ASSET_BATTERY_FILL
  | ASSET_BATTERY_FILL_LOW | ASSET_BATTERY_BOLT | ASSET_SCROLL_UP | ASSET_SCROLL_DOWN | ASSET_WIFI

definition FIXED_SCALE :: int where "FIXED_SCALE = 2"
definition FIXED_WIDTH :: int where "FIXED_WIDTH = 640"
definition FIXED_HEIGHT :: int where "FIXED_HEIGHT = 480"

definition SCALE1 :: "int \<Rightarrow> int" where "SCALE1 a = a * FIXED_SCALE"

definition PILL_SIZE :: int where "PILL_SIZE = 30"
definition BUTTON_SIZE :: int where "BUTTON_SIZE = 20"
definition BUTTON_MARGIN :: int where "BUTTON_MARGIN = 5"
definition BUTTON_PADDING :: int where "BUTTON_PADDING = 12"
definition SETTINGS_SIZE :: int where "SETTINGS_SIZE = 4"
definition SETTINGS_WIDTH :: int where "SETTINGS_WIDTH = 80"

lemmas layout_defs = FIXED_SCALE_def FIXED_WIDTH_def FIXED_HEIGHT_def SCALE1_def PILL_SIZE_def BUTTON_SIZE_def BUTTON_MARGIN_def BUTTON_PADDING_def
  SETTINGS_SIZE_def SETTINGS_WIDTH_def

definition half :: "int \<Rightarrow> int" where
  \<comment> \<open>\<open>/ 2\<close> of C, towards zero\<close>
  "half a = (if a < 0 then - (- a div 2) else a div 2)"

fun asset_rgbs :: "asset \<Rightarrow> rgb" where
  "asset_rgbs ASSET_WHITE_PILL = RGB_ACCENT"
| "asset_rgbs ASSET_BLACK_PILL = RGB_BLACK"
| "asset_rgbs ASSET_DARK_GRAY_PILL = RGB_DARK_GRAY"
| "asset_rgbs ASSET_OPTION = RGB_DARK_GRAY"
| "asset_rgbs ASSET_BUTTON = RGB_WHITE"
| "asset_rgbs ASSET_PAGE_BG = RGB_WHITE"
| "asset_rgbs ASSET_STATE_BG = RGB_WHITE"
| "asset_rgbs ASSET_PAGE = RGB_BLACK"
| "asset_rgbs ASSET_BAR = RGB_ACCENT"
| "asset_rgbs ASSET_BAR_BG = RGB_BLACK"
| "asset_rgbs ASSET_BAR_BG_MENU = RGB_DARK_GRAY"
| "asset_rgbs ASSET_UNDERLINE = RGB_GRAY"
| "asset_rgbs ASSET_DOT = RGB_LIGHT_GRAY"
| "asset_rgbs _ = RGB_BLACK"

definition SCALE4 :: "int \<Rightarrow> int \<Rightarrow> int \<Rightarrow> int \<Rightarrow> rect" where
  "SCALE4 a b c d = (SCALE1 a, SCALE1 b, SCALE1 c, SCALE1 d)"

fun asset_rects :: "asset \<Rightarrow> rect" where
  "asset_rects ASSET_WHITE_PILL = SCALE4 1 1 30 30"
| "asset_rects ASSET_BLACK_PILL = SCALE4 33 1 30 30"
| "asset_rects ASSET_DARK_GRAY_PILL = SCALE4 65 1 30 30"
| "asset_rects ASSET_OPTION = SCALE4 97 1 20 20"
| "asset_rects ASSET_BUTTON = SCALE4 1 33 20 20"
| "asset_rects ASSET_PAGE_BG = SCALE4 64 33 15 15"
| "asset_rects ASSET_STATE_BG = SCALE4 23 54 8 8"
| "asset_rects ASSET_PAGE = SCALE4 39 54 6 6"
| "asset_rects ASSET_BAR = SCALE4 33 58 4 4"
| "asset_rects ASSET_BAR_BG = SCALE4 15 55 4 4"
| "asset_rects ASSET_BAR_BG_MENU = SCALE4 85 56 4 4"
| "asset_rects ASSET_UNDERLINE = SCALE4 85 51 3 3"
| "asset_rects ASSET_DOT = SCALE4 33 54 2 2"
| "asset_rects ASSET_BRIGHTNESS = SCALE4 23 33 19 19"
| "asset_rects ASSET_VOLUME_MUTE = SCALE4 44 33 10 16"
| "asset_rects ASSET_VOLUME = SCALE4 44 33 18 16"
| "asset_rects ASSET_BATTERY = SCALE4 47 51 17 10"
| "asset_rects ASSET_BATTERY_LOW = SCALE4 66 51 17 10"
| "asset_rects ASSET_BATTERY_FILL = SCALE4 81 33 12 6"
| "asset_rects ASSET_BATTERY_FILL_LOW = SCALE4 1 55 12 6"
| "asset_rects ASSET_BATTERY_BOLT = SCALE4 81 41 12 6"
| "asset_rects ASSET_SCROLL_UP = SCALE4 97 23 24 6"
| "asset_rects ASSET_SCROLL_DOWN = SCALE4 97 31 24 6"
| "asset_rects ASSET_WIFI = SCALE4 95 39 14 10"
| "asset_rects ASSET_HOLE = SCALE4 1 63 20 20"

subsection \<open>Calls of SDL\<close>

datatype draw =
    Sheet rect int int          \<comment> \<open>a part of the sheet, copied to a position\<close>
  | Fill rect rgb
  | Glyphs font string rgb int int  \<comment> \<open>a rendered text, copied to a position\<close>
  | Glyphs_cut font string rgb int int int \<comment> \<open>only so many columns of a rendered text\<close>
  | Picture int int int int     \<comment> \<open>another surface of a size, copied to a position\<close>

record screen_env =
  screen_w :: int
  screen_h :: int
  PADDING :: int
  mode_main :: bool
  text_size :: "font \<Rightarrow> string \<Rightarrow> int \<times> int"

definition text_w :: "screen_env \<Rightarrow> font \<Rightarrow> string \<Rightarrow> int" where "text_w e f s = fst (text_size e f s)"
definition text_h :: "screen_env \<Rightarrow> font \<Rightarrow> string \<Rightarrow> int" where "text_h e f s = snd (text_size e f s)"

fun draw_area :: "screen_env \<Rightarrow> draw \<Rightarrow> rect" where
  "draw_area e (Sheet (sx, sy, w, h) x y) = (x, y, w, h)"
| "draw_area e (Fill r c) = r"
| "draw_area e (Glyphs f s c x y) = (x, y, text_w e f s, text_h e f s)"
| "draw_area e (Glyphs_cut f s c w x y) = (x, y, min w (text_w e f s), text_h e f s)"
| "draw_area e (Picture w h x y) = (x, y, w, h)"

subsection \<open>Pieces\<close>

definition GFX_blitAsset :: "asset \<Rightarrow> rect option \<Rightarrow> int \<Rightarrow> int \<Rightarrow> draw list" where
  "GFX_blitAsset a src_rect x y =
     (case asset_rects a of (ax, ay, aw, ah) \<Rightarrow>
      case src_rect of
        None \<Rightarrow> [Sheet (ax, ay, aw, ah) x y]
      | Some (sx, sy, sw, sh) \<Rightarrow> [Sheet (ax + sx, ay + sy, sw, sh) x y])"

definition GFX_blitPill :: "asset \<Rightarrow> rect \<Rightarrow> draw list" where
  "GFX_blitPill a dst_rect =
     (case (asset_rects a, dst_rect) of ((_, _, _, ah), (x, y, w, h)) \<Rightarrow>
      let h = (if h = 0 then ah else h);
          r = half h;
          w = (if w < h then h else w) - h
      in GFX_blitAsset a (Some (0, 0, r, h)) x y
         @ (if w > 0 then [Fill (x + r, y, w, h) (asset_rgbs a)] else [])
         @ GFX_blitAsset a (Some (r, 0, r, h)) (if w > 0 then x + r + w else x + r) y)"

definition GFX_blitRect :: "asset \<Rightarrow> rect \<Rightarrow> draw list" where
  "GFX_blitRect a dst_rect =
     (case (asset_rects a, dst_rect) of ((_, _, d, _), (x, y, w, h)) \<Rightarrow>
      let c = asset_rgbs a; r = half d in
      GFX_blitAsset a (Some (0, 0, r, r)) x y
      @ [Fill (x + r, y, w - d, r) c]
      @ GFX_blitAsset a (Some (r, 0, r, r)) (x + w - r) y
      @ [Fill (x, y + r, w, h - d) c]
      @ GFX_blitAsset a (Some (0, r, r, r)) x (y + h - r)
      @ [Fill (x + r, y + h - r, w - d, r) c]
      @ GFX_blitAsset a (Some (r, r, r, r)) (x + w - r) (y + h - r))"

definition GFX_blitBattery :: "bool \<Rightarrow> int \<Rightarrow> int \<Rightarrow> int \<Rightarrow> draw list" where
  \<comment> \<open>\<open>pwr.is_charging\<close> and \<open>pwr.charge\<close>\<close>
  "GFX_blitBattery plugged percent x y =
     (case asset_rects ASSET_BATTERY of (_, _, bw, bh) \<Rightarrow>
      let x = x + half (SCALE1 PILL_SIZE - (bw + FIXED_SCALE)); y = y + half (SCALE1 PILL_SIZE - bh) in
      if plugged
      then GFX_blitAsset ASSET_BATTERY None x y @ GFX_blitAsset ASSET_BATTERY_BOLT None (x + SCALE1 3) (y + SCALE1 2)
      else
        GFX_blitAsset (if percent \<le> 10 then ASSET_BATTERY_LOW else ASSET_BATTERY) None x y
        @ (case asset_rects ASSET_BATTERY_FILL of (fx, fy, fw, fh) \<Rightarrow>
           let clip_w = fw * percent div 100; clip_x = fw - clip_w in
           if clip_w \<le> 0 then []
           else GFX_blitAsset (if percent \<le> 20 then ASSET_BATTERY_FILL_LOW else ASSET_BATTERY_FILL) (Some (clip_x, 0, clip_w, fh))
                  (x + SCALE1 3 + clip_x) (y + SCALE1 2)))"

definition BRIGHTNESS_BUTTON_LABEL :: string where "BRIGHTNESS_BUTTON_LABEL = ''+ -''"

definition GFX_getButtonWidth :: "screen_env \<Rightarrow> string \<Rightarrow> string \<Rightarrow> int" where
  "GFX_getButtonWidth e hint button =
     (let special_case = (button = BRIGHTNESS_BUTTON_LABEL);
          button_width = (if length button = 1 then SCALE1 BUTTON_SIZE
                          else half (SCALE1 BUTTON_SIZE) + text_w e (if special_case then font_large else font_tiny) button)
      in button_width + SCALE1 BUTTON_MARGIN + (text_w e font_small hint + SCALE1 BUTTON_MARGIN))"

definition GFX_blitButton :: "screen_env \<Rightarrow> string \<Rightarrow> string \<Rightarrow> int \<Rightarrow> int \<Rightarrow> draw list" where
  "GFX_blitButton e hint button x y =
     (let special_case = (button = BRIGHTNESS_BUTTON_LABEL);
          f = (if special_case then font_large else font_tiny);
          quarter = half (half (SCALE1 BUTTON_SIZE));
          label = (if length button = 1
            then GFX_blitAsset ASSET_BUTTON None x y
                 @ [Glyphs font_medium button RGB_GRAY (x + half (SCALE1 BUTTON_SIZE - text_w e font_medium button))
                      (y + half (SCALE1 BUTTON_SIZE - text_h e font_medium button))]
            else GFX_blitPill ASSET_BUTTON (x, y, half (SCALE1 BUTTON_SIZE) + text_w e f button, SCALE1 BUTTON_SIZE)
                 @ [Glyphs f button RGB_GRAY (quarter + x)
                      ((if special_case then SCALE1 (- 2) else 0) + y + half (SCALE1 BUTTON_SIZE - text_h e f button))]);
          ox = (if length button = 1 then SCALE1 BUTTON_SIZE else quarter + text_w e f button + quarter) + SCALE1 BUTTON_MARGIN
      in label @ [Glyphs font_small hint RGB_WHITE (ox + x) (y + half (SCALE1 BUTTON_SIZE - text_h e font_small hint))])"

subsection \<open>Text of several rows\<close>

definition TEXT_BOX_MAX_ROWS :: nat where "TEXT_BOX_MAX_ROWS = 16"
definition LINE_HEIGHT :: int where "LINE_HEIGHT = 24"

fun message_rows :: "nat \<Rightarrow> string \<Rightarrow> string list option" where
  \<comment> \<open>the rows of a text of at most that many line feeds\<close>
  "message_rows n s =
     (case strchr s char_newline of
        None \<Rightarrow> Some [s]
      | Some i \<Rightarrow> (case n of 0 \<Rightarrow> None | Suc k \<Rightarrow> map_option (Cons (take i s)) (message_rows k (drop (Suc i) s))))"

fun blit_rows :: "screen_env \<Rightarrow> font \<Rightarrow> rgb \<Rightarrow> int \<Rightarrow> int \<Rightarrow> int \<Rightarrow> int \<Rightarrow> string list \<Rightarrow> draw list" where
  "blit_rows e f c x w y leading [] = []"
| "blit_rows e f c x w y leading (l # ls) =
     (if l \<noteq> [] then [Glyphs f l c (x + half (w - text_w e f l)) y] else []) @ blit_rows e f c x w (y + leading) leading ls"

definition line_fits :: "string \<Rightarrow> bool" where
  \<comment> \<open>a row and its NUL in \<open>char line[256]\<close>\<close>
  "line_fits l \<longleftrightarrow> length l < 256"

definition GFX_blitMessage :: "screen_env \<Rightarrow> font \<Rightarrow> string \<Rightarrow> rect option \<Rightarrow> draw list option" where
  "GFX_blitMessage e f msg dst_rect =
     (case (case dst_rect of Some r \<Rightarrow> r | None \<Rightarrow> (0, 0, screen_w e, screen_h e)) of (x, y, w, h) \<Rightarrow>
      case message_rows (TEXT_BOX_MAX_ROWS - 2) msg of
        None \<Rightarrow> Some []
      | Some rows \<Rightarrow>
          if list_all line_fits rows
          then Some (blit_rows e f RGB_WHITE x w (y + half (h - SCALE1 LINE_HEIGHT * int (length rows))) (SCALE1 LINE_HEIGHT) rows)
          else None)"

definition GFX_blitText :: "screen_env \<Rightarrow> font \<Rightarrow> string \<Rightarrow> int \<Rightarrow> rgb \<Rightarrow> rect option \<Rightarrow> draw list option" where
  "GFX_blitText e f str leading c dst_rect =
     (case (case dst_rect of Some r \<Rightarrow> r | None \<Rightarrow> (0, 0, screen_w e, screen_h e)) of (x, y, w, h) \<Rightarrow>
      let rows = text_lines (MAX_TEXT_LINES - 1) str in
      if list_all line_fits rows then Some (blit_rows e f c x w y leading rows) else None)"

subsection \<open>Groups in the corners\<close>

record hardware =
  hw_hdmi :: bool
  hw_brightness :: int
  hw_volume :: int
  hw_online :: bool
  hw_charging :: bool
  hw_charge :: int

definition pill_asset :: "screen_env \<Rightarrow> asset" where
  "pill_asset e = (if mode_main e then ASSET_DARK_GRAY_PILL else ASSET_BLACK_PILL)"

definition setting_bar :: "int \<Rightarrow> int \<Rightarrow> int \<Rightarrow> int" where
  \<comment> \<open>\<open>SCALE1(SETTINGS_WIDTH) * percent\<close>, cut to an integer. At every level the quotient of the product is an integer and the \<open>float\<close>
    product rounds to it\<close>
  "setting_bar v lo hi = SCALE1 SETTINGS_WIDTH * (v - lo) div (hi - lo)"

definition GFX_blitHardwareGroup :: "screen_env \<Rightarrow> hardware \<Rightarrow> int \<Rightarrow> draw list \<times> int" where
  "GFX_blitHardwareGroup e hw setting =
     (if setting \<noteq> 0 \<and> \<not> hw_hdmi hw then
        (let ow = SCALE1 (PILL_SIZE + SETTINGS_WIDTH + 10 + 4);
             ox = screen_w e - SCALE1 (PADDING e) - ow;
             oy = SCALE1 (PADDING e);
             bright = (setting = 1);
             v = (if bright then hw_brightness hw else hw_volume hw);
             hi = uint (if bright then BRIGHTNESS_MAX else VOLUME_MAX);
             a = (if bright then ASSET_BRIGHTNESS else if v > 0 then ASSET_VOLUME else ASSET_VOLUME_MUTE);
             bx = ox + SCALE1 PILL_SIZE;
             by = oy + SCALE1 (half (PILL_SIZE - SETTINGS_SIZE))
         in (GFX_blitPill (pill_asset e) (ox, oy, ow, SCALE1 PILL_SIZE)
             @ GFX_blitAsset a None (ox + (if bright then SCALE1 6 else SCALE1 8)) (oy + (if bright then SCALE1 5 else SCALE1 7))
             @ GFX_blitPill (if mode_main e then ASSET_BAR_BG else ASSET_BAR_BG_MENU) (bx, by, SCALE1 SETTINGS_WIDTH, SCALE1 SETTINGS_SIZE)
             @ (if bright \<or> v > 0 then GFX_blitPill ASSET_BAR (bx, by, setting_bar v 0 hi, SCALE1 SETTINGS_SIZE) else []), ow))
      else
        (let ww = SCALE1 (PILL_SIZE - 3);
             charge_str = dec_int (hw_charge hw) @ ''%'';
             cw = text_w e font_tiny charge_str + SCALE1 6;
             ow = SCALE1 PILL_SIZE + (if hw_online hw then ww else 0) + cw;
             ox = screen_w e - SCALE1 (PADDING e) - ow;
             oy = SCALE1 (PADDING e);
             tx = (if hw_online hw then ox + ww else ox)
         in (GFX_blitPill (pill_asset e) (ox, oy, ow, SCALE1 PILL_SIZE)
             @ (if hw_online hw
                then case asset_rects ASSET_WIFI of (_, _, rw, rh) \<Rightarrow>
                  GFX_blitAsset ASSET_WIFI None (ox + half (SCALE1 PILL_SIZE - rw)) (oy + half (SCALE1 PILL_SIZE - rh))
                else [])
             @ [Glyphs font_tiny charge_str COLOR_LIGHT_TEXT (tx + SCALE1 9) (oy + half (SCALE1 PILL_SIZE - text_h e font_tiny charge_str))]
             @ GFX_blitBattery (hw_charging hw) (hw_charge hw) (tx + cw) oy, ow)))"

fun blit_hints :: "screen_env \<Rightarrow> int \<Rightarrow> int \<Rightarrow> (string \<times> string) list \<Rightarrow> draw list" where
  "blit_hints e ox oy [] = []"
| "blit_hints e ox oy ((button, hint) # hs) =
     GFX_blitButton e hint button ox oy @ blit_hints e (ox + (GFX_getButtonWidth e hint button + SCALE1 BUTTON_MARGIN)) oy hs"

definition GFX_blitButtonGroup :: "screen_env \<Rightarrow> (string \<times> string) list \<Rightarrow> nat \<Rightarrow> bool \<Rightarrow> draw list \<times> int" where
  \<comment> \<open>the pairs before the NULL, of which two are read\<close>
  "GFX_blitButtonGroup e pairs primary align_right =
     (let hints = (let two = take 2 pairs in
                   if FIXED_WIDTH < 320 then (if primary < length two then [two ! primary] else []) else two);
          ow = (\<Sum>(button, hint) \<leftarrow> hints. SCALE1 BUTTON_MARGIN + GFX_getButtonWidth e hint button) + SCALE1 BUTTON_MARGIN;
          ox = (if align_right then screen_w e - SCALE1 (PADDING e) - ow else SCALE1 (PADDING e));
          oy = screen_h e - SCALE1 (PADDING e + PILL_SIZE)
      in (GFX_blitPill (pill_asset e) (ox, oy, ow, SCALE1 PILL_SIZE)
          @ blit_hints e (ox + SCALE1 BUTTON_MARGIN) (oy + SCALE1 BUTTON_MARGIN) hints, ow))"

definition GFX_blitHardwareHints :: "screen_env \<Rightarrow> int \<Rightarrow> draw list" where
  \<comment> \<open>\<open>BTN_MOD_VOLUME\<close> is \<open>BTN_NONE\<close> on both machines\<close>
  "GFX_blitHardwareHints e setting =
     fst (GFX_blitButtonGroup e [(if setting = 1 then BRIGHTNESS_BUTTON_LABEL else ''MENU'', ''BRIGHTNESS'')] 0 False)"

subsection \<open>Pacing\<close>

datatype vsync = VSYNC_OFF | VSYNC_LENIENT | VSYNC_STRICT

definition FRAME_BUDGET :: u32 where "FRAME_BUDGET = 17"

definition should_vsync :: "vsync \<Rightarrow> u32 \<Rightarrow> u32 \<Rightarrow> bool" where
  \<comment> \<open>with \<open>frame_start\<close> and \<open>SDL_GetTicks()\<close>\<close>
  "should_vsync vs frame_start tick \<longleftrightarrow> vs \<noteq> VSYNC_OFF \<and> (vs = VSYNC_STRICT \<or> frame_start = 0 \<or> tick - frame_start < FRAME_BUDGET)"

datatype pause = Vsync int | Delay int

definition GFX_sync :: "vsync \<Rightarrow> u32 \<Rightarrow> u32 \<Rightarrow> pause option" where
  "GFX_sync vs frame_start tick =
     (let frame_duration = tick - frame_start in
      if vs \<noteq> VSYNC_OFF
      then (if vs = VSYNC_STRICT \<or> frame_start = 0 \<or> frame_duration < FRAME_BUDGET
            then Some (Vsync (sint (FRAME_BUDGET - frame_duration))) else None)
      else if frame_duration < FRAME_BUDGET then Some (Delay (uint (FRAME_BUDGET - frame_duration))) else None)"

definition GFX_hdmiChanged :: "bool \<Rightarrow> bool option \<Rightarrow> bool \<times> bool option" where
  \<comment> \<open>the static \<open>had_hdmi\<close>, \<open>-1\<close> before the first call\<close>
  "GFX_hdmiChanged has_hdmi had_hdmi =
     (let had = (case had_hdmi of None \<Rightarrow> has_hdmi | Some h \<Rightarrow> h) in (had \<noteq> has_hdmi, Some has_hdmi))"

lemma sync_delay: "GFX_sync vs frame_start tick = Some (Delay n) \<Longrightarrow> 0 < n \<and> n \<le> 17"
  by (auto simp: GFX_sync_def FRAME_BUDGET_def Let_def word_less_def uint_word_ariths split: if_splits)

lemma hdmiChanged_runs:
  "fst (GFX_hdmiChanged h s) \<longleftrightarrow> s = Some (\<not> h)" "fst (GFX_hdmiChanged h (snd (GFX_hdmiChanged h s))) = False"
  by (auto simp: GFX_hdmiChanged_def Let_def split: option.splits)

subsection \<open>Facts\<close>

fun inside :: "rect \<Rightarrow> rect \<Rightarrow> bool" where
  "inside (ax, ay, aw, ah) (bx, by, bw, bh) \<longleftrightarrow> bx \<le> ax \<and> by \<le> ay \<and> ax + aw \<le> bx + bw \<and> ay + ah \<le> by + bh"

fun apart :: "rect \<Rightarrow> rect \<Rightarrow> bool" where
  "apart (ax, ay, aw, ah) (bx, by, bw, bh) \<longleftrightarrow> ax + aw \<le> bx \<or> bx + bw \<le> ax \<or> ay + ah \<le> by \<or> by + bh \<le> ay"

fun pixels :: "rect \<Rightarrow> (int \<times> int) set" where
  "pixels (x, y, w, h) = {x ..< x + w} \<times> {y ..< y + h}"

definition draws_inside :: "screen_env \<Rightarrow> draw list \<Rightarrow> rect \<Rightarrow> bool" where
  "draws_inside e ds r \<longleftrightarrow> (\<forall>d \<in> set ds. inside (draw_area e d) r)"

lemma draws_inside_append [simp]: "draws_inside e (xs @ ys) r \<longleftrightarrow> draws_inside e xs r \<and> draws_inside e ys r"
  by (auto simp: draws_inside_def)

lemma draws_inside_Cons [simp]: "draws_inside e (d # ds) r \<longleftrightarrow> inside (draw_area e d) r \<and> draws_inside e ds r"
  by (auto simp: draws_inside_def)

lemma draws_inside_Nil [simp]: "draws_inside e [] r"
  by (simp add: draws_inside_def)

lemma inside_trans: "inside a b \<Longrightarrow> inside b c \<Longrightarrow> inside a c"
  by (cases a; cases b; cases c) auto

lemma draws_inside_mono: "draws_inside e ds r \<Longrightarrow> inside r r' \<Longrightarrow> draws_inside e ds r'"
  by (auto simp: draws_inside_def intro: inside_trans)

lemma inside_apart: "inside a r \<Longrightarrow> inside b s \<Longrightarrow> apart r s \<Longrightarrow> apart a b"
  by (cases a; cases b; cases r; cases s) auto

lemma apart_pixels: "apart a b \<Longrightarrow> pixels a \<inter> pixels b = {}"
  by (cases a; cases b) auto

lemma half_even [simp]: "half (2 * a) = a"
  unfolding half_def by presburger

lemma half_bounds: "0 \<le> a \<Longrightarrow> 0 \<le> half a \<and> half a + half a \<le> a"
  by (simp add: half_def)

lemma blitAsset_area [simp]: "draws_inside e (GFX_blitAsset a (Some (sx, sy, w, h)) x y) r \<longleftrightarrow> inside (x, y, w, h) r"
  by (simp add: GFX_blitAsset_def split: prod.splits)

lemma blitAsset_whole [simp]:
  "draws_inside e (GFX_blitAsset a None x y) r \<longleftrightarrow> inside (x, y, fst (snd (snd (asset_rects a))), snd (snd (snd (asset_rects a)))) r"
  by (cases "asset_rects a") (simp add: GFX_blitAsset_def)

lemma blitPill_inside:
  assumes "0 < h" "h \<le> w" "inside (x, y, w, h) r"
  shows "draws_inside e (GFX_blitPill a (x, y, w, h)) r"
proof -
  obtain ax ay aw ah where "asset_rects a = (ax, ay, aw, ah)" by (cases "asset_rects a")
  then show ?thesis
    using assms half_bounds [of h] by (cases r) (auto simp: GFX_blitPill_def Let_def)
qed

text \<open>A pill of even height is covered completely, with no pixel drawn twice.\<close>

lemma pill_tiles:
  assumes "0 < h" "even h" "h \<le> w"
  shows "(\<Union>d \<in> set (GFX_blitPill a (x, y, w, h)). pixels (draw_area e d)) = pixels (x, y, w, h)"
    and "sorted_wrt (\<lambda>d d'. apart (draw_area e d) (draw_area e d')) (GFX_blitPill a (x, y, w, h))"
proof -
  obtain ax ay aw ah where rect: "asset_rects a = (ax, ay, aw, ah)" by (cases "asset_rects a")
  obtain r where r: "h = 2 * r" using assms(2) by (elim evenE)
  show "(\<Union>d \<in> set (GFX_blitPill a (x, y, w, h)). pixels (draw_area e d)) = pixels (x, y, w, h)"
    using rect r assms(1,3) by (auto simp: GFX_blitPill_def GFX_blitAsset_def Let_def)
  show "sorted_wrt (\<lambda>d d'. apart (draw_area e d) (draw_area e d')) (GFX_blitPill a (x, y, w, h))"
    using rect r assms(1,3) by (auto simp: GFX_blitPill_def GFX_blitAsset_def Let_def)
qed

text \<open>So is a rectangle with rounded corners.\<close>

lemma rect_tiles:
  assumes "asset_rects a = (ax, ay, d, ad)" "even d" "0 < d" "d \<le> w" "d \<le> h"
  shows "(\<Union>d \<in> set (GFX_blitRect a (x, y, w, h)). pixels (draw_area e d)) = pixels (x, y, w, h)"
    and "sorted_wrt (\<lambda>d d'. apart (draw_area e d) (draw_area e d')) (GFX_blitRect a (x, y, w, h))"
proof -
  obtain r where r: "d = 2 * r" using assms(2) by (elim evenE)
  show "(\<Union>d \<in> set (GFX_blitRect a (x, y, w, h)). pixels (draw_area e d)) = pixels (x, y, w, h)"
    using r assms(1,3-) by (auto simp: GFX_blitRect_def GFX_blitAsset_def Let_def)
  show "sorted_wrt (\<lambda>d d'. apart (draw_area e d) (draw_area e d')) (GFX_blitRect a (x, y, w, h))"
    using r assms(1,3-) by (auto simp: GFX_blitRect_def GFX_blitAsset_def Let_def)
qed

subsection \<open>Buttons with hints\<close>

fun hint_ok :: "screen_env \<Rightarrow> string \<times> string \<Rightarrow> bool" where
  \<comment> \<open>what the layout relies on of the fonts: a letter fits its button, and no text is taller than a button\<close>
  "hint_ok e (button, hint) \<longleftrightarrow>
     0 \<le> text_w e font_small hint \<and> text_h e font_small hint \<in> {0 .. SCALE1 BUTTON_SIZE}
     \<and> (if length button = 1
        then text_w e font_medium button \<in> {0 .. SCALE1 BUTTON_SIZE} \<and> text_h e font_medium button \<in> {0 .. SCALE1 BUTTON_SIZE}
        else let f = (if button = BRIGHTNESS_BUTTON_LABEL then font_large else font_tiny) in
          half (SCALE1 BUTTON_SIZE) \<le> text_w e f button \<and> text_h e f button \<in> {0 .. SCALE1 BUTTON_SIZE})"

declare hint_ok.simps [simp del]

lemma getButtonWidth_least: "hint_ok e (button, hint) \<Longrightarrow> SCALE1 (BUTTON_SIZE + BUTTON_MARGIN * 2) \<le> GFX_getButtonWidth e hint button"
  by (auto simp: hint_ok.simps GFX_getButtonWidth_def layout_defs half_def Let_def split: if_splits)

lemma getButtonWidth_pos: "hint_ok e (button, hint) \<Longrightarrow> 0 \<le> GFX_getButtonWidth e hint button"
  using getButtonWidth_least [of e button hint] by (simp add: layout_defs)

text \<open>A button and its hint take the width that was computed for them, less the margin after it.\<close>

lemma blitButton_inside:
  assumes "hint_ok e (button, hint)"
  shows "draws_inside e (GFX_blitButton e hint button x y)
    (x, y - SCALE1 2, GFX_getButtonWidth e hint button - SCALE1 BUTTON_MARGIN, SCALE1 BUTTON_SIZE + SCALE1 2)"
proof (cases "length button = 1")
  case True
  then show ?thesis using assms
    by (auto simp: hint_ok.simps GFX_blitButton_def GFX_getButtonWidth_def layout_defs half_def Let_def SCALE4_def)
next
  case False
  then show ?thesis using assms
    by (auto simp: hint_ok.simps GFX_blitButton_def GFX_getButtonWidth_def layout_defs half_def Let_def intro!: blitPill_inside)
qed

lemma blit_hints_inside:
  assumes "\<forall>h \<in> set hs. hint_ok e h"
  shows "draws_inside e (blit_hints e x y hs)
    (x, y - SCALE1 2, (\<Sum>(b, h) \<leftarrow> hs. SCALE1 BUTTON_MARGIN + GFX_getButtonWidth e h b), SCALE1 BUTTON_SIZE + SCALE1 2)"
  using assms
proof (induction hs arbitrary: x)
  case Nil
  then show ?case by simp
next
  case (Cons bh hs)
  obtain b h where bh: "bh = (b, h)" by (cases bh)
  have ok: "hint_ok e (b, h)" using Cons.prems bh by simp
  have pos: "0 \<le> (\<Sum>(b, h) \<leftarrow> hs. SCALE1 BUTTON_MARGIN + GFX_getButtonWidth e h b)"
    using Cons.prems getButtonWidth_pos by (intro sum_list_nonneg) (auto simp: layout_defs)
  have "draws_inside e (GFX_blitButton e h b x y)
    (x, y - SCALE1 2, (\<Sum>(b, h) \<leftarrow> bh # hs. SCALE1 BUTTON_MARGIN + GFX_getButtonWidth e h b), SCALE1 BUTTON_SIZE + SCALE1 2)"
    by (rule draws_inside_mono [OF blitButton_inside [OF ok]]) (use pos bh in \<open>simp add: layout_defs\<close>)
  moreover have "draws_inside e (blit_hints e (x + (GFX_getButtonWidth e h b + SCALE1 BUTTON_MARGIN)) y hs)
    (x, y - SCALE1 2, (\<Sum>(b, h) \<leftarrow> bh # hs. SCALE1 BUTTON_MARGIN + GFX_getButtonWidth e h b), SCALE1 BUTTON_SIZE + SCALE1 2)"
    by (rule draws_inside_mono [OF Cons.IH]) (use Cons.prems getButtonWidth_pos [OF ok] bh in \<open>auto simp: layout_defs\<close>)
  ultimately show ?case using bh by simp
qed

definition group_width :: "screen_env \<Rightarrow> (string \<times> string) list \<Rightarrow> int" where
  "group_width e hints = (\<Sum>(b, h) \<leftarrow> take 2 hints. SCALE1 BUTTON_MARGIN + GFX_getButtonWidth e h b) + SCALE1 BUTTON_MARGIN"

definition group_rect :: "screen_env \<Rightarrow> (string \<times> string) list \<Rightarrow> bool \<Rightarrow> rect" where
  "group_rect e hints align_right =
     (if align_right then screen_w e - SCALE1 (PADDING e) - group_width e hints else SCALE1 (PADDING e),
      screen_h e - SCALE1 (PADDING e + PILL_SIZE), group_width e hints, SCALE1 PILL_SIZE)"

lemma group_width_least:
  assumes "\<forall>h \<in> set (take 2 hints). hint_ok e h" "hints \<noteq> []"
  shows "SCALE1 PILL_SIZE \<le> group_width e hints"
proof -
  obtain b h hs where hints: "hints = (b, h) # hs" using assms(2) by (metis neq_Nil_conv surj_pair)
  have "0 \<le> (\<Sum>(b, h) \<leftarrow> take 1 hs. SCALE1 BUTTON_MARGIN + GFX_getButtonWidth e h b)"
    using assms(1) hints getButtonWidth_pos by (intro sum_list_nonneg) (auto simp: layout_defs numeral_2_eq_2)
  then show ?thesis
    using getButtonWidth_least [of e b h] assms(1) hints by (simp add: group_width_def layout_defs numeral_2_eq_2)
qed

lemma buttonGroup_inside:
  assumes "\<forall>h \<in> set (take 2 hints). hint_ok e h" "hints \<noteq> []"
  shows "draws_inside e (fst (GFX_blitButtonGroup e hints primary right)) (group_rect e hints right)"
    and "snd (GFX_blitButtonGroup e hints primary right) = group_width e hints"
proof -
  have wide: "\<not> FIXED_WIDTH < 320" by (simp add: FIXED_WIDTH_def)
  show "snd (GFX_blitButtonGroup e hints primary right) = group_width e hints"
    using wide by (simp add: GFX_blitButtonGroup_def group_width_def Let_def)
  obtain x y where xy: "group_rect e hints right = (x, y, group_width e hints, SCALE1 PILL_SIZE)" by (simp add: group_rect_def)
  have "fst (GFX_blitButtonGroup e hints primary right)
      = GFX_blitPill (pill_asset e) (x, y, group_width e hints, SCALE1 PILL_SIZE)
        @ blit_hints e (x + SCALE1 BUTTON_MARGIN) (y + SCALE1 BUTTON_MARGIN) (take 2 hints)"
    using wide xy by (auto simp: GFX_blitButtonGroup_def group_rect_def group_width_def Let_def)
  moreover have "draws_inside e (GFX_blitPill (pill_asset e) (x, y, group_width e hints, SCALE1 PILL_SIZE)) (group_rect e hints right)"
    unfolding xy using group_width_least [OF assms] by (intro blitPill_inside) (simp_all add: layout_defs)
  moreover have "draws_inside e (blit_hints e (x + SCALE1 BUTTON_MARGIN) (y + SCALE1 BUTTON_MARGIN) (take 2 hints)) (group_rect e hints right)"
    unfolding xy
    by (rule draws_inside_mono [OF blit_hints_inside [OF assms(1)]]) (simp add: group_width_def layout_defs)
  ultimately show "draws_inside e (fst (GFX_blitButtonGroup e hints primary right)) (group_rect e hints right)" by simp
qed

subsection \<open>The battery and the levels\<close>

lemma blitPill_narrow: "0 < h \<Longrightarrow> GFX_blitPill a (x, y, w, h) = GFX_blitPill a (x, y, max w h, h)"
  by (simp add: GFX_blitPill_def Let_def max_def split: prod.splits)

text \<open>The charge is drawn inside the battery, at the right, as wide as the charge says.\<close>

lemma battery_inside:
  assumes "percent \<in> {0 .. 100}"
  shows "draws_inside e (GFX_blitBattery plugged percent x y) (x + 12, y + 20, 34, 20)"
proof -
  have "24 * percent div 100 \<le> 24" using assms zdiv_mono1 [of "24 * percent" "24 * 100" 100] by simp
  then show ?thesis
    by (auto simp: GFX_blitBattery_def layout_defs SCALE4_def half_def Let_def)
qed

definition hardware_rect :: "screen_env \<Rightarrow> int \<Rightarrow> rect" where
  "hardware_rect e ow = (screen_w e - SCALE1 (PADDING e) - ow, SCALE1 (PADDING e), ow, SCALE1 PILL_SIZE)"

definition hardware_ok :: "screen_env \<Rightarrow> hardware \<Rightarrow> bool" where
  \<comment> \<open>the levels and the charge are in range and the charge is not taller than the pill\<close>
  "hardware_ok e hw \<longleftrightarrow> hw_brightness hw \<in> {0 .. uint BRIGHTNESS_MAX} \<and> hw_volume hw \<in> {0 .. uint VOLUME_MAX} \<and> hw_charge hw \<in> {0 .. 100}
     \<and> 0 \<le> text_w e font_tiny (dec_int (hw_charge hw) @ ''%'')
     \<and> text_h e font_tiny (dec_int (hw_charge hw) @ ''%'') \<in> {0 .. SCALE1 PILL_SIZE}"

lemma setting_bar_bounds:
  assumes "v \<in> {0 .. hi}" "0 < hi"
  shows "setting_bar v 0 hi \<in> {0 .. 160}"
proof -
  have "160 * v \<le> 160 * hi" "0 \<le> 160 * v" using assms by simp_all
  then have "160 * v div hi \<le> 160 * hi div hi" "0 \<le> 160 * v div hi"
    using assms(2) zdiv_mono1 [of "160 * v" "160 * hi" hi] by (simp_all add: pos_imp_zdiv_nonneg_iff)
  then show ?thesis using assms(2) by (simp add: setting_bar_def layout_defs)
qed

lemma hardwareGroup_inside:
  assumes "hardware_ok e hw"
  shows "draws_inside e (fst (GFX_blitHardwareGroup e hw setting)) (hardware_rect e (snd (GFX_blitHardwareGroup e hw setting)))"
proof (cases "setting \<noteq> 0 \<and> \<not> hw_hdmi hw")
  case True
  define v hi where "v = (if setting = 1 then hw_brightness hw else hw_volume hw)"
    and "hi = uint (if setting = 1 then BRIGHTNESS_MAX else VOLUME_MAX)"
  have "setting_bar v 0 hi \<in> {0 .. 160}"
    using assms by (intro setting_bar_bounds) (auto simp: v_def hi_def hardware_ok_def BRIGHTNESS_MAX_def VOLUME_MAX_def)
  then show ?thesis
    using True blitPill_narrow [of 8 ASSET_BAR _ _ "setting_bar v 0 hi"]
    by (auto simp: GFX_blitHardwareGroup_def hardware_rect_def layout_defs SCALE4_def half_def Let_def v_def [symmetric] hi_def [symmetric]
        intro!: blitPill_inside)
next
  case False
  let ?s = "dec_int (hw_charge hw) @ ''%''"
  define tw th where "tw = text_w e font_tiny ?s" and "th = text_h e font_tiny ?s"
  have sizes: "0 \<le> tw" "0 \<le> th" "th \<le> 60" using assms by (auto simp: hardware_ok_def tw_def th_def layout_defs)
  have battery: "draws_inside e (GFX_blitBattery (hw_charging hw) (hw_charge hw) x y) r" if "inside (x + 12, y + 20, 34, 20) r" for x y r
    using draws_inside_mono [OF battery_inside that] assms by (simp add: hardware_ok_def)
  show ?thesis
    using False sizes
    by (auto simp: GFX_blitHardwareGroup_def hardware_rect_def layout_defs SCALE4_def half_def Let_def tw_def [symmetric] th_def [symmetric]
        intro!: blitPill_inside battery)
qed

end
