(* ===== verification/Screen.thy ===== *)
theory Screen
  imports Browse Draw
begin

text \<open>
  The launcher's screen (\<open>minui.c\<close>: \<open>Menu_draw\<close>, \<open>Menu_drawVersionScreen\<close> and the loop of \<open>main\<close>): what is drawn
  for a state of the launcher, and when it is drawn again. Decoding a picture (\<open>IMG_Load\<close>) is an argument that gives its size.
\<close>

subsection \<open>The version\<close>

definition VERSION_LINE_HEIGHT :: int where "VERSION_LINE_HEIGHT = 24"

definition split_version :: "string \<Rightarrow> string \<times> string" where
  \<comment> \<open>the release and the commit\<close>
  "split_version s =
     (let release = (case strrchr s char_newline of Some i \<Rightarrow> take i s | None \<Rightarrow> s) in
      case strrchr release char_newline of Some i \<Rightarrow> (take i release, drop (Suc i) release) | None \<Rightarrow> (release, []))"

definition version_surface :: "screen_env \<Rightarrow> string \<Rightarrow> string \<Rightarrow> draw list \<times> int \<times> int" where
  \<comment> \<open>the text of \<open>version.txt\<close> and the model; gives what is drawn on a new surface, and its size\<close>
  "version_surface e file model =
     (let (release, commit) = split_version file;
          tw = text_w e font_large;
          l_width = max (tw ''Model'') (max (tw ''Commit'') (max (tw ''Release'') 0));
          r_width = max (tw model) (max (tw commit) (max (tw release) 0));
          x = l_width + SCALE1 8
      in ([Glyphs font_large ''Release'' COLOR_DARK_TEXT 0 0, Glyphs font_large release RGB_WHITE x 0,
           Glyphs font_large ''Commit'' COLOR_DARK_TEXT 0 (SCALE1 VERSION_LINE_HEIGHT),
           Glyphs font_large commit RGB_WHITE x (SCALE1 VERSION_LINE_HEIGHT),
           Glyphs font_large ''Model'' COLOR_DARK_TEXT 0 (SCALE1 (VERSION_LINE_HEIGHT * 3)),
           Glyphs font_large model RGB_WHITE x (SCALE1 (VERSION_LINE_HEIGHT * 3))],
          x + r_width, SCALE1 (VERSION_LINE_HEIGHT * 4)))"

definition setting_hints :: "screen_env \<Rightarrow> hardware \<Rightarrow> int \<Rightarrow> (string \<times> string) list \<Rightarrow> draw list" where
  "setting_hints e hw setting pairs =
     (if setting \<noteq> 0 \<and> \<not> hw_hdmi hw then GFX_blitHardwareHints e setting else fst (GFX_blitButtonGroup e pairs 0 False))"

definition Menu_drawVersionScreen :: "screen_env \<Rightarrow> hardware \<Rightarrow> int \<Rightarrow> int \<times> int \<Rightarrow> draw list" where
  \<comment> \<open>the size of the surface of the version, made at the first call\<close>
  "Menu_drawVersionScreen e hw setting dims =
     (case dims of (w, h) \<Rightarrow>
      [Picture w h (half (screen_w e - w)) (half (screen_h e - h))]
      @ setting_hints e hw setting [(''POWER'', ''SLEEP'')]
      @ fst (GFX_blitButtonGroup e [(''B'', ''BACK'')] 0 True))"

subsection \<open>Thumbnails\<close>

record thumb_cache =
  thumb_key :: string
  thumb :: "(int \<times> int) option"

definition res_path :: "string \<Rightarrow> string option" where
  \<comment> \<open>no result for a path without a slash, where the code reads past a null pointer\<close>
  "res_path p =
     map_option (\<lambda>i. snprintf_buf MAX_PATH (take i p @ ''/.res/'' @ drop (Suc i) p @ ''.png'')) (strrchr p (CHR ''/''))"

definition load_thumb :: "(string \<Rightarrow> (int \<times> int) option) \<Rightarrow> fs \<Rightarrow> string \<Rightarrow> thumb_cache \<Rightarrow> thumb_cache" where
  "load_thumb img_load fs key c =
     (if key \<noteq> thumb_key c then \<lparr>thumb_key = key, thumb = (if exists fs key then img_load key else None)\<rparr> else c)"

definition thumb_x :: "int \<times> int \<Rightarrow> int" where
  "thumb_x dims = max (FIXED_WIDTH - FIXED_HEIGHT) (FIXED_WIDTH - fst dims)"

subsection \<open>The list\<close>

definition row_available :: "screen_env \<Rightarrow> int option \<Rightarrow> int \<Rightarrow> bool \<Rightarrow> bool \<Rightarrow> int" where
  \<comment> \<open>the position of the thumbnail, the width of the group at the top, whether it is the first row, and the selected one\<close>
  "row_available e thumb_ox ow is_first is_selected =
     (case (if is_selected then None else thumb_ox) of
        Some ox \<Rightarrow> ox - SCALE1 (PADDING e * 2)
      | None \<Rightarrow> screen_w e - SCALE1 (PADDING e * 2) - (if is_first then ow else 0))"

definition row_y :: "screen_env \<Rightarrow> int \<Rightarrow> int" where
  "row_y e j = SCALE1 (PADDING e + j * PILL_SIZE)"

definition row_text :: "screen_env \<Rightarrow> int \<Rightarrow> int \<Rightarrow> string \<Rightarrow> rgb \<Rightarrow> draw" where
  "row_text e j max_width s c =
     Glyphs_cut font_large s c (max_width - SCALE1 (BUTTON_PADDING * 2)) (SCALE1 (PADDING e + BUTTON_PADDING))
       (SCALE1 (PADDING e + j * PILL_SIZE + 4))"

definition menu_row :: "screen_env \<Rightarrow> int option \<Rightarrow> int \<Rightarrow> int \<Rightarrow> int \<Rightarrow> Entry \<Rightarrow> draw list option" where
  "menu_row e thumb_ox ow selected_row j entry =
     (let avail = row_available e thumb_ox ow (j = 0) (j = selected_row);
          fit = (\<lambda>s. GFX_truncateText (text_w e font_large) s avail (SCALE1 (BUTTON_PADDING * 2)));
          entry_name = trimSortingMeta (name entry)
      in case fit (case unique entry of Some u \<Rightarrow> u | None \<Rightarrow> entry_name) of
           None \<Rightarrow> None
         | Some (display_name, text_width) \<Rightarrow>
             (let max_width = min avail text_width in
              if j = selected_row
              then Some (GFX_blitPill ASSET_WHITE_PILL (SCALE1 (PADDING e), row_y e j, max_width, SCALE1 PILL_SIZE)
                         @ [row_text e j max_width display_name RGB_WHITE])
              else case unique entry of
                None \<Rightarrow> Some [row_text e j max_width display_name RGB_WHITE]
              | Some u \<Rightarrow>
                  (case (fit (trimSortingMeta u), fit entry_name) of
                     (Some (unique_name, _), Some (display_name, _)) \<Rightarrow>
                       Some [row_text e j max_width unique_name COLOR_DARK_TEXT, row_text e j max_width display_name RGB_WHITE]
                   | _ \<Rightarrow> None)))"

definition menu_rows :: "screen_env \<Rightarrow> int option \<Rightarrow> int \<Rightarrow> Directory \<Rightarrow> draw list list option" where
  \<comment> \<open>no result when an entry outside the list is read\<close>
  "menu_rows e thumb_ox ow d =
     those (map (\<lambda>i. if 0 \<le> i \<and> i < int (length (entries d))
                     then menu_row e thumb_ox ow (selected d - start d) (i - start d) (entries d ! nat i) else None)
                [start d .. end_row d - 1])"

definition action_hints :: "launcher \<Rightarrow> (string \<times> string) list" where
  "action_hints st =
     (if entries (top st) = [] then (if length (stack st) > 1 then [(''B'', ''BACK'')] else [])
      else if length (stack st) > 1 then
        (if is_collection_entry (selected_entry (top st)) then [(''Y'', ''DELETE''), (''B'', ''BACK''), (''A'', ''OPEN'')]
         else [(''B'', ''BACK''), (''A'', ''OPEN'')])
      else [(''A'', ''OPEN'')])"

definition menu_hints :: "screen_env \<Rightarrow> hardware \<Rightarrow> int \<Rightarrow> launcher \<Rightarrow> draw list" where
  "menu_hints e hw setting st =
     setting_hints e hw setting (if can_resume st then [(''X'', ''RESUME'')] else [(''POWER'', ''SLEEP'')])
     @ (let hints = action_hints st in
        if hints = [] then [] else fst (GFX_blitButtonGroup e hints (if length hints > 1 then 1 else 0) True))"

definition Menu_draw :: "screen_env \<Rightarrow> (string \<Rightarrow> (int \<times> int) option) \<Rightarrow> int \<times> int \<Rightarrow> hardware \<Rightarrow> bool \<Rightarrow> int \<Rightarrow> launcher \<Rightarrow> thumb_cache
    \<Rightarrow> (draw list \<times> thumb_cache) option" where
  "Menu_draw e img_load version_size hw shows_version setting st c =
     (let d = top st; (group, ow) = GFX_blitHardwareGroup e hw setting in
      if shows_version then Some (group @ Menu_drawVersionScreen e hw setting version_size, c)
      else if entries d = [] then
        map_option (\<lambda>msg. (group @ msg @ menu_hints e hw setting st, c))
          (GFX_blitMessage e font_large ''Empty folder'' (Some (0, 0, screen_w e, screen_h e)))
      else case res_path (path (selected_entry d)) of
        None \<Rightarrow> None
      | Some key \<Rightarrow>
          (let c = load_thumb img_load (lfs st) key c;
               pic = (case thumb c of Some (w, h) \<Rightarrow> [Picture w h (thumb_x (w, h)) (half (FIXED_HEIGHT - h))] | None \<Rightarrow> [])
           in map_option (\<lambda>rows. (pic @ group @ concat rows @ menu_hints e hw setting st, c))
                (menu_rows e (map_option thumb_x (thumb c)) ow d)))"

subsection \<open>Layout\<close>

definition row_pad :: int where "row_pad = SCALE1 (BUTTON_PADDING * 2)"

definition font_ok :: "screen_env \<Rightarrow> bool" where
  \<comment> \<open>a text of the list is not taller than its row\<close>
  "font_ok e \<longleftrightarrow> (\<forall>s. 0 \<le> text_w e font_large s \<and> text_h e font_large s \<le> SCALE1 (PILL_SIZE - 4))"

definition row_names :: "Entry \<Rightarrow> string list" where
  "row_names entry = trimSortingMeta (name entry) # (case unique entry of Some u \<Rightarrow> [u, trimSortingMeta u] | None \<Rightarrow> [])"

definition row_fits :: "screen_env \<Rightarrow> int \<Rightarrow> Entry \<Rightarrow> bool" where
  \<comment> \<open>there is room for dots and for a pill, and the names are long enough to be cut\<close>
  "row_fits e avail entry \<longleftrightarrow> text_w e font_large dots + row_pad \<le> avail \<and> SCALE1 PILL_SIZE \<le> avail
     \<and> (\<forall>s \<in> set (row_names entry). 4 \<le> length s \<or> text_w e font_large s + row_pad \<le> avail)"

lemma truncate_fits:
  assumes "width dots + padding \<le> m" "4 \<le> length s \<or> width s + padding \<le> m"
  shows "\<exists>out. GFX_truncateText width s m padding = Some (out, width out + padding) \<and> width out + padding \<le> m"
  using truncate_result [of width padding m s] assms by blast

lemma menu_row_inside:
  assumes "font_ok e" and avail: "avail = row_available e thumb_ox ow (j = 0) (j = sel)" and "row_fits e avail entry"
  shows "\<exists>ds. menu_row e thumb_ox ow sel j entry = Some ds \<and> draws_inside e ds (SCALE1 (PADDING e), row_y e j, avail, SCALE1 PILL_SIZE)"
proof -
  let ?fit = "\<lambda>s. GFX_truncateText (text_w e font_large) s avail row_pad"
  have fit: "\<exists>out. ?fit s = Some (out, text_w e font_large out + row_pad) \<and> text_w e font_large out + row_pad \<le> avail"
    if "s \<in> set (row_names entry)" for s
    using that assms(3) by (intro truncate_fits) (auto simp: row_fits_def)
  have label: "inside (draw_area e (row_text e k m s c)) (SCALE1 (PADDING e), row_y e k, avail, SCALE1 PILL_SIZE)" if "m \<le> avail" for m s c k
    using that assms(1) by (auto simp: row_text_def row_y_def font_ok_def layout_defs min_le_iff_disj)
  have pill: "draws_inside e (GFX_blitPill ASSET_WHITE_PILL (SCALE1 (PADDING e), row_y e k, m, SCALE1 PILL_SIZE))
      (SCALE1 (PADDING e), row_y e k, avail, SCALE1 PILL_SIZE)" if "m \<le> avail" for m k
    using that assms(3)
    by (subst blitPill_narrow) (auto simp: row_fits_def layout_defs intro!: blitPill_inside)
  show ?thesis
  proof (cases "unique entry")
    case None
    then obtain out where "?fit (trimSortingMeta (name entry)) = Some (out, text_w e font_large out + row_pad)"
      using fit [of "trimSortingMeta (name entry)"] by (auto simp: row_names_def)
    then show ?thesis
      using None label pill by (simp add: menu_row_def Let_def avail [symmetric] row_pad_def)
  next
    case (Some u)
    then obtain o1 o2 o3 where "?fit u = Some (o1, text_w e font_large o1 + row_pad)"
      "?fit (trimSortingMeta u) = Some (o2, text_w e font_large o2 + row_pad)"
      "?fit (trimSortingMeta (name entry)) = Some (o3, text_w e font_large o3 + row_pad)"
      using fit [of u] fit [of "trimSortingMeta u"] fit [of "trimSortingMeta (name entry)"] by (auto simp: row_names_def)
    then show ?thesis
      using Some label pill by (simp add: menu_row_def Let_def avail [symmetric] row_pad_def)
  qed
qed

lemma those_all:
  assumes "\<forall>x \<in> set xs. \<exists>y. f x = Some y \<and> P x y"
  shows "\<exists>ys. those (map f xs) = Some ys \<and> list_all2 P xs ys"
  using assms by (induction xs) auto

definition row_width :: "screen_env \<Rightarrow> int option \<Rightarrow> int \<Rightarrow> Directory \<Rightarrow> nat \<Rightarrow> int" where
  "row_width e thumb_ox ow d k = row_available e thumb_ox ow (k = 0) (int k = selected d - start d)"

definition row_rect :: "screen_env \<Rightarrow> int option \<Rightarrow> int \<Rightarrow> Directory \<Rightarrow> nat \<Rightarrow> rect" where
  "row_rect e thumb_ox ow d k = (SCALE1 (PADDING e), row_y e (int k), row_width e thumb_ox ow d k, SCALE1 PILL_SIZE)"

definition rows_fit :: "screen_env \<Rightarrow> int option \<Rightarrow> int \<Rightarrow> Directory \<Rightarrow> bool" where
  "rows_fit e thumb_ox ow d \<longleftrightarrow>
     list_all (\<lambda>k. row_fits e (row_width e thumb_ox ow d k) (entries d ! nat (start d + int k))) [0 ..< nat (end_row d - start d)]"

lemma menu_rows_inside:
  assumes "font_ok e" "0 \<le> start d" "end_row d \<le> int (length (entries d))" "rows_fit e thumb_ox ow d"
  shows "\<exists>rows. menu_rows e thumb_ox ow d = Some rows \<and> length rows = nat (end_row d - start d)
    \<and> (\<forall>k < length rows. draws_inside e (rows ! k) (row_rect e thumb_ox ow d k))"
proof -
  let ?row = "\<lambda>i. if 0 \<le> i \<and> i < int (length (entries d))
    then menu_row e thumb_ox ow (selected d - start d) (i - start d) (entries d ! nat i) else None"
  have "\<exists>ds. ?row i = Some ds \<and> draws_inside e ds (row_rect e thumb_ox ow d (nat (i - start d)))"
    if "i \<in> set [start d .. end_row d - 1]" for i
  proof -
    have i: "start d \<le> i" "i < end_row d" using that by auto
    define k where "k = nat (i - start d)"
    have k: "i = start d + int k" "k < nat (end_row d - start d)" using i by (auto simp: k_def)
    have "row_fits e (row_width e thumb_ox ow d k) (entries d ! nat i)" using assms(4) k by (simp add: rows_fit_def list_all_iff)
    then obtain ds where "menu_row e thumb_ox ow (selected d - start d) (int k) (entries d ! nat i) = Some ds"
      "draws_inside e ds (SCALE1 (PADDING e), row_y e (int k), row_width e thumb_ox ow d k, SCALE1 PILL_SIZE)"
      using menu_row_inside [OF assms(1), of "row_width e thumb_ox ow d k" thumb_ox ow "int k" "selected d - start d" "entries d ! nat i"]
      by (auto simp: row_width_def)
    then show ?thesis using i k assms(2,3) by (simp add: row_rect_def)
  qed
  then have "\<forall>i \<in> set [start d .. end_row d - 1]. \<exists>ds. ?row i = Some ds \<and> draws_inside e ds (row_rect e thumb_ox ow d (nat (i - start d)))"
    by (rule ballI)
  from those_all [OF this] obtain rows where rows: "menu_rows e thumb_ox ow d = Some rows"
    "list_all2 (\<lambda>i ds. draws_inside e ds (row_rect e thumb_ox ow d (nat (i - start d)))) [start d .. end_row d - 1] rows"
    unfolding menu_rows_def by (elim exE conjE)
  have len: "length rows = nat (end_row d - start d)" using list_all2_lengthD [OF rows(2)] by simp
  have "draws_inside e (rows ! k) (row_rect e thumb_ox ow d k)" if k: "k < length rows" for k
  proof -
    have "[start d .. end_row d - 1] ! k = start d + int k"
      using nth_upto [of "start d" k "end_row d - 1"] k unfolding len by linarith
    then show ?thesis using list_all2_nthD2 [OF rows(2) k] by simp
  qed
  then show ?thesis using rows(1) len by blast
qed

definition screen_ok :: "screen_env \<Rightarrow> int \<Rightarrow> bool" where
  \<comment> \<open>room for \<open>MAIN_ROW_COUNT\<close> rows above the hints: 640 by 480 for 6, 1280 by 720 for 8\<close>
  "screen_ok e R \<longleftrightarrow> 0 \<le> PADDING e \<and> FIXED_WIDTH \<le> screen_w e \<and> row_y e R \<le> screen_h e - SCALE1 (PADDING e + PILL_SIZE)"

definition all_hints :: "(string \<times> string) list" where
  "all_hints = [(''POWER'', ''SLEEP''), (''X'', ''RESUME''), (''B'', ''BACK''), (''A'', ''OPEN''), (''Y'', ''DELETE''),
     (BRIGHTNESS_BUTTON_LABEL, ''BRIGHTNESS''), (''MENU'', ''BRIGHTNESS'')]"

definition left_hints :: "hardware \<Rightarrow> int \<Rightarrow> launcher \<Rightarrow> (string \<times> string) list" where
  "left_hints hw setting st =
     (if setting \<noteq> 0 \<and> \<not> hw_hdmi hw then [(if setting = 1 then BRIGHTNESS_BUTTON_LABEL else ''MENU'', ''BRIGHTNESS'')]
      else if can_resume st then [(''X'', ''RESUME'')] else [(''POWER'', ''SLEEP'')])"

lemma menu_hints_inside:
  assumes "list_all (hint_ok e) all_hints"
  shows "\<exists>left right. menu_hints e hw setting st = left @ right \<and> draws_inside e left (group_rect e (left_hints hw setting st) False)
    \<and> draws_inside e right (group_rect e (action_hints st) True)"
proof -
  have "\<forall>h \<in> set (take 2 (left_hints hw setting st)). hint_ok e h" "left_hints hw setting st \<noteq> []"
    using assms by (simp_all add: all_hints_def left_hints_def)
  then have "draws_inside e (fst (GFX_blitButtonGroup e (left_hints hw setting st) 0 False)) (group_rect e (left_hints hw setting st) False)"
    by (rule buttonGroup_inside)
  moreover have "setting_hints e hw setting (if can_resume st then [(''X'', ''RESUME'')] else [(''POWER'', ''SLEEP'')])
      = fst (GFX_blitButtonGroup e (left_hints hw setting st) 0 False)"
    by (simp add: setting_hints_def left_hints_def GFX_blitHardwareHints_def)
  moreover have "draws_inside e (fst (GFX_blitButtonGroup e (action_hints st) n True)) (group_rect e (action_hints st) True)"
    if "action_hints st \<noteq> []" for n
    using that assms by (intro buttonGroup_inside) (auto simp: all_hints_def action_hints_def numeral_2_eq_2)
  ultimately show ?thesis
    by (intro exI [of _ "fst (GFX_blitButtonGroup e (left_hints hw setting st) 0 False)"]
        exI [of _ "if action_hints st = [] then []
          else fst (GFX_blitButtonGroup e (action_hints st) (if length (action_hints st) > 1 then 1 else 0) True)"])
      (simp add: menu_hints_def Let_def)
qed

lemma hardware_width_pos: "hardware_ok e hw \<Longrightarrow> 0 \<le> snd (GFX_blitHardwareGroup e hw setting)"
  by (auto simp: GFX_blitHardwareGroup_def hardware_ok_def layout_defs Let_def)

lemma row_rect_clear:
  assumes "screen_ok e R" "0 \<le> ow" "int k < R" "\<forall>x. thumb_ox = Some x \<longrightarrow> x \<le> screen_w e - ow"
  shows "inside (row_rect e thumb_ox ow d k) (0, 0, screen_w e, screen_h e)"
    and "apart (row_rect e thumb_ox ow d k) (hardware_rect e ow)"
    and "apart (row_rect e thumb_ox ow d k) (group_rect e hints right)"
    and "j < k \<Longrightarrow> apart (row_rect e thumb_ox ow d j) (row_rect e thumb_ox ow d k)"
proof -
  have low: "row_y e (int k) + SCALE1 PILL_SIZE \<le> screen_h e - SCALE1 (PADDING e + PILL_SIZE)" "0 \<le> PADDING e"
    using assms(1,3) by (auto simp: screen_ok_def row_y_def layout_defs)
  then show "apart (row_rect e thumb_ox ow d k) (group_rect e hints right)"
    by (simp add: row_rect_def group_rect_def)
  have wide: "SCALE1 (PADDING e) + row_width e thumb_ox ow d k \<le> screen_w e - SCALE1 (PADDING e) - (if k = 0 then ow else 0)"
    using assms(2,4) low(2) by (auto simp: row_width_def row_available_def layout_defs split: option.splits)
  then show "inside (row_rect e thumb_ox ow d k) (0, 0, screen_w e, screen_h e)"
    using low assms(2) by (auto simp: row_rect_def row_y_def layout_defs split: if_splits)
  show "apart (row_rect e thumb_ox ow d k) (hardware_rect e ow)"
    using wide by (cases "k = 0") (auto simp: row_rect_def hardware_rect_def row_y_def layout_defs)
  show "apart (row_rect e thumb_ox ow d j) (row_rect e thumb_ox ow d k)" if "j < k"
    using that by (simp add: row_rect_def row_y_def layout_defs)
qed

definition thumb_rect :: "int \<times> int \<Rightarrow> rect" where
  "thumb_rect dims = (thumb_x dims, half (FIXED_HEIGHT - snd dims), fst dims, snd dims)"

definition thumb_draws :: "(int \<times> int) option \<Rightarrow> draw list" where
  "thumb_draws th = (case th of None \<Rightarrow> [] | Some (w, h) \<Rightarrow> [Picture w h (thumb_x (w, h)) (half (FIXED_HEIGHT - h))])"

lemma thumb_clear:
  assumes "0 \<le> PADDING e" "int k \<noteq> selected d - start d"
  shows "apart (row_rect e (Some (thumb_x dims)) ow d k) (thumb_rect dims)"
  using assms by (cases dims) (simp add: row_rect_def row_width_def row_available_def thumb_rect_def layout_defs)

lemma thumb_inside:
  assumes "FIXED_WIDTH \<le> screen_w e" "FIXED_HEIGHT \<le> screen_h e" "0 \<le> w" "w \<le> FIXED_HEIGHT" "0 \<le> h" "h \<le> FIXED_HEIGHT"
  shows "inside (thumb_rect (w, h)) (0, 0, screen_w e, screen_h e)"
  using assms by (auto simp: thumb_rect_def thumb_x_def half_def layout_defs)

text \<open>C22: The launcher's screen is laid out without collisions. For a folder that is not empty everything Menu_draw
  puts on the screen is, in this order, the thumbnail, the group of the battery and levels, one row per visible entry, and the two groups of hints.
  The thumbnail is centred in the height of the panel and ends at its right edge, on the screen when it is no larger than 480 by 480; no
  row but the selected one, which is drawn over it, touches it. Every row is on the screen, and no row touches another, the group at the top or the
  hints at the bottom. Names are cut to make room. Holds where every row has room for the padding and the dots of a cut name, which
  a full-size thumbnail does not leave on HDMI, and where the thumbnail is at least as wide as the group above it.\<close>

theorem launcher_layout:
  assumes "screen_ok e R" "font_ok e" "list_all (hint_ok e) all_hints" "hardware_ok e hw"
    and "dir_ok R (top st)" "entries (top st) \<noteq> []" "res_path (path (selected_entry (top st))) = Some key"
    and "load_thumb img_load (lfs st) key c = c'" "thumb_ox = map_option thumb_x (thumb c')"
    and "GFX_blitHardwareGroup e hw setting = (grp, ow)" "\<forall>x. thumb_ox = Some x \<longrightarrow> x \<le> screen_w e - ow"
    and "rows_fit e thumb_ox ow (top st)"
  shows "\<exists>rows left right.
    Menu_draw e img_load version_dims hw False setting st c = Some (thumb_draws (thumb c') @ grp @ concat rows @ left @ right, c')
    \<and> length rows = min (length (entries (top st))) (nat R)
    \<and> draws_inside e grp (hardware_rect e ow)
    \<and> draws_inside e left (group_rect e (left_hints hw setting st) False)
    \<and> draws_inside e right (group_rect e (action_hints st) True)
    \<and> (\<forall>w h. thumb c' = Some (w, h) \<longrightarrow> draws_inside e (thumb_draws (thumb c')) (thumb_rect (w, h))
        \<and> (FIXED_HEIGHT \<le> screen_h e \<and> 0 \<le> w \<and> w \<le> FIXED_HEIGHT \<and> 0 \<le> h \<and> h \<le> FIXED_HEIGHT \<longrightarrow>
             inside (thumb_rect (w, h)) (0, 0, screen_w e, screen_h e))
        \<and> (\<forall>k < length rows. int k \<noteq> selected (top st) - start (top st) \<longrightarrow> apart (row_rect e thumb_ox ow (top st) k) (thumb_rect (w, h))))
    \<and> (\<forall>k < length rows. draws_inside e (rows ! k) (row_rect e thumb_ox ow (top st) k)
        \<and> inside (row_rect e thumb_ox ow (top st) k) (0, 0, screen_w e, screen_h e)
        \<and> apart (row_rect e thumb_ox ow (top st) k) (hardware_rect e ow)
        \<and> apart (row_rect e thumb_ox ow (top st) k) (group_rect e (left_hints hw setting st) False)
        \<and> apart (row_rect e thumb_ox ow (top st) k) (group_rect e (action_hints st) True)
        \<and> (\<forall>j < k. apart (row_rect e thumb_ox ow (top st) j) (row_rect e thumb_ox ow (top st) k)))"
proof -
  have win: "0 \<le> start (top st)" "end_row (top st) \<le> int (length (entries (top st)))"
    "end_row (top st) - start (top st) = min (int (length (entries (top st)))) R"
    using assms(5,6) by (auto simp: dir_ok_def win_ok_def dir_cursor_def)
  obtain rows where rows: "menu_rows e thumb_ox ow (top st) = Some rows" "length rows = nat (end_row (top st) - start (top st))"
    "\<forall>k < length rows. draws_inside e (rows ! k) (row_rect e thumb_ox ow (top st) k)"
    using menu_rows_inside [OF assms(2) win(1,2) assms(12)] by blast
  obtain left right where hints: "menu_hints e hw setting st = left @ right"
    "draws_inside e left (group_rect e (left_hints hw setting st) False)"
    "draws_inside e right (group_rect e (action_hints st) True)"
    using menu_hints_inside [OF assms(3)] by blast
  have ow: "0 \<le> ow" "draws_inside e grp (hardware_rect e ow)"
    using hardware_width_pos [OF assms(4), of setting] hardwareGroup_inside [OF assms(4), of setting] assms(10) by simp_all
  have count: "length rows = min (length (entries (top st))) (nat R)" using rows(2) win(3) by linarith
  have draw: "Menu_draw e img_load version_dims hw False setting st c = Some (thumb_draws (thumb c') @ grp @ concat rows @ left @ right, c')"
    using assms(6,7,8,9,10) rows(1) hints(1) by (simp add: Menu_draw_def Let_def thumb_draws_def)
  have thumbs: "draws_inside e (thumb_draws (thumb c')) (thumb_rect (w, h))
        \<and> (FIXED_HEIGHT \<le> screen_h e \<and> 0 \<le> w \<and> w \<le> FIXED_HEIGHT \<and> 0 \<le> h \<and> h \<le> FIXED_HEIGHT \<longrightarrow>
             inside (thumb_rect (w, h)) (0, 0, screen_w e, screen_h e))
        \<and> (\<forall>k < length rows. int k \<noteq> selected (top st) - start (top st) \<longrightarrow> apart (row_rect e thumb_ox ow (top st) k) (thumb_rect (w, h)))"
    if "thumb c' = Some (w, h)" for w h
    using that assms(1,9) thumb_inside [of e w h] thumb_clear [of e _ "top st" "(w, h)" ow]
    by (simp add: thumb_draws_def thumb_rect_def screen_ok_def)
  have "int k < R" if "k < length rows" for k using that rows(2) win(3) by linarith
  note clear = row_rect_clear [OF assms(1) ow(1) this assms(11)]
  show ?thesis
    by (intro exI conjI; (rule draw count ow(2) hints(2,3))?) (use thumbs in blast, use rows(3) clear in blast)
qed

definition demo_screen :: screen_env where
  "demo_screen = \<lparr>screen_w = 640, screen_h = 480, PADDING = 10, mode_main = True, text_size = (\<lambda>f s. (10 * int (length s), 20))\<rparr>"

definition demo_hardware :: hardware where
  "demo_hardware = \<lparr>hw_hdmi = False, hw_brightness = 5, hw_volume = 5, hw_online = False, hw_charging = False, hw_charge = 80\<rparr>"

definition demo_thumbed :: launcher where
  "demo_thumbed = demo_launcher\<lparr>lfs := [(''/mnt/sdcard/.res/Tools.png'', File [])]\<rparr>"

definition demo_cached :: thumb_cache where
  "demo_cached = \<lparr>thumb_key = ''/mnt/sdcard/.res/Tools.png'', thumb = Some (300, 200)\<rparr>"

lemma demo_thumbed_top: "dir_ok 6 (top demo_thumbed)" "entries (top demo_thumbed) \<noteq> []"
  by (simp_all add: demo_thumbed_def demo_launcher_def top_def demo_dir_def dir_ok_def alpha_ok_def IntArray_new_ok win_ok_def dir_cursor_def Entry_new_def)

lemma demo_screen_ok:
  "screen_ok demo_screen 6" "font_ok demo_screen" "list_all (hint_ok demo_screen) all_hints" "hardware_ok demo_screen demo_hardware"
  "res_path (path (selected_entry (top demo_thumbed))) = Some ''/mnt/sdcard/.res/Tools.png''"
  "load_thumb (\<lambda>_. Some (300, 200)) (lfs demo_thumbed) ''/mnt/sdcard/.res/Tools.png'' \<lparr>thumb_key = [], thumb = None\<rparr> = demo_cached"
  "rows_fit demo_screen (Some 340) (snd (GFX_blitHardwareGroup demo_screen demo_hardware 0)) (top demo_thumbed)"
  "snd (GFX_blitHardwareGroup demo_screen demo_hardware 0) = 102"
proof -
  show "font_ok demo_screen" by (simp add: font_ok_def demo_screen_def text_w_def text_h_def layout_defs)
qed code_simp+

theorem launcher_layout_witness:
  "\<exists>rows left right grp.
    Menu_draw demo_screen (\<lambda>_. Some (300, 200)) (0, 0) demo_hardware False 0 demo_thumbed \<lparr>thumb_key = [], thumb = None\<rparr>
      = Some (thumb_draws (Some (300, 200)) @ grp @ concat rows @ left @ right, demo_cached)
    \<and> length rows = 2"
proof -
  have ox: "Some 340 = map_option thumb_x (thumb demo_cached)" by code_simp
  have grp: "GFX_blitHardwareGroup demo_screen demo_hardware 0
      = (fst (GFX_blitHardwareGroup demo_screen demo_hardware 0), snd (GFX_blitHardwareGroup demo_screen demo_hardware 0))" by simp
  have "\<forall>x. Some 340 = Some x \<longrightarrow> x \<le> screen_w demo_screen - snd (GFX_blitHardwareGroup demo_screen demo_hardware 0)"
    unfolding demo_screen_ok(8) by (simp add: demo_screen_def)
  moreover have "min (length (entries (top demo_thumbed))) (nat 6) = 2" by code_simp
  ultimately obtain rows left right where
    "Menu_draw demo_screen (\<lambda>_. Some (300, 200)) (0, 0) demo_hardware False 0 demo_thumbed \<lparr>thumb_key = [], thumb = None\<rparr>
      = Some (thumb_draws (thumb demo_cached) @ fst (GFX_blitHardwareGroup demo_screen demo_hardware 0) @ concat rows @ left @ right, demo_cached)"
    "length rows = 2"
    using launcher_layout [OF demo_screen_ok(1-4) demo_thumbed_top demo_screen_ok(5,6) ox grp _ demo_screen_ok(7), where version_dims = "(0, 0)"]
    by metis
  moreover have "thumb demo_cached = Some (300, 200)" by (simp add: demo_cached_def)
  ultimately show ?thesis by metis
qed

text \<open>In the Collections folder three hints are given but two are drawn: the hint for opening is never shown.\<close>

lemma delete_hides_open:
  assumes "is_collection_entry (selected_entry (top st))" "entries (top st) \<noteq> []" "1 < length (stack st)"
  shows "fst (GFX_blitButtonGroup e (action_hints st) 1 True) = fst (GFX_blitButtonGroup e [(''Y'', ''DELETE''), (''B'', ''BACK'')] 1 True)"
  using assms by (simp add: action_hints_def GFX_blitButtonGroup_def Let_def)

text \<open>With the padding of the HDMI screen a thumbnail of the full size leaves no room for the other rows: cutting
  their names never ends within the buffer.\<close>

lemma truncate_no_room:
  assumes "\<forall>s. max_width < width s + padding"
  shows "GFX_truncateText width s max_width padding = None"
  unfolding GFX_truncateText_def
proof (induction s rule: length_induct)
  case (1 s)
  then show ?case using assms by (subst truncate_loop.simps) (auto simp: Let_def dots_def)
qed

lemma hdmi_thumbnail_no_room:
  assumes "PADDING e = 40" "\<forall>s. 0 \<le> text_w e font_large s" "j \<noteq> sel"
  shows "menu_row e (Some (thumb_x (480, 480))) ow sel j entry = None"
proof -
  have avail: "row_available e (Some (thumb_x (480, 480))) ow (j = 0) (j = sel) = 0"
    using assms(1,3) by (simp add: row_available_def thumb_x_def layout_defs)
  have "GFX_truncateText (text_w e font_large) s 0 (SCALE1 (BUTTON_PADDING * 2)) = None" for s
    using assms(2) by (intro truncate_no_room) (simp add: layout_defs add_nonneg_pos)
  then show ?thesis by (simp add: menu_row_def Let_def avail)
qed

end
