(* ===== verification/Redraw.thy ===== *)
theory Redraw
  imports Screen
begin

unbundle bit_operations_syntax

text \<open>
  The launcher's loop (\<open>minui.c\<close>: \<open>main\<close>): power and settings, the network, input, drawing when something changed, and
  restarting when the HDMI cable is plugged or unplugged. The facts show that what is on the screen is what would be drawn for the present
  state, although a pass draws only when its parts say that something changed.
\<close>

subsection \<open>A pass of the loop\<close>

definition delete_message :: "Entry \<Rightarrow> string" where
  "delete_message entry = snprintf_buf MAX_PATH
     (''Delete collection'' @ [char_newline] @ [CHR 0x22] @ name entry @ [CHR 0x22] @ ''?'' @ [char_newline, char_newline] @ ''Your games are kept.'')"

definition Menu_confirm_draw :: "screen_env \<Rightarrow> string \<Rightarrow> draw list option" where
  "Menu_confirm_draw e message =
     map_option (\<lambda>msg. msg @ fst (GFX_blitButtonGroup e [(''B'', ''NO''), (''A'', ''YES'')] 1 True))
       (GFX_blitMessage e font_medium message (Some (0, SCALE1 (PADDING e), screen_w e, screen_h e - SCALE1 (PILL_SIZE + PADDING e))))"

definition asks_delete :: "PAD_Context \<Rightarrow> launcher \<Rightarrow> bool" where
  \<comment> \<open>the button handling comes to \<open>Menu_confirm\<close>\<close>
  "asks_delete pad st \<longleftrightarrow> entries (top st) \<noteq> []
     \<and> \<not> (can_resume st \<and> PAD_justReleased pad (btn_mask BTN_ID_X)) \<and> \<not> PAD_justPressed pad (btn_mask BTN_ID_A)
     \<and> PAD_justPressed pad (btn_mask BTN_ID_Y) \<and> length (stack st) > 1 \<and> is_collection_entry (selected_entry (top st))"

definition handle_moves :: "int \<Rightarrow> PAD_Context \<Rightarrow> menu_frame \<Rightarrow> int \<Rightarrow> menu_vars \<Rightarrow> menu_vars option" where
  \<comment> \<open>\<open>Menu_handleInput\<close> of the list, up to the buttons\<close>
  "handle_moves R pad f setting v =
     (let (tapped, t) = PAD_tappedMenu (frame_now f) pad (tap v);
          vt = v\<lparr>tap := t\<rparr>;
          vs = (if tapped then vt\<lparr>show_version := True, mdirty := True,
                                  mpwr := (if no_power_button f \<and> \<not> simple_mode (mst v)
                                           then PWR_enableSleep (mpwr v) else mpwr v)\<rparr>
                else vt);
          d = top (mst v);
          moved = (if tapped then key_alpha R (int (length (entries d))) d pad setting (dir_cursor d) else move_cursor R pad setting d)
      in map_option (\<lambda>c. (let vs = vs\<lparr>mdirty := mdirty vs \<or> csel c \<noteq> selected d, mst := set_top (with_cursor c d) (mst vs)\<rparr>
                          in if mdirty vs then vs\<lparr>mst := ready_selected (mst vs)\<rparr> else vs)) moved)"

lemma handleInput_list:
  "\<not> show_version v \<Longrightarrow> Menu_handleInput plat R pad f setting v = map_option (menu_action plat R pad f) (handle_moves R pad f setting v)"
  by (simp add: Menu_handleInput_def handle_moves_def Let_def dir_cursor_def with_cursor_def split: prod.splits option.splits)

record main_input =
  in_pad :: PAD_Context   \<comment> \<open>after \<open>PAD_poll\<close>\<close>
  in_pwr :: pwr_frame
  in_menu :: menu_frame
  in_online :: bool
  in_hw :: hardware

record main_state =
  vars :: menu_vars
  pst :: pwr_state
  was_online :: bool
  had_hdmi :: "bool option"  \<comment> \<open>\<open>-1\<close> before the first pass\<close>
  cache :: thumb_cache
  shown :: "draw list"
  acts :: "pwr_action list"

definition hdmi_change :: "bool \<Rightarrow> main_state \<Rightarrow> main_state option" where
  \<comment> \<open>no result when the entry of an empty folder is read\<close>
  "hdmi_change has_hdmi s =
     (let had = (case had_hdmi s of None \<Rightarrow> has_hdmi | Some h \<Rightarrow> h); st = mst (vars s) in
      if has_hdmi = had then Some (s\<lparr>had_hdmi := Some had\<rparr>)
      else if entries (top st) = [] then None
      else Some (s\<lparr>had_hdmi := Some has_hdmi,
                   vars := (vars s)\<lparr>mst := (saveLast (path (selected_entry (top st))) st)\<lparr>quit := True\<rparr>\<rparr>\<rparr>))"

definition pass_dialog :: "int \<Rightarrow> screen_env \<Rightarrow> PAD_Context \<Rightarrow> menu_frame \<Rightarrow> int \<Rightarrow> menu_vars \<Rightarrow> draw list \<Rightarrow> draw list option" where
  \<comment> \<open>what is on the screen after the input was handled: the question before deleting, or what was there\<close>
  "pass_dialog R e pad f setting v seen =
     (if show_version v then Some seen
      else case handle_moves R pad f setting v of
        None \<Rightarrow> None
      | Some m \<Rightarrow> if asks_delete pad (mst m) then Menu_confirm_draw e (delete_message (selected_entry (top (mst m)))) else Some seen)"

definition pass_draw :: "screen_env \<Rightarrow> (string \<Rightarrow> (int \<times> int) option) \<Rightarrow> int \<times> int \<Rightarrow> hardware \<Rightarrow> bool \<Rightarrow> main_state \<Rightarrow> main_state option" where
  "pass_draw e img_load version_dims hw draws s =
     (if draws
      then map_option (\<lambda>(ds, c). s\<lparr>shown := ds, cache := c\<rparr>)
        (Menu_draw e img_load version_dims hw (show_version (vars s)) (show_setting (pst s)) (mst (vars s)) (cache s))
      else Some s)"

definition main_pass :: "string \<Rightarrow> int \<Rightarrow> screen_env \<Rightarrow> (string \<Rightarrow> (int \<times> int) option) \<Rightarrow> int \<times> int \<Rightarrow> main_input \<Rightarrow> main_state \<Rightarrow> main_state option" where
  "main_pass plat R e img_load version_dims i s =
     (let (as, p) = PWR_update (in_pwr i) ((pst s)\<lparr>ppad := in_pad i\<rparr>);
          v = (vars s)\<lparr>mdirty := dirty p \<or> was_online s \<noteq> in_online i, mpwr := ctx p\<rparr>
      in case pass_dialog R e (ppad p) (in_menu i) (show_setting p) v (shown s) of
           None \<Rightarrow> None
         | Some seen \<Rightarrow>
             (case Menu_handleInput plat R (ppad p) (in_menu i) (show_setting p) v of
                None \<Rightarrow> None
              | Some w \<Rightarrow>
                  (case pass_draw e img_load version_dims (in_hw i) (mdirty w)
                      \<lparr>vars = w\<lparr>mdirty := False\<rparr>, pst = p\<lparr>ctx := mpwr w, dirty := False\<rparr>, was_online = in_online i,
                       had_hdmi = had_hdmi s, cache = cache s, shown = seen, acts = acts s @ as\<rparr> of
                     None \<Rightarrow> None
                   | Some s \<Rightarrow> hdmi_change (hw_hdmi (in_hw i)) s)))"

subsection \<open>What is not drawn again has not changed\<close>

lemma PWR_update_clean:
  assumes "PWR_update f s = (as, p)" "\<not> dirty p"
  shows "show_setting p = show_setting s" "ppad p = ppad s" "\<not> dirty s"
proof -
  define s1 where "s1 = update_charge f s"
  obtain a2 s2 where s2: "update_power f s1 = (a2, s2)" by fastforce
  obtain a3 tick s3 where s3: "update_sleep f s2 = (a3, tick, s3)" by (metis prod_cases3)
  have p: "p = update_settings (muted f) tick s3" using assms(1) s2 s3 by (simp add: PWR_update_def s1_def)
  have last: "show_setting p = show_setting s3" "ppad p = ppad s3" "\<not> dirty s3"
    using assms(2) unfolding p by (auto simp: update_settings_def Let_def split: if_splits prod.splits)
  have "show_setting s1 = show_setting s" "ppad s1 = ppad s" "dirty s \<Longrightarrow> dirty s1" by (simp_all add: s1_def update_charge_def Let_def)
  moreover have "show_setting s2 = show_setting s1" "ppad s2 = ppad s1" "dirty s2 = dirty s1" using s2 by (auto simp: update_power_def Let_def)
  moreover have "show_setting s3 = show_setting s2" "ppad s3 = ppad s2" "dirty s3 = dirty s2"
    using s3 last(3) by (auto simp: update_sleep_def Let_def split: if_splits)
  ultimately show "show_setting p = show_setting s" "ppad p = ppad s" "\<not> dirty s" using last by auto
qed

definition nav_keys :: "PAD_Context \<Rightarrow> u32 list" where
  "nav_keys pad = filter (PAD_justRepeated pad) [BTN_UP, BTN_DOWN, BTN_LEFT, BTN_RIGHT, btn_mask BTN_ID_L1, btn_mask BTN_ID_R1]"

definition letters_ok :: "Directory \<Rightarrow> bool" where
  \<comment> \<open>an entry that starts a letter is in the group of that letter\<close>
  "letters_ok d \<longleftrightarrow> list_all (\<lambda>k. list_all (\<lambda>m. iitems (alphas d) ! m = int k \<longrightarrow> int m = alpha (entries d ! k)) [0 ..< icount (alphas d)])
     [0 ..< length (entries d)]"

lemma letters_okD: "letters_ok d \<Longrightarrow> k < length (entries d) \<Longrightarrow> m < icount (alphas d) \<Longrightarrow> iitems (alphas d) ! m = int k \<Longrightarrow> int m = alpha (entries d ! k)"
  by (simp add: letters_ok_def list_all_iff)

lemma nav_one:
  assumes "length (nav_keys pad) \<le> 1"
  obtains (letters) "\<not> PAD_justRepeated pad BTN_UP" "\<not> PAD_justRepeated pad BTN_DOWN" "\<not> PAD_justRepeated pad BTN_LEFT" "\<not> PAD_justRepeated pad BTN_RIGHT"
  | (rows) "\<not> PAD_justRepeated pad BTN_LEFT" "\<not> PAD_justRepeated pad BTN_RIGHT"
      "\<not> PAD_justRepeated pad (btn_mask BTN_ID_L1)" "\<not> PAD_justRepeated pad (btn_mask BTN_ID_R1)"
  | (pages) "\<not> PAD_justRepeated pad BTN_UP" "\<not> PAD_justRepeated pad BTN_DOWN"
      "\<not> PAD_justRepeated pad (btn_mask BTN_ID_L1)" "\<not> PAD_justRepeated pad (btn_mask BTN_ID_R1)"
  using assms unfolding nav_keys_def
  by (cases "PAD_justRepeated pad BTN_UP"; cases "PAD_justRepeated pad BTN_DOWN"; cases "PAD_justRepeated pad BTN_LEFT";
      cases "PAD_justRepeated pad BTN_RIGHT"; cases "PAD_justRepeated pad (btn_mask BTN_ID_L1)"; cases "PAD_justRepeated pad (btn_mask BTN_ID_R1)")
    simp_all

lemma key_idle:
  "\<not> PAD_justRepeated pad BTN_UP \<Longrightarrow> \<not> PAD_justRepeated pad BTN_DOWN \<Longrightarrow> key_updown R tot pad c = c"
  "\<not> PAD_justRepeated pad BTN_LEFT \<Longrightarrow> \<not> PAD_justRepeated pad BTN_RIGHT \<Longrightarrow> key_leftright R tot pad c = c"
  "\<not> PAD_justRepeated pad (btn_mask BTN_ID_L1) \<Longrightarrow> \<not> PAD_justRepeated pad (btn_mask BTN_ID_R1) \<Longrightarrow> key_alpha R tot d pad setting c = Some c"
  by (simp_all add: key_updown_def key_leftright_def key_alpha_def Let_def)

lemma key_updown_same:
  "0 < R \<Longrightarrow> 0 < tot \<Longrightarrow> win_ok R tot c \<Longrightarrow> csel (key_updown R tot pad c) = csel c \<Longrightarrow> key_updown R tot pad c = c"
  by (auto simp: win_ok_def key_updown_def Let_def min_def split: if_splits)

lemma key_leftright_same:
  "0 < R \<Longrightarrow> 0 < tot \<Longrightarrow> win_ok R tot c \<Longrightarrow> csel (key_leftright R tot pad c) = csel c \<Longrightarrow> key_leftright R tot pad c = c"
  by (auto simp: win_ok_def key_leftright_def Let_def min_def split: if_splits)

lemma key_alpha_same:
  assumes "letters_ok d" "0 \<le> csel c" "key_alpha R tot d pad setting c = Some c'" "csel c' = csel c"
    "alpha_ok d"
  shows "c' = c"
proof -
  have other: "iitems (alphas d) ! nat m \<noteq> csel c"
    if "0 \<le> m" "m < int (icount (alphas d))" "m \<noteq> alpha (entries d ! nat (csel c))" "nat (csel c) < length (entries d)" for m
  proof
    assume "iitems (alphas d) ! nat m = csel c"
    then show False using letters_okD [OF assms(1) that(4), of "nat m"] that assms(2) by (simp add: nat_less_iff)
  qed
  show ?thesis
  proof (cases "nat (csel c) < length (entries d)")
    case True
    then have "alpha (entries d ! nat (csel c)) \<le> int (icount (alphas d))" "0 \<le> alpha (entries d ! nat (csel c))"
      using assms(5) by (simp_all add: alpha_ok_def)
    then show ?thesis
      using assms(2,3,4) True other [of "alpha (entries d ! nat (csel c)) - 1"] other [of "alpha (entries d ! nat (csel c)) + 1"]
      by (auto simp: key_alpha_def jump_to_def Let_def split: if_splits)
  next
    case False
    then have "int (length (entries d)) \<le> csel c" using assms(2) by linarith
    then show ?thesis using assms(3) by (auto simp: key_alpha_def Let_def split: if_splits)
  qed
qed

lemma move_cursor_same:
  assumes "0 < R" "dir_ok R d" "letters_ok d" "length (nav_keys pad) \<le> 1"
    and "move_cursor R pad setting d = Some c" "csel c = selected d"
  shows "c = dir_cursor d"
proof (cases "entries d = []")
  case True
  then show ?thesis
    using assms(5) by (auto simp: move_cursor_def key_alpha_def dir_cursor_def Let_def split: if_splits)
next
  case False
  let ?tot = "int (length (entries d))" and ?c0 = "dir_cursor d"
  define c1 where "c1 = key_updown R ?tot pad ?c0"
  define c2 where "c2 = key_leftright R ?tot pad c1"
  have tot: "0 < ?tot" and win: "win_ok R ?tot ?c0" using False assms(2) by (simp_all add: dir_ok_def)
  have c: "key_alpha R ?tot d pad setting c2 = Some c" using assms(5) False by (simp add: move_cursor_def Let_def c1_def c2_def dir_cursor_def)
  have sel: "csel ?c0 = selected d" "0 \<le> csel ?c0" using win by (auto simp: dir_cursor_def win_ok_def)
  from assms(4) show ?thesis
  proof (cases rule: nav_one)
    case letters
    then have "c2 = ?c0" by (simp add: c1_def c2_def key_idle)
    then show ?thesis using key_alpha_same [OF assms(3) sel(2), of R ?tot pad setting c] c assms(2,6) sel(1) by (simp add: dir_ok_def)
  next
    case rows
    then have "c = c1" using c by (simp add: c2_def key_idle)
    then show ?thesis using key_updown_same [OF assms(1) tot win, of pad] assms(6) sel(1) by (simp add: c1_def)
  next
    case pages
    then have "c = key_leftright R ?tot pad ?c0" using c by (simp add: c1_def c2_def key_idle)
    then show ?thesis using key_leftright_same [OF assms(1) tot win, of pad] assms(6) sel(1) by simp
  qed
qed

lemma set_top_same: "stack st \<noteq> [] \<Longrightarrow> set_top (with_cursor (dir_cursor (top st)) (top st)) st = st"
  by (simp add: set_top_def with_cursor_def dir_cursor_def top_def)

lemma menu_action_dirty: "mdirty v \<Longrightarrow> mdirty (menu_action plat R pad f v)"
  by (simp add: menu_action_def Let_def split: prod.splits)

lemma delete_unchanged: "Menu_deleteSelectedCollection plat R ok gone st = (False, st') \<Longrightarrow> st' = st"
  by (auto simp: Menu_deleteSelectedCollection_def Let_def split: if_splits prod.splits)

lemma menu_action_clean:
  "\<not> mdirty (menu_action plat R pad f v) \<Longrightarrow> menu_action plat R pad f v = v"
  using delete_unchanged by (fastforce simp: menu_action_def Let_def split: if_splits prod.splits)

lemma menu_action_deletes:
  assumes "asks_delete pad (mst v)" "unlinked f"
  shows "mdirty (menu_action plat R pad f v)"
  using assms by (auto simp: asks_delete_def menu_action_def Menu_deleteSelectedCollection_def Let_def split: prod.splits)

lemma handle_moves_clean:
  assumes "stack (mst v) \<noteq> []" "0 < R" "dir_ok R (top (mst v))" "letters_ok (top (mst v))" "length (nav_keys pad) \<le> 1"
    and "handle_moves R pad f setting v = Some w" "\<not> mdirty w"
  shows "mst w = mst v \<and> show_version w = show_version v"
proof -
  obtain tapped t where tap: "PAD_tappedMenu (frame_now f) pad (tap v) = (tapped, t)" by fastforce
  have "\<not> tapped" using assms(6,7) tap by (auto simp: handle_moves_def Let_def split: if_splits)
  then obtain c where c: "move_cursor R pad setting (top (mst v)) = Some c" "csel c = selected (top (mst v))"
    and w: "w = v\<lparr>tap := t, mdirty := mdirty v, mst := set_top (with_cursor c (top (mst v))) (mst v)\<rparr>"
    using assms(6,7) tap by (auto simp: handle_moves_def Let_def split: if_splits)
  have "c = dir_cursor (top (mst v))" using move_cursor_same [OF assms(2-5) c] .
  then show ?thesis using w set_top_same [OF assms(1)] by simp
qed

lemma handleInput_dirty:
  assumes "Menu_handleInput plat R pad f setting v = Some w" "mdirty v"
  shows "mdirty w"
proof (cases "show_version v")
  case True
  then show ?thesis using assms by (auto simp: Menu_handleInput_def Let_def split: prod.splits if_splits)
next
  case False
  then obtain m where "handle_moves R pad f setting v = Some m" "w = menu_action plat R pad f m"
    using assms(1) by (auto simp: handleInput_list)
  moreover from this(1) have "mdirty m" using assms(2) by (auto simp: handle_moves_def Let_def split: prod.splits if_splits)
  ultimately show ?thesis using menu_action_dirty by simp
qed

lemma handleInput_version:
  "show_version v \<Longrightarrow> Menu_handleInput plat R pad f setting v = Some w \<Longrightarrow> \<not> mdirty w \<Longrightarrow> mst w = mst v \<and> show_version w = show_version v"
  by (auto simp: Menu_handleInput_def Let_def split: prod.splits if_splits)

definition screen_shows :: "screen_env \<Rightarrow> (string \<Rightarrow> (int \<times> int) option) \<Rightarrow> int \<times> int \<Rightarrow> main_state \<Rightarrow> bool" where
  \<comment> \<open>the screen is the drawing of the present state, with the levels and the charge of the time it was drawn\<close>
  "screen_shows e img_load version_dims s \<longleftrightarrow>
     (\<exists>hw c. Menu_draw e img_load version_dims hw (show_version (vars s)) (show_setting (pst s)) (mst (vars s)) c = Some (shown s, cache s)
        \<and> hw_online hw = was_online s)"

lemma hdmi_same: "had_hdmi s = None \<or> had_hdmi s = Some h \<Longrightarrow> hdmi_change h s = Some (s\<lparr>had_hdmi := Some h\<rparr>)"
  by (auto simp: hdmi_change_def)

subsection \<open>Every directory read is indexed well\<close>

lemma alpha_loop_starts:
  assumes "alpha_inv pre al c index" "\<forall>l \<in> set ls. 0 \<le> l" "i = int (length pre)" "alpha_loop i al c index ls = (as, al2)"
  shows "(\<forall>m < icount al2. icount al \<le> m \<longrightarrow> i \<le> ints al2 ! m)
    \<and> (\<forall>k < length as. \<forall>m < icount al2. ints al2 ! m = i + int k \<longrightarrow> int m = as ! k)"
  using assms
proof (induction ls arbitrary: pre al c index i as)
  case Nil
  then show ?case by auto
next
  case (Cons l ls)
  obtain index' al' c' where step:
    "(index', al', c') = (if l \<noteq> c then (int (icount al), IntArray_push al i, l) else (index, al, c))"
    by (metis prod_cases3)
  have inv': "alpha_inv (pre @ [l]) al' c' index'"
    using alpha_inv_step [OF Cons.prems(1) _ Cons.prems(3) step] Cons.prems(2) by auto
  obtain as' where rec: "alpha_loop (i + 1) al' c' index' ls = (as', al2)" and as: "as = index' # as'"
    using step Cons.prems(4) by (auto simp: Let_def split: if_splits prod.splits)
  have ih: "\<forall>m < icount al2. icount al' \<le> m \<longrightarrow> i + 1 \<le> ints al2 ! m"
    "\<forall>k < length as'. \<forall>m < icount al2. ints al2 ! m = i + 1 + int k \<longrightarrow> int m = as' ! k"
    using Cons.IH [OF inv' _ _ rec] Cons.prems(2,3) by auto
  have ok: "IntArray_ok al" "IntArray_ok al'" using Cons.prems(1) inv' by (simp_all add: alpha_inv_def)
  have "\<exists>ys. ints al2 = ints al' @ ys" using alpha_loop_post [OF inv', of ls "i + 1"] Cons.prems(2,3) rec by auto
  then have old: "ints al2 ! m = ints al' ! m" if "m < icount al'" for m using that length_ints [OF ok(2)] by (auto simp: nth_append)
  have before: "ints al ! m < i" if "m < icount al" for m
    using that Cons.prems(1,3) length_ints [OF ok(1)] nth_mem [of m "ints al"] by (auto simp: alpha_inv_def)
  have here: "(icount al \<le> m \<longrightarrow> i \<le> ints al2 ! m) \<and> (ints al2 ! m = i \<longrightarrow> int m = index')" if m: "m < icount al2" for m
  proof (cases "m < icount al'")
    case False
    then show ?thesis using ih(1) m by force
  next
    case True
    show ?thesis
    proof (cases "l = c \<or> icount al = INT_ARRAY_MAX")
      case same: True
      then have "al' = al" using step IntArray_push_cases [OF ok(1), of i] by (auto split: if_splits)
      then show ?thesis using old [OF True] before True by force
    next
      case False
      then have "ints al' = ints al @ [i]" "icount al' = icount al + 1" "index' = int (icount al)"
        using step IntArray_push_cases [OF ok(1), of i] by auto
      then show ?thesis using old [OF True] before [of m] True length_ints [OF ok(1)] by (cases "m = icount al") (auto simp: nth_append)
    qed
  qed
  show ?case
    using here ih(2) as by (auto simp: nth_Cons split: nat.splits)
qed

lemma Directory_new_letters: "letters_ok (fst (Directory_new plat simple rs fs p sel))"
proof -
  obtain d fs' where new: "fst (Directory_new plat simple rs fs p sel) = Directory_index fs' d" "fresh_dir d"
    using Directory_new_fresh by metis
  show ?thesis
  proof (cases "index_skipped d")
    case True
    then have "alphas (Directory_index fs' d) = IntArray_new"
      using new(2) index_loop_skip by (simp add: Directory_index_unfold fresh_dir_def)
    then show ?thesis unfolding new(1) by (simp add: letters_ok_def IntArray_new_ok list_all_iff)
  next
    case False
    let ?d = "Directory_index fs' d"
    let ?ls = "map (\<lambda>e. getIndexChar (name (mapped (dir_map fs' d) e))) (dir_entries fs' d)"
    have inv: "alpha_inv [] (alphas d) (-1) 0"
      using new(2) by (simp add: fresh_dir_def alpha_inv_def IntArray_new_def IntArray_ok_def ints_def)
    have loop: "alpha_loop 0 (alphas d) (-1) 0 ?ls = (map alpha (entries ?d), alphas ?d)"
      using index_loop_alpha False by (simp add: Directory_index_unfold)
    have ok: "IntArray_ok (alphas ?d)" using Directory_index_alpha_ok [OF new(2)] by (simp add: alpha_ok_def)
    have "int m = alpha (entries ?d ! k)" if "k < length (entries ?d)" "m < icount (alphas ?d)" "iitems (alphas ?d) ! m = int k" for k m
      using alpha_loop_starts [OF inv _ _ loop] getIndexChar_nonneg that length_ints [OF ok] by (force simp: ints_def)
    then show ?thesis unfolding new(1) by (simp add: letters_ok_def list_all_iff)
  qed
qed

subsection \<open>The screen\<close>

text \<open>C19: The launcher's screen does not go stale: after a pass of its loop with at most one direction or shoulder button, in which no
  cable of a display is plugged in or out and no deletion of a collection fails, the screen is what Menu_draw gives for the
  present state, whether the pass drew or not, if that held before the pass or the pass was asked to draw. So no
  single move of the cursor, folder opened or closed, setting shown or hidden, tap of the menu button or change of the network goes
  unseen. The stack of folders is not empty, and the index of the open folder puts every entry that starts a letter in the group of that letter. With two
  buttons at once, or when a deletion fails, the screen can be stale, as shown below.\<close>

theorem screen_current:
  assumes "main_pass plat R e img_load version_dims i s = Some s'" "dirty (pst s) \<or> screen_shows e img_load version_dims s"
    and "stack (mst (vars s)) \<noteq> []" "0 < R" "dir_ok R (top (mst (vars s)))" "letters_ok (top (mst (vars s)))"
    and "length (nav_keys (in_pad i)) \<le> 1" "unlinked (in_menu i)" "hw_online (in_hw i) = in_online i"
    and "had_hdmi s = None \<or> had_hdmi s = Some (hw_hdmi (in_hw i))"
  shows "screen_shows e img_load version_dims s'"
proof -
  obtain as p where p: "PWR_update (in_pwr i) ((pst s)\<lparr>ppad := in_pad i\<rparr>) = (as, p)" by fastforce
  define v where "v = (vars s)\<lparr>mdirty := dirty p \<or> was_online s \<noteq> in_online i, mpwr := ctx p\<rparr>"
  obtain seen w where seen: "pass_dialog R e (ppad p) (in_menu i) (show_setting p) v (shown s) = Some seen"
    and w: "Menu_handleInput plat R (ppad p) (in_menu i) (show_setting p) v = Some w"
    using assms(1) p by (auto simp: main_pass_def Let_def v_def split: option.splits)
  define s1 where "s1 = \<lparr>vars = w\<lparr>mdirty := False\<rparr>, pst = p\<lparr>ctx := mpwr w, dirty := False\<rparr>, was_online = in_online i,
    had_hdmi = had_hdmi s, cache = cache s, shown = seen, acts = acts s @ as\<rparr>"
  obtain s2 where s2: "pass_draw e img_load version_dims (in_hw i) (mdirty w) s1 = Some s2" "hdmi_change (hw_hdmi (in_hw i)) s2 = Some s'"
    using assms(1) p seen w unfolding v_def s1_def by (auto simp: main_pass_def Let_def split: option.splits)
  have "had_hdmi s2 = had_hdmi s" using s2(1) by (auto simp: pass_draw_def s1_def split: if_splits)
  then have s': "s' = s2\<lparr>had_hdmi := Some (hw_hdmi (in_hw i))\<rparr>" using s2(2) hdmi_same [of s2] assms(10) by auto
  show ?thesis
  proof (cases "mdirty w")
    case True
    then obtain ds c where "Menu_draw e img_load version_dims (in_hw i) (show_version w) (show_setting p) (mst w) (cache s) = Some (ds, c)"
      "s' = s1\<lparr>shown := ds, cache := c, had_hdmi := Some (hw_hdmi (in_hw i))\<rparr>"
      using s2(1) s' by (auto simp: pass_draw_def s1_def)
    then show ?thesis
      unfolding screen_shows_def by (intro exI [of _ "in_hw i"] exI [of _ "cache s"]) (simp add: s1_def assms(9))
  next
    case False
    then have clean: "\<not> mdirty v" using handleInput_dirty [OF w] by blast
    then have "\<not> dirty p" and online: "was_online s = in_online i" by (simp_all add: v_def)
    note pwr = PWR_update_clean [OF p this(1)]
    have drawn: "screen_shows e img_load version_dims s" using assms(2) pwr(3) by simp
    have "mst w = mst v \<and> show_version w = show_version v \<and> seen = shown s"
    proof (cases "show_version v")
      case True
      then show ?thesis using handleInput_version [OF True w False] seen by (simp add: pass_dialog_def)
    next
      case list: False
      then obtain m where m: "handle_moves R (ppad p) (in_menu i) (show_setting p) v = Some m" "w = menu_action plat R (ppad p) (in_menu i) m"
        using w by (auto simp: handleInput_list)
      have wm: "w = m" using menu_action_clean False m(2) by metis
      have "mst m = mst v \<and> show_version m = show_version v"
        using handle_moves_clean [OF _ assms(4) _ _ _ m(1)] assms(3,5,6,7) pwr(2) False wm by (simp add: v_def)
      moreover have "\<not> asks_delete (ppad p) (mst m)" using menu_action_deletes assms(8) m(2) False by blast
      ultimately show ?thesis using list m(1) wm seen by (simp add: pass_dialog_def)
    qed
    then have kept: "s' = s1\<lparr>had_hdmi := Some (hw_hdmi (in_hw i))\<rparr>" "mst w = mst (vars s)" "show_version w = show_version (vars s)" "seen = shown s"
      using s' s2(1) False by (simp_all add: pass_draw_def v_def)
    obtain hw c where "Menu_draw e img_load version_dims hw (show_version (vars s)) (show_setting (pst s)) (mst (vars s)) c = Some (shown s, cache s)"
      "hw_online hw = was_online s"
      using drawn by (auto simp: screen_shows_def)
    then show ?thesis
      unfolding screen_shows_def by (intro exI [of _ hw] exI [of _ c]) (simp add: kept s1_def pwr(1) online)
  qed
qed

definition demo_power :: pwr_state where
  "demo_power = \<lparr>ctx = \<lparr>can_sleep = True, can_poweroff = True, can_autosleep = True, requested_sleep = False, requested_wake = False,
       is_charging = False, charge = 80, should_warn = False, overlay_on = False\<rparr>,
     timers = \<lparr>last_input_at = 900, checked_charge_at = 900, setting_shown_at = 0, power_pressed_at = 0, mod_unpressed_at = 900, was_muted = False, was_charging = False\<rparr>,
     ppad = demo_down_pad, dirty = True, show_setting = 0\<rparr>"

definition demo_main :: main_state where
  "demo_main = \<lparr>vars = \<lparr>mst = demo_thumbed, show_version = False, mdirty = False, tap = \<lparr>menu_start = 0, ignore_menu = False\<rparr>, mpwr = ctx demo_power\<rparr>,
     pst = demo_power, was_online = False, had_hdmi = None, cache = \<lparr>thumb_key = [], thumb = None\<rparr>, shown = [], acts = []\<rparr>"

definition demo_pass :: main_input where
  "demo_pass = \<lparr>in_pad = demo_down_pad, in_pwr = \<lparr>now = 1000, wake_at = 1000, hdmi = False, muted = False, callbacks = False\<rparr>,
     in_menu = \<lparr>frame_now = 1000, confirmed = True, unlinked = True, no_power_button = False\<rparr>, in_online = False, in_hw = demo_hardware\<rparr>"

theorem screen_current_witness:
  "\<exists>s'. main_pass ''rg35xx'' 6 demo_screen (\<lambda>_. Some (300, 200)) (0, 0) demo_pass demo_main = Some s'
    \<and> selected (top (mst (vars s'))) = 1 \<and> screen_shows demo_screen (\<lambda>_. Some (300, 200)) (0, 0) s'"
proof -
  have "map_option (\<lambda>s. selected (top (mst (vars s)))) (main_pass ''rg35xx'' 6 demo_screen (\<lambda>_. Some (300, 200)) (0, 0) demo_pass demo_main) = Some 1"
    by code_simp
  then obtain s' where s': "main_pass ''rg35xx'' 6 demo_screen (\<lambda>_. Some (300, 200)) (0, 0) demo_pass demo_main = Some s'"
    "selected (top (mst (vars s'))) = 1" by blast
  have "mst (vars demo_main) = demo_thumbed" by (simp add: demo_main_def)
  moreover have "letters_ok (top demo_thumbed)" "length (nav_keys (in_pad demo_pass)) \<le> 1" "dirty (pst demo_main)" "stack demo_thumbed \<noteq> []"
    "unlinked (in_menu demo_pass)" "hw_online (in_hw demo_pass) = in_online demo_pass" "had_hdmi demo_main = None"
    by code_simp+
  ultimately have "screen_shows demo_screen (\<lambda>_. Some (300, 200)) (0, 0) s'"
    using screen_current [OF s'(1)] demo_thumbed_top(1) by simp
  then show ?thesis using s' by blast
qed

text \<open>Two buttons at once can move the window under an entry that stays selected, and nothing is drawn: eight entries of
  different letters, the second selected, with down and the left shoulder button.\<close>

definition letters_dir :: Directory where
  "letters_dir = \<lparr>dpath = ''/mnt/sdcard/Roms/A'', dname = ''A'',
     entries = map (\<lambda>k. \<lparr>path = ''/x'', name = ''x'', unique = None, etype = ENTRY_ROM, alpha = k\<rparr>) [0, 1, 2, 3, 4, 5, 6, 7],
     alphas = fold (\<lambda>k al. IntArray_push al k) [0, 1, 2, 3, 4, 5, 6, 7] IntArray_new, selected = 1, start = 0, end_row = 6\<rparr>"

lemma two_buttons_move_window:
  "move_cursor 6 (demo_down_pad\<lparr>just_repeated := 2 OR btn_mask BTN_ID_L1\<rparr>) 0 letters_dir = Some \<lparr>csel = 1, cstart = 1, cend = 7\<rparr>"
  "letters_ok letters_dir"
  by code_simp+

text \<open>When the deletion fails the question stays on the screen, although the list is handled again.\<close>

lemma failed_delete_stays:
  assumes "main_pass plat R e img_load version_dims i s = Some s'" "had_hdmi s = Some (hw_hdmi (in_hw i))"
    and "PWR_update (in_pwr i) ((pst s)\<lparr>ppad := in_pad i\<rparr>) = (as, p)" "v = (vars s)\<lparr>mdirty := dirty p \<or> was_online s \<noteq> in_online i, mpwr := ctx p\<rparr>"
    and "\<not> show_version v" "handle_moves R (ppad p) (in_menu i) (show_setting p) v = Some m" "\<not> mdirty m"
    and "asks_delete (ppad p) (mst m)" "confirmed (in_menu i)" "\<not> unlinked (in_menu i)"
  shows "Some (shown s') = Menu_confirm_draw e (delete_message (selected_entry (top (mst m)))) \<and> mst (vars s') = mst m"
proof -
  have act: "menu_action plat R (ppad p) (in_menu i) m = m"
    using assms(7-10) by (auto simp: asks_delete_def menu_action_def Menu_deleteSelectedCollection_def Let_def)
  have "Menu_handleInput plat R (ppad p) (in_menu i) (show_setting p) v = Some m" using assms(5,6) act by (simp add: handleInput_list)
  moreover have "pass_dialog R e (ppad p) (in_menu i) (show_setting p) v (shown s) = Menu_confirm_draw e (delete_message (selected_entry (top (mst m))))"
    using assms(5,6,8) by (simp add: pass_dialog_def)
  ultimately show ?thesis
    using assms(1,2,3,7) unfolding assms(4) by (auto simp: main_pass_def Let_def pass_draw_def hdmi_same split: option.splits)
qed

end
