(* ===== verification/Keymon.thy ===== *)
theory Keymon
  imports Settings
begin

text \<open>
  The key monitors \<open>rg35xx/keymon/keymon.c\<close> and \<open>rg35xxplus/keymon/keymon.c\<close>: each frame reads the
  pending input events, turns the volume keys (with the menu key: the brightness) up or down with a
  repeat after 300 and then every 100 milliseconds, and forgets everything after a gap of more than
  a second, which is the device having slept. The two loops differ in their key codes and in the
  setters of their platform, which are arguments of the shared definitions. A second thread follows
  the headphone jack (rg35xx) or the HDMI cable (rg35xxplus).

  \<open>val\<close> is a \<open>uint32_t\<close> in the code, so settings are compared as unsigned numbers; times wrap.
\<close>

record keymon =
  menu_pressed :: u32
  up_pressed :: u32
  up_just_pressed :: u32
  up_repeat_at :: u32
  down_pressed :: u32
  down_just_pressed :: u32
  down_repeat_at :: u32
  then_ms :: u32

definition keymon_start :: "u32 \<Rightarrow> keymon" where
  "keymon_start ms = \<lparr>menu_pressed = 0, up_pressed = 0, up_just_pressed = 0, up_repeat_at = 0,
     down_pressed = 0, down_just_pressed = 0, down_repeat_at = 0, then_ms = ms\<rparr>"

type_synonym input_event = "nat \<times> nat \<times> u32"
  \<comment> \<open>type, code and value\<close>

definition EV_KEY :: nat where "EV_KEY = 1"

datatype role = Menu_key | Plus_key | Minus_key | Other_key

definition rg35xx_role :: "nat \<Rightarrow> role" where
  "rg35xx_role code =
     (if code = 0x68 then Menu_key else if code = 0x6C then Plus_key
      else if code = 0x6D then Minus_key else Other_key)"

definition plus_role :: "nat \<Rightarrow> role" where
  "plus_role code =
     (if code = 310 \<or> code = 312 then Menu_key else if code = 115 then Plus_key
      else if code = 114 then Minus_key else Other_key)"

definition key_event :: "(nat \<Rightarrow> role) \<Rightarrow> u32 \<Rightarrow> bool \<Rightarrow> input_event \<Rightarrow> keymon \<Rightarrow> keymon" where
  "key_event role_of ms ignore ev k =
     (case ev of (type, code, val) \<Rightarrow>
        if ignore then k
        else if type \<noteq> EV_KEY \<or> val > 2 then k
        else (case role_of code of
                Menu_key \<Rightarrow> k\<lparr>menu_pressed := val\<rparr>
              | Plus_key \<Rightarrow>
                  (let k = k\<lparr>up_pressed := val, up_just_pressed := val\<rparr> in
                   if val \<noteq> 0 then k\<lparr>up_repeat_at := ms + 300\<rparr> else k)
              | Minus_key \<Rightarrow>
                  (let k = k\<lparr>down_pressed := val, down_just_pressed := val\<rparr> in
                   if val \<noteq> 0 then k\<lparr>down_repeat_at := ms + 300\<rparr> else k)
              | Other_key \<Rightarrow> k))"

definition forget_keys :: "keymon \<Rightarrow> keymon" where
  "forget_keys k = k\<lparr>menu_pressed := 0, up_pressed := 0, up_just_pressed := 0, down_pressed := 0,
     down_just_pressed := 0, up_repeat_at := 0, down_repeat_at := 0\<rparr>"

record 'd level_ops =
  getB :: "'d \<Rightarrow> u32"
  setB :: "u32 \<Rightarrow> 'd \<Rightarrow> 'd"
  getV :: "'d \<Rightarrow> u32"
  setV :: "u32 \<Rightarrow> 'd \<Rightarrow> 'd"

definition up_keys :: "'d level_ops \<Rightarrow> u32 \<Rightarrow> keymon \<times> 'd \<Rightarrow> keymon \<times> 'd" where
  "up_keys lv ms st =
     (case st of (k, d) \<Rightarrow>
        if up_just_pressed k \<noteq> 0 \<or> (up_pressed k \<noteq> 0 \<and> ms \<ge> up_repeat_at k) then
          (let d = (if menu_pressed k \<noteq> 0
                    then (let val = getB lv d in if val < BRIGHTNESS_MAX then setB lv (val + 1) d else d)
                    else (let val = getV lv d in if val < VOLUME_MAX then setV lv (val + 1) d else d))
           in (if up_just_pressed k \<noteq> 0 then k\<lparr>up_just_pressed := 0\<rparr>
               else k\<lparr>up_repeat_at := up_repeat_at k + 100\<rparr>, d))
        else (k, d))"

definition down_keys :: "'d level_ops \<Rightarrow> u32 \<Rightarrow> keymon \<times> 'd \<Rightarrow> keymon \<times> 'd" where
  "down_keys lv ms st =
     (case st of (k, d) \<Rightarrow>
        if down_just_pressed k \<noteq> 0 \<or> (down_pressed k \<noteq> 0 \<and> ms \<ge> down_repeat_at k) then
          (let d = (if menu_pressed k \<noteq> 0
                    then (let val = getB lv d in if val > 0 then setB lv (val - 1) d else d)
                    else (let val = getV lv d in if val > 0 then setV lv (val - 1) d else d))
           in (if down_just_pressed k \<noteq> 0 then k\<lparr>down_just_pressed := 0\<rparr>
               else k\<lparr>down_repeat_at := down_repeat_at k + 100\<rparr>, d))
        else (k, d))"

definition keymon_frame ::
  "(nat \<Rightarrow> role) \<Rightarrow> 'd level_ops \<Rightarrow> u32 \<Rightarrow> input_event list \<Rightarrow> keymon \<times> 'd \<Rightarrow> keymon \<times> 'd" where
  "keymon_frame role_of lv ms evs st =
     (case st of (k, d) \<Rightarrow>
        (let ignore = (ms - then_ms k > 1000);
             k = fold (key_event role_of ms ignore) evs k;
             k = (if ignore then forget_keys k else k);
             st = down_keys lv ms (up_keys lv ms (k, d))
         in ((fst st)\<lparr>then_ms := ms\<rparr>, snd st)))"

definition rg35xx_ops :: "u32 \<Rightarrow> Settings dev level_ops" where
  "rg35xx_ops uninit = \<lparr>getB = GetBrightness, setB = SetBrightness uninit, getV = GetVolume, setV = SetVolume\<rparr>"

definition plus_ops :: "u32 \<Rightarrow> plus_Settings dev level_ops" where
  "plus_ops uninit = \<lparr>getB = GetBrightness, setB = plus_SetBrightness uninit, getV = GetVolume,
     setV = plus_SetVolume\<rparr>"

text \<open>What happens to the settings: frames of the main loop, and the port thread's calls.\<close>

datatype happening = Frame u32 "input_event list" | Port u32

definition rg35xx_keymon :: "u32 \<Rightarrow> happening \<Rightarrow> keymon \<times> Settings dev \<Rightarrow> keymon \<times> Settings dev" where
  "rg35xx_keymon uninit h st =
     (case h of
        Frame ms evs \<Rightarrow> keymon_frame rg35xx_role (rg35xx_ops uninit) ms evs st
      | Port has_headphones \<Rightarrow> (fst st, SetJack has_headphones (snd st)))"

definition plus_keymon ::
  "u32 \<Rightarrow> happening \<Rightarrow> keymon \<times> plus_Settings dev \<Rightarrow> keymon \<times> plus_Settings dev" where
  "plus_keymon uninit h st =
     (case h of
        Frame ms evs \<Rightarrow> keymon_frame plus_role (plus_ops uninit) ms evs st
      | Port has_hdmi \<Rightarrow> (fst st, plus_SetHDMI has_hdmi (snd st)))"

definition watch_changes :: "u32 \<Rightarrow> u32 list \<Rightarrow> u32 list" where
  \<comment> \<open>the values the port thread reports: the first reading and every later change\<close>
  "watch_changes first readings =
     first # rev (snd (fold (\<lambda>r (had, out). if had \<noteq> r then (r, r # out) else (had, out))
                       readings (first, [])))"

subsection \<open>The contract of the setters\<close>

text \<open>
  What the key monitor relies on: getters stay within the ranges while the invariant holds, and
  setting a value within the range keeps the invariant.
\<close>

locale level_store =
  fixes lv :: "'d level_ops" and inv :: "'d \<Rightarrow> bool"
  assumes getB_range: "inv d \<Longrightarrow> getB lv d \<le> BRIGHTNESS_MAX"
    and getV_range: "inv d \<Longrightarrow> getV lv d \<le> VOLUME_MAX"
    and setB_inv: "inv d \<Longrightarrow> v \<le> BRIGHTNESS_MAX \<Longrightarrow> inv (setB lv v d)"
    and setV_inv: "inv d \<Longrightarrow> v \<le> VOLUME_MAX \<Longrightarrow> inv (setV lv v d)"
begin

lemma raised: "(v :: u32) < m \<Longrightarrow> v + 1 \<le> m"
  by (rule inc_le)

lemma lowered: "(v :: u32) \<le> m \<Longrightarrow> v > 0 \<Longrightarrow> v - 1 \<le> m"
  by (simp add: word_le_nat_alt unat_minus_one)

lemma up_keys_inv: "inv d \<Longrightarrow> inv (snd (up_keys lv ms (k, d)))"
  by (simp add: up_keys_def Let_def setB_inv setV_inv raised)

lemma down_keys_inv: "inv d \<Longrightarrow> inv (snd (down_keys lv ms (k, d)))"
  by (simp add: down_keys_def Let_def setB_inv setV_inv lowered getB_range getV_range)

lemma keymon_frame_inv:
  assumes "inv (snd st)"
  shows "inv (snd (keymon_frame role_of lv ms evs st))"
proof -
  obtain k d where st: "st = (k, d)" by fastforce
  have "inv (snd (down_keys lv ms (up_keys lv ms (k', d))))" for k'
    using assms st down_keys_inv [of "snd (up_keys lv ms (k', d))" ms "fst (up_keys lv ms (k', d))"]
      up_keys_inv [of d ms k'] by simp
  then show ?thesis by (simp add: keymon_frame_def st Let_def)
qed

end

definition levels_ok :: "'a Settings_scheme \<Rightarrow> bool" where
  "levels_ok s \<longleftrightarrow> brightness s \<le> BRIGHTNESS_MAX \<and> headphones s \<le> VOLUME_MAX \<and> speaker s \<le> VOLUME_MAX"

text \<open>What reaches the hardware, once something did: the value of the level table for the present level.\<close>

definition rg35xx_ok :: "Settings dev \<Rightarrow> bool" where
  "rg35xx_ok d \<longleftrightarrow> levels_ok (shm d)
     \<and> lcd d \<in> {None, Some ([16, 24, 40, 64, 128, 192, 256, 384, 512, 768, 1024] ! unat (brightness (shm d)))}
     \<and> amp d \<in> {None, Some (GetVolume d * 2)}"

definition plus_ok :: "plus_Settings dev \<Rightarrow> bool" where
  \<comment> \<open>with the cable in, the amplifier is at its highest\<close>
  "plus_ok d \<longleftrightarrow> levels_ok (shm d)
     \<and> lcd d \<in> {None, Some ([4, 6, 10, 16, 32, 48, 64, 96, 128, 192, 255] ! unat (brightness (shm d)))}
     \<and> amp d \<in> {None, Some (if hdmi (shm d) \<noteq> 0 then 100 else GetVolume d * 5)}"

lemma brightness_index: "v \<le> BRIGHTNESS_MAX \<Longrightarrow> unat v < 11"
  by (simp add: BRIGHTNESS_MAX_def word_le_nat_alt)

lemma set_level_ok: "levels_ok s \<Longrightarrow> v \<le> VOLUME_MAX \<Longrightarrow> levels_ok (set_level v s)"
  by (simp add: levels_ok_def set_level_def)

lemma GetVolume_ok: "levels_ok (shm d) \<Longrightarrow> GetVolume d \<le> VOLUME_MAX"
  by (simp add: levels_ok_def GetVolume_def)

lemma levels_ok_getters: "levels_ok (shm d) \<Longrightarrow> GetBrightness d \<le> BRIGHTNESS_MAX" "levels_ok (shm d) \<Longrightarrow> GetVolume d \<le> VOLUME_MAX"
  by (simp_all add: GetVolume_ok GetBrightness_def levels_ok_def)

lemma level_set: "GetVolume d = v" if "shm d = set_level v s"
  using that by (simp add: GetVolume_def set_level_def)

lemma set_level_brightness [simp]: "brightness (set_level v s) = brightness s"
  by (simp add: set_level_def)

lemma SetVolume_ok:
  \<comment> \<open>whatever the amplifier was at before\<close>
  assumes "rg35xx_ok (d\<lparr>amp := None\<rparr>)" and "v \<le> VOLUME_MAX"
  shows "rg35xx_ok (SetVolume v d)"
proof -
  have "shm (SetVolume v d) = set_level v (shm d)" "lcd (SetVolume v d) = lcd d" "amp (SetVolume v d) = Some (v * 2)"
    by (simp_all add: SetVolume_def Let_def)
  then show ?thesis using assms level_set [of "SetVolume v d" v "shm d"] by (simp add: rg35xx_ok_def set_level_ok)
qed

lemma rg35xx_unheard: "rg35xx_ok d \<Longrightarrow> rg35xx_ok (d\<lparr>amp := None\<rparr>)"
  by (simp add: rg35xx_ok_def)

lemma SetBrightness_ok: "rg35xx_ok d \<Longrightarrow> v \<le> BRIGHTNESS_MAX \<Longrightarrow> rg35xx_ok (SetBrightness u v d)"
proof -
  assume d: "rg35xx_ok d" and v: "v \<le> BRIGHTNESS_MAX"
  have "level_table [16, 24, 40, 64, 128, 192, 256, 384, 512, 768, 1024] u v
      = [16, 24, 40, 64, 128, 192, 256, 384, 512, 768, 1024] ! unat v"
    using brightness_index [OF v] by (simp add: level_table_def)
  moreover have "GetVolume (SetBrightness u v d) = GetVolume d" by (simp add: GetVolume_def SetBrightness_def Let_def)
  ultimately show ?thesis using d v by (auto simp: rg35xx_ok_def levels_ok_def SetBrightness_def Let_def)
qed

lemma plus_SetVolume_amp:
  "amp (plus_SetVolume v d) = (if hdmi (shm d) \<noteq> 0 then amp d else Some (v * 5))"
  "lcd (plus_SetVolume v d) = lcd d"
  by (simp_all add: plus_SetVolume_def Let_def)

lemma plus_SetVolume_level: "shm (plus_SetVolume v d) = (if hdmi (shm d) \<noteq> 0 then shm d else set_level v (shm d))"
  by (simp add: plus_SetVolume_def Let_def)

lemma set_level_hdmi: "hdmi (set_level v s) = hdmi s"
  by (simp add: set_level_def)

lemma plus_SetVolume_ok:
  \<comment> \<open>whatever the amplifier was at before, when the cable is out\<close>
  assumes "plus_ok d \<or> hdmi (shm d) = 0 \<and> plus_ok (d\<lparr>amp := None\<rparr>)" and "v \<le> VOLUME_MAX"
  shows "plus_ok (plus_SetVolume v d)"
proof (cases "hdmi (shm d) = 0")
  case True
  then have "shm (plus_SetVolume v d) = set_level v (shm d)" by (simp add: plus_SetVolume_level)
  from level_set [OF this] this show ?thesis
    using assms True by (auto simp: plus_ok_def set_level_ok plus_SetVolume_amp set_level_hdmi)
next
  case False
  then show ?thesis using assms(1) by (simp add: plus_SetVolume_def)
qed

lemma plus_SetBrightness_ok: "plus_ok d \<Longrightarrow> v \<le> BRIGHTNESS_MAX \<Longrightarrow> plus_ok (plus_SetBrightness u v d)"
proof -
  assume d: "plus_ok d" and v: "v \<le> BRIGHTNESS_MAX"
  have "level_table [4, 6, 10, 16, 32, 48, 64, 96, 128, 192, 255] u v = [4, 6, 10, 16, 32, 48, 64, 96, 128, 192, 255] ! unat v"
    using brightness_index [OF v] by (simp add: level_table_def)
  moreover have "GetVolume (plus_SetBrightness u v d) = GetVolume d"
    by (simp add: GetVolume_def plus_SetBrightness_def plus_SetRawBrightness_def Let_def)
  ultimately show ?thesis
    using d v by (auto simp: plus_ok_def levels_ok_def plus_SetBrightness_def plus_SetRawBrightness_def Let_def)
qed

interpretation rg35xx_levels: level_store "rg35xx_ops u" rg35xx_ok for u
  by unfold_locales (simp_all add: rg35xx_ops_def levels_ok_getters rg35xx_unheard SetVolume_ok SetBrightness_ok, simp_all add: rg35xx_ok_def levels_ok_getters)

interpretation plus_levels: level_store "plus_ops u" plus_ok for u
  by unfold_locales (simp_all add: plus_ops_def plus_SetVolume_ok plus_SetBrightness_ok, simp_all add: plus_ok_def levels_ok_getters)

lemma SetJack_ok:
  assumes "rg35xx_ok d"
  shows "rg35xx_ok (SetJack v d)"
proof -
  let ?d = "d\<lparr>shm := (shm d)\<lparr>jack := v\<rparr>\<rparr>"
  have ok: "levels_ok (shm ?d)" "rg35xx_ok (?d\<lparr>amp := None\<rparr>)" using assms by (simp_all add: rg35xx_ok_def levels_ok_def)
  then have "rg35xx_ok (SetVolume (GetVolume ?d) ?d)" by (intro SetVolume_ok levels_ok_getters)
  then show ?thesis by (simp add: SetJack_def Let_def)
qed

lemma plus_SetHDMI_ok:
  assumes "plus_ok d"
  shows "plus_ok (plus_SetHDMI v d)"
proof -
  let ?d = "d\<lparr>shm := (shm d)\<lparr>hdmi := v\<rparr>\<rparr>"
  have ok: "levels_ok (shm ?d)" "plus_ok (?d\<lparr>amp := None\<rparr>)" using assms by (simp_all add: plus_ok_def levels_ok_def)
  then have "v = 0 \<Longrightarrow> plus_ok (plus_SetVolume (GetVolume ?d) ?d)" by (intro plus_SetVolume_ok levels_ok_getters) simp_all
  moreover have "v \<noteq> 0 \<Longrightarrow> plus_ok (?d\<lparr>amp := Some 100\<rparr>)" using ok by (simp add: plus_ok_def)
  ultimately show ?thesis by (cases "v = 0") (simp_all add: plus_SetHDMI_def Let_def)
qed

lemma rg35xx_keymon_ok: "rg35xx_ok (snd st) \<Longrightarrow> rg35xx_ok (snd (rg35xx_keymon u h st))"
  by (cases h) (simp_all add: rg35xx_keymon_def SetJack_ok rg35xx_levels.keymon_frame_inv)

lemma plus_keymon_ok: "plus_ok (snd st) \<Longrightarrow> plus_ok (snd (plus_keymon u h st))"
  by (cases h) (simp_all add: plus_keymon_def plus_SetHDMI_ok plus_levels.keymon_frame_inv)

lemma key_event_ignored [simp]: "fold (key_event role_of ms True) evs k = k"
  by (induction evs arbitrary: k) (simp_all add: key_event_def split: prod.splits)

text \<open>The port thread's reports end with the last reading, so the settings follow the port.\<close>

lemma watch_changes_last: "last (watch_changes first rs) = last (first # rs)"
proof -
  let ?step = "\<lambda>r (had, out). if had \<noteq> r then (r, r # out) else (had, out)"
  have "fst (fold ?step rs (first, [])) = last (first # rs)
        \<and> last (first # rev (snd (fold ?step rs (first, [])))) = last (first # rs)"
    by (induction rs rule: rev_induct) (auto split: prod.splits if_splits)
  then show ?thesis by (simp add: watch_changes_def)
qed

text \<open>With the cable plugged in, the plus platform's setters leave the settings alone.\<close>

lemma stuck_keys:
  assumes "\<And>v. setB lv v d = d" and "\<And>v. setV lv v d = d"
  shows "snd (up_keys lv ms (k, d)) = d" "snd (down_keys lv ms (k, d)) = d"
  using assms by (simp_all add: up_keys_def down_keys_def Let_def)

lemma stuck_frame:
  assumes "\<And>v. setB lv v d = d" and "\<And>v. setV lv v d = d"
  shows "snd (keymon_frame role_of lv ms evs (k, d)) = d"
proof -
  have "snd (down_keys lv ms (up_keys lv ms (k', d))) = d" for k'
    using stuck_keys [OF assms] by (metis prod.collapse)
  then show ?thesis by (simp add: keymon_frame_def Let_def)
qed

lemma plus_frame_hdmi:
  assumes "hdmi (shm (snd st)) \<noteq> 0"
  shows "snd (keymon_frame role_of (plus_ops u) ms evs st) = snd st"
  using assms stuck_frame [of "plus_ops u" "snd st" role_of ms evs "fst st"]
  by (simp add: plus_ops_def plus_SetVolume_def plus_SetBrightness_def)

lemma plus_frames_hdmi:
  assumes "\<forall>h \<in> set hs. \<exists>ms evs. h = Frame ms evs" and "hdmi (shm (snd st)) \<noteq> 0"
  shows "snd (fold (plus_keymon u) hs st) = snd st"
  using assms
proof (induction hs arbitrary: st)
  case Nil
  then show ?case by simp
next
  case (Cons h hs)
  then have "snd (plus_keymon u h st) = snd st"
    by (auto simp: plus_keymon_def plus_frame_hdmi)
  with Cons show ?case by simp
qed

subsection \<open>Properties\<close>

text \<open>C37: no sequence of key events (of any kind, at any times, with repeats and
  wrapped clocks) and of jack or HDMI changes takes brightness out of 0-10 or a volume out of 0-20
  on either platform, and the back light and the amplifier are always at the values that the tables give for the present levels,
  never at those of an unassigned variable: the amplifier at twice the volume on the rg35xx, at five times on the rg35xxplus and at 100 while the cable
  is in. That is if it is so at the start or nothing has been written to the hardware yet.\<close>

theorem keymon_levels:
  assumes "rg35xx_ok d" and "plus_ok e"
  shows "rg35xx_ok (snd (fold (rg35xx_keymon uninit) hs (k, d))) \<and> plus_ok (snd (fold (plus_keymon uninit) hs (k, e)))"
proof
  show "rg35xx_ok (snd (fold (rg35xx_keymon uninit) hs (k, d)))"
    by (rule fold_inv) (simp_all add: rg35xx_keymon_ok assms(1))
  show "plus_ok (snd (fold (plus_keymon uninit) hs (k, e)))"
    by (rule fold_inv) (simp_all add: plus_keymon_ok assms(2))
qed

theorem keymon_levels_witness:
  "rg35xx_ok (snd (fold (rg35xx_keymon 9999) [Frame 16 [(1, 0x6C, 1)], Port 1] (keymon_start 0, demo_dev)))
   \<and> plus_ok (snd (fold (plus_keymon 9999) [Frame 16 [(1, 0x6C, 1)], Port 1] (keymon_start 0, plus_demo_dev)))"
  by (rule keymon_levels)
    (simp_all add: rg35xx_ok_def plus_ok_def levels_ok_def demo_dev_def plus_demo_dev_def DefaultSettings_def
      plus_DefaultSettings_def BRIGHTNESS_MAX_def VOLUME_MAX_def)

text \<open>After a gap of more than a second, whatever events queued up meanwhile, the frame changes no
  setting and no key counts as held: the next frame without events changes nothing either.\<close>

theorem keymon_ignores_sleep:
  assumes "ms - then_ms k > 1000" and "ms2 - ms \<le> 1000"
  shows "snd (keymon_frame role_of lv ms evs (k, d)) = d
         \<and> snd (keymon_frame role_of lv ms2 [] (keymon_frame role_of lv ms evs (k, d))) = d"
  using assms by (simp add: keymon_frame_def Let_def up_keys_def down_keys_def forget_keys_def not_less)

theorem keymon_ignores_sleep_witness:
  "snd (keymon_frame rg35xx_role (rg35xx_ops 0) 5000 [(1, 0x6C, 1)] (keymon_start 0, demo_dev)) = demo_dev
   \<and> snd (keymon_frame rg35xx_role (rg35xx_ops 0) 5016 []
       (keymon_frame rg35xx_role (rg35xx_ops 0) 5000 [(1, 0x6C, 1)] (keymon_start 0, demo_dev))) = demo_dev"
  by (rule keymon_ignores_sleep) (simp_all add: keymon_start_def)

text \<open>While the HDMI cable is in, the keys change nothing on the plus platform; after it is unplugged
  the brightness and both volumes are those from before and the amplifier is set to them again.\<close>

theorem hdmi_session:
  assumes "v \<noteq> 0" and "\<forall>h \<in> set hs. \<exists>ms evs. h = Frame ms evs"
    and "hdmi (shm e) = 0"
  shows "shm (snd (fold (plus_keymon uninit) (Port v # hs @ [Port 0]) (k, e))) = shm e
         \<and> amp (snd (fold (plus_keymon uninit) (Port v # hs @ [Port 0]) (k, e))) = Some (GetVolume e * 5)"
proof -
  let ?plug = "plus_keymon uninit (Port v) (k, e)"
  have plug: "shm (snd ?plug) = (shm e)\<lparr>hdmi := v\<rparr>"
    using assms(1) by (simp add: plus_keymon_def plus_SetHDMI_def Let_def)
  have "snd (fold (plus_keymon uninit) hs ?plug) = snd ?plug"
    using assms(1,2) plug by (intro plus_frames_hdmi) simp_all
  then show ?thesis
    using assms(3) plug
    by (simp add: plus_keymon_def plus_SetHDMI_def Let_def plus_SetVolume_amp GetVolume_def set_level_def)
qed

theorem hdmi_session_witness:
  "shm (snd (fold (plus_keymon 0) (Port 1 # [Frame 16 [(1, 115, 1)]] @ [Port 0]) (keymon_start 0, plus_demo_dev)))
     = shm plus_demo_dev
   \<and> amp (snd (fold (plus_keymon 0) (Port 1 # [Frame 16 [(1, 115, 1)]] @ [Port 0]) (keymon_start 0, plus_demo_dev)))
     = Some (GetVolume plus_demo_dev * 5)"
  by (rule hdmi_session) (simp_all add: plus_demo_dev_def plus_DefaultSettings_def)

end
