(* ===== verification/Keyboard.thy ===== *)
theory Keyboard
  imports Pad
begin

text \<open>
  The on-screen keyboard that the Wi-Fi tool (\<open>wifi/wifi.c\<close>) and the collection picker of the in-game
  menu (\<open>minarch/menu.c\<close>) each have a copy of, with a table of rows of their own. The locale
  \<open>keyboard_table\<close> asks of a table what the cursor arithmetic relies on.
\<close>

record keyboard =
  cr :: int
  cc :: int
  typed :: string
  kdone :: bool
  kresult :: bool

definition keyboard_start :: keyboard where
  "keyboard_start = \<lparr>cr = 0, cc = 0, typed = [], kdone = False, kresult = False\<rparr>"

definition keyboard_move :: "string list \<Rightarrow> PAD_Context \<Rightarrow> keyboard \<Rightarrow> keyboard" where
  "keyboard_move kb pad k =
     (let nrows = int (length kb);
          k = (if PAD_justRepeated pad BTN_UP then k\<lparr>cr := (cr k - 1 + nrows) mod nrows\<rparr>
               else if PAD_justRepeated pad BTN_DOWN then k\<lparr>cr := (cr k + 1) mod nrows\<rparr>
               else if PAD_justRepeated pad BTN_LEFT then k\<lparr>cc := cc k - 1\<rparr>
               else if PAD_justRepeated pad BTN_RIGHT then k\<lparr>cc := cc k + 1\<rparr>
               else k);
          rl = int (length (kb ! nat (cr k)));
          k = (if cc k < 0 then k\<lparr>cc := rl - 1\<rparr> else k)
      in if cc k \<ge> rl then k\<lparr>cc := 0\<rparr> else k)"

definition keyboard_press :: "string list \<Rightarrow> nat \<Rightarrow> PAD_Context \<Rightarrow> keyboard \<Rightarrow> keyboard" where
  "keyboard_press kb maxlen pad k =
     (if PAD_justPressed pad (btn_mask BTN_ID_A) then
        (if length (typed k) < maxlen - 1
         then k\<lparr>typed := typed k @ [kb ! nat (cr k) ! nat (cc k)]\<rparr> else k)
      else if PAD_justPressed pad (btn_mask BTN_ID_B) then
        (if length (typed k) > 0 then k\<lparr>typed := butlast (typed k)\<rparr>
         else k\<lparr>kresult := False, kdone := True\<rparr>)
      else if PAD_justPressed pad (btn_mask BTN_ID_START) then
        (if length (typed k) > 0 then k\<lparr>kresult := True, kdone := True\<rparr> else k)
      else if PAD_justPressed pad (btn_mask BTN_ID_MENU) then k\<lparr>kresult := False, kdone := True\<rparr>
      else k)"

fun keyboard_loop :: "string list \<Rightarrow> nat \<Rightarrow> PAD_Context list \<Rightarrow> keyboard \<Rightarrow> keyboard" where
  \<comment> \<open>one element of the list per frame, until the keyboard is left\<close>
  "keyboard_loop kb maxlen [] k = k"
| "keyboard_loop kb maxlen (pad # pads) k =
     (if kdone k then k else keyboard_loop kb maxlen pads (keyboard_press kb maxlen pad (keyboard_move kb pad k)))"

definition kb_ok :: "string list \<Rightarrow> nat \<Rightarrow> keyboard \<Rightarrow> bool" where
  \<comment> \<open>the cursor is on a key, the text fits its buffer and consists of keys, only a text is confirmed\<close>
  "kb_ok kb maxlen k \<longleftrightarrow> 0 \<le> cr k \<and> cr k < int (length kb) \<and> 0 \<le> cc k \<and> cc k < int (length (kb ! nat (cr k)))
     \<and> length (typed k) \<le> maxlen - 1 \<and> set (typed k) \<subseteq> set (concat kb) \<and> (kresult k \<longrightarrow> typed k \<noteq> [])"

locale keyboard_table =
  fixes kb :: "string list"
  assumes some_row: "kb \<noteq> []" and full_rows: "\<forall>row \<in> set kb. row \<noteq> []"
begin

lemma row_full: "0 \<le> r \<Longrightarrow> r < int (length kb) \<Longrightarrow> 0 < length (kb ! nat r)"
  using full_rows by (simp add: nat_less_iff)

lemma move_ok:
  assumes "kb_ok kb maxlen k"
  shows "kb_ok kb maxlen (keyboard_move kb pad k)"
proof -
  have n: "0 < int (length kb)" using some_row by simp
  have r: "0 \<le> cr k" "cr k < int (length kb)" using assms by (auto simp: kb_ok_def)
  let ?n = "int (length kb)"
  have up: "0 < length (kb ! nat ((cr k - 1 + ?n) mod ?n))" and down: "0 < length (kb ! nat ((cr k + 1) mod ?n))"
    and here: "0 < length (kb ! nat (cr k))"
    using n r by (intro row_full; simp)+
  show ?thesis using assms n up down here by (auto simp: keyboard_move_def kb_ok_def Let_def)
qed

lemma press_ok:
  assumes "kb_ok kb maxlen k" and "\<not> kdone k" and "\<not> kresult k"
  shows "kb_ok kb maxlen (keyboard_press kb maxlen pad k)
         \<and> (kresult (keyboard_press kb maxlen pad k) \<longrightarrow> kdone (keyboard_press kb maxlen pad k))"
proof -
  have "nat (cr k) < length kb" "nat (cc k) < length (kb ! nat (cr k))" using assms(1) by (auto simp: kb_ok_def)
  then have "kb ! nat (cr k) ! nat (cc k) \<in> set (concat kb)" by (metis UN_I nth_mem set_concat)
  moreover have "set (butlast (typed k)) \<subseteq> set (typed k)" by (meson in_set_butlastD subsetI)
  ultimately show ?thesis
    using assms by (auto simp: keyboard_press_def kb_ok_def)
qed

lemma run_ok: "kb_ok kb maxlen k \<Longrightarrow> (kresult k \<longrightarrow> kdone k) \<Longrightarrow> kb_ok kb maxlen (keyboard_loop kb maxlen pads k)"
proof (induction pads arbitrary: k)
  case (Cons pad pads)
  have same: "kdone (keyboard_move kb pad k) = kdone k" "kresult (keyboard_move kb pad k) = kresult k"
    by (simp_all add: keyboard_move_def Let_def)
  show ?case
  proof (cases "kdone k")
    case False
    then have "\<not> kdone (keyboard_move kb pad k)" "\<not> kresult (keyboard_move kb pad k)" using Cons.prems same by auto
    from press_ok [OF move_ok [OF Cons.prems(1)] this] Cons.IH False show ?thesis by simp
  qed (simp add: Cons.prems)
qed simp

lemma start_ok: "kb_ok kb maxlen keyboard_start"
  using some_row row_full [of 0] by (simp add: kb_ok_def keyboard_start_def)

lemma session_ok: "kb_ok kb maxlen (keyboard_loop kb maxlen pads keyboard_start)"
  by (rule run_ok [OF start_ok]) (simp add: keyboard_start_def)

end

end
