(* ===== verification/Wifi.thy ===== *)
theory Wifi
  imports Utils Shell Keyboard
begin

text \<open>
  The Wi-Fi tool \<open>wifi/wifi.c\<close>: reading scan results, writing the supplicant's configuration with an
  untrusted network name, saving the credentials, connecting, and the two input loops (the list and
  the on-screen keyboard).

  The programs it runs are arguments: \<open>popen\<close> yields the output of \<open>wpa_cli\<close> or of
  \<open>wpa_passphrase\<close> for a command line (\<open>None\<close> when it cannot be started), and the answers of the
  polls while connecting are lists of booleans. \<open>sdcard\<close> is the environment variable \<open>SDCARD_PATH\<close>.
\<close>

definition WIFI_MAX_NETWORKS :: nat where "WIFI_MAX_NETWORKS = 32"
definition WIFI_VISIBLE_ROWS :: nat where "WIFI_VISIBLE_ROWS = 9"
definition WIFI_SSID_LEN :: nat where "WIFI_SSID_LEN = 33"
definition WIFI_PASS_LEN :: nat where "WIFI_PASS_LEN = 128"
definition WIFI_CONF_PATH :: string where "WIFI_CONF_PATH = ''/tmp/wifi.conf''"
definition char_dquote :: char where "char_dquote = CHR 0x22"

record WifiNetwork =
  ssid :: string
  signal :: int
  is_open :: bool

subsection \<open>Scanning\<close>

definition Wifi_isOpenFlags :: "string \<Rightarrow> bool" where
  "Wifi_isOpenFlags flags =
     (if containsString flags ''WPA'' then False
      else if containsString flags ''WEP'' then False
      else if containsString flags ''PSK'' then False
      else if containsString flags ''SAE'' then False
      else True)"

definition atoi :: "string \<Rightarrow> int" where
  "atoi s =
     (case dropWhile isspace s of
        [] \<Rightarrow> 0
      | c # s' \<Rightarrow> if c = CHR ''-'' then - int (read_base 10 s')
                 else if c = CHR ''+'' then int (read_base 10 s')
                 else int (read_base 10 (c # s')))"

fun tab_fields :: "nat \<Rightarrow> string \<Rightarrow> string list" where
  \<comment> \<open>at most \<open>k + 1\<close> fields; the last one keeps its tabs\<close>
  "tab_fields 0 cur = [cur]"
| "tab_fields (Suc k) cur =
     (case strchr cur char_tab of
        None \<Rightarrow> [cur]
      | Some i \<Rightarrow> take i cur # tab_fields k (drop (Suc i) cur))"

definition parse_row :: "string \<Rightarrow> (string \<times> int \<times> bool) option" where
  "parse_row line =
     (let line = clean_line line in
      if line = [] then None
      else
        (let fields = tab_fields 4 line in
         if length fields < 5 then None
         else
           (let sig = atoi (fields ! 2); flags = fields ! 3; name = fields ! 4 in
            if name = [] then None else Some (name, sig, Wifi_isOpenFlags flags))))"

definition find_network :: "string \<Rightarrow> WifiNetwork list \<Rightarrow> nat option" where
  "find_network name ns = List.find (\<lambda>i. exact_match (ssid (ns ! i)) name) [0..<length ns]"

definition add_network :: "string \<times> int \<times> bool \<Rightarrow> WifiNetwork list \<Rightarrow> WifiNetwork list" where
  "add_network row ns =
     (case row of (name, sig, op) \<Rightarrow>
        (case find_network name ns of
           Some i \<Rightarrow> if sig > signal (ns ! i) then ns[i := (ns ! i)\<lparr>signal := sig, is_open := op\<rparr>] else ns
         | None \<Rightarrow> ns @ [\<lparr>ssid = snprintf_buf WIFI_SSID_LEN name, signal = sig, is_open = op\<rparr>]))"

fun scan_loop :: "string list \<Rightarrow> WifiNetwork list \<Rightarrow> WifiNetwork list" where
  "scan_loop [] ns = ns"
| "scan_loop (line # rest) ns =
     (if length ns \<ge> WIFI_MAX_NETWORKS then ns
      else (case parse_row line of
              None \<Rightarrow> scan_loop rest ns
            | Some row \<Rightarrow> scan_loop rest (add_network row ns)))"

definition Wifi_scanResults :: "string option \<Rightarrow> WifiNetwork list" where
  \<comment> \<open>the first line is the header\<close>
  "Wifi_scanResults output =
     (case output of
        None \<Rightarrow> []
      | Some out \<Rightarrow> sort_key (\<lambda>n. - signal n) (scan_loop (drop 1 (fgets_all 512 out)) []))"

subsection \<open>The configuration file\<close>

fun conf_loop :: "nat \<Rightarrow> nat \<Rightarrow> string \<Rightarrow> string" where
  "conf_loop outlen k [] = []"
| "conf_loop outlen k (c # cs) =
     (if \<not> k + 2 < outlen then []
      else if c = char_newline \<or> c = char_return then conf_loop outlen k cs
      else
        (let pre = (if c = char_dquote \<or> c = char_backslash then [char_backslash] else []);
             k = k + length pre
         in if k + 1 \<ge> outlen then pre
            else pre @ c # conf_loop outlen (k + 1) cs))"

definition Wifi_confEscape :: "nat \<Rightarrow> string \<Rightarrow> string" where
  "Wifi_confEscape outlen s = conf_loop outlen 0 s"

definition not_newline :: "char \<Rightarrow> bool" where
  "not_newline c \<longleftrightarrow> c \<noteq> char_newline \<and> c \<noteq> char_return"

definition quoted_line :: "string \<Rightarrow> string \<Rightarrow> string" where
  "quoted_line key value = [char_tab] @ key @ ''='' @ [char_dquote] @ value @ [char_dquote]"

definition append_file :: "string \<Rightarrow> string \<Rightarrow> fs \<Rightarrow> fs" where
  "append_file p s fs = putFile p ((case fopen_r fs p of Some t \<Rightarrow> t | None \<Rightarrow> []) @ s) fs"

definition psk_lines :: "string \<Rightarrow> string list \<Rightarrow> string" where
  \<comment> \<open>what is copied of the output of \<open>wpa_passphrase\<close>\<close>
  "psk_lines ssid_esc ls =
     concat (map (\<lambda>line.
       let trimmed = dropWhile isblank line in
       if take 5 trimmed = ''ssid='' then []
       else line @ (if take 9 trimmed = ''network={''
                    then quoted_line ''ssid'' ssid_esc @ [char_newline] else [])) ls)"

definition passphrase_command :: "string \<Rightarrow> string \<Rightarrow> string" where
  "passphrase_command name password =
     (let ssid_clean = take (WIFI_SSID_LEN - 1) (filter not_newline name);
          ssid_q = Wifi_shellQuote (WIFI_SSID_LEN * 4 + 4) ssid_clean;
          pass_q = Wifi_shellQuote (WIFI_PASS_LEN * 4 + 4) password
      in snprintf_buf (WIFI_SSID_LEN * 4 + 4 + (WIFI_PASS_LEN * 4 + 4) + 64)
           (''wpa_passphrase '' @ ssid_q @ '' '' @ pass_q @ '' 2>/dev/null''))"

definition conf_header :: string where
  "conf_header = write_lines [''ctrl_interface=/var/run/wpa_supplicant'', ''update_config=1'']"

definition Wifi_writeConfig ::
  "(string \<Rightarrow> string option) \<Rightarrow> string \<Rightarrow> string \<Rightarrow> bool \<Rightarrow> fs \<Rightarrow> fs \<times> bool" where
  "Wifi_writeConfig popen name password open_net fs =
     (if \<not> fopen_w fs WIFI_CONF_PATH then (fs, False)
      else
        (let fs = putFile WIFI_CONF_PATH conf_header fs;
             ssid_esc = Wifi_confEscape (WIFI_SSID_LEN * 2) name
         in if open_net then
              (append_file WIFI_CONF_PATH
                 (write_lines [''network={'', quoted_line ''ssid'' ssid_esc, [char_tab] @ ''key_mgmt=NONE'', ''}'']) fs,
               True)
            else
              (let ls = (case popen (passphrase_command name password) of
                           None \<Rightarrow> [] | Some out \<Rightarrow> fgets_all 256 out);
                   fs = (if ls = [] then fs else append_file WIFI_CONF_PATH (psk_lines ssid_esc ls) fs);
                   wrote_psk = (ls \<noteq> [])
               in if wrote_psk then (fs, True)
                  else
                    (let pass_esc = Wifi_confEscape (WIFI_PASS_LEN * 2) password in
                     (append_file WIFI_CONF_PATH
                        (write_lines [''network={'', quoted_line ''ssid'' ssid_esc, quoted_line ''psk'' pass_esc, ''}'']) fs,
                      True)))))"

subsection \<open>Saved credentials and connecting\<close>

definition sdcard_dir :: "string option \<Rightarrow> string" where
  "sdcard_dir sdcard = (case sdcard of None \<Rightarrow> ''/mnt/sdcard'' | Some s \<Rightarrow> if s = [] then ''/mnt/sdcard'' else s)"

definition Wifi_persist :: "string option \<Rightarrow> string \<Rightarrow> string \<Rightarrow> fs \<Rightarrow> fs" where
  "Wifi_persist sdcard name password fs =
     (let dir = snprintf_buf 512 (sdcard_dir sdcard @ ''/.userdata'');
          fs = mkdir dir fs;
          path = snprintf_buf 512 (dir @ ''/wifi.txt'')
      in putFile path (name @ [char_newline] @ password @ [char_newline]) fs)"

definition Wifi_loadPersisted :: "string option \<Rightarrow> nat \<Rightarrow> nat \<Rightarrow> fs \<Rightarrow> (string \<times> string) option" where
  "Wifi_loadPersisted sdcard ssid_len pass_len fs =
     (let path = snprintf_buf 512 (sdcard_dir sdcard @ ''/.userdata/wifi.txt'') in
      if \<not> exists fs path then None
      else
        (case fopen_r fs path of
           None \<Rightarrow> None
         | Some s \<Rightarrow>
             (let ls = fgets_all 256 s;
                  name = (if length ls > 0 then snprintf_buf ssid_len (clean_line (ls ! 0)) else []);
                  password = (if length ls > 1 then snprintf_buf pass_len (clean_line (ls ! 1)) else [])
              in if name \<noteq> [] then Some (name, password) else None)))"

definition Wifi_connect ::
  "(string \<Rightarrow> string option) \<Rightarrow> bool list \<Rightarrow> bool list \<Rightarrow> bool \<Rightarrow> string option \<Rightarrow>
   string \<Rightarrow> string \<Rightarrow> bool \<Rightarrow> fs \<Rightarrow> fs \<times> bool" where
  \<comment> \<open>\<open>completed\<close>, \<open>leased\<close>: the answers of successive polls; \<open>is_on\<close>: the interface's state at the end\<close>
  "Wifi_connect popen completed leased is_on sdcard name password open_net fs =
     (case Wifi_writeConfig popen name password open_net fs of
        (fs, False) \<Rightarrow> (fs, False)
      | (fs, True) \<Rightarrow>
          if \<not> list_ex id (take 30 completed) then (fs, False)
          else if \<not> list_ex id (take 20 leased) \<or> \<not> is_on then (fs, False)
          else (Wifi_persist sdcard name password fs, True))"

definition Wifi_enable ::
  "(string \<Rightarrow> string option) \<Rightarrow> bool list \<Rightarrow> bool list \<Rightarrow> bool \<Rightarrow> string option \<Rightarrow> fs \<Rightarrow> fs" where
  "Wifi_enable popen completed leased is_on sdcard fs =
     (case Wifi_loadPersisted sdcard WIFI_SSID_LEN WIFI_PASS_LEN fs of
        None \<Rightarrow> fs
      | Some (name, password) \<Rightarrow>
          fst (Wifi_connect popen completed leased is_on sdcard name password (password = []) fs))"

subsection \<open>The on-screen keyboard\<close>

definition KB :: "string list" where
  "KB = [''ABCDEFGHIJKLM'', ''NOPQRSTUVWXYZ'', ''abcdefghijklm'', ''nopqrstuvwxyz'', ''0123456789'',
         '' -_!@#$%^&*()+=.,'']"

definition Wifi_keyboard :: "nat \<Rightarrow> PAD_Context list \<Rightarrow> keyboard \<Rightarrow> keyboard" where
  "Wifi_keyboard maxlen pads k = keyboard_loop KB maxlen pads k"

subsection \<open>The network list\<close>

record wifi_list =
  networks :: "WifiNetwork list"
  wselected :: int
  list_top :: int
  wquit :: bool

definition wifi_keys :: "PAD_Context \<Rightarrow> bool \<Rightarrow> string option \<Rightarrow> wifi_list \<Rightarrow> wifi_list" where
  \<comment> \<open>B, rescan (Y) and on/off (X); \<open>output\<close> is the scan the frame gets to see, if it scans\<close>
  "wifi_keys pad on output w =
     (let w = (if PAD_justPressed pad (btn_mask BTN_ID_B) then w\<lparr>wquit := True\<rparr> else w);
          w = (if PAD_justPressed pad (btn_mask BTN_ID_Y) then
                 (let w = w\<lparr>networks := Wifi_scanResults output\<rparr>; n = int (length (networks w)) in
                  if wselected w \<ge> n then w\<lparr>wselected := (if n > 0 then n - 1 else 0)\<rparr> else w)
               else w)
      in if PAD_justPressed pad (btn_mask BTN_ID_X) then
           (if on then w\<lparr>networks := []\<rparr> else w\<lparr>networks := Wifi_scanResults output\<rparr>)
             \<lparr>wselected := 0, list_top := 0\<rparr>
         else w)"

definition wifi_cursor :: "PAD_Context \<Rightarrow> wifi_list \<Rightarrow> wifi_list" where
  "wifi_cursor pad w =
     (let n = int (length (networks w));
          w = (if n > 0 \<and> PAD_justRepeated pad BTN_UP then w\<lparr>wselected := (wselected w - 1 + n) mod n\<rparr> else w)
      in if n > 0 \<and> PAD_justRepeated pad BTN_DOWN then w\<lparr>wselected := (wselected w + 1) mod n\<rparr> else w)"

definition wifi_window :: "wifi_list \<Rightarrow> wifi_list" where
  "wifi_window w =
     (let rows = int WIFI_VISIBLE_ROWS;
          w = (if wselected w < list_top w then w\<lparr>list_top := wselected w\<rparr> else w);
          w = (if length (networks w) > 0 \<and> wselected w \<ge> list_top w + rows
               then w\<lparr>list_top := wselected w - rows + 1\<rparr> else w)
      in if list_top w < 0 then w\<lparr>list_top := 0\<rparr> else w)"

definition wifi_frame :: "PAD_Context \<Rightarrow> bool \<Rightarrow> string option \<Rightarrow> wifi_list \<Rightarrow> wifi_list" where
  "wifi_frame pad on output w = wifi_window (wifi_cursor pad (wifi_keys pad on output w))"

subsection \<open>Facts: quoting in the configuration\<close>

text \<open>Reading a quoted value up to its closing quote, a backslash protecting the next character.\<close>

fun conf_read :: "string \<Rightarrow> (string \<times> string) option" where
  "conf_read [] = None"
| "conf_read (c # cs) =
     (if c = char_dquote then Some ([], cs)
      else if c = char_backslash then
        (case cs of [] \<Rightarrow> None | d # ds \<Rightarrow> map_option (\<lambda>(v, r). (d # v, r)) (conf_read ds))
      else map_option (\<lambda>(v, r). (c # v, r)) (conf_read cs))"

definition conf_char :: "char \<Rightarrow> string" where
  "conf_char c = (if c = char_dquote \<or> c = char_backslash then [char_backslash, c] else [c])"

lemma char_dquote_neq [simp]: "char_backslash \<noteq> char_dquote" "char_dquote \<noteq> char_backslash"
  by (simp_all add: char_dquote_def char_backslash_def)

lemma conf_read_escaped:
  "conf_read (concat (map conf_char s) @ char_dquote # r) = Some (s, r)"
  by (induction s) (auto simp: conf_char_def)

lemma conf_loop_whole:
  "k + 2 * length s < n \<Longrightarrow> conf_loop n k s = concat (map conf_char (filter not_newline s))"
  by (induction s arbitrary: k) (auto simp: Let_def conf_char_def not_newline_def)

lemma conf_loop_line: "plain_line (conf_loop n k s)"
  by (induction n k s rule: conf_loop.induct)
    (auto simp: Let_def plain_line_def char_backslash_def char_newline_def char_return_def)

lemma confEscape_reads:
  assumes "2 * length s < n"
  shows "conf_read (Wifi_confEscape n s @ char_dquote # r) = Some (filter not_newline s, r)"
  using assms by (simp add: Wifi_confEscape_def conf_loop_whole conf_read_escaped)

lemma confEscape_line: "plain_line (Wifi_confEscape n s)"
  by (simp add: Wifi_confEscape_def conf_loop_line)

lemma sh_lex_program:
  "sh_lex False None (''wpa_passphrase '' @ r) = map_option (Cons ''wpa_passphrase'') (sh_lex False None r)"
  by (simp add: char_quote_def char_backslash_def sh_special_def Let_def)

lemma passphrase_command_words:
  assumes "length name \<le> 32" and "length password \<le> 127"
  shows "\<exists>words. passphrase_command name password = words @ '' 2>/dev/null''
           \<and> sh_words words = Some [''wpa_passphrase'', filter not_newline name, password]"
proof -
  let ?s = "filter not_newline name"
  let ?q = "Wifi_shellQuote 136 ?s" and ?p = "Wifi_shellQuote 516 password"
  have ls: "length ?s \<le> 32" using assms(1) by (meson length_filter_le order_trans)
  have fits: "length (quote_all ?s) + 4 \<le> 133" "length (quote_all password) + 4 \<le> 513"
    using length_quote_all [of ?s] length_quote_all [of password] ls assms(2) by linarith+
  have q: "?q = [char_quote] @ quote_all ?s @ [char_quote]" "?p = [char_quote] @ quote_all password @ [char_quote]"
    using fits by (simp_all add: Wifi_shellQuote_def shellquote_loop_whole)
  have cmd: "passphrase_command name password = ''wpa_passphrase '' @ ?q @ '' '' @ ?p @ '' 2>/dev/null''"
  proof -
    have "take 32 ?s = ?s" using ls by simp
    moreover have "length (''wpa_passphrase '' @ ?q @ '' '' @ ?p @ '' 2>/dev/null'') < 716"
      using fits by (simp add: q)
    ultimately show ?thesis
      by (simp add: passphrase_command_def Let_def WIFI_SSID_LEN_def WIFI_PASS_LEN_def snprintf_buf_def)
  qed
  have "sh_lex False None (?q @ '' '' @ ?p) = Some [?s, password]"
    using q sh_lex_quoted [of None ?s "'' '' @ ?p"] sh_lex_quoted [of None password "[]"]
    by (simp add: char_quote_def char_backslash_def)
  then have "sh_words (''wpa_passphrase '' @ ?q @ '' '' @ ?p) = Some [''wpa_passphrase'', ?s, password]"
    by (simp only: sh_words_def sh_lex_program) simp
  then show ?thesis using cmd by (intro exI [of _ "''wpa_passphrase '' @ ?q @ '' '' @ ?p"]) simp
qed

subsection \<open>Facts: scanning\<close>

definition scan_rows :: "string list \<Rightarrow> (string \<times> int \<times> bool) list" where
  "scan_rows ls = List.map_filter parse_row ls"

lemma scan_rows_simps [simp]:
  "scan_rows [] = []"
  "scan_rows (l # ls) = (case parse_row l of None \<Rightarrow> scan_rows ls | Some r \<Rightarrow> r # scan_rows ls)"
  by (simp_all add: scan_rows_def map_filter_simps split: option.split)

lemma scan_rows_take: "set (scan_rows (take k ls)) \<subseteq> set (scan_rows ls)"
proof (induction ls arbitrary: k)
  case (Cons l ls)
  then show ?case by (cases k) (auto split: option.split)
qed simp

lemma find_network_Some: "find_network name ns = Some i \<Longrightarrow> i < length ns \<and> ssid (ns ! i) = name"
  by (auto simp: find_network_def find_Some_iff)

lemma find_network_None: "find_network name ns = None \<Longrightarrow> name \<notin> ssid ` set ns"
  by (auto simp: find_network_def find_None_iff in_set_conv_nth)

text \<open>What the list holds after some rows: one network per name, with the strongest of its rows.\<close>

definition strongest :: "(string \<times> int \<times> bool) list \<Rightarrow> WifiNetwork list \<Rightarrow> bool" where
  "strongest rows ns \<longleftrightarrow> distinct (map ssid ns) \<and> ssid ` set ns = fst ` set rows
     \<and> (\<forall>n \<in> set ns. (ssid n, signal n, is_open n) \<in> set rows
          \<and> (\<forall>(name, sig, op) \<in> set rows. name = ssid n \<longrightarrow> sig \<le> signal n))"

lemma strongest_new:
  assumes "strongest rows ns" and "length name \<le> 32" and None: "find_network name ns = None"
  shows "strongest (rows @ [(name, sig, op)]) (add_network (name, sig, op) ns)"
proof -
  have new: "name \<notin> ssid ` set ns" using None by (rule find_network_None)
  then have fresh: "name \<noteq> fst r" if "r \<in> set rows" for r
    using that assms(1) unfolding strongest_def by (metis image_eqI)
  let ?n = "\<lparr>ssid = name, signal = sig, is_open = op\<rparr>"
  have "snprintf_buf WIFI_SSID_LEN name = name"
    using assms(2) unfolding WIFI_SSID_LEN_def by (intro snprintf_buf_fits) simp
  then have add: "add_network (name, sig, op) ns = ns @ [?n]" using None by (simp add: add_network_def)
  have other: "ssid n \<noteq> name" if "n \<in> set ns" for n using that new by auto
  show ?thesis unfolding strongest_def add
  proof (intro conjI ballI, goal_cases)
    case 1
    then show ?case using assms(1) new by (auto simp: strongest_def)
  next
    case 2
    then show ?case using assms(1) by (simp add: strongest_def)
  next
    case (3 n)
    then show ?case using assms(1) by (auto simp: strongest_def)
  next
    case (4 n r)
    show ?case
    proof (cases "n \<in> set ns")
      case True
      then show ?thesis using 4 assms(1) other [OF True] unfolding strongest_def by auto
    next
      case False
      then have "n = ?n" using 4 by simp
      then show ?thesis using 4 fresh by fastforce
    qed
  qed
qed

lemma strongest_weaker:
  assumes "strongest rows ns" and Some: "find_network name ns = Some i" and False: "\<not> sig > signal (ns ! i)"
  shows "strongest (rows @ [(name, sig, op)]) (add_network (name, sig, op) ns)"
proof -
  have i: "i < length ns" "ssid (ns ! i) = name" using Some find_network_Some by blast+
  have weaker: "sig \<le> signal n" if "n \<in> set ns" "ssid n = name" for n
    using that i assms(1) False by (metis strongest_def distinct_map inj_onD nth_mem not_less)
  have mem: "name \<in> fst ` set rows" using assms(1) i unfolding strongest_def by (metis image_eqI nth_mem)
  have add: "add_network (name, sig, op) ns = ns" using False Some by (simp add: add_network_def)
  show ?thesis unfolding strongest_def add
  proof (intro conjI ballI, goal_cases)
    case 1
    then show ?case using assms(1) by (simp add: strongest_def)
  next
    case 2
    then show ?case using assms(1) mem unfolding strongest_def by auto
  next
    case (3 n)
    then show ?case using assms(1) by (simp add: strongest_def)
  next
    case (4 n r)
    then show ?case using assms(1) weaker [of n] unfolding strongest_def by auto
  qed
qed

lemma strongest_better:
  assumes "strongest rows ns" and Some: "find_network name ns = Some i" and True: "sig > signal (ns ! i)"
  shows "strongest (rows @ [(name, sig, op)]) (add_network (name, sig, op) ns)"
proof -
  have i: "i < length ns" "ssid (ns ! i) = name" using Some find_network_Some by blast+
  let ?n = "(ns ! i)\<lparr>signal := sig, is_open := op\<rparr>"
  let ?ns = "ns[i := ?n]"
  have add: "add_network (name, sig, op) ns = ?ns" using True Some by (simp add: add_network_def)
  have names: "map ssid ?ns = map ssid ns" using i(1) by (simp add: map_update list_update_same_conv)
  have old: "n \<in> set ns \<and> ssid n \<noteq> name" if "n \<in> set ?ns" "n \<noteq> ?n" for n
  proof -
    from that(1) obtain j where "j < length ns" "n = ?ns ! j" by (auto simp: in_set_conv_nth)
    with that(2) have j: "j < length ns" "j \<noteq> i" "n = ns ! j" using i(1) by (cases "j = i", simp_all)+
    then show ?thesis using i assms(1) by (metis strongest_def nth_eq_iff_index_eq nth_map length_map nth_mem)
  qed
  have set: "ssid ` set ?ns = ssid ` set ns" using names by (metis list.set_map)
  have top: "\<forall>(nm, s, _) \<in> set rows. nm = name \<longrightarrow> s \<le> signal (ns ! i)"
    using assms(1) i unfolding strongest_def by (metis nth_mem)
  have mem: "name \<in> fst ` set rows" using assms(1) i unfolding strongest_def by (metis image_eqI nth_mem)
  show ?thesis unfolding strongest_def add
  proof (intro conjI ballI, goal_cases)
    case 1
    then show ?case using names assms(1) by (simp add: strongest_def)
  next
    case 2
    then show ?case using set mem assms(1) by (auto simp: strongest_def)
  next
    case (3 n)
    then show ?case using old i(2) assms(1) by (cases "n = ?n") (auto simp: strongest_def)
  next
    case (4 n r)
    obtain nm s o' where r: "r = (nm, s, o')" by (cases r) auto
    show ?case
    proof (cases "n = ?n")
      case n: True
      have "s \<le> sig" if "nm = name"
      proof (cases "r \<in> set rows")
        case True
        then show ?thesis using top that r \<open>sig > signal (ns ! i)\<close> by fastforce
      next
        case False
        then show ?thesis using 4 r by simp
      qed
      then show ?thesis using n i(2) r by simp
    next
      case False
      then have n: "n \<in> set ns" "ssid n \<noteq> name" using old 4 by blast+
      then have "\<forall>(nm, s, _) \<in> set rows. nm = ssid n \<longrightarrow> s \<le> signal n"
        using assms(1) unfolding strongest_def by blast
      then show ?thesis using n(2) 4 r by auto
    qed
  qed
qed

lemma strongest_add:
  assumes "strongest rows ns" and "length name \<le> 32"
  shows "strongest (rows @ [(name, sig, op)]) (add_network (name, sig, op) ns)"
proof (cases "find_network name ns")
  case None
  then show ?thesis using assms by (intro strongest_new)
next
  case (Some i)
  then show ?thesis
    using assms by (cases "sig > signal (ns ! i)") (auto intro: strongest_better strongest_weaker)
qed

lemma strongest_fold:
  assumes "\<forall>r \<in> set new. length (fst r) \<le> 32" and "strongest rows ns"
  shows "strongest (rows @ new) (fold add_network new ns)"
  using assms
proof (induction new arbitrary: rows ns)
  case Nil
  then show ?case by simp
next
  case (Cons r new)
  obtain name sig op where r: "r = (name, sig, op)" by (cases r) auto
  have "strongest (rows @ [r]) (add_network r ns)" using Cons.prems strongest_add by (simp add: r)
  from Cons.IH [OF _ this] Cons.prems(1) show ?case by simp
qed

lemma strongest_sort: "strongest rows (sort_key f ns) \<longleftrightarrow> strongest rows ns"
  by (simp add: strongest_def distinct_map)

lemma add_network_length: "length (add_network r ns) \<le> Suc (length ns)"
  by (auto simp: add_network_def split: prod.splits option.splits)

lemma scan_loop_prefix:
  "\<exists>k. scan_loop ls ns = fold add_network (scan_rows (take k ls)) ns
       \<and> (length (scan_loop ls ns) < WIFI_MAX_NETWORKS \<longrightarrow> k = length ls)"
proof (induction ls arbitrary: ns)
  case Nil
  then show ?case by simp
next
  case (Cons l ls)
  show ?case
  proof (cases "length ns \<ge> WIFI_MAX_NETWORKS")
    case True
    then show ?thesis by (intro exI [of _ 0]) simp
  next
    case False
    let ?ns = "case parse_row l of None \<Rightarrow> ns | Some r \<Rightarrow> add_network r ns"
    obtain k where "scan_loop ls ?ns = fold add_network (scan_rows (take k ls)) ?ns"
      "length (scan_loop ls ?ns) < WIFI_MAX_NETWORKS \<longrightarrow> k = length ls"
      using Cons by blast
    then show ?thesis
      using False by (intro exI [of _ "Suc k"]) (cases "parse_row l", simp_all)
  qed
qed

lemma scan_loop_length: "length ns \<le> WIFI_MAX_NETWORKS \<Longrightarrow> length (scan_loop ls ns) \<le> WIFI_MAX_NETWORKS"
proof (induction ls ns rule: scan_loop.induct)
  case (2 line rest ns)
  show ?case
  proof (cases "length ns \<ge> WIFI_MAX_NETWORKS")
    case True
    then show ?thesis using 2(3) by simp
  next
    case False
    then have "length (add_network r ns) \<le> WIFI_MAX_NETWORKS" for r
      using add_network_length [of r ns] by linarith
    then show ?thesis using 2 False by (cases "parse_row line") simp_all
  qed
qed simp

lemma scanResults_length: "length (Wifi_scanResults output) \<le> WIFI_MAX_NETWORKS"
  by (simp add: Wifi_scanResults_def scan_loop_length split: option.split)

subsection \<open>Facts: credentials\<close>

definition creds_path :: "string option \<Rightarrow> string" where
  "creds_path sdcard = sdcard_dir sdcard @ ''/.userdata/wifi.txt''"

definition card_ready :: "string option \<Rightarrow> fs \<Rightarrow> bool" where
  \<comment> \<open>the card is mounted and no file or directory of the wrong kind is in the way\<close>
  "card_ready sdcard fs \<longleftrightarrow> map_of fs (sdcard_dir sdcard) = Some Dir
     \<and> map_of fs (sdcard_dir sdcard @ ''/.userdata'') \<in> {None, Some Dir}
     \<and> map_of fs (creds_path sdcard) \<noteq> Some Dir"

lemma last_differs: "last x \<noteq> last y \<Longrightarrow> x \<noteq> y"
  by blast

lemma conf_not_creds: "WIFI_CONF_PATH \<noteq> d @ ''/.userdata''" "WIFI_CONF_PATH \<noteq> d @ ''/.userdata/wifi.txt''"
  by (rule last_differs, simp add: WIFI_CONF_PATH_def)+

lemma map_of_putFile:
  "map_of (putFile p s fs) q = (if q = p \<and> fopen_w fs p then Some (File s) else map_of fs q)"
  by (auto simp: putFile_def map_of_fs_put)

lemma writeConfig_other:
  assumes "q \<noteq> WIFI_CONF_PATH"
  shows "map_of (fst (Wifi_writeConfig popen name password op fs)) q = map_of fs q"
  using assms by (simp add: Wifi_writeConfig_def Let_def append_file_def map_of_putFile split: option.splits)

lemma writeConfig_dirs:
  assumes "map_of fs q = Some Dir"
  shows "map_of (fst (Wifi_writeConfig popen name password op fs)) q = Some Dir"
proof (cases "q = WIFI_CONF_PATH")
  case True
  then have "\<not> fopen_w fs WIFI_CONF_PATH" using assms by (simp add: fopen_w_def)
  then show ?thesis using assms by (simp add: Wifi_writeConfig_def)
next
  case False
  then show ?thesis using assms by (simp add: writeConfig_other)
qed

lemma writeConfig_card_ready:
  assumes "card_ready sdcard fs"
  shows "card_ready sdcard (fst (Wifi_writeConfig popen name password op fs))"
proof -
  have "sdcard_dir sdcard @ ''/.userdata'' \<noteq> WIFI_CONF_PATH" "creds_path sdcard \<noteq> WIFI_CONF_PATH"
    using conf_not_creds [of "sdcard_dir sdcard"] unfolding creds_path_def by simp_all
  then show ?thesis
    using assms writeConfig_dirs [of fs "sdcard_dir sdcard"] by (simp add: card_ready_def writeConfig_other)
qed

lemma persist_load:
  assumes "card_ready sdcard fs" and "length (sdcard_dir sdcard) < 480"
    and "name \<noteq> []" and "plain_line name" and "length name \<le> 32"
    and "plain_line password" and "length password \<le> 127"
  shows "Wifi_loadPersisted sdcard 33 128 (Wifi_persist sdcard name password fs) = Some (name, password)"
proof -
  let ?d = "sdcard_dir sdcard @ ''/.userdata''"
  have p: "snprintf_buf 512 ?d = ?d" "snprintf_buf 512 (?d @ ''/wifi.txt'') = creds_path sdcard"
    "snprintf_buf 512 (sdcard_dir sdcard @ ''/.userdata/wifi.txt'') = creds_path sdcard"
    using assms(2) unfolding creds_path_def by (simp_all add: snprintf_buf_def)
  have dirs: "dirname ?d = sdcard_dir sdcard" "dirname (creds_path sdcard) = ?d"
    using dirname_join [of "''.userdata''" "sdcard_dir sdcard"] dirname_join [of "''wifi.txt''" ?d]
    by (simp_all add: creds_path_def)
  have w: "fopen_w (mkdir ?d fs) (creds_path sdcard)"
    using assms(1) unfolding fopen_w_def dirs mkdir_def card_ready_def
    by (auto simp: map_of_fs_put creds_path_def)
  have saved: "Wifi_persist sdcard name password fs
      = putFile (creds_path sdcard) (write_lines [name, password]) (mkdir ?d fs)"
    by (simp add: Wifi_persist_def Let_def p)
  have r: "fgets_all 256 (write_lines [name, password]) = [name @ [char_newline], password @ [char_newline]]"
    using assms by (subst fgets_all_write_lines) simp_all
  have "clean_line (name @ [char_newline]) = name" "clean_line (password @ [char_newline]) = password"
    using assms(4,6) by (simp_all add: clean_line_lf plain_line_def)
  moreover have "snprintf_buf 33 name = name" "snprintf_buf 128 password = password"
    using assms by (simp_all add: snprintf_buf_fits)
  ultimately show ?thesis
    using w r assms(3)
    by (simp add: saved Wifi_loadPersisted_def Let_def p exists_putFile fopen_r_putFile del: write_lines_simps)
qed

lemma load_cong:
  assumes "map_of fs (creds_path sdcard) = map_of fs' (creds_path sdcard)" and "length (sdcard_dir sdcard) < 480"
  shows "Wifi_loadPersisted sdcard m n fs = Wifi_loadPersisted sdcard m n fs'"
proof -
  have "snprintf_buf 512 (sdcard_dir sdcard @ ''/.userdata/wifi.txt'') = creds_path sdcard"
    using assms(2) unfolding creds_path_def by (simp add: snprintf_buf_def)
  then show ?thesis
    using assms(1) by (simp add: Wifi_loadPersisted_def Let_def exists_def fopen_r_def)
qed

subsection \<open>Facts: the input loops\<close>

definition wifi_ok :: "wifi_list \<Rightarrow> bool" where
  "wifi_ok w \<longleftrightarrow> length (networks w) \<le> WIFI_MAX_NETWORKS \<and> 0 \<le> wselected w \<and> 0 \<le> list_top w
     \<and> (if networks w = [] then wselected w = 0 else wselected w < int (length (networks w)))"

definition wifi_shown :: "wifi_list \<Rightarrow> bool" where
  "wifi_shown w \<longleftrightarrow> list_top w \<le> wselected w \<and> wselected w < list_top w + int WIFI_VISIBLE_ROWS"

lemma wifi_keys_ok: "wifi_ok w \<Longrightarrow> wifi_ok (wifi_keys pad on output w)"
proof -
  assume "wifi_ok w"
  moreover have "length (Wifi_scanResults output) \<le> WIFI_MAX_NETWORKS" by (rule scanResults_length)
  ultimately show ?thesis by (auto simp: wifi_keys_def wifi_ok_def Let_def)
qed

lemma wifi_cursor_ok: "wifi_ok w \<Longrightarrow> wifi_ok (wifi_cursor pad w)"
  by (auto simp: wifi_cursor_def wifi_ok_def Let_def)

lemma wifi_window_ok: "wifi_ok w \<Longrightarrow> wifi_ok (wifi_window w) \<and> wifi_shown (wifi_window w)"
  by (auto simp: wifi_window_def wifi_ok_def wifi_shown_def Let_def WIFI_VISIBLE_ROWS_def split: if_splits)

interpretation wifi_kb: keyboard_table KB
  by unfold_locales (simp_all add: KB_def)

subsection \<open>Properties\<close>

text \<open>What \<open>wpa_passphrase\<close> prints: a block that starts with the name as it is, and then lines for the key and the end of the block.\<close>

definition begins :: "string \<Rightarrow> string \<Rightarrow> bool" where
  "begins key line \<longleftrightarrow> take (length key) (dropWhile isblank line) = key"

definition passphrase_output :: "string \<Rightarrow> string list \<Rightarrow> string" where
  "passphrase_output name rest = write_lines (''network={'' # quoted_line ''ssid'' name # rest)"

lemma begins_newline:
  assumes "char_newline \<notin> set key"
  shows "take (length key) (dropWhile isblank (l @ [char_newline])) = key \<longleftrightarrow> begins key l"
proof -
  let ?m = "dropWhile isblank l"
  have "dropWhile isblank (l @ [char_newline]) = ?m @ [char_newline]"
    by (simp add: dropWhile_append3 isblank_def char_newline_def char_tab_def)
  moreover have "take (length key) (?m @ [char_newline]) = key \<longleftrightarrow> take (length key) ?m = key"
  proof (cases "length key \<le> length ?m")
    case True
    then show ?thesis by simp
  next
    case False
    then have "take (length key) (?m @ [char_newline]) = ?m @ [char_newline]" and "take (length key) ?m = ?m" by simp_all
    with False assms show ?thesis by (metis in_set_conv_decomp order_refl)
  qed
  ultimately show ?thesis by (simp add: begins_def)
qed

lemma begins_keys:
  "take 5 (dropWhile isblank (l @ [char_newline])) = ''ssid='' \<longleftrightarrow> begins ''ssid='' l"
  "take 9 (dropWhile isblank (l @ [char_newline])) = ''network={'' \<longleftrightarrow> begins ''network={'' l"
proof -
  have "length ''ssid='' = 5" and "length ''network={'' = 9" by simp_all
  moreover have "char_newline \<notin> set ''ssid=''" and "char_newline \<notin> set ''network={''" by (simp_all add: char_newline_def)
  ultimately show "take 5 (dropWhile isblank (l @ [char_newline])) = ''ssid='' \<longleftrightarrow> begins ''ssid='' l"
    and "take 9 (dropWhile isblank (l @ [char_newline])) = ''network={'' \<longleftrightarrow> begins ''network={'' l"
    using begins_newline by metis+
qed

lemma psk_lines_block:
  assumes "\<forall>l \<in> set rest. \<not> begins ''ssid='' l \<and> \<not> begins ''network={'' l"
  shows "psk_lines e (map (\<lambda>l. l @ [char_newline]) (''network={'' # quoted_line ''ssid'' name # rest))
    = write_lines (''network={'' # quoted_line ''ssid'' e # rest)"
proof -
  have "psk_lines e (map (\<lambda>l. l @ [char_newline]) rest) = write_lines rest" using assms
    by (induction rest) (simp_all add: psk_lines_def write_lines_def begins_keys Let_def)
  then show ?thesis
    by (simp add: psk_lines_def write_lines_def quoted_line_def isblank_def char_tab_def Let_def)
qed


definition demo_name :: string where
  "demo_name = ''a'' @ [char_quote] @ '';'' @ [char_dquote] @ ''}''"


text \<open>A scan lists at most 32 networks, strongest first; of the rows that fit (all of them when fewer than 32
  networks result) every name appears exactly once, with the signal and the openness of its
  strongest row, as long as names have at most the 32 characters of an SSID.\<close>

theorem Wifi_scan_strongest:
  assumes "\<forall>r \<in> set (scan_rows (drop 1 (fgets_all 512 out))). length (fst r) \<le> 32"
  shows "length (Wifi_scanResults (Some out)) \<le> 32
       \<and> sorted_wrt (\<lambda>a b. signal a \<ge> signal b) (Wifi_scanResults (Some out))
       \<and> (\<exists>k. strongest (scan_rows (take k (drop 1 (fgets_all 512 out)))) (Wifi_scanResults (Some out))
            \<and> (length (Wifi_scanResults (Some out)) < 32 \<longrightarrow> k = length (drop 1 (fgets_all 512 out))))"
proof (intro conjI, goal_cases)
  case 1
  then show ?case using scanResults_length [of "Some out"] by (simp add: WIFI_MAX_NETWORKS_def)
next
  case 2
  have "sorted (map (\<lambda>n. - signal n) (Wifi_scanResults (Some out)))" by (simp add: Wifi_scanResults_def)
  then show ?case by (simp add: sorted_map)
next
  case 3
  let ?ls = "drop 1 (fgets_all 512 out)"
  obtain k where k: "scan_loop ?ls [] = fold add_network (scan_rows (take k ?ls)) []"
    "length (scan_loop ?ls []) < WIFI_MAX_NETWORKS \<longrightarrow> k = length ?ls"
    using scan_loop_prefix by blast
  have "set (scan_rows (take k ?ls)) \<subseteq> set (scan_rows ?ls)"
    by (rule scan_rows_take)
  then have "strongest ([] @ scan_rows (take k ?ls)) (fold add_network (scan_rows (take k ?ls)) [])"
    using assms by (intro strongest_fold) (auto simp: strongest_def)
  then have "strongest (scan_rows (take k ?ls)) (Wifi_scanResults (Some out))"
    by (simp only: k(1) Wifi_scanResults_def option.case strongest_sort append_Nil)
  then show ?case
    using k(2) by (intro exI [of _ k]) (simp add: Wifi_scanResults_def WIFI_MAX_NETWORKS_def)
qed

definition demo_rows :: "string list" where
  "demo_rows = [''bssid'', ''b'' @ [char_tab] @ ''2'' @ [char_tab] @ ''-7'' @ [char_tab] @ ''E'' @ [char_tab] @ ''home'']"

lemma demo_scan_lines: "fgets_all 512 (write_lines demo_rows) = map (\<lambda>l. l @ [char_newline]) demo_rows"
  by (rule fgets_all_write_lines)
    (simp add: demo_rows_def plain_line_def char_newline_def char_return_def char_tab_def)

lemma demo_scan_rows: "scan_rows (drop 1 (map (\<lambda>l. l @ [char_newline]) demo_rows)) = [(''home'', - 7, True)]"
  by code_simp

theorem Wifi_scan_strongest_witness:
  "\<exists>k. strongest (scan_rows (take k (drop 1 (fgets_all 512 (write_lines demo_rows)))))
         (Wifi_scanResults (Some (write_lines demo_rows)))
       \<and> (length (Wifi_scanResults (Some (write_lines demo_rows))) < 32 \<longrightarrow>
            k = length (drop 1 (fgets_all 512 (write_lines demo_rows))))"
  by (rule Wifi_scan_strongest [THEN conjunct2, THEN conjunct2], unfold demo_scan_lines demo_scan_rows) simp

text \<open>Connecting saves the credentials exactly when it succeeds: then the next start loads that name and
  password, and after a failure it loads whatever was saved before.\<close>

theorem Wifi_connect_credentials:
  assumes "card_ready sdcard fs" and "length (sdcard_dir sdcard) < 480"
    and "name \<noteq> []" and "plain_line name" and "length name \<le> 32"
    and "plain_line password" and "length password \<le> 127"
  shows "Wifi_loadPersisted sdcard 33 128
           (fst (Wifi_connect popen completed leased is_on sdcard name password op fs))
         = (if snd (Wifi_connect popen completed leased is_on sdcard name password op fs)
            then Some (name, password) else Wifi_loadPersisted sdcard 33 128 fs)"
proof -
  obtain fs' ok where w: "Wifi_writeConfig popen name password op fs = (fs', ok)" by fastforce
  have ready: "card_ready sdcard fs'" using writeConfig_card_ready [OF assms(1)] w by (metis fst_conv)
  have "creds_path sdcard \<noteq> WIFI_CONF_PATH"
    using conf_not_creds [of "sdcard_dir sdcard"] unfolding creds_path_def by simp
  then have "map_of fs' (creds_path sdcard) = map_of fs (creds_path sdcard)"
    using writeConfig_other w by (metis fst_conv)
  then have same: "Wifi_loadPersisted sdcard 33 128 fs' = Wifi_loadPersisted sdcard 33 128 fs"
    using assms(2) by (rule load_cong)
  show ?thesis
    using same persist_load [OF ready assms(2-7)] by (cases ok) (simp_all add: Wifi_connect_def w)
qed

theorem Wifi_connect_credentials_witness:
  "Wifi_loadPersisted None 33 128
     (fst (Wifi_connect (\<lambda>_. None) [False, True] [True] True None ''home'' ''pass word'' False
        [(''/mnt/sdcard'', Dir), (''/tmp'', Dir)])) = Some (''home'', ''pass word'')"
proof -
  have "snd (Wifi_connect (\<lambda>_. None) [False, True] [True] True None ''home'' ''pass word'' False
      [(''/mnt/sdcard'', Dir), (''/tmp'', Dir)])"
    by (simp add: Wifi_connect_def Wifi_writeConfig_def fopen_w_def WIFI_CONF_PATH_def dirname_def)
  then show ?thesis
    by (subst Wifi_connect_credentials)
      (simp_all add: card_ready_def sdcard_dir_def creds_path_def plain_line_def char_newline_def char_return_def)
qed

text \<open>In the list the cursor is on a network (or at 0 in an empty list) and inside the nine visible rows
  after every frame, also when a rescan or switching off shortened the list; on the keyboard the
  cursor is always on a key, what was typed consists of keys and fits the buffer, and only a
  non-empty password is accepted.\<close>

theorem Wifi_input_safe:
  assumes "wifi_ok w" and "0 < maxlen"
  shows "(let v = wifi_frame pad on output w in wifi_ok v \<and> wifi_shown v)
       \<and> kb_ok KB maxlen (Wifi_keyboard maxlen pads keyboard_start)"
proof
  show "let v = wifi_frame pad on output w in wifi_ok v \<and> wifi_shown v"
    using assms wifi_window_ok wifi_cursor_ok wifi_keys_ok by (simp add: wifi_frame_def)
  show "kb_ok KB maxlen (Wifi_keyboard maxlen pads keyboard_start)"
    unfolding Wifi_keyboard_def by (rule wifi_kb.session_ok)
qed

definition press_a :: PAD_Context where
  "press_a = \<lparr>is_pressed = btn_mask BTN_ID_A, just_pressed = btn_mask BTN_ID_A, just_released = 0,
     just_repeated = btn_mask BTN_ID_A, repeat_at = replicate 25 0,
     laxis = \<lparr>ax_x = 0, ax_y = 0\<rparr>, raxis = \<lparr>ax_x = 0, ax_y = 0\<rparr>\<rparr>"

theorem Wifi_input_safe_witness:
  "wifi_ok (wifi_frame press_a True None \<lparr>networks = [], wselected = 0, list_top = 0, wquit = False\<rparr>)
   \<and> kb_ok KB 128 (Wifi_keyboard 128 [press_a, press_a] keyboard_start)"
  using Wifi_input_safe [of "\<lparr>networks = [], wselected = 0, list_top = 0, wquit = False\<rparr>" 128 press_a True None
      "[press_a, press_a]"]
  by (simp add: wifi_ok_def Let_def)

end
