(* ===== verification/Snd.thy ===== *)
theory Snd
  imports Prelude
begin

text \<open>
  The audio queue of \<open>common/snd.c\<close>: a ring buffer between the emulator, which writes frames through
  a resampler (\<open>SND_batchSamples\<close>), and the audio thread, which takes them (\<open>SND_audioCallback\<close>).
  Both sides run under the audio lock, so an execution is an interleaving of single producer
  iterations and whole callbacks: the relation \<open>snd_step\<close>. \<open>frame_filled\<close> is the index the producer
  must not reach.

  The number of frames of the buffer comes out of a floating-point division in the code and is an
  argument here. The \<open>static int diff\<close> of the nearest-neighbour resampler is part of the state.
\<close>

definition SAMPLES :: nat where "SAMPLES = 512"

record SND_Frame =
  left :: int
  right :: int

record SND_Context =
  sample_rate_in :: int
  sample_rate_out :: int
  buffer :: "SND_Frame list"
  frame_count :: nat
  frame_in :: nat
  frame_out :: nat
  frame_filled :: nat
  diff :: int

definition silent :: SND_Frame where "silent = \<lparr>left = 0, right = 0\<rparr>"

subsection \<open>Operations\<close>

definition SND_resizeBuffer :: "nat \<Rightarrow> bool \<Rightarrow> SND_Context \<Rightarrow> SND_Context" where
  \<comment> \<open>\<open>allocated\<close>: whether \<open>realloc\<close> succeeds\<close>
  "SND_resizeBuffer count allocated s =
     (let prev_frame_count = frame_count s; s = s\<lparr>frame_count := count\<rparr> in
      if count = 0 then s
      else if \<not> allocated then s\<lparr>frame_count := prev_frame_count\<rparr>
      else s\<lparr>buffer := replicate count silent, frame_in := 0, frame_out := 0, frame_filled := count - 1\<rparr>)"

definition put_frame :: "SND_Frame \<Rightarrow> SND_Context \<Rightarrow> SND_Context" where
  "put_frame frame s =
     (let s = s\<lparr>buffer := (buffer s)[frame_in s := frame], frame_in := frame_in s + 1\<rparr> in
      if frame_in s \<ge> frame_count s then s\<lparr>frame_in := 0\<rparr> else s)"

definition SND_resampleNone :: "SND_Frame \<Rightarrow> SND_Context \<Rightarrow> nat \<times> SND_Context" where
  "SND_resampleNone frame s = (1, put_frame frame s)"

definition SND_resampleNear :: "SND_Frame \<Rightarrow> SND_Context \<Rightarrow> nat \<times> SND_Context" where
  "SND_resampleNear frame s =
     (let s = (if diff s < sample_rate_out s
               then (put_frame frame s)\<lparr>diff := diff s + sample_rate_in s\<rparr> else s)
      in if diff s \<ge> sample_rate_out s then (1, s\<lparr>diff := diff s - sample_rate_out s\<rparr>) else (0, s))"

definition SND_resample :: "SND_Frame \<Rightarrow> SND_Context \<Rightarrow> nat \<times> SND_Context" where
  \<comment> \<open>the resampler \<open>SND_selectResampler\<close> chooses\<close>
  "SND_resample frame s =
     (if sample_rate_in s = sample_rate_out s then SND_resampleNone frame s else SND_resampleNear frame s)"

definition batch_step :: "SND_Frame list \<times> SND_Context \<Rightarrow> SND_Frame list \<times> SND_Context" where
  \<comment> \<open>one iteration of the inner loop of \<open>SND_batchSamples\<close>; it waits while the buffer is full\<close>
  "batch_step st =
     (case st of (frames, s) \<Rightarrow>
        if frame_count s = 0 then (frames, s)
        else if frames \<noteq> [] \<and> frame_in s \<noteq> frame_filled s then
          (let (consumed_frames, s) = SND_resample (hd frames) s in (drop consumed_frames frames, s))
        else (frames, s))"

definition take_frame :: "SND_Context \<Rightarrow> SND_Frame \<times> SND_Context" where
  "take_frame s =
     (let frame = buffer s ! frame_out s;
          s = s\<lparr>frame_filled := frame_out s, frame_out := frame_out s + 1\<rparr>
      in (frame, if frame_out s \<ge> frame_count s then s\<lparr>frame_out := 0\<rparr> else s))"

fun callback_loop :: "nat \<Rightarrow> SND_Context \<Rightarrow> SND_Frame list \<times> nat \<times> SND_Context" where
  \<comment> \<open>the frames copied to the stream, the length left\<close>
  "callback_loop 0 s = ([], 0, s)"
| "callback_loop (Suc len) s =
     (if frame_out s \<noteq> frame_in s then
        (let (frame, s) = take_frame s; (out, rest, s) = callback_loop len s in (frame # out, rest, s))
      else ([], Suc len, s))"

definition interleaved :: "SND_Frame list \<Rightarrow> int list" where
  "interleaved fs = concat (map (\<lambda>f. [left f, right f]) fs)"

definition SND_audioCallback :: "nat \<Rightarrow> SND_Context \<Rightarrow> int list \<times> SND_Context" where
  \<comment> \<open>\<open>len\<close> in frames; an underrun mirrors what was just copied, then repeats silence\<close>
  "SND_audioCallback len s =
     (if frame_count s = 0 then ([], s)
      else
        (let (out, rest, s) = callback_loop len s; stream = interleaved out in
         if rest > 0 \<and> rest = SAMPLES then (stream @ replicate (2 * rest) 0, s)
         else (stream @ take (2 * rest) (rev (take (length stream - 1) stream) @ replicate (2 * rest) 0), s)))"

text \<open>
  An execution: the frames still to be batched, the context, what was written to the buffer and what
  was copied out of it, both in order.
\<close>

record run =
  pending :: "SND_Frame list"
  ctx :: SND_Context
  written :: "SND_Frame list"
  played :: "SND_Frame list"

definition writes :: "SND_Context \<Rightarrow> bool" where
  \<comment> \<open>does the next call of the resampler write a frame?\<close>
  "writes s \<longleftrightarrow> sample_rate_in s = sample_rate_out s \<or> diff s < sample_rate_out s"

definition produce :: "run \<Rightarrow> run" where
  "produce r =
     (let (fs, s) = batch_step (pending r, ctx r) in
      r\<lparr>pending := fs, ctx := s,
        written := written r @ (if pending r \<noteq> [] \<and> frame_count (ctx r) \<noteq> 0
                                   \<and> frame_in (ctx r) \<noteq> frame_filled (ctx r) \<and> writes (ctx r)
                                then [hd (pending r)] else [])\<rparr>)"

definition consume :: "nat \<Rightarrow> run \<Rightarrow> run" where
  "consume len r =
     (if frame_count (ctx r) = 0 then r
      else (let (out, _, s) = callback_loop len (ctx r) in r\<lparr>ctx := s, played := played r @ out\<rparr>))"

inductive snd_step :: "run \<Rightarrow> run \<Rightarrow> bool" where
  producer: "snd_step r (produce r)"
| callback: "snd_step r (consume len r)"
| new_batch: "pending r = [] \<Longrightarrow> snd_step r (r\<lparr>pending := frames\<rparr>)"

inductive_cases snd_stepE: "snd_step r r'"

subsection \<open>The ring as a queue\<close>

definition snd_ok :: "SND_Context \<Rightarrow> bool" where
  "snd_ok s \<longleftrightarrow> 0 < frame_count s \<and> length (buffer s) = frame_count s
     \<and> frame_in s < frame_count s \<and> frame_out s < frame_count s
     \<and> frame_filled s = (if frame_out s = 0 then frame_count s - 1 else frame_out s - 1)"

definition used :: "SND_Context \<Rightarrow> nat" where
  "used s = (if frame_out s \<le> frame_in s then frame_in s - frame_out s
             else frame_in s + frame_count s - frame_out s)"

definition slot :: "SND_Context \<Rightarrow> nat \<Rightarrow> nat" where
  "slot s k = (if frame_out s + k < frame_count s then frame_out s + k else frame_out s + k - frame_count s)"

definition snd_queue :: "SND_Context \<Rightarrow> SND_Frame list" where
  "snd_queue s = map (\<lambda>k. buffer s ! slot s k) [0..<used s]"

text \<open>
  What the two sides rely on: a bounded queue, which accepts a frame unless it is full and gives the
  oldest one unless it is empty. Whatever the interleaving, what went in came out or is still there,
  in order.
\<close>

locale bounded_fifo =
  fixes ok :: "'q \<Rightarrow> bool" and contents :: "'q \<Rightarrow> 'f list"
    and full :: "'q \<Rightarrow> bool" and nonempty :: "'q \<Rightarrow> bool"
    and enq :: "'f \<Rightarrow> 'q \<Rightarrow> 'q" and deq :: "'q \<Rightarrow> 'f \<times> 'q"
  assumes enq_ok: "ok q \<Longrightarrow> \<not> full q \<Longrightarrow> ok (enq f q)"
    and enq_contents: "ok q \<Longrightarrow> \<not> full q \<Longrightarrow> contents (enq f q) = contents q @ [f]"
    and nonempty_iff: "ok q \<Longrightarrow> nonempty q \<longleftrightarrow> contents q \<noteq> []"
    and deq_ok: "ok q \<Longrightarrow> nonempty q \<Longrightarrow> ok (snd (deq q))"
    and deq_contents: "ok q \<Longrightarrow> nonempty q \<Longrightarrow> contents q = fst (deq q) # contents (snd (deq q))"
begin

fun drain :: "nat \<Rightarrow> 'q \<Rightarrow> 'f list \<times> 'q" where
  "drain 0 q = ([], q)"
| "drain (Suc n) q =
     (if nonempty q then (let (f, q) = deq q; (fs, q) = drain n q in (f # fs, q)) else ([], q))"

lemma drain_spec:
  "ok q \<Longrightarrow> ok (snd (drain n q)) \<and> contents q = fst (drain n q) @ contents (snd (drain n q))
            \<and> (length (fst (drain n q)) < n \<longrightarrow> contents (snd (drain n q)) = [])"
proof (induction n arbitrary: q)
  case 0
  then show ?case by simp
next
  case (Suc n)
  show ?case
  proof (cases "nonempty q")
    case True
    obtain f q' where d: "deq q = (f, q')" by fastforce
    have "ok q'" "contents q = f # contents q'"
      using deq_ok [OF Suc.prems True] deq_contents [OF Suc.prems True] by (simp_all add: d)
    with Suc.IH [of q'] True show ?thesis by (simp add: d split_beta Let_def)
  next
    case False
    then show ?thesis using Suc.prems nonempty_iff by simp
  qed
qed

end

lemma slot_less: "snd_ok s \<Longrightarrow> k < frame_count s \<Longrightarrow> slot s k < frame_count s"
  by (auto simp: snd_ok_def slot_def)

lemma put_frame_fields:
  "frame_count (put_frame f s) = frame_count s" "frame_out (put_frame f s) = frame_out s"
  "frame_filled (put_frame f s) = frame_filled s" "buffer (put_frame f s) = (buffer s)[frame_in s := f]"
  "frame_in (put_frame f s) = (if frame_in s + 1 \<ge> frame_count s then 0 else frame_in s + 1)"
  "diff (put_frame f s) = diff s" "sample_rate_in (put_frame f s) = sample_rate_in s"
  "sample_rate_out (put_frame f s) = sample_rate_out s"
  by (simp_all add: put_frame_def Let_def)

lemma take_frame_fields:
  "fst (take_frame s) = buffer s ! frame_out s"
  "frame_count (snd (take_frame s)) = frame_count s" "frame_in (snd (take_frame s)) = frame_in s"
  "buffer (snd (take_frame s)) = buffer s" "frame_filled (snd (take_frame s)) = frame_out s"
  "frame_out (snd (take_frame s)) = (if frame_out s + 1 \<ge> frame_count s then 0 else frame_out s + 1)"
  "diff (snd (take_frame s)) = diff s" "sample_rate_in (snd (take_frame s)) = sample_rate_in s"
  "sample_rate_out (snd (take_frame s)) = sample_rate_out s"
  by (simp_all add: take_frame_def Let_def)

lemma put_frame_ok: "snd_ok s \<Longrightarrow> snd_ok (put_frame f s)"
  by (auto simp: snd_ok_def put_frame_fields)

lemma put_frame_used:
  assumes "snd_ok s" and "frame_in s \<noteq> frame_filled s"
  shows "used (put_frame f s) = Suc (used s)" "slot s (used s) = frame_in s" "used s < frame_count s"
  using assms by (auto simp: snd_ok_def used_def slot_def put_frame_fields split: if_splits)

lemma slot_inj: "snd_ok s \<Longrightarrow> j < k \<Longrightarrow> k < frame_count s \<Longrightarrow> slot s j \<noteq> slot s k"
  by (auto simp: snd_ok_def slot_def)

lemma put_frame_queue:
  assumes "snd_ok s" and "frame_in s \<noteq> frame_filled s"
  shows "snd_queue (put_frame f s) = snd_queue s @ [f]"
proof -
  have same: "slot (put_frame f s) k = slot s k" for k by (simp add: slot_def put_frame_fields)
  have "buffer (put_frame f s) ! slot s k = buffer s ! slot s k" if "k < used s" for k
    using slot_inj [OF assms(1) that] put_frame_used [OF assms] by (simp add: put_frame_fields)
  moreover have "buffer (put_frame f s) ! slot s (used s) = f"
    using put_frame_used [OF assms] assms(1) by (simp add: put_frame_fields snd_ok_def)
  ultimately show ?thesis
    by (simp add: snd_queue_def put_frame_used [OF assms] same)
qed

lemma take_frame_ok: "snd_ok s \<Longrightarrow> snd_ok (snd (take_frame s))"
  by (auto simp: snd_ok_def take_frame_fields)

lemma take_frame_used:
  assumes "snd_ok s" and "frame_out s \<noteq> frame_in s"
  shows "used s = Suc (used (snd (take_frame s)))"
    and "k < frame_count s - 1 \<Longrightarrow> slot (snd (take_frame s)) k = slot s (Suc k)"
    and "used s < frame_count s"
  using assms by (auto simp: snd_ok_def used_def slot_def take_frame_fields split: if_splits)

lemma take_frame_queue:
  assumes "snd_ok s" and "frame_out s \<noteq> frame_in s"
  shows "snd_queue s = fst (take_frame s) # snd_queue (snd (take_frame s))"
proof -
  have "slot s 0 = frame_out s" using assms(1) by (simp add: slot_def snd_ok_def)
  moreover have "k < used (snd (take_frame s)) \<Longrightarrow> slot (snd (take_frame s)) k = slot s (Suc k)" for k
    using take_frame_used [OF assms] by (intro take_frame_used(2) [OF assms]) linarith
  ultimately show ?thesis
    by (simp add: snd_queue_def take_frame_used(1) [OF assms] take_frame_fields upt_conv_Cons
        map_Suc_upt [symmetric] del: upt_Suc)
qed

interpretation ring: bounded_fifo snd_ok snd_queue "\<lambda>s. frame_in s = frame_filled s"
  "\<lambda>s. frame_out s \<noteq> frame_in s" put_frame take_frame
proof (unfold_locales, goal_cases)
  case (3 s)
  then show ?case by (auto simp: snd_queue_def used_def snd_ok_def)
qed (simp_all add: put_frame_ok put_frame_queue take_frame_ok take_frame_queue)

subsection \<open>Facts on executions\<close>

lemma callback_loop_drain:
  "callback_loop n s = (fst (ring.drain n s), n - length (fst (ring.drain n s)), snd (ring.drain n s))"
  by (induction n arbitrary: s) (auto simp: split_beta Let_def)

lemma drain_length: "length (fst (ring.drain n s)) \<le> n"
  by (induction n arbitrary: s) (auto simp: split_beta Let_def)

lemma drain_fields:
  "frame_count (snd (ring.drain n s)) = frame_count s \<and> diff (snd (ring.drain n s)) = diff s
   \<and> sample_rate_in (snd (ring.drain n s)) = sample_rate_in s
   \<and> sample_rate_out (snd (ring.drain n s)) = sample_rate_out s"
  by (induction n arbitrary: s) (auto simp: split_beta Let_def take_frame_fields)

text \<open>A call of the resampler is one write, if it writes, and otherwise touches only \<open>diff\<close>.\<close>

lemma resample_ring:
  "snd_queue (snd (SND_resample f s)) = snd_queue (if writes s then put_frame f s else s)"
  "snd_ok (snd (SND_resample f s)) = snd_ok (if writes s then put_frame f s else s)"
  "frame_count (snd (SND_resample f s)) = frame_count s"
  by (simp_all add: SND_resample_def SND_resampleNone_def SND_resampleNear_def writes_def Let_def
      snd_queue_def used_def slot_def snd_ok_def put_frame_fields)

definition run_ok :: "run \<Rightarrow> bool" where
  "run_ok r \<longleftrightarrow> snd_ok (ctx r) \<and> written r = played r @ snd_queue (ctx r)"

lemma produce_ok:
  assumes "run_ok r"
  shows "run_ok (produce r)"
proof -
  let ?s = "ctx r"
  show ?thesis
  proof (cases "pending r \<noteq> [] \<and> frame_in ?s \<noteq> frame_filled ?s")
    case True
    then have "ctx (produce r) = snd (SND_resample (hd (pending r)) ?s)"
      "written (produce r) = written r @ (if writes ?s then [hd (pending r)] else [])"
      "played (produce r) = played r"
      using assms by (simp_all add: produce_def batch_step_def split_beta Let_def run_ok_def snd_ok_def)
    with assms True show ?thesis
      by (simp add: run_ok_def resample_ring ring.enq_ok ring.enq_contents)
  next
    case False
    then have "produce r = r" by (auto simp: produce_def batch_step_def)
    with assms show ?thesis by simp
  qed
qed

lemma consume_ok:
  assumes "run_ok r"
  shows "run_ok (consume len r)"
  using assms ring.drain_spec [of "ctx r" len]
  by (simp add: run_ok_def consume_def callback_loop_drain Let_def)

lemma new_batch_ok: "run_ok r \<Longrightarrow> run_ok (r\<lparr>pending := frames\<rparr>)"
  by (simp add: run_ok_def)

lemma snd_steps_ok: "snd_step\<^sup>*\<^sup>* r r' \<Longrightarrow> run_ok r \<Longrightarrow> run_ok r'"
proof (induction rule: rtranclp_induct)
  case (step y z)
  from step(2) have "run_ok y \<Longrightarrow> run_ok z"
    by (cases rule: snd_step.cases) (simp_all add: produce_ok consume_ok new_batch_ok)
  with step show ?case by blast
qed

lemma interleaved_length [simp]: "length (interleaved fs) = 2 * length fs"
  by (induction fs) (simp_all add: interleaved_def)

lemma callback_length:
  assumes "frame_count s \<noteq> 0"
  shows "length (fst (SND_audioCallback len s)) = 2 * len"
  using assms drain_length [of len s]
  by (auto simp: SND_audioCallback_def callback_loop_drain split_beta Let_def)

lemma used_less: "snd_ok s \<Longrightarrow> used s < frame_count s"
  by (auto simp: snd_ok_def used_def)

fun near_calls :: "SND_Frame list \<Rightarrow> nat \<times> nat \<times> SND_Context \<Rightarrow> nat \<times> nat \<times> SND_Context" where
  \<comment> \<open>a series of calls of the resampler, counting the frames written and consumed\<close>
  "near_calls [] st = st"
| "near_calls (f # fs) (w, c, s) =
     (let (k, s') = SND_resampleNear f s in
      near_calls fs (w + (if diff s < sample_rate_out s then 1 else 0), c + k, s'))"

definition near_inv :: "int \<Rightarrow> int \<Rightarrow> nat \<times> nat \<times> SND_Context \<Rightarrow> bool" where
  "near_inv ri ro st \<longleftrightarrow> (case st of (w, c, s) \<Rightarrow>
     sample_rate_in s = ri \<and> sample_rate_out s = ro \<and> diff s = int w * ri - int c * ro
     \<and> 0 \<le> diff s \<and> diff s < max ri ro)"

lemma near_step:
  assumes "near_inv ri ro (w, c, s)" and "0 < ri" and "0 < ro"
  shows "near_inv ri ro (w + (if diff s < sample_rate_out s then 1 else 0),
           c + fst (SND_resampleNear f s), snd (SND_resampleNear f s))"
    and "diff s < sample_rate_out s \<or> fst (SND_resampleNear f s) = 1"
  using assms
  by (auto simp: near_inv_def SND_resampleNear_def Let_def put_frame_fields algebra_simps max_def split: if_splits)

lemma near_calls_inv:
  assumes "0 < ri" and "0 < ro" and "near_inv ri ro st"
  shows "near_inv ri ro (near_calls fs st)"
  using assms(3)
proof (induction fs arbitrary: st)
  case (Cons f fs)
  obtain w c s where st: "st = (w, c, s)" by (cases st) auto
  show ?case
    using Cons.IH [OF near_step(1) [OF Cons.prems [unfolded st] assms(1,2)]]
    by (simp add: st split_beta Let_def)
qed simp

subsection \<open>Properties\<close>

text \<open>C15: in every interleaving of the emulator's batches and the audio callbacks, the frames written to
  the ring are exactly those played, in order, followed by those still queued: none is lost,
  repeated or overwritten before it was played; the queue stays below the buffer's size, and every
  callback fills its stream exactly, also on an underrun.\<close>

theorem snd_fifo:
  assumes "0 < count" and "snd_step\<^sup>*\<^sup>* \<lparr>pending = fs, ctx = SND_resizeBuffer count True s, written = [], played = []\<rparr> r"
  shows "written r = played r @ snd_queue (ctx r)
         \<and> length (snd_queue (ctx r)) < frame_count (ctx r)
         \<and> length (fst (SND_audioCallback len (ctx r))) = 2 * len"
proof -
  have "snd_ok (SND_resizeBuffer count True s)" "used (SND_resizeBuffer count True s) = 0"
    using assms(1) by (auto simp: SND_resizeBuffer_def snd_ok_def used_def Let_def)
  then have "run_ok \<lparr>pending = fs, ctx = SND_resizeBuffer count True s, written = [], played = []\<rparr>"
    by (simp add: run_ok_def snd_queue_def)
  from snd_steps_ok [OF assms(2) this] have "run_ok r" .
  then show ?thesis
    using used_less [of "ctx r"] callback_length [of "ctx r"]
    by (auto simp: run_ok_def snd_queue_def snd_ok_def)
qed

theorem snd_fifo_witness:
  "written (produce \<lparr>pending = [silent], ctx = SND_resizeBuffer 4 True
       \<lparr>sample_rate_in = 1, sample_rate_out = 1, buffer = [], frame_count = 0, frame_in = 0, frame_out = 0,
        frame_filled = 0, diff = 0\<rparr>, written = [], played = []\<rparr>) = [silent]
   \<and> length (snd_queue (ctx (produce \<lparr>pending = [silent], ctx = SND_resizeBuffer 4 True
       \<lparr>sample_rate_in = 1, sample_rate_out = 1, buffer = [], frame_count = 0, frame_in = 0, frame_out = 0,
        frame_filled = 0, diff = 0\<rparr>, written = [], played = []\<rparr>)))
     < frame_count (ctx (produce \<lparr>pending = [silent], ctx = SND_resizeBuffer 4 True
       \<lparr>sample_rate_in = 1, sample_rate_out = 1, buffer = [], frame_count = 0, frame_in = 0, frame_out = 0,
        frame_filled = 0, diff = 0\<rparr>, written = [], played = []\<rparr>))" (is "?w \<and> ?l")
proof
  show ?w
    by (simp add: produce_def batch_step_def SND_resizeBuffer_def SND_resample_def SND_resampleNone_def
        put_frame_def writes_def)
  show ?l
    by (rule snd_fifo [THEN conjunct2, THEN conjunct1], rule zero_less_numeral, rule r_into_rtranclp, rule producer)
qed

text \<open>The nearest-neighbour resampler keeps the rates: after any number of calls the frames written and
  consumed satisfy \<open>0 \<le> written * rate_in - consumed * rate_out < max rate_in rate_out\<close>, so it neither
  drifts nor accumulates an error, and every call writes or consumes a frame.\<close>

theorem resampleNear_ratio:
  assumes "0 < sample_rate_in s" and "0 < sample_rate_out s" and "diff s = 0"
    and "near_calls fs (0, 0, s) = (w, c, s')"
  shows "0 \<le> int w * sample_rate_in s - int c * sample_rate_out s
         \<and> int w * sample_rate_in s - int c * sample_rate_out s < max (sample_rate_in s) (sample_rate_out s)
         \<and> (diff s' < sample_rate_out s' \<or> fst (SND_resampleNear f s') = 1)"
proof -
  have "near_inv (sample_rate_in s) (sample_rate_out s) (0, 0, s)"
    using assms by (simp add: near_inv_def)
  from near_calls_inv [OF assms(1,2) this]
  have inv: "near_inv (sample_rate_in s) (sample_rate_out s) (w, c, s')" by (simp add: assms(4) flip: assms(4))
  then show ?thesis
    using near_step(2) [OF inv assms(1,2), of f] by (simp add: near_inv_def)
qed

theorem resampleNear_ratio_witness:
  "\<exists>w c s'. near_calls (replicate 3 silent) (0, 0, \<lparr>sample_rate_in = 3, sample_rate_out = 2,
       buffer = replicate 4 silent, frame_count = 4, frame_in = 0, frame_out = 0, frame_filled = 3, diff = 0\<rparr>)
     = (w, c, s') \<and> 0 \<le> int w * 3 - int c * 2"
proof -
  let ?s = "\<lparr>sample_rate_in = 3, sample_rate_out = 2, buffer = replicate 4 silent, frame_count = 4,
    frame_in = 0, frame_out = 0, frame_filled = 3, diff = 0\<rparr>"
  obtain w c s' where r: "near_calls (replicate 3 silent) (0, 0, ?s) = (w, c, s')" by (metis prod_cases3)
  have "0 \<le> int w * sample_rate_in ?s - int c * sample_rate_out ?s"
    by (rule resampleNear_ratio [THEN conjunct1, OF _ _ _ r]) simp_all
  with r show ?thesis by simp
qed

end
