(* ===== verification/Clock.thy ===== *)
theory Clock
  imports Pad
begin

text \<open>
  The clock tool \<open>clock/clock.c\<close>: the date and time being edited, the cursor over its fields, and
  \<open>validate\<close>, which wraps every field after each change. Only the drawing is left out. The year is
  a \<open>uint32_t\<close> in the code and stays between 1969 and 2101; all fields are integers here.
\<close>

abbreviation "CURSOR_YEAR \<equiv> 0 :: int"
abbreviation "CURSOR_MONTH \<equiv> 1 :: int"
abbreviation "CURSOR_DAY \<equiv> 2 :: int"
abbreviation "CURSOR_HOUR \<equiv> 3 :: int"
abbreviation "CURSOR_MINUTE \<equiv> 4 :: int"
abbreviation "CURSOR_SECOND \<equiv> 5 :: int"
abbreviation "CURSOR_AMPM \<equiv> 6 :: int"

record clock =
  year :: int
  month :: int
  day :: int
  hour :: int
  minute :: int
  seconds :: int
  cursor :: int
  option_count :: int
  show_24hour :: bool
  save_changes :: bool
  cquit :: bool
  cdirty :: bool

definition wrap :: "int \<Rightarrow> int \<Rightarrow> int \<Rightarrow> int" where
  \<comment> \<open>\<open>if (x > hi) x -= n; else if (x < lo) x += n\<close> with \<open>n = hi - lo + 1\<close>\<close>
  "wrap lo hi x = (if x > hi then x - (hi - lo + 1) else if x < lo then x + (hi - lo + 1) else x)"

definition leap :: "int \<Rightarrow> bool" where
  "leap y \<longleftrightarrow> (y mod 4 = 0 \<and> y mod 100 \<noteq> 0) \<or> y mod 400 = 0"

definition validate :: "clock \<Rightarrow> clock" where
  "validate c =
     (let february_days = (if leap (year c) then 29 else 28);
          c = c\<lparr>month := wrap 1 12 (month c)\<rparr>;
          c = (if year c > 2100 then c\<lparr>year := 2100\<rparr>
               else if year c < 1970 then c\<lparr>year := 1970\<rparr> else c);
          c = (if month c = 2 then c\<lparr>day := wrap 1 february_days (day c)\<rparr>
               else if month c \<in> {4, 6, 9, 11} then c\<lparr>day := wrap 1 30 (day c)\<rparr>
               else c\<lparr>day := wrap 1 31 (day c)\<rparr>);
          c = c\<lparr>hour := wrap 0 23 (hour c)\<rparr>;
          c = c\<lparr>minute := wrap 0 59 (minute c)\<rparr>
      in c\<lparr>seconds := wrap 0 59 (seconds c)\<rparr>)"

definition change :: "int \<Rightarrow> clock \<Rightarrow> clock" where
  \<comment> \<open>the two switches of the up and down keys, by the sign\<close>
  "change d c =
     (let k = cursor c in
      if k = CURSOR_YEAR then c\<lparr>year := year c + d\<rparr>
      else if k = CURSOR_MONTH then c\<lparr>month := month c + d\<rparr>
      else if k = CURSOR_DAY then c\<lparr>day := day c + d\<rparr>
      else if k = CURSOR_HOUR then c\<lparr>hour := hour c + d\<rparr>
      else if k = CURSOR_MINUTE then c\<lparr>minute := minute c + d\<rparr>
      else if k = CURSOR_SECOND then c\<lparr>seconds := seconds c + d\<rparr>
      else if k = CURSOR_AMPM then c\<lparr>hour := hour c + 12 * d\<rparr>
      else c)"

definition clock_keys :: "PAD_Context \<Rightarrow> clock \<Rightarrow> clock" where
  "clock_keys pad c =
     (if PAD_justRepeated pad BTN_UP then (change 1 c)\<lparr>cdirty := True\<rparr>
      else if PAD_justRepeated pad BTN_DOWN then (change (- 1) c)\<lparr>cdirty := True\<rparr>
      else if PAD_justRepeated pad BTN_LEFT then
        (let c = c\<lparr>cdirty := True, cursor := cursor c - 1\<rparr> in
         if cursor c < 0 then c\<lparr>cursor := cursor c + option_count c\<rparr> else c)
      else if PAD_justRepeated pad BTN_RIGHT then
        (let c = c\<lparr>cdirty := True, cursor := cursor c + 1\<rparr> in
         if cursor c \<ge> option_count c then c\<lparr>cursor := cursor c - option_count c\<rparr> else c)
      else if PAD_justPressed pad (btn_mask BTN_ID_A) then c\<lparr>save_changes := True, cquit := True\<rparr>
      else if PAD_justPressed pad (btn_mask BTN_ID_B) then c\<lparr>cquit := True\<rparr>
      else if PAD_justPressed pad (btn_mask BTN_ID_SELECT) then
        (let c = c\<lparr>cdirty := True, show_24hour := \<not> show_24hour c\<rparr>;
             c = c\<lparr>option_count := (if show_24hour c then CURSOR_SECOND else CURSOR_AMPM) + 1\<rparr>
         in if cursor c \<ge> option_count c then c\<lparr>cursor := cursor c - option_count c\<rparr> else c)
      else c)"

definition clock_frame :: "PAD_Context \<times> bool \<Rightarrow> clock \<Rightarrow> clock" where
  \<comment> \<open>\<open>redraw\<close>: whether the power manager or the network icon asks for a redraw\<close>
  "clock_frame ev c =
     (case ev of (pad, redraw) \<Rightarrow>
        (let c = clock_keys pad c; c = (if redraw then c\<lparr>cdirty := True\<rparr> else c) in
         if cdirty c then (validate c)\<lparr>cdirty := False\<rparr> else c))"

fun clock_run :: "(PAD_Context \<times> bool) list \<Rightarrow> clock \<Rightarrow> clock" where
  "clock_run [] c = c"
| "clock_run (ev # evs) c = (if cquit c then c else clock_run evs (clock_frame ev c))"

definition clock_start :: "int \<Rightarrow> int \<Rightarrow> int \<Rightarrow> int \<Rightarrow> int \<Rightarrow> int \<Rightarrow> bool \<Rightarrow> clock" where
  "clock_start y m d h mi s is24 = \<lparr>year = y, month = m, day = d, hour = h, minute = mi, seconds = s,
     cursor = 0, option_count = 7, show_24hour = is24, save_changes = False, cquit = False, cdirty = True\<rparr>"

subsection \<open>Facts\<close>

definition days_in :: "int \<Rightarrow> int \<Rightarrow> int" where
  "days_in y m = (if m = 2 then if leap y then 29 else 28 else if m \<in> {4, 6, 9, 11} then 30 else 31)"

definition valid_date :: "clock \<Rightarrow> bool" where
  "valid_date c \<longleftrightarrow> 1970 \<le> year c \<and> year c \<le> 2100 \<and> 1 \<le> month c \<and> month c \<le> 12
     \<and> 1 \<le> day c \<and> day c \<le> days_in (year c) (month c)
     \<and> 0 \<le> hour c \<and> hour c \<le> 23 \<and> 0 \<le> minute c \<and> minute c \<le> 59 \<and> 0 \<le> seconds c \<and> seconds c \<le> 59"

text \<open>Fields one step outside their ranges, which is all a single key press can do.\<close>

definition near_date :: "clock \<Rightarrow> bool" where
  "near_date c \<longleftrightarrow> 1969 \<le> year c \<and> year c \<le> 2101 \<and> 0 \<le> month c \<and> month c \<le> 13
     \<and> 0 \<le> day c \<and> day c \<le> 32 \<and> - 12 \<le> hour c \<and> hour c \<le> 35
     \<and> - 1 \<le> minute c \<and> minute c \<le> 60 \<and> - 1 \<le> seconds c \<and> seconds c \<le> 61"

definition cursor_ok :: "clock \<Rightarrow> bool" where
  "cursor_ok c \<longleftrightarrow> 0 \<le> cursor c \<and> cursor c < option_count c \<and> option_count c \<in> {6, 7}"

lemma wrap_range: "lo - (hi - lo + 1) \<le> x \<Longrightarrow> x \<le> hi + (hi - lo + 1) \<Longrightarrow> lo \<le> hi \<Longrightarrow> lo \<le> wrap lo hi x \<and> wrap lo hi x \<le> hi"
  by (auto simp: wrap_def)

lemma wrap_id: "lo \<le> x \<Longrightarrow> x \<le> hi \<Longrightarrow> wrap lo hi x = x"
  by (simp add: wrap_def)

lemma validate_fields:
  "month (validate c) = wrap 1 12 (month c)"
  "year (validate c) = (if year c > 2100 then 2100 else if year c < 1970 then 1970 else year c)"
  "day (validate c) = wrap 1 (days_in (year c) (wrap 1 12 (month c))) (day c)"
  "hour (validate c) = wrap 0 23 (hour c)" "minute (validate c) = wrap 0 59 (minute c)"
  "seconds (validate c) = wrap 0 59 (seconds c)"
  "cursor (validate c) = cursor c" "option_count (validate c) = option_count c"
  "cquit (validate c) = cquit c" "save_changes (validate c) = save_changes c"
  by (simp_all add: validate_def Let_def days_in_def)

text \<open>Clamping the year to its limits does not change the length of February.\<close>

lemma clamp_leap: "1969 \<le> y \<Longrightarrow> y \<le> 2101 \<Longrightarrow>
  leap (if y > 2100 then 2100 else if y < 1970 then 1970 else y) = leap y"
proof -
  assume "1969 \<le> y" "y \<le> 2101"
  then consider "y = 1969" | "y = 2101" | "1970 \<le> y \<and> y \<le> 2100" by linarith
  then show ?thesis by cases (simp_all add: leap_def)
qed

lemma days_in_bounds: "28 \<le> days_in y m \<and> days_in y m \<le> 31"
  by (simp add: days_in_def)

lemma validate_valid:
  assumes "near_date c"
  shows "valid_date (validate c)"
proof -
  have "days_in (year (validate c)) (month (validate c)) = days_in (year c) (wrap 1 12 (month c))"
    using assms clamp_leap [of "year c"] unfolding days_in_def validate_fields near_date_def by simp
  then show ?thesis
    using assms days_in_bounds [of "year c" "wrap 1 12 (month c)"]
      wrap_range [of 1 12 "month c"] wrap_range [of 1 "days_in (year c) (wrap 1 12 (month c))" "day c"]
      wrap_range [of 0 23 "hour c"] wrap_range [of 0 59 "minute c"] wrap_range [of 0 59 "seconds c"]
    by (auto simp: valid_date_def validate_fields near_date_def)
qed

lemma validate_id: "valid_date c \<Longrightarrow> validate c = c"
  by (rule clock.equality) (auto simp: valid_date_def validate_fields days_in_def wrap_id validate_def Let_def)

text \<open>What \<open>localtime\<close> may deliver at the start: a date, with a leap second.\<close>

definition start_date :: "clock \<Rightarrow> bool" where
  "start_date c \<longleftrightarrow> 1970 \<le> year c \<and> year c \<le> 2100 \<and> 1 \<le> month c \<and> month c \<le> 12
     \<and> 1 \<le> day c \<and> day c \<le> 31 \<and> 0 \<le> hour c \<and> hour c \<le> 23
     \<and> 0 \<le> minute c \<and> minute c \<le> 59 \<and> 0 \<le> seconds c \<and> seconds c \<le> 60"

lemma start_near: "start_date c \<Longrightarrow> near_date (change 1 c) \<and> near_date (change (- 1) c) \<and> near_date c"
  by (simp add: start_date_def near_date_def change_def Let_def)

lemma valid_start: "valid_date c \<Longrightarrow> start_date c"
  using days_in_bounds [of "year c" "month c"] by (auto simp: valid_date_def start_date_def)

lemma date_cong:
  assumes "year c = year c'" "month c = month c'" "day c = day c'" "hour c = hour c'"
    "minute c = minute c'" "seconds c = seconds c'"
  shows "near_date c = near_date c'" "valid_date c = valid_date c'" "start_date c = start_date c'"
  using assms by (simp_all add: near_date_def valid_date_def start_date_def)

text \<open>A frame's keys change at most one field by one step, and then ask for the clean-up.\<close>

lemma clock_keys_date:
  assumes "start_date c"
  shows "near_date (clock_keys pad c)"
    and "valid_date c \<Longrightarrow> cdirty (clock_keys pad c) \<or> valid_date (clock_keys pad c)"
proof -
  let ?k = "clock_keys pad c"
  consider d where "d \<in> {1, - 1}" "?k = (change d c)\<lparr>cdirty := True\<rparr>"
    | "year ?k = year c" "month ?k = month c" "day ?k = day c" "hour ?k = hour c"
      "minute ?k = minute c" "seconds ?k = seconds c"
  proof (cases "PAD_justRepeated pad BTN_UP \<or> PAD_justRepeated pad BTN_DOWN")
    case True
    then have "?k = (change 1 c)\<lparr>cdirty := True\<rparr> \<or> ?k = (change (- 1) c)\<lparr>cdirty := True\<rparr>"
      by (cases "PAD_justRepeated pad BTN_UP") (simp_all add: clock_keys_def)
    then show ?thesis using that(1) by blast
  next
    case False
    then show ?thesis by (intro that(2)) (simp_all add: clock_keys_def Let_def)
  qed
  then have "near_date ?k \<and> (valid_date c \<longrightarrow> cdirty ?k \<or> valid_date ?k)"
  proof cases
    case 1
    then show ?thesis using start_near [OF assms] by (auto simp: near_date_def)
  next
    case 2
    then show ?thesis using date_cong [OF 2] start_near [OF assms] by simp
  qed
  then show "near_date ?k" "valid_date c \<Longrightarrow> cdirty ?k \<or> valid_date ?k" by blast+
qed

lemma change_fields [simp]:
  "cursor (change d c) = cursor c" "option_count (change d c) = option_count c" "cdirty (change d c) = cdirty c"
  by (simp_all add: change_def Let_def)

lemma if_elim: "(b \<Longrightarrow> P x) \<Longrightarrow> (\<not> b \<Longrightarrow> P y) \<Longrightarrow> P (if b then x else y)"
  by simp

lemma clock_keys_cursor: "cursor_ok c \<Longrightarrow> cursor_ok (clock_keys pad c)"
  unfolding clock_keys_def Let_def
  by (rule if_elim [of _ cursor_ok], (auto simp: cursor_ok_def)[1])+ (auto simp: cursor_ok_def)

lemma clock_keys_dirty: "cdirty c \<Longrightarrow> cdirty (clock_keys pad c)"
  by (simp add: clock_keys_def Let_def)

definition clock_inv :: "clock \<Rightarrow> bool" where
  "clock_inv c \<longleftrightarrow> cursor_ok c \<and> start_date c \<and> (cdirty c \<or> valid_date c)"

lemma clock_frame_inv:
  assumes "clock_inv c"
  shows "clock_inv (clock_frame ev c) \<and> valid_date (clock_frame ev c)"
proof -
  obtain pad redraw where ev: "ev = (pad, redraw)" by fastforce
  let ?k = "clock_keys pad c"
  define r where "r = (if redraw then ?k\<lparr>cdirty := True\<rparr> else ?k)"
  have start: "start_date c" using assms by (simp add: clock_inv_def)
  have frame: "clock_frame ev c = (if cdirty r then (validate r)\<lparr>cdirty := False\<rparr> else r)"
    by (simp add: clock_frame_def ev Let_def r_def)
  have near: "near_date r" using clock_keys_date(1) [OF start, of pad] by (simp add: near_date_def r_def)
  have "cdirty r \<or> valid_date r"
    using assms clock_keys_date(2) [OF start] clock_keys_dirty [of c pad]
    unfolding clock_inv_def r_def by auto
  then have valid: "valid_date (clock_frame ev c)"
    using validate_valid [OF near] date_cong(2) [of "(validate r)\<lparr>cdirty := False\<rparr>" "validate r"]
    unfolding frame by auto
  have "cursor_ok (clock_frame ev c)"
    using clock_keys_cursor [of c pad] assms unfolding frame r_def
    by (simp add: clock_inv_def cursor_ok_def validate_fields)
  with valid show ?thesis using valid_start by (simp add: clock_inv_def)
qed

lemma clock_run_inv: "clock_inv c \<Longrightarrow> clock_inv (clock_run evs c)"
  by (induction evs arbitrary: c) (simp_all add: clock_frame_inv)

lemma clock_run_valid: "clock_inv c \<Longrightarrow> valid_date c \<Longrightarrow> valid_date (clock_run evs c)"
  by (induction evs arbitrary: c) (simp_all add: clock_frame_inv)

subsection \<open>Properties\<close>

text \<open>However the fields are changed, after every frame the clock shows a real date and time between
  1970 and 2100 (month lengths and leap years included) with the cursor on a field, so that what is
  saved is one; and \<open>validate\<close> never alters a date that is already valid.\<close>

lemma clock_always_valid:
  assumes "start_date (clock_start y m d h mi s is24)" and "evs \<noteq> []"
  shows "valid_date (clock_run evs (clock_start y m d h mi s is24))
         \<and> cursor_ok (clock_run evs (clock_start y m d h mi s is24))
         \<and> validate (clock_run evs (clock_start y m d h mi s is24))
             = clock_run evs (clock_start y m d h mi s is24)"
proof -
  let ?c = "clock_start y m d h mi s is24"
  have inv: "clock_inv ?c" using assms(1) by (simp add: clock_inv_def cursor_ok_def clock_start_def)
  obtain ev rest where evs: "evs = ev # rest" using assms(2) by (cases evs) auto
  have "valid_date (clock_run evs ?c)"
    using clock_run_valid [of "clock_frame ev ?c" rest] clock_frame_inv [OF inv, of ev]
    by (simp add: evs clock_start_def)
  then show ?thesis using clock_run_inv [OF inv, of evs] validate_id by (simp add: clock_inv_def)
qed

definition press_up :: PAD_Context where
  "press_up = \<lparr>is_pressed = BTN_UP, just_pressed = BTN_UP, just_released = 0, just_repeated = BTN_UP,
     repeat_at = replicate 25 0, laxis = \<lparr>ax_x = 0, ax_y = 0\<rparr>, raxis = \<lparr>ax_x = 0, ax_y = 0\<rparr>\<rparr>"

end
