(* ===== verification/Options.thy ===== *)
theory Options
  imports Utils
begin

text \<open>
  Options and configuration text of the emulator frontend \<open>minarch/minarch.c\<close>: looking a key up in a
  configuration file (\<open>Config_getValue\<close>), options with their values and labels, the option lists an
  emulator core announces (in either of the two formats of its interface), and reading or changing
  them by key.

  The strings a core announces are data of the model. An option's \<open>count\<close> is the length of its list
  of values. Reading a value out of range gives \<open>None\<close>.
\<close>

subsection \<open>Looking up a key\<close>

definition key_separator :: string where "key_separator = '' = ''"

lemma strstr_Some: "strstr s k = Some i \<Longrightarrow> i + length k \<le> length s \<and> take (length k) (drop i s) = k"
proof (induction s arbitrary: i)
  case Nil
  then show ?case by (simp split: if_splits)
next
  case (Cons x xs)
  show ?case
  proof (cases "take (length k) (x # xs) = k")
    case True
    then have "i = 0" "length k \<le> length (x # xs)"
      using Cons.prems by (simp, metis length_take min.cobounded1)
    then show ?thesis using True by simp
  next
    case False
    with Cons obtain j where j: "i = Suc j" "strstr xs k = Some j" by auto
    from Cons.IH [OF j(2)] j(1) show ?thesis by simp
  qed
qed

function config_find :: "char option \<Rightarrow> string \<Rightarrow> string \<Rightarrow> bool \<Rightarrow> string option \<times> bool" where
  \<comment> \<open>the character before \<open>tmp\<close>, the text left, the key (never empty), the lock flag\<close>
  "config_find prev tmp k lock =
     (if k = [] then (None, lock)
      else case strstr tmp k of
             None \<Rightarrow> (None, lock)
           | Some i \<Rightarrow>
               (let before = (if i = 0 then prev else Some (tmp ! (i - 1)));
                    lock = (lock \<or> before = Some (CHR ''-''));
                    rest = drop (i + length k) tmp
                in if take 3 rest = key_separator then (Some (drop 3 rest), lock)
                   else config_find (Some (last k)) rest k lock))"
  by pat_completeness auto

termination
proof (relation "measure (\<lambda>(prev, tmp, k, lock). length tmp)", goal_cases)
  case (2 prev tmp k lock i)
  then have "i + length k \<le> length tmp" "0 < length k" using strstr_Some [of tmp k i] by auto
  then have "length (drop (i + length k) tmp) < length tmp" unfolding length_drop by linarith
  with 2 show ?case by simp
qed simp

declare config_find.simps [simp del]

definition line_value :: "string \<Rightarrow> string" where
  \<comment> \<open>at most 255 characters, cut at the first line feed or, when there is none, carriage return\<close>
  "line_value s =
     (let v = take 255 s in
      case strchr v char_newline of
        Some i \<Rightarrow> take i v
      | None \<Rightarrow> (case strchr v char_return of Some i \<Rightarrow> take i v | None \<Rightarrow> v))"

definition Config_getValue :: "string \<Rightarrow> string \<Rightarrow> bool \<Rightarrow> string option \<times> bool" where
  "Config_getValue cfg k lock =
     (case config_find None cfg k lock of (v, lock) \<Rightarrow> (map_option line_value v, lock))"

subsection \<open>Options\<close>

record Option =
  key :: string
  oname :: "string option"
  default_value :: nat
  val :: nat
  lock :: bool
  vals :: "string list"
  labels :: "string list"

fun index_of :: "string list \<Rightarrow> string \<Rightarrow> nat option" where
  "index_of [] v = None"
| "index_of (x # xs) v = (if x = v then Some 0 else map_option Suc (index_of xs v))"

definition Option_getValueIndex :: "Option \<Rightarrow> string option \<Rightarrow> nat" where
  "Option_getValueIndex item value =
     (case value of
        None \<Rightarrow> 0
      | Some v \<Rightarrow> (case index_of (vals item) v of Some i \<Rightarrow> i | None \<Rightarrow> 0))"

definition Option_setValue :: "string option \<Rightarrow> Option \<Rightarrow> Option" where
  "Option_setValue value item = item\<lparr>val := Option_getValueIndex item value\<rparr>"

definition option_value :: "Option \<Rightarrow> string option" where
  "option_value item = (if val item < length (vals item) then Some (vals item ! val item) else None)"

subsection \<open>Lists of options\<close>

record OptionList =
  options :: "Option list"
  changed :: bool

definition getOptionNameFromKey :: "string \<Rightarrow> string \<Rightarrow> string" where
  "getOptionNameFromKey k name =
     (if exact_match k ''pcsx_rearmed_analog_combo'' then ''DualShock Toggle Combo'' else name)"

record core_option =
  \<comment> \<open>one \<open>retro_core_option_definition\<close>: values with their labels\<close>
  def_key :: string
  def_desc :: string
  def_values :: "(string \<times> string option) list"
  def_default :: "string option"

definition init_option :: "core_option \<Rightarrow> Option" where
  "init_option d =
     (let item = \<lparr>key = def_key d, oname = Some (getOptionNameFromKey (def_key d) (def_desc d)),
                  default_value = 0, val = 0, lock = False, vals = map fst (def_values d),
                  labels = map (\<lambda>(v, l). case l of Some x \<Rightarrow> x | None \<Rightarrow> v) (def_values d)\<rparr>;
          i = Option_getValueIndex item (def_default d)
      in item\<lparr>val := i, default_value := i\<rparr>)"

definition OptionList_init :: "core_option list \<Rightarrow> OptionList" where
  "OptionList_init defs = \<lparr>options = map init_option defs, changed = False\<rparr>"

fun split_bar :: "string \<Rightarrow> string list" where
  "split_bar [] = [[]]"
| "split_bar (c # cs) =
     (if c = CHR ''|'' then [] # split_bar cs
      else (case split_bar cs of [] \<Rightarrow> [[c]] | f # fs \<Rightarrow> (c # f) # fs))"

definition parse_var :: "string \<Rightarrow> (string option \<times> string list) option" where
  \<comment> \<open>\<open>"Description; first|second|third"\<close>; without a semicolon the code follows a null pointer\<close>
  "parse_var s =
     (case strchr s (CHR '';'') of
        None \<Rightarrow> None
      | Some i \<Rightarrow>
          if take 1 (drop (Suc i) s) = '' '' then Some (Some (take i s), split_bar (drop (i + 2) s))
          else Some (None, split_bar (drop i s)))"

definition var_option :: "string \<times> string \<Rightarrow> Option option" where
  "var_option kv =
     (case kv of (k, s) \<Rightarrow>
        (case parse_var s of
           None \<Rightarrow> None
         | Some (nm, vs) \<Rightarrow> Some \<lparr>key = k, oname = nm, default_value = 0, val = 0, lock = False,
                                 vals = vs, labels = vs\<rparr>))"

definition OptionList_vars :: "(string \<times> string) list \<Rightarrow> OptionList option" where
  "OptionList_vars vars =
     (let os = map var_option vars in
      if None \<in> set os then None else Some \<lparr>options = map the os, changed = False\<rparr>)"

fun option_index :: "Option list \<Rightarrow> string \<Rightarrow> nat option" where
  "option_index [] k = None"
| "option_index (x # xs) k = (if key x = k then Some 0 else map_option Suc (option_index xs k))"

definition OptionList_getOption :: "OptionList \<Rightarrow> string \<Rightarrow> Option option" where
  "OptionList_getOption l k = map_option (\<lambda>i. options l ! i) (option_index (options l) k)"

definition OptionList_getOptionValue :: "OptionList \<Rightarrow> string \<Rightarrow> string option" where
  "OptionList_getOptionValue l k = Option.bind (OptionList_getOption l k) option_value"

definition update_option :: "(Option \<Rightarrow> Option) \<Rightarrow> string \<Rightarrow> OptionList \<Rightarrow> OptionList" where
  "update_option f k l =
     (case option_index (options l) k of
        None \<Rightarrow> l
      | Some i \<Rightarrow> l\<lparr>options := (options l)[i := f (options l ! i)], changed := True\<rparr>)"

definition OptionList_setOptionRawValue :: "string \<Rightarrow> nat \<Rightarrow> OptionList \<Rightarrow> OptionList" where
  "OptionList_setOptionRawValue k v l = update_option (\<lambda>item. item\<lparr>val := v\<rparr>) k l"

definition OptionList_setOptionValue :: "string \<Rightarrow> string option \<Rightarrow> OptionList \<Rightarrow> OptionList" where
  "OptionList_setOptionValue k v l = update_option (Option_setValue v) k l"

definition palette_wait :: "string \<Rightarrow> nat \<Rightarrow> string \<Rightarrow> OptionList \<Rightarrow> nat \<Rightarrow> nat" where
  \<comment> \<open>the frames until the palette of a changed Game Boy option is read again\<close>
  "palette_wait tag frames k l old =
     (if OptionList_getOption l k \<noteq> None \<and> exact_match tag ''GB'' \<and> containsString k ''palette''
      then frames else old)"

subsection \<open>Facts\<close>

lemma strstr_0: "take (length k) s = k \<Longrightarrow> strstr s k = Some 0"
  by (cases s) auto

lemma strstr_here: "strstr (k @ s) k = Some 0"
  by (rule strstr_0) simp

lemma strstr_skip:
  assumes "strstr l k = None" and "c \<notin> set k"
  shows "strstr (l @ c # rest) k = map_option (\<lambda>i. Suc (length l + i)) (strstr rest k)"
  using assms(1)
proof (induction l)
  case Nil
  then have "k \<noteq> []" by auto
  then have "take (length k) (c # rest) \<noteq> k" using assms(2) by (cases k) auto
  then show ?case by simp
next
  case (Cons x l)
  have "take (length k) ((x # l) @ c # rest) \<noteq> k"
  proof
    assume k: "take (length k) ((x # l) @ c # rest) = k"
    show False
    proof (cases "length k \<le> length (x # l)")
      case True
      then have "take (length k) (x # l) = k" using k by (metis append_Nil2 diff_is_0_eq take0 take_append)
      then show False using Cons.prems by simp
    next
      case False
      then have "c \<in> set (take (length k) ((x # l) @ c # rest))" by (auto simp: take_Cons')
      then show False using k assms(2) by simp
    qed
  qed
  moreover have "take (length k) (x # l) \<noteq> k" "strstr l k = None" using Cons.prems by (auto split: if_splits)
  ultimately show ?case using Cons.IH by (simp add: option.map_comp comp_def)
qed

text \<open>A line without the key is passed over.\<close>

lemma config_find_skip:
  assumes "strstr l k = None" and "char_newline \<notin> set k"
  shows "config_find prev (l @ char_newline # rest) k lk = config_find (Some char_newline) rest k lk"
proof (cases "strstr rest k")
  case None
  then show ?thesis
    using strstr_skip [OF assms, of rest]
    by (subst (1 2) config_find.simps) simp
next
  case (Some i)
  let ?s = "l @ char_newline # rest"
  have skip: "strstr ?s k = Some (Suc (length l + i))" using strstr_skip [OF assms] Some by simp
  have "?s ! (length l + i) = (if i = 0 then char_newline else rest ! (i - 1))"
    by (cases i) (simp_all add: nth_append)
  moreover have "drop (Suc (length l + i) + length k) ?s = drop (i + length k) rest" by simp
  ultimately show ?thesis
    using Some skip by (subst (1 2) config_find.simps) (simp add: Let_def split: if_splits)
qed

lemma config_find_lines:
  assumes "\<forall>l \<in> set ls. strstr l k = None" and "char_newline \<notin> set k" and "k \<noteq> []"
  shows "config_find prev (write_lines ls @ rest) k lk
         = config_find (if ls = [] then prev else Some char_newline) rest k lk"
  using assms(1)
proof (induction ls arbitrary: prev)
  case (Cons l ls)
  then show ?case using config_find_skip [OF _ assms(2), of l prev "write_lines ls @ rest"] by simp
qed simp

lemma config_find_here:
  assumes "k \<noteq> []"
  shows "config_find prev (k @ key_separator @ rest) k lk = (Some rest, lk \<or> prev = Some (CHR ''-''))"
  using assms by (subst config_find.simps) (simp add: strstr_here key_separator_def)

lemma config_find_dash:
  assumes "k \<noteq> []" and "hd k \<noteq> CHR ''-''"
  shows "config_find prev (CHR ''-'' # k @ key_separator @ rest) k lk = (Some rest, True)"
proof -
  have "take (length k) (CHR ''-'' # k @ key_separator @ rest) \<noteq> k"
    using assms by (cases k) auto
  then have "strstr (CHR ''-'' # k @ key_separator @ rest) k = Some 1" by (simp add: strstr_here)
  then show ?thesis using assms(1) by (subst config_find.simps) (simp add: key_separator_def)
qed

lemma line_value_lf:
  assumes "char_newline \<notin> set v" and "length v < 255"
  shows "line_value (v @ char_newline # rest) = v"
proof -
  have "take 255 (v @ char_newline # rest) = v @ char_newline # take (254 - length v) rest"
    using assms(2) by (simp add: take_Cons')
  then show ?thesis using strchr_append [OF assms(1)] by (simp add: line_value_def)
qed

lemma split_bar_not_Nil [simp]: "split_bar s \<noteq> []"
  by (cases s) (auto split: list.splits)

lemma split_bar_plain: "CHR ''|'' \<notin> set s \<Longrightarrow> split_bar s = [s]"
  by (induction s) auto

lemma split_bar_append:
  "CHR ''|'' \<notin> set v \<Longrightarrow> split_bar (v @ CHR ''|'' # s) = v # split_bar s"
  by (induction v) auto

fun join_bar :: "string list \<Rightarrow> string" where
  "join_bar [] = []"
| "join_bar [v] = v"
| "join_bar (v # w # vs) = v @ ''|'' @ join_bar (w # vs)"

lemma split_join_bar: "vs \<noteq> [] \<Longrightarrow> \<forall>v \<in> set vs. CHR ''|'' \<notin> set v \<Longrightarrow> split_bar (join_bar vs) = vs"
  by (induction vs rule: join_bar.induct) (simp_all add: split_bar_plain split_bar_append)

lemma index_of_Some: "index_of xs v = Some i \<Longrightarrow> i < length xs \<and> xs ! i = v"
  by (induction xs arbitrary: i) (auto split: if_splits)

lemma index_of_nth: "distinct xs \<Longrightarrow> i < length xs \<Longrightarrow> index_of xs (xs ! i) = Some i"
proof (induction xs arbitrary: i)
  case (Cons x xs)
  then show ?case by (cases i) auto
qed simp

lemma option_index_Some: "option_index xs k = Some i \<Longrightarrow> i < length xs \<and> key (xs ! i) = k"
  by (induction xs arbitrary: i) (auto split: if_splits)

lemma option_index_nth:
  "distinct (map key xs) \<Longrightarrow> i < length xs \<Longrightarrow> option_index xs (key (xs ! i)) = Some i"
proof (induction xs arbitrary: i)
  case (Cons x xs)
  then show ?case by (cases i) auto
qed simp

lemma option_index_cong: "map key xs = map key ys \<Longrightarrow> option_index xs k = option_index ys k"
proof (induction xs arbitrary: ys)
  case (Cons x xs)
  then show ?case by (cases ys) auto
qed simp

text \<open>An option whose value is an index of its list of values.\<close>

definition option_ok :: "Option \<Rightarrow> bool" where
  "option_ok item \<longleftrightarrow> vals item \<noteq> [] \<and> val item < length (vals item) \<and> default_value item < length (vals item)
     \<and> length (labels item) = length (vals item)"

lemma getValueIndex_range: "vals item \<noteq> [] \<Longrightarrow> Option_getValueIndex item v < length (vals item)"
  by (auto simp: Option_getValueIndex_def split: option.split dest: index_of_Some)

lemma Option_setValue_ok: "option_ok item \<Longrightarrow> option_ok (Option_setValue v item)"
  by (simp add: option_ok_def Option_setValue_def getValueIndex_range)

lemma update_option_ok:
  assumes "\<forall>x \<in> set (options l). option_ok x" and "\<And>x. x \<in> set (options l) \<Longrightarrow> key x = k \<Longrightarrow> option_ok (f x)"
  shows "\<forall>x \<in> set (options (update_option f k l)). option_ok x"
proof (cases "option_index (options l) k")
  case None
  then show ?thesis using assms(1) by (simp add: update_option_def)
next
  case (Some i)
  then have "i < length (options l)" "key (options l ! i) = k" using option_index_Some by blast+
  then show ?thesis
    using Some assms by (auto simp: update_option_def dest: set_update_subset_insert [THEN subsetD])
qed

lemma init_option_ok: "def_values d \<noteq> [] \<Longrightarrow> option_ok (init_option d)"
  by (simp add: init_option_def option_ok_def Let_def Option_getValueIndex_def split: option.split)
    (auto dest: index_of_Some)

lemma parse_var_vals: "parse_var s = Some (nm, vs) \<Longrightarrow> vs \<noteq> []"
  by (auto simp: parse_var_def split: option.splits if_splits)

lemma var_option_ok: "var_option kv = Some item \<Longrightarrow> option_ok item"
  by (auto simp: var_option_def option_ok_def split: option.splits prod.splits dest: parse_var_vals)

text \<open>Reading the line of a key, with or without the dash that locks it.\<close>

lemma Config_getValue_at:
  assumes "\<forall>l \<in> set before. strstr l k = None" and "char_newline \<notin> set k" and "k \<noteq> []"
    and "char_newline \<notin> set v" and "length v < 255"
  shows "Config_getValue (write_lines (before @ (k @ key_separator @ v) # after)) k lk = (Some v, lk)"
    and "hd k \<noteq> CHR ''-'' \<Longrightarrow>
         Config_getValue (write_lines (before @ (CHR ''-'' # k @ key_separator @ v) # after)) k lk = (Some v, True)"
proof -
  let ?rest = "v @ char_newline # write_lines after"
  have split: "write_lines (before @ x # after) = write_lines before @ (x @ char_newline # write_lines after)" for x
    by (simp add: write_lines_def)
  have v: "line_value ?rest = v" using assms(4,5) by (rule line_value_lf)
  have "config_find None (write_lines before @ (k @ key_separator @ ?rest)) k lk = (Some ?rest, lk)"
    using config_find_lines [OF assms(1-3)] config_find_here [OF assms(3)]
    by (simp add: char_newline_def)
  then show "Config_getValue (write_lines (before @ (k @ key_separator @ v) # after)) k lk = (Some v, lk)"
    using v by (simp add: Config_getValue_def split)
  assume "hd k \<noteq> CHR ''-''"
  then have "config_find None (write_lines before @ (CHR ''-'' # k @ key_separator @ ?rest)) k lk = (Some ?rest, True)"
    using config_find_lines [OF assms(1-3)] config_find_dash [OF assms(3)] by simp
  then show "Config_getValue (write_lines (before @ (CHR ''-'' # k @ key_separator @ v) # after)) k lk = (Some v, True)"
    using v by (simp add: Config_getValue_def split)
qed

subsection \<open>Properties\<close>

text \<open>Of a configuration file, \<open>Config_getValue\<close> returns the value of the first line \<open>key = value\<close>, and
  locks the option exactly when the line starts with a dash, provided that no line before contains the
  key; a key that is on no line is not found and locks nothing.\<close>

theorem Config_getValue_spec:
  assumes "\<forall>l \<in> set before. strstr l k = None" and "char_newline \<notin> set k" and "k \<noteq> []"
    and "char_newline \<notin> set v" and "length v < 255" and "hd k \<noteq> CHR ''-''"
  shows "Config_getValue (write_lines (before @ (k @ key_separator @ v) # after)) k False = (Some v, False)
       \<and> Config_getValue (write_lines (before @ (CHR ''-'' # k @ key_separator @ v) # after)) k False = (Some v, True)
       \<and> Config_getValue (write_lines before) k False = (None, False)"
proof (intro conjI)
  have "config_find None (write_lines before @ []) k False = (None, False)"
    using config_find_lines [OF assms(1-3), of None "[]"] assms(3) by (simp add: config_find.simps)
  then show "Config_getValue (write_lines before) k False = (None, False)" by (simp add: Config_getValue_def)
qed (use Config_getValue_at [OF assms(1-5)] assms(6) in blast)+

theorem Config_getValue_spec_witness:
  "Config_getValue (write_lines ([''minarch_screen_scaling = Native''] @ (''minarch_cpu_speed'' @ key_separator @ ''Normal'') # []))
     ''minarch_cpu_speed'' False = (Some ''Normal'', False)"
  by (rule Config_getValue_spec [THEN conjunct1]) (simp_all add: char_newline_def)

text \<open>The lookup is not anchored and not line-ending safe: a locked line of another option whose name merely
  begins with the key locks this one although its value is not found, and in a file with CRLF line
  ends the value keeps its carriage return.\<close>

theorem Config_getValue_quirks:
  assumes "k \<noteq> []" and "hd k \<noteq> CHR ''-''" and "x \<noteq> CHR '' ''" and "strstr (x # s) k = None"
    and "char_newline \<notin> set v" and "length v < 254"
  shows "Config_getValue (CHR ''-'' # k @ x # s) k False = (None, True)
         \<and> Config_getValue (k @ key_separator @ v @ [char_return, char_newline]) k False
             = (Some (v @ [char_return]), False)"
proof
  have "take (length k) (CHR ''-'' # k @ x # s) \<noteq> k" using assms(1,2) by (cases k) auto
  then have "strstr (CHR ''-'' # k @ x # s) k = Some 1" by (simp add: strstr_here)
  then have "config_find None (CHR ''-'' # k @ x # s) k False = config_find (Some (last k)) (x # s) k True"
    using assms(1,3) by (subst config_find.simps) (simp add: key_separator_def)
  also have "\<dots> = (None, True)" using assms(4) by (simp add: config_find.simps)
  finally show "Config_getValue (CHR ''-'' # k @ x # s) k False = (None, True)"
    by (simp add: Config_getValue_def)
  have "line_value ((v @ [char_return]) @ char_newline # []) = v @ [char_return]"
    using assms(5,6) by (intro line_value_lf) (auto simp: char_newline_def char_return_def)
  then show "Config_getValue (k @ key_separator @ v @ [char_return, char_newline]) k False
      = (Some (v @ [char_return]), False)"
    using config_find_here [OF assms(1), of None "v @ [char_return, char_newline]" False]
    by (simp add: Config_getValue_def)
qed

theorem Config_getValue_quirks_witness:
  "Config_getValue (CHR ''-'' # ''gpu'' @ CHR ''_'' # ''mode = fast'') ''gpu'' False = (None, True)"
  by (rule Config_getValue_quirks [of _ _ _ "''x''", THEN conjunct1]) (simp_all add: char_newline_def)

text \<open>The options of a core, in either format it may announce them, always have a current value: every
  option of the list has as many labels as values and an index in range, setting one by key to
  any text (known or not) keeps that, and an option announced as \<open>Name; a|b|c\<close> has exactly that name
  and those values.\<close>

theorem core_options_ok:
  assumes "\<forall>d \<in> set defs. def_values d \<noteq> []" and "OptionList_vars vars = Some vl"
    and "CHR '';'' \<notin> set nm" and "vs \<noteq> []" and "\<forall>v \<in> set vs. CHR ''|'' \<notin> set v"
  shows "(\<forall>x \<in> set (options (OptionList_setOptionValue k v (OptionList_init defs))). option_ok x)
       \<and> (\<forall>x \<in> set (options (OptionList_setOptionValue k v vl)). option_ok x)
       \<and> parse_var (nm @ ''; '' @ join_bar vs) = Some (Some nm, vs)"
proof (intro conjI)
  have "\<forall>x \<in> set (options (OptionList_init defs)). option_ok x"
    using assms(1) by (simp add: OptionList_init_def init_option_ok)
  then show "\<forall>x \<in> set (options (OptionList_setOptionValue k v (OptionList_init defs))). option_ok x"
    unfolding OptionList_setOptionValue_def by (intro update_option_ok) (simp_all add: Option_setValue_ok)
  have "\<forall>x \<in> set (options vl). option_ok x"
    using assms(2) by (force simp: OptionList_vars_def Let_def split: if_splits intro: var_option_ok)
  then show "\<forall>x \<in> set (options (OptionList_setOptionValue k v vl)). option_ok x"
    unfolding OptionList_setOptionValue_def by (intro update_option_ok) (simp_all add: Option_setValue_ok)
  show "parse_var (nm @ ''; '' @ join_bar vs) = Some (Some nm, vs)"
    using strchr_append [OF assms(3), of "'' '' @ join_bar vs"] split_join_bar [OF assms(4,5)]
    by (simp add: parse_var_def)
qed

theorem core_options_ok_witness:
  "parse_var (''Region'' @ ''; '' @ join_bar [''Auto'', ''PAL'']) = Some (Some ''Region'', [''Auto'', ''PAL''])"
  by (rule core_options_ok [THEN conjunct2, THEN conjunct2, of "[]" "[]"]) (simp_all add: OptionList_vars_def)

end
