(* ===== verification/Config.thy ===== *)
theory Config
  imports Options
begin

text \<open>
  The configuration of the emulator frontend (\<open>minarch/minarch.c\<close>, lines 618 to 1277 and 1544 to 1557):
  frontend options and the variables they set, the button mappings of the core and the shortcuts,
  and the files they are read from and written to. A configuration file has a line
  \<open>key = value\<close> per option and \<open>bind name = button\<close> per mapping; system, default and user files are
  read in this order.

  The fixed inputs of a session are the record \<open>session\<close>: the configuration folder, the game's name,
  the core's tag, the platform, and the environment variable \<open>DEVICE\<close>. \<open>None\<close> as a result stands for
  an access out of bounds.
\<close>

record session =
  config_dir :: string
  game_name :: string
  core_tag :: string
  platform :: string
  device_tag :: "string option"

record ButtonMapping =
  bname :: string
  retro :: int
  local :: int
  bmod :: bool
  bdefault :: int
  bignore :: bool

datatype loaded = CONFIG_NONE | CONFIG_CONSOLE | CONFIG_GAME

record config =
  frontend :: OptionList
  core_options :: OptionList
  controls :: "ButtonMapping list"
  shortcuts :: "ButtonMapping list"
  loaded_cfg :: loaded
  initialized :: bool
  system_cfg :: "string option"
  default_cfg :: "string option"
  user_cfg :: "string option"
  screen_scaling :: nat
  screen_sharpness :: nat
  gfx_sharpness :: nat
  screen_effect :: nat
  prevent_tearing :: nat
  overclock :: nat
  show_debug :: nat
  max_ff_speed :: nat
  thread_video :: bool
  was_threaded :: bool
  toggle_thread :: bool
  has_custom_controllers :: bool
  gamepad_type :: int
  port_device :: int
  cfs :: fs

subsection \<open>Tables\<close>

definition LOCAL_BUTTON_COUNT :: nat where "LOCAL_BUTTON_COUNT = 16"
definition RETRO_BUTTON_COUNT :: nat where "RETRO_BUTTON_COUNT = 16"

definition device_buttons :: "string list" where
  "device_buttons = [''UP'', ''DOWN'', ''LEFT'', ''RIGHT'', ''A'', ''B'', ''X'', ''Y'', ''START'', ''SELECT'',
     ''L1'', ''R1'', ''L2'', ''R2'', ''L3'', ''R3'']"

definition button_labels :: "string list" where
  "button_labels = ''NONE'' # device_buttons @ map (\<lambda>b. ''MENU+'' @ b) device_buttons"

definition retro_ids :: "int list" where
  \<comment> \<open>\<open>RETRO_DEVICE_ID_JOYPAD_\<close> of the device's buttons in their order\<close>
  "retro_ids = [4, 5, 6, 7, 8, 0, 9, 1, 3, 2, 10, 11, 12, 13, 14, 15]"

definition button_label_mapping :: "(string \<times> int \<times> int) list" where
  "button_label_mapping = (''NONE'', - 1, - 1) #
     map (\<lambda>i. (device_buttons ! i, retro_ids ! i, int i)) [0..<16]"

definition frontend_option :: "string \<Rightarrow> nat \<Rightarrow> string list \<Rightarrow> Option" where
  "frontend_option k d vs = \<lparr>key = k, oname = None, default_value = d, val = d, lock = False, vals = vs, labels = vs\<rparr>"

definition frontend_options :: "bool \<Rightarrow> Option list" where
  \<comment> \<open>\<open>overscan\<close>: whether the platform can crop\<close>
  "frontend_options overscan =
     [frontend_option ''minarch_screen_scaling'' 1
        ([''Native'', ''Aspect'', ''Fullscreen''] @ (if overscan then [''Cropped''] else [])),
      frontend_option ''minarch_screen_effect'' 0 [''None'', ''Line'', ''Grid''],
      frontend_option ''minarch_screen_sharpness'' 2 [''Sharp'', ''Crisp'', ''Soft''],
      frontend_option ''minarch_prevent_tearing'' 1 [''Off'', ''Lenient'', ''Strict''],
      frontend_option ''minarch_cpu_speed'' 1 [''Powersave'', ''Normal'', ''Performance''],
      frontend_option ''minarch_thread_video'' 0 [''Off'', ''On''],
      frontend_option ''minarch_debug_hud'' 0 [''Off'', ''On''],
      frontend_option ''minarch_max_ff_speed'' 3 [''None'', ''2x'', ''3x'', ''4x'', ''5x'', ''6x'', ''7x'', ''8x'']]"

definition shortcut_names :: "string list" where
  "shortcut_names = [''Save State'', ''Load State'', ''Reset Game'', ''Save & Quit'', ''Cycle Scaling'',
     ''Cycle Effect'', ''Toggle FF'', ''Hold FF'']"

definition gamepad_values :: "string list" where "gamepad_values = [''1'', ''517'']"

subsection \<open>Frontend options\<close>

definition sync_variable :: "nat \<Rightarrow> nat \<Rightarrow> config \<Rightarrow> config" where
  \<comment> \<open>the variable behind frontend option \<open>i\<close>\<close>
  "sync_variable i v c =
     (if i = 0 then
        (let c = c\<lparr>screen_scaling := v\<rparr> in
         c\<lparr>gfx_sharpness := (if screen_scaling c = 0 then 0 else screen_sharpness c)\<rparr>)
      else if i = 1 then c\<lparr>screen_effect := v\<rparr>
      else if i = 2 then
        (let c = c\<lparr>screen_sharpness := v\<rparr> in
         c\<lparr>gfx_sharpness := (if screen_scaling c = 0 then 0 else screen_sharpness c)\<rparr>)
      else if i = 3 then c\<lparr>prevent_tearing := v\<rparr>
      else if i = 4 then c\<lparr>overclock := v\<rparr>
      else if i = 5 then
        c\<lparr>toggle_thread := ((if thread_video c \<or> was_threaded c then 1 else 0) \<noteq> v)\<rparr>
      else if i = 6 then c\<lparr>show_debug := v\<rparr>
      else if i = 7 then c\<lparr>max_ff_speed := v\<rparr>
      else c)"

definition set_val :: "nat \<Rightarrow> nat \<Rightarrow> OptionList \<Rightarrow> OptionList" where
  "set_val i v l = l\<lparr>options := (options l)[i := (options l ! i)\<lparr>val := v\<rparr>]\<rparr>"

definition Config_syncFrontend :: "string \<Rightarrow> nat \<Rightarrow> config \<Rightarrow> config" where
  "Config_syncFrontend k v c =
     (case option_index (options (frontend c)) k of
        None \<Rightarrow> c
      | Some i \<Rightarrow> (let c = sync_variable i v c in c\<lparr>frontend := set_val i v (frontend c)\<rparr>))"

subsection \<open>Reading\<close>

definition set_lock :: "nat \<Rightarrow> bool \<Rightarrow> OptionList \<Rightarrow> OptionList" where
  "set_lock i b l = l\<lparr>options := (options l)[i := (options l ! i)\<lparr>lock := b\<rparr>]\<rparr>"

definition read_frontend :: "string \<Rightarrow> nat \<Rightarrow> config \<Rightarrow> config" where
  "read_frontend cfg i c =
     (let item = options (frontend c) ! i;
          (v, b) = Config_getValue cfg (key item) (lock item);
          c = c\<lparr>frontend := set_lock i b (frontend c)\<rparr>
      in case v of
           None \<Rightarrow> c
         | Some _ \<Rightarrow>
             (let c = c\<lparr>frontend := OptionList_setOptionValue (key item) v (frontend c)\<rparr>
              in Config_syncFrontend (key item) (val (options (frontend c) ! i)) c))"

definition read_core :: "string \<Rightarrow> nat \<Rightarrow> config \<Rightarrow> config" where
  "read_core cfg i c =
     (let item = options (core_options c) ! i;
          (v, b) = Config_getValue cfg (key item) (lock item);
          c = c\<lparr>core_options := set_lock i b (core_options c)\<rparr>
      in case v of
           None \<Rightarrow> c
         | Some _ \<Rightarrow> c\<lparr>core_options := OptionList_setOptionValue (key item) v (core_options c)\<rparr>)"

definition read_gamepad :: "string \<Rightarrow> config \<Rightarrow> config option" where
  "read_gamepad cfg c =
     (if has_custom_controllers c then
        (case Config_getValue cfg ''minarch_gamepad_type'' False of
           (None, _) \<Rightarrow> Some c
         | (Some v, _) \<Rightarrow>
             (let t = scan_int v in
              if 0 \<le> t \<and> t < int (length gamepad_values)
              then Some (c\<lparr>gamepad_type := t, port_device := scan_int (gamepad_values ! nat t)\<rparr>)
              else None))
      else Some c)"

definition Config_readOptionsString :: "string option \<Rightarrow> config \<Rightarrow> config option" where
  "Config_readOptionsString cfg c =
     (case cfg of
        None \<Rightarrow> Some c
      | Some s \<Rightarrow>
          (let c = fold (read_frontend s) [0..<length (options (frontend c))] c in
           map_option (\<lambda>c. fold (read_core s) [0..<length (options (core_options c))] c)
             (read_gamepad s c)))"

definition label_binding :: "string \<Rightarrow> int \<times> bool" where
  "label_binding v =
     (let i = (case index_of button_labels v of Some j \<Rightarrow> int j - 1 | None \<Rightarrow> - 1) in
      if i \<ge> int LOCAL_BUTTON_COUNT then (i - int LOCAL_BUTTON_COUNT, True) else (i, False))"

definition cut_colon :: "string \<Rightarrow> string" where
  "cut_colon v = (case strrchr v (CHR '':'') of Some i \<Rightarrow> take i v | None \<Rightarrow> v)"

definition read_mapping :: "bool \<Rightarrow> string \<Rightarrow> ButtonMapping \<Rightarrow> ButtonMapping" where
  \<comment> \<open>controls drop a \<open>:retro\<close> suffix, shortcuts do not\<close>
  "read_mapping colon cfg m =
     (case Config_getValue cfg (''bind '' @ bname m) False of
        (None, _) \<Rightarrow> m
      | (Some v, _) \<Rightarrow>
          (case label_binding (if colon then cut_colon v else v) of
             (i, md) \<Rightarrow> m\<lparr>local := i, bmod := md\<rparr>))"

definition Config_readControlsString :: "string option \<Rightarrow> config \<Rightarrow> config" where
  "Config_readControlsString cfg c =
     (case cfg of
        None \<Rightarrow> c
      | Some s \<Rightarrow> c\<lparr>controls := map (read_mapping True s) (controls c),
                   shortcuts := map (read_mapping False s) (shortcuts c)\<rparr>)"

definition lookup_label :: "string \<Rightarrow> (int \<times> int) option" where
  \<comment> \<open>the libretro and device ids of a button's name\<close>
  "lookup_label s = map_of button_label_mapping s"

definition init_mapping :: "string \<Rightarrow> string \<Rightarrow> ButtonMapping" where
  \<comment> \<open>\<open>bind name = button\<close> or \<open>bind name = button:as\<close>\<close>
  "init_mapping name button_id =
     (let as = (case strrchr button_id (CHR '':'') of
                  None \<Rightarrow> - 1
                | Some i \<Rightarrow> (case lookup_label (drop (Suc i) button_id) of Some (r, _) \<Rightarrow> r | None \<Rightarrow> - 1));
          (r, l) = (case lookup_label (cut_colon button_id) of
                      Some (r, l) \<Rightarrow> (if as = - 1 then r else as, l) | None \<Rightarrow> (as, - 1))
      in \<lparr>bname = name, retro = r, local = l, bmod = False, bdefault = 0, bignore = False\<rparr>)"

function init_binds :: "string \<Rightarrow> ButtonMapping list" where
  "init_binds tmp =
     (case strstr tmp ''bind '' of
        None \<Rightarrow> []
      | Some i \<Rightarrow>
          (let k = drop (i + 5) tmp in
           case strstr k key_separator of
             None \<Rightarrow> []
           | Some j \<Rightarrow>
               (let rest = drop (j + 3) k;
                    button_id = line_value (take 127 rest)
                in init_mapping (take j k) button_id
                   # init_binds (drop (length (cut_colon button_id)) rest))))"
  by pat_completeness auto
termination
proof (relation "measure length", goal_cases)
  case (2 tmp i k j rest b)
  then have "i + 5 \<le> length tmp" using strstr_Some [of tmp "''bind ''" i] by simp
  then have "length rest < length tmp" using 2 by simp
  then show ?case by simp
qed simp

declare init_binds.simps [simp del]

definition Config_init :: "config \<Rightarrow> ButtonMapping list option" where
  \<comment> \<open>\<open>core_button_mapping\<close>; \<open>None\<close>: more mappings or longer names than its arrays hold\<close>
  "Config_init c =
     (case default_cfg c of
        None \<Rightarrow> Some []
      | Some s \<Rightarrow>
          if initialized c then Some []
          else (let ms = init_binds s in
                if length ms > RETRO_BUTTON_COUNT \<or> (\<exists>m \<in> set ms. length (bname m) \<ge> 128) then None else Some ms))"

subsection \<open>Files\<close>

definition Config_getPath :: "session \<Rightarrow> bool \<Rightarrow> string" where
  "Config_getPath e override =
     (let tag = (case device_tag e of None \<Rightarrow> [] | Some t \<Rightarrow> snprintf_buf 64 (''-'' @ t)) in
      if override then config_dir e @ ''/'' @ game_name e @ tag @ ''.cfg''
      else config_dir e @ ''/minarch'' @ tag @ ''.cfg'')"

definition first_file :: "fs \<Rightarrow> string option \<Rightarrow> string \<Rightarrow> string option" where
  \<comment> \<open>the device's own file if there is one, else the common one\<close>
  "first_file fs device_path common_path =
     (case device_path of
        Some p \<Rightarrow> if exists fs p then allocFile fs p
                  else if exists fs common_path then allocFile fs common_path else None
      | None \<Rightarrow> if exists fs common_path then allocFile fs common_path else None)"

definition Config_load :: "session \<Rightarrow> config \<Rightarrow> config" where
  "Config_load e c =
     (let fs = cfs c;
          sys = SDCARD_PATH @ ''/.system/'' @ platform e;
          emu = (let p = getEmuPath fs (platform e) (core_tag e) in
                 case strrchr p (CHR ''/'') of Some i \<Rightarrow> take i p | None \<Rightarrow> p);
          c = c\<lparr>system_cfg := first_file fs (map_option (\<lambda>t. sys @ ''/system-'' @ t @ ''.cfg'') (device_tag e))
                                (sys @ ''/system.cfg'')\<rparr>;
          c = c\<lparr>default_cfg := first_file fs
                  (map_option (\<lambda>t. emu @ snprintf_buf 64 (''/default-'' @ t @ ''.cfg'')) (device_tag e))
                  (emu @ ''/default.cfg'')\<rparr>;
          c = c\<lparr>loaded_cfg := CONFIG_NONE\<rparr>;
          override = exists fs (Config_getPath e True);
          c = c\<lparr>user_cfg := allocFile fs (Config_getPath e override)\<rparr>
      in if user_cfg c = None then c
         else c\<lparr>loaded_cfg := (if override then CONFIG_GAME else CONFIG_CONSOLE)\<rparr>)"

definition Config_readOptions :: "config \<Rightarrow> config option" where
  "Config_readOptions c =
     Option.bind (Config_readOptionsString (system_cfg c) c) (\<lambda>c.
     Option.bind (Config_readOptionsString (default_cfg c) c) (\<lambda>c.
     Config_readOptionsString (user_cfg c) c))"

definition Config_readControls :: "config \<Rightarrow> config" where
  "Config_readControls c = (let c = Config_readControlsString (default_cfg c) c in
     Config_readControlsString (user_cfg c) c)"

definition option_line :: "Option \<Rightarrow> (string \<times> string) option" where
  "option_line item = map_option (\<lambda>v. (key item, v)) (option_value item)"

definition mapping_line :: "ButtonMapping \<Rightarrow> (string \<times> string) option" where
  "mapping_line m =
     (let j = local m + 1 + (if bmod m then int LOCAL_BUTTON_COUNT else 0) in
      if 0 \<le> j \<and> j < int (length button_labels)
      then Some (''bind '' @ bname m, button_labels ! nat j) else None)"

definition config_lines :: "config \<Rightarrow> (string \<times> string) option list" where
  "config_lines c =
     map option_line (options (frontend c)) @ map option_line (options (core_options c))
     @ (if has_custom_controllers c then [Some (''minarch_gamepad_type'', dec_int (gamepad_type c))] else [])
     @ map mapping_line (controls c) @ map mapping_line (shortcuts c)"

definition pair_line :: "string \<times> string \<Rightarrow> string" where
  "pair_line kv = fst kv @ key_separator @ snd kv"

definition Config_write :: "session \<Rightarrow> bool \<Rightarrow> config \<Rightarrow> config option" where
  "Config_write e override c =
     (let path = Config_getPath e True;
          c = (if \<not> override \<and> loaded_cfg c = CONFIG_GAME then c\<lparr>cfs := unlink path (cfs c)\<rparr> else c);
          path = (if override then path else Config_getPath e False);
          c = c\<lparr>loaded_cfg := (if override then CONFIG_GAME else CONFIG_CONSOLE)\<rparr>
      in if \<not> fopen_w (cfs c) path then Some c
         else if None \<in> set (config_lines c) then None
         else Some (c\<lparr>cfs := putFile path (write_lines (map (\<lambda>l. pair_line (the l)) (config_lines c))) (cfs c)\<rparr>))"

definition restore_frontend :: "nat \<Rightarrow> config \<Rightarrow> config" where
  "restore_frontend i c =
     (let item = options (frontend c) ! i;
          c = c\<lparr>frontend := set_val i (default_value item) (frontend c)\<rparr>
      in Config_syncFrontend (key item) (default_value item) c)"

definition Config_restore :: "session \<Rightarrow> config \<Rightarrow> config option" where
  "Config_restore e c =
     (let c = (case loaded_cfg c of
                 CONFIG_GAME \<Rightarrow> c\<lparr>cfs := unlink (Config_getPath e True) (cfs c)\<rparr>
               | CONFIG_CONSOLE \<Rightarrow> c\<lparr>cfs := unlink (Config_getPath e False) (cfs c)\<rparr>
               | CONFIG_NONE \<Rightarrow> c);
          c = c\<lparr>loaded_cfg := CONFIG_NONE\<rparr>;
          c = fold restore_frontend [0..<length (options (frontend c))] c;
          c = c\<lparr>core_options := \<lparr>options = map (\<lambda>x. x\<lparr>val := default_value x\<rparr>) (options (core_options c)),
                              changed = True\<rparr>\<rparr>;
          c = (if has_custom_controllers c then c\<lparr>gamepad_type := 0, port_device := 1\<rparr> else c);
          c = c\<lparr>controls := map (\<lambda>m. m\<lparr>local := bdefault m, bmod := False\<rparr>) (controls c),
               shortcuts := map (\<lambda>m. m\<lparr>local := - 1, bmod := False\<rparr>) (shortcuts c)\<rparr>;
          c = Config_load e c
      in map_option Config_readControls (Config_readOptions c))"

subsection \<open>Facts\<close>

definition apart :: "(string \<times> string) list \<Rightarrow> bool" where
  \<comment> \<open>no key occurs in an earlier line\<close>
  "apart kvs \<longleftrightarrow> (\<forall>j < length kvs. \<forall>i < j. strstr (pair_line (kvs ! i)) (fst (kvs ! j)) = None)"

definition good_pair :: "string \<times> string \<Rightarrow> bool" where
  "good_pair kv \<longleftrightarrow> fst kv \<noteq> [] \<and> char_newline \<notin> set (fst kv) \<and> char_newline \<notin> set (snd kv) \<and> length (snd kv) < 255"

lemma Config_getValue_pairs:
  assumes "apart kvs" and "\<forall>kv \<in> set kvs. good_pair kv" and "j < length kvs"
  shows "Config_getValue (write_lines (map pair_line kvs)) (fst (kvs ! j)) b = (Some (snd (kvs ! j)), b)"
proof -
  let ?before = "map pair_line (take j kvs)" and ?after = "map pair_line (drop (Suc j) kvs)"
  have split: "map pair_line kvs = ?before @ pair_line (kvs ! j) # ?after"
    using assms(3) by (metis id_take_nth_drop map_append list.simps(9))
  have "\<forall>l \<in> set ?before. strstr l (fst (kvs ! j)) = None"
  proof
    fix l
    assume "l \<in> set ?before"
    then obtain i where "i < j" "l = pair_line (kvs ! i)" using assms(3) by (auto simp: in_set_conv_nth)
    with assms(1,3) show "strstr l (fst (kvs ! j)) = None" by (simp add: apart_def)
  qed
  moreover have "good_pair (kvs ! j)" using assms(2,3) by simp
  ultimately show ?thesis
    unfolding split by (simp add: pair_line_def good_pair_def Config_getValue_at(1))
qed

lemma Config_getValue_pair:
  assumes "apart kvs" and "\<forall>kv \<in> set kvs. good_pair kv" and "(k, v) \<in> set kvs"
  shows "Config_getValue (write_lines (map pair_line kvs)) k b = (Some v, b)"
proof -
  obtain j where "j < length kvs" "kvs ! j = (k, v)" using assms(3) by (auto simp: in_set_conv_nth)
  then show ?thesis using Config_getValue_pairs [OF assms(1,2), of j b] by simp
qed

text \<open>Reading one option's line sets that option and no other.\<close>

lemma set_lock_same: "i < length (options l) \<Longrightarrow> set_lock i (lock (options l ! i)) l = l"
  by (simp add: set_lock_def list_update_same_conv)

lemma setOptionValue_nth:
  assumes "distinct (map key (options l))" and "i < length (options l)"
    and "distinct (vals (options l ! i))" and "n < length (vals (options l ! i))"
  shows "options (OptionList_setOptionValue (key (options l ! i)) (Some (vals (options l ! i) ! n)) l)
         = (options l)[i := (options l ! i)\<lparr>val := n\<rparr>]"
  using assms
  by (simp add: OptionList_setOptionValue_def update_option_def option_index_nth Option_setValue_def
      Option_getValueIndex_def index_of_nth)

lemma read_core_nth:
  assumes "distinct (map key (options (core_options c)))" and "i < length (options (core_options c))"
    and "distinct (vals (options (core_options c) ! i))" and "n < length (vals (options (core_options c) ! i))"
    and "\<And>b. Config_getValue cfg (key (options (core_options c) ! i)) b = (Some (vals (options (core_options c) ! i) ! n), b)"
  shows "options (core_options (read_core cfg i c)) = (options (core_options c))[i := (options (core_options c) ! i)\<lparr>val := n\<rparr>]"
  using assms by (simp add: read_core_def Let_def set_lock_same setOptionValue_nth)

lemma read_core_others:
  "frontend (read_core cfg i c) = frontend c" "controls (read_core cfg i c) = controls c"
  "shortcuts (read_core cfg i c) = shortcuts c" "gamepad_type (read_core cfg i c) = gamepad_type c"
  by (simp_all add: read_core_def Let_def split: prod.splits option.splits)

lemma sync_variable_others:
  "frontend (sync_variable i v c) = frontend c" "core_options (sync_variable i v c) = core_options c"
  "controls (sync_variable i v c) = controls c" "shortcuts (sync_variable i v c) = shortcuts c"
  "gamepad_type (sync_variable i v c) = gamepad_type c"
  "has_custom_controllers (sync_variable i v c) = has_custom_controllers c"
  by (simp_all add: sync_variable_def Let_def)

lemma syncFrontend_others:
  "core_options (Config_syncFrontend k v c) = core_options c"
  "controls (Config_syncFrontend k v c) = controls c" "shortcuts (Config_syncFrontend k v c) = shortcuts c"
  "gamepad_type (Config_syncFrontend k v c) = gamepad_type c"
  "has_custom_controllers (Config_syncFrontend k v c) = has_custom_controllers c"
  by (simp_all add: Config_syncFrontend_def Let_def sync_variable_others split: option.split)

lemma syncFrontend_nth:
  assumes "distinct (map key (options (frontend c)))" and "i < length (options (frontend c))"
  shows "options (frontend (Config_syncFrontend (key (options (frontend c) ! i)) v c))
         = (options (frontend c))[i := (options (frontend c) ! i)\<lparr>val := v\<rparr>]"
  using assms by (simp add: Config_syncFrontend_def option_index_nth set_val_def sync_variable_others Let_def)

lemma read_frontend_others:
  "core_options (read_frontend cfg i c) = core_options c"
  "controls (read_frontend cfg i c) = controls c" "shortcuts (read_frontend cfg i c) = shortcuts c"
  "has_custom_controllers (read_frontend cfg i c) = has_custom_controllers c"
  by (simp_all add: read_frontend_def Let_def syncFrontend_others split: prod.splits option.splits)

lemma read_frontend_nth:
  assumes "distinct (map key (options (frontend c)))" and "i < length (options (frontend c))"
    and "distinct (vals (options (frontend c) ! i))" and "n < length (vals (options (frontend c) ! i))"
    and "\<And>b. Config_getValue cfg (key (options (frontend c) ! i)) b = (Some (vals (options (frontend c) ! i) ! n), b)"
  shows "options (frontend (read_frontend cfg i c)) = (options (frontend c))[i := (options (frontend c) ! i)\<lparr>val := n\<rparr>]"
proof -
  let ?os = "options (frontend c)"
  let ?c = "c\<lparr>frontend := OptionList_setOptionValue (key (?os ! i)) (Some (vals (?os ! i) ! n)) (frontend c)\<rparr>"
  have os: "options (frontend ?c) = ?os[i := (?os ! i)\<lparr>val := n\<rparr>]"
    using setOptionValue_nth [OF assms(1-4)] by simp
  have keys: "map key (options (frontend ?c)) = map key ?os"
    unfolding os using assms(2) by (simp add: map_update list_update_same_conv)
  have "read_frontend cfg i c = Config_syncFrontend (key (?os ! i)) n ?c"
    using assms(2,5) os by (simp add: read_frontend_def Let_def set_lock_same)
  moreover have "key (options (frontend ?c) ! i) = key (?os ! i)" unfolding os using assms(2) by simp
  ultimately show ?thesis
    using syncFrontend_nth [of ?c i n] keys assms(1,2) unfolding os by simp
qed

text \<open>What a configuration file says has no effect on the shape of an option list: its keys and the
  values they may have.\<close>

definition shape :: "OptionList \<Rightarrow> (string \<times> string list) list" where
  "shape l = map (\<lambda>x. (key x, vals x)) (options l)"

definition option_values :: "OptionList \<Rightarrow> nat list" where
  "option_values l = map val (options l)"

lemma shape_length: "shape l = shape l' \<Longrightarrow> length (options l) = length (options l')"
  by (metis length_map shape_def)

lemma shape_nth:
  "shape l = shape l' \<Longrightarrow> i < length (options l) \<Longrightarrow>
   key (options l ! i) = key (options l' ! i) \<and> vals (options l ! i) = vals (options l' ! i)"
  using shape_length [of l l'] unfolding shape_def by (metis (no_types, lifting) nth_map prod.inject)

lemma shape_keys: "shape l = shape l' \<Longrightarrow> map key (options l) = map key (options l')"
  unfolding shape_def by (metis (no_types, lifting) comp_def fst_conv list.map_comp map_eq_conv)

lemma shape_update:
  assumes "\<And>x. key (f x) = key x \<and> vals (f x) = vals x"
  shows "map (\<lambda>x. (key x, vals x)) (xs[i := f (xs ! i)]) = map (\<lambda>x. (key x, vals x)) xs"
  using assms by (cases "i < length xs") (simp_all add: map_update list_update_same_conv list_update_beyond)

lemma set_lock_shape [simp]: "shape (set_lock i b l) = shape l"
  unfolding set_lock_def shape_def using shape_update [of "\<lambda>x. x\<lparr>lock := b\<rparr>"] by simp

lemma set_val_shape [simp]: "shape (set_val i v l) = shape l"
  unfolding set_val_def shape_def using shape_update [of "\<lambda>x. x\<lparr>val := v\<rparr>"] by simp

lemma setOptionValue_shape [simp]: "shape (OptionList_setOptionValue k v l) = shape l"
  using shape_update [of "Option_setValue v"]
  by (simp add: OptionList_setOptionValue_def update_option_def shape_def Option_setValue_def split: option.split)

lemma read_core_shape: "shape (core_options (read_core cfg i c)) = shape (core_options c)"
  by (simp add: read_core_def Let_def split: prod.splits option.splits)

lemma syncFrontend_shape: "shape (frontend (Config_syncFrontend k v c)) = shape (frontend c)"
  by (simp add: Config_syncFrontend_def Let_def sync_variable_others split: option.split)

lemma read_frontend_shape: "shape (frontend (read_frontend cfg i c)) = shape (frontend c)"
  by (simp add: read_frontend_def Let_def syncFrontend_shape split: prod.splits option.splits)

text \<open>What the reading of options leaves alone.\<close>

definition rest_of :: "config \<Rightarrow> ButtonMapping list \<times> ButtonMapping list \<times> bool \<times> (string option \<times> string option \<times> string option) \<times> loaded" where
  "rest_of c = (controls c, shortcuts c, has_custom_controllers c, (system_cfg c, default_cfg c, user_cfg c), loaded_cfg c)"

lemma sync_variable_rest: "rest_of (sync_variable i v c) = rest_of c"
  by (simp add: sync_variable_def rest_of_def Let_def)

lemma rest_of_update [simp]:
  "rest_of (c\<lparr>frontend := x\<rparr>) = rest_of c" "rest_of (c\<lparr>core_options := x\<rparr>) = rest_of c"
  "rest_of (c\<lparr>gamepad_type := t, port_device := d\<rparr>) = rest_of c"
  by (simp_all add: rest_of_def)

lemma syncFrontend_rest: "rest_of (Config_syncFrontend k v c) = rest_of c"
  by (simp add: Config_syncFrontend_def Let_def sync_variable_rest split: option.split)

lemma read_frontend_rest: "rest_of (read_frontend cfg i c) = rest_of c"
  by (simp add: read_frontend_def Let_def syncFrontend_rest split: prod.splits option.splits)

lemma read_core_rest: "rest_of (read_core cfg i c) = rest_of c"
  by (simp add: read_core_def Let_def split: prod.splits option.splits)

lemma read_gamepad_rest:
  "read_gamepad cfg c = Some c' \<Longrightarrow>
   rest_of c' = rest_of c \<and> frontend c' = frontend c \<and> core_options c' = core_options c"
  by (auto simp: read_gamepad_def Let_def split: if_splits prod.splits option.splits)

lemma fold_read_frontend_frame:
  "rest_of (fold (read_frontend cfg) is c) = rest_of c
   \<and> shape (frontend (fold (read_frontend cfg) is c)) = shape (frontend c)
   \<and> core_options (fold (read_frontend cfg) is c) = core_options c"
  by (induction "is" arbitrary: c) (simp_all add: read_frontend_rest read_frontend_shape read_frontend_others)

lemma fold_read_core_frame:
  "rest_of (fold (read_core cfg) is c) = rest_of c
   \<and> shape (core_options (fold (read_core cfg) is c)) = shape (core_options c)
   \<and> frontend (fold (read_core cfg) is c) = frontend c
   \<and> gamepad_type (fold (read_core cfg) is c) = gamepad_type c"
  by (induction "is" arbitrary: c) (simp_all add: read_core_rest read_core_shape read_core_others)

lemma readOptionsString_frame:
  assumes "Config_readOptionsString cfg c = Some c'"
  shows "rest_of c' = rest_of c \<and> shape (frontend c') = shape (frontend c)
         \<and> shape (core_options c') = shape (core_options c)"
proof (cases cfg)
  case None
  then show ?thesis using assms by (simp add: Config_readOptionsString_def)
next
  case (Some s)
  let ?c1 = "fold (read_frontend s) [0..<length (options (frontend c))] c"
  from assms Some obtain c2 where c2: "read_gamepad s ?c1 = Some c2"
    "c' = fold (read_core s) [0..<length (options (core_options c2))] c2"
    by (auto simp: Config_readOptionsString_def)
  then show ?thesis
    using read_gamepad_rest [OF c2(1)] fold_read_frontend_frame [of s _ c] fold_read_core_frame [of s _ c2] by simp
qed

text \<open>Reading the lines that an option list was written as sets its values again.\<close>

definition listed :: "OptionList \<Rightarrow> bool" where
  \<comment> \<open>the options are found by their keys, the values by their texts\<close>
  "listed l \<longleftrightarrow> distinct (map key (options l)) \<and> (\<forall>x \<in> set (options l). option_ok x \<and> distinct (vals x))"

definition says :: "string \<Rightarrow> OptionList \<Rightarrow> bool" where
  "says cfg l \<longleftrightarrow> (\<forall>x \<in> set (options l). \<forall>b. Config_getValue cfg (key x) b = (Some (vals x ! val x), b))"

lemma read_nth_facts:
  assumes "listed l" and "says cfg l" and "shape l' = shape l" and "k < length (options l)"
  shows "distinct (map key (options l'))" and "k < length (options l')" and "distinct (vals (options l' ! k))"
    and "val (options l ! k) < length (vals (options l' ! k))"
    and "\<And>b. Config_getValue cfg (key (options l' ! k)) b = (Some (vals (options l' ! k) ! val (options l ! k)), b)"
proof -
  have k: "k < length (options l')" using assms(3,4) shape_length by metis
  then have eq: "key (options l' ! k) = key (options l ! k)" "vals (options l' ! k) = vals (options l ! k)"
    using shape_nth [OF assms(3)] by blast+
  have "options l ! k \<in> set (options l)" using assms(4) by simp
  then show "distinct (vals (options l' ! k))" "val (options l ! k) < length (vals (options l' ! k))"
    "\<And>b. Config_getValue cfg (key (options l' ! k)) b = (Some (vals (options l' ! k) ! val (options l ! k)), b)"
    using assms(1,2) unfolding eq listed_def says_def option_ok_def by blast+
  show "distinct (map key (options l'))"
    using assms(1) shape_keys [OF assms(3)] by (simp add: listed_def)
  show "k < length (options l')" by (rule k)
qed

lemma option_values_eq:
  assumes "shape l' = shape l" and "\<forall>i < length (options l). val (options l' ! i) = val (options l ! i)"
  shows "option_values l' = option_values l"
  using assms shape_length [OF assms(1)] by (simp add: option_values_def list_eq_iff_nth_eq)

lemma fold_read_frontend_values:
  assumes "listed l" and "says cfg l" and "shape (frontend c) = shape l"
  shows "option_values (frontend (fold (read_frontend cfg) [0..<length (options (frontend c))] c)) = option_values l"
proof -
  let ?P = "\<lambda>k c :: config. shape (frontend c) = shape l \<and> (\<forall>i < k. val (options (frontend c) ! i) = val (options l ! i))"
  have "?P (length (options l)) (fold (read_frontend cfg) [0..<length (options l)] c)"
  proof (rule fold_upt_inv [where P = ?P])
    fix k and c :: config assume k: "k < length (options l)" and "?P k c"
    then have "shape (frontend c) = shape l" "\<forall>i < k. val (options (frontend c) ! i) = val (options l ! i)" by auto
    note before = this and facts = read_nth_facts [OF assms(1,2) this(1) k]
    have "val (options (frontend (read_frontend cfg k c)) ! i) = val (options l ! i)" if "i < Suc k" for i
      unfolding read_frontend_nth [OF facts] using that before(2) facts(2) by (cases "i = k") simp_all
    then show "?P (Suc k) (read_frontend cfg k c)" unfolding read_frontend_shape using before(1) by blast
  qed (use assms(3) in simp)
  then show ?thesis unfolding shape_length [OF assms(3)] by (elim conjE) (rule option_values_eq)
qed

lemma fold_read_core_values:
  assumes "listed l" and "says cfg l" and "shape (core_options c) = shape l"
  shows "option_values (core_options (fold (read_core cfg) [0..<length (options (core_options c))] c)) = option_values l"
proof -
  let ?P = "\<lambda>k c :: config. shape (core_options c) = shape l \<and> (\<forall>i < k. val (options (core_options c) ! i) = val (options l ! i))"
  have "?P (length (options l)) (fold (read_core cfg) [0..<length (options l)] c)"
  proof (rule fold_upt_inv [where P = ?P])
    fix k and c :: config assume k: "k < length (options l)" and "?P k c"
    then have "shape (core_options c) = shape l" "\<forall>i < k. val (options (core_options c) ! i) = val (options l ! i)" by auto
    note before = this and facts = read_nth_facts [OF assms(1,2) this(1) k]
    have "val (options (core_options (read_core cfg k c)) ! i) = val (options l ! i)" if "i < Suc k" for i
      unfolding read_core_nth [OF facts] using that before(2) facts(2) by (cases "i = k") simp_all
    then show "?P (Suc k) (read_core cfg k c)" unfolding read_core_shape using before(1) by blast
  qed (use assms(3) in simp)
  then show ?thesis unfolding shape_length [OF assms(3)] by (elim conjE) (rule option_values_eq)
qed

text \<open>A mapping's label gives its binding back.\<close>

definition mapping_ok :: "ButtonMapping \<Rightarrow> bool" where
  "mapping_ok m \<longleftrightarrow> - 1 \<le> local m \<and> local m < int LOCAL_BUTTON_COUNT \<and> (bmod m \<longrightarrow> 0 \<le> local m)"

lemma button_labels_facts:
  "length button_labels = 33" "distinct button_labels" "\<forall>l \<in> set button_labels. CHR '':'' \<notin> set l"
  by code_simp+

lemma cut_colon_plain: "CHR '':'' \<notin> set v \<Longrightarrow> cut_colon v = v"
  by (simp add: cut_colon_def strrchr_None [THEN iffD2])

lemma mapping_line_binding:
  assumes "mapping_ok m"
  obtains l where "mapping_line m = Some (''bind '' @ bname m, l)" "label_binding l = (local m, bmod m)" "cut_colon l = l"
proof -
  define j where "j = nat (local m + 1 + (if bmod m then 16 else 0))"
  have j: "j < length button_labels" "int j = local m + 1 + (if bmod m then 16 else 0)"
    using assms by (auto simp: j_def mapping_ok_def button_labels_facts LOCAL_BUTTON_COUNT_def)
  have "mapping_line m = Some (''bind '' @ bname m, button_labels ! j)"
  proof -
    have "local m + 1 + (if bmod m then int LOCAL_BUTTON_COUNT else 0) = int j"
      using j(2) by (simp add: LOCAL_BUTTON_COUNT_def)
    then show ?thesis using j(1) unfolding mapping_line_def by (simp only: Let_def nat_int of_nat_less_iff if_True) simp
  qed
  moreover have "label_binding (button_labels ! j) = (local m, bmod m)"
    using j assms index_of_nth [OF button_labels_facts(2) j(1)]
    by (auto simp: label_binding_def Let_def mapping_ok_def LOCAL_BUTTON_COUNT_def)
  moreover have "cut_colon (button_labels ! j) = button_labels ! j"
    using j(1) button_labels_facts(3) by (simp add: cut_colon_plain)
  ultimately show thesis by (rule that)
qed

lemma read_mapping_back:
  assumes "mapping_ok m" and "bname m' = bname m"
    and "\<And>l. mapping_line m = Some (''bind '' @ bname m, l) \<Longrightarrow> Config_getValue s (''bind '' @ bname m) False = (Some l, False)"
  shows "local (read_mapping colon s m') = local m \<and> bmod (read_mapping colon s m') = bmod m"
proof -
  from assms(1) obtain l where l: "mapping_line m = Some (''bind '' @ bname m, l)"
    "label_binding l = (local m, bmod m)" "cut_colon l = l" by (rule mapping_line_binding)
  then show ?thesis using assms(2) assms(3) [OF l(1)] by (simp add: read_mapping_def)
qed

lemma read_mapping_name [simp]: "bname (read_mapping colon s m) = bname m"
  by (simp add: read_mapping_def split: option.split prod.split)

definition bindings :: "ButtonMapping list \<Rightarrow> (int \<times> bool) list" where
  "bindings ms = map (\<lambda>m. (local m, bmod m)) ms"

lemma read_mappings_back:
  assumes "\<forall>m \<in> set ms. mapping_ok m" and "map bname ms' = map bname ms"
    and "\<And>m l. m \<in> set ms \<Longrightarrow> mapping_line m = Some (''bind '' @ bname m, l) \<Longrightarrow>
           Config_getValue s (''bind '' @ bname m) False = (Some l, False)"
  shows "bindings (map (read_mapping colon s) ms') = bindings ms"
proof (rule nth_equalityI)
  show len: "length (bindings (map (read_mapping colon s) ms')) = length (bindings ms)"
    using arg_cong [OF assms(2), of length] by (simp add: bindings_def)
  fix i assume i: "i < length (bindings (map (read_mapping colon s) ms'))"
  then have "bname (ms' ! i) = bname (ms ! i)" "ms ! i \<in> set ms"
    using len arg_cong [OF assms(2), of "\<lambda>xs. xs ! i"] by (simp_all add: bindings_def)
  then have "local (read_mapping colon s (ms' ! i)) = local (ms ! i) \<and> bmod (read_mapping colon s (ms' ! i)) = bmod (ms ! i)"
    using assms(1,3) by (intro read_mapping_back) auto
  then show "bindings (map (read_mapping colon s) ms') ! i = bindings ms ! i"
    using i len by (simp add: bindings_def)
qed

text \<open>A configuration that its own file describes: options found by key, bindings of existing buttons, and
  no key inside an earlier line.\<close>

definition config_ok :: "config \<Rightarrow> bool" where
  "config_ok c \<longleftrightarrow> listed (frontend c) \<and> listed (core_options c)
     \<and> (\<forall>m \<in> set (controls c) \<union> set (shortcuts c). mapping_ok m)
     \<and> (has_custom_controllers c \<longrightarrow> 0 \<le> gamepad_type c \<and> gamepad_type c < int (length gamepad_values))
     \<and> apart (map the (config_lines c)) \<and> (\<forall>l \<in> set (config_lines c). good_pair (the l))"

definition config_text :: "config \<Rightarrow> string" where
  "config_text c = write_lines (map (\<lambda>l. pair_line (the l)) (config_lines c))"

lemma config_text_says:
  assumes "config_ok c" and "Some (k, v) \<in> set (config_lines c)"
  shows "Config_getValue (config_text c) k b = (Some v, b)"
proof -
  have "(k, v) \<in> set (map the (config_lines c))" using assms(2) by force
  then show ?thesis
    using Config_getValue_pair [of "map the (config_lines c)" k v b] assms(1)
    by (simp add: config_ok_def config_text_def comp_def)
qed

lemma config_text_options:
  assumes "config_ok c" and "listed l" and "set (map option_line (options l)) \<subseteq> set (config_lines c)"
  shows "says (config_text c) l"
  unfolding says_def
proof (intro ballI allI)
  fix x b assume x: "x \<in> set (options l)"
  then have "option_line x = Some (key x, vals x ! val x)"
    using assms(2) by (simp add: option_line_def option_value_def listed_def option_ok_def)
  then show "Config_getValue (config_text c) (key x) b = (Some (vals x ! val x), b)"
    using x assms(3) by (intro config_text_says [OF assms(1)]) (metis in_set_conv_nth imageI list.set_map subsetD)
qed

text \<open>A configuration as the same program would set it up again: the same options and mappings, with
  whatever values.\<close>

definition same_program :: "config \<Rightarrow> config \<Rightarrow> bool" where
  "same_program c c' \<longleftrightarrow> shape (frontend c') = shape (frontend c) \<and> shape (core_options c') = shape (core_options c)
     \<and> map bname (controls c') = map bname (controls c) \<and> map bname (shortcuts c') = map bname (shortcuts c)
     \<and> has_custom_controllers c' = has_custom_controllers c"

lemma read_gamepad_back:
  assumes "config_ok c" and "has_custom_controllers c' = has_custom_controllers c"
  shows "\<exists>c''. read_gamepad (config_text c) c' = Some c'' \<and>
           (has_custom_controllers c \<longrightarrow> gamepad_type c'' = gamepad_type c)"
proof (cases "has_custom_controllers c")
  case True
  then have "Config_getValue (config_text c) ''minarch_gamepad_type'' False = (Some (dec_int (gamepad_type c)), False)"
    by (intro config_text_says [OF assms(1)]) (simp add: config_lines_def)
  then show ?thesis
    using True assms by (simp add: read_gamepad_def scan_int_dec_int config_ok_def Let_def)
qed (use assms in \<open>simp add: read_gamepad_def\<close>)

lemma readOptionsString_back:
  assumes "config_ok c" and "same_program c c1"
  shows "\<exists>c2. Config_readOptionsString (Some (config_text c)) c1 = Some c2
         \<and> option_values (frontend c2) = option_values (frontend c)
         \<and> option_values (core_options c2) = option_values (core_options c)
         \<and> (has_custom_controllers c \<longrightarrow> gamepad_type c2 = gamepad_type c)"
proof -
  let ?s = "config_text c"
  let ?c1 = "fold (read_frontend ?s) [0..<length (options (frontend c1))] c1"
  have "listed (frontend c)" "listed (core_options c)" using assms(1) by (simp_all add: config_ok_def)
  moreover from this have "says ?s (frontend c)" "says ?s (core_options c)"
    using assms(1) by (auto intro!: config_text_options simp: config_lines_def)
  moreover note frame = fold_read_frontend_frame [of ?s "[0..<length (options (frontend c1))]" c1]
  then have "has_custom_controllers ?c1 = has_custom_controllers c"
    using assms(2) by (simp add: rest_of_def same_program_def)
  with read_gamepad_back [OF assms(1)] obtain c2 where c2: "read_gamepad ?s ?c1 = Some c2"
    "has_custom_controllers c \<longrightarrow> gamepad_type c2 = gamepad_type c" by blast
  note frame2 = read_gamepad_rest [OF c2(1)]
  ultimately show ?thesis
    using c2 frame frame2 assms(2) fold_read_core_frame [of ?s _ c2]
      fold_read_frontend_values [of "frontend c" ?s c1] fold_read_core_values [of "core_options c" ?s c2]
    by (simp add: Config_readOptionsString_def same_program_def)
qed

lemma readControlsString_back:
  assumes "config_ok c" and "map bname (controls c1) = map bname (controls c)"
    and "map bname (shortcuts c1) = map bname (shortcuts c)"
  shows "bindings (controls (Config_readControlsString (Some (config_text c)) c1)) = bindings (controls c)
       \<and> bindings (shortcuts (Config_readControlsString (Some (config_text c)) c1)) = bindings (shortcuts c)"
proof -
  have says: "Config_getValue (config_text c) (''bind '' @ bname m) False = (Some l, False)"
    if "m \<in> set (controls c) \<union> set (shortcuts c)" "mapping_line m = Some (''bind '' @ bname m, l)" for m l
  proof (rule config_text_says [OF assms(1)])
    have "mapping_line m \<in> set (config_lines c)" using that(1) by (auto simp: config_lines_def)
    then show "Some (''bind '' @ bname m, l) \<in> set (config_lines c)" by (simp only: that(2))
  qed
  have ok: "\<forall>m \<in> set (controls c) \<union> set (shortcuts c). mapping_ok m" using assms(1) by (simp add: config_ok_def)
  have "bindings (map (read_mapping True (config_text c)) (controls c1)) = bindings (controls c)"
    "bindings (map (read_mapping False (config_text c)) (shortcuts c1)) = bindings (shortcuts c)"
    using ok says by (auto intro!: read_mappings_back assms(2,3))
  then show ?thesis by (simp add: Config_readControlsString_def)
qed

text \<open>Where the file goes is where it is looked for.\<close>

lemma getPath_dirname:
  assumes "CHR ''/'' \<notin> set (game_name e)" and "\<forall>t. device_tag e = Some t \<longrightarrow> CHR ''/'' \<notin> set t"
  shows "dirname (Config_getPath e override) \<noteq> Config_getPath e override'"
proof -
  obtain n where "Config_getPath e override = config_dir e @ ''/'' @ n" "CHR ''/'' \<notin> set n"
    using assms by (cases "device_tag e"; cases override)
      (auto simp: Config_getPath_def Let_def snprintf_buf_def dest: in_set_takeD)
  then have "dirname (Config_getPath e override) = config_dir e" using dirname_join by metis
  then show ?thesis by (simp add: Config_getPath_def Let_def)
qed

lemma write_load:
  assumes "Config_write e override c = Some c1" and "cfs c2 = cfs c1"
    and "fopen_w (cfs c) (Config_getPath e override)"
    and "exists (cfs c) (Config_getPath e True) \<Longrightarrow> loaded_cfg c = CONFIG_GAME"
    and "CHR ''/'' \<notin> set (game_name e)" and "\<forall>t. device_tag e = Some t \<longrightarrow> CHR ''/'' \<notin> set t"
  shows "user_cfg (Config_load e c2) = Some (config_text c)
       \<and> loaded_cfg (Config_load e c2) = (if exists (cfs c1) (Config_getPath e True) then CONFIG_GAME else CONFIG_CONSOLE)"
proof -
  let ?p = "Config_getPath e override" and ?g = "Config_getPath e True"
  let ?fs = "if \<not> override \<and> loaded_cfg c = CONFIG_GAME then unlink ?g (cfs c) else cfs c"
  have w: "fopen_w ?fs ?p" using assms(3) getPath_dirname [OF assms(5,6)] by (auto simp: fopen_w_def map_of_unlink)
  have "cfs c1 = putFile ?p (config_text c) ?fs"
    using assms(1) w
    by (cases override) (auto simp: Config_write_def Let_def config_text_def config_lines_def split: if_splits)
  then have f: "fopen_r (cfs c1) ?p = Some (config_text c)" "exists (cfs c1) ?g \<longleftrightarrow> ?p = ?g \<or> exists ?fs ?g"
    using w by (auto simp: fopen_r_putFile exists_putFile)
  have same: "exists (cfs c1) ?g \<Longrightarrow> ?p = ?g"
    using f(2) assms(4) by (cases override) (auto simp: exists_unlink split: if_splits)
  have all: "\<not> exists (cfs c1) ?g \<Longrightarrow> \<not> override" using f(2) by auto
  have "allocFile (cfs c1) (Config_getPath e (exists (cfs c1) ?g)) = Some (config_text c)"
    using f(1) same all unfolding allocFile_def by (cases "exists (cfs c1) ?g") simp_all
  then show ?thesis unfolding Config_load_def Let_def by (simp add: assms(2))
qed

lemma readOptions_frame:
  assumes "Config_readOptionsString a c = Some c1" and "Config_readOptionsString b c1 = Some c2"
    and "same_program c0 c"
  shows "same_program c0 c2 \<and> rest_of c2 = rest_of c"
  using readOptionsString_frame [OF assms(1)] readOptionsString_frame [OF assms(2)] assms(3)
  by (simp add: same_program_def rest_of_def)

subsection \<open>Properties\<close>

text \<open>C3: options and bindings survive a restart: after \<open>Config_write\<close>, for the game or for all games, a program
  that sets up the same options and mappings (with whatever values) and loads and reads its configuration
  has every frontend option, core option, controller type, control and shortcut as it was written,
  whatever the system and default files say.\<close>

theorem Config_roundtrip:
  assumes "config_ok c" and "Config_write e override c = Some c1"
    and "fopen_w (cfs c) (Config_getPath e override)"
    and "exists (cfs c) (Config_getPath e True) \<Longrightarrow> loaded_cfg c = CONFIG_GAME"
    and "CHR ''/'' \<notin> set (game_name e)" and "\<forall>t. device_tag e = Some t \<longrightarrow> CHR ''/'' \<notin> set t"
    and "same_program c c2" and "cfs c2 = cfs c1"
    and "Config_readOptions (Config_load e c2) = Some c3"
  shows "option_values (frontend c3) = option_values (frontend c)
       \<and> option_values (core_options c3) = option_values (core_options c)
       \<and> (has_custom_controllers c \<longrightarrow> gamepad_type c3 = gamepad_type c)
       \<and> bindings (controls (Config_readControls c3)) = bindings (controls c)
       \<and> bindings (shortcuts (Config_readControls c3)) = bindings (shortcuts c)"
proof -
  let ?l = "Config_load e c2"
  have user: "user_cfg ?l = Some (config_text c)" using write_load [OF assms(2,8,3-6)] by blast
  have l: "same_program c ?l" using assms(7) by (simp add: Config_load_def Let_def same_program_def)
  from assms(9) obtain d1 d2 where d: "Config_readOptionsString (system_cfg ?l) ?l = Some d1"
    "Config_readOptionsString (default_cfg d1) d1 = Some d2" "Config_readOptionsString (user_cfg d2) d2 = Some c3"
    by (auto simp: Config_readOptions_def bind_eq_Some_conv)
  have d2: "same_program c d2" "user_cfg d2 = Some (config_text c)"
    using readOptions_frame [OF d(1,2) l] user by (auto simp: rest_of_def)
  have c3: "user_cfg c3 = Some (config_text c)" "map bname (controls c3) = map bname (controls c)"
    "map bname (shortcuts c3) = map bname (shortcuts c)"
    using readOptionsString_frame [OF d(3)] d2 by (auto simp: rest_of_def same_program_def)
  have "map bname (controls (Config_readControlsString a c3)) = map bname (controls c)"
    "map bname (shortcuts (Config_readControlsString a c3)) = map bname (shortcuts c)"
    "user_cfg (Config_readControlsString a c3) = Some (config_text c)" for a
    using c3 by (simp_all add: Config_readControlsString_def comp_def split: option.split)
  then show ?thesis
    using readOptionsString_back [OF assms(1) d2(1)] d(3) d2(2) readControlsString_back [OF assms(1)]
    by (simp add: Config_readControls_def Let_def)
qed

definition demo_session :: session where
  "demo_session = \<lparr>config_dir = ''/c'', game_name = ''Bob'', core_tag = ''GB'', platform = ''p'', device_tag = None\<rparr>"

definition demo_mapping :: "string \<Rightarrow> int \<Rightarrow> bool \<Rightarrow> ButtonMapping" where
  "demo_mapping n l md = \<lparr>bname = n, retro = 0, local = l, bmod = md, bdefault = 0, bignore = False\<rparr>"

definition demo_config :: "nat \<Rightarrow> int \<Rightarrow> bool \<Rightarrow> fs \<Rightarrow> config" where
  "demo_config v l md files =
     \<lparr>frontend = \<lparr>options = [frontend_option ''speed'' v [''Off'', ''On'']], changed = False\<rparr>,
      core_options = \<lparr>options = [frontend_option ''gb'' v [''a'', ''b'']], changed = False\<rparr>,
      controls = [demo_mapping ''A'' l md], shortcuts = [demo_mapping ''FF'' l md],
      loaded_cfg = CONFIG_NONE, initialized = False, system_cfg = None, default_cfg = None, user_cfg = None,
      screen_scaling = 0, screen_sharpness = 0, gfx_sharpness = 0, screen_effect = 0, prevent_tearing = 0,
      overclock = 0, show_debug = 0, max_ff_speed = 0, thread_video = False, was_threaded = False,
      toggle_thread = False, has_custom_controllers = False, gamepad_type = 0, port_device = 0, cfs = files\<rparr>"

definition demo_saved :: config where
  "demo_saved = the (Config_write demo_session True (demo_config 1 3 True [(''/c'', Dir)]))"

definition demo_fresh :: config where "demo_fresh = demo_config 0 (- 1) False (cfs demo_saved)"

definition demo_read :: config where
  "demo_read = the (Config_readOptions (Config_load demo_session demo_fresh))"

theorem Config_roundtrip_witness:
  "option_values (frontend demo_read) = [1] \<and> bindings (controls (Config_readControls demo_read)) = [(3, True)]"
proof -
  let ?c = "demo_config 1 3 True [(''/c'', Dir)]"
  have ok: "config_ok ?c" by code_simp
  have wr: "Config_write demo_session True ?c = Some demo_saved"
    unfolding demo_saved_def by (rule option.collapse [symmetric]) code_simp
  have rd: "Config_readOptions (Config_load demo_session demo_fresh) = Some demo_read"
    unfolding demo_read_def by (rule option.collapse [symmetric]) code_simp
  have "option_values (frontend demo_read) = option_values (frontend ?c)
      \<and> bindings (controls (Config_readControls demo_read)) = bindings (controls ?c)"
    using Config_roundtrip [OF ok wr _ _ _ _ _ _ rd]
    by (simp add: demo_fresh_def demo_config_def demo_session_def demo_mapping_def same_program_def shape_def
        frontend_option_def exists_def Config_getPath_def fopen_w_def dirname_def Let_def)
  then show ?thesis by (simp add: demo_config_def option_values_def frontend_option_def bindings_def demo_mapping_def)
qed

end
