(* ===== verification/Input.thy ===== *)
theory Input
  imports Config Pwr
begin

text \<open>
  Input while a game runs (\<open>minarch/minarch.c\<close>, lines 1544 to 1766): fast-forward, the per-frame
  callback with its shortcuts, the menu button and the buttons given to the core, and the set-up
  of the button mappings from what a core describes.

  \<open>1 << local\<close> for an unbound mapping (\<open>local = -1\<close>) is 0, as the processor of the devices computes it;
  the code relies on that to skip the mapping. What a shortcut does to the core or the state
  files is recorded as an action.
\<close>

datatype input_action = Save_State | Load_State | Reset_Game | Power pwr_action

record input =
  icfg :: config
  ipwr :: pwr_state
  buttons :: u32
  ignore_menu :: bool
  show_menu :: bool
  toggled_ff_on :: bool
  fast_forward :: bool
  quit_game :: bool
  should_run_core :: bool
  iacts :: "input_action list"

abbreviation "BTN_MENU \<equiv> btn_mask BTN_ID_MENU"
abbreviation "BTN_PLUS \<equiv> btn_mask BTN_ID_PLUS"
abbreviation "BTN_MINUS \<equiv> btn_mask BTN_ID_MINUS"
abbreviation "BTN_POWER \<equiv> btn_mask BTN_ID_POWER"

definition shift1 :: "int \<Rightarrow> u32" where
  "shift1 i = (if 0 \<le> i \<and> i < 32 then btn_mask (nat i) else 0)"

subsection \<open>Fast-forward\<close>

definition setFastForward :: "bool \<Rightarrow> input \<Rightarrow> input" where
  "setFastForward enable s =
     (let c = icfg s;
          c = (if \<not> fast_forward s \<and> enable \<and> thread_video c then c\<lparr>was_threaded := True, toggle_thread := True\<rparr>
               else if fast_forward s \<and> \<not> enable \<and> \<not> thread_video c \<and> was_threaded c
               then c\<lparr>was_threaded := False, toggle_thread := True\<rparr> else c)
      in s\<lparr>icfg := c, fast_forward := enable\<rparr>)"

subsection \<open>Shortcuts\<close>

abbreviation "SHORTCUT_TOGGLE_FF \<equiv> 6 :: nat"
abbreviation "SHORTCUT_HOLD_FF \<equiv> 7 :: nat"
abbreviation "SHORTCUT_COUNT \<equiv> 8 :: nat"
abbreviation "EFFECT_COUNT \<equiv> 3 :: nat"

definition cycle_scale :: "config \<Rightarrow> config" where
  "cycle_scale c =
     (let o0 = options (frontend c) ! 0;
          v = screen_scaling c + 1;
          v = (if v \<ge> length (vals o0) then v - length (vals o0) else v)
      in Config_syncFrontend (key o0) v (c\<lparr>screen_scaling := v\<rparr>))"

definition cycle_effect :: "config \<Rightarrow> config" where
  "cycle_effect c =
     (let v = screen_effect c + 1;
          v = (if v \<ge> EFFECT_COUNT then v - EFFECT_COUNT else v)
      in Config_syncFrontend (key (options (frontend c) ! 1)) v (c\<lparr>screen_effect := v\<rparr>))"

definition act :: "input_action \<Rightarrow> input \<Rightarrow> input" where
  "act a s = s\<lparr>iacts := iacts s @ [a]\<rparr>"

definition run_shortcut :: "nat \<Rightarrow> input \<Rightarrow> input" where
  "run_shortcut i s =
     (if i = 0 then act Save_State s
      else if i = 1 then act Load_State s
      else if i = 2 then act Reset_Game s
      else if i = 3 then (act Save_State s)\<lparr>quit_game := True\<rparr>
      else if i = 4 then s\<lparr>icfg := cycle_scale (icfg s)\<rparr>
      else if i = 5 then s\<lparr>icfg := cycle_effect (icfg s)\<rparr>
      else s)"

definition mod_ignore :: "ButtonMapping \<Rightarrow> input \<Rightarrow> input" where
  "mod_ignore m s = (if bmod m then s\<lparr>ignore_menu := True\<rparr> else s)"

definition toggle_ff :: "input \<Rightarrow> input" where
  "toggle_ff s = (let s = setFastForward (\<not> fast_forward s) s in s\<lparr>toggled_ff_on := fast_forward s\<rparr>)"

fun shortcut_loop :: "PAD_Context \<Rightarrow> nat \<Rightarrow> ButtonMapping list \<Rightarrow> input \<Rightarrow> input" where
  "shortcut_loop pad i [] s = s"
| "shortcut_loop pad i (m # ms) s =
     (let btn = shift1 (local m) in
      if btn = 0 then shortcut_loop pad (i + 1) ms s
      else if \<not> bmod m \<or> PAD_isPressed pad BTN_MENU then
        (if i = SHORTCUT_TOGGLE_FF then
           (if PAD_justPressed pad btn then mod_ignore m (toggle_ff s)
            else if PAD_justReleased pad btn then mod_ignore m s
            else shortcut_loop pad (i + 1) ms s)
         else if i = SHORTCUT_HOLD_FF then
           (if PAD_justPressed pad btn \<or> (\<not> toggled_ff_on s \<and> PAD_justReleased pad btn)
            then shortcut_loop pad (i + 1) ms (mod_ignore m (setFastForward (PAD_isPressed pad btn) s))
            else shortcut_loop pad (i + 1) ms s)
         else if PAD_justPressed pad btn then shortcut_loop pad (i + 1) ms (mod_ignore m (run_shortcut i s))
         else shortcut_loop pad (i + 1) ms s)
      else shortcut_loop pad (i + 1) ms s)"

subsection \<open>The callbacks\<close>

definition menu_modifier :: "PAD_Context \<Rightarrow> input \<Rightarrow> input" where
  "menu_modifier pad s =
     (let s = (if PAD_justPressed pad BTN_MENU then s\<lparr>ignore_menu := False\<rparr> else s) in
      if PAD_isPressed pad BTN_MENU \<and> (PAD_isPressed pad BTN_PLUS \<or> PAD_isPressed pad BTN_MINUS)
      then s\<lparr>ignore_menu := True\<rparr> else s)"

definition power_thread :: "PAD_Context \<Rightarrow> input \<Rightarrow> input" where
  "power_thread pad s =
     (let c = icfg s in
      if PAD_justPressed pad BTN_POWER then
        (if thread_video c then s\<lparr>icfg := c\<lparr>was_threaded := True, toggle_thread := True\<rparr>\<rparr> else s)
      else if PAD_justReleased pad BTN_POWER \<and> \<not> thread_video c \<and> was_threaded c
      then s\<lparr>icfg := c\<lparr>was_threaded := False, toggle_thread := True\<rparr>\<rparr> else s)"

definition open_menu :: "PAD_Context \<Rightarrow> input \<Rightarrow> input" where
  "open_menu pad s =
     (if \<not> ignore_menu s \<and> PAD_justReleased pad BTN_MENU
      then s\<lparr>show_menu := True, should_run_core := should_run_core s \<and> \<not> thread_video (icfg s)\<rparr>
      else s)"

definition control_button :: "int \<Rightarrow> ButtonMapping \<Rightarrow> u32" where
  \<comment> \<open>on a standard gamepad the left stick also works the directions\<close>
  "control_button gamepad m =
     (let btn = shift1 (local m) in
      if gamepad = 0 then
        (if btn = btn_mask 0 then BTN_UP else if btn = btn_mask 1 then BTN_DOWN
         else if btn = btn_mask 2 then BTN_LEFT else if btn = btn_mask 3 then BTN_RIGHT else btn)
      else btn)"

definition control_on :: "int \<Rightarrow> PAD_Context \<Rightarrow> ButtonMapping \<Rightarrow> bool" where
  "control_on gamepad pad m \<longleftrightarrow> shift1 (local m) \<noteq> 0 \<and> PAD_isPressed pad (control_button gamepad m)
     \<and> (\<not> bmod m \<or> PAD_isPressed pad BTN_MENU)"

definition control_step :: "PAD_Context \<Rightarrow> ButtonMapping \<Rightarrow> input \<Rightarrow> input" where
  "control_step pad m s =
     (if control_on (gamepad_type (icfg s)) pad m
      then mod_ignore m (s\<lparr>buttons := buttons s OR shift1 (retro m)\<rparr>) else s)"

definition input_frame :: "PAD_Context \<Rightarrow> input \<Rightarrow> input" where
  \<comment> \<open>the callback after \<open>PWR_update\<close>\<close>
  "input_frame pad s =
     (let s = menu_modifier pad s;
          s = power_thread pad s;
          s = shortcut_loop pad 0 (take SHORTCUT_COUNT (shortcuts (icfg s))) s;
          s = open_menu pad s
      in fold (control_step pad) (controls (icfg s)) (s\<lparr>buttons := 0\<rparr>))"

definition input_poll_callback :: "(PAD_Context \<Rightarrow> PAD_Context) \<Rightarrow> pwr_frame \<Rightarrow> input \<Rightarrow> input" where
  \<comment> \<open>\<open>poll\<close> is the platform's \<open>PAD_poll\<close>\<close>
  "input_poll_callback poll f s =
     (let (acts, p) = PWR_update f ((ipwr s)\<lparr>ppad := poll (ppad (ipwr s)), dirty := False\<rparr>);
          s = s\<lparr>ipwr := p, iacts := iacts s @ map Power acts\<rparr>
      in input_frame (ppad p) s)"

definition RETRO_DEVICE_JOYPAD :: nat where "RETRO_DEVICE_JOYPAD = 1"
definition RETRO_DEVICE_ANALOG :: nat where "RETRO_DEVICE_ANALOG = 5"
definition RETRO_DEVICE_ID_JOYPAD_MASK :: nat where "RETRO_DEVICE_ID_JOYPAD_MASK = 256"

definition input_state_callback :: "nat \<Rightarrow> nat \<Rightarrow> nat \<Rightarrow> nat \<Rightarrow> input \<Rightarrow> u16" where
  \<comment> \<open>the 16 bits of the result; bit numbers stay below 32\<close>
  "input_state_callback port device index bid s =
     (if port = 0 \<and> device = RETRO_DEVICE_JOYPAD \<and> index = 0 then
        (if bid = RETRO_DEVICE_ID_JOYPAD_MASK then ucast (buttons s) else ucast (drop_bit bid (buttons s) AND 1))
      else if port = 0 \<and> device = RETRO_DEVICE_ANALOG then
        (let pad = ppad (ipwr s) in
         if index = 0 then (if bid = 0 then word_of_int (ax_x (laxis pad)) else if bid = 1 then word_of_int (ax_y (laxis pad)) else 0)
         else if index = 1 then (if bid = 0 then word_of_int (ax_x (raxis pad)) else if bid = 1 then word_of_int (ax_y (raxis pad)) else 0)
         else 0)
      else 0)"

subsection \<open>Setting the mappings up\<close>

record input_descriptor =
  d_port :: nat
  d_device :: nat
  d_index :: nat
  d_id :: nat
  description :: string

definition default_button_mapping :: "ButtonMapping list" where
  "default_button_mapping = map (\<lambda>(n, i). \<lparr>bname = n, retro = retro_ids ! i, local = int i, bmod = False,
       bdefault = 0, bignore = False\<rparr>)
     (zip [''Up'', ''Down'', ''Left'', ''Right'', ''A Button'', ''B Button'', ''X Button'', ''Y Button'', ''Start'',
        ''Select'', ''L1 Button'', ''R1 Button'', ''L2 Button'', ''R2 Button'', ''L3 Button'', ''R3 Button''] [0..<16])"

definition describes :: "input_descriptor \<Rightarrow> bool" where
  "describes d \<longleftrightarrow> d_port d = 0 \<and> d_device d = RETRO_DEVICE_JOYPAD \<and> d_index d = 0 \<and> d_id d < RETRO_BUTTON_COUNT"

definition button_names :: "input_descriptor list \<Rightarrow> nat \<Rightarrow> string option" where
  \<comment> \<open>the last description of a button is the one kept\<close>
  "button_names vars i = map_of (rev (map (\<lambda>d. (d_id d, description d)) (filter describes vars))) i"

definition init_control :: "(nat \<Rightarrow> bool) option \<Rightarrow> ButtonMapping \<Rightarrow> ButtonMapping option" where
  \<comment> \<open>\<open>None\<close>: the index into \<open>present\<close> is out of bounds\<close>
  "init_control present m =
     (let m = m\<lparr>bdefault := local m\<rparr> in
      case present of
        None \<Rightarrow> Some m
      | Some p \<Rightarrow>
          if 0 \<le> retro m \<and> retro m < int RETRO_BUTTON_COUNT
          then Some (if p (nat (retro m)) then m else m\<lparr>bignore := True\<rparr>) else None)"

definition Input_init :: "bool \<Rightarrow> (nat \<Rightarrow> bool) \<Rightarrow> input_descriptor list option \<Rightarrow> ButtonMapping list \<Rightarrow> config \<Rightarrow> (bool \<times> config) option" where
  \<comment> \<open>\<open>input_initialized\<close>, set by the first call, makes the later ones return at once; \<open>stack\<close> is what the uninitialised array
    \<open>present\<close> happens to hold\<close>
  "Input_init input_initialized stack vars core_button_mapping c =
     (if input_initialized then Some (input_initialized, c)
      else (let names = (case vars of None \<Rightarrow> (\<lambda>_. None) | Some vs \<Rightarrow> button_names vs);
                present = (case vars of None \<Rightarrow> None | Some vs \<Rightarrow> Some (\<lambda>i. stack i \<or> names i \<noteq> None));
                default = map (\<lambda>m. case names (nat (retro m)) of Some n \<Rightarrow> m\<lparr>bname := n\<rparr> | None \<Rightarrow> m) default_button_mapping;
                cs = map (init_control present) (if core_button_mapping \<noteq> [] then core_button_mapping else default)
            in if None \<in> set cs then None else Some (True, c\<lparr>controls := map the cs\<rparr>)))"

subsection \<open>Facts\<close>

lemma mod_ignore_simps [simp]:
  "ipwr (mod_ignore m s) = ipwr s"
  "icfg (mod_ignore m s) = icfg s" "buttons (mod_ignore m s) = buttons s" "show_menu (mod_ignore m s) = show_menu s"
  "toggled_ff_on (mod_ignore m s) = toggled_ff_on s" "fast_forward (mod_ignore m s) = fast_forward s"
  "ignore_menu (mod_ignore m s) = (bmod m \<or> ignore_menu s)"
  by (simp_all add: mod_ignore_def)

lemma setFastForward_simps [simp]:
  "ipwr (setFastForward b s) = ipwr s"
  "ignore_menu (setFastForward b s) = ignore_menu s" "show_menu (setFastForward b s) = show_menu s"
  "toggled_ff_on (setFastForward b s) = toggled_ff_on s" "fast_forward (setFastForward b s) = b"
  "controls (icfg (setFastForward b s)) = controls (icfg s)" "shortcuts (icfg (setFastForward b s)) = shortcuts (icfg s)"
  "gamepad_type (icfg (setFastForward b s)) = gamepad_type (icfg s)"
  by (simp_all add: setFastForward_def Let_def)

lemma toggle_ff_simps [simp]:
  "ipwr (toggle_ff s) = ipwr s"
  "ignore_menu (toggle_ff s) = ignore_menu s" "show_menu (toggle_ff s) = show_menu s"
  "toggled_ff_on (toggle_ff s) = (\<not> fast_forward s)" "fast_forward (toggle_ff s) = (\<not> fast_forward s)"
  "controls (icfg (toggle_ff s)) = controls (icfg s)" "shortcuts (icfg (toggle_ff s)) = shortcuts (icfg s)"
  "gamepad_type (icfg (toggle_ff s)) = gamepad_type (icfg s)"
  by (simp_all add: toggle_ff_def Let_def)

lemma run_shortcut_simps [simp]:
  "ipwr (run_shortcut i s) = ipwr s"
  "ignore_menu (run_shortcut i s) = ignore_menu s" "show_menu (run_shortcut i s) = show_menu s"
  "toggled_ff_on (run_shortcut i s) = toggled_ff_on s" "fast_forward (run_shortcut i s) = fast_forward s"
  "controls (icfg (run_shortcut i s)) = controls (icfg s)" "shortcuts (icfg (run_shortcut i s)) = shortcuts (icfg s)"
  "gamepad_type (icfg (run_shortcut i s)) = gamepad_type (icfg s)"
  by (simp_all add: run_shortcut_def act_def cycle_scale_def cycle_effect_def Let_def syncFrontend_others)

lemma shortcut_loop_keeps [simp]:
  "ipwr (shortcut_loop pad i ms s) = ipwr s"
  "show_menu (shortcut_loop pad i ms s) = show_menu s"
  "controls (icfg (shortcut_loop pad i ms s)) = controls (icfg s)"
  "shortcuts (icfg (shortcut_loop pad i ms s)) = shortcuts (icfg s)"
  "gamepad_type (icfg (shortcut_loop pad i ms s)) = gamepad_type (icfg s)"
  by (induction pad i ms s rule: shortcut_loop.induct) (simp_all add: Let_def)

lemma menu_modifier_keeps [simp]:
  "ipwr (menu_modifier pad s) = ipwr s"
  "icfg (menu_modifier pad s) = icfg s" "show_menu (menu_modifier pad s) = show_menu s"
  "toggled_ff_on (menu_modifier pad s) = toggled_ff_on s" "fast_forward (menu_modifier pad s) = fast_forward s"
  by (simp_all add: menu_modifier_def Let_def)

lemma power_thread_keeps [simp]:
  "ipwr (power_thread pad s) = ipwr s"
  "ignore_menu (power_thread pad s) = ignore_menu s" "show_menu (power_thread pad s) = show_menu s"
  "toggled_ff_on (power_thread pad s) = toggled_ff_on s" "fast_forward (power_thread pad s) = fast_forward s"
  "controls (icfg (power_thread pad s)) = controls (icfg s)" "shortcuts (icfg (power_thread pad s)) = shortcuts (icfg s)"
  "gamepad_type (icfg (power_thread pad s)) = gamepad_type (icfg s)"
  by (simp_all add: power_thread_def Let_def)

lemma open_menu_keeps [simp]:
  "ipwr (open_menu pad s) = ipwr s"
  "icfg (open_menu pad s) = icfg s" "ignore_menu (open_menu pad s) = ignore_menu s"
  "toggled_ff_on (open_menu pad s) = toggled_ff_on s" "fast_forward (open_menu pad s) = fast_forward s"
  by (simp_all add: open_menu_def)

lemma control_step_keeps [simp]:
  "ipwr (control_step pad m s) = ipwr s"
  "icfg (control_step pad m s) = icfg s" "show_menu (control_step pad m s) = show_menu s"
  "toggled_ff_on (control_step pad m s) = toggled_ff_on s" "fast_forward (control_step pad m s) = fast_forward s"
  by (simp_all add: control_step_def)

lemma fold_control_keeps [simp]:
  "ipwr (fold (control_step pad) ms s) = ipwr s"
  "icfg (fold (control_step pad) ms s) = icfg s" "show_menu (fold (control_step pad) ms s) = show_menu s"
  "toggled_ff_on (fold (control_step pad) ms s) = toggled_ff_on s"
  "fast_forward (fold (control_step pad) ms s) = fast_forward s"
  by (induction ms arbitrary: s) simp_all

lemma fold_control_ignore:
  "ignore_menu (fold (control_step pad) ms s)
   = (ignore_menu s \<or> (\<exists>m \<in> set ms. bmod m \<and> control_on (gamepad_type (icfg s)) pad m))"
proof (induction ms arbitrary: s)
  case (Cons m ms)
  show ?case using Cons.IH [of "control_step pad m s"] by (auto simp: control_step_def)
qed simp

lemma bit_shift1: "bit (shift1 i) n \<longleftrightarrow> 0 \<le> i \<and> i < 32 \<and> n = nat i"
  by (auto simp: shift1_def bit_btn_mask)

lemma fold_control_buttons:
  "bit (buttons (fold (control_step pad) ms s)) n
   \<longleftrightarrow> bit (buttons s) n \<or> (n < 32 \<and> (\<exists>m \<in> set ms. retro m = int n \<and> control_on (gamepad_type (icfg s)) pad m))"
proof (induction ms arbitrary: s)
  case (Cons m ms)
  show ?case
    using Cons.IH [of "control_step pad m s"]
    by (auto simp: control_step_def bit_or_iff bit_shift1)
qed simp

definition binding_down :: "int \<Rightarrow> PAD_Context \<Rightarrow> ButtonMapping \<Rightarrow> bool" where
  \<comment> \<open>what a binding means: its device button is down (on a standard gamepad the stick counts for a
      direction), and the menu button as well where it asks for it\<close>
  "binding_down gamepad pad m \<longleftrightarrow> 0 \<le> local m \<and> local m < 32
     \<and> (bit (is_pressed pad) (nat (local m))
         \<or> (gamepad = 0 \<and> local m < 4 \<and> bit (is_pressed pad) (BTN_ID_ANALOG_UP + nat (local m))))
     \<and> (bmod m \<longrightarrow> bit (is_pressed pad) BTN_ID_MENU)"

lemma isPressed_or: "PAD_isPressed pad (v OR w) \<longleftrightarrow> PAD_isPressed pad v \<or> PAD_isPressed pad w"
  by (auto simp: PAD_isPressed_def bit_eq_iff bit_and_iff bit_or_iff)

lemma isPressed_mask: "PAD_isPressed pad (btn_mask i) \<longleftrightarrow> bit (is_pressed pad) i"
  using is_held_bit [of pad i] by (simp add: PAD_isPressed_def is_held_def)

lemma btn_mask_eq: "i < 32 \<Longrightarrow> j < 32 \<Longrightarrow> btn_mask i = btn_mask j \<longleftrightarrow> i = j"
  using bit_btn_mask [of i i] bit_btn_mask [of j i] by auto

lemma control_on_down: "control_on gamepad pad m \<longleftrightarrow> binding_down gamepad pad m"
proof (cases "0 \<le> local m \<and> local m < 32")
  case True
  define i where "i = nat (local m)"
  have i: "i < 32" "shift1 (local m) = btn_mask i" "local m = int i" using True nat_less_iff [of "local m" 32] by (simp_all add: i_def shift1_def)
  have "btn_mask i \<noteq> 0" using bit_btn_mask [of i i] i(1) by auto
  moreover have "PAD_isPressed pad (control_button gamepad m)
      \<longleftrightarrow> bit (is_pressed pad) i \<or> (gamepad = 0 \<and> i < 4 \<and> bit (is_pressed pad) (21 + i))"
  proof (cases "gamepad = 0 \<and> i < 4")
    case True
    then consider "i = 0" | "i = 1" | "i = 2" | "i = 3" by linarith
    then show ?thesis
      using True
      by cases (simp_all add: control_button_def i(2) Let_def btn_mask_eq BTN_UP_def BTN_DOWN_def BTN_LEFT_def BTN_RIGHT_def
          isPressed_or isPressed_mask)
  next
    case False
    then show ?thesis using i(1) by (auto simp: control_button_def i(2) Let_def btn_mask_eq isPressed_mask)
  qed
  ultimately show ?thesis using i by (auto simp: control_on_def binding_down_def isPressed_mask)
next
  case False
  then show ?thesis by (auto simp: control_on_def binding_down_def shift1_def)
qed

lemma input_frame_keeps [simp]:
  "ipwr (input_frame pad s) = ipwr s"
  "controls (icfg (input_frame pad s)) = controls (icfg s)" "shortcuts (icfg (input_frame pad s)) = shortcuts (icfg s)"
  "gamepad_type (icfg (input_frame pad s)) = gamepad_type (icfg s)"
  by (simp_all add: input_frame_def Let_def)

text \<open>The menu button: what makes its release not open the menu.\<close>

definition moves :: "PAD_Context \<Rightarrow> ButtonMapping \<Rightarrow> bool" where
  "moves pad m \<longleftrightarrow> PAD_justPressed pad (shift1 (local m)) \<or> PAD_justReleased pad (shift1 (local m))"

definition shortcut_used :: "PAD_Context \<Rightarrow> ButtonMapping list \<Rightarrow> nat \<Rightarrow> bool" where
  \<comment> \<open>bound with the menu button and pressed; releasing the toggle counts too, and when the toggle moves the hold button is not looked at\<close>
  "shortcut_used pad ms i \<longleftrightarrow> i < length ms \<and> bmod (ms ! i)
     \<and> (PAD_justPressed pad (shift1 (local (ms ! i))) \<or> i = SHORTCUT_TOGGLE_FF \<and> PAD_justReleased pad (shift1 (local (ms ! i))))
     \<and> (i = SHORTCUT_HOLD_FF \<longrightarrow> \<not> moves pad (ms ! SHORTCUT_TOGGLE_FF))"

definition combo :: "config \<Rightarrow> PAD_Context \<Rightarrow> bool" where
  \<comment> \<open>with the menu button held, a volume key, a control or a shortcut is used\<close>
  "combo c pad \<longleftrightarrow> PAD_isPressed pad BTN_MENU \<and>
     (PAD_isPressed pad BTN_PLUS \<or> PAD_isPressed pad BTN_MINUS
      \<or> (\<exists>m \<in> set (controls c). bmod m \<and> control_on (gamepad_type c) pad m)
      \<or> (\<exists>i < SHORTCUT_COUNT. shortcut_used pad (shortcuts c) i))"

definition quiet :: "config \<Rightarrow> PAD_Context \<Rightarrow> bool" where
  \<comment> \<open>nothing bound together with the menu button moves\<close>
  "quiet c pad \<longleftrightarrow> \<not> PAD_isPressed pad BTN_PLUS \<and> \<not> PAD_isPressed pad BTN_MINUS
     \<and> (\<forall>m \<in> set (controls c). bmod m \<longrightarrow> \<not> control_on (gamepad_type c) pad m)
     \<and> (\<forall>m \<in> set (shortcuts c). bmod m \<longrightarrow>
          \<not> PAD_justPressed pad (shift1 (local m)) \<and> \<not> PAD_justReleased pad (shift1 (local m)))"

lemma justPressed_0: "\<not> PAD_justPressed pad 0"
  by (simp add: PAD_justPressed_def)

lemma shortcut_loop_mono: "ignore_menu s \<Longrightarrow> ignore_menu (shortcut_loop pad i ms s)"
  by (induction pad i ms s rule: shortcut_loop.induct) (simp_all add: Let_def)

lemma shortcut_loop_used:
  assumes "j < length ms" and "i + j < SHORTCUT_COUNT" and "bmod (ms ! j)" and "PAD_isPressed pad BTN_MENU"
    and "PAD_justPressed pad (shift1 (local (ms ! j))) \<or> i + j = SHORTCUT_TOGGLE_FF \<and> PAD_justReleased pad (shift1 (local (ms ! j)))"
    and "i + j = SHORTCUT_HOLD_FF \<and> i \<le> SHORTCUT_TOGGLE_FF \<longrightarrow> \<not> moves pad (ms ! (SHORTCUT_TOGGLE_FF - i))"
  shows "ignore_menu (shortcut_loop pad i ms s)"
  using assms
proof (induction ms arbitrary: i j s)
  case (Cons x ms)
  have zero: "\<not> PAD_justPressed pad 0" "\<not> PAD_justReleased pad 0" by (simp_all add: PAD_justPressed_def PAD_justReleased_def)
  show ?case
  proof (cases j)
    case 0
    then show ?thesis using Cons.prems zero by (auto simp: Let_def intro: shortcut_loop_mono)
  next
    case (Suc k)
    have later: "k < length ms" "i + 1 + k < SHORTCUT_COUNT" "bmod (ms ! k)"
      "PAD_justPressed pad (shift1 (local (ms ! k))) \<or> i + 1 + k = SHORTCUT_TOGGLE_FF \<and> PAD_justReleased pad (shift1 (local (ms ! k)))"
      using Cons.prems Suc by auto
    have "(x # ms) ! (SHORTCUT_TOGGLE_FF - i) = ms ! (SHORTCUT_TOGGLE_FF - (i + 1))" if "i + 1 \<le> SHORTCUT_TOGGLE_FF"
      using that by (subst nth_Cons_pos) simp_all
    then have hold: "i + 1 + k = SHORTCUT_HOLD_FF \<and> i + 1 \<le> SHORTCUT_TOGGLE_FF \<longrightarrow> \<not> moves pad (ms ! (SHORTCUT_TOGGLE_FF - (i + 1)))"
      using Cons.prems(6) Suc by (metis add_leD1 add_Suc_right add_Suc_shift Suc_eq_plus1)
    have still: "\<not> moves pad x" if "i = SHORTCUT_TOGGLE_FF" using Cons.prems(2,6) that Suc by simp
    have "i \<noteq> SHORTCUT_HOLD_FF" using Cons.prems(2) Suc by auto
    then show ?thesis
      using Cons.IH [OF later(1-3) Cons.prems(4) later(4) hold] still by (auto simp: Let_def moves_def)
  qed
qed simp

lemma shortcut_loop_idle:
  assumes "\<forall>m \<in> set ms. bmod m \<longrightarrow> PAD_isPressed pad BTN_MENU \<longrightarrow>
      \<not> PAD_justPressed pad (shift1 (local m)) \<and> \<not> PAD_justReleased pad (shift1 (local m))"
  shows "ignore_menu (shortcut_loop pad i ms s) = ignore_menu s"
  using assms by (induction pad i ms s rule: shortcut_loop.induct) (auto simp: Let_def)

lemma input_frame_combo: "combo (icfg s) pad \<Longrightarrow> ignore_menu (input_frame pad s)"
proof -
  assume c: "combo (icfg s) pad"
  let ?s = "power_thread pad (menu_modifier pad s)"
  consider "PAD_isPressed pad BTN_PLUS \<or> PAD_isPressed pad BTN_MINUS"
    | "\<exists>m \<in> set (controls (icfg s)). bmod m \<and> control_on (gamepad_type (icfg s)) pad m"
    | i where "i < SHORTCUT_COUNT" "shortcut_used pad (shortcuts (icfg s)) i"
    using c by (auto simp: combo_def)
  then show ?thesis
  proof cases
    case 1
    then have "ignore_menu ?s" using c by (auto simp: menu_modifier_def combo_def Let_def)
    then show ?thesis by (simp add: input_frame_def Let_def fold_control_ignore shortcut_loop_mono)
  next
    case 2
    then show ?thesis by (simp add: input_frame_def Let_def fold_control_ignore)
  next
    case 3
    have "PAD_isPressed pad BTN_MENU" using c by (simp add: combo_def)
    moreover have "i = SHORTCUT_HOLD_FF \<longrightarrow> \<not> moves pad (take SHORTCUT_COUNT (shortcuts (icfg s)) ! SHORTCUT_TOGGLE_FF)"
      using 3 by (simp add: shortcut_used_def)
    ultimately have "ignore_menu (shortcut_loop pad 0 (take SHORTCUT_COUNT (shortcuts (icfg s))) ?s)"
      using 3 by (intro shortcut_loop_used [of i]) (auto simp: shortcut_used_def)
    then show ?thesis by (simp add: input_frame_def Let_def fold_control_ignore)
  qed
qed

lemma input_frame_keeps_ignore:
  "ignore_menu s \<Longrightarrow> \<not> PAD_justPressed pad BTN_MENU \<Longrightarrow> ignore_menu (input_frame pad s)"
  by (simp add: input_frame_def Let_def fold_control_ignore menu_modifier_def shortcut_loop_mono)

lemma input_frame_quiet:
  assumes "quiet (icfg s) pad" and "\<not> ignore_menu s \<or> PAD_justPressed pad BTN_MENU"
  shows "\<not> ignore_menu (input_frame pad s)"
proof -
  let ?ms = "take SHORTCUT_COUNT (shortcuts (icfg s))"
  have "\<not> ignore_menu (power_thread pad (menu_modifier pad s))"
    using assms by (auto simp: menu_modifier_def quiet_def Let_def)
  moreover have "\<forall>m \<in> set ?ms. bmod m \<longrightarrow> PAD_isPressed pad BTN_MENU \<longrightarrow>
      \<not> PAD_justPressed pad (shift1 (local m)) \<and> \<not> PAD_justReleased pad (shift1 (local m))"
    using assms(1) by (auto simp: quiet_def dest: in_set_takeD)
  ultimately show ?thesis
    using assms(1) shortcut_loop_idle [of ?ms pad] by (simp add: input_frame_def Let_def fold_control_ignore quiet_def)
qed

lemma input_frame_show:
  "\<not> PAD_justReleased pad BTN_MENU \<Longrightarrow> show_menu (input_frame pad s) = show_menu s"
  by (simp add: input_frame_def Let_def open_menu_def)

lemma input_frame_release:
  assumes "PAD_justReleased pad BTN_MENU" and "\<not> PAD_isPressed pad BTN_MENU" and "\<not> PAD_justPressed pad BTN_MENU"
  shows "show_menu (input_frame pad s) = (show_menu s \<or> \<not> ignore_menu s)"
proof -
  have "ignore_menu (shortcut_loop pad 0 ms (power_thread pad (menu_modifier pad s))) = ignore_menu s" for ms
    using assms shortcut_loop_idle [of ms pad] by (simp add: menu_modifier_def)
  then show ?thesis using assms(1) by (auto simp: input_frame_def Let_def open_menu_def)
qed

text \<open>A press of the menu button: the frame it goes down, the frames it is held, the frame it comes up.\<close>

definition menu_down :: "PAD_Context \<Rightarrow> bool" where
  "menu_down p \<longleftrightarrow> PAD_isPressed p BTN_MENU \<and> PAD_justPressed p BTN_MENU \<and> \<not> PAD_justReleased p BTN_MENU"

definition menu_held :: "PAD_Context \<Rightarrow> bool" where
  "menu_held p \<longleftrightarrow> PAD_isPressed p BTN_MENU \<and> \<not> PAD_justPressed p BTN_MENU \<and> \<not> PAD_justReleased p BTN_MENU"

definition menu_up :: "PAD_Context \<Rightarrow> bool" where
  "menu_up p \<longleftrightarrow> \<not> PAD_isPressed p BTN_MENU \<and> \<not> PAD_justPressed p BTN_MENU \<and> PAD_justReleased p BTN_MENU"

definition binds :: "config \<Rightarrow> ButtonMapping list \<times> ButtonMapping list \<times> int" where
  "binds c = (controls c, shortcuts c, gamepad_type c)"

lemma combo_binds: "binds c = binds c' \<Longrightarrow> combo c = combo c'" and quiet_binds: "binds c = binds c' \<Longrightarrow> quiet c = quiet c'"
  by (auto simp: binds_def combo_def quiet_def fun_eq_iff)

lemma frame_binds [simp]: "binds (icfg (input_frame p s)) = binds (icfg s)"
  by (simp add: binds_def)

lemma fold_held:
  assumes "\<forall>p \<in> set ps. menu_held p"
  shows "show_menu (fold input_frame ps s) = show_menu s
       \<and> (ignore_menu s \<or> (\<exists>p \<in> set ps. combo (icfg s) p) \<longrightarrow> ignore_menu (fold input_frame ps s))
       \<and> (\<not> ignore_menu s \<and> (\<forall>p \<in> set ps. quiet (icfg s) p) \<longrightarrow> \<not> ignore_menu (fold input_frame ps s))"
  using assms
proof (induction ps arbitrary: s)
  case (Cons p ps)
  have eq: "combo (icfg (input_frame p s)) = combo (icfg s)" "quiet (icfg (input_frame p s)) = quiet (icfg s)"
    by (rule combo_binds quiet_binds, simp)+
  have "menu_held p" using Cons.prems by simp
  then show ?case
    using Cons input_frame_show [of p s] input_frame_combo [of s p] input_frame_keeps_ignore [of s p] input_frame_quiet [of s p]
    unfolding menu_held_def by (auto simp: eq)
qed simp

text \<open>Fast-forward turned on by its toggle stays on while the hold button is used.\<close>

definition press_held :: "PAD_Context \<Rightarrow> bool" where
  "press_held p \<longleftrightarrow> (\<forall>i < 16. PAD_justPressed p (btn_mask i) \<longrightarrow> PAD_isPressed p (btn_mask i))"

definition buttons_ok :: "ButtonMapping list \<Rightarrow> bool" where
  "buttons_ok ms \<longleftrightarrow> (\<forall>m \<in> set ms. - 1 \<le> local m \<and> local m < 16)"

lemma press_heldD:
  "press_held p \<Longrightarrow> - 1 \<le> i \<Longrightarrow> i < 16 \<Longrightarrow> PAD_justPressed p (shift1 i) \<Longrightarrow> PAD_isPressed p (shift1 i)"
  using justPressed_0 by (auto simp: press_held_def shift1_def split: if_splits)

lemma shortcut_loop_toggled:
  assumes "press_held pad" and "buttons_ok ms" and "toggled_ff_on s \<longrightarrow> fast_forward s"
  shows "toggled_ff_on (shortcut_loop pad i ms s) \<longrightarrow> fast_forward (shortcut_loop pad i ms s)"
  using assms
proof (induction pad i ms s rule: shortcut_loop.induct)
  case (2 pad i m ms s)
  have "PAD_justPressed pad (shift1 (local m)) \<Longrightarrow> PAD_isPressed pad (shift1 (local m))"
    using "2.prems"(1,2) press_heldD by (auto simp: buttons_ok_def)
  moreover have "buttons_ok ms" using "2.prems"(2) by (simp add: buttons_ok_def)
  ultimately show ?case using 2 by (auto simp: Let_def)
qed simp

lemma input_frame_toggled:
  assumes "press_held pad" and "buttons_ok (shortcuts (icfg s))" and "toggled_ff_on s \<longrightarrow> fast_forward s"
  shows "toggled_ff_on (input_frame pad s) \<longrightarrow> fast_forward (input_frame pad s)"
proof -
  have "buttons_ok (take SHORTCUT_COUNT (shortcuts (icfg s)))"
    using assms(2) by (auto simp: buttons_ok_def dest: in_set_takeD)
  from shortcut_loop_toggled [OF assms(1) this, of "power_thread pad (menu_modifier pad s)" 0] assms(3)
  show ?thesis by (simp add: input_frame_def Let_def)
qed

text \<open>The variables behind the frontend options. The threading option has none of its own: it requests a change.\<close>

definition variable :: "nat \<Rightarrow> config \<Rightarrow> nat" where
  "variable i c = (if i = 0 then screen_scaling c else if i = 1 then screen_effect c else if i = 2 then screen_sharpness c
     else if i = 3 then prevent_tearing c else if i = 4 then overclock c else if i = 6 then show_debug c else max_ff_speed c)"

definition synced_but :: "nat option \<Rightarrow> config \<Rightarrow> bool" where
  \<comment> \<open>options and variables agree, but for one option that is being changed\<close>
  "synced_but e c \<longleftrightarrow> length (options (frontend c)) = 8 \<and> distinct (map key (options (frontend c)))
     \<and> (\<forall>i < 8. Some i \<noteq> e \<longrightarrow> val (options (frontend c) ! i) < length (vals (options (frontend c) ! i))
          \<and> (i \<noteq> 5 \<longrightarrow> variable i c = val (options (frontend c) ! i)))
     \<and> (e \<noteq> Some 0 \<and> e \<noteq> Some 2 \<longrightarrow> gfx_sharpness c = (if screen_scaling c = 0 then 0 else screen_sharpness c))"

abbreviation "synced c \<equiv> synced_but None c"

lemma variable_sync: "i < 8 \<Longrightarrow> i \<noteq> 5 \<Longrightarrow> variable i (sync_variable i v c) = v"
  by (auto simp: variable_def sync_variable_def Let_def)

lemma variable_sync_other: "j < 8 \<Longrightarrow> j \<noteq> 5 \<Longrightarrow> j \<noteq> i \<Longrightarrow> variable j (sync_variable i v c) = variable j c"
  by (simp add: variable_def sync_variable_def Let_def)

lemma gfx_sync:
  "(i = 0 \<or> i = 2) \<or> gfx_sharpness c = (if screen_scaling c = 0 then 0 else screen_sharpness c) \<Longrightarrow>
   gfx_sharpness (sync_variable i v c)
   = (if screen_scaling (sync_variable i v c) = 0 then 0 else screen_sharpness (sync_variable i v c))"
  by (auto simp: sync_variable_def Let_def)

lemma variable_frontend [simp]: "variable i (c\<lparr>frontend := l\<rparr>) = variable i c"
  by (simp add: variable_def)

lemma syncFrontend_synced:
  assumes "synced_but e c" and "e = None \<or> e = Some i" and "i < 8" and "v < length (vals (options (frontend c) ! i))"
  shows "synced (Config_syncFrontend (key (options (frontend c) ! i)) v c)"
proof -
  let ?c = "sync_variable i v c"
  let ?os = "options (frontend c)"
  have os: "length ?os = 8" "distinct (map key ?os)" using assms(1) by (simp_all add: synced_but_def)
  have c': "Config_syncFrontend (key (?os ! i)) v c = ?c\<lparr>frontend := set_val i v (frontend c)\<rparr>"
    using os assms(3) by (simp add: Config_syncFrontend_def option_index_nth Let_def sync_variable_others)
  have keys: "map key (?os[i := (?os ! i)\<lparr>val := v\<rparr>]) = map key ?os"
    using assms(3) os(1) by (simp add: map_update list_update_same_conv)
  have "val (?os[i := (?os ! i)\<lparr>val := v\<rparr>] ! j) < length (vals (?os[i := (?os ! i)\<lparr>val := v\<rparr>] ! j))
      \<and> (j \<noteq> 5 \<longrightarrow> variable j ?c = val (?os[i := (?os ! i)\<lparr>val := v\<rparr>] ! j))" if "j < 8" for j
  proof (cases "j = i")
    case True
    then show ?thesis using that assms(4) os(1) variable_sync by simp
  next
    case False
    then show ?thesis
      using that assms(1,2) os(1) variable_sync_other [OF that _ False] by (auto simp: synced_but_def)
  qed
  moreover have "gfx_sharpness ?c = (if screen_scaling ?c = 0 then 0 else screen_sharpness ?c)"
    using assms(1,2) by (intro gfx_sync) (auto simp: synced_but_def)
  ultimately show ?thesis unfolding c' synced_but_def set_val_def using os keys by simp
qed

lemma synced_change:
  assumes "synced c" and "options l = (options (frontend c))[i := x]" and "key x = key (options (frontend c) ! i)"
  shows "synced_but (Some i) (c\<lparr>frontend := l\<rparr>)"
proof -
  have "map key ((options (frontend c))[i := x]) = map key (options (frontend c))"
    using assms(3) by (cases "i < length (options (frontend c))") (simp_all add: map_update list_update_same_conv list_update_beyond)
  then show ?thesis using assms(1,2) unfolding synced_but_def by auto
qed

lemma synced_frontend:
  assumes "synced c" and "map (\<lambda>x. (key x, val x, vals x)) (options l) = map (\<lambda>x. (key x, val x, vals x)) (options (frontend c))"
  shows "synced (c\<lparr>frontend := l\<rparr>)"
proof -
  have len: "length (options l) = length (options (frontend c))" using arg_cong [OF assms(2), of length] by simp
  have nth: "key (options l ! i) = key (options (frontend c) ! i)" "val (options l ! i) = val (options (frontend c) ! i)"
    "vals (options l ! i) = vals (options (frontend c) ! i)" if "i < length (options l)" for i
    using arg_cong [OF assms(2), of "\<lambda>xs. xs ! i"] that len by simp_all
  have "map key (options l) = map key (options (frontend c))" using nth len by (intro nth_equalityI) simp_all
  then show ?thesis using assms(1) len nth unfolding synced_but_def by simp
qed

lemma synced_variable: "synced c \<Longrightarrow> i < 8 \<Longrightarrow> i \<noteq> 5 \<Longrightarrow> variable i c < length (vals (options (frontend c) ! i))"
  by (simp add: synced_but_def)

lemma synced_set_variable:
  assumes "synced c" and "frontend c' = frontend c" and "\<And>j. j < 8 \<Longrightarrow> j \<noteq> i \<Longrightarrow> variable j c' = variable j c"
    and "i = 0 \<or> i = 2 \<or> gfx_sharpness c' = (if screen_scaling c' = 0 then 0 else screen_sharpness c')"
  shows "synced_but (Some i) c'"
  using assms unfolding synced_but_def by (auto split: if_splits)

lemma cycle_scale_synced: "synced c \<Longrightarrow> synced (cycle_scale c)"
proof -
  assume c: "synced c"
  let ?n = "length (vals (options (frontend c) ! 0))"
  define v where "v = (if screen_scaling c + 1 \<ge> ?n then screen_scaling c + 1 - ?n else screen_scaling c + 1)"
  have "screen_scaling c < ?n" using synced_variable [OF c, of 0] by (simp add: variable_def)
  then have "v < ?n" by (auto simp: v_def)
  moreover have "synced_but (Some 0) (c\<lparr>screen_scaling := v\<rparr>)"
    by (rule synced_set_variable [OF c]) (simp_all add: variable_def)
  moreover have "cycle_scale c = Config_syncFrontend (key (options (frontend c) ! 0)) v (c\<lparr>screen_scaling := v\<rparr>)"
    unfolding cycle_scale_def v_def Let_def by (rule refl)
  ultimately show ?thesis using syncFrontend_synced [of "Some 0" "c\<lparr>screen_scaling := v\<rparr>" 0 v] by simp
qed

lemma cycle_effect_synced:
  assumes c: "synced c" and n: "length (vals (options (frontend c) ! 1)) = EFFECT_COUNT"
  shows "synced (cycle_effect c)"
proof -
  define v where "v = (if screen_effect c + 1 \<ge> EFFECT_COUNT then screen_effect c + 1 - EFFECT_COUNT else screen_effect c + 1)"
  have "screen_effect c < EFFECT_COUNT" using synced_variable [OF c, of 1] n by (simp add: variable_def)
  then have "v < EFFECT_COUNT" by (auto simp: v_def)
  moreover have "synced_but (Some 1) (c\<lparr>screen_effect := v\<rparr>)"
    by (rule synced_set_variable [OF c]) (use c in \<open>simp_all add: variable_def synced_but_def\<close>)
  moreover have "cycle_effect c = Config_syncFrontend (key (options (frontend c) ! 1)) v (c\<lparr>screen_effect := v\<rparr>)"
    unfolding cycle_effect_def v_def Let_def by (rule refl)
  ultimately show ?thesis using syncFrontend_synced [of "Some 1" "c\<lparr>screen_effect := v\<rparr>" 1 v] n by simp
qed

definition frontend_ok :: "config \<Rightarrow> bool" where
  "frontend_ok c \<longleftrightarrow> synced c \<and> length (vals (options (frontend c) ! 1)) = EFFECT_COUNT"

lemma shape_vals: "shape (frontend c') = shape (frontend c) \<Longrightarrow> synced c' \<Longrightarrow>
    vals (options (frontend c') ! 1) = vals (options (frontend c) ! 1)"
  by (rule shape_nth [THEN conjunct2]) (simp_all add: synced_but_def)

lemma frontend_okI: "frontend_ok c \<Longrightarrow> shape (frontend c') = shape (frontend c) \<Longrightarrow> synced c' \<Longrightarrow> frontend_ok c'"
  unfolding frontend_ok_def by (metis shape_vals)

lemma cycle_shape: "shape (frontend (cycle_scale c)) = shape (frontend c)" "shape (frontend (cycle_effect c)) = shape (frontend c)"
  by (simp_all add: cycle_scale_def cycle_effect_def Let_def syncFrontend_shape)

lemma cycle_ok:
  assumes "frontend_ok c"
  shows "frontend_ok (cycle_scale c)" and "frontend_ok (cycle_effect c)"
proof -
  show "frontend_ok (cycle_scale c)"
    using assms by (intro frontend_okI [OF assms cycle_shape(1)] cycle_scale_synced) (simp add: frontend_ok_def)
  show "frontend_ok (cycle_effect c)"
    using assms unfolding frontend_ok_def
    by (intro frontend_okI [OF assms cycle_shape(2), unfolded frontend_ok_def] cycle_effect_synced) blast+
qed

lemma read_frontend_ok:
  assumes "frontend_ok c" and "i < 8"
  shows "frontend_ok (read_frontend cfg i c)"
proof (rule frontend_okI [OF assms(1) read_frontend_shape])
  obtain v b where v: "Config_getValue cfg (key (options (frontend c) ! i)) (lock (options (frontend c) ! i)) = (v, b)"
    by fastforce
  let ?c1 = "c\<lparr>frontend := set_lock i b (frontend c)\<rparr>"
  have c: "synced c" "i < length (options (frontend c))" using assms by (auto simp: frontend_ok_def synced_but_def)
  have c1: "synced ?c1"
    by (rule synced_frontend [OF c(1)]) (use c(2) in \<open>simp add: set_lock_def map_update list_update_same_conv\<close>)
  show "synced (read_frontend cfg i c)"
  proof (cases v)
    case None
    then show ?thesis using c1 v by (simp add: read_frontend_def Let_def)
  next
    case (Some x)
    let ?k = "key (options (frontend c) ! i)"
    let ?l = "OptionList_setOptionValue ?k v (frontend ?c1)"
    let ?o = "Option_setValue v (options (frontend ?c1) ! i)"
    have "?k = key (options (frontend ?c1) ! i)" using c(2) by (simp add: set_lock_def)
    then have l: "options ?l = (options (frontend ?c1))[i := ?o]"
      using c1 assms(2) option_index_nth [of "options (frontend ?c1)" i]
      by (simp add: OptionList_setOptionValue_def update_option_def synced_but_def)
    have "synced_but (Some i) (?c1\<lparr>frontend := ?l\<rparr>)"
      by (rule synced_change [OF c1 l]) (simp add: Option_setValue_def)
    moreover have opt: "options ?l ! i = ?o" unfolding l using c(2) by (simp add: set_lock_def)
    moreover have "val (options (frontend ?c1) ! i) < length (vals (options (frontend ?c1) ! i))"
      using c1 assms(2) unfolding synced_but_def by blast
    then have "vals (options (frontend ?c1) ! i) \<noteq> []" by auto
    then have "val (options ?l ! i) < length (vals (options ?l ! i))"
      unfolding opt by (simp add: Option_setValue_def getValueIndex_range)
    moreover have "?k = key (options ?l ! i)" unfolding opt using \<open>?k = _\<close> by (simp add: Option_setValue_def)
    ultimately have "synced (Config_syncFrontend ?k (val (options ?l ! i)) (?c1\<lparr>frontend := ?l\<rparr>))"
      using syncFrontend_synced [of "Some i" "?c1\<lparr>frontend := ?l\<rparr>" i "val (options ?l ! i)"] assms(2) by simp
    then show ?thesis using v Some by (simp add: read_frontend_def Let_def)
  qed
qed

lemma frontend_ok_rest:
  assumes "frontend_ok c" and "\<And>i. variable i c' = variable i c" and "frontend c' = frontend c"
    and "gfx_sharpness c' = gfx_sharpness c"
  shows "frontend_ok c'"
  using assms assms(2) [of 0] assms(2) [of 2] by (simp add: frontend_ok_def synced_but_def variable_def)

lemma restore_frontend_ok:
  assumes "frontend_ok c" and "i < 8" and "default_value (options (frontend c) ! i) < length (vals (options (frontend c) ! i))"
  shows "frontend_ok (restore_frontend i c)"
proof (rule frontend_okI [OF assms(1)])
  let ?o = "options (frontend c) ! i"
  let ?c = "c\<lparr>frontend := set_val i (default_value ?o) (frontend c)\<rparr>"
  have c: "synced c" "i < length (options (frontend c))" using assms by (auto simp: frontend_ok_def synced_but_def)
  have "synced_but (Some i) ?c"
    by (rule synced_change [OF c(1), where x = "?o\<lparr>val := default_value ?o\<rparr>"]) (simp_all add: set_val_def)
  moreover have "key (options (frontend ?c) ! i) = key ?o" "vals (options (frontend ?c) ! i) = vals ?o"
    using c(2) by (simp_all add: set_val_def)
  ultimately show "synced (restore_frontend i c)"
    using syncFrontend_synced [of "Some i" ?c i "default_value ?o"] assms(2,3) by (simp add: restore_frontend_def Let_def)
  show "shape (frontend (restore_frontend i c)) = shape (frontend c)"
    by (simp add: restore_frontend_def Let_def syncFrontend_shape)
qed

lemma frontend_ok_threads [simp]:
  "frontend_ok (c\<lparr>was_threaded := a, toggle_thread := b\<rparr>) = frontend_ok c"
  by (simp add: frontend_ok_def synced_but_def variable_def)

lemma shortcut_loop_ok: "frontend_ok (icfg s) \<Longrightarrow> frontend_ok (icfg (shortcut_loop pad i ms s))"
proof (induction pad i ms s rule: shortcut_loop.induct)
  case (2 pad i m ms s)
  have "frontend_ok (icfg (setFastForward b s))" "frontend_ok (icfg (run_shortcut i s))" "frontend_ok (icfg (toggle_ff s))" for b
    using "2.prems" cycle_ok by (simp_all add: setFastForward_def run_shortcut_def act_def toggle_ff_def Let_def)
  then show ?case using 2 by (simp add: Let_def)
qed simp

lemma input_frame_ok: "frontend_ok (icfg s) \<Longrightarrow> frontend_ok (icfg (input_frame pad s))"
  unfolding input_frame_def Let_def fold_control_keeps
  by (simp add: shortcut_loop_ok power_thread_def Let_def)

subsection \<open>Properties\<close>

text \<open>C35: what an option shows is what the program uses: the scaling, effect, sharpness, tearing, speed, debug and
  fast-forward variables equal the values of their options, in range, and the sharpness in use is
  the chosen one unless the picture is unscaled. Reading any configuration text, restoring the
  defaults one by one, cycling scaling or effect, and every input frame keep that.\<close>

theorem frontend_in_sync:
  assumes "frontend_ok c" and "icfg s = c" and "\<forall>o0 \<in> set (options (frontend c)). default_value o0 < length (vals o0)"
  shows "frontend_ok (fold (read_frontend cfg) [0..<length (options (frontend c))] c)
       \<and> (i < 8 \<longrightarrow> frontend_ok (restore_frontend i c))
       \<and> frontend_ok (icfg (input_frame pad s))"
proof (intro conjI impI)
  have len: "length (options (frontend c)) = 8" using assms(1) by (simp add: frontend_ok_def synced_but_def)
  have "(\<lambda>k c. frontend_ok c) 8 (fold (read_frontend cfg) [0..<8] c)"
    by (rule fold_upt_inv [where P = "\<lambda>k c. frontend_ok c"]) (use assms(1) read_frontend_ok in blast)+
  then show "frontend_ok (fold (read_frontend cfg) [0..<length (options (frontend c))] c)" by (simp add: len)
  show "frontend_ok (restore_frontend i c)" if "i < 8"
    using assms(1,3) that len by (intro restore_frontend_ok) simp_all
  show "frontend_ok (icfg (input_frame pad s))" using assms(1,2) by (intro input_frame_ok) simp
qed

text \<open>C17: what the core is told: after a frame, the core reads a joypad button as pressed, alone or in the mask of
  all buttons, exactly when some control that is mapped to it is bound to a device button that is
  down (for a direction on a standard gamepad, also the stick), together with the menu button if
  the binding asks for that; every other port and device reads as nothing.\<close>

theorem input_state_buttons:
  assumes "n < 16" and "s' = input_poll_callback poll f s" and "pad = ppad (ipwr s')"
  shows "(input_state_callback 0 RETRO_DEVICE_JOYPAD 0 n s' =
          (if \<exists>m \<in> set (controls (icfg s)). retro m = int n \<and> binding_down (gamepad_type (icfg s)) pad m then 1 else 0))
       \<and> (bit (input_state_callback 0 RETRO_DEVICE_JOYPAD 0 RETRO_DEVICE_ID_JOYPAD_MASK s') n
          \<longleftrightarrow> input_state_callback 0 RETRO_DEVICE_JOYPAD 0 n s' = 1)
       \<and> (port \<noteq> 0 \<longrightarrow> input_state_callback port device index n s' = 0)"
proof -
  define q where "q = PWR_update f ((ipwr s)\<lparr>ppad := poll (ppad (ipwr s)), dirty := False\<rparr>)"
  define s0 where "s0 = s\<lparr>ipwr := snd q, iacts := iacts s @ map Power (fst q)\<rparr>"
  have s': "s' = input_frame (ppad (snd q)) s0"
    by (simp add: assms(2) input_poll_callback_def q_def s0_def Let_def split_beta)
  have "ipwr s' = snd q" by (simp add: s' s0_def)
  then have pad: "pad = ppad (snd q)" by (simp add: assms(3))
  let ?on = "\<exists>m \<in> set (controls (icfg s)). retro m = int n \<and> binding_down (gamepad_type (icfg s)) pad m"
  have bits: "bit (buttons s') n \<longleftrightarrow> ?on"
    unfolding s' input_frame_def Let_def using assms(1) by (simp add: fold_control_buttons control_on_down pad s0_def)
  have "drop_bit n (buttons s') AND 1 = (if bit (buttons s') n then 1 else 0)"
    by (simp add: and_one_eq bit_iff_odd_drop_bit mod_2_eq_odd)
  then show ?thesis
    using bits assms(1) by (auto simp: input_state_callback_def RETRO_DEVICE_ID_JOYPAD_MASK_def bit_ucast_iff Let_def)
qed

text \<open>C36: the menu button: when it is pressed, held and released, the menu opens if nothing bound together with it
  was pressed or released meanwhile, and does not open if in any of the frames a volume key or a control was used with it, or any of the eight
  shortcuts bound with it was pressed, fast-forward included (the toggle also when released; the hold button unless the toggle moves in that frame).\<close>

theorem menu_button:
  assumes "menu_down p" and "\<forall>q \<in> set ps. menu_held q" and "menu_up r" and "\<not> show_menu s"
  shows "((\<exists>q \<in> set (p # ps). combo (icfg s) q) \<longrightarrow> \<not> show_menu (fold input_frame (p # ps @ [r]) s))
       \<and> ((\<forall>q \<in> set (p # ps). quiet (icfg s) q) \<longrightarrow> show_menu (fold input_frame (p # ps @ [r]) s))"
proof -
  let ?s1 = "input_frame p s"
  let ?s2 = "fold input_frame ps ?s1"
  have eq: "combo (icfg ?s1) = combo (icfg s)" "quiet (icfg ?s1) = quiet (icfg s)"
    by (rule combo_binds quiet_binds, simp)+
  have "show_menu (fold input_frame (p # ps @ [r]) s) = (show_menu ?s2 \<or> \<not> ignore_menu ?s2)"
    using assms(3) input_frame_release [of r ?s2] by (simp add: menu_up_def)
  moreover have "\<not> show_menu ?s2"
    using fold_held [OF assms(2), of ?s1] input_frame_show [of p s] assms(1,4) by (simp add: menu_down_def)
  moreover have "combo (icfg s) p \<Longrightarrow> ignore_menu ?s1" "quiet (icfg s) p \<Longrightarrow> \<not> ignore_menu ?s1"
    using input_frame_combo input_frame_quiet assms(1) by (auto simp: menu_down_def)
  ultimately show ?thesis using fold_held [OF assms(2), of ?s1] unfolding eq by auto
qed

text \<open>In every sequence of frames, fast-forward that was turned on by its toggle stays on until the toggle turns
  it off: pressing or releasing the hold button does not end it (provided that no button is
  pressed and released within one poll).\<close>

theorem toggled_stays_on:
  assumes "\<forall>p \<in> set pads. press_held p" and "buttons_ok (shortcuts (icfg s))" and "toggled_ff_on s \<longrightarrow> fast_forward s"
  shows "toggled_ff_on (fold input_frame pads s) \<longrightarrow> fast_forward (fold input_frame pads s)"
  using assms
proof (induction pads arbitrary: s)
  case (Cons p pads)
  from Cons.prems have "toggled_ff_on (input_frame p s) \<longrightarrow> fast_forward (input_frame p s)"
    by (intro input_frame_toggled) simp_all
  with Cons show ?case by simp
qed simp

definition demo_pad :: "nat list \<Rightarrow> nat list \<Rightarrow> nat list \<Rightarrow> PAD_Context" where
  \<comment> \<open>the buttons that are down, went down and came up\<close>
  "demo_pad held down up =
     \<lparr>is_pressed = foldr (\<lambda>i w. btn_mask i OR w) held 0, just_pressed = foldr (\<lambda>i w. btn_mask i OR w) down 0,
      just_released = foldr (\<lambda>i w. btn_mask i OR w) up 0, just_repeated = 0, repeat_at = replicate BTN_ID_COUNT 0,
      laxis = \<lparr>ax_x = 0, ax_y = 0\<rparr>, raxis = \<lparr>ax_x = 0, ax_y = 0\<rparr>\<rparr>"

definition demo_pwr :: pwr_state where
  "demo_pwr = \<lparr>ctx = \<lparr>can_sleep = True, can_poweroff = True, can_autosleep = True,
       requested_sleep = False, requested_wake = False, is_charging = False, charge = 100, should_warn = False, overlay_on = False\<rparr>,
     timers = \<lparr>last_input_at = 0, checked_charge_at = 0, setting_shown_at = 0, power_pressed_at = 0,
       mod_unpressed_at = 0, was_muted = False, was_charging = False\<rparr>,
     ppad = demo_pad [] [] [], dirty = False, show_setting = 0\<rparr>"

definition demo_input :: input where
  "demo_input = \<lparr>icfg = (demo_config 0 0 True [])\<lparr>controls := default_button_mapping\<rparr>, ipwr = demo_pwr, buttons = 0,
     ignore_menu = False, show_menu = False, toggled_ff_on = False, fast_forward = False, quit_game = False,
     should_run_core = True, iacts = []\<rparr>"

definition demo_frame :: pwr_frame where
  "demo_frame = \<lparr>now = 10, wake_at = 10, hdmi = False, muted = False, callbacks = True\<rparr>"

theorem input_state_buttons_witness:
  "input_state_callback 0 RETRO_DEVICE_JOYPAD 0 8 (input_poll_callback (\<lambda>_. demo_pad [BTN_ID_A] [] []) demo_frame demo_input) = 1"
proof -
  let ?s = "input_poll_callback (\<lambda>_. demo_pad [BTN_ID_A] [] []) demo_frame demo_input"
  have "\<exists>m \<in> set (controls (icfg demo_input)). retro m = int 8 \<and> binding_down (gamepad_type (icfg demo_input)) (ppad (ipwr ?s)) m"
    by code_simp
  then show ?thesis using input_state_buttons [of 8 ?s] by simp
qed

definition demo_menu_ff :: input where
  "demo_menu_ff = demo_input\<lparr>icfg := (icfg demo_input)\<lparr>shortcuts :=
     replicate 6 (demo_mapping ''x'' (- 1) False) @ [demo_mapping ''Toggle FF'' 4 True, demo_mapping ''Hold FF'' 5 True]\<rparr>\<rparr>"

text \<open>Nothing else pressed; with the volume; with the toggle and with the hold button of fast-forward.\<close>

theorem menu_button_witness:
  "show_menu (fold input_frame (demo_pad [16] [16] [] # [demo_pad [16] [] []] @ [demo_pad [] [] [16]]) demo_input)
   \<and> \<not> show_menu (fold input_frame (demo_pad [16] [16] [] # [demo_pad [16, 17] [17] []] @ [demo_pad [] [] [16, 17]]) demo_input)
   \<and> \<not> show_menu (fold input_frame (demo_pad [16] [16] [] # [demo_pad [16, 4] [4] []] @ [demo_pad [] [] [16, 4]]) demo_menu_ff)
   \<and> \<not> show_menu (fold input_frame (demo_pad [16] [16] [] # [demo_pad [16, 5] [5] []] @ [demo_pad [] [] [16, 5]]) demo_menu_ff)"
proof (intro conjI)
  have used: "\<exists>i < SHORTCUT_COUNT. shortcut_used pad ms i" if "list_ex (shortcut_used pad ms) [0..<8]" for pad ms
    using that by (auto simp: list_ex_iff)
  show "show_menu (fold input_frame (demo_pad [16] [16] [] # [demo_pad [16] [] []] @ [demo_pad [] [] [16]]) demo_input)"
    by (rule menu_button [THEN conjunct2, THEN mp]) code_simp+
  have volume: "combo (icfg demo_input) (demo_pad [16, 17] [17] [])" unfolding combo_def by (intro conjI disjI1) code_simp+
  show "\<not> show_menu (fold input_frame (demo_pad [16] [16] [] # [demo_pad [16, 17] [17] []] @ [demo_pad [] [] [16, 17]]) demo_input)"
    by (rule menu_button [THEN conjunct1, THEN mp]) (code_simp, code_simp, code_simp, code_simp, use volume in simp)
  have ff: "combo (icfg demo_menu_ff) (demo_pad [16, 4] [4] [])" "combo (icfg demo_menu_ff) (demo_pad [16, 5] [5] [])"
    unfolding combo_def by (intro conjI disjI2 used; code_simp)+
  show "\<not> show_menu (fold input_frame (demo_pad [16] [16] [] # [demo_pad [16, 4] [4] []] @ [demo_pad [] [] [16, 4]]) demo_menu_ff)"
    by (rule menu_button [THEN conjunct1, THEN mp]) (code_simp, code_simp, code_simp, code_simp, use ff in simp)
  show "\<not> show_menu (fold input_frame (demo_pad [16] [16] [] # [demo_pad [16, 5] [5] []] @ [demo_pad [] [] [16, 5]]) demo_menu_ff)"
    by (rule menu_button [THEN conjunct1, THEN mp]) (code_simp, code_simp, code_simp, code_simp, use ff in simp)
qed

definition demo_ff :: input where
  "demo_ff = demo_input\<lparr>icfg := (icfg demo_input)\<lparr>shortcuts :=
     replicate 6 (demo_mapping ''x'' (- 1) False) @ [demo_mapping ''Toggle FF'' 4 False, demo_mapping ''Hold FF'' 5 False]\<rparr>\<rparr>"

lemma bit_masks: "bit (foldr (\<lambda>i w. btn_mask i OR w) is 0) n \<longleftrightarrow> n \<in> set is \<and> n < 32"
  by (induction "is") (auto simp: bit_or_iff bit_btn_mask)

lemma demo_pad_held:
  assumes "set down \<subseteq> set held"
  shows "press_held (demo_pad held down up)"
proof -
  have "w AND btn_mask i \<noteq> 0 \<longleftrightarrow> bit w i" for w :: u32 and i
    using is_held_bit [of "(demo_pad [] [] [])\<lparr>is_pressed := w\<rparr>" i] by (simp add: is_held_def)
  then show ?thesis
    using assms by (auto simp: press_held_def PAD_justPressed_def PAD_isPressed_def demo_pad_def bit_masks)
qed

theorem toggled_stays_on_witness:
  "fast_forward (fold input_frame [demo_pad [4] [4] [], demo_pad [5] [5] [4], demo_pad [] [] [5]] demo_ff)"
proof -
  let ?pads = "[demo_pad [4] [4] [], demo_pad [5] [5] [4], demo_pad [] [] [5]]"
  have "toggled_ff_on (fold input_frame ?pads demo_ff) \<longrightarrow> fast_forward (fold input_frame ?pads demo_ff)"
    by (rule toggled_stays_on) (simp add: demo_pad_held, code_simp, code_simp)
  moreover have "toggled_ff_on (fold input_frame ?pads demo_ff)" by code_simp
  ultimately show ?thesis by blast
qed

definition demo_full :: config where
  "demo_full = (demo_config 0 0 True [])\<lparr>frontend := \<lparr>options = frontend_options False, changed = False\<rparr>,
     screen_scaling := 1, screen_sharpness := 2, gfx_sharpness := 2, prevent_tearing := 1, overclock := 1, max_ff_speed := 3\<rparr>"

theorem frontend_in_sync_witness:
  "frontend_ok (restore_frontend 0 demo_full)
   \<and> frontend_ok (icfg (input_frame (demo_pad [4] [4] []) (demo_input\<lparr>icfg := demo_full\<rparr>)))"
proof -
  have "frontend_ok demo_full" "\<forall>o0 \<in> set (options (frontend demo_full)). default_value o0 < length (vals o0)" by code_simp+
  from frontend_in_sync [OF this(1) _ this(2), of "demo_input\<lparr>icfg := demo_full\<rparr>" _ 0] show ?thesis by simp
qed

end
