(* ===== verification/OptionMenu.thy ===== *)
theory OptionMenu
  imports Input
begin

text \<open>
  The option menus of the in-game menu (\<open>minarch/menu.c\<close>, lines 160 to 640): building their items from the
  options and button mappings, moving the cursor in a window of rows, changing values, binding and
  clearing buttons, and saving or restoring the configuration.

  \<open>Menu_options\<close> works on any list through its callbacks. So does the model: what \<open>on_change\<close> and a binding
  \<open>on_confirm\<close> do to the configuration are function arguments of a frame. The locale \<open>option_menu\<close> says
  what a list's callbacks must do so that the rows keep showing what the configuration holds; the four
  menus of the program are its interpretations.
\<close>

subsection \<open>Items\<close>

datatype item_values = No_Values | Button_Labels | Labels "string list"

record MenuItem =
  mkey :: string
  mid :: nat            \<comment> \<open>the index of the option or mapping\<close>
  mvalue :: int
  mvalues :: item_values

definition option_item :: "OptionList \<Rightarrow> nat \<Rightarrow> MenuItem" where
  "option_item l i = (let o0 = options l ! i in
     \<lparr>mkey = key o0, mid = i, mvalue = int (val o0), mvalues = Labels (labels o0)\<rparr>)"

definition OptionList_buildMenu :: "OptionList \<Rightarrow> MenuItem list option \<Rightarrow> MenuItem list" where
  \<comment> \<open>the second argument: the items of an earlier call\<close>
  "OptionList_buildMenu l old =
     (case old of
        None \<Rightarrow> map (option_item l) (filter (\<lambda>i. \<not> lock (options l ! i)) [0..<length (options l)])
      | Some items \<Rightarrow> map (\<lambda>x. x\<lparr>mvalue := int (val (options l ! mid x))\<rparr>) items)"

definition binding_value :: "ButtonMapping \<Rightarrow> int" where
  "binding_value m = local m + 1 + (if bmod m then int LOCAL_BUTTON_COUNT else 0)"

definition button_item :: "ButtonMapping list \<Rightarrow> nat \<Rightarrow> MenuItem" where
  "button_item ms j = \<lparr>mkey = bname (ms ! j), mid = j, mvalue = binding_value (ms ! j), mvalues = Button_Labels\<rparr>"

definition gamepad_labels :: "string list" where "gamepad_labels = [''Standard'', ''DualShock'']"

definition controller_item :: "config \<Rightarrow> MenuItem" where
  "controller_item c = \<lparr>mkey = ''Controller'', mid = 0, mvalue = gamepad_type c, mvalues = Labels gamepad_labels\<rparr>"

definition set_values :: "int list \<Rightarrow> MenuItem list \<Rightarrow> MenuItem list" where
  \<comment> \<open>the k-th row gets the k-th value\<close>
  "set_values vs items = map2 (\<lambda>v x. x\<lparr>mvalue := v\<rparr>) vs items @ drop (length vs) items"

definition OptionControls_openMenu :: "config \<Rightarrow> MenuItem list option \<Rightarrow> MenuItem list" where
  "OptionControls_openMenu c old =
     (case old of
        None \<Rightarrow> (if has_custom_controllers c then [controller_item c] else [])
                @ map (button_item (controls c)) (filter (\<lambda>j. \<not> bignore (controls c ! j)) [0..<length (controls c)])
      | Some items \<Rightarrow>
          set_values ((if has_custom_controllers c then [gamepad_type c] else [])
                      @ map binding_value (filter (\<lambda>m. \<not> bignore m) (controls c))) items)"

definition OptionShortcuts_openMenu :: "config \<Rightarrow> MenuItem list option \<Rightarrow> MenuItem list" where
  "OptionShortcuts_openMenu c old =
     (case old of
        None \<Rightarrow> map (button_item (shortcuts c)) [0..<length (shortcuts c)]
      | Some items \<Rightarrow> set_values (map binding_value (shortcuts c)) items)"

subsection \<open>Callbacks\<close>

definition OptionFrontend_optionChanged :: "MenuItem \<Rightarrow> config \<Rightarrow> config" where
  "OptionFrontend_optionChanged x c = Config_syncFrontend (mkey x) (nat (mvalue x)) c"

definition OptionEmulator_optionChanged :: "MenuItem \<Rightarrow> config \<Rightarrow> config" where
  "OptionEmulator_optionChanged x c =
     c\<lparr>core_options := OptionList_setOptionRawValue (mkey x) (nat (mvalue x)) (core_options c)\<rparr>"

definition set_button :: "int \<Rightarrow> bool \<Rightarrow> nat \<Rightarrow> ButtonMapping list \<Rightarrow> ButtonMapping list" where
  "set_button l md i ms = ms[i := (ms ! i)\<lparr>local := l, bmod := md\<rparr>]"

definition OptionControls_optionChanged :: "MenuItem \<Rightarrow> config \<Rightarrow> config" where
  "OptionControls_optionChanged x c =
     (if has_custom_controllers c
      then c\<lparr>gamepad_type := mvalue x, port_device := scan_int (gamepad_values ! nat (mvalue x))\<rparr> else c)"

definition OptionControls_unbind :: "MenuItem \<Rightarrow> config \<Rightarrow> config" where
  "OptionControls_unbind x c =
     (if mvalues x = Button_Labels then c\<lparr>controls := set_button (- 1) False (mid x) (controls c)\<rparr> else c)"

definition controls_change :: "MenuItem \<Rightarrow> config \<Rightarrow> config" where
  \<comment> \<open>the controller's row has an \<open>on_change\<close> of its own\<close>
  "controls_change x c =
     (if mvalues x = Button_Labels then OptionControls_unbind x c else OptionControls_optionChanged x c)"

definition OptionControls_bind :: "int \<Rightarrow> bool \<Rightarrow> MenuItem \<Rightarrow> config \<Rightarrow> config" where
  "OptionControls_bind l md x c = c\<lparr>controls := set_button l md (mid x) (controls c)\<rparr>"

definition OptionShortcuts_unbind :: "MenuItem \<Rightarrow> config \<Rightarrow> config" where
  "OptionShortcuts_unbind x c = c\<lparr>shortcuts := set_button (- 1) False (mid x) (shortcuts c)\<rparr>"

definition OptionShortcuts_bind :: "int \<Rightarrow> bool \<Rightarrow> MenuItem \<Rightarrow> config \<Rightarrow> config" where
  "OptionShortcuts_bind l md x c = c\<lparr>shortcuts := set_button l md (mid x) (shortcuts c)\<rparr>"

definition no_bind :: "int \<Rightarrow> bool \<Rightarrow> MenuItem \<Rightarrow> config \<Rightarrow> config" where
  \<comment> \<open>lists without button rows\<close>
  "no_bind l md x c = c"

definition pressed_id :: "PAD_Context \<Rightarrow> nat option" where
  "pressed_id pad = find (\<lambda>i. PAD_justPressed pad (shift1 (int i - 1))) [0..<LOCAL_BUTTON_COUNT + 1]"

fun Option_bindButton :: "PAD_Context list \<Rightarrow> (int \<times> bool) option" where
  \<comment> \<open>a pad per frame; \<open>None\<close> while no button was pressed\<close>
  "Option_bindButton [] = None"
| "Option_bindButton (pad # pads) =
     (case pressed_id pad of
        Some i \<Rightarrow> Some (int i - 1, PAD_isPressed pad BTN_MENU)
      | None \<Rightarrow> Option_bindButton pads)"

definition OptionSaveChanges_onConfirm :: "session \<Rightarrow> nat \<Rightarrow> config \<Rightarrow> (config \<times> string) option" where
  "OptionSaveChanges_onConfirm e i c =
     (if i = 0 then map_option (\<lambda>c. (c, ''Saved for console.'')) (Config_write e False c)
      else if i = 1 then map_option (\<lambda>c. (c, ''Saved for game.'')) (Config_write e True c)
      else map_option (\<lambda>c. (c, if loaded_cfg c \<noteq> CONFIG_NONE then ''Restored console defaults.'' else ''Restored defaults.''))
             (Config_restore e c))"

subsection \<open>The cursor\<close>

record rows =
  sel :: int
  top :: int
  bot :: int

definition Menu_selectNext :: "int \<Rightarrow> int \<Rightarrow> rows \<Rightarrow> rows" where
  "Menu_selectNext count visible_rows w =
     (let w = w\<lparr>sel := sel w + 1\<rparr> in
      if sel w \<ge> count then \<lparr>sel = 0, top = 0, bot = visible_rows\<rparr>
      else if sel w \<ge> bot w then w\<lparr>top := top w + 1, bot := bot w + 1\<rparr> else w)"

definition Menu_selectPrev :: "int \<Rightarrow> int \<Rightarrow> rows \<Rightarrow> rows" where
  "Menu_selectPrev count max_visible_options w =
     (let w = w\<lparr>sel := sel w - 1\<rparr> in
      if sel w < 0 then \<lparr>sel = count - 1, top = max 0 (count - max_visible_options), bot = count\<rparr>
      else if sel w < top w then w\<lparr>top := top w - 1, bot := bot w - 1\<rparr> else w)"

subsection \<open>Frames\<close>

record options_menu =
  mitems :: "MenuItem list"
  mrows :: rows
  show_options :: bool
  await_input :: bool
  mcfg :: config
  confirmed :: "nat list"      \<comment> \<open>rows on which A was pressed, other than to bind\<close>

definition menu_start :: "int \<Rightarrow> MenuItem list \<Rightarrow> config \<Rightarrow> options_menu" where
  "menu_start max_visible_options items c =
     \<lparr>mitems = items, mrows = \<lparr>sel = 0, top = 0, bot = min (int (length items)) max_visible_options\<rparr>,
      show_options = True, await_input = False, mcfg = c, confirmed = []\<rparr>"

definition visible_rows :: "int \<Rightarrow> options_menu \<Rightarrow> int" where
  "visible_rows maxv m = min (int (length (mitems m))) maxv"

definition next_row :: "int \<Rightarrow> options_menu \<Rightarrow> options_menu" where
  "next_row maxv m = m\<lparr>mrows := Menu_selectNext (int (length (mitems m))) (visible_rows maxv m) (mrows m)\<rparr>"

definition current :: "options_menu \<Rightarrow> MenuItem" where
  "current m = mitems m ! nat (sel (mrows m))"

definition set_current :: "MenuItem \<Rightarrow> config \<Rightarrow> options_menu \<Rightarrow> options_menu" where
  "set_current x c m = m\<lparr>mitems := (mitems m)[nat (sel (mrows m)) := x], mcfg := c\<rparr>"

definition change_current :: "(MenuItem \<Rightarrow> config \<Rightarrow> config) \<Rightarrow> int \<Rightarrow> options_menu \<Rightarrow> options_menu" where
  "change_current on_change v m = (let x = (current m)\<lparr>mvalue := v\<rparr> in set_current x (on_change x (mcfg m)) m)"

definition value_left :: "string list \<Rightarrow> int \<Rightarrow> int" where
  "value_left ls v = (if v > 0 then v - 1 else int (length ls) - 1)"

definition value_right :: "string list \<Rightarrow> int \<Rightarrow> int" where
  "value_right ls v = (if v + 1 < int (length ls) then v + 1 else 0)"

definition menu_await :: "(int \<Rightarrow> bool \<Rightarrow> MenuItem \<Rightarrow> config \<Rightarrow> config) \<Rightarrow> int \<Rightarrow> PAD_Context list \<Rightarrow> options_menu \<Rightarrow> options_menu option" where
  \<comment> \<open>\<open>None\<close>: still waiting for the button to bind\<close>
  "menu_await bind maxv pads m =
     (if await_input m then
        (case Option_bindButton pads of
           None \<Rightarrow> None
         | Some (l, md) \<Rightarrow>
             (let x = (current m)\<lparr>mvalue := l + 1 + (if md then int LOCAL_BUTTON_COUNT else 0)\<rparr>
              in Some ((next_row maxv (set_current x (bind l md x (mcfg m)) m))\<lparr>await_input := False\<rparr>)))
      else Some m)"

definition menu_move :: "(MenuItem \<Rightarrow> config \<Rightarrow> config) \<Rightarrow> int \<Rightarrow> PAD_Context \<Rightarrow> options_menu \<Rightarrow> options_menu" where
  "menu_move on_change maxv pad m =
     (if PAD_justRepeated pad BTN_UP then m\<lparr>mrows := Menu_selectPrev (int (length (mitems m))) maxv (mrows m)\<rparr>
      else if PAD_justRepeated pad BTN_DOWN then next_row maxv m
      else (case mvalues (current m) of
              Labels ls \<Rightarrow>
                if PAD_justRepeated pad BTN_LEFT then change_current on_change (value_left ls (mvalue (current m))) m
                else if PAD_justRepeated pad BTN_RIGHT then change_current on_change (value_right ls (mvalue (current m))) m
                else m
            | _ \<Rightarrow> m))"

definition menu_press :: "bool \<Rightarrow> (MenuItem \<Rightarrow> config \<Rightarrow> config) \<Rightarrow> (nat \<Rightarrow> bool) \<Rightarrow> int \<Rightarrow> PAD_Context \<Rightarrow> options_menu \<Rightarrow> options_menu" where
  \<comment> \<open>\<open>is_input\<close>: of type \<open>MENU_INPUT\<close>; \<open>exits\<close>: whether the row's \<open>on_confirm\<close> asks to leave\<close>
  "menu_press is_input on_change exits maxv pad m =
     (if PAD_justPressed pad (btn_mask BTN_ID_B) then m\<lparr>show_options := False\<rparr>
      else if PAD_justPressed pad (btn_mask BTN_ID_A) then
        (if mvalues (current m) = Button_Labels then m\<lparr>await_input := True\<rparr>
         else (let i = nat (sel (mrows m)); m = m\<lparr>confirmed := confirmed m @ [i]\<rparr>
               in if exits i then m\<lparr>show_options := False\<rparr> else m))
      else if is_input \<and> PAD_justPressed pad (btn_mask BTN_ID_X) then next_row maxv (change_current on_change 0 m)
      else m)"

definition options_frame :: "bool \<Rightarrow> (MenuItem \<Rightarrow> config \<Rightarrow> config) \<Rightarrow> (int \<Rightarrow> bool \<Rightarrow> MenuItem \<Rightarrow> config \<Rightarrow> config) \<Rightarrow>
    (nat \<Rightarrow> bool) \<Rightarrow> int \<Rightarrow> PAD_Context list \<times> PAD_Context \<Rightarrow> options_menu \<Rightarrow> options_menu" where
  "options_frame is_input on_change bind exits maxv frame m =
     (if \<not> show_options m then m
      else (case menu_await bind maxv (fst frame) m of
              None \<Rightarrow> m
            | Some m \<Rightarrow> menu_press is_input on_change exits maxv (snd frame) (menu_move on_change maxv (snd frame) m)))"

definition Menu_options :: "bool \<Rightarrow> (MenuItem \<Rightarrow> config \<Rightarrow> config) \<Rightarrow> (int \<Rightarrow> bool \<Rightarrow> MenuItem \<Rightarrow> config \<Rightarrow> config) \<Rightarrow>
    (nat \<Rightarrow> bool) \<Rightarrow> int \<Rightarrow> (PAD_Context list \<times> PAD_Context) list \<Rightarrow> MenuItem list \<Rightarrow> config \<Rightarrow> options_menu" where
  "Menu_options is_input on_change bind exits maxv frames items c =
     fold (options_frame is_input on_change bind exits maxv) frames (menu_start maxv items c)"

subsection \<open>The window of rows\<close>

definition rows_ok :: "int \<Rightarrow> options_menu \<Rightarrow> bool" where
  "rows_ok maxv m \<longleftrightarrow> mitems m \<noteq> [] \<and> 0 \<le> top (mrows m) \<and> top (mrows m) \<le> sel (mrows m) \<and> sel (mrows m) < bot (mrows m)
     \<and> bot (mrows m) \<le> int (length (mitems m)) \<and> bot (mrows m) - top (mrows m) = visible_rows maxv m"

lemma rows_ok_current: "rows_ok maxv m \<Longrightarrow> nat (sel (mrows m)) < length (mitems m)"
  by (auto simp: rows_ok_def nat_less_iff)

lemma rows_start: "items \<noteq> [] \<Longrightarrow> 0 < maxv \<Longrightarrow> rows_ok maxv (menu_start maxv items c)"
  by (auto simp: rows_ok_def menu_start_def visible_rows_def)

lemma rows_next: "0 < maxv \<Longrightarrow> rows_ok maxv m \<Longrightarrow> rows_ok maxv (next_row maxv m)"
  by (auto simp: rows_ok_def next_row_def Menu_selectNext_def visible_rows_def Let_def)

lemma rows_prev:
  "0 < maxv \<Longrightarrow> rows_ok maxv m \<Longrightarrow> rows_ok maxv (m\<lparr>mrows := Menu_selectPrev (int (length (mitems m))) maxv (mrows m)\<rparr>)"
  by (auto simp: rows_ok_def Menu_selectPrev_def visible_rows_def Let_def)

lemma rows_set_current [simp]: "rows_ok maxv (set_current x c m) = rows_ok maxv m"
  by (simp add: rows_ok_def set_current_def visible_rows_def)

lemma next_row_keeps [simp]:
  "mitems (next_row maxv m) = mitems m" "mcfg (next_row maxv m) = mcfg m"
  by (simp_all add: next_row_def)

lemma next_row_await: "\<not> await_input m \<Longrightarrow> (next_row maxv m)\<lparr>await_input := False\<rparr> = next_row maxv m"
  by (cases m) (simp add: next_row_def)

subsection \<open>What rows show\<close>

definition row_ok :: "MenuItem \<Rightarrow> bool" where
  "row_ok x = (case mvalues x of
     No_Values \<Rightarrow> False
   | Button_Labels \<Rightarrow> 0 \<le> mvalue x \<and> mvalue x < int (length button_labels)
   | Labels ls \<Rightarrow> 0 \<le> mvalue x \<and> mvalue x < int (length ls))"

definition slot_of :: "MenuItem \<Rightarrow> bool \<times> nat" where
  "slot_of x = (mvalues x = Button_Labels, mid x)"

definition changeable :: "MenuItem \<Rightarrow> bool" where
  \<comment> \<open>the value an \<open>on_change\<close> may see: any label, and for a button only NONE\<close>
  "changeable x \<longleftrightarrow> row_ok x \<and> (mvalues x = Button_Labels \<longrightarrow> mvalue x = 0)"

definition showing :: "(config \<Rightarrow> MenuItem \<Rightarrow> int) \<Rightarrow> (config \<Rightarrow> MenuItem \<Rightarrow> bool) \<Rightarrow> config \<Rightarrow> MenuItem \<Rightarrow> bool" where
  \<comment> \<open>the row is one of the configuration's, and shows its setting\<close>
  "showing setting belongs c x \<longleftrightarrow> belongs c x \<and> row_ok x \<and> setting c x = mvalue x"

definition menu_inv :: "(config \<Rightarrow> MenuItem \<Rightarrow> int) \<Rightarrow> (config \<Rightarrow> MenuItem \<Rightarrow> bool) \<Rightarrow> (config \<Rightarrow> bool) \<Rightarrow> int \<Rightarrow> options_menu \<Rightarrow> bool" where
  "menu_inv setting belongs cok maxv m \<longleftrightarrow> rows_ok maxv m \<and> distinct (map slot_of (mitems m)) \<and> cok (mcfg m)
     \<and> (\<forall>x \<in> set (mitems m). showing setting belongs (mcfg m) x) \<and> (await_input m \<longrightarrow> mvalues (current m) = Button_Labels)"

lemma pressed_id_range: "pressed_id pad = Some i \<Longrightarrow> 1 \<le> i \<and> i \<le> 16"
proof -
  assume "pressed_id pad = Some i"
  then have "i < 17" "PAD_justPressed pad (shift1 (int i - 1))"
    by (auto simp: pressed_id_def find_Some_iff LOCAL_BUTTON_COUNT_def nth_append split: if_splits)
  moreover have "i \<noteq> 0"
  proof
    assume "i = 0"
    then have "shift1 (int i - 1) = 0" by (simp add: shift1_def)
    then show False using calculation(2) justPressed_0 by simp
  qed
  ultimately show ?thesis by simp
qed

lemma Option_bindButton_range: "Option_bindButton pads = Some (l, md) \<Longrightarrow> 0 \<le> l \<and> l < 16"
  by (induction pads) (auto split: option.splits dest: pressed_id_range)

locale option_menu =
  fixes on_change :: "MenuItem \<Rightarrow> config \<Rightarrow> config"
    and bind :: "int \<Rightarrow> bool \<Rightarrow> MenuItem \<Rightarrow> config \<Rightarrow> config"
    and setting :: "config \<Rightarrow> MenuItem \<Rightarrow> int"
    and belongs :: "config \<Rightarrow> MenuItem \<Rightarrow> bool"
    and cok :: "config \<Rightarrow> bool"
  assumes change_sets: "cok c \<Longrightarrow> belongs c x \<Longrightarrow> changeable x \<Longrightarrow> setting (on_change x c) x = mvalue x"
    and change_other: "cok c \<Longrightarrow> belongs c x \<Longrightarrow> changeable x \<Longrightarrow> belongs c y \<Longrightarrow> slot_of y \<noteq> slot_of x \<Longrightarrow>
           setting (on_change x c) y = setting c y"
    and change_belongs: "cok c \<Longrightarrow> belongs c x \<Longrightarrow> changeable x \<Longrightarrow> belongs c y \<Longrightarrow> belongs (on_change x c) y"
    and change_ok: "cok c \<Longrightarrow> belongs c x \<Longrightarrow> changeable x \<Longrightarrow> cok (on_change x c)"
    and bind_sets: "cok c \<Longrightarrow> belongs c x \<Longrightarrow> mvalues x = Button_Labels \<Longrightarrow> 0 \<le> l \<Longrightarrow> l < 16 \<Longrightarrow>
           setting (bind l md x c) x = l + 1 + (if md then 16 else 0)"
    and bind_other: "cok c \<Longrightarrow> belongs c x \<Longrightarrow> mvalues x = Button_Labels \<Longrightarrow> 0 \<le> l \<Longrightarrow> l < 16 \<Longrightarrow> belongs c y \<Longrightarrow>
           slot_of y \<noteq> slot_of x \<Longrightarrow> setting (bind l md x c) y = setting c y"
    and bind_belongs: "cok c \<Longrightarrow> belongs c x \<Longrightarrow> mvalues x = Button_Labels \<Longrightarrow> 0 \<le> l \<Longrightarrow> l < 16 \<Longrightarrow> belongs c y \<Longrightarrow>
           belongs (bind l md x c) y"
    and bind_ok: "cok c \<Longrightarrow> belongs c x \<Longrightarrow> mvalues x = Button_Labels \<Longrightarrow> 0 \<le> l \<Longrightarrow> l < 16 \<Longrightarrow> cok (bind l md x c)"
    and shown_apart: "setting c (x\<lparr>mvalue := v\<rparr>) = setting c x" "belongs c (x\<lparr>mvalue := v\<rparr>) = belongs c x"
begin

lemma showing_updated:
  assumes "distinct (map slot_of xs)" and "i < length xs" and "slot_of x = slot_of (xs ! i)" and "showing setting belongs c' x"
    and "\<And>y. y \<in> set xs \<Longrightarrow> slot_of y \<noteq> slot_of x \<Longrightarrow> showing setting belongs c' y"
  shows "\<forall>y \<in> set (xs[i := x]). showing setting belongs c' y"
proof
  fix y assume "y \<in> set (xs[i := x])"
  then obtain j where j: "j < length xs" "y = xs[i := x] ! j" by (auto simp: in_set_conv_nth)
  show "showing setting belongs c' y"
  proof (cases "j = i")
    case True
    then show ?thesis using j assms(2,4) by simp
  next
    case False
    then have "slot_of (xs ! j) \<noteq> slot_of (xs ! i)"
      using assms(1,2) j(1) nth_eq_iff_index_eq [of "map slot_of xs" j i] by simp
    then show ?thesis using j False assms(3,5) by simp
  qed
qed

lemma set_current_inv:
  assumes "menu_inv setting belongs cok maxv m" and "slot_of x = slot_of (current m)" and "showing setting belongs c' x" and "cok c'"
    and "\<And>y. y \<in> set (mitems m) \<Longrightarrow> slot_of y \<noteq> slot_of x \<Longrightarrow> showing setting belongs c' y" and "mvalues x = mvalues (current m)"
  shows "menu_inv setting belongs cok maxv (set_current x c' m)"
proof -
  let ?i = "nat (sel (mrows m))"
  have i: "?i < length (mitems m)" using assms(1) rows_ok_current by (auto simp: menu_inv_def)
  have "map slot_of ((mitems m)[?i := x]) = map slot_of (mitems m)"
    using i assms(2) by (simp add: map_update current_def list_update_same_conv)
  moreover have "\<forall>y \<in> set ((mitems m)[?i := x]). showing setting belongs c' y"
    using assms(1-3,5) i by (intro showing_updated) (auto simp: menu_inv_def current_def)
  ultimately show ?thesis using assms i by (simp add: menu_inv_def set_current_def rows_ok_def visible_rows_def current_def)
qed

lemma change_inv:
  assumes "menu_inv setting belongs cok maxv m" and "changeable ((current m)\<lparr>mvalue := v\<rparr>)"
  shows "menu_inv setting belongs cok maxv (change_current on_change v m)"
proof -
  let ?x = "(current m)\<lparr>mvalue := v\<rparr>"
  have "current m \<in> set (mitems m)" using assms(1) rows_ok_current by (auto simp: menu_inv_def current_def)
  then have b: "belongs (mcfg m) ?x" and c: "cok (mcfg m)" using assms(1) by (auto simp: menu_inv_def showing_def shown_apart)
  show ?thesis unfolding change_current_def Let_def
  proof (rule set_current_inv [OF assms(1)])
    show "showing setting belongs (on_change ?x (mcfg m)) ?x"
      using change_sets [OF c b assms(2)] change_belongs [OF c b assms(2) b] assms(2) by (simp add: showing_def changeable_def)
    show "showing setting belongs (on_change ?x (mcfg m)) y" if "y \<in> set (mitems m)" "slot_of y \<noteq> slot_of ?x" for y
      using that assms(1) change_other [OF c b assms(2)] change_belongs [OF c b assms(2)] by (simp add: menu_inv_def showing_def)
  qed (simp_all add: slot_of_def change_ok [OF c b assms(2)])
qed

lemma bind_inv:
  fixes md :: bool
  assumes "menu_inv setting belongs cok maxv m" and "mvalues (current m) = Button_Labels" and "0 \<le> l" and "l < 16"
  defines "x \<equiv> (current m)\<lparr>mvalue := l + 1 + (if md then int LOCAL_BUTTON_COUNT else 0)\<rparr>"
  shows "menu_inv setting belongs cok maxv (set_current x (bind l md x (mcfg m)) m)"
proof -
  have "current m \<in> set (mitems m)" using assms(1) rows_ok_current by (auto simp: menu_inv_def current_def)
  then have b: "belongs (mcfg m) x" and c: "cok (mcfg m)" using assms(1) by (auto simp: menu_inv_def showing_def shown_apart x_def)
  have v: "mvalues x = Button_Labels" using assms(2) by (simp add: x_def)
  show ?thesis
  proof (rule set_current_inv [OF assms(1)])
    show "showing setting belongs (bind l md x (mcfg m)) x"
      using bind_sets [OF c b v assms(3,4)] bind_belongs [OF c b v assms(3,4) b] assms(3,4) v
      by (simp add: showing_def row_ok_def button_labels_facts x_def LOCAL_BUTTON_COUNT_def)
    show "showing setting belongs (bind l md x (mcfg m)) y" if "y \<in> set (mitems m)" "slot_of y \<noteq> slot_of x" for y
      using that assms(1) bind_other [OF c b v assms(3,4)] bind_belongs [OF c b v assms(3,4)] by (simp add: menu_inv_def showing_def)
  qed (simp_all add: slot_of_def x_def bind_ok [OF c b v assms(3,4), unfolded x_def])
qed

lemma next_row_inv:
  assumes "0 < maxv" and "menu_inv setting belongs cok maxv m"
  shows "menu_inv setting belongs cok maxv ((next_row maxv m)\<lparr>await_input := False\<rparr>)"
  using assms rows_next [OF assms(1), of m] by (simp add: menu_inv_def rows_ok_def visible_rows_def)

lemma await_inv:
  assumes "0 < maxv" and "menu_inv setting belongs cok maxv m" and "menu_await bind maxv pads m = Some m'"
  shows "menu_inv setting belongs cok maxv m' \<and> \<not> await_input m'"
proof (cases "await_input m")
  case True
  then obtain l md where b: "Option_bindButton pads = Some (l, md)" using assms(3) by (auto simp: menu_await_def split: option.splits)
  then have "0 \<le> l" "l < 16" using Option_bindButton_range by auto
  then show ?thesis
    using True b assms bind_inv [OF assms(2) _ \<open>0 \<le> l\<close> \<open>l < 16\<close>] next_row_inv [OF assms(1)]
    by (auto simp: menu_await_def menu_inv_def Let_def)
qed (use assms in \<open>simp add: menu_await_def\<close>)

lemma current_row:
  assumes "menu_inv setting belongs cok maxv m"
  shows "row_ok (current m)"
  using assms rows_ok_current [of maxv m] by (auto simp: menu_inv_def showing_def current_def)

lemma rows_move_inv:
  assumes "0 < maxv" and "menu_inv setting belongs cok maxv m" and "\<not> await_input m"
  shows "menu_inv setting belongs cok maxv (menu_move on_change maxv pad m) \<and> \<not> await_input (menu_move on_change maxv pad m)"
proof -
  note change = change_inv [OF assms(2)]
  have "changeable ((current m)\<lparr>mvalue := value_left ls (mvalue (current m))\<rparr>)"
    "changeable ((current m)\<lparr>mvalue := value_right ls (mvalue (current m))\<rparr>)" if "mvalues (current m) = Labels ls" for ls
    using current_row [OF assms(2)] that by (auto simp: changeable_def row_ok_def value_left_def value_right_def)
  moreover have "menu_inv setting belongs cok maxv (next_row maxv m)"
    using next_row_inv [OF assms(1,2)] next_row_await [OF assms(3)] by simp
  moreover have "menu_inv setting belongs cok maxv (m\<lparr>mrows := Menu_selectPrev (int (length (mitems m))) maxv (mrows m)\<rparr>)"
    using assms rows_prev by (simp add: menu_inv_def)
  ultimately show ?thesis
    using assms(2,3) change
    by (auto simp: menu_move_def change_current_def set_current_def next_row_def Let_def split: item_values.split)
qed

lemma press_inv:
  assumes "0 < maxv" and "menu_inv setting belongs cok maxv m" and "\<not> await_input m"
  shows "menu_inv setting belongs cok maxv (menu_press is_input on_change exits maxv pad m)"
proof -
  have "changeable ((current m)\<lparr>mvalue := 0\<rparr>)"
    using current_row [OF assms(2)] by (auto simp: changeable_def row_ok_def split: item_values.splits)
  then have c: "menu_inv setting belongs cok maxv (change_current on_change 0 m)" by (rule change_inv [OF assms(2)])
  have "(next_row maxv (change_current on_change 0 m))\<lparr>await_input := False\<rparr> = next_row maxv (change_current on_change 0 m)"
    using assms(3) by (intro next_row_await) (simp add: change_current_def set_current_def Let_def)
  then have "menu_inv setting belongs cok maxv (next_row maxv (change_current on_change 0 m))"
    using next_row_inv [OF assms(1) c] by simp
  moreover have "menu_inv setting belongs cok maxv (m\<lparr>show_options := b\<rparr>)" "menu_inv setting belongs cok maxv (m\<lparr>confirmed := k, show_options := b\<rparr>)"
    "menu_inv setting belongs cok maxv (m\<lparr>confirmed := k\<rparr>)" for b k
    using assms(2) by (simp_all add: menu_inv_def rows_ok_def visible_rows_def current_def)
  moreover have "mvalues (current m) = Button_Labels \<Longrightarrow> menu_inv setting belongs cok maxv (m\<lparr>await_input := True\<rparr>)"
    using assms(2) by (simp add: menu_inv_def rows_ok_def visible_rows_def current_def)
  ultimately show ?thesis using assms(2) by (simp add: menu_press_def Let_def)
qed

lemma frame_inv:
  assumes "0 < maxv" and "menu_inv setting belongs cok maxv m"
  shows "menu_inv setting belongs cok maxv (options_frame is_input on_change bind exits maxv frame m)"
  using assms await_inv [OF assms] rows_move_inv [OF assms(1)] press_inv [OF assms(1)]
  by (auto simp: options_frame_def split: option.split)

lemma menu_session:
  assumes "0 < maxv" and "items \<noteq> []" and "distinct (map slot_of items)" and "cok c"
    and "\<forall>x \<in> set items. showing setting belongs c x"
  shows "menu_inv setting belongs cok maxv (Menu_options is_input on_change bind exits maxv frames items c)"
proof -
  have "menu_inv setting belongs cok maxv (menu_start maxv items c)"
    using assms rows_start [OF assms(2,1)] by (simp add: menu_inv_def menu_start_def)
  then show ?thesis unfolding Menu_options_def
    by (rule fold_inv [where P = "menu_inv setting belongs cok maxv", rotated]) (rule frame_inv [OF assms(1)])
qed

end

subsection \<open>The four menus\<close>

text \<open>Frontend options.\<close>

definition option_row :: "OptionList \<Rightarrow> MenuItem \<Rightarrow> bool" where
  "option_row l x \<longleftrightarrow> mid x < length (options l) \<and> mkey x = key (options l ! mid x)
     \<and> (case mvalues x of Labels ls \<Rightarrow> length ls = length (vals (options l ! mid x)) | _ \<Rightarrow> False)"

definition option_setting :: "OptionList \<Rightarrow> MenuItem \<Rightarrow> int" where
  "option_setting l x = int (val (options l ! mid x))"

lemma option_row_apart: "option_row l (x\<lparr>mvalue := v\<rparr>) = option_row l x" "option_setting l (x\<lparr>mvalue := v\<rparr>) = option_setting l x"
  by (simp_all add: option_row_def option_setting_def split: item_values.split)

lemma option_row_labels: "option_row l x \<Longrightarrow> mvalues x \<noteq> Button_Labels"
  by (auto simp: option_row_def)

lemma option_row_set:
  assumes "option_row l x" and "options l' = (options l)[mid x := (options l ! mid x)\<lparr>val := v\<rparr>]"
  shows "option_row l y \<Longrightarrow> option_row l' y" and "option_setting l' x = int v"
    and "option_row l y \<Longrightarrow> slot_of y \<noteq> slot_of x \<Longrightarrow> option_setting l' y = option_setting l y"
proof -
  have i: "mid x < length (options l)" using assms(1) by (simp add: option_row_def)
  show "option_row l y \<Longrightarrow> option_row l' y"
    using i by (cases "mid y = mid x") (auto simp: option_row_def assms(2) split: item_values.splits)
  show "option_setting l' x = int v" using i by (simp add: option_setting_def assms(2))
  show "option_row l y \<Longrightarrow> slot_of y \<noteq> slot_of x \<Longrightarrow> option_setting l' y = option_setting l y"
    using option_row_labels assms(1) by (auto simp: option_setting_def slot_of_def assms(2))
qed

lemma option_row_value:
  assumes "option_row l x" and "changeable x"
  shows "nat (mvalue x) < length (vals (options l ! mid x))" and "int (nat (mvalue x)) = mvalue x"
  using assms by (auto simp: option_row_def changeable_def row_ok_def split: item_values.splits)

lemma frontend_changed:
  assumes "frontend_ok c" and "option_row (frontend c) x" and "changeable x"
  shows "options (frontend (OptionFrontend_optionChanged x c))
         = (options (frontend c))[mid x := (options (frontend c) ! mid x)\<lparr>val := nat (mvalue x)\<rparr>]"
    and "frontend_ok (OptionFrontend_optionChanged x c)"
proof -
  have x: "mid x < length (options (frontend c))" "mkey x = key (options (frontend c) ! mid x)"
    using assms(2) by (simp_all add: option_row_def)
  have c: "distinct (map key (options (frontend c)))" "synced c" "length (options (frontend c)) = 8"
    using assms(1) by (simp_all add: frontend_ok_def synced_but_def)
  show "options (frontend (OptionFrontend_optionChanged x c))
      = (options (frontend c))[mid x := (options (frontend c) ! mid x)\<lparr>val := nat (mvalue x)\<rparr>]"
    unfolding OptionFrontend_optionChanged_def x(2) by (rule syncFrontend_nth [OF c(1) x(1)])
  have "synced (OptionFrontend_optionChanged x c)"
    unfolding OptionFrontend_optionChanged_def x(2)
    using x(1) c(3) option_row_value(1) [OF assms(2,3)] by (intro syncFrontend_synced [OF c(2)]) simp_all
  then show "frontend_ok (OptionFrontend_optionChanged x c)"
    by (rule frontend_okI [OF assms(1), rotated]) (simp add: OptionFrontend_optionChanged_def syncFrontend_shape)
qed

interpretation frontend_menu: option_menu OptionFrontend_optionChanged no_bind
    "\<lambda>c. option_setting (frontend c)" "\<lambda>c. option_row (frontend c)" frontend_ok
proof (unfold_locales, goal_cases)
  case (1 c x)
  then show ?case using option_row_set(2) [OF 1(2) frontend_changed(1) [OF 1]] option_row_value(2) [OF 1(2,3)] by simp
next
  case (2 c x y)
  then show ?case using option_row_set(3) [OF 2(2) frontend_changed(1) [OF 2(1-3)]] by blast
next
  case (3 c x y)
  then show ?case using option_row_set(1) [OF 3(2) frontend_changed(1) [OF 3(1-3)]] by blast
next
  case (4 c x)
  then show ?case by (rule frontend_changed(2))
qed (auto simp: option_row_apart dest: option_row_labels)

text \<open>Options of the core.\<close>

definition core_list_ok :: "config \<Rightarrow> bool" where
  "core_list_ok c \<longleftrightarrow> distinct (map key (options (core_options c))) \<and> (\<forall>x \<in> set (options (core_options c)). option_ok x)"

lemma emulator_changed:
  assumes "core_list_ok c" and "option_row (core_options c) x" and "changeable x"
  shows "options (core_options (OptionEmulator_optionChanged x c))
         = (options (core_options c))[mid x := (options (core_options c) ! mid x)\<lparr>val := nat (mvalue x)\<rparr>]"
    and "core_list_ok (OptionEmulator_optionChanged x c)"
proof -
  let ?l = "core_options c"
  have x: "mid x < length (options ?l)" "mkey x = key (options ?l ! mid x)" using assms(2) by (simp_all add: option_row_def)
  have "option_index (options ?l) (mkey x) = Some (mid x)"
    using x assms(1) by (simp add: option_index_nth core_list_ok_def)
  then show eq: "options (core_options (OptionEmulator_optionChanged x c)) = (options ?l)[mid x := (options ?l ! mid x)\<lparr>val := nat (mvalue x)\<rparr>]"
    by (simp add: OptionEmulator_optionChanged_def OptionList_setOptionRawValue_def update_option_def)
  have "map key ((options ?l)[mid x := (options ?l ! mid x)\<lparr>val := nat (mvalue x)\<rparr>]) = map key (options ?l)"
    using x(1) by (simp add: map_update list_update_same_conv)
  moreover have "option_ok ((options ?l ! mid x)\<lparr>val := nat (mvalue x)\<rparr>)"
    using assms(1) x(1) option_row_value(1) [OF assms(2,3)] by (simp add: core_list_ok_def option_ok_def)
  ultimately show "core_list_ok (OptionEmulator_optionChanged x c)"
    using assms(1) unfolding core_list_ok_def eq by (auto dest: set_update_subset_insert [THEN subsetD])
qed

interpretation emulator_menu: option_menu OptionEmulator_optionChanged no_bind
    "\<lambda>c. option_setting (core_options c)" "\<lambda>c. option_row (core_options c)" core_list_ok
proof (unfold_locales, goal_cases)
  case (1 c x)
  then show ?case using option_row_set(2) [OF 1(2) emulator_changed(1) [OF 1]] option_row_value(2) [OF 1(2,3)] by simp
next
  case (2 c x y)
  then show ?case using option_row_set(3) [OF 2(2) emulator_changed(1) [OF 2(1-3)]] by blast
next
  case (3 c x y)
  then show ?case using option_row_set(1) [OF 3(2) emulator_changed(1) [OF 3(1-3)]] by blast
next
  case (4 c x)
  then show ?case by (rule emulator_changed(2))
qed (auto simp: option_row_apart dest: option_row_labels)

text \<open>Button mappings.\<close>

definition maps_ok :: "ButtonMapping list \<Rightarrow> bool" where
  "maps_ok ms \<longleftrightarrow> (\<forall>m \<in> set ms. mapping_ok m)"

lemma set_button_facts:
  assumes "maps_ok ms" and "- 1 \<le> l" and "l < 16" and "md \<longrightarrow> 0 \<le> l"
  shows "maps_ok (set_button l md i ms)" and "length (set_button l md i ms) = length ms"
    and "i < length ms \<Longrightarrow> binding_value (set_button l md i ms ! i) = l + 1 + (if md then 16 else 0)"
    and "j \<noteq> i \<Longrightarrow> set_button l md i ms ! j = ms ! j"
proof -
  have "mapping_ok ((ms ! i)\<lparr>local := l, bmod := md\<rparr>)" using assms(2-4) by (simp add: mapping_ok_def LOCAL_BUTTON_COUNT_def)
  then show "maps_ok (set_button l md i ms)"
    using assms(1) by (auto simp: maps_ok_def set_button_def dest!: set_update_subset_insert [THEN subsetD])
qed (simp_all add: set_button_def binding_value_def LOCAL_BUTTON_COUNT_def)

definition shortcut_row :: "config \<Rightarrow> MenuItem \<Rightarrow> bool" where
  "shortcut_row c x \<longleftrightarrow> mid x < length (shortcuts c) \<and> mvalues x = Button_Labels"

definition shortcut_setting :: "config \<Rightarrow> MenuItem \<Rightarrow> int" where
  "shortcut_setting c x = binding_value (shortcuts c ! mid x)"

interpretation shortcuts_menu: option_menu OptionShortcuts_unbind OptionShortcuts_bind shortcut_setting shortcut_row
    "\<lambda>c. maps_ok (shortcuts c)"
  by unfold_locales
    (auto simp: OptionShortcuts_unbind_def OptionShortcuts_bind_def shortcut_setting_def shortcut_row_def slot_of_def
      changeable_def set_button_facts)

definition control_row :: "config \<Rightarrow> MenuItem \<Rightarrow> bool" where
  "control_row c x \<longleftrightarrow> (mvalues x = Button_Labels \<and> mid x < length (controls c))
     \<or> (mvalues x = Labels gamepad_labels \<and> mid x = 0 \<and> has_custom_controllers c)"

definition control_setting :: "config \<Rightarrow> MenuItem \<Rightarrow> int" where
  "control_setting c x = (if mvalues x = Button_Labels then binding_value (controls c ! mid x) else gamepad_type c)"

lemmas controls_defs = controls_change_def OptionControls_unbind_def OptionControls_optionChanged_def OptionControls_bind_def
  control_setting_def control_row_def slot_of_def changeable_def

interpretation controls_menu: option_menu controls_change OptionControls_bind control_setting control_row
    "\<lambda>c. maps_ok (controls c)"
  by unfold_locales (auto simp: controls_defs set_button_facts)

text \<open>The rows as they are first built.\<close>

lemma option_items:
  assumes "\<forall>o0 \<in> set (options l). val o0 < length (vals o0) \<and> length (labels o0) = length (vals o0)"
  shows "distinct (map slot_of (OptionList_buildMenu l None))"
    and "\<forall>x \<in> set (OptionList_buildMenu l None). option_row l x \<and> row_ok x \<and> option_setting l x = mvalue x"
proof -
  have "map slot_of (OptionList_buildMenu l None) = map (Pair False) (filter (\<lambda>i. \<not> lock (options l ! i)) [0..<length (options l)])"
    by (simp add: OptionList_buildMenu_def option_item_def slot_of_def Let_def comp_def)
  then show "distinct (map slot_of (OptionList_buildMenu l None))" by (simp add: distinct_map inj_on_def)
  show "\<forall>x \<in> set (OptionList_buildMenu l None). option_row l x \<and> row_ok x \<and> option_setting l x = mvalue x"
    using assms by (auto simp: OptionList_buildMenu_def option_item_def option_row_def row_ok_def option_setting_def Let_def)
qed

lemma binding_value_range: "mapping_ok m \<Longrightarrow> 0 \<le> binding_value m \<and> binding_value m < int (length button_labels)"
  by (auto simp: mapping_ok_def binding_value_def LOCAL_BUTTON_COUNT_def button_labels_facts)

lemma shortcut_items:
  assumes "maps_ok (shortcuts c)"
  shows "distinct (map slot_of (OptionShortcuts_openMenu c None))"
    and "\<forall>x \<in> set (OptionShortcuts_openMenu c None). showing shortcut_setting shortcut_row c x"
proof -
  have "map slot_of (OptionShortcuts_openMenu c None) = map (Pair True) [0..<length (shortcuts c)]"
    by (simp add: OptionShortcuts_openMenu_def button_item_def slot_of_def comp_def)
  then show "distinct (map slot_of (OptionShortcuts_openMenu c None))" by (simp add: distinct_map inj_on_def)
  show "\<forall>x \<in> set (OptionShortcuts_openMenu c None). showing shortcut_setting shortcut_row c x"
    using assms binding_value_range
    by (auto simp: OptionShortcuts_openMenu_def button_item_def showing_def shortcut_row_def shortcut_setting_def row_ok_def maps_ok_def)
qed

lemma control_items:
  assumes "maps_ok (controls c)" and "has_custom_controllers c \<Longrightarrow> 0 \<le> gamepad_type c \<and> gamepad_type c < 2"
  shows "distinct (map slot_of (OptionControls_openMenu c None))"
    and "\<forall>x \<in> set (OptionControls_openMenu c None). showing control_setting control_row c x"
proof -
  let ?js = "filter (\<lambda>j. \<not> bignore (controls c ! j)) [0..<length (controls c)]"
  have "map slot_of (OptionControls_openMenu c None) = (if has_custom_controllers c then [(False, 0)] else []) @ map (Pair True) ?js"
    by (simp add: OptionControls_openMenu_def button_item_def controller_item_def slot_of_def comp_def)
  then show "distinct (map slot_of (OptionControls_openMenu c None))" by (auto simp: distinct_map inj_on_def)
  show "\<forall>x \<in> set (OptionControls_openMenu c None). showing control_setting control_row c x"
    using assms binding_value_range
    by (auto simp: OptionControls_openMenu_def button_item_def controller_item_def showing_def control_row_def control_setting_def
        row_ok_def maps_ok_def gamepad_labels_def)
qed

subsection \<open>Properties\<close>

text \<open>C10: the option menus show the truth: in each of the four menus, after any series of frames (moving, changing values,
  binding and clearing buttons), the cursor is on a row inside the window, and every row shows exactly the
  value the configuration holds for its option or mapping, within the range of its labels; the frontend's
  variables stay in agreement with their options.\<close>

theorem option_menus_in_sync:
  assumes "0 < maxv" and "frontend_ok c" and "core_list_ok c" and "maps_ok (controls c)" and "maps_ok (shortcuts c)"
    and "has_custom_controllers c \<Longrightarrow> 0 \<le> gamepad_type c \<and> gamepad_type c < 2"
    and "\<forall>o0 \<in> set (options (frontend c)). length (labels o0) = length (vals o0)"
    and "OptionList_buildMenu (frontend c) None \<noteq> []" and "OptionList_buildMenu (core_options c) None \<noteq> []"
    and "OptionControls_openMenu c None \<noteq> []" and "shortcuts c \<noteq> []"
  shows "(let m = Menu_options False OptionFrontend_optionChanged no_bind exits maxv frames (OptionList_buildMenu (frontend c) None) c in
            rows_ok maxv m \<and> frontend_ok (mcfg m)
            \<and> (\<forall>x \<in> set (mitems m). row_ok x \<and> mvalue x = int (val (options (frontend (mcfg m)) ! mid x))))
       \<and> (let m = Menu_options False OptionEmulator_optionChanged no_bind exits maxv frames (OptionList_buildMenu (core_options c) None) c in
            rows_ok maxv m \<and> (\<forall>x \<in> set (mitems m). row_ok x \<and> mvalue x = int (val (options (core_options (mcfg m)) ! mid x))))
       \<and> (let m = Menu_options True controls_change OptionControls_bind exits maxv frames (OptionControls_openMenu c None) c in
            rows_ok maxv m \<and> (\<forall>x \<in> set (mitems m). row_ok x \<and>
              mvalue x = (if mvalues x = Button_Labels then binding_value (controls (mcfg m) ! mid x) else gamepad_type (mcfg m))))
       \<and> (let m = Menu_options True OptionShortcuts_unbind OptionShortcuts_bind exits maxv frames (OptionShortcuts_openMenu c None) c in
            rows_ok maxv m \<and> (\<forall>x \<in> set (mitems m). row_ok x \<and> mvalue x = binding_value (shortcuts (mcfg m) ! mid x)))"
proof -
  have f: "\<forall>o0 \<in> set (options (frontend c)). val o0 < length (vals o0) \<and> length (labels o0) = length (vals o0)"
    using assms(2,7) by (auto simp: frontend_ok_def synced_but_def in_set_conv_nth)
  have k: "\<forall>o0 \<in> set (options (core_options c)). val o0 < length (vals o0) \<and> length (labels o0) = length (vals o0)"
    using assms(3) by (auto simp: core_list_ok_def option_ok_def)
  note fi = option_items [OF f] and ki = option_items [OF k]
  note si = shortcut_items [OF assms(5)] and ci = control_items [OF assms(4,6)]
  have s: "OptionShortcuts_openMenu c None \<noteq> []" using assms(11) by (simp add: OptionShortcuts_openMenu_def)
  note fm = frontend_menu.menu_session [OF assms(1,8) fi(1) assms(2)]
    and km = emulator_menu.menu_session [OF assms(1,9) ki(1) assms(3)]
    and cm = controls_menu.menu_session [OF assms(1,10) ci(1) assms(4) ci(2)]
    and sm = shortcuts_menu.menu_session [OF assms(1) s si(1) assms(5) si(2)]
  show ?thesis
    unfolding Let_def
    using fm [of False exits frames] km [of False exits frames] cm [of True exits frames] sm [of True exits frames] fi(2) ki(2)
    by (simp add: menu_inv_def showing_def option_setting_def control_setting_def shortcut_setting_def)
qed

theorem option_menus_in_sync_witness:
  "rows_ok 7 (Menu_options False OptionFrontend_optionChanged no_bind (\<lambda>_. False) 7 [([], demo_pad [1] [1] [])]
     (OptionList_buildMenu (frontend demo_full) None) demo_full)"
proof -
  have ok: "frontend_ok demo_full" "core_list_ok demo_full" "maps_ok (controls demo_full)" "maps_ok (shortcuts demo_full)"
    "\<forall>o0 \<in> set (options (frontend demo_full)). length (labels o0) = length (vals o0)"
    "OptionList_buildMenu (frontend demo_full) None \<noteq> []" "OptionList_buildMenu (core_options demo_full) None \<noteq> []"
    "OptionControls_openMenu demo_full None \<noteq> []" "shortcuts demo_full \<noteq> []" by code_simp+
  have "\<not> has_custom_controllers demo_full" by code_simp
  from option_menus_in_sync [OF _ ok(1-4) _ ok(5-9), of 7 "\<lambda>_. False" "[([], demo_pad [1] [1] [])]"] this
  show ?thesis by (simp add: Let_def)
qed

end
