(* ===== verification/Saves.thy ===== *)
theory Saves
  imports Atomic
begin

text \<open>
  The persistence part of the emulator frontend \<open>minarch/minarch.c\<close>: battery saves (\<open>SRAM_\<close>), the
  cartridge clock (\<open>RTC_\<close>) and save states (\<open>State_\<close>), lines 331 to 566.

  The emulator core is a plug-in the sources only call; what its entry points return is data of the
  model: the size and contents of its memory regions (\<open>None\<close> is a null pointer), the size it
  reports for a state and what it serialises (\<open>None\<close>: it refuses). \<open>room\<close> is the number of bytes the
  card accepts and \<open>alloc\<close> whether \<open>calloc\<close> succeeds. A writer returns the list of file systems it
  goes through (see \<open>Atomic\<close>); the last one is its result.
\<close>


record core =
  saves_dir :: string
  states_dir :: string
  sram_size :: nat
  sram :: "string option"
  rtc_size :: nat
  rtc :: "string option"
  serialize_size :: nat
  serialize :: "string option"

record arch =
  afs :: fs
  state_slot :: int
  fast_forward :: bool

definition remove :: "string \<Rightarrow> fs \<Rightarrow> fs" where
  \<comment> \<open>\<open>remove\<close> keeps a directory that is not empty\<close>
  "remove p fs =
     (if map_of fs p = Some Dir \<and> opendir fs p \<noteq> Some [] then fs else unlink p fs)"

definition tmp_filename :: "string \<Rightarrow> string" where
  "tmp_filename filename = snprintf_buf MAX_PATH (filename @ ''.tmp'')"

subsection \<open>Battery saves and clock\<close>

definition write_memory :: "nat \<Rightarrow> string option \<Rightarrow> string \<Rightarrow> nat \<Rightarrow> fs \<Rightarrow> fs list" where
  "write_memory sz mem filename room fs =
     (if sz = 0 then [fs]
      else
        (let tmp = tmp_filename filename in
         if \<not> fopen_w fs tmp then [fs]
         else
           (case mem of
              None \<Rightarrow> [fs, fs_put tmp (File []) fs, remove tmp (fs_put tmp (File []) fs)]
            | Some m \<Rightarrow>
                (let states = fill tmp (take sz m) room fs;
                     write_ok = (length (take sz m) = sz \<and> fwrite_ok sz room);
                     done = last states
                 in fs # states @ [if write_ok then rename tmp filename done else remove tmp done]))))"

definition read_memory :: "nat \<Rightarrow> string option \<Rightarrow> string \<Rightarrow> fs \<Rightarrow> string option" where
  \<comment> \<open>the memory afterwards: a shorter file replaces only the first bytes\<close>
  "read_memory sz mem filename fs =
     (if sz = 0 then mem
      else (case fopen_r fs filename of
              None \<Rightarrow> mem
            | Some s \<Rightarrow> map_option (\<lambda>m. take sz s @ drop (length (take sz s)) m) mem))"

definition SRAM_getPath :: "core \<Rightarrow> string \<Rightarrow> string" where
  "SRAM_getPath c name = saves_dir c @ ''/'' @ name @ ''.sav''"

definition SRAM_read :: "string \<Rightarrow> fs \<Rightarrow> core \<Rightarrow> core" where
  "SRAM_read name fs c = c\<lparr>sram := read_memory (sram_size c) (sram c) (SRAM_getPath c name) fs\<rparr>"

definition SRAM_write :: "core \<Rightarrow> string \<Rightarrow> nat \<Rightarrow> fs \<Rightarrow> fs list" where
  "SRAM_write c name room fs = write_memory (sram_size c) (sram c) (SRAM_getPath c name) room fs"

definition RTC_getPath :: "core \<Rightarrow> string \<Rightarrow> string" where
  "RTC_getPath c name = saves_dir c @ ''/'' @ name @ ''.rtc''"

definition RTC_read :: "string \<Rightarrow> fs \<Rightarrow> core \<Rightarrow> core" where
  "RTC_read name fs c = c\<lparr>rtc := read_memory (rtc_size c) (rtc c) (RTC_getPath c name) fs\<rparr>"

definition RTC_write :: "core \<Rightarrow> string \<Rightarrow> nat \<Rightarrow> fs \<Rightarrow> fs list" where
  "RTC_write c name room fs = write_memory (rtc_size c) (rtc c) (RTC_getPath c name) room fs"

subsection \<open>Save states\<close>

definition State_getPath :: "core \<Rightarrow> string \<Rightarrow> int \<Rightarrow> string" where
  "State_getPath c name slot = states_dir c @ ''/'' @ name @ ''.st'' @ dec_int slot"

definition calloc_fill :: "nat \<Rightarrow> string \<Rightarrow> string" where
  \<comment> \<open>a zeroed buffer whose first bytes were overwritten\<close>
  "calloc_fill sz s = take sz s @ replicate (sz - length s) (CHR 0x00)"

definition State_load :: "core \<Rightarrow> string \<Rightarrow> bool \<Rightarrow> int \<Rightarrow> fs \<Rightarrow> string option" where
  \<comment> \<open>the buffer handed to the core's \<open>unserialize\<close>, if it comes to that\<close>
  "State_load c name alloc slot fs =
     (let state_size = serialize_size c in
      if state_size = 0 then None
      else if \<not> alloc then None
      else (case fopen_r fs (State_getPath c name slot) of
              None \<Rightarrow> None
            | Some s \<Rightarrow> if state_size < length (take state_size s) then None
                        else Some (calloc_fill state_size s)))"

definition State_read :: "core \<Rightarrow> string \<Rightarrow> bool \<Rightarrow> arch \<Rightarrow> arch \<times> string option" where
  "State_read c name alloc a =
     (if serialize_size c = 0 then (a, None)
      else
        (let was_ff = fast_forward a;
             a = a\<lparr>fast_forward := False\<rparr>;
             loaded = State_load c name alloc (state_slot a) (afs a)
         in (a\<lparr>fast_forward := was_ff\<rparr>, loaded)))"

definition State_store :: "core \<Rightarrow> string \<Rightarrow> nat \<Rightarrow> bool \<Rightarrow> int \<Rightarrow> fs \<Rightarrow> fs list \<times> bool" where
  "State_store c name room alloc slot fs =
     (let state_size = serialize_size c in
      if state_size = 0 then ([fs], False)
      else if \<not> alloc then ([fs], False)
      else
        (let filename = State_getPath c name slot; tmp = tmp_filename filename in
         if \<not> fopen_w fs tmp then ([fs, remove tmp fs], False)
         else
           (case serialize c of
              None \<Rightarrow> ([fs, fs_put tmp (File []) fs, remove tmp (fs_put tmp (File []) fs)], False)
            | Some data \<Rightarrow>
                (let state = calloc_fill state_size data;
                     states = fill tmp state room fs;
                     done = last states
                 in if \<not> fwrite_ok state_size room then (fs # states @ [remove tmp done], False)
                    else if \<not> rename_ok tmp filename done then (fs # states @ [remove tmp done], False)
                    else (fs # states @ [rename tmp filename done], True)))))"

definition State_write :: "core \<Rightarrow> string \<Rightarrow> nat \<Rightarrow> bool \<Rightarrow> arch \<Rightarrow> arch \<times> bool" where
  "State_write c name room alloc a =
     (if serialize_size c = 0 then (a, False)
      else
        (let was_ff = fast_forward a;
             a = a\<lparr>fast_forward := False\<rparr>;
             (states, success) = State_store c name room alloc (state_slot a) (afs a)
         in (a\<lparr>afs := last states, fast_forward := was_ff\<rparr>, success)))"

definition State_autosave :: "core \<Rightarrow> string \<Rightarrow> nat \<Rightarrow> bool \<Rightarrow> arch \<Rightarrow> arch" where
  "State_autosave c name room alloc a =
     (let last_state_slot = state_slot a;
          a = a\<lparr>state_slot := AUTO_RESUME_SLOT\<rparr>;
          a = fst (State_write c name room alloc a)
      in a\<lparr>state_slot := last_state_slot\<rparr>)"

definition State_resume :: "core \<Rightarrow> string \<Rightarrow> bool \<Rightarrow> arch \<Rightarrow> arch \<times> string option" where
  "State_resume c name alloc a =
     (if \<not> exists (afs a) RESUME_SLOT_PATH then (a, None)
      else
        (let last_state_slot = state_slot a;
             a = a\<lparr>state_slot := getInt (afs a) RESUME_SLOT_PATH\<rparr>;
             a = a\<lparr>afs := unlink RESUME_SLOT_PATH (afs a)\<rparr>;
             (a, loaded) = State_read c name alloc a
         in (a\<lparr>state_slot := last_state_slot\<rparr>, loaded)))"

subsection \<open>Facts\<close>

lemma tmp_filename_differs: "length f < 511 \<Longrightarrow> tmp_filename f \<noteq> f"
  unfolding tmp_filename_def MAX_PATH_def by (rule tmp_name_differs) simp

lemma remove_other: "q \<noteq> p \<Longrightarrow> fopen_r (remove p fs) q = fopen_r fs q"
  by (simp add: remove_def fopen_r_unlink)

lemma rename_put_other: "q \<noteq> f \<Longrightarrow> q \<noteq> t \<Longrightarrow> fopen_r (rename t f (fs_put t (File b) fs)) q = fopen_r fs q"
  by (auto simp: rename_def fopen_r_fs_put fopen_r_unlink split: option.splits)

text \<open>
  Every file system a writer goes through is the first one, a partly filled temporary file, the
  temporary file removed, or the complete one renamed.
\<close>

definition save_state :: "string \<Rightarrow> string \<Rightarrow> string \<Rightarrow> fs \<Rightarrow> fs \<Rightarrow> bool" where
  "save_state t f b fs s \<longleftrightarrow>
     s = fs \<or> (\<exists>x. s = fs_put t (File x) fs) \<or> (\<exists>x. s = remove t (fs_put t (File x) fs))
     \<or> s = remove t fs \<or> s = rename t f (fs_put t (File b) fs) \<and> fopen_w fs t"

lemma save_state_target:
  assumes "save_state t f b fs s" and "t \<noteq> f"
  shows "fopen_r s f = fopen_r fs f \<or> fopen_r s f = Some b"
  using assms by (auto simp: save_state_def remove_other fopen_r_fs_put rename_filled split: if_splits)

lemma save_state_frame:
  assumes "save_state t f b fs s" and "q \<noteq> f" and "q \<noteq> t"
  shows "fopen_r s q = fopen_r fs q"
  using assms by (auto simp: save_state_def remove_other fopen_r_fs_put rename_put_other)

lemma save_state_fill: "s \<in> set (fill t x room fs) \<Longrightarrow> save_state t f b fs s"
  by (auto simp: save_state_def fill_def)

definition memory_bytes :: "nat \<Rightarrow> string option \<Rightarrow> string" where
  "memory_bytes sz mem = take sz (case mem of None \<Rightarrow> [] | Some m \<Rightarrow> m)"

lemma write_memory_states:
  assumes "s \<in> set (write_memory sz mem f room fs)"
  shows "save_state (tmp_filename f) f (take room (memory_bytes sz mem)) fs s"
proof -
  let ?t = "tmp_filename f"
  consider "s = fs" | "mem = None" "s = fs_put ?t (File []) fs \<or> s = remove ?t (fs_put ?t (File []) fs)"
    | m where "mem = Some m" "s \<in> set (fill ?t (take sz m) room fs)"
    | m where "mem = Some m" "s = remove ?t (fs_put ?t (File (take room (take sz m))) fs)"
    | m where "mem = Some m" "fopen_w fs ?t"
        "s = rename ?t f (fs_put ?t (File (take room (take sz m))) fs)"
    using assms by (auto simp: write_memory_def Let_def last_fill split: if_splits option.splits)
  then show ?thesis
  proof cases
    case 1
    then show ?thesis by (simp add: save_state_def)
  next
    case 2
    then show ?thesis unfolding save_state_def by blast
  next
    case 3
    then show ?thesis by (simp add: save_state_fill)
  next
    case 4
    then show ?thesis unfolding save_state_def by blast
  next
    case (5 m)
    then show ?thesis by (simp add: save_state_def memory_bytes_def)
  qed
qed

definition state_bytes :: "core \<Rightarrow> string" where
  "state_bytes c = calloc_fill (serialize_size c) (case serialize c of None \<Rightarrow> [] | Some d \<Rightarrow> d)"

lemma calloc_fill_length [simp]: "length (calloc_fill sz s) = sz"
  by (simp add: calloc_fill_def)

lemma calloc_fill_own: "length s = sz \<Longrightarrow> calloc_fill sz s = s"
  by (simp add: calloc_fill_def)

lemma State_store_states:
  assumes "s \<in> set (fst (State_store c name room alloc slot fs))"
  shows "save_state (tmp_filename (State_getPath c name slot)) (State_getPath c name slot) (take room (state_bytes c)) fs s"
proof -
  let ?f = "State_getPath c name slot"
  let ?t = "tmp_filename ?f"
  let ?b = "\<lambda>d. calloc_fill (serialize_size c) d"
  consider "s = fs" | "s = remove ?t fs"
    | "s = fs_put ?t (File []) fs \<or> s = remove ?t (fs_put ?t (File []) fs)"
    | d where "s \<in> set (fill ?t (?b d) room fs)"
    | d where "s = remove ?t (fs_put ?t (File (take room (?b d))) fs)"
    | d where "serialize c = Some d" "fopen_w fs ?t"
        "s = rename ?t ?f (fs_put ?t (File (take room (?b d))) fs)"
    using assms by (auto simp: State_store_def Let_def last_fill min_def split: if_splits option.splits)
  then show ?thesis
  proof cases
    case 1
    then show ?thesis by (simp add: save_state_def)
  next
    case 2
    then show ?thesis unfolding save_state_def by blast
  next
    case 3
    then show ?thesis unfolding save_state_def by blast
  next
    case 4
    then show ?thesis by (simp add: save_state_fill)
  next
    case 5
    then show ?thesis unfolding save_state_def by blast
  next
    case (6 d)
    then show ?thesis by (simp add: save_state_def state_bytes_def)
  qed
qed

text \<open>When the shortage is noticed, the bytes renamed over the target are all of them.\<close>

lemma write_memory_noticed:
  assumes "s \<in> set (write_memory sz mem f room fs)" "shortage_noticed sz room" "length f < 511"
  shows "fopen_r s f = fopen_r fs f \<or> fopen_r s f = Some (memory_bytes sz mem)"
proof (cases "sz \<le> room")
  case True
  then have "take room (memory_bytes sz mem) = memory_bytes sz mem" by (simp add: memory_bytes_def)
  then show ?thesis using save_state_target [OF write_memory_states [OF assms(1)] tmp_filename_differs [OF assms(3)]] by simp
next
  case False
  then have "\<not> fwrite_ok sz room" using assms(2) by (simp add: shortage_noticed_def)
  then show ?thesis
    using assms(1) tmp_filename_differs [OF assms(3)]
    by (auto simp: write_memory_def Let_def last_fill remove_other fopen_r_fs_put fill_other split: if_splits option.splits)
qed

lemma State_store_noticed:
  assumes "s \<in> set (fst (State_store c name room alloc slot fs))" "shortage_noticed (serialize_size c) room"
    and "length (State_getPath c name slot) < 511"
  shows "fopen_r s (State_getPath c name slot) = fopen_r fs (State_getPath c name slot)
    \<or> fopen_r s (State_getPath c name slot) = Some (state_bytes c)"
proof (cases "serialize_size c \<le> room")
  case True
  then have "take room (state_bytes c) = state_bytes c" by (simp add: state_bytes_def)
  then show ?thesis using save_state_target [OF State_store_states [OF assms(1)] tmp_filename_differs [OF assms(3)]] by simp
next
  case False
  then have "\<not> fwrite_ok (serialize_size c) room" using assms(2) by (simp add: shortage_noticed_def)
  then show ?thesis
    using assms(1) tmp_filename_differs [OF assms(3)]
    by (auto simp: State_store_def Let_def last_fill remove_other fopen_r_fs_put fill_other split: if_splits option.splits)
qed

lemma write_memory_not_Nil [simp]: "write_memory sz mem f room fs \<noteq> []"
  by (simp add: write_memory_def Let_def split: option.split)

lemma State_store_not_Nil [simp]: "fst (State_store c name room alloc slot fs) \<noteq> []"
  by (simp add: State_store_def Let_def split: option.split)

lemma write_memory_other: "q \<noteq> f \<Longrightarrow> q \<noteq> tmp_filename f \<Longrightarrow> fopen_r (last (write_memory sz mem f room fs)) q = fopen_r fs q"
  using save_state_frame [OF write_memory_states [OF last_in_set]] by simp

lemma atomic_saveI:
  assumes "\<And>x fs. save x fs \<noteq> []"
    and "\<And>x fs s. s \<in> set (save x fs) \<Longrightarrow> \<exists>b. save_state (tmp_filename (target x)) (target x) b fs s"
    and "\<And>x fs s. sound x \<Longrightarrow> s \<in> set (save x fs) \<Longrightarrow> fopen_r s (target x) = fopen_r fs (target x) \<or> fopen_r s (target x) = Some (contents x)"
  shows "atomic_save save target (\<lambda>x. tmp_filename (target x)) contents sound"
proof (unfold_locales, goal_cases)
  case (3 s x fs q)
  then show ?case using assms(2) save_state_frame by metis
qed (simp_all add: assms)

interpretation sram_file: atomic_save
  "\<lambda>x. SRAM_write (snd x) name (fst x)" "\<lambda>x. SRAM_getPath (snd x) name"
  "\<lambda>x. tmp_filename (SRAM_getPath (snd x) name)" "\<lambda>x. memory_bytes (sram_size (snd x)) (sram (snd x))"
  "\<lambda>x. length (SRAM_getPath (snd x) name) < 511 \<and> shortage_noticed (sram_size (snd x)) (fst x)" for name
  by (rule atomic_saveI) (auto simp: SRAM_write_def intro: write_memory_states dest: write_memory_noticed)

interpretation rtc_file: atomic_save
  "\<lambda>x. RTC_write (snd x) name (fst x)" "\<lambda>x. RTC_getPath (snd x) name"
  "\<lambda>x. tmp_filename (RTC_getPath (snd x) name)" "\<lambda>x. memory_bytes (rtc_size (snd x)) (rtc (snd x))"
  "\<lambda>x. length (RTC_getPath (snd x) name) < 511 \<and> shortage_noticed (rtc_size (snd x)) (fst x)" for name
  by (rule atomic_saveI) (auto simp: RTC_write_def intro: write_memory_states dest: write_memory_noticed)

interpretation state_file: atomic_save
  "\<lambda>x fs. fst (State_store (snd x) name (fst x) alloc slot fs)" "\<lambda>x. State_getPath (snd x) name slot"
  "\<lambda>x. tmp_filename (State_getPath (snd x) name slot)" "\<lambda>x. state_bytes (snd x)"
  "\<lambda>x. length (State_getPath (snd x) name slot) < 511 \<and> shortage_noticed (serialize_size (snd x)) (fst x)" for name alloc slot
  by (rule atomic_saveI) (auto intro: State_store_states dest: State_store_noticed)

text \<open>What a successful or a failed write of a state leaves behind.\<close>

lemma State_store_success:
  assumes "snd (State_store c name room alloc slot fs)" and "length (State_getPath c name slot) < 511" and "serialize_size c \<le> room"
  shows "fopen_r (last (fst (State_store c name room alloc slot fs))) (State_getPath c name slot)
         = Some (state_bytes c)"
proof -
  let ?f = "State_getPath c name slot"
  let ?t = "tmp_filename ?f"
  have neq: "?t \<noteq> ?f" using assms(2) by (rule tmp_filename_differs)
  from assms(1) obtain d where d: "serialize c = Some d" "fopen_w fs ?t"
    "last (fst (State_store c name room alloc slot fs))
       = rename ?t ?f (fs_put ?t (File (calloc_fill (serialize_size c) d)) fs)"
    "rename_ok ?t ?f (fs_put ?t (File (calloc_fill (serialize_size c) d)) fs)"
    using assms(3) by (auto simp: State_store_def Let_def last_fill split: if_splits option.splits)
  then show ?thesis using neq by (simp add: fopen_r_rename fopen_r_fs_put state_bytes_def)
qed

lemma State_store_failure:
  assumes "\<not> snd (State_store c name room alloc slot fs)" and "q \<noteq> tmp_filename (State_getPath c name slot)"
  shows "fopen_r (last (fst (State_store c name room alloc slot fs))) q = fopen_r fs q"
  using assms
  by (auto simp: State_store_def Let_def last_fill remove_other fopen_r_fs_put split: if_splits option.splits)

lemma dec_int_inj: "dec_int i = dec_int j \<Longrightarrow> i = j"
  by (metis scan_int_dec_int)

lemma dec_int_no_dot: "CHR ''.'' \<notin> set (dec_int i)"
proof -
  have "c \<in> set (dec_nat n) \<Longrightarrow> c \<noteq> CHR ''.''" for c n
    using dec_nat_digits [of n] by (auto simp: in_base_def digit_value_def tolower_def)
  then show ?thesis by (auto simp: dec_int_def)
qed

lemma State_getPath_inj: "State_getPath c name i = State_getPath c name j \<longleftrightarrow> i = j"
  by (auto simp: State_getPath_def dest: dec_int_inj)

text \<open>A state's temporary file is not another slot's file.\<close>

lemma State_tmp_not_slot:
  assumes "length (State_getPath c name i) < 507"
  shows "tmp_filename (State_getPath c name i) \<noteq> State_getPath c name j"
proof
  assume "tmp_filename (State_getPath c name i) = State_getPath c name j"
  moreover have "tmp_filename (State_getPath c name i) = State_getPath c name i @ ''.tmp''"
    using assms unfolding tmp_filename_def MAX_PATH_def by (intro snprintf_buf_fits) simp
  ultimately have "dec_int i @ ''.tmp'' = dec_int j" by (simp add: State_getPath_def)
  then have "CHR ''.'' \<in> set (dec_int j)" by (metis in_set_conv_decomp append_Cons)
  with dec_int_no_dot show False by blast
qed

lemma write_memory_complete:
  assumes "0 < sz" and "mem = Some m" and "sz \<le> length m" and "sz \<le> room" and "length f < 511"
    and "fopen_w fs f" and "fopen_w fs (tmp_filename f)"
  shows "fopen_r (last (write_memory sz mem f room fs)) f = Some (take sz m)"
  using assms tmp_filename_differs [OF assms(5)]
  by (simp add: write_memory_def Let_def last_fill rename_filled fwrite_ok_room)

lemma State_write_fields:
  "state_slot (fst (State_write c name room alloc a)) = state_slot a"
  "fast_forward (fst (State_write c name room alloc a)) = fast_forward a"
  by (simp_all add: State_write_def split_beta)

lemma State_write_files:
  assumes "serialize_size c \<noteq> 0"
  shows "afs (fst (State_write c name room alloc a))
           = last (fst (State_store c name room alloc (state_slot a) (afs a)))"
    and "snd (State_write c name room alloc a) = snd (State_store c name room alloc (state_slot a) (afs a))"
  using assms by (simp_all add: State_write_def split_beta)

lemma State_load_cong:
  "fopen_r fs (State_getPath c name j) = fopen_r fs' (State_getPath c name j) \<Longrightarrow>
   State_load c name alloc j fs = State_load c name alloc j fs'"
  by (simp add: State_load_def Let_def)

lemma State_write_other_slot:
  assumes "length (State_getPath c name (state_slot a)) < 507" and "serialize_size c \<noteq> 0"
    and "\<not> snd (State_write c name room alloc a) \<or> j \<noteq> state_slot a"
  shows "State_load c name al j (afs (fst (State_write c name room alloc a))) = State_load c name al j (afs a)"
proof (rule State_load_cong)
  let ?S = "State_store c name room alloc (state_slot a) (afs a)"
  have tmp: "State_getPath c name j \<noteq> tmp_filename (State_getPath c name (state_slot a))"
    using State_tmp_not_slot [OF assms(1)] by metis
  show "fopen_r (afs (fst (State_write c name room alloc a))) (State_getPath c name j)
        = fopen_r (afs a) (State_getPath c name j)"
  proof (cases "j = state_slot a")
    case True
    then show ?thesis
      using assms(2,3) tmp by (simp add: State_write_files State_store_failure)
  next
    case False
    have "last (fst ?S) \<in> set (fst ?S)" by simp
    from save_state_frame [OF State_store_states [OF this]] show ?thesis
      using False tmp assms(2) by (simp add: State_write_files State_getPath_inj)
  qed
qed

lemma State_write_load:
  assumes "snd (State_write c name room alloc a)" and "length (State_getPath c name (state_slot a)) < 507"
    and "serialize c = Some d" and "length d = serialize_size c" and "serialize_size c \<noteq> 0" and "serialize_size c \<le> room"
  shows "State_load c name True (state_slot a) (afs (fst (State_write c name room alloc a))) = Some d"
proof -
  have "fopen_r (afs (fst (State_write c name room alloc a))) (State_getPath c name (state_slot a)) = Some d"
    using State_store_success [of c name room alloc "state_slot a" "afs a"] assms
    by (simp add: State_write_files state_bytes_def calloc_fill_own)
  with assms show ?thesis by (simp add: State_load_def calloc_fill_own)
qed

subsection \<open>Properties\<close>

text \<open>C6: cut off at any moment of any series of battery saves, clock saves or state saves of a game, with
  cores that fail and cards that fill up, the file still holds what it held before or the
  complete memory (or state) of one of the saves, provided that a card that fills up does so before the last block of a
  save, the part that is still in the stream's buffer when \<open>fwrite\<close> reports success. Otherwise, as the result of \<open>fclose\<close> is
  not looked at, the part of the save that had room takes the place of the good file.\<close>

theorem saves_survive_power_cut:
  assumes "length p < 511"
  shows "(\<forall>xs s. (\<forall>x \<in> set xs. SRAM_getPath (snd x) name = p \<and> shortage_noticed (sram_size (snd x)) (fst x)) \<and>
            s \<in> set (crash_states (\<lambda>x. SRAM_write (snd x) name (fst x)) xs fs) \<longrightarrow>
            fopen_r s p = fopen_r fs p
            \<or> fopen_r s p \<in> (\<lambda>x. Some (memory_bytes (sram_size (snd x)) (sram (snd x)))) ` set xs)
       \<and> (\<forall>xs s. (\<forall>x \<in> set xs. RTC_getPath (snd x) name = p \<and> shortage_noticed (rtc_size (snd x)) (fst x)) \<and>
            s \<in> set (crash_states (\<lambda>x. RTC_write (snd x) name (fst x)) xs fs) \<longrightarrow>
            fopen_r s p = fopen_r fs p
            \<or> fopen_r s p \<in> (\<lambda>x. Some (memory_bytes (rtc_size (snd x)) (rtc (snd x)))) ` set xs)
       \<and> (\<forall>xs s. (\<forall>x \<in> set xs. State_getPath (snd x) name slot = p \<and> shortage_noticed (serialize_size (snd x)) (fst x)) \<and>
            s \<in> set (crash_states (\<lambda>x fs. fst (State_store (snd x) name (fst x) alloc slot fs)) xs fs) \<longrightarrow>
            fopen_r s p = fopen_r fs p \<or> fopen_r s p \<in> (\<lambda>x. Some (state_bytes (snd x))) ` set xs)
       \<and> (\<forall>room c m. SRAM_getPath c name = p \<and> \<not> shortage_noticed (sram_size c) room \<and> sram c = Some m \<and> sram_size c \<le> length m
            \<and> fopen_w fs p \<and> fopen_w fs (tmp_filename p) \<longrightarrow>
            fopen_r (last (SRAM_write c name room fs)) p = Some (take room m))"
proof (intro conjI allI impI, goal_cases)
  case (1 xs s)
  then show ?case using assms sram_file.one_of_the_saves [where name = name and p = p] by simp
next
  case (2 xs s)
  then show ?case using assms rtc_file.one_of_the_saves [where name = name and p = p] by simp
next
  case (3 xs s)
  then show ?case using assms state_file.one_of_the_saves [where name = name and slot = slot and alloc = alloc and p = p] by simp
next
  case (4 room c m)
  then have "0 < sram_size c" "fwrite_ok (sram_size c) room" "room < sram_size c"
    by (auto simp: shortage_noticed_def)
  with 4 show ?case
    using tmp_filename_differs [OF assms] by (simp add: SRAM_write_def write_memory_def Let_def last_fill rename_filled)
qed

definition demo_core :: core where
  "demo_core = \<lparr>saves_dir = ''/s'', states_dir = ''/s'', sram_size = 3, sram = Some ''abc'', rtc_size = 0,
     rtc = None, serialize_size = 4, serialize = Some ''wxyz''\<rparr>"

definition demo_saves :: fs where
  "demo_saves = [(''/s'', Dir), (''/s/g.sav'', File ''old''), (''/s/g.st9'', File ''prev'')]"

theorem saves_survive_power_cut_witness:
  "fopen_r (fs_put ''/s/g.sav.tmp'' (File ''ab'') demo_saves) ''/s/g.sav'' = fopen_r demo_saves ''/s/g.sav''
   \<or> fopen_r (fs_put ''/s/g.sav.tmp'' (File ''ab'') demo_saves) ''/s/g.sav''
       \<in> (\<lambda>x. Some (memory_bytes (sram_size (snd x)) (sram (snd x)))) ` set [(7 :: nat, demo_core)]"
  by (rule saves_survive_power_cut [THEN conjunct1, rule_format, where name = "''g''"])
    (simp_all add: demo_core_def demo_saves_def SRAM_write_def SRAM_getPath_def write_memory_def
      tmp_filename_def MAX_PATH_def snprintf_buf_def fopen_w_def dirname_def Let_def fill_def shortage_noticed_def eval_nat_numeral)

text \<open>A battery save with room on the card is restored byte for byte when the game is next started,
  whatever the core's memory held before.\<close>

theorem sram_roundtrip:
  assumes "sram c = Some m" and "length m = sram_size c" and "0 < sram_size c" and "sram_size c \<le> room"
    and "length (SRAM_getPath c name) < 511" and "fopen_w fs (SRAM_getPath c name)"
    and "fopen_w fs (tmp_filename (SRAM_getPath c name))"
    and "length m0 = sram_size c"
  shows "SRAM_read name (last (SRAM_write c name room fs)) (c\<lparr>sram := Some m0\<rparr>) = c"
proof -
  have "fopen_r (last (SRAM_write c name room fs)) (SRAM_getPath c name) = Some m"
    using assms write_memory_complete [of "sram_size c" "sram c" m room "SRAM_getPath c name" fs]
    by (simp add: SRAM_write_def)
  moreover have "SRAM_getPath (c\<lparr>sram := Some m0\<rparr>) name = SRAM_getPath c name"
    by (simp add: SRAM_getPath_def)
  ultimately show ?thesis using assms by (simp add: SRAM_read_def read_memory_def)
qed

theorem sram_roundtrip_witness:
  "SRAM_read ''g'' (last (SRAM_write demo_core ''g'' 100 demo_saves)) (demo_core\<lparr>sram := Some ''???''\<rparr>) = demo_core"
  by (rule sram_roundtrip [where m = "''abc''"])
    (simp_all add: demo_core_def demo_saves_def SRAM_getPath_def tmp_filename_def MAX_PATH_def
      snprintf_buf_def fopen_w_def dirname_def)

text \<open>When writing a state reports success, that slot then loads the very bytes the core
  serialised; every other slot, and on failure every slot, loads what it did before, and the
  current slot and fast-forward are as they were.\<close>

theorem State_write_slots:
  assumes "length (State_getPath c name (state_slot a)) < 507" and "serialize_size c \<noteq> 0"
    and "serialize c = Some d" and "length d = serialize_size c" and "serialize_size c \<le> room"
  shows "(snd (State_write c name room alloc a) \<longrightarrow>
            snd (State_read c name True (fst (State_write c name room alloc a))) = Some d)
       \<and> (\<forall>j. \<not> snd (State_write c name room alloc a) \<or> j \<noteq> state_slot a \<longrightarrow>
            State_load c name True j (afs (fst (State_write c name room alloc a)))
              = State_load c name True j (afs a))
       \<and> state_slot (fst (State_write c name room alloc a)) = state_slot a
       \<and> fast_forward (fst (State_write c name room alloc a)) = fast_forward a"
  using State_write_other_slot [OF assms(1,2)] State_write_load [OF _ assms(1,3,4,2,5)] assms(2)
  by (simp add: State_write_fields State_read_def)

definition demo_arch :: arch where
  "demo_arch = \<lparr>afs = demo_saves, state_slot = 2, fast_forward = True\<rparr>"

theorem State_write_slots_witness:
  "snd (State_write demo_core ''g'' 100 True demo_arch)
   \<and> snd (State_read demo_core ''g'' True (fst (State_write demo_core ''g'' 100 True demo_arch))) = Some ''wxyz''"
proof
  have path: "State_getPath demo_core ''g'' 2 = ''/s/g.st2''"
    by code_simp
  show ok: "snd (State_write demo_core ''g'' 100 True demo_arch)"
    by (simp add: State_write_def State_store_def demo_arch_def path demo_core_def demo_saves_def
        tmp_filename_def MAX_PATH_def snprintf_buf_def fopen_w_def dirname_def Let_def last_fill
        rename_ok_def fopen_r_def calloc_fill_def fwrite_ok_room path [unfolded demo_core_def])
  show "snd (State_read demo_core ''g'' True (fst (State_write demo_core ''g'' 100 True demo_arch))) = Some ''wxyz''"
    using ok State_write_slots [of demo_core "''g''" demo_arch "''wxyz''" 100 True] path
    by (simp add: demo_core_def demo_arch_def path [unfolded demo_core_def])
qed

text \<open>A game quit with an automatic save and started again with the automatic slot requested (as the
  launcher does after a shutdown) continues from exactly the state that was saved; the request is
  consumed, and the player's own slot selection is untouched by both.\<close>

theorem autosave_resume:
  assumes "length (State_getPath c name 9) < 507" and "serialize_size c \<noteq> 0"
    and "serialize c = Some d" and "length d = serialize_size c"
    and "snd (State_write c name room alloc (a\<lparr>state_slot := 9\<rparr>))"
    and "State_getPath c name 9 \<noteq> RESUME_SLOT_PATH"
    and "fopen_w (afs (State_autosave c name room alloc a)) RESUME_SLOT_PATH" and "serialize_size c \<le> room"
  shows "state_slot (State_autosave c name room alloc a) = state_slot a
         \<and> snd (State_resume c name True (b\<lparr>afs := putInt RESUME_SLOT_PATH 9 (afs (State_autosave c name room alloc a))\<rparr>))
             = Some d
         \<and> state_slot (fst (State_resume c name True
             (b\<lparr>afs := putInt RESUME_SLOT_PATH 9 (afs (State_autosave c name room alloc a))\<rparr>))) = state_slot b
         \<and> \<not> exists (afs (fst (State_resume c name True
             (b\<lparr>afs := putInt RESUME_SLOT_PATH 9 (afs (State_autosave c name room alloc a))\<rparr>)))) RESUME_SLOT_PATH"
proof -
  let ?a = "State_autosave c name room alloc a"
  let ?fs = "putInt RESUME_SLOT_PATH 9 (afs ?a)"
  have auto: "afs ?a = afs (fst (State_write c name room alloc (a\<lparr>state_slot := 9\<rparr>)))"
    by (simp add: State_autosave_def AUTO_RESUME_SLOT_def Let_def)
  have "snprintf_buf 16 (dec_int 9) = dec_int 9"
    using dec_int_length [of 9 0] by (intro snprintf_buf_fits) simp
  then have files: "?fs = putFile RESUME_SLOT_PATH (dec_int 9) (afs ?a)" by (simp add: putInt_def)
  have slot: "getInt ?fs RESUME_SLOT_PATH = 9" "exists ?fs RESUME_SLOT_PATH"
    using assms(7) unfolding files by (simp_all add: getInt_def fopen_r_putFile scan_int_dec_int exists_putFile)
  have "State_load c name True 9 (unlink RESUME_SLOT_PATH ?fs) = State_load c name True 9 (afs ?a)"
    using assms(6) unfolding files
    by (intro State_load_cong) (simp add: fopen_r_unlink fopen_r_putFile_other)
  also have "\<dots> = Some d"
    using State_write_load [OF assms(5)] assms(1-4,8) by (simp add: auto)
  finally have "State_load c name True 9 (unlink RESUME_SLOT_PATH ?fs) = Some d" .
  with slot assms(2) show ?thesis
    by (simp add: State_resume_def State_read_def State_autosave_def Let_def exists_unlink)
qed

definition demo_autosave :: fs where
  "demo_autosave = demo_saves @ [(''/tmp'', Dir)]"

theorem autosave_resume_witness:
  "snd (State_resume demo_core ''g'' True (demo_arch\<lparr>afs := putInt RESUME_SLOT_PATH 9
      (afs (State_autosave demo_core ''g'' 100 True (demo_arch\<lparr>afs := demo_autosave\<rparr>)))\<rparr>)) = Some ''wxyz''"
proof (rule autosave_resume [THEN conjunct2, THEN conjunct1], goal_cases)
  case 5
  show ?case by code_simp
next
  case 7
  show ?case by code_simp
qed (code_simp | simp add: demo_core_def)+

end
