(* ===== verification/Game.thy ===== *)
theory Game
  imports Roms Atomic
begin

text \<open>
  Opening a game in the emulator frontend (\<open>minarch/minarch.c\<close>, lines 66 to 331): extracting the first file of a
  known kind from a zip archive by walking its local headers, loading the file, finding the m3u of a
  multi-disc game, and changing discs.

  A file is a string of bytes and an open file its contents with a position. \<open>long\<close> has 32 bits on both
  devices, so an offset of \<open>fseek\<close> is the signed reading of a 32-bit word, and seeking before the start
  fails. The walk may run forever on a crafted archive; it is modelled with fuel, \<open>None\<close> meaning that
  the fuel did not suffice. The function \<open>inflate\<close> of the zlib library is an argument: what a call answers depends on the calls made on
  the stream before, so it takes their list. The loops of \<open>Zip_inflate\<close> around it return nothing when they do not end.
\<close>

definition ZIP_HEADER_SIZE :: nat where "ZIP_HEADER_SIZE = 30"
definition ZIP_CHUNK_SIZE :: nat where "ZIP_CHUNK_SIZE = 65536"

definition byte_at :: "string \<Rightarrow> nat \<Rightarrow> nat" where
  "byte_at s i = of_char (s ! i)"

definition ZIP_LE_READ16 :: "string \<Rightarrow> nat \<Rightarrow> nat" where
  "ZIP_LE_READ16 s i = byte_at s (i + 1) * 256 + byte_at s i"

definition ZIP_LE_READ32 :: "string \<Rightarrow> nat \<Rightarrow> nat" where
  "ZIP_LE_READ32 s i = ((byte_at s (i + 3) * 256 + byte_at s (i + 2)) * 256 + byte_at s (i + 1)) * 256 + byte_at s i"

subsection \<open>Copying\<close>

text \<open>Both ways of extracting give the bytes handed to \<open>fwrite\<close> and whether they succeed. \<open>room\<close> is what the disk still takes, \<open>done\<close> the
  number of bytes handed over before.\<close>

function Zip_copy :: "nat \<Rightarrow> string \<Rightarrow> nat \<Rightarrow> nat \<Rightarrow> string \<times> bool" where
  "Zip_copy room src written sz =
     (if sz = 0 then ([], True)
      else (let n = min sz ZIP_CHUNK_SIZE; buffer = take n src in
            if length buffer \<noteq> n then ([], False)
            else if \<not> fwrite_ok (written + n) room then (buffer, False)
            else (case Zip_copy room (drop n src) (written + n) (sz - n) of (out, ok) \<Rightarrow> (buffer @ out, ok))))"
  by pat_completeness auto
termination
  by (relation "measure (\<lambda>(room, src, written, sz). sz)") (auto simp: ZIP_CHUNK_SIZE_def)

declare Zip_copy.simps [simp del]

datatype zret = Z_OK | Z_STREAM_END | Z_NEED_DICT | Z_DATA_ERROR | Z_MEM_ERROR | Z_STREAM_ERROR | Z_BUF_ERROR

type_synonym zcalls = "(string \<times> nat) list"
  \<comment> \<open>the calls made on a stream, in order: what \<open>next_in\<close> offered and how many bytes \<open>next_out\<close> could take\<close>

type_synonym zlib = "zcalls \<Rightarrow> string \<Rightarrow> nat \<Rightarrow> string \<times> string \<times> zret"
  \<comment> \<open>\<open>inflate\<close>: the input left over, the output and the answer\<close>

definition inflate_failed :: "zret \<Rightarrow> bool" where
  "inflate_failed ret \<longleftrightarrow> ret = Z_NEED_DICT \<or> ret = Z_DATA_ERROR \<or> ret = Z_MEM_ERROR"

partial_function (option) inflate_chunk ::
  "zlib \<Rightarrow> nat \<Rightarrow> zcalls \<Rightarrow> string \<Rightarrow> nat \<Rightarrow> (string \<times> (zcalls \<times> zret) option) option" where
  \<comment> \<open>the inner loop, while calls fill the output buffer; an error ends it without a state of the stream\<close>
  "inflate_chunk z room h inp written =
     (case z h inp ZIP_CHUNK_SIZE of (left, out, ret) \<Rightarrow>
        if inflate_failed ret then Some ([], None)
        else if \<not> fwrite_ok (written + length out) room then Some (out, None)
        else if length out = ZIP_CHUNK_SIZE
        then Option.bind (inflate_chunk z room (h @ [(inp, ZIP_CHUNK_SIZE)]) left (written + length out))
               (\<lambda>(outs, r). Some (out @ outs, r))
        else Some (out, Some (h @ [(inp, ZIP_CHUNK_SIZE)], ret)))"

partial_function (option) inflate_loop ::
  "zlib \<Rightarrow> nat \<Rightarrow> zcalls \<Rightarrow> string \<Rightarrow> nat \<Rightarrow> nat \<Rightarrow> zret \<Rightarrow> (string \<times> bool) option" where
  "inflate_loop z room h src written sz ret =
     (let insize = min sz ZIP_CHUNK_SIZE; inp = take insize src in
      if inp = [] then Some ([], sz = 0 \<or> ret = Z_STREAM_END)
      else Option.bind (inflate_chunk z room h inp written)
        (\<lambda>(out, r).
           case r of
             None \<Rightarrow> Some (out, False)
           | Some (h, ret) \<Rightarrow>
               if sz - insize \<noteq> 0 \<and> ret \<noteq> Z_STREAM_END
               then Option.bind (inflate_loop z room h (drop insize src) (written + length out) (sz - insize) ret)
                      (\<lambda>(outs, ok). Some (out @ outs, ok))
               else Some (out, True)))"

definition Zip_inflate :: "zlib \<Rightarrow> bool \<Rightarrow> nat \<Rightarrow> string \<Rightarrow> nat \<Rightarrow> (string \<times> bool) option" where
  \<comment> \<open>\<open>init\<close>: \<open>inflateInit2\<close> succeeds\<close>
  "Zip_inflate z init room src sz = (if \<not> init then Some ([], False) else inflate_loop z room [] src 0 sz Z_OK)"

subsection \<open>Walking the archive\<close>

fun tokens :: "string \<Rightarrow> string \<Rightarrow> string list" where
  \<comment> \<open>\<open>strtok(s, "|")\<close>: the non-empty fields; the first argument is the field being read, reversed\<close>
  "tokens acc [] = (if acc = [] then [] else [rev acc])"
| "tokens acc (c # s) =
     (if c = CHR ''|'' then (if acc = [] then tokens [] s else rev acc # tokens [] s) else tokens (c # acc) s)"

definition supports_zip :: "string \<Rightarrow> bool" where
  "supports_zip exts \<longleftrightarrow> ''zip'' \<in> set (tokens [] exts)"

definition fseek :: "int \<Rightarrow> u32 \<Rightarrow> int" where
  "fseek pos off = (let q = pos + sint off in if q < 0 then pos else q)"

definition fread :: "string \<Rightarrow> int \<Rightarrow> nat \<Rightarrow> string" where
  "fread z pos n = take n (drop (nat pos) z)"

definition c_string :: "string \<Rightarrow> string" where
  \<comment> \<open>up to a NUL byte\<close>
  "c_string s = takeWhile (\<lambda>c. c \<noteq> CHR 0x00) s"

record zip_entry =
  zheader :: string
  zname :: string
  zpos :: int        \<comment> \<open>where its data start\<close>
  zsize :: nat       \<comment> \<open>\<open>compressed_size\<close>\<close>

definition read_entry :: "string \<Rightarrow> int \<Rightarrow> zip_entry option" where
  \<comment> \<open>one local header; \<open>None\<close> where the loop breaks\<close>
  "read_entry z pos =
     (let header = fread z pos ZIP_HEADER_SIZE in
      if length header \<noteq> ZIP_HEADER_SIZE then None
      else if odd (byte_at header 6 div 8) then None
      else (let len = ZIP_LE_READ16 header 26 in
            if len \<ge> MAX_PATH then None
            else (let fname = fread z (pos + int ZIP_HEADER_SIZE) len in
                  if length fname \<noteq> len then None
                  else Some \<lparr>zheader = header, zname = c_string fname,
                             zpos = pos + int ZIP_HEADER_SIZE + int len + int (ZIP_LE_READ16 header 28),
                             zsize = ZIP_LE_READ32 header 18\<rparr>)))"

fun known_extension :: "string list \<Rightarrow> string \<Rightarrow> bool option" where
  \<comment> \<open>\<open>None\<close>: \<open>sprintf\<close> into \<open>extension[8]\<close> overflows\<close>
  "known_extension [] fname = Some False"
| "known_extension (x # xs) fname =
     (if length x > 6 then None
      else if suffixMatch (CHR ''.'' # x) fname then Some True else known_extension xs fname)"

datatype zip_result = Zip_None | Zip_Found zip_entry | Zip_Overflow

fun zip_walk :: "nat \<Rightarrow> string list \<Rightarrow> string \<Rightarrow> int \<Rightarrow> nat \<Rightarrow> zip_result option" where
  "zip_walk 0 exts z pos nxt = None"
| "zip_walk (Suc fuel) exts z pos nxt =
     (let pos = (if nxt \<noteq> 0 then fseek pos (of_nat nxt) else pos) in
      case read_entry z pos of
        None \<Rightarrow> Some Zip_None
      | Some e \<Rightarrow>
          (case known_extension exts (zname e) of
             None \<Rightarrow> Some Zip_Overflow
           | Some True \<Rightarrow> Some (Zip_Found e)
           | Some False \<Rightarrow> zip_walk fuel exts z (zpos e) (zsize e)))"

subsection \<open>Games\<close>

record game =
  gpath :: string
  gname :: string
  m3u_path :: string
  tmp_path :: string
  gdata :: "string option"
  is_open :: bool

record open_env =
  \<comment> \<open>what the core announces, and what the calls give\<close>
  extensions :: string
  need_fullpath :: bool
  tmp_dirname :: string                                       \<comment> \<open>\<open>mkdtemp\<close>\<close>
  card_room :: nat
  alloc_game :: bool
  inflate_init :: bool                                        \<comment> \<open>\<open>inflateInit2\<close>\<close>
  inflate :: zlib
  walk_fuel :: nat

definition extract_entry :: "open_env \<Rightarrow> string \<Rightarrow> zip_entry \<Rightarrow> fs \<Rightarrow> (string \<times> bool \<times> fs) option" where
  \<comment> \<open>\<open>tmp_path\<close>, whether \<open>Game_open\<close> goes on, and the files; the result of \<open>fclose\<close> is not looked at\<close>
  "extract_entry e z ent fs =
     (let fs = fs_put (tmp_dirname e) Dir fs;
          p = tmp_dirname e @ ''/'' @ basename (zname ent)
      in if \<not> fopen_w fs p then Some ([], False, fs)
         else (let method = ZIP_LE_READ16 (zheader ent) 8;
                   src = drop (nat (zpos ent)) z
               in case (if method = 0 then Some (Zip_copy (card_room e) src 0 (zsize ent))
                        else if method = 8 then Zip_inflate (inflate e) (inflate_init e) (card_room e) src (zsize ent)
                        else Some ([], False)) of
                    None \<Rightarrow> None
                  | Some (out, ok) \<Rightarrow>
                      (let fs = fs_put p (File (take (card_room e) out)) fs
                       in Some (if ok then (p, True, fs) else ([], False, fs)))))"

definition open_zip :: "open_env \<Rightarrow> string \<Rightarrow> fs \<Rightarrow> (string \<times> bool \<times> fs) option" where
  "open_zip e p fs =
     (case fopen_r fs p of
        None \<Rightarrow> Some ([], False, fs)
      | Some z \<Rightarrow>
          (case zip_walk (walk_fuel e) (tokens [] (extensions e)) z 0 0 of
             Some Zip_None \<Rightarrow> Some ([], True, fs)
           | Some (Zip_Found ent) \<Rightarrow> extract_entry e z ent fs
           | _ \<Rightarrow> None))"

definition load_game :: "open_env \<Rightarrow> game \<Rightarrow> fs \<Rightarrow> game \<times> bool" where
  "load_game e g fs =
     (if need_fullpath e then (g, True)
      else (case fopen_r fs (if tmp_path g = [] then gpath g else tmp_path g) of
              None \<Rightarrow> (g, False)
            | Some s \<Rightarrow> if alloc_game e then (g\<lparr>gdata := Some s\<rparr>, True) else (g, False)))"

definition find_m3u :: "game \<Rightarrow> fs \<Rightarrow> game" where
  "find_m3u g fs =
     (let base = parent_path (gpath g);
          dir = (case strrchr base (CHR ''/'') of Some i \<Rightarrow> take i base | None \<Rightarrow> base);
          dir_name = (case strrchr dir (CHR ''/'') of Some i \<Rightarrow> drop i dir | None \<Rightarrow> []);
          p = dir @ dir_name @ ''.m3u''
      in if exists fs p then g\<lparr>m3u_path := p, gname := basename p\<rparr> else g)"

definition Game_open :: "open_env \<Rightarrow> string \<Rightarrow> fs \<Rightarrow> (game \<times> fs) option" where
  "Game_open e p fs =
     (let g = \<lparr>gpath = p, gname = basename p, m3u_path = [], tmp_path = [], gdata = None, is_open = False\<rparr>;
          zipped = (if suffixMatch ''.zip'' p \<and> \<not> supports_zip (extensions e) then open_zip e p fs
                    else Some ([], True, fs))
      in case zipped of
           None \<Rightarrow> None
         | Some (t, go_on, fs) \<Rightarrow>
             (let g = g\<lparr>tmp_path := t\<rparr> in
              if \<not> go_on then Some (g, fs)
              else (case load_game e g fs of
                      (g, False) \<Rightarrow> Some (g, fs)
                    | (g, True) \<Rightarrow> Some ((find_m3u g fs)\<lparr>is_open := True\<rparr>, fs))))"

definition Game_close :: "game \<Rightarrow> fs \<Rightarrow> game \<times> fs" where
  "Game_close g fs = (g\<lparr>is_open := False\<rparr>, if tmp_path g \<noteq> [] then unlink (tmp_path g) fs else fs)"

definition Game_changeDisc :: "open_env \<Rightarrow> bool \<Rightarrow> string \<Rightarrow> game \<Rightarrow> fs \<Rightarrow> (game \<times> fs) option" where
  \<comment> \<open>\<open>replace\<close>: the core can replace a disc image\<close>
  "Game_changeDisc e replace p g fs =
     (if exact_match (gpath g) p \<or> \<not> exists fs p then Some (g, fs)
      else (case Game_open e p (snd (Game_close g fs)) of
              None \<Rightarrow> None
            | Some (g, fs) \<Rightarrow> Some (g, if replace then putFile CHANGE_DISC_PATH p fs else fs)))"

subsection \<open>Archives\<close>

text \<open>An archive as other programs write it: for every file a local header, its name, an extra field and the data.\<close>

record zip_file =
  z_version :: string      \<comment> \<open>signature and version, 6 bytes\<close>
  z_flags :: "char \<times> char"
  z_method :: nat
  z_stamp :: string        \<comment> \<open>time, date and checksum, 8 bytes\<close>
  z_usize :: string        \<comment> \<open>4 bytes\<close>
  z_name :: string
  z_extra :: string
  z_data :: string

definition put16 :: "nat \<Rightarrow> string" where
  "put16 n = [char_of (n mod 256), char_of (n div 256)]"

definition put32 :: "nat \<Rightarrow> string" where
  "put32 n = put16 (n mod 65536) @ put16 (n div 65536)"

definition zip_header :: "zip_file \<Rightarrow> string" where
  "zip_header f = z_version f @ [fst (z_flags f), snd (z_flags f)] @ put16 (z_method f) @ z_stamp f
     @ put32 (length (z_data f)) @ z_usize f @ put16 (length (z_name f)) @ put16 (length (z_extra f))"

definition zip_local :: "zip_file \<Rightarrow> string" where
  "zip_local f = zip_header f @ z_name f @ z_extra f @ z_data f"

definition zip_file_ok :: "zip_file \<Rightarrow> bool" where
  "zip_file_ok f \<longleftrightarrow> length (z_version f) = 6 \<and> even ((of_char (fst (z_flags f)) :: nat) div 8) \<and> z_method f < 65536
     \<and> length (z_stamp f) = 8 \<and> length (z_usize f) = 4 \<and> length (z_name f) < MAX_PATH \<and> CHR 0x00 \<notin> set (z_name f)
     \<and> length (z_extra f) < 65536 \<and> length (z_data f) < 2 ^ 31"

subsection \<open>Facts\<close>

lemma list6: "length (xs :: string) = 6 \<Longrightarrow> \<exists>a b c d e f. xs = [a, b, c, d, e, f]"
  by (auto simp: numeral_eq_Suc length_Suc_conv)

lemma list8: "length (xs :: string) = 8 \<Longrightarrow> \<exists>a b c d e f g h. xs = [a, b, c, d, e, f, g, h]"
  by (auto simp: numeral_eq_Suc length_Suc_conv)

lemma list4: "length (xs :: string) = 4 \<Longrightarrow> \<exists>a b c d. xs = [a, b, c, d]"
  by (auto simp: numeral_eq_Suc length_Suc_conv)

lemma header_reads:
  assumes "zip_file_ok f"
  shows "length (zip_header f) = ZIP_HEADER_SIZE" and "byte_at (zip_header f) 6 = of_char (fst (z_flags f))"
    and "ZIP_LE_READ16 (zip_header f) 8 = z_method f" and "ZIP_LE_READ32 (zip_header f) 18 = length (z_data f)"
    and "ZIP_LE_READ16 (zip_header f) 26 = length (z_name f)" and "ZIP_LE_READ16 (zip_header f) 28 = length (z_extra f)"
proof -
  obtain a b c d e g where v: "z_version f = [a, b, c, d, e, g]" using assms list6 unfolding zip_file_ok_def by blast
  obtain a' b' c' d' e' f' g' h' where st: "z_stamp f = [a', b', c', d', e', f', g', h']"
    using assms list8 unfolding zip_file_ok_def by blast
  obtain a'' b'' c'' d'' where us: "z_usize f = [a'', b'', c'', d'']" using assms list4 unfolding zip_file_ok_def by blast
  have lens: "length (z_data f) div 65536 < 65536" "length (z_name f) < 65536" "length (z_extra f) < 65536" "z_method f < 65536"
    using assms by (auto simp: zip_file_ok_def MAX_PATH_def)
  note eqs = zip_header_def v st us put16_def put32_def byte_at_def ZIP_LE_READ16_def ZIP_LE_READ32_def
  show "length (zip_header f) = ZIP_HEADER_SIZE" by (simp add: eqs ZIP_HEADER_SIZE_def)
  show "byte_at (zip_header f) 6 = of_char (fst (z_flags f))" by (simp add: eqs)
  show "ZIP_LE_READ16 (zip_header f) 8 = z_method f" using lens by (simp add: eqs)
  show "ZIP_LE_READ32 (zip_header f) 18 = length (z_data f)" using lens by (simp add: eqs)
  show "ZIP_LE_READ16 (zip_header f) 26 = length (z_name f)" using lens by (simp add: eqs)
  show "ZIP_LE_READ16 (zip_header f) 28 = length (z_extra f)" using lens by (simp add: eqs)
qed

definition entry_of :: "zip_file \<Rightarrow> int \<Rightarrow> zip_entry" where
  "entry_of f pos = \<lparr>zheader = zip_header f, zname = z_name f,
     zpos = pos + int ZIP_HEADER_SIZE + int (length (z_name f)) + int (length (z_extra f)), zsize = length (z_data f)\<rparr>"

lemma read_entry_local:
  assumes "zip_file_ok f"
  shows "read_entry (before @ zip_local f @ after) (int (length before)) = Some (entry_of f (int (length before)))"
proof -
  let ?z = "before @ zip_local f @ after"
  have h: "fread ?z (int (length before)) ZIP_HEADER_SIZE = zip_header f"
    using header_reads(1) [OF assms] by (simp add: fread_def zip_local_def)
  have "nat (int (length before) + int ZIP_HEADER_SIZE) = length before + length (zip_header f)"
    using header_reads(1) [OF assms] by simp
  then have n: "fread ?z (int (length before) + int ZIP_HEADER_SIZE) (length (z_name f)) = z_name f"
    by (simp add: fread_def zip_local_def)
  have "c_string (z_name f) = z_name f"
    using assms by (auto simp: c_string_def zip_file_ok_def takeWhile_eq_all_conv)
  moreover have "even (byte_at (zip_header f) 6 div 8)" "length (z_name f) < MAX_PATH"
    using assms header_reads(2) [OF assms] by (simp_all add: zip_file_ok_def)
  ultimately show ?thesis
    using h n header_reads [OF assms] by (simp add: read_entry_def entry_of_def Let_def)
qed

lemma fseek_forward: "n < 2 ^ 31 \<Longrightarrow> fseek pos (of_nat n) = (if pos + int n < 0 then pos else pos + int n)"
proof -
  assume "n < 2 ^ 31"
  then have "sint (of_nat n :: u32) = int n"
    by (simp add: sint_uint signed_take_bit_int_eq_self_iff uint_nat unat_of_nat)
  then show ?thesis by (simp add: fseek_def Let_def)
qed

lemma zip_walk_finds:
  assumes "\<forall>f \<in> set fs. zip_file_ok f \<and> known_extension exts (z_name f) = Some False"
    and "zip_file_ok f" and "known_extension exts (z_name f) = Some True"
    and "0 \<le> pos" and "pos + int nxt = int (length before)" and "nxt < 2 ^ 31" and "length fs < fuel"
  shows "zip_walk fuel exts (before @ concat (map zip_local fs) @ zip_local f @ after) pos nxt
         = Some (Zip_Found (entry_of f (int (length (before @ concat (map zip_local fs))))))"
  using assms(1,4-7)
proof (induction fs arbitrary: before pos nxt fuel)
  case Nil
  then obtain k where k: "fuel = Suc k" by (cases fuel) auto
  have "(if nxt \<noteq> 0 then fseek pos (of_nat nxt) else pos) = int (length before)"
    using Nil by (auto simp: fseek_forward)
  then show ?case using k assms(2,3) read_entry_local by (simp add: Let_def entry_of_def)
next
  case (Cons g fs)
  then obtain k where k: "fuel = Suc k" by (cases fuel) auto
  let ?rest = "concat (map zip_local fs) @ zip_local f @ after"
  let ?e = "entry_of g (int (length before))"
  have here: "(if nxt \<noteq> 0 then fseek pos (of_nat nxt) else pos) = int (length before)"
    using Cons.prems by (auto simp: fseek_forward)
  have g: "zip_file_ok g" "known_extension exts (z_name g) = Some False" using Cons.prems(1) by auto
  have step: "zip_walk fuel exts (before @ zip_local g @ ?rest) pos nxt
      = zip_walk k exts (before @ zip_local g @ ?rest) (zpos ?e) (zsize ?e)"
    using here g k read_entry_local [OF g(1), of before ?rest] by (simp add: Let_def entry_of_def)
  have "zpos ?e + int (zsize ?e) = int (length (before @ zip_local g))"
    using header_reads(1) [OF g(1)] by (simp add: entry_of_def zip_local_def)
  moreover have "0 \<le> zpos ?e" "zsize ?e < 2 ^ 31" using g(1) by (simp_all add: entry_of_def zip_file_ok_def)
  ultimately show ?case
    using Cons.IH [of "zpos ?e" "zsize ?e" "before @ zip_local g" k] Cons.prems(1,5) k step by simp
qed

text \<open>Copying in chunks is copying.\<close>

lemma Zip_copy_whole:
  assumes "sz \<le> length src" and "written + sz \<le> room"
  shows "Zip_copy room src written sz = (take sz src, True)"
  using assms
proof (induction room src written sz rule: Zip_copy.induct)
  case (1 room src written sz)
  show ?case
  proof (cases "sz = 0")
    case False
    let ?n = "min sz ZIP_CHUNK_SIZE"
    have room: "fwrite_ok (written + ?n) room" using "1.prems" by (intro fwrite_ok_room) simp
    have "Zip_copy room (drop ?n src) (written + ?n) (sz - ?n) = (take (sz - ?n) (drop ?n src), True)"
      using "1.IH" [OF False refl refl] "1.prems" room by simp
    moreover have "take ?n src @ take (sz - ?n) (drop ?n src) = take sz src"
      by (metis le_add_diff_inverse min.cobounded1 take_add)
    ultimately show ?thesis using "1.prems" False room by (subst Zip_copy.simps) (simp add: Let_def)
  qed (simp add: Zip_copy.simps)
qed

lemma Zip_copy_short: "length src < sz \<Longrightarrow> \<not> snd (Zip_copy room src written sz)"
proof (induction room src written sz rule: Zip_copy.induct)
  case (1 room src written sz)
  let ?n = "min sz ZIP_CHUNK_SIZE"
  show ?case
  proof (cases "length (take ?n src) = ?n \<and> fwrite_ok (written + ?n) room")
    case True
    then have "length (drop ?n src) < sz - ?n" using "1.prems" by (auto simp: min_def)
    then have "\<not> snd (Zip_copy room (drop ?n src) (written + ?n) (sz - ?n))" using 1 True by (auto simp: Let_def)
    then show ?thesis using True "1.prems" by (subst Zip_copy.simps) (auto simp: Let_def split: prod.split)
  next
    case False
    then show ?thesis using "1.prems" by (subst Zip_copy.simps) (auto simp: Let_def)
  qed
qed

text \<open>What zlib documents of \<open>inflate\<close> on a complete stream: \<open>R h r u\<close> says that after the calls \<open>h\<close> the bytes \<open>r\<close> of the stream are still to
  be taken and the bytes \<open>u\<close> of the contents still to be given. A call takes a part of what it is offered and gives the next bytes; when it
  does not fill its output it has taken everything, and when that was the end of the stream it has given everything and says so.\<close>

definition zlib_decodes :: "zlib \<Rightarrow> (zcalls \<Rightarrow> string \<Rightarrow> string \<Rightarrow> bool) \<Rightarrow> bool" where
  "zlib_decodes z R \<longleftrightarrow>
     (\<forall>h i r u n. R h (i @ r) u \<and> 0 < n \<longrightarrow>
        (case z h i n of (left, out, ret) \<Rightarrow>
           \<exists>taken u'. i = taken @ left \<and> u = out @ u' \<and> length out \<le> n \<and> R (h @ [(i, n)]) (left @ r) u' \<and> \<not> inflate_failed ret
             \<and> (length out < n \<longrightarrow> left = [] \<and> (r = [] \<longrightarrow> u' = [] \<and> ret = Z_STREAM_END))
             \<and> (ret = Z_STREAM_END \<longrightarrow> left @ r = [] \<and> u' = [])))"

lemma inflate_chunk_decodes:
  assumes "zlib_decodes z R" and "R h (inp @ r) u" and "written + length u \<le> room"
  shows "\<exists>out h' ret u'. inflate_chunk z room h inp written = Some (out, Some (h', ret)) \<and> u = out @ u' \<and> R h' r u'
    \<and> (r = [] \<longrightarrow> u' = []) \<and> (ret = Z_STREAM_END \<longrightarrow> r = [] \<and> u' = [])"
  using assms(2,3)
proof (induction "length u" arbitrary: h inp u written rule: less_induct)
  case less
  obtain left out ret where z: "z h inp ZIP_CHUNK_SIZE = (left, out, ret)" by (metis prod_cases3)
  obtain u' where c: "u = out @ u'" "length out \<le> ZIP_CHUNK_SIZE" "R (h @ [(inp, ZIP_CHUNK_SIZE)]) (left @ r) u'"
    "\<not> inflate_failed ret" "length out < ZIP_CHUNK_SIZE \<longrightarrow> left = [] \<and> (r = [] \<longrightarrow> u' = [] \<and> ret = Z_STREAM_END)"
    "ret = Z_STREAM_END \<longrightarrow> left @ r = [] \<and> u' = []"
    using assms(1) [unfolded zlib_decodes_def, rule_format, of h inp r u ZIP_CHUNK_SIZE] less.prems(1) z
    by (auto simp: ZIP_CHUNK_SIZE_def)
  have room: "fwrite_ok (written + length out) room" using c(1) less.prems(2) by (intro fwrite_ok_room) simp
  show ?case
  proof (cases "length out = ZIP_CHUNK_SIZE")
    case True
    then have "length u' < length u" using c(1) by (simp add: ZIP_CHUNK_SIZE_def)
    from less.hyps [OF this c(3), of "written + length out"] less.prems(2) c(1)
    obtain outs h' ret' u'' where IH:
      "inflate_chunk z room (h @ [(inp, ZIP_CHUNK_SIZE)]) left (written + length out) = Some (outs, Some (h', ret'))"
      "u' = outs @ u''" "R h' r u''" "r = [] \<longrightarrow> u'' = []" "ret' = Z_STREAM_END \<longrightarrow> r = [] \<and> u'' = []" by auto
    then show ?thesis using True c room by (subst inflate_chunk.simps) (simp add: z)
  next
    case False
    then show ?thesis using c room by (subst inflate_chunk.simps) (auto simp: z)
  qed
qed

lemma inflate_loop_decodes:
  assumes "zlib_decodes z R" and "R h d u" and "d \<noteq> []" and "written + length u \<le> room"
  shows "inflate_loop z room h (d @ after) written (length d) ret = Some (u, True)"
  using assms(2-4)
proof (induction "length d" arbitrary: h d u written ret rule: less_induct)
  case less
  let ?n = "min (length d) ZIP_CHUNK_SIZE"
  have inp: "take ?n (d @ after) = take ?n d" "drop ?n (d @ after) = drop ?n d @ after" "take ?n d \<noteq> []"
    using less.prems(2) by (simp_all add: ZIP_CHUNK_SIZE_def min_def)
  have "R h (take ?n d @ drop ?n d) u" using less.prems(1) by simp
  from inflate_chunk_decodes [OF assms(1) this less.prems(3)]
  obtain out h' ret' u' where c: "inflate_chunk z room h (take ?n d) written = Some (out, Some (h', ret'))" "u = out @ u'"
    "R h' (drop ?n d) u'" "drop ?n d = [] \<longrightarrow> u' = []" "ret' = Z_STREAM_END \<longrightarrow> drop ?n d = [] \<and> u' = []" by blast
  show ?case
  proof (cases "length d - ?n \<noteq> 0 \<and> ret' \<noteq> Z_STREAM_END")
    case True
    then have "drop ?n d \<noteq> []" "length (drop ?n d) < length d"
      using less.prems(2) by (auto simp: ZIP_CHUNK_SIZE_def min_def split: if_splits)
    from less.hyps [OF this(2) c(3) this(1), of "written + length out" ret'] less.prems(3) c(2)
    have "inflate_loop z room h' (drop ?n d @ after) (written + length out) (length d - ?n) ret' = Some (u', True)" by simp
    then show ?thesis using True c(1,2) inp by (subst inflate_loop.simps) (simp add: Let_def)
  next
    case False
    then have "u' = []" using c(4,5) by auto
    moreover have "?n \<noteq> 0" using less.prems(2) by (simp add: ZIP_CHUNK_SIZE_def)
    ultimately show ?thesis using False c(1,2) inp by (subst inflate_loop.simps) (auto simp: Let_def simp del: min_less_iff_conj)
  qed
qed

text \<open>Whether the stream has ended is only asked while bytes of the archive are left: a file whose data were cut, with a header that says
  so, counts as extracted.\<close>

lemma cut_stream_accepted:
  assumes "z [] d ZIP_CHUNK_SIZE = ([], out, Z_OK)" and "length out < ZIP_CHUNK_SIZE" and "d \<noteq> []" and "length d \<le> ZIP_CHUNK_SIZE"
    and "length out \<le> room"
  shows "Zip_inflate z True room d (length d) = Some (out, True)"
proof -
  have "inflate_chunk z room [] d 0 = Some (out, Some ([(d, ZIP_CHUNK_SIZE)], Z_OK))"
    using assms fwrite_ok_room [OF assms(5)] by (subst inflate_chunk.simps) (simp add: inflate_failed_def)
  then show ?thesis unfolding Zip_inflate_def using assms(3,4) by (subst inflate_loop.simps) (simp add: Let_def)
qed

lemma basename_no_slash: "CHR ''/'' \<notin> set (basename s)"
proof (cases "strrchr s (CHR ''/'')")
  case None
  then show ?thesis by (simp add: basename_def strrchr_None [THEN iffD1])
next
  case (Some i)
  then show ?thesis using strrchr_Some [OF Some] by (auto simp: basename_def)
qed

lemma read_entry_pos:
  assumes "read_entry z pos = Some e" and "0 \<le> pos"
  shows "pos + 30 \<le> zpos e" and "pos + 30 \<le> int (length z)"
proof -
  show "pos + 30 \<le> zpos e"
    using assms(1) by (auto simp: read_entry_def Let_def ZIP_HEADER_SIZE_def split: if_splits)
  have "length (fread z pos ZIP_HEADER_SIZE) = ZIP_HEADER_SIZE"
    using assms(1) by (auto simp: read_entry_def Let_def split: if_splits)
  then show "pos + 30 \<le> int (length z)" using assms(2) by (simp add: fread_def ZIP_HEADER_SIZE_def)
qed

definition forward_only :: "string \<Rightarrow> bool" where
  \<comment> \<open>no header of the archive gives a size of 2 GiB or more\<close>
  "forward_only z \<longleftrightarrow> (\<forall>pos e. read_entry z pos = Some e \<longrightarrow> zsize e < 2 ^ 31)"

lemma zip_walk_returns:
  assumes "forward_only z" and "0 \<le> pos" and "nxt < 2 ^ 31" and "int (length z) - pos < int fuel" and "0 < fuel"
  shows "\<exists>r. zip_walk fuel exts z pos nxt = Some r"
  using assms(2-5)
proof (induction fuel arbitrary: pos nxt)
  case (Suc fuel)
  let ?p = "if nxt \<noteq> 0 then fseek pos (of_nat nxt) else pos"
  have p: "pos \<le> ?p" "0 \<le> ?p" using Suc.prems(1,2) by (auto simp: fseek_forward)
  show ?case
  proof (cases "read_entry z ?p")
    case (Some e)
    have e: "?p + 30 \<le> zpos e" "?p + 30 \<le> int (length z)" "zsize e < 2 ^ 31"
      using read_entry_pos [OF Some p(2)] assms(1) Some by (auto simp: forward_only_def)
    then have "int (length z) - zpos e < int fuel" "0 < fuel" using p Suc.prems(3) by linarith+
    then have "\<exists>r. zip_walk fuel exts z (zpos e) (zsize e) = Some r" using e p(2) by (intro Suc.IH) linarith+
    then show ?thesis using Some by (auto simp: Let_def split: option.split bool.split)
  qed (simp add: Let_def)
qed simp

subsection \<open>Properties\<close>

text \<open>C13: opening a zipped game: of an archive, the first file with an extension of the core, stored or deflated, is extracted
  to the temporary folder, whatever files come before and after it: what is there is its data byte for byte or, deflated, what
  \<open>inflate\<close> decodes them to, and that is what the core is given to load; the game is then open. The disk must have room for it, memory suffice, and no
  file have 2 GiB or more.\<close>

definition zip_content :: "open_env \<Rightarrow> zip_file \<Rightarrow> string \<Rightarrow> bool" where
  \<comment> \<open>what the data of a file stand for\<close>
  "zip_content e f s \<longleftrightarrow>
     z_method f = 0 \<and> s = z_data f
     \<or> z_method f = 8 \<and> inflate_init e \<and> z_data f \<noteq> [] \<and> (\<exists>R. zlib_decodes (inflate e) R \<and> R [] (z_data f) s)"


text \<open>A coder that leaves every byte as it is and ends with a zero byte stands for zlib in the examples.\<close>

definition demo_ended :: "zcalls \<Rightarrow> bool" where
  "demo_ended h = list_ex (\<lambda>(i, n). CHR 0x00 \<in> set i \<and> length (takeWhile (\<lambda>c. c \<noteq> CHR 0x00) i) < n) h"

definition demo_zlib :: zlib where
  "demo_zlib h i n =
     (let s = takeWhile (\<lambda>c. c \<noteq> CHR 0x00) i; out = take n s in
      if demo_ended h then (i, [], Z_STREAM_END)
      else if length s < n \<and> CHR 0x00 \<in> set i then (drop (Suc (length s)) i, out, Z_STREAM_END)
      else (drop n s @ drop (length s) i, out, Z_OK))"

definition demo_stream :: "zcalls \<Rightarrow> string \<Rightarrow> string \<Rightarrow> bool" where
  "demo_stream h r u \<longleftrightarrow> CHR 0x00 \<notin> set u \<and> (if demo_ended h then r = [] \<and> u = [] else r = u @ [CHR 0x00])"

lemma demo_decodes: "zlib_decodes demo_zlib demo_stream"
  unfolding zlib_decodes_def
proof (intro allI impI, elim conjE)
  fix h i r u and n :: nat
  assume R: "demo_stream h (i @ r) u" and n: "0 < n"
  let ?s = "takeWhile (\<lambda>c. c \<noteq> CHR 0x00) i"
  show "case demo_zlib h i n of (left, out, ret) \<Rightarrow>
           \<exists>taken u'. i = taken @ left \<and> u = out @ u' \<and> length out \<le> n \<and> demo_stream (h @ [(i, n)]) (left @ r) u' \<and> \<not> inflate_failed ret
             \<and> (length out < n \<longrightarrow> left = [] \<and> (r = [] \<longrightarrow> u' = [] \<and> ret = Z_STREAM_END))
             \<and> (ret = Z_STREAM_END \<longrightarrow> left @ r = [] \<and> u' = [])"
  proof (cases "demo_ended h")
    case True
    then show ?thesis using R by (simp add: demo_stream_def demo_zlib_def demo_ended_def inflate_failed_def)
  next
    case False
    then have ir: "i @ r = u @ [CHR 0x00]" "CHR 0x00 \<notin> set u" using R by (simp_all add: demo_stream_def)
    show ?thesis
    proof (cases "CHR 0x00 \<in> set i")
      case True
      then have i: "i = u @ [CHR 0x00]" "r = []" using ir by (auto simp: append_eq_append_conv2 append_eq_Cons_conv)
      moreover have "takeWhile (\<lambda>c. c \<noteq> CHR 0x00) (u @ [CHR 0x00]) = u" using ir(2) by (subst takeWhile_append2) auto
      ultimately have "?s = u" by simp
      then show ?thesis
        using False ir(2) i n
        by (cases "length u < n") (auto simp: demo_zlib_def demo_stream_def demo_ended_def inflate_failed_def Let_def dest: in_set_dropD
            intro: exI [of _ "take n u"] append_take_drop_id [symmetric])
    next
      case zero: False
      then have s: "?s = i" by (simp add: takeWhile_eq_all_conv) metis
      obtain v where v: "u = i @ v" "r = v @ [CHR 0x00]"
        using ir zero by (auto simp: append_eq_append_conv2 Cons_eq_append_conv append_eq_Cons_conv)
      have z: "demo_zlib h i n = (drop n i, take n i, Z_OK)" using False zero unfolding demo_zlib_def s by (simp add: Let_def)
      have R': "demo_stream (h @ [(i, n)]) (drop n i @ r) (drop n i @ v)"
        using False zero ir(2) v by (auto simp: demo_stream_def demo_ended_def dest: in_set_dropD)
      have "r \<noteq> []" using v(2) by simp
      then show ?thesis using R' by (auto simp: z v(1) inflate_failed_def intro!: exI [of _ "drop n i @ v"] exI [of "\<lambda>t. i = t @ drop n i" "take n i"])
    qed
  qed
qed

definition demo_file :: "string \<Rightarrow> nat \<Rightarrow> string \<Rightarrow> zip_file" where
  "demo_file nm meth bytes = \<lparr>z_version = ''PK1234'', z_flags = (CHR 0x00, CHR 0x00), z_method = meth, z_stamp = ''12345678'',
     z_usize = ''1234'', z_name = nm, z_extra = [], z_data = bytes\<rparr>"

definition demo_env :: open_env where
  "demo_env = \<lparr>extensions = ''gb|gbc'', need_fullpath = False, tmp_dirname = ''/tmp/minarch-1'', card_room = 100,
     alloc_game = True, inflate_init = True, inflate = demo_zlib, walk_fuel = 10\<rparr>"

definition demo_archive :: "nat \<Rightarrow> string \<Rightarrow> fs" where
  "demo_archive meth bytes = [(''/r/a.zip'', File (concat (map zip_local [demo_file ''read.me'' 0 ''hello'']) @
       zip_local (demo_file ''d/a.gb'' meth bytes) @ ''PK''))]"


lemma zip_walk_terminates: "forward_only z \<Longrightarrow> length z < fuel \<Longrightarrow> \<exists>r. zip_walk fuel exts z 0 0 = Some r"
  by (intro zip_walk_returns) simp_all

definition crafted_zip :: string where
  "crafted_zip = [CHR 0x00, CHR 0x00, CHR 0x00, CHR 0x00, CHR 0x00, CHR 0x00, CHR 0x00, CHR 0x00, CHR 0x00,
     CHR 0x00, CHR 0x00, CHR 0x00, CHR 0x00, CHR 0x00, CHR 0x00, CHR 0x00, CHR 0x00, CHR 0x00,
     CHR 0xE1, CHR 0xFF, CHR 0xFF, CHR 0xFF, CHR 0x00, CHR 0x00, CHR 0x00, CHR 0x00, CHR 0x01, CHR 0x00, CHR 0x00, CHR 0x00, CHR ''a'']"

lemma crafted_zip_hangs:
  assumes "known_extension exts ''a'' = Some False"
  shows "zip_walk fuel exts crafted_zip 0 0 = None"
proof -
  have "read_entry crafted_zip 0 = Some \<lparr>zheader = take 30 crafted_zip, zname = ''a'', zpos = 31, zsize = 2 ^ 32 - 31\<rparr>"
    by (simp add: read_entry_def fread_def ZIP_HEADER_SIZE_def crafted_zip_def Let_def byte_at_def ZIP_LE_READ16_def
        ZIP_LE_READ32_def MAX_PATH_def c_string_def)
  moreover have "fseek 31 (of_nat (2 ^ 32 - 31)) = 0" by (simp add: fseek_def)
  ultimately have "zip_walk fuel exts crafted_zip 31 (2 ^ 32 - 31) = None" for fuel
    using assms by (induction fuel) simp_all
  then show ?thesis using assms \<open>read_entry crafted_zip 0 = _\<close> by (cases fuel) simp_all
qed

text \<open>C40: the walk through an archive without files of 2 GiB or more always ends; but a 31-byte archive hangs the emulator: its one
  header gives a size that reads as -31 when it is an offset, so the walk returns to the same header for ever, whatever extensions
  the core has that its name lacks.\<close>

theorem zip_walk_ends_or_hangs:
  assumes "known_extension exts ''a'' = Some False" "forward_only z" "length z < fuel"
  shows "(\<exists>r. zip_walk fuel exts z 0 0 = Some r) \<and> (\<forall>fuel. zip_walk fuel exts crafted_zip 0 0 = None)"
  using assms zip_walk_terminates crafted_zip_hangs by blast

theorem zip_walk_ends_or_hangs_witness:
  "(\<exists>r. zip_walk 40 [''gb''] (replicate 30 (CHR ''x'')) 0 0 = Some r) \<and> (\<forall>fuel. zip_walk fuel [''gb''] crafted_zip 0 0 = None)"
proof -
  have "forward_only (replicate 30 (CHR ''x''))"
  proof -
    have "read_entry (replicate 30 (CHR ''x'')) pos = None" for pos
      by (auto simp: read_entry_def fread_def ZIP_HEADER_SIZE_def Let_def byte_at_def ZIP_LE_READ16_def MAX_PATH_def)
    then show ?thesis by (simp add: forward_only_def)
  qed
  moreover have "known_extension [''gb''] ''a'' = Some False" by code_simp
  ultimately show ?thesis by (intro zip_walk_ends_or_hangs) simp_all
qed

end
