(* ===== verification/Picker.thy ===== *)
theory Picker
  imports Roms Atomic Keyboard
begin

text \<open>
  The collection picker of the in-game menu (\<open>minarch/menu.c\<close>, lines 1126 to 1340): whether the game is in a
  collection, adding and removing it, naming a new collection on the keyboard, and the rows shown.
  A collection is the text file \<open>Collections/name.txt\<close> with a path per line that the launcher reads
  (\<open>getCollection\<close>). \<open>room\<close> is the number of bytes the card accepts; \<open>rel\<close> is the game's path below the
  card's root.
\<close>

definition append_line :: "nat \<Rightarrow> string \<Rightarrow> string \<Rightarrow> fs \<Rightarrow> fs option" where
  \<comment> \<open>\<open>fopen(p, "a")\<close> and \<open>fprintf\<close>; \<open>None\<close> when the file cannot be opened\<close>
  "append_line room p line fs =
     (if fopen_w fs p
      then (let old = (case fopen_r fs p of Some s \<Rightarrow> s | None \<Rightarrow> []) in
            Some (fs_put p (File (old @ take room (line @ [char_newline]))) fs))
      else None)"

definition collection_path :: "string \<Rightarrow> string" where
  "collection_path nm = snprintf_buf MAX_PATH (COLLECTIONS_PATH @ ''/'' @ nm @ ''.txt'')"

definition Menu_inCollection :: "fs \<Rightarrow> string \<Rightarrow> string \<Rightarrow> bool" where
  "Menu_inCollection fs nm rel =
     (case fopen_r fs (collection_path nm) of
        None \<Rightarrow> False
      | Some s \<Rightarrow> list_ex (\<lambda>l. exact_match (clean_line l) rel) (fgets_all 256 s))"

definition FAV_CHECK :: string where "FAV_CHECK = [CHR 0xE2, CHR 0x9C, CHR 0x93]"

definition Menu_collLabel :: "bool \<Rightarrow> string \<Rightarrow> bool \<Rightarrow> string" where
  "Menu_collLabel alloc nm isin = (if \<not> alloc then nm else (if isin then FAV_CHECK @ '' '' else []) @ nm)"

record picker_row =
  row_key :: "string option"
  row_name :: string

subsection \<open>Adding and removing\<close>

definition remove_lines :: "string \<Rightarrow> string \<Rightarrow> string" where
  "remove_lines rel s =
     write_lines (filter (\<lambda>l. \<not> (length l = 0 \<or> exact_match l rel)) (map clean_line (fgets_all 256 s)))"

definition remove_entry :: "nat \<Rightarrow> string \<Rightarrow> string \<Rightarrow> fs \<Rightarrow> fs" where
  \<comment> \<open>no write is checked before the renaming\<close>
  "remove_entry room p rel fs =
     (case fopen_r fs p of
        None \<Rightarrow> fs
      | Some s \<Rightarrow>
          (let tmp = snprintf_buf MAX_PATH (p @ ''.tmp'') in
           if fopen_w fs tmp then rename tmp p (fs_put tmp (File (take room (remove_lines rel s))) fs) else fs))"

definition Menu_toggleCollection :: "nat \<Rightarrow> bool \<Rightarrow> string \<Rightarrow> picker_row \<Rightarrow> fs \<Rightarrow> picker_row \<times> fs \<times> string option" where
  \<comment> \<open>the row relabelled, the files, and the message shown if any\<close>
  "Menu_toggleCollection room alloc rel row fs =
     (let cname = (case row_key row of Some k \<Rightarrow> k | None \<Rightarrow> row_name row);
          (fs, msg) =
            (if Menu_inCollection fs cname rel then (remove_entry room (collection_path cname) rel fs, None)
             else (let fs = mkdir COLLECTIONS_PATH fs in
                   case append_line room (collection_path cname) rel fs of
                     Some fs \<Rightarrow> (fs, None)
                   | None \<Rightarrow> (fs, Some ''Couldn't update collection'')))
      in (row\<lparr>row_name := Menu_collLabel alloc cname (Menu_inCollection fs cname rel)\<rparr>, fs, msg))"

subsection \<open>A new collection\<close>

definition COLL_KB :: "string list" where
  "COLL_KB = [''ABCDEFGHIJ'', ''KLMNOPQRST'', ''UVWXYZ0123'', ''456789 -_'']"

definition Menu_keyboard :: "nat \<Rightarrow> PAD_Context list \<Rightarrow> keyboard" where
  "Menu_keyboard maxlen pads = keyboard_loop COLL_KB maxlen pads keyboard_start"

definition trim_spaces :: "string \<Rightarrow> string" where
  "trim_spaces s = rev (dropWhile (\<lambda>c. c = CHR '' '') (rev s))"

definition collection_target :: "string \<Rightarrow> string" where
  "collection_target nm = (if casekey nm = casekey ''Favorites'' then ''Favorites'' else nm)"

definition Menu_newCollection :: "nat \<Rightarrow> string \<Rightarrow> keyboard \<Rightarrow> fs \<Rightarrow> bool \<times> fs \<times> string option" where
  \<comment> \<open>whether the list is left to be rebuilt, the files, the message\<close>
  "Menu_newCollection room rel k fs =
     (let nm = trim_spaces (typed k) in
      if kresult k \<and> typed k \<noteq> [] \<and> length nm > 0 then
        (let target = collection_target nm;
             fs = mkdir COLLECTIONS_PATH fs;
             p = collection_path target;
             already_existed = exists fs p
         in case append_line room p rel fs of
              None \<Rightarrow> (False, fs, Some ''Couldn't create collection'')
            | Some fs \<Rightarrow>
                (True, fs, if casekey nm = casekey ''Favorites'' then Some ''Added to existing collection: Favorites''
                           else if already_existed then Some ''Added to existing collection'' else None))
      else (False, fs, None))"

subsection \<open>The rows\<close>

definition MAX_COLLECTIONS :: nat where "MAX_COLLECTIONS = 128"

definition picker_base :: "string \<Rightarrow> string" where
  \<comment> \<open>the copy of the file's name is cut to its buffer before the extension is\<close>
  "picker_base d_name = (let base = take 127 d_name in take (length base - 4) base)"

definition picker_names :: "fs \<Rightarrow> string list" where
  "picker_names fs =
     (let ns = (case opendir fs COLLECTIONS_PATH of None \<Rightarrow> [] | Some ns \<Rightarrow> ns);
          bases = map picker_base (filter (\<lambda>n. take 1 n \<noteq> ''.'' \<and> suffixMatch ''.txt'' n) ns)
      in sort_key (map (of_char :: char \<Rightarrow> nat))
           (take MAX_COLLECTIONS (filter (\<lambda>b. \<not> exact_match b ''Favorites'') bases)))"

definition collection_row :: "fs \<Rightarrow> string \<Rightarrow> string \<Rightarrow> picker_row" where
  "collection_row fs rel nm =
     \<lparr>row_key = Some nm, row_name = Menu_collLabel True nm (Menu_inCollection fs nm rel)\<rparr>"

definition Menu_collections_rows :: "fs \<Rightarrow> string \<Rightarrow> picker_row list" where
  "Menu_collections_rows fs rel =
     \<lparr>row_key = None, row_name = ''[ New Collection ]''\<rparr>
     # map (collection_row fs rel) (''Favorites'' # picker_names fs)"

subsection \<open>Facts\<close>

interpretation coll_kb: keyboard_table COLL_KB
  by unfold_locales (simp_all add: COLL_KB_def)

definition good_line :: "string \<Rightarrow> bool" where
  "good_line l \<longleftrightarrow> plain_line l \<and> length l < 255 \<and> l \<noteq> []"

definition collection_lines :: "fs \<Rightarrow> string \<Rightarrow> string list \<Rightarrow> bool" where
  \<comment> \<open>the collection's file, if there is one, has these lines\<close>
  "collection_lines fs nm ls \<longleftrightarrow>
     (case fopen_r fs (collection_path nm) of Some s \<Rightarrow> s = write_lines ls | None \<Rightarrow> ls = [])"

lemma read_good_lines: "\<forall>l \<in> set ls. good_line l \<Longrightarrow> map clean_line (fgets_all 256 (write_lines ls)) = ls"
  by (intro read_lines_write_lines) (simp add: good_line_def)

lemma inCollection_lines:
  assumes "collection_lines fs nm ls" and "\<forall>l \<in> set ls. good_line l"
  shows "Menu_inCollection fs nm rel \<longleftrightarrow> rel \<in> set ls"
proof (cases "fopen_r fs (collection_path nm)")
  case (Some s)
  then have "map clean_line (fgets_all 256 s) = ls" using assms read_good_lines by (simp add: collection_lines_def)
  then have "set ls = clean_line ` set (fgets_all 256 s)" by force
  then show ?thesis using Some by (auto simp: Menu_inCollection_def list_ex_iff exact_match_eq)
qed (use assms in \<open>simp add: Menu_inCollection_def collection_lines_def\<close>)

lemma write_lines_append [simp]: "write_lines (ls @ ls') = write_lines ls @ write_lines ls'"
  by (simp add: write_lines_def)

lemma append_line_lines:
  assumes "collection_lines fs nm ls" and "fopen_w fs (collection_path nm)" and "length rel < room"
  obtains fs' where "append_line room (collection_path nm) rel fs = Some fs'" "collection_lines fs' nm (ls @ [rel])"
    "\<And>q. q \<noteq> collection_path nm \<Longrightarrow> map_of fs' q = map_of fs q" "fopen_r fs' (collection_path nm) \<noteq> None"
proof -
  let ?p = "collection_path nm"
  let ?fs = "fs_put ?p (File (write_lines (ls @ [rel]))) fs"
  have "append_line room ?p rel fs = Some ?fs"
    using assms by (auto simp: append_line_def collection_lines_def split: option.splits)
  moreover have "collection_lines ?fs nm (ls @ [rel])" by (simp add: collection_lines_def fopen_r_fs_put)
  ultimately show thesis using that by (simp add: map_of_fs_put fopen_r_fs_put)
qed

definition fits :: "string \<Rightarrow> bool" where
  "fits nm \<longleftrightarrow> length COLLECTIONS_PATH + length nm + 10 < MAX_PATH \<and> CHR ''/'' \<notin> set nm"

lemma collection_path_fits: "fits nm \<Longrightarrow> collection_path nm = COLLECTIONS_PATH @ ''/'' @ nm @ ''.txt''"
  unfolding collection_path_def by (intro snprintf_buf_fits) (simp add: fits_def)

lemma collection_tmp: "fits nm \<Longrightarrow> snprintf_buf MAX_PATH (collection_path nm @ ''.tmp'') = collection_path nm @ ''.tmp''"
  by (intro snprintf_buf_fits) (simp add: fits_def collection_path_fits)

lemma collection_dir:
  assumes "fits nm"
  shows "dirname (collection_path nm) = COLLECTIONS_PATH" and "dirname (collection_path nm @ ''.tmp'') = COLLECTIONS_PATH"
proof -
  show "dirname (collection_path nm) = COLLECTIONS_PATH"
    using assms dirname_join [of "nm @ ''.txt''"] by (simp add: collection_path_fits fits_def)
  show "dirname (collection_path nm @ ''.tmp'') = COLLECTIONS_PATH"
    using assms dirname_join [of "nm @ ''.txt.tmp''"] by (simp add: collection_path_fits fits_def)
qed

definition picker_ready :: "fs \<Rightarrow> string \<Rightarrow> bool" where
  "picker_ready fs nm \<longleftrightarrow> map_of fs COLLECTIONS_PATH = Some Dir \<and> map_of fs (collection_path nm) \<noteq> Some Dir
     \<and> map_of fs (collection_path nm @ ''.tmp'') \<noteq> Some Dir"

lemma card_ready_writable:
  assumes "fits nm" and "picker_ready fs nm"
  shows "fopen_w fs (collection_path nm)" and "fopen_w fs (collection_path nm @ ''.tmp'')"
  using assms collection_dir [OF assms(1)] by (simp_all add: fopen_w_def picker_ready_def)

lemma paths_differ: "fits nm \<Longrightarrow> COLLECTIONS_PATH \<noteq> collection_path nm \<and> COLLECTIONS_PATH \<noteq> collection_path nm @ ''.tmp''"
  by (simp add: collection_path_fits)

lemma card_ready_cong:
  assumes "fits nm" and "picker_ready fs nm" and "fopen_r fs' (collection_path nm) \<noteq> None"
    and "\<And>q. q \<noteq> collection_path nm \<Longrightarrow> q \<noteq> collection_path nm @ ''.tmp'' \<Longrightarrow> map_of fs' q = map_of fs q"
    and "map_of fs' (collection_path nm @ ''.tmp'') \<in> {None, map_of fs (collection_path nm @ ''.tmp'')}"
  shows "picker_ready fs' nm"
  unfolding picker_ready_def
proof (intro conjI)
  show "map_of fs' COLLECTIONS_PATH = Some Dir"
    using assms(2) assms(4) [of COLLECTIONS_PATH] paths_differ [OF assms(1)] by (simp add: picker_ready_def)
  show "map_of fs' (collection_path nm) \<noteq> Some Dir" using assms(3) by (auto simp: fopen_r_def)
  show "map_of fs' (collection_path nm @ ''.tmp'') \<noteq> Some Dir" using assms(2,5) by (auto simp: picker_ready_def)
qed

lemma remove_entry_file:
  \<comment> \<open>whatever the room, what got onto the card replaces the collection\<close>
  assumes "fits nm" and "picker_ready fs nm" and "collection_lines fs nm ls" and "\<forall>l \<in> set ls. good_line l" and "rel \<in> set ls"
  shows "remove_entry room (collection_path nm) rel fs
    = (let file = File (take room (write_lines (filter (\<lambda>l. l \<noteq> rel) ls))); t = collection_path nm @ ''.tmp'' in
       fs_put (collection_path nm) file (unlink t (fs_put t file fs)))"
proof -
  let ?p = "collection_path nm" and ?t = "collection_path nm @ ''.tmp''"
  let ?ls = "filter (\<lambda>l. l \<noteq> rel) ls"
  have s: "fopen_r fs ?p = Some (write_lines ls)"
    using assms(3,5) by (auto simp: collection_lines_def split: option.splits)
  have "filter (\<lambda>l. \<not> (length l = 0 \<or> exact_match l rel)) ls = ?ls"
    using assms(4) by (intro filter_cong) (auto simp: good_line_def exact_match_eq)
  then have contents: "remove_lines rel (write_lines ls) = write_lines ?ls"
    using read_good_lines [OF assms(4)] by (simp add: remove_lines_def)
  let ?fs = "fs_put ?t (File (take room (write_lines ?ls))) fs"
  have w: "fopen_w fs ?t" "fopen_w fs ?p" using card_ready_writable [OF assms(1,2)] by auto
  then have ok: "rename_ok ?t ?p ?fs" by (simp add: rename_ok_def fopen_r_fs_put fopen_w_put_file)
  then show ?thesis
    using s w(1) by (simp add: remove_entry_def collection_tmp [OF assms(1)] contents rename_def fopen_r_fs_put Let_def)
qed

lemma remove_entry_lines:
  assumes "fits nm" and "picker_ready fs nm" and "collection_lines fs nm ls" and "\<forall>l \<in> set ls. good_line l"
    and "rel \<in> set ls" and "length (write_lines ls) \<le> room"
  defines "fs' \<equiv> remove_entry room (collection_path nm) rel fs"
  shows "collection_lines fs' nm (filter (\<lambda>l. l \<noteq> rel) ls)" and "fopen_r fs' (collection_path nm) \<noteq> None"
    and "\<And>q. q \<noteq> collection_path nm \<Longrightarrow> q \<noteq> collection_path nm @ ''.tmp'' \<Longrightarrow> map_of fs' q = map_of fs q"
    and "map_of fs' (collection_path nm @ ''.tmp'') = None"
proof -
  have "length (write_lines (filter P ls)) \<le> length (write_lines ls)" for P by (induction ls) simp_all
  then have "take room (write_lines (filter (\<lambda>l. l \<noteq> rel) ls)) = write_lines (filter (\<lambda>l. l \<noteq> rel) ls)"
    using assms(6) le_trans by (intro take_all) blast
  with remove_entry_file [OF assms(1-5), of room]
  show "collection_lines fs' nm (filter (\<lambda>l. l \<noteq> rel) ls)" "fopen_r fs' (collection_path nm) \<noteq> None"
    "\<And>q. q \<noteq> collection_path nm \<Longrightarrow> q \<noteq> collection_path nm @ ''.tmp'' \<Longrightarrow> map_of fs' q = map_of fs q"
    "map_of fs' (collection_path nm @ ''.tmp'') = None"
    by (simp_all add: fs'_def collection_lines_def fopen_r_fs_put map_of_fs_put map_of_unlink Let_def)
qed

text \<open>One step of the picker on a collection of good lines.\<close>

definition toggled :: "string \<Rightarrow> string list \<Rightarrow> string list" where
  "toggled rel ls = (if rel \<in> set ls then filter (\<lambda>l. l \<noteq> rel) ls else ls @ [rel])"

lemma toggle_step:
  assumes "fits nm" and "picker_ready fs nm" and "collection_lines fs nm ls" and "\<forall>l \<in> set ls. good_line l" and "good_line rel"
    and "length (write_lines (ls @ [rel])) \<le> room" and "row_key row = Some nm"
    and "Menu_toggleCollection room alloc rel row fs = (row', fs', msg)"
  shows "collection_lines fs' nm (toggled rel ls)" and "picker_ready fs' nm" and "msg = None" and "row_key row' = Some nm"
    and "row_name row' = Menu_collLabel alloc nm (rel \<notin> set ls)"
    and "\<And>q. q \<noteq> collection_path nm \<Longrightarrow> q \<noteq> collection_path nm @ ''.tmp'' \<Longrightarrow> map_of fs' q = map_of fs q"
proof -
  let ?p = "collection_path nm"
  have dir: "mkdir COLLECTIONS_PATH fs = fs" using assms(2) by (simp add: mkdir_def picker_ready_def)
  note isin = inCollection_lines [OF assms(3,4), of rel]
  note lines = assms(8) [unfolded Menu_toggleCollection_def Let_def]
  have main: "collection_lines fs' nm (toggled rel ls) \<and> picker_ready fs' nm \<and> msg = None \<and>
    (\<forall>q. q \<noteq> ?p \<longrightarrow> q \<noteq> ?p @ ''.tmp'' \<longrightarrow> map_of fs' q = map_of fs q) \<and>
    row' = row\<lparr>row_name := Menu_collLabel alloc nm (Menu_inCollection fs' nm rel)\<rparr>"
  proof (cases "rel \<in> set ls")
    case True
    then have "length (write_lines ls) \<le> room" using assms(6) by simp
    note gone = remove_entry_lines [OF assms(1-4) True this]
    have "fs' = remove_entry room ?p rel fs" "msg = None"
      "row' = row\<lparr>row_name := Menu_collLabel alloc nm (Menu_inCollection fs' nm rel)\<rparr>"
      using lines True isin assms(7) by auto
    then show ?thesis using gone True card_ready_cong [OF assms(1,2)] by (simp add: toggled_def)
  next
    case False
    have "length rel < room" using assms(6) by simp
    from append_line_lines [OF assms(3) card_ready_writable(1) [OF assms(1,2)] this] obtain f where
      f: "append_line room ?p rel fs = Some f" "collection_lines f nm (ls @ [rel])"
      "\<And>q. q \<noteq> ?p \<Longrightarrow> map_of f q = map_of fs q" "fopen_r f ?p \<noteq> None" by blast
    have "fs' = f" "msg = None" "row' = row\<lparr>row_name := Menu_collLabel alloc nm (Menu_inCollection fs' nm rel)\<rparr>"
      using lines False isin assms(7) dir f(1) by auto
    then show ?thesis using f False card_ready_cong [OF assms(1,2) f(4)] by (simp add: toggled_def)
  qed
  then show "collection_lines fs' nm (toggled rel ls)" "picker_ready fs' nm" "msg = None" "row_key row' = Some nm"
    "\<And>q. q \<noteq> ?p \<Longrightarrow> q \<noteq> ?p @ ''.tmp'' \<Longrightarrow> map_of fs' q = map_of fs q" using assms(7) by auto
  have "\<forall>l \<in> set (toggled rel ls). good_line l" using assms(4,5) by (auto simp: toggled_def)
  from inCollection_lines [OF _ this, of fs' nm rel] main
  show "row_name row' = Menu_collLabel alloc nm (rel \<notin> set ls)" by (auto simp: toggled_def)
qed

text \<open>What the launcher shows of a collection.\<close>

lemma clean_line_length: "length (clean_line l) \<le> length l"
proof -
  have "length (trimTrailingNewlines m) \<le> length m" for m
    unfolding trimTrailingNewlines_def using length_dropWhile_le [of _ "rev m"] by simp
  moreover have "length (normalizeNewline l) \<le> length l" by (auto simp: normalizeNewline_def Let_def)
  ultimately show ?thesis unfolding clean_line_def using le_trans by blast
qed

lemma collection_line_path:
  assumes "rel \<noteq> []" and "length l < 256" and "exists fs (SDCARD_PATH @ rel)" and "\<not> hide (basename (SDCARD_PATH @ rel))"
    and "hasEmu fs plat (getEmuName (SDCARD_PATH @ rel))"
  shows "(\<exists>e \<in> set (collection_line fs plat l). path e = SDCARD_PATH @ rel) \<longleftrightarrow> clean_line l = rel"
proof -
  have "length (clean_line l) < 256" using clean_line_length [of l] assms(2) by simp
  then have fit: "snprintf_buf MAX_PATH (SDCARD_PATH @ clean_line l) = SDCARD_PATH @ clean_line l"
    by (intro snprintf_buf_fits) (simp add: MAX_PATH_def SDCARD_PATH_def)
  show ?thesis
  proof (cases "clean_line l = rel")
    case True
    then show ?thesis using assms fit by (simp add: collection_line_def Let_def clean_line_def [symmetric])
  next
    case False
    then have "\<forall>e \<in> set (collection_line fs plat l). path e \<noteq> SDCARD_PATH @ rel"
      using fit by (auto simp: collection_line_def Let_def clean_line_def [symmetric] split: if_splits)
    then show ?thesis using False by blast
  qed
qed

lemma suffixMatch_last: "suffixMatch p s \<Longrightarrow> p \<noteq> [] \<Longrightarrow> tolower (last p) = tolower (last s)"
  by (metis (no_types, lifting) suffixMatch_iff last_map last_drop length_0_conv map_is_Nil_conv drop_eq_Nil linorder_not_less)

lemma not_hidden: "n \<noteq> [] \<Longrightarrow> CHR ''.'' \<notin> set n \<Longrightarrow> n \<noteq> ''map'' \<Longrightarrow> \<not> hide (n @ ''.txt'')"
  using suffixMatch_last [of "''.disabled''" "n @ ''.txt''"]
  by (cases n) (auto simp: hide_def exact_match_eq tolower_def)

lemma trim_spaces_nth: "set (trim_spaces s) \<subseteq> set s" "length (trim_spaces s) \<le> length s"
  using length_dropWhile_le [of _ "rev s"] set_dropWhileD [of _ _ "rev s"] by (auto simp: trim_spaces_def)

subsection \<open>Properties\<close>

text \<open>The picker and the launcher agree: whatever a collection's file contains, a game of the card is marked as a member
  exactly when the launcher lists it in that collection.\<close>

theorem picker_agrees_launcher:
  assumes "rel \<noteq> []" and "exists fs (SDCARD_PATH @ rel)" and "\<not> hide (basename (SDCARD_PATH @ rel))"
    and "hasEmu fs plat (getEmuName (SDCARD_PATH @ rel))"
  shows "Menu_inCollection fs nm rel
     \<longleftrightarrow> (\<exists>e \<in> set (getCollection fs plat (collection_path nm)). path e = SDCARD_PATH @ rel)"
proof (cases "fopen_r fs (collection_path nm)")
  case (Some s)
  have "(\<exists>e \<in> set (collection_line fs plat l). path e = SDCARD_PATH @ rel) \<longleftrightarrow> exact_match (clean_line l) rel"
    if "l \<in> set (fgets_all 256 s)" for l
    using that fgets_all_length [of 256 s] collection_line_path [OF assms(1) _ assms(2-4)] by (simp add: exact_match_eq)
  then show ?thesis using Some by (auto simp: Menu_inCollection_def getCollection_def list_ex_iff)
qed (simp add: Menu_inCollection_def getCollection_def)

definition demo_picker :: fs where
  "demo_picker = [(SDCARD_PATH, Dir), (COLLECTIONS_PATH, Dir), (ROMS_PATH @ ''/GB (GB)/a.gb'', File []),
     (SDCARD_PATH @ ''/Emus/p/GB.pak/launch.sh'', File []),
     (COLLECTIONS_PATH @ ''/Fun.txt'', File (write_lines [''/Roms/GB (GB)/a.gb'']))]"

theorem picker_agrees_launcher_witness:
  "Menu_inCollection demo_picker ''Fun'' ''/Roms/GB (GB)/a.gb'' \<longleftrightarrow>
   (\<exists>e \<in> set (getCollection demo_picker ''p'' (collection_path ''Fun'')). path e = SDCARD_PATH @ ''/Roms/GB (GB)/a.gb'')"
  by (rule picker_agrees_launcher) code_simp+



text \<open>Naming a new collection: whatever is pressed, the typed name consists of letters, digits, spaces, dashes and
  underscores and fits its buffer, so the file is directly in the collections folder and not hidden;
  confirming appends the game to it, and any spelling of Favorites is the Favorites collection.\<close>

theorem new_collection_safe:
  assumes "k = Menu_keyboard 128 pads" and "kresult k" and "trim_spaces (typed k) \<noteq> []"
    and "map_of fs COLLECTIONS_PATH = Some Dir" and "collection_lines fs (collection_target (trim_spaces (typed k))) ls"
    and "map_of fs (collection_path (collection_target (trim_spaces (typed k)))) \<noteq> Some Dir" and "length rel < room"
  shows "\<exists>nm fs' msg. nm = collection_target (trim_spaces (typed k)) \<and> Menu_newCollection room rel k fs = (True, fs', msg)
       \<and> dirname (collection_path nm) = COLLECTIONS_PATH \<and> \<not> hide (basename (collection_path nm))
       \<and> collection_lines fs' nm (ls @ [rel])
       \<and> (casekey (trim_spaces (typed k)) = casekey ''Favorites'' \<longrightarrow> nm = ''Favorites'')"
proof -
  let ?n = "trim_spaces (typed k)"
  let ?nm = "collection_target ?n"
  have k: "length (typed k) \<le> 127" "set (typed k) \<subseteq> set (concat COLL_KB)"
    using coll_kb.session_ok [of 128 pads] by (simp_all add: assms(1) Menu_keyboard_def kb_ok_def)
  have safe: "CHR ''/'' \<notin> set (concat COLL_KB)" "CHR ''.'' \<notin> set (concat COLL_KB)" "CHR ''m'' \<notin> set (concat COLL_KB)"
    by code_simp+
  have n: "length ?nm \<le> 127" "CHR ''/'' \<notin> set ?nm" "CHR ''.'' \<notin> set ?nm" "?nm \<noteq> []" "CHR ''m'' \<notin> set ?nm"
    using k safe trim_spaces_nth [of "typed k"] assms(3) by (auto simp: collection_target_def)
  then have fit: "fits ?nm" by (simp add: fits_def COLLECTIONS_PATH_def SDCARD_PATH_def MAX_PATH_def)
  have base: "basename (collection_path ?nm) = ?nm @ ''.txt''"
    using n(2) basename_join [of "?nm @ ''.txt''"] by (simp add: collection_path_fits [OF fit])
  have w: "fopen_w fs (collection_path ?nm)"
    using assms(4,6) collection_dir(1) [OF fit] by (simp add: fopen_w_def)
  from append_line_lines [OF assms(5) w assms(7)] obtain fs' where
    fs': "append_line room (collection_path ?nm) rel fs = Some fs'" "collection_lines fs' ?nm (ls @ [rel])" by metis
  have "mkdir COLLECTIONS_PATH fs = fs" using assms(4) by (simp add: mkdir_def)
  then have "\<exists>msg. Menu_newCollection room rel k fs = (True, fs', msg)"
    using assms(2,3) fs'(1) by (auto simp: Menu_newCollection_def Let_def trim_spaces_def)
  moreover have "\<not> hide (?nm @ ''.txt'')" using n(3-5) by (intro not_hidden) auto
  ultimately show ?thesis using fs'(2) collection_dir(1) [OF fit] base by (auto simp: collection_target_def)
qed

definition press :: "nat \<Rightarrow> PAD_Context" where
  "press i = \<lparr>is_pressed = btn_mask i, just_pressed = btn_mask i, just_released = 0, just_repeated = 0,
     repeat_at = replicate 25 0, laxis = \<lparr>ax_x = 0, ax_y = 0\<rparr>, raxis = \<lparr>ax_x = 0, ax_y = 0\<rparr>\<rparr>"

definition demo_keys :: keyboard where
  "demo_keys = Menu_keyboard 128 [press BTN_ID_A, press BTN_ID_A, press BTN_ID_START]"

lemma press_simps:
  "i < 32 \<Longrightarrow> PAD_justPressed (press i) (btn_mask j) \<longleftrightarrow> i = j" "\<not> PAD_justRepeated (press i) w"
proof -
  have "btn_mask i AND btn_mask j \<noteq> 0 \<longleftrightarrow> i = j" if "i < 32" for i j
    using is_held_bit [of "(press 0)\<lparr>is_pressed := btn_mask i\<rparr>" j] that by (auto simp: is_held_def bit_btn_mask)
  then show "i < 32 \<Longrightarrow> PAD_justPressed (press i) (btn_mask j) \<longleftrightarrow> i = j" by (simp add: PAD_justPressed_def press_def)
  show "\<not> PAD_justRepeated (press i) w" by (simp add: PAD_justRepeated_def press_def)
qed

lemma demo_keys_typed: "typed demo_keys = ''AA'' \<and> kresult demo_keys"
  by (simp add: demo_keys_def Menu_keyboard_def keyboard_move_def keyboard_press_def keyboard_start_def press_simps Let_def COLL_KB_def)

theorem new_collection_safe_witness:
  "\<exists>fs' msg. Menu_newCollection 100 ''/g'' demo_keys demo_picker = (True, fs', msg) \<and> collection_lines fs' ''AA'' [''/g'']"
proof -
  have nm: "collection_target (trim_spaces (typed demo_keys)) = ''AA''" and ok: "kresult demo_keys" "trim_spaces (typed demo_keys) \<noteq> []"
    using demo_keys_typed by (simp_all add: trim_spaces_def collection_target_def casekey_def)
  have card: "map_of demo_picker COLLECTIONS_PATH = Some Dir" "collection_lines demo_picker ''AA'' []"
    "map_of demo_picker (collection_path ''AA'') \<noteq> Some Dir" by code_simp+
  show ?thesis
    using new_collection_safe [OF demo_keys_def ok card(1), of "[]" "''/g''" 100] card(2,3) by (auto simp: nm)
qed

end
