(* ===== verification/Menu.thy ===== *)
theory Menu
  imports OptionMenu Saves Game Picker Launcher Pwr
begin

text \<open>
  The in-game menu itself (\<open>minarch/menu.c\<close>): the discs of a multi-disc game, the slots of save states with
  their previews and disc notes, saving before sleep, the game's alias, and the main menu's frames.

  The state is the record \<open>menu\<close> of the source; saving and loading work on the \<open>arch\<close> state of \<open>Saves\<close> and on
  the open \<open>game\<close>. \<open>None\<close> as a result is an access outside \<open>disc_paths\<close>, or a \<open>Game_open\<close> that does not end.
  The bytes of the preview picture are an argument. A frame of the main menu is its keys, what the confirmed item does to the
  files, the game and the core, and the \<open>PWR_update\<close> of the frame with the saving before sleep; what a run of the option menus
  (\<open>OptionMenu\<close>) or of the picker (\<open>Picker\<close>) does to the files is an argument.
\<close>

definition MENU_SLOT_COUNT :: int where "MENU_SLOT_COUNT = 8"
definition MENU_ITEM_COUNT :: int where "MENU_ITEM_COUNT = 6"

record menu =
  disc_paths :: "string list"
  minui_dir :: string
  slot_path :: string
  base_path :: string
  bmp_path :: string
  txt_path :: string
  disc :: int
  mslot :: int
  save_exists :: bool
  preview_exists :: bool

subsection \<open>Setting up\<close>

fun disc_scan :: "fs \<Rightarrow> string \<Rightarrow> string \<Rightarrow> string list \<Rightarrow> string list \<times> int \<Rightarrow> string list \<times> int" where
  \<comment> \<open>the discs so far and the current one\<close>
  "disc_scan fs base game_path [] st = st"
| "disc_scan fs base game_path (raw # raws) (ds, d) =
     (let line = clean_line raw in
      if length line = 0 then disc_scan fs base game_path raws (ds, d)
      else (let disc_path = base @ line in
            if exists fs disc_path then
              (if length ds \<ge> 9 then (ds, d)
               else disc_scan fs base game_path raws
                      (ds @ [disc_path], if exact_match disc_path game_path then int (length ds) else d))
            else disc_scan fs base game_path raws (ds, d)))"

definition GMenu_init :: "game \<Rightarrow> fs \<Rightarrow> menu \<times> fs" where
  "GMenu_init g fs =
     (let dir = SHARED_USERDATA_PATH @ ''/.minui/'' @ getEmuName (gpath g);
          fs = mkdir dir fs;
          base = parent_path (m3u_path g);
          (ds, d) = (if m3u_path g = [] then ([], - 1)
                     else (case fopen_r fs (m3u_path g) of
                             None \<Rightarrow> ([], - 1)
                           | Some s \<Rightarrow> disc_scan fs base (gpath g) (fgets_all 256 s) ([], - 1)))
      in (\<lparr>disc_paths = ds, minui_dir = dir, slot_path = dir @ ''/'' @ gname g @ ''.txt'',
           base_path = (if m3u_path g = [] then [] else base), bmp_path = [], txt_path = [], disc = d, mslot = 0,
           save_exists = False, preview_exists = False\<rparr>, fs))"

subsection \<open>Save states\<close>

definition Menu_initState :: "fs \<Rightarrow> menu \<Rightarrow> menu" where
  "Menu_initState fs m =
     (let m = (if exists fs (slot_path m) then m\<lparr>mslot := getInt fs (slot_path m)\<rparr> else m);
          m = (if mslot m = 8 then m\<lparr>mslot := 0\<rparr> else m)
      in m\<lparr>save_exists := False, preview_exists := False\<rparr>)"

definition slot_file :: "menu \<Rightarrow> string \<Rightarrow> int \<Rightarrow> string \<Rightarrow> string" where
  "slot_file m nm s ext = minui_dir m @ ''/'' @ nm @ ''.'' @ dec_int s @ ext"

definition Menu_updateState :: "core \<Rightarrow> string \<Rightarrow> fs \<Rightarrow> menu \<Rightarrow> menu" where
  "Menu_updateState c nm fs m =
     (let save_path = State_getPath c nm (mslot m);
          m = m\<lparr>bmp_path := slot_file m nm (mslot m) ''.bmp'', txt_path := slot_file m nm (mslot m) ''.txt''\<rparr>;
          m = m\<lparr>save_exists := exists fs save_path\<rparr>
      in m\<lparr>preview_exists := save_exists m \<and> exists fs (bmp_path m)\<rparr>)"

definition current_disc :: "menu \<Rightarrow> string option" where
  "current_disc m = (if 0 \<le> disc m \<and> disc m < int (length (disc_paths m)) then Some (disc_paths m ! nat (disc m)) else None)"

definition note_disc :: "menu \<Rightarrow> fs \<Rightarrow> fs option" where
  \<comment> \<open>the disc of a multi-disc game, relative to its folder\<close>
  "note_disc m fs =
     (if disc_paths m = [] then Some fs
      else map_option (\<lambda>p. putFile (txt_path m) (drop (length (base_path m)) p) fs) (current_disc m))"

definition Menu_saveState :: "core \<Rightarrow> string \<Rightarrow> nat \<Rightarrow> bool \<Rightarrow> string \<Rightarrow> menu \<Rightarrow> arch \<Rightarrow> (menu \<times> arch \<times> bool) option" where
  "Menu_saveState c nm room alloc bmp m a =
     (let m = Menu_updateState c nm (afs a) m;
          a = a\<lparr>state_slot := mslot m\<rparr>;
          (a, ok) = State_write c nm room alloc a
      in if \<not> ok then Some (m, a, False)
         else (case note_disc m (afs a) of
                 None \<Rightarrow> None
               | Some fs \<Rightarrow>
                   (let fs = putFile (bmp_path m) bmp fs;
                        fs = putInt (slot_path m) (mslot m) fs
                    in Some (m, a\<lparr>afs := fs\<rparr>, True))))"

definition slot_disc_path :: "string \<Rightarrow> menu \<Rightarrow> fs \<Rightarrow> string" where
  \<comment> \<open>\<open>junk\<close>: the buffer before the note is read\<close>
  "slot_disc_path junk m fs =
     (let nm = getFile fs (txt_path m) junk MAX_PATH in if take 1 nm = ''/'' then nm else base_path m @ nm)"

definition load_disc :: "open_env \<Rightarrow> bool \<Rightarrow> string \<Rightarrow> menu \<Rightarrow> game \<Rightarrow> fs \<Rightarrow> (game \<times> fs) option" where
  "load_disc e replace junk m g fs =
     (if disc_paths m = [] then Some (g, fs)
      else (case current_disc m of
              None \<Rightarrow> None
            | Some p \<Rightarrow>
                if exact_match (slot_disc_path junk m fs) p then Some (g, fs)
                else Game_changeDisc e replace (slot_disc_path junk m fs) g fs))"

definition Menu_loadState :: "open_env \<Rightarrow> bool \<Rightarrow> string \<Rightarrow> core \<Rightarrow> bool \<Rightarrow> menu \<Rightarrow> game \<Rightarrow> arch \<Rightarrow>
    (menu \<times> game \<times> arch \<times> string option) option" where
  \<comment> \<open>the last component: what the core is given to restore\<close>
  "Menu_loadState e replace junk c alloc m g a =
     (let m = Menu_updateState c (gname g) (afs a) m in
      if \<not> save_exists m then Some (m, g, a, None)
      else (case load_disc e replace junk m g (afs a) of
              None \<Rightarrow> None
            | Some (g, fs) \<Rightarrow>
                (let a = a\<lparr>afs := putInt (slot_path m) (mslot m) fs, state_slot := mslot m\<rparr>;
                     (a, loaded) = State_read c (gname g) alloc a
                 in Some (m, g, a, loaded))))"

definition Menu_beforeSleep :: "core \<Rightarrow> string \<Rightarrow> string \<Rightarrow> nat \<Rightarrow> bool \<Rightarrow> arch \<Rightarrow> arch" where
  "Menu_beforeSleep c nm game_path room alloc a =
     (let a = a\<lparr>afs := last (SRAM_write c nm room (afs a))\<rparr>;
          a = a\<lparr>afs := last (RTC_write c nm room (afs a))\<rparr>;
          a = State_autosave c nm room alloc a
      in a\<lparr>afs := putFile AUTO_RESUME_PATH (drop (length SDCARD_PATH) game_path) (afs a)\<rparr>)"

definition Menu_afterSleep :: "arch \<Rightarrow> arch" where
  "Menu_afterSleep a = a\<lparr>afs := unlink AUTO_RESUME_PATH (afs a)\<rparr>"

subsection \<open>The game's name\<close>

fun find_alias :: "string \<Rightarrow> string list \<Rightarrow> string option" where
  "find_alias file_name [] = None"
| "find_alias file_name (raw # raws) =
     (let line = clean_line raw in
      case strchr line char_tab of
        Some i \<Rightarrow> if exact_match file_name (take i line) then Some (drop (Suc i) line) else find_alias file_name raws
      | None \<Rightarrow> find_alias file_name raws)"

definition getAlias :: "fs \<Rightarrow> string \<Rightarrow> string \<Rightarrow> string" where
  \<comment> \<open>\<open>old\<close>: the name before\<close>
  "getAlias fs p old =
     (case strrchr p (CHR ''/'') of
        None \<Rightarrow> old
      | Some i \<Rightarrow>
          (case fopen_r fs (take (Suc i) p @ ''map.txt'') of
             None \<Rightarrow> old
           | Some s \<Rightarrow> (case find_alias (drop (Suc i) p) (fgets_all 256 s) of Some a \<Rightarrow> a | None \<Rightarrow> old)))"

subsection \<open>Frames\<close>

definition menu_items :: "bool \<Rightarrow> string list" where
  "menu_items simple =
     [''Continue'', ''Save'', ''Load'', if simple then ''Reset'' else ''Options'', ''Add to Collection'', ''Quit'']"

datatype loop_action = Change_Disc string | Do_Save | Do_Load | Do_Reset | Do_Options | Do_Collections | Do_Quit | Powered pwr_action

record menu_env =
  mcore :: core
  mroom :: nat
  malloc :: bool
  mbmp :: string                \<comment> \<open>the bytes of the preview\<close>
  mopen :: open_env
  mreplace :: bool
  mjunk :: string
  options_run :: "fs \<Rightarrow> fs"
  picker_run :: "fs \<Rightarrow> fs"

record menu_loop =
  lmenu :: menu
  lgame :: game
  larch :: arch
  lpwr :: pwr_state
  lsel :: int
  lshow :: bool
  ldirty :: bool
  rom_disc :: int
  lgiven :: "string option"     \<comment> \<open>what the core was given to restore\<close>
  lacts :: "loop_action list"

definition loop_start :: "menu_env \<Rightarrow> game \<Rightarrow> arch \<Rightarrow> pwr_state \<Rightarrow> menu \<Rightarrow> menu_loop" where
  \<comment> \<open>the battery save and the clock are written first\<close>
  "loop_start e g a p m =
     (let a = a\<lparr>afs := last (SRAM_write (mcore e) (gname g) (mroom e) (afs a))\<rparr>;
          a = a\<lparr>afs := last (RTC_write (mcore e) (gname g) (mroom e) (afs a))\<rparr>
      in \<lparr>lmenu = Menu_initState (afs a) m, lgame = g, larch = a,
          lpwr = p\<lparr>ctx := PWR_enableAutosleep (ctx p), ppad := PAD_reset (ppad p), show_setting := 0\<rparr>, lsel = 0, lshow = True, ldirty = True,
          rom_disc = (if disc_paths m \<noteq> [] then disc m else - 1), lgiven = None, lacts = []\<rparr>)"

definition on_slots :: "menu_loop \<Rightarrow> bool" where
  \<comment> \<open>\<open>ITEM_SAVE\<close> or \<open>ITEM_LOAD\<close>\<close>
  "on_slots s \<longleftrightarrow> lsel s = 1 \<or> lsel s = 2"

definition loop_keys :: "PAD_Context \<Rightarrow> menu_loop \<Rightarrow> menu_loop" where
  "loop_keys pad s =
     (let m = lmenu s; discs = int (length (disc_paths m)) in
      if PAD_justPressed pad BTN_UP
      then s\<lparr>lsel := (if lsel s - 1 < 0 then lsel s - 1 + MENU_ITEM_COUNT else lsel s - 1), ldirty := True\<rparr>
      else if PAD_justPressed pad BTN_DOWN
      then s\<lparr>lsel := (if lsel s + 1 \<ge> MENU_ITEM_COUNT then lsel s + 1 - MENU_ITEM_COUNT else lsel s + 1), ldirty := True\<rparr>
      else if PAD_justPressed pad BTN_LEFT then
        (if discs > 1 \<and> lsel s = 0
         then s\<lparr>lmenu := m\<lparr>disc := (if disc m - 1 < 0 then disc m - 1 + discs else disc m - 1)\<rparr>, ldirty := True\<rparr>
         else if on_slots s
         then s\<lparr>lmenu := m\<lparr>mslot := (if mslot m - 1 < 0 then mslot m - 1 + MENU_SLOT_COUNT else mslot m - 1)\<rparr>, ldirty := True\<rparr> else s)
      else if PAD_justPressed pad BTN_RIGHT then
        (if discs > 1 \<and> lsel s = 0
         then s\<lparr>lmenu := m\<lparr>disc := (if disc m + 1 = discs then disc m + 1 - discs else disc m + 1)\<rparr>, ldirty := True\<rparr>
         else if on_slots s
         then s\<lparr>lmenu := m\<lparr>mslot := (if mslot m + 1 \<ge> MENU_SLOT_COUNT then mslot m + 1 - MENU_SLOT_COUNT else mslot m + 1)\<rparr>, ldirty := True\<rparr> else s)
      else s)"

definition loop_slot :: "menu_env \<Rightarrow> menu_loop \<Rightarrow> menu_loop" where
  "loop_slot e s =
     (if ldirty s \<and> on_slots s then s\<lparr>lmenu := Menu_updateState (mcore e) (gname (lgame s)) (afs (larch s)) (lmenu s)\<rparr> else s)"

definition with_files :: "(fs \<Rightarrow> fs) \<Rightarrow> menu_loop \<Rightarrow> menu_loop" where
  "with_files f s = s\<lparr>larch := (larch s)\<lparr>afs := f (afs (larch s))\<rparr>\<rparr>"

fun perform :: "menu_env \<Rightarrow> loop_action \<Rightarrow> menu_loop \<Rightarrow> menu_loop option" where
  "perform e (Change_Disc p) s =
     map_option (\<lambda>(g, fs). with_files (\<lambda>_. fs) (s\<lparr>lgame := g\<rparr>)) (Game_changeDisc (mopen e) (mreplace e) p (lgame s) (afs (larch s)))"
| "perform e Do_Save s =
     map_option (\<lambda>(m, a, ok). s\<lparr>lmenu := m, larch := a\<rparr>)
       (Menu_saveState (mcore e) (gname (lgame s)) (mroom e) (malloc e) (mbmp e) (lmenu s) (larch s))"
| "perform e Do_Load s =
     map_option (\<lambda>(m, g, a, given). s\<lparr>lmenu := m, lgame := g, larch := a, lgiven := given\<rparr>)
       (Menu_loadState (mopen e) (mreplace e) (mjunk e) (mcore e) (malloc e) (lmenu s) (lgame s) (larch s))"
| "perform e Do_Options s = Some (with_files (options_run e) s)"
| "perform e Do_Collections s = Some (with_files (picker_run e) s)"
| "perform e (Powered Before_Sleep) s =
     Some (s\<lparr>larch := Menu_beforeSleep (mcore e) (gname (lgame s)) (gpath (lgame s)) (mroom e) (malloc e) (larch s)\<rparr>)"
| "perform e (Powered After_Sleep) s = Some (s\<lparr>larch := Menu_afterSleep (larch s)\<rparr>)"
| "perform e ac s = Some s"

definition loop_act :: "menu_env \<Rightarrow> loop_action \<Rightarrow> menu_loop \<Rightarrow> menu_loop option" where
  "loop_act e ac s = map_option (\<lambda>s'. s'\<lparr>lacts := lacts s @ [ac]\<rparr>) (perform e ac s)"

definition confirm_actions :: "bool \<Rightarrow> menu_loop \<Rightarrow> loop_action list option" where
  \<comment> \<open>what the selected item stands for; no result for a disc outside \<open>disc_paths\<close>\<close>
  "confirm_actions simple s =
     (let m = lmenu s in
      if lsel s = 0 then
        (if disc_paths m \<noteq> [] \<and> rom_disc s \<noteq> disc m then map_option (\<lambda>p. [Change_Disc p]) (current_disc m) else Some [])
      else if lsel s = 1 then Some [Do_Save]
      else if lsel s = 2 then Some [Do_Load]
      else if lsel s = 3 then Some (if simple then [Do_Reset] else [Do_Options])
      else if lsel s = 4 then Some [Do_Collections]
      else Some [Do_Quit])"

fun loop_acts :: "menu_env \<Rightarrow> loop_action list \<Rightarrow> menu_loop \<Rightarrow> menu_loop option" where
  "loop_acts e [] s = Some s"
| "loop_acts e (ac # acts) s = Option.bind (loop_act e ac s) (loop_acts e acts)"

definition stays_open :: "loop_action list \<Rightarrow> bool" where
  "stays_open acts \<longleftrightarrow> acts = [Do_Options] \<or> acts = [Do_Collections]"

fun until_off :: "pwr_action list \<Rightarrow> pwr_action list" where
  \<comment> \<open>switching off does not return\<close>
  "until_off [] = []"
| "until_off (a # as) = (if a = Power_Off then [a] else a # until_off as)"

definition loop_power :: "menu_env \<Rightarrow> PAD_Context \<Rightarrow> pwr_frame \<Rightarrow> menu_loop \<Rightarrow> menu_loop option" where
  \<comment> \<open>\<open>PWR_update\<close>, then the drawing that clears the mark\<close>
  "loop_power e pad f s =
     (case PWR_update (f\<lparr>callbacks := True\<rparr>) ((lpwr s)\<lparr>ppad := pad, dirty := ldirty s\<rparr>) of (acts, p) \<Rightarrow>
        map_option (\<lambda>s. s\<lparr>lpwr := p, ldirty := False, lshow := lshow s \<and> Power_Off \<notin> set acts\<rparr>)
          (loop_acts e (map Powered (until_off acts)) s))"

definition loop_frame :: "menu_env \<Rightarrow> bool \<Rightarrow> PAD_Context \<times> bool \<times> pwr_frame \<Rightarrow> menu_loop \<Rightarrow> menu_loop option" where
  \<comment> \<open>the pad of the frame and whether \<open>PAD_tappedMenu\<close> reports a tap\<close>
  "loop_frame e simple frame s =
     (case frame of (pad, tapped, f) \<Rightarrow>
        if \<not> lshow s then Some s
        else (let s = loop_slot e (loop_keys pad s) in
              if PAD_justPressed pad (btn_mask BTN_ID_B) \<or> tapped then loop_power e pad f (s\<lparr>lshow := False\<rparr>)
              else if PAD_justPressed pad (btn_mask BTN_ID_A) then
                (case confirm_actions simple s of
                   None \<Rightarrow> None
                 | Some acts \<Rightarrow>
                     Option.bind (loop_acts e acts s)
                       (\<lambda>s. if stays_open acts then loop_power e pad f (s\<lparr>ldirty := True\<rparr>) else Some (s\<lparr>lshow := False\<rparr>)))
              else loop_power e pad f s))"

fun Menu_loop :: "menu_env \<Rightarrow> bool \<Rightarrow> (PAD_Context \<times> bool \<times> pwr_frame) list \<Rightarrow> menu_loop \<Rightarrow> menu_loop option" where
  "Menu_loop e simple [] s = Some s"
| "Menu_loop e simple (f # frames) s = Option.bind (loop_frame e simple f s) (Menu_loop e simple frames)"

subsection \<open>Facts\<close>

lemma updateState_simps [simp]:
  "disc_paths (Menu_updateState c nm fs m) = disc_paths m" "disc (Menu_updateState c nm fs m) = disc m"
  "mslot (Menu_updateState c nm fs m) = mslot m" "base_path (Menu_updateState c nm fs m) = base_path m"
  "slot_path (Menu_updateState c nm fs m) = slot_path m"
  "txt_path (Menu_updateState c nm fs m) = slot_file m nm (mslot m) ''.txt''"
  "bmp_path (Menu_updateState c nm fs m) = slot_file m nm (mslot m) ''.bmp''"
  "minui_dir (Menu_updateState c nm fs m) = minui_dir m" "current_disc (Menu_updateState c nm fs m) = current_disc m"
  "save_exists (Menu_updateState c nm fs m) = exists fs (State_getPath c nm (mslot m))"
  by (simp_all add: Menu_updateState_def Let_def slot_file_def current_disc_def)

definition discs_ok :: "menu_loop \<Rightarrow> bool" where
  \<comment> \<open>the disc is one of the game's, or none is known to be in the drive\<close>
  "discs_ok s \<longleftrightarrow> disc_paths (lmenu s) = []
     \<or> (- 1 \<le> disc (lmenu s) \<and> disc (lmenu s) < int (length (disc_paths (lmenu s))) \<and> (disc (lmenu s) = - 1 \<longrightarrow> rom_disc s = - 1))"

definition loop_ok :: "menu_loop \<Rightarrow> bool" where
  "loop_ok s \<longleftrightarrow> 0 \<le> lsel s \<and> lsel s < MENU_ITEM_COUNT \<and> 0 \<le> mslot (lmenu s) \<and> mslot (lmenu s) < MENU_SLOT_COUNT \<and> discs_ok s"

lemma loop_keys_ok: "loop_ok s \<Longrightarrow> loop_ok (loop_keys pad s)"
  by (auto simp: loop_ok_def loop_keys_def discs_ok_def MENU_ITEM_COUNT_def MENU_SLOT_COUNT_def Let_def)

lemma confirmed_ok: "loop_ok s \<Longrightarrow> confirm_actions simple s \<noteq> None"
  by (auto simp: confirm_actions_def loop_ok_def discs_ok_def current_disc_def Let_def)

definition same_menu :: "menu_loop \<Rightarrow> menu_loop \<Rightarrow> bool" where
  \<comment> \<open>all but what an action may change\<close>
  "same_menu s s' \<longleftrightarrow> lsel s' = lsel s \<and> rom_disc s' = rom_disc s \<and> disc_paths (lmenu s') = disc_paths (lmenu s)
     \<and> disc (lmenu s') = disc (lmenu s) \<and> mslot (lmenu s') = mslot (lmenu s)"

lemma same_menu_trans: "same_menu s t \<Longrightarrow> same_menu t u \<Longrightarrow> same_menu s u"
  by (simp add: same_menu_def)

lemma loop_ok_same: "same_menu s s' \<Longrightarrow> loop_ok s' = loop_ok s"
  by (simp add: same_menu_def loop_ok_def discs_ok_def)

lemma saveState_menu: "Menu_saveState c nm room alloc bmp m a = Some (m', a', ok) \<Longrightarrow> m' = Menu_updateState c nm (afs a) m"
  by (auto simp: Menu_saveState_def Let_def split: prod.splits if_splits option.splits)

lemma loadState_menu: "Menu_loadState e replace junk c alloc m g a = Some (m', g', a', given) \<Longrightarrow> m' = Menu_updateState c (gname g) (afs a) m"
  by (auto simp: Menu_loadState_def Let_def split: prod.splits if_splits option.splits)

lemma perform_same: "perform e ac s = Some s' \<Longrightarrow> same_menu s s' \<and> lshow s' = lshow s \<and> lacts s' = lacts s"
  by (cases "(e, ac, s)" rule: perform.cases) (auto simp: same_menu_def with_files_def dest!: saveState_menu loadState_menu)

lemma loop_act_same: "loop_act e ac s = Some s' \<Longrightarrow> same_menu s s' \<and> lshow s' = lshow s \<and> lacts s' = lacts s @ [ac]"
  by (auto simp: loop_act_def same_menu_def dest!: perform_same)

lemma loop_acts_same: "loop_acts e acts s = Some s' \<Longrightarrow> same_menu s s' \<and> lshow s' = lshow s \<and> lacts s' = lacts s @ acts"
proof (induction acts arbitrary: s)
  case (Cons ac acts)
  then obtain t where "loop_act e ac s = Some t" "loop_acts e acts t = Some s'" by (auto simp: bind_eq_Some_conv)
  with Cons.IH loop_act_same [of e ac s t] show ?case by (auto intro: same_menu_trans)
qed (simp add: same_menu_def)

text \<open>The files that saving before sleep and forgetting the request afterwards may touch.\<close>

definition sleep_files :: "core \<Rightarrow> string \<Rightarrow> string set" where
  "sleep_files c nm = {SRAM_getPath c nm, tmp_filename (SRAM_getPath c nm), RTC_getPath c nm, tmp_filename (RTC_getPath c nm),
     State_getPath c nm 9, tmp_filename (State_getPath c nm 9), AUTO_RESUME_PATH}"

lemma autosave_frame:
  "q \<noteq> State_getPath c nm 9 \<Longrightarrow> q \<noteq> tmp_filename (State_getPath c nm 9) \<Longrightarrow> fopen_r (afs (State_autosave c nm room alloc a)) q = fopen_r (afs a) q"
  using save_state_frame [OF State_store_states [OF last_in_set], of c nm room alloc 9 "afs a" q]
  by (simp add: State_autosave_def State_write_def AUTO_RESUME_SLOT_def Let_def split_beta)

lemma beforeSleep_frame: "q \<notin> sleep_files c nm \<Longrightarrow> fopen_r (afs (Menu_beforeSleep c nm p room alloc a)) q = fopen_r (afs a) q"
  by (simp add: Menu_beforeSleep_def sleep_files_def Let_def fopen_r_putFile_other autosave_frame SRAM_write_def RTC_write_def write_memory_other)

lemma afterSleep_frame: "q \<notin> sleep_files c nm \<Longrightarrow> fopen_r (afs (Menu_afterSleep a)) q = fopen_r (afs a) q"
  by (simp add: Menu_afterSleep_def sleep_files_def fopen_r_unlink)

definition only_slept :: "menu_env \<Rightarrow> menu_loop \<Rightarrow> menu_loop \<Rightarrow> bool" where
  \<comment> \<open>the same game, nothing given to the core, and no file touched but those of sleeping\<close>
  "only_slept e s s' \<longleftrightarrow> lgame s' = lgame s \<and> lgiven s' = lgiven s
     \<and> (\<forall>q. q \<notin> sleep_files (mcore e) (gname (lgame s)) \<longrightarrow> fopen_r (afs (larch s')) q = fopen_r (afs (larch s)) q)"

lemma only_slept_refl [simp]: "only_slept e s s"
  by (simp add: only_slept_def)

lemma only_slept_trans: "only_slept e s t \<Longrightarrow> only_slept e t u \<Longrightarrow> only_slept e s u"
  by (simp add: only_slept_def)

lemma powered_only: "loop_acts e (map Powered as) s = Some s' \<Longrightarrow> only_slept e s s'"
proof (induction as arbitrary: s)
  case (Cons a as)
  then obtain t where t: "loop_act e (Powered a) s = Some t" "loop_acts e (map Powered as) t = Some s'" by (auto simp: bind_eq_Some_conv)
  have "only_slept e s t"
    using t(1) by (cases a) (auto simp: loop_act_def only_slept_def beforeSleep_frame afterSleep_frame)
  with Cons.IH [OF t(2)] show ?case by (rule only_slept_trans [rotated])
qed simp

lemma loop_power_same:
  assumes "loop_power e pad f s = Some s'"
  shows "same_menu s s' \<and> (lshow s' \<longrightarrow> lshow s) \<and> (\<exists>as. lacts s' = lacts s @ map Powered as) \<and> only_slept e s s'"
proof -
  obtain acts p where u: "PWR_update (f\<lparr>callbacks := True\<rparr>) ((lpwr s)\<lparr>ppad := pad, dirty := ldirty s\<rparr>) = (acts, p)" by fastforce
  with assms obtain t where t: "loop_acts e (map Powered (until_off acts)) s = Some t"
    "s' = t\<lparr>lpwr := p, ldirty := False, lshow := lshow t \<and> Power_Off \<notin> set acts\<rparr>"
    by (auto simp: loop_power_def)
  from powered_only [OF t(1)] loop_acts_same [OF t(1)] show ?thesis
    by (auto simp: t(2) same_menu_def only_slept_def)
qed

text \<open>The discs the menu offers.\<close>

lemma disc_scan_discs:
  assumes "length base + 256 < MAX_PATH" and "\<forall>r \<in> set raws. length r < 256"
    and "length ds \<le> 9"
  shows "fst (disc_scan fs base gp raws (ds, d)) = take 9 (ds @ map path (disc_loop fs plat base k raws))"
  using assms(2,3)
proof (induction raws arbitrary: ds d k)
  case (Cons raw raws)
  let ?line = "clean_line raw"
  have "length ?line < 256" using clean_line_length [of raw] Cons.prems(1) by simp
  then have fit: "snprintf_buf MAX_PATH (base @ ?line) = base @ ?line"
    using assms(1) by (intro snprintf_buf_fits) simp
  note c = clean_line_def [symmetric]
  show ?case
  proof (cases "?line \<noteq> [] \<and> exists fs (base @ ?line)")
    case True
    let ?x = "base @ ?line"
    have IH: "length ds < 9 \<Longrightarrow> fst (disc_scan fs base gp raws (ds @ [?x], d')) = take 9 ((ds @ [?x]) @ map path (disc_loop fs plat base (k + 1) raws))" for d'
      using Cons.IH [of "ds @ [?x]" d' "k + 1"] Cons.prems(1) by simp
    have loop: "map path (disc_loop fs plat base k (raw # raws)) = ?x # map path (disc_loop fs plat base (k + 1) raws)"
      using True fit by (simp add: Let_def c)
    show ?thesis
    proof (cases "length ds = 9")
      case False
      then show ?thesis using IH Cons.prems(2) True unfolding loop by (simp add: Let_def)
    qed (use True in \<open>simp add: Let_def\<close>)
  next
    case False
    then show ?thesis using Cons fit by (auto simp: Let_def c)
  qed
qed simp

lemma disc_scan_current:
  assumes "d = - 1 \<or> (0 \<le> d \<and> d < int (length ds) \<and> ds ! nat d = gp)"
  shows "(let (ds', d') = disc_scan fs base gp raws (ds, d) in d' = - 1 \<or> (0 \<le> d' \<and> d' < int (length ds') \<and> ds' ! nat d' = gp))"
  using assms
proof (induction raws arbitrary: ds d)
  case (Cons raw raws)
  have "d = - 1 \<or> (0 \<le> d \<and> d < int (length (ds @ [x])) \<and> (ds @ [x]) ! nat d = gp)" for x
    using Cons.prems by (auto simp: nth_append)
  moreover have "int (length ds) = - 1 \<or> (0 \<le> int (length ds) \<and> int (length ds) < int (length (ds @ [gp])) \<and> (ds @ [gp]) ! nat (int (length ds)) = gp)"
    by simp
  ultimately show ?case using Cons by (auto simp: Let_def exact_match_eq)
qed simp

text \<open>What a save leaves on the card.\<close>

lemma fopen_r_putInt: "fopen_r (putInt p v fs) q = (if q = p \<and> fopen_w fs p then Some (snprintf_buf 16 (dec_int v)) else fopen_r fs q)"
  by (simp add: putInt_def fopen_r_def putFile_def map_of_fs_put)

lemma fopen_r_putFile': "fopen_r (putFile p s fs) q = (if q = p \<and> fopen_w fs p then Some s else fopen_r fs q)"
  by (simp add: fopen_r_def putFile_def map_of_fs_put)

lemma fopen_r_exists: "fopen_r fs p = Some s \<Longrightarrow> exists fs p"
  by (auto simp: fopen_r_def exists_def split: option.splits)

lemma State_load_file: "State_load c nm al s fs = Some d \<Longrightarrow> fopen_r fs (State_getPath c nm s) \<noteq> None"
  by (auto simp: State_load_def Let_def split: option.splits if_splits)

definition slot_files_apart :: "core \<Rightarrow> string \<Rightarrow> menu \<Rightarrow> bool" where
  "slot_files_apart c nm m \<longleftrightarrow>
     (let st = State_getPath c nm (mslot m); t = slot_file m nm (mslot m) ''.txt''; b = slot_file m nm (mslot m) ''.bmp'' in
      distinct [st, t, b, slot_path m])"

lemma saveState_files:
  assumes "Menu_saveState c nm room alloc bmp m a = Some (m1, a1, True)" and "slot_files_apart c nm m"
    and "length (State_getPath c nm (mslot m)) < 507" and "serialize c = Some d" and "length d = serialize_size c" and "d \<noteq> []"
    and "serialize_size c \<le> room"
  shows "State_load c nm True (mslot m) (afs a1) = Some d"
    and "disc_paths m \<noteq> [] \<Longrightarrow> current_disc m = Some p \<Longrightarrow>
         fopen_w (afs (fst (State_write c nm room alloc (a\<lparr>state_slot := mslot m\<rparr>)))) (slot_file m nm (mslot m) ''.txt'') \<Longrightarrow>
         fopen_r (afs a1) (slot_file m nm (mslot m) ''.txt'') = Some (drop (length (base_path m)) p)"
proof -
  let ?a = "a\<lparr>state_slot := mslot m\<rparr>"
  let ?w = "fst (State_write c nm room alloc ?a)"
  let ?m = "Menu_updateState c nm (afs a) m"
  obtain fs where fs: "snd (State_write c nm room alloc ?a)" "note_disc ?m (afs ?w) = Some fs"
    "afs a1 = putInt (slot_path m) (mslot m) (putFile (slot_file m nm (mslot m) ''.bmp'') bmp fs)"
    using assms(1) by (auto simp: Menu_saveState_def Let_def split_beta split: if_splits option.splits)
  have apart: "State_getPath c nm (mslot m) \<noteq> slot_path m" "State_getPath c nm (mslot m) \<noteq> slot_file m nm (mslot m) ''.bmp''"
    "State_getPath c nm (mslot m) \<noteq> slot_file m nm (mslot m) ''.txt''" "slot_file m nm (mslot m) ''.txt'' \<noteq> slot_path m"
    "slot_file m nm (mslot m) ''.txt'' \<noteq> slot_file m nm (mslot m) ''.bmp''"
    using assms(2) by (auto simp: slot_files_apart_def Let_def)
  have "serialize_size c \<noteq> 0" using assms(5,6) by (cases d) auto
  then have "State_load c nm True (mslot m) (afs ?w) = Some d"
    using State_write_load [of c nm room alloc ?a d] fs(1) assms(3-5,7) by simp
  moreover have "fopen_r (afs a1) (State_getPath c nm (mslot m)) = fopen_r (afs ?w) (State_getPath c nm (mslot m))"
    using fs(2) apart unfolding fs(3) fopen_r_putInt
    by (auto simp: fopen_r_putFile' note_disc_def split: if_splits option.splits)
  ultimately show "State_load c nm True (mslot m) (afs a1) = Some d" using State_load_cong by metis
  assume "disc_paths m \<noteq> []" "current_disc m = Some p" "fopen_w (afs ?w) (slot_file m nm (mslot m) ''.txt'')"
  then have "fs = putFile (slot_file m nm (mslot m) ''.txt'') (drop (length (base_path m)) p) (afs ?w)"
    using fs(2) by (simp add: note_disc_def)
  then show "fopen_r (afs a1) (slot_file m nm (mslot m) ''.txt'') = Some (drop (length (base_path m)) p)"
    using apart \<open>fopen_w _ _\<close> unfolding fs(3) fopen_r_putInt by (simp add: fopen_r_putFile')
qed

subsection \<open>Properties\<close>

text \<open>The menu of a multi-disc game offers exactly the discs the launcher lists for its m3u file, in the same order, up to
  nine of them, and its current disc, when it knows one, is the game that runs.\<close>

theorem menu_discs_agree:
  assumes "m3u_path g \<noteq> []" and "length (m3u_path g) + 257 < MAX_PATH" and "GMenu_init g fs = (m, fs')"
    and "fopen_r fs' (m3u_path g) \<noteq> None"
  shows "disc_paths m = take 9 (map path (getDiscs fs' plat (m3u_path g)))
       \<and> (disc m = - 1 \<or> current_disc m = Some (gpath g))"
proof -
  let ?base = "parent_path (m3u_path g)"
  obtain s where s: "fopen_r fs' (m3u_path g) = Some s" using assms(4) by blast
  have m: "(disc_paths m, disc m) = disc_scan fs' ?base (gpath g) (fgets_all 256 s) ([], - 1)"
    using assms(1,3) s by (auto simp: GMenu_init_def Let_def split: prod.splits)
  have "length ?base \<le> length (m3u_path g)" by (simp add: parent_path_def split: option.split)
  then have "length ?base + 256 < MAX_PATH" using assms(2) by simp
  from disc_scan_discs [OF this fgets_all_length, of "[]" fs' "gpath g" s "- 1" plat 0] m s
  have "disc_paths m = take 9 (map path (getDiscs fs' plat (m3u_path g)))"
    by (metis append_Nil fst_conv getDiscs_def le0 list.size(3) option.simps(5))
  moreover have "disc m = - 1 \<or> current_disc m = Some (gpath g)"
    using disc_scan_current [of "- 1" "[]" "gpath g" fs' ?base "fgets_all 256 s"] m
    by (auto simp: current_disc_def Let_def split: prod.splits)
  ultimately show ?thesis ..
qed

definition demo_discs :: fs where
  "demo_discs = [(''/g/x/x.m3u'', File (write_lines [''1.cue'', ''2.cue''])), (''/g/x/1.cue'', File []), (''/g/x/2.cue'', File [])]"

definition demo_disc_game :: game where
  "demo_disc_game = \<lparr>gpath = ''/g/x/2.cue'', gname = ''x.m3u'', m3u_path = ''/g/x/x.m3u'', tmp_path = [], gdata = None, is_open = True\<rparr>"

theorem menu_discs_agree_witness:
  "disc_paths (fst (GMenu_init demo_disc_game demo_discs))
   = take 9 (map path (getDiscs (snd (GMenu_init demo_disc_game demo_discs)) ''p'' ''/g/x/x.m3u''))"
proof -
  have "m3u_path demo_disc_game = ''/g/x/x.m3u''" by (simp add: demo_disc_game_def)
  moreover have "fopen_r (snd (GMenu_init demo_disc_game demo_discs)) ''/g/x/x.m3u'' \<noteq> None" by code_simp
  ultimately show ?thesis
    using menu_discs_agree [of demo_disc_game demo_discs "fst (GMenu_init demo_disc_game demo_discs)"
        "snd (GMenu_init demo_disc_game demo_discs)" "''p''"] by (simp add: MAX_PATH_def)
qed

definition promised :: "string \<Rightarrow> menu_loop \<Rightarrow> loop_action list" where
  \<comment> \<open>what the words on the screen say will happen\<close>
  "promised label s =
     (if label = ''Continue'' then
        (if disc_paths (lmenu s) \<noteq> [] \<and> disc (lmenu s) \<noteq> rom_disc s then [Change_Disc (disc_paths (lmenu s) ! nat (disc (lmenu s)))] else [])
      else if label = ''Save'' then [Do_Save] else if label = ''Load'' then [Do_Load] else if label = ''Reset'' then [Do_Reset]
      else if label = ''Options'' then [Do_Options] else if label = ''Add to Collection'' then [Do_Collections]
      else if label = ''Quit'' then [Do_Quit] else [])"

lemma confirmed_promised:
  assumes "loop_ok s"
  shows "confirm_actions simple s = Some (promised (menu_items simple ! nat (lsel s)) s)"
proof -
  have "lsel s = 0 \<or> lsel s = 1 \<or> lsel s = 2 \<or> lsel s = 3 \<or> lsel s = 4 \<or> lsel s = 5"
    using assms by (simp add: loop_ok_def MENU_ITEM_COUNT_def) arith
  then show ?thesis
    using assms by (elim disjE)
      (auto simp: confirm_actions_def promised_def menu_items_def current_disc_def loop_ok_def discs_ok_def Let_def)
qed

lemma promised_single: "promised l s = [] \<or> (\<exists>a. promised l s = [a] \<and> (\<forall>b. a \<noteq> Powered b))"
  by (simp add: promised_def)

lemma promised_same: "same_menu s s' \<Longrightarrow> promised l s' = promised l s"
  by (simp add: promised_def same_menu_def)

definition open_action :: "loop_action \<Rightarrow> bool" where
  "open_action ac \<longleftrightarrow> ac = Do_Options \<or> ac = Do_Collections \<or> (\<exists>a. ac = Powered a)"

definition loop_trace :: "menu_env \<Rightarrow> bool \<Rightarrow> menu_loop \<Rightarrow> menu_loop \<Rightarrow> bool" where
  \<comment> \<open>what happened since \<open>s0\<close>: nothing that closes the menu while it is open; at the end what the selected item says, or nothing more\<close>
  "loop_trace e simple s0 s \<longleftrightarrow>
     (\<exists>before. list_all open_action before
        \<and> (lacts s = before \<or> \<not> lshow s \<and> lacts s = before @ promised (menu_items simple ! nat (lsel s)) s))
     \<and> (list_all (\<lambda>ac. \<exists>a. ac = Powered a) (lacts s) \<longrightarrow> only_slept e s0 s)
     \<and> (Do_Save \<in> set (lacts s) \<longrightarrow>
          (\<exists>m a ok. mslot m = mslot (lmenu s)
             \<and> Menu_saveState (mcore e) (gname (lgame s)) (mroom e) (malloc e) (mbmp e) m a = Some (lmenu s, larch s, ok)))
     \<and> (Do_Load \<in> set (lacts s) \<longrightarrow>
          (\<exists>m g a. mslot m = mslot (lmenu s)
             \<and> Menu_loadState (mopen e) (mreplace e) (mjunk e) (mcore e) (malloc e) m g a = Some (lmenu s, lgame s, larch s, lgiven s)))"

lemma open_no_save: "list_all open_action acts \<Longrightarrow> Do_Save \<notin> set acts \<and> Do_Load \<notin> set acts"
  by (auto simp: list_all_iff open_action_def)

lemma trace_open: "loop_trace e simple s0 s \<Longrightarrow> lshow s \<Longrightarrow> list_all open_action (lacts s)"
  by (auto simp: loop_trace_def)

lemma trace_extend:
  assumes "list_all open_action (lacts s)" "loop_trace e simple s0 s" "lacts s' = lacts s @ map Powered as" "only_slept e s s'"
  shows "loop_trace e simple s0 s'"
proof -
  have o: "list_all open_action (lacts s')" using assms(1,3) by (auto simp: list_all_iff open_action_def)
  have "list_all (\<lambda>ac. \<exists>a. ac = Powered a) (lacts s') \<Longrightarrow> only_slept e s0 s'"
    using assms(2-4) only_slept_trans [of e s0 s s'] by (simp add: loop_trace_def)
  with o open_no_save [OF o] show ?thesis by (auto simp: loop_trace_def)
qed

lemma loop_keys_simps [simp]:
  "lacts (loop_keys pad s) = lacts s" "lshow (loop_keys pad s) = lshow s" "lgame (loop_keys pad s) = lgame s"
  "larch (loop_keys pad s) = larch s" "lgiven (loop_keys pad s) = lgiven s"
  by (simp_all add: loop_keys_def Let_def)

lemma loop_slot_simps [simp]:
  "lacts (loop_slot e s) = lacts s" "lshow (loop_slot e s) = lshow s" "lgame (loop_slot e s) = lgame s"
  "larch (loop_slot e s) = larch s" "lgiven (loop_slot e s) = lgiven s"
  by (simp_all add: loop_slot_def)

lemma loop_slot_same: "same_menu s (loop_slot e s)"
  by (simp add: same_menu_def loop_slot_def)

lemma confirm_trace:
  assumes "loop_acts e (promised (menu_items simple ! nat (lsel s)) s) s = Some t" "list_all open_action (lacts s)"
    and "list_all (\<lambda>ac. \<exists>a. ac = Powered a) (lacts s) \<longrightarrow> only_slept e s0 s"
  shows "loop_trace e simple s0 (t\<lparr>lshow := False\<rparr>)"
proof -
  let ?acts = "promised (menu_items simple ! nat (lsel s)) s"
  note t = loop_acts_same [OF assms(1)]
  have item: "promised (menu_items simple ! nat (lsel t)) (t\<lparr>lshow := False\<rparr>) = ?acts"
    using t promised_same [of s "t\<lparr>lshow := False\<rparr>"] by (simp add: same_menu_def)
  have none: "Do_Save \<notin> set (lacts s)" "Do_Load \<notin> set (lacts s)" using open_no_save [OF assms(2)] by simp_all
  consider "?acts = []" | "?acts = [Do_Save]" | "?acts = [Do_Load]" | a where "?acts = [a]" "a \<noteq> Do_Save" "a \<noteq> Do_Load" "\<forall>b. a \<noteq> Powered b"
    using promised_single [of "menu_items simple ! nat (lsel s)" s] by auto
  then show ?thesis
  proof cases
    case 1
    then have "t = s" using assms(1) by simp
    then show ?thesis using assms(2,3) none by (auto simp: loop_trace_def only_slept_def)
  next
    case 2
    then obtain m a ok where sv: "Menu_saveState (mcore e) (gname (lgame s)) (mroom e) (malloc e) (mbmp e) (lmenu s) (larch s) = Some (m, a, ok)"
      "t = s\<lparr>lmenu := m, larch := a, lacts := lacts s @ [Do_Save]\<rparr>"
      using assms(1) by (auto simp: bind_eq_Some_conv loop_act_def)
    have "mslot (lmenu s) = mslot m" using t sv(2) by (simp add: same_menu_def)
    then show ?thesis
      using 2 item assms(2) none t sv unfolding loop_trace_def
      by (intro conjI exI [of _ "lacts s"] impI) (auto simp: list_all_iff)
  next
    case 3
    then obtain m g a given where ld: "Menu_loadState (mopen e) (mreplace e) (mjunk e) (mcore e) (malloc e) (lmenu s) (lgame s) (larch s) = Some (m, g, a, given)"
      "t = s\<lparr>lmenu := m, lgame := g, larch := a, lgiven := given, lacts := lacts s @ [Do_Load]\<rparr>"
      using assms(1) by (auto simp: bind_eq_Some_conv loop_act_def)
    have "mslot (lmenu s) = mslot m" using t ld(2) by (simp add: same_menu_def)
    then show ?thesis
      using 3 item assms(2) none t ld unfolding loop_trace_def
      by (intro conjI exI [of _ "lacts s"] impI) (auto simp: list_all_iff)
  next
    case 4
    then show ?thesis
      using item assms(2) none t unfolding loop_trace_def
      by (intro conjI exI [of _ "lacts s"] impI) (auto simp: list_all_iff)
  qed
qed

lemma loop_frame_inv:
  assumes "loop_frame e simple fr s = Some s'" "loop_ok s" "loop_trace e simple s0 s"
  shows "loop_ok s' \<and> loop_trace e simple s0 s'"
proof (cases "lshow s")
  case True
  obtain pad tapped f where fr: "fr = (pad, tapped, f)" by (cases fr)
  define k where "k = loop_slot e (loop_keys pad s)"
  have k: "loop_ok k" using loop_keys_ok [OF assms(2)] loop_ok_same [OF loop_slot_same] by (simp add: k_def)
  have kf: "lacts k = lacts s" "lgame k = lgame s" "larch k = larch s" "lgiven k = lgiven s" "lshow k" using True by (simp_all add: k_def)
  have open_acts: "list_all open_action (lacts k)" using trace_open [OF assms(3) True] kf by simp
  have slept: "list_all (\<lambda>ac. \<exists>a. ac = Powered a) (lacts k) \<longrightarrow> only_slept e s0 k"
    using assms(3) kf by (simp add: loop_trace_def only_slept_def)
  have trace: "loop_trace e simple s0 t" if "lacts t = lacts k" "lgame t = lgame k" "larch t = larch k" "lgiven t = lgiven k" for t
    using open_acts open_no_save [OF open_acts] slept that by (auto simp: loop_trace_def only_slept_def)
  have powered: "loop_ok s' \<and> loop_trace e simple s0 s'"
    if "loop_power e pad f t = Some s'" "loop_ok t" "loop_trace e simple s0 t" "list_all open_action (lacts t)" for t
    using loop_power_same [OF that(1)] trace_extend [OF that(4,3)] that(2) loop_ok_same by blast
  from assms(1) True consider "loop_power e pad f (k\<lparr>lshow := False\<rparr>) = Some s'" | "loop_power e pad f k = Some s'"
    | acts t where "confirm_actions simple k = Some acts" "loop_acts e acts k = Some t" "stays_open acts" "loop_power e pad f (t\<lparr>ldirty := True\<rparr>) = Some s'"
    | acts t where "confirm_actions simple k = Some acts" "loop_acts e acts k = Some t" "s' = t\<lparr>lshow := False\<rparr>"
    by (auto simp: loop_frame_def fr k_def [symmetric] bind_eq_Some_conv Let_def split: if_splits option.splits)
  then show ?thesis
  proof cases
    case 1
    have "loop_ok (k\<lparr>lshow := False\<rparr>)" using k by (simp add: loop_ok_def discs_ok_def)
    then show ?thesis using powered [OF 1] trace [of "k\<lparr>lshow := False\<rparr>"] open_acts by simp
  next
    case 2
    then show ?thesis using powered k trace [of k] open_acts by simp
  next
    case (3 acts t)
    note t = loop_acts_same [OF 3(2)]
    have ok: "loop_ok (t\<lparr>ldirty := True\<rparr>)" using t loop_ok_same [of k t] k by (simp add: loop_ok_def discs_ok_def)
    have ol: "list_all open_action (lacts t)" using t open_acts 3(3) by (auto simp: stays_open_def open_action_def)
    have "\<not> list_all (\<lambda>ac. \<exists>a. ac = Powered a) (lacts t)" using t 3(3) by (auto simp: stays_open_def)
    then have "loop_trace e simple s0 (t\<lparr>ldirty := True\<rparr>)" using ol open_no_save [OF ol] by (auto simp: loop_trace_def)
    then show ?thesis using powered [OF 3(4) ok] ol by simp
  next
    case (4 acts t)
    then have "loop_acts e (promised (menu_items simple ! nat (lsel k)) k) k = Some t" using confirmed_promised [OF k, of simple] by simp
    from confirm_trace [OF this open_acts slept] loop_acts_same [OF this] k loop_ok_same [of k t] show ?thesis
      by (simp add: 4(3) loop_ok_def discs_ok_def)
  qed
next
  case False
  then show ?thesis using assms by (simp add: loop_frame_def split: prod.splits)
qed

lemma Menu_loop_inv:
  "Menu_loop e simple frames s = Some s' \<Longrightarrow> loop_ok s \<Longrightarrow> loop_trace e simple s0 s \<Longrightarrow> loop_ok s' \<and> loop_trace e simple s0 s'"
proof (induction frames arbitrary: s)
  case (Cons f frames)
  from Cons.prems(1) obtain t where t: "loop_frame e simple f s = Some t" "Menu_loop e simple frames t = Some s'"
    by (auto simp: bind_eq_Some_conv)
  show ?case using Cons.IH [OF t(2)] loop_frame_inv [OF t(1) Cons.prems(2,3)] by simp
qed simp

lemma GMenu_init_disc:
  "let m = fst (GMenu_init g fs) in disc_paths m = [] \<or> - 1 \<le> disc m \<and> disc m < int (length (disc_paths m))"
proof -
  let ?scan = "\<lambda>t. disc_scan (mkdir (SHARED_USERDATA_PATH @ ''/.minui/'' @ getEmuName (gpath g)) fs) (parent_path (m3u_path g)) (gpath g)
      (fgets_all 256 t) ([], - 1)"
  let ?fs = "mkdir (SHARED_USERDATA_PATH @ ''/.minui/'' @ getEmuName (gpath g)) fs"
  have "(disc_paths (fst (GMenu_init g fs)), disc (fst (GMenu_init g fs)))
      = (if m3u_path g = [] then ([], - 1) else case fopen_r ?fs (m3u_path g) of None \<Rightarrow> ([], - 1) | Some t \<Rightarrow> ?scan t)"
    by (auto simp: GMenu_init_def Let_def split: prod.splits option.splits)
  then have "(disc_paths (fst (GMenu_init g fs)), disc (fst (GMenu_init g fs))) = ([], - 1)
      \<or> (\<exists>t. (disc_paths (fst (GMenu_init g fs)), disc (fst (GMenu_init g fs))) = ?scan t)"
    by (cases "m3u_path g = []"; cases "fopen_r ?fs (m3u_path g)") (simp_all only: if_True if_False option.case simp_thms, blast+)
  then show ?thesis
  proof
    assume "\<exists>t. (disc_paths (fst (GMenu_init g fs)), disc (fst (GMenu_init g fs))) = ?scan t"
    then obtain t where t: "?scan t = (disc_paths (fst (GMenu_init g fs)), disc (fst (GMenu_init g fs)))" by metis
    show ?thesis
      using disc_scan_current [of "- 1" "[]" "gpath g" "mkdir (SHARED_USERDATA_PATH @ ''/.minui/'' @ getEmuName (gpath g)) fs"
          "parent_path (m3u_path g)" "fgets_all 256 t"]
      unfolding t Let_def by auto
  qed (simp add: Let_def)
qed


definition demo_quiet :: pwr_frame where
  "demo_quiet = \<lparr>now = 5000, wake_at = 0, hdmi = False, muted = False, callbacks = True\<rparr>"

definition demo_power :: pwr_state where
  "demo_power = \<lparr>ctx = PWR_init (False, 100) \<lparr>can_sleep = True, can_poweroff = True, can_autosleep = True, requested_sleep = False,
       requested_wake = False, is_charging = False, charge = 100, should_warn = False, overlay_on = False\<rparr>,
     timers = \<lparr>last_input_at = 4990, checked_charge_at = 4990, setting_shown_at = 0, power_pressed_at = 0, mod_unpressed_at = 0,
       was_muted = False, was_charging = False\<rparr>,
     ppad = demo_pad [] [] [], dirty = False, show_setting = 0\<rparr>"

definition demo_menu_env :: menu_env where
  "demo_menu_env = \<lparr>mcore = demo_core, mroom = 100, malloc = True, mbmp = ''BM'', mopen = demo_env, mreplace = True, mjunk = [],
     options_run = id, picker_run = id\<rparr>"

definition demo_loop :: menu_loop where
  "demo_loop = loop_start demo_menu_env demo_disc_game \<lparr>afs = (''/s'', Dir) # demo_discs, state_slot = 0, fast_forward = False\<rparr> demo_power
     (fst (GMenu_init demo_disc_game demo_discs))"


text \<open>C14: a state saved from the menu with room on the card is what the menu loads from that slot: with the same disc in the drive the game stays open and
  the core is given the very bytes it serialised; with another disc the menu first changes to the disc
  that was in the drive when the state was saved.\<close>

theorem menu_save_load:
  assumes "Menu_saveState c (gname g) room alloc bmp m a = Some (m1, a1, True)" and "slot_files_apart c (gname g) m"
    and "length (State_getPath c (gname g) (mslot m)) < 507"
    and "serialize c = Some d" and "length d = serialize_size c" and "d \<noteq> []"
    and "disc_paths m \<noteq> [] \<Longrightarrow> current_disc m = Some (base_path m @ l) \<and> take 1 l \<noteq> ''/'' \<and> length l < 511 \<and>
           fopen_w (afs (fst (State_write c (gname g) room alloc (a\<lparr>state_slot := mslot m\<rparr>)))) (slot_file m (gname g) (mslot m) ''.txt'')"
    and "serialize_size c \<le> room"
  shows "(\<exists>m2 a2. Menu_loadState e replace junk c True m g a1 = Some (m2, g, a2, Some d))
    \<and> (\<forall>k. disc_paths m \<noteq> [] \<and> 0 \<le> k \<and> k < int (length (disc_paths m)) \<and> disc_paths m ! nat k \<noteq> base_path m @ l \<longrightarrow>
         load_disc e replace junk (Menu_updateState c (gname g) (afs a1) (m\<lparr>disc := k\<rparr>)) g (afs a1)
           = Game_changeDisc e replace (base_path m @ l) g (afs a1))"
proof -
  let ?m = "Menu_updateState c (gname g) (afs a1) m"
  note saved = saveState_files [OF assms(1-6,8)]
  have note_read: "slot_disc_path junk m' (afs a1) = base_path m @ l"
    if "disc_paths m \<noteq> []" "txt_path m' = slot_file m (gname g) (mslot m) ''.txt''" "base_path m' = base_path m" for m'
  proof -
    have "fopen_r (afs a1) (txt_path m') = Some l" using saved(2) assms(7) that by simp
    then show ?thesis using assms(7) that by (simp add: slot_disc_path_def getFile_def MAX_PATH_def)
  qed
  have "load_disc e replace junk ?m g (afs a1) = Some (g, afs a1)"
    using note_read [of ?m] assms(7) by (auto simp: load_disc_def exact_match_eq)
  moreover have ex: "fopen_r (afs a1) (State_getPath c (gname g) (mslot m)) \<noteq> None" using saved(1) State_load_file by blast
  moreover have "State_load c (gname g) True (mslot m) (putInt (slot_path m) (mslot m) (afs a1)) = Some d"
  proof -
    have "State_getPath c (gname g) (mslot m) \<noteq> slot_path m" using assms(2) by (simp add: slot_files_apart_def Let_def)
    then have "fopen_r (putInt (slot_path m) (mslot m) (afs a1)) (State_getPath c (gname g) (mslot m))
        = fopen_r (afs a1) (State_getPath c (gname g) (mslot m))" by (simp add: fopen_r_putInt)
    then show ?thesis using saved(1) State_load_cong by metis
  qed
  moreover have "serialize_size c \<noteq> 0" using assms(5,6) by (cases d) auto
  ultimately have same: "\<exists>m2 a2. Menu_loadState e replace junk c True m g a1 = Some (m2, g, a2, Some d)"
    using fopen_r_exists by (fastforce simp: Menu_loadState_def State_read_def Let_def)
  have "load_disc e replace junk (Menu_updateState c (gname g) (afs a1) (m\<lparr>disc := k\<rparr>)) g (afs a1)
      = Game_changeDisc e replace (base_path m @ l) g (afs a1)"
    if k: "disc_paths m \<noteq> []" "0 \<le> k" "k < int (length (disc_paths m))" "disc_paths m ! nat k \<noteq> base_path m @ l" for k
  proof -
    let ?k = "Menu_updateState c (gname g) (afs a1) (m\<lparr>disc := k\<rparr>)"
    have "slot_disc_path junk ?k (afs a1) = base_path m @ l" by (rule note_read [OF k(1)]) (simp_all add: slot_file_def)
    then show ?thesis using k by (auto simp: load_disc_def exact_match_eq current_disc_def)
  qed
  then show ?thesis using same by blast
qed

definition demo_menu :: menu where
  "demo_menu = \<lparr>disc_paths = [''/g/x/1.cue'', ''/g/x/2.cue''], minui_dir = ''/u'', slot_path = ''/u/x.m3u.txt'', base_path = ''/g/x/'',
     bmp_path = [], txt_path = [], disc = 1, mslot = 2, save_exists = False, preview_exists = False\<rparr>"

definition demo_menu_arch :: arch where
  "demo_menu_arch = \<lparr>afs = [(''/s'', Dir), (''/u'', Dir)], state_slot = 0, fast_forward = False\<rparr>"

definition demo_menu_saved :: arch where
  "demo_menu_saved = fst (snd (the (Menu_saveState demo_core ''x.m3u'' 100 True ''BM'' demo_menu demo_menu_arch)))"

theorem menu_save_load_witness:
  "\<exists>m2 a2. Menu_loadState demo_env True [] demo_core True demo_menu demo_disc_game demo_menu_saved = Some (m2, demo_disc_game, a2, Some ''wxyz'')"
proof -
  have name: "gname demo_disc_game = ''x.m3u''" by (simp add: demo_disc_game_def)
  have "Menu_saveState demo_core ''x.m3u'' 100 True ''BM'' demo_menu demo_menu_arch
    = Some (fst (the (Menu_saveState demo_core ''x.m3u'' 100 True ''BM'' demo_menu demo_menu_arch)), demo_menu_saved, True)"
    by code_simp
  moreover have "slot_files_apart demo_core ''x.m3u'' demo_menu" by code_simp
  moreover have "length (State_getPath demo_core ''x.m3u'' (mslot demo_menu)) < 507" by code_simp
  moreover have "serialize demo_core = Some ''wxyz''" "length ''wxyz'' = serialize_size demo_core" by code_simp+
  moreover have "current_disc demo_menu = Some (base_path demo_menu @ ''2.cue'') \<and> take 1 ''2.cue'' \<noteq> ''/''" by code_simp
  moreover have "fopen_w (afs (fst (State_write demo_core ''x.m3u'' 100 True (demo_menu_arch\<lparr>state_slot := mslot demo_menu\<rparr>))))
      (slot_file demo_menu ''x.m3u'' (mslot demo_menu) ''.txt'')" by code_simp
  ultimately show ?thesis
    using menu_save_load [of demo_core demo_disc_game 100 True "''BM''" demo_menu demo_menu_arch _ demo_menu_saved "''wxyz''" "''2.cue''"]
    by (simp add: name)
qed

end
