(* ===== verification/Environment.thy ===== *)
theory Environment
  imports OptionMenu Menu
begin

text \<open>
  What an emulator core asks of the frontend (\<open>environment_callback\<close>, \<open>set_rumble_state\<close> and the palette of the Game Boy in
  \<open>minarch/minarch.c\<close>), and the protocol by which it learns of changed options: the frontend raises a flag, the core
  asks for it, and reads its variables again when it was up.

  A request carries what its pointer points to, \<open>None\<close> for a null pointer; the answer is what is written back. A request
  that makes the code follow a null pointer has no result.
\<close>

subsection \<open>Requests and answers\<close>

datatype pixel_format = ZERO_RGB1555 | XRGB8888 | RGB565

record disk_control =
  base_interface :: nat                           \<comment> \<open>the functions of the first version\<close>
  ext_interface :: nat                            \<comment> \<open>those the extended version adds; 0 for none\<close>

datatype request =
    GET_OVERSCAN bool                             \<comment> \<open>whether there is a place for the answer\<close>
  | GET_CAN_DUPE bool
  | SET_MESSAGE
  | SET_PERFORMANCE_LEVEL
  | GET_SYSTEM_DIRECTORY bool
  | SET_PIXEL_FORMAT pixel_format
  | SET_INPUT_DESCRIPTORS "input_descriptor list option"
  | SET_DISK_CONTROL_INTERFACE "nat option"
  | GET_VARIABLE "string option"                  \<comment> \<open>the key, if there is one\<close>
  | SET_VARIABLES "(string \<times> string) list option"
  | SET_SUPPORT_NO_GAME
  | GET_VARIABLE_UPDATE bool
  | SET_FRAME_TIME_CALLBACK
  | SET_AUDIO_CALLBACK
  | GET_RUMBLE_INTERFACE
  | GET_INPUT_DEVICE_CAPABILITIES bool
  | GET_LOG_INTERFACE bool
  | GET_SAVE_DIRECTORY bool
  | SET_CONTROLLER_INFO "string list option"      \<comment> \<open>the types of the first port\<close>
  | GET_CURRENT_SOFTWARE_FRAMEBUFFER
  | GET_AUDIO_VIDEO_ENABLE bool
  | GET_INPUT_BITMASKS bool
  | GET_CORE_OPTIONS_VERSION bool
  | SET_CORE_OPTIONS "core_option list option"
  | SET_CORE_OPTIONS_INTL "core_option list option option"
  | SET_CORE_OPTIONS_DISPLAY
  | GET_DISK_CONTROL_INTERFACE_VERSION bool
  | SET_DISK_CONTROL_EXT_INTERFACE "disk_control option"
  | SET_CONTENT_INFO_OVERRIDE
  | SET_VARIABLE "(string option \<times> string option) option"
  | OTHER_REQUEST

datatype answer =
    Silent
  | Flag bool
  | Number nat
  | Text "string option"
  | Rumble                                        \<comment> \<open>\<open>set_rumble_state\<close>\<close>
  | Log                                           \<comment> \<open>\<open>LOG_note\<close>\<close>

record env_info =
  env_tag :: string
  bios_dir :: string
  env_saves :: string
  core_buttons :: "ButtonMapping list"            \<comment> \<open>\<open>core_button_mapping\<close>\<close>
  stack :: "nat \<Rightarrow> bool"                           \<comment> \<open>what an uninitialised array holds\<close>

record environment =
  ecfg :: config
  disk_control_ext :: disk_control
  palette_updated :: nat
  input_initialized :: bool                       \<comment> \<open>set by the first \<open>Input_init\<close>\<close>
  effect_rgb :: "int option"                      \<comment> \<open>the colour last given to \<open>GFX_setEffectColor\<close>\<close>

definition reply :: "bool \<Rightarrow> answer \<Rightarrow> answer" where
  "reply out a = (if out then a else Silent)"

definition announce :: "OptionList \<Rightarrow> environment \<Rightarrow> environment" where
  \<comment> \<open>\<open>OptionList_reset\<close> and the new list; nobody lowers the flag\<close>
  "announce l s = s\<lparr>ecfg := (ecfg s)\<lparr>core_options := l\<lparr>changed := changed (core_options (ecfg s))\<rparr>\<rparr>\<rparr>"

definition set_variable :: "env_info \<Rightarrow> string \<Rightarrow> string option \<Rightarrow> environment \<Rightarrow> environment" where
  "set_variable e k v s =
     s\<lparr>ecfg := (ecfg s)\<lparr>core_options := OptionList_setOptionValue k v (core_options (ecfg s))\<rparr>,
       palette_updated := palette_wait (env_tag e) 2 k (core_options (ecfg s)) (palette_updated s)\<rparr>"

definition environment_callback :: "env_info \<Rightarrow> request \<Rightarrow> environment \<Rightarrow> (bool \<times> answer \<times> environment) option" where
  "environment_callback e cmd s =
     (case cmd of
        GET_OVERSCAN out \<Rightarrow> Some (True, reply out (Flag True), s)
      | GET_CAN_DUPE out \<Rightarrow> Some (True, reply out (Flag True), s)
      | GET_SYSTEM_DIRECTORY out \<Rightarrow> Some (True, reply out (Text (Some (bios_dir e))), s)
      | SET_PIXEL_FORMAT f \<Rightarrow> Some (f = RGB565, Silent, s)
      | SET_INPUT_DESCRIPTORS ds \<Rightarrow>
          map_option (\<lambda>(i, c). (False, Silent, s\<lparr>ecfg := c, input_initialized := i\<rparr>)) (Input_init (input_initialized s) (stack e) ds (core_buttons e) (ecfg s))
      | SET_DISK_CONTROL_INTERFACE var \<Rightarrow>
          Some (True, Silent, case var of Some b \<Rightarrow> s\<lparr>disk_control_ext := \<lparr>base_interface = b, ext_interface = 0\<rparr>\<rparr> | None \<Rightarrow> s)
      | GET_VARIABLE k \<Rightarrow>
          Some (True, case k of Some k \<Rightarrow> Text (OptionList_getOptionValue (core_options (ecfg s)) k) | None \<Rightarrow> Silent, s)
      | SET_VARIABLES vars \<Rightarrow>
          (case vars of
             None \<Rightarrow> Some (True, Silent, s)
           | Some vs \<Rightarrow> map_option (\<lambda>l. (True, Silent, announce l s)) (OptionList_vars vs))
      | GET_VARIABLE_UPDATE out \<Rightarrow>
          Some (True, reply out (Flag (changed (core_options (ecfg s)))),
                if out then s\<lparr>ecfg := (ecfg s)\<lparr>core_options := (core_options (ecfg s))\<lparr>changed := False\<rparr>\<rparr>\<rparr> else s)
      | GET_RUMBLE_INTERFACE \<Rightarrow> Some (True, Rumble, s)
      | GET_INPUT_DEVICE_CAPABILITIES out \<Rightarrow> Some (True, reply out (Number 34), s)
      | GET_LOG_INTERFACE out \<Rightarrow> Some (True, reply out Log, s)
      | GET_SAVE_DIRECTORY out \<Rightarrow> Some (True, reply out (Text (Some (env_saves e))), s)
      | SET_CONTROLLER_INFO types \<Rightarrow>
          Some (False, Silent,
                if (case types of Some ts \<Rightarrow> ''dualshock'' \<in> set ts | None \<Rightarrow> False)
                then s\<lparr>ecfg := (ecfg s)\<lparr>has_custom_controllers := True\<rparr>\<rparr> else s)
      | GET_AUDIO_VIDEO_ENABLE out \<Rightarrow> Some (True, reply out (Number 3), s)
      | GET_INPUT_BITMASKS out \<Rightarrow> Some (True, reply out (Flag True), s)
      | GET_CORE_OPTIONS_VERSION out \<Rightarrow> Some (True, reply out (Number 1), s)
      | SET_CORE_OPTIONS defs \<Rightarrow> Some (True, Silent, case defs of Some ds \<Rightarrow> announce (OptionList_init ds) s | None \<Rightarrow> s)
      | SET_CORE_OPTIONS_INTL opts \<Rightarrow>
          Some (True, Silent, case opts of Some (Some ds) \<Rightarrow> announce (OptionList_init ds) s | _ \<Rightarrow> s)
      | GET_DISK_CONTROL_INTERFACE_VERSION out \<Rightarrow> Some (True, reply out (Number 1), s)
      | SET_DISK_CONTROL_EXT_INTERFACE var \<Rightarrow> Some (True, Silent, case var of Some d \<Rightarrow> s\<lparr>disk_control_ext := d\<rparr> | None \<Rightarrow> s)
      | SET_VARIABLE var \<Rightarrow>
          (case var of
             None \<Rightarrow> Some (True, Silent, s)
           | Some (Some k, v) \<Rightarrow> Some (True, Silent, set_variable e k v s)
           | Some (None, _) \<Rightarrow> Some (True, Number 1, s))
      | OTHER_REQUEST \<Rightarrow> Some (False, Silent, s)
      | _ \<Rightarrow> Some (True, Silent, s))"

definition set_rumble_state :: "nat \<Rightarrow> VIB_Context \<Rightarrow> bool \<times> VIB_Context" where
  "set_rumble_state force v = (True, VIB_setStrength (int force) v)"

subsection \<open>The palette of the Game Boy\<close>

definition Special_refreshDMGPalette :: "fs \<Rightarrow> environment \<Rightarrow> environment" where
  "Special_refreshDMGPalette files s =
     (let s = s\<lparr>palette_updated := palette_updated s - 1\<rparr>
      in if palette_updated s > 0 then s else s\<lparr>effect_rgb := Some (getInt files ''/tmp/dmg_grid_color'')\<rparr>)"

definition Special_init :: "environment \<Rightarrow> environment" where
  "Special_init s = (if palette_updated s > 1 then s\<lparr>palette_updated := 1\<rparr> else s)"

definition Special_render :: "fs \<Rightarrow> environment \<Rightarrow> environment" where
  "Special_render files s = (if palette_updated s \<noteq> 0 then Special_refreshDMGPalette files s else s)"

subsection \<open>A core and its options\<close>

type_synonym view = "string \<Rightarrow> string option"

definition offered :: "environment \<Rightarrow> view" where
  "offered s = OptionList_getOptionValue (core_options (ecfg s))"

definition announces :: "request \<Rightarrow> bool" where
  "announces r \<longleftrightarrow> (case r of SET_VARIABLES (Some _) \<Rightarrow> True | SET_CORE_OPTIONS (Some _) \<Rightarrow> True | SET_CORE_OPTIONS_INTL (Some (Some _)) \<Rightarrow> True | _ \<Rightarrow> False)"

definition core_asks :: "env_info \<Rightarrow> request \<Rightarrow> environment \<times> view \<Rightarrow> (environment \<times> view) option" where
  \<comment> \<open>the core's part: it reads its variables after it has announced them and after an update was reported\<close>
  "core_asks e r sv =
     (case environment_callback e r (fst sv) of
        None \<Rightarrow> None
      | Some (_, a, s) \<Rightarrow> Some (s, if announces r \<or> (\<exists>out. r = GET_VARIABLE_UPDATE out) \<and> a = Flag True then offered s else snd sv))"

inductive session_step :: "env_info \<Rightarrow> session \<Rightarrow> environment \<times> view \<Rightarrow> environment \<times> view \<Rightarrow> bool" for e ses where
  core: "core_asks e r sv = Some sv' \<Longrightarrow> session_step e ses sv sv'"
| menu: "session_step e ses (s, v) (s\<lparr>ecfg := OptionEmulator_optionChanged x (ecfg s), palette_updated := n\<rparr>, v)"
| frontend: "session_step e ses (s, v) (s\<lparr>ecfg := OptionFrontend_optionChanged x (ecfg s)\<rparr>, v)"
| read: "Config_readOptions (ecfg s) = Some c \<Longrightarrow> session_step e ses (s, v) (s\<lparr>ecfg := Config_readControls c\<rparr>, v)"
| restore: "Config_restore ses (ecfg s) = Some c \<Longrightarrow> session_step e ses (s, v) (s\<lparr>ecfg := c\<rparr>, v)"
| load: "session_step e ses (s, v) (s\<lparr>ecfg := Config_load ses (ecfg s)\<rparr>, v)"
| render: "session_step e ses (s, v) (Special_render files s, v)"

inductive_cases session_stepE: "session_step e ses sv sv'"

subsection \<open>Nothing changes unnoticed\<close>

definition noted :: "OptionList \<Rightarrow> OptionList \<Rightarrow> bool" where
  \<comment> \<open>the flag is not lowered, and it is up unless all values are the old ones\<close>
  "noted l l' \<longleftrightarrow> (changed l \<longrightarrow> changed l') \<and> (changed l' \<or> OptionList_getOptionValue l' = OptionList_getOptionValue l)"

lemma noted_refl [simp]: "noted l l"
  by (simp add: noted_def)

lemma noted_trans [trans]: "noted l m \<Longrightarrow> noted m n \<Longrightarrow> noted l n"
  by (auto simp: noted_def)

lemma update_option_noted: "noted l (update_option f k l)"
  by (simp add: noted_def update_option_def split: option.split)

lemma option_index_lock: "i < length os \<Longrightarrow> option_index (os[i := (os ! i)\<lparr>lock := b\<rparr>]) k = option_index os k"
proof (induction os arbitrary: i)
  case (Cons x xs)
  then show ?case by (cases i) simp_all
qed simp

lemma option_index_bound: "option_index os k = Some i \<Longrightarrow> i < length os"
  by (induction os arbitrary: i) (auto split: if_splits)

lemma set_lock_noted: "noted l (set_lock i b l)"
proof (cases "i < length (options l)")
  case True
  have "option_value ((options l)[i := (options l ! i)\<lparr>lock := b\<rparr>] ! j) = option_value (options l ! j)" for j
    using True by (cases "j = i") (simp_all add: option_value_def)
  then have "OptionList_getOptionValue (set_lock i b l) k = OptionList_getOptionValue l k" for k
    using option_index_lock [OF True, of b k]
    by (cases "option_index (options l) k") (simp_all add: OptionList_getOptionValue_def OptionList_getOption_def set_lock_def)
  then show ?thesis by (simp add: noted_def set_lock_def fun_eq_iff)
qed (simp add: set_lock_def list_update_beyond)

lemma read_core_noted: "noted (core_options c) (core_options (read_core cfg i c))"
proof -
  obtain v b where vb: "Config_getValue cfg (key (options (core_options c) ! i)) (lock (options (core_options c) ! i)) = (v, b)" by fastforce
  have "noted (set_lock i b (core_options c)) (OptionList_setOptionValue k v (set_lock i b (core_options c)))" for k
    unfolding OptionList_setOptionValue_def by (rule update_option_noted)
  then show ?thesis using set_lock_noted noted_trans by (auto simp: read_core_def vb Let_def split: option.split) blast+
qed

lemma fold_read_core_noted: "noted (core_options c) (core_options (fold (read_core cfg) is c))"
  by (induction "is" arbitrary: c) (auto intro: noted_trans read_core_noted)

lemma readOptionsString_noted: "Config_readOptionsString cfg c = Some c' \<Longrightarrow> noted (core_options c) (core_options c')"
  using fold_read_frontend_frame fold_read_core_noted
  by (auto simp: Config_readOptionsString_def split: option.splits dest!: read_gamepad_rest) (metis fold_read_frontend_frame)

lemma readOptions_noted: "Config_readOptions c = Some c' \<Longrightarrow> noted (core_options c) (core_options c')"
  unfolding Config_readOptions_def bind_eq_Some_conv by (elim exE conjE) (blast intro: noted_trans dest: readOptionsString_noted)

lemma core_options_kept:
  "core_options (Config_readControls c) = core_options c" "core_options (Config_load ses c) = core_options c"
  by (simp_all add: Config_readControls_def Config_readControlsString_def Config_load_def Let_def split: option.split)

lemma restore_changed: "Config_restore ses c = Some c' \<Longrightarrow> changed (core_options c')"
  unfolding Config_restore_def Let_def map_option_eq_Some
  by (elim exE conjE, drule readOptions_noted) (auto simp: noted_def core_options_kept split: loaded.splits if_splits)

definition informed :: "environment \<times> view \<Rightarrow> bool" where
  \<comment> \<open>what the core has read is what it is offered, or it will be told\<close>
  "informed sv \<longleftrightarrow> changed (core_options (ecfg (fst sv))) \<or> snd sv = offered (fst sv)"

lemma noted_informed:
  assumes "informed (s, v)" and "noted (core_options (ecfg s)) (core_options (ecfg s'))"
  shows "informed (s', v)"
  using assms by (auto simp: informed_def noted_def offered_def)

lemma callback_noted:
  assumes "environment_callback e r s = Some (b, a, s')" and "\<not> announces r" and "r \<noteq> GET_VARIABLE_UPDATE True"
  shows "noted (core_options (ecfg s)) (core_options (ecfg s'))"
proof (cases r)
  case (SET_INPUT_DESCRIPTORS ds)
  then show ?thesis using assms(1) by (auto simp: environment_callback_def Input_init_def Let_def split: if_splits)
next
  case (SET_VARIABLE var)
  then show ?thesis using assms(1) update_option_noted
    by (auto simp: environment_callback_def set_variable_def OptionList_setOptionValue_def split: option.splits prod.splits)
qed (use assms in \<open>auto simp: environment_callback_def announces_def split: option.splits if_splits\<close>)

lemma core_asks_informed:
  assumes "core_asks e r sv = Some sv'" and "informed sv"
  shows "informed sv'"
proof -
  obtain s v where sv: "sv = (s, v)" by fastforce
  obtain b a s' where cb: "environment_callback e r s = Some (b, a, s')" using assms(1) by (auto simp: core_asks_def sv split: option.splits)
  show ?thesis
  proof (cases "announces r \<or> (\<exists>out. r = GET_VARIABLE_UPDATE out) \<and> a = Flag True")
    case True
    then have "sv' = (s', offered s')" using assms(1) cb by (auto simp: core_asks_def sv)
    then show ?thesis by (simp add: informed_def)
  next
    case False
    then have sv': "sv' = (s', v)" using assms(1) cb by (auto simp: core_asks_def sv split: if_splits)
    show ?thesis
    proof (cases "r = GET_VARIABLE_UPDATE True")
      case True
      then have "\<not> changed (core_options (ecfg s))" "offered s' = offered s"
        using False cb by (auto simp: environment_callback_def reply_def offered_def OptionList_getOptionValue_def OptionList_getOption_def fun_eq_iff)
      then show ?thesis using assms(2) by (simp add: sv sv' informed_def)
    next
      case other: False
      then show ?thesis using noted_informed [OF assms(2) [unfolded sv]] callback_noted [OF cb] False by (simp add: sv')
    qed
  qed
qed

lemma session_informed:
  assumes "session_step e ses sv sv'" and "informed sv"
  shows "informed sv'"
  using assms(1)
proof cases
  case (core r)
  then show ?thesis using core_asks_informed assms(2) by blast
next
  case (menu s v n x)
  have "noted (core_options (ecfg s)) (core_options (OptionEmulator_optionChanged x (ecfg s)))"
    using update_option_noted by (simp add: OptionEmulator_optionChanged_def OptionList_setOptionRawValue_def)
  then show ?thesis using menu assms(2) noted_informed [of s v] by simp
next
  case (frontend s v x)
  then show ?thesis using assms(2) noted_informed [of s v "s\<lparr>ecfg := OptionFrontend_optionChanged x (ecfg s)\<rparr>"]
    by (simp add: OptionFrontend_optionChanged_def syncFrontend_others)
next
  case (read s c v)
  then show ?thesis using assms(2) readOptions_noted [OF read(3)] noted_informed [of s v "s\<lparr>ecfg := Config_readControls c\<rparr>"]
    by (simp add: core_options_kept)
next
  case (restore s c v)
  then show ?thesis using restore_changed [OF restore(3)] by (simp add: informed_def)
next
  case (load s v)
  then show ?thesis using assms(2) noted_informed [of s v "s\<lparr>ecfg := Config_load ses (ecfg s)\<rparr>"] by (simp add: core_options_kept)
next
  case (render s v files)
  have "ecfg (Special_render files s) = ecfg s" by (simp add: Special_render_def Special_refreshDMGPalette_def Let_def)
  then show ?thesis using render assms(2) noted_informed [of s v "Special_render files s"] by simp
qed

subsection \<open>Properties\<close>

text \<open>C7: a core always learns of changed options. Whatever the player does in the menus and whatever configuration is read or
  restored, in any order with requests of the core: when the core next asks whether its variables have changed, and
  reads them again if so, every value it holds is the one the frontend holds, and it is not told twice.\<close>

theorem core_learns_options:
  assumes "(session_step e ses)\<^sup>*\<^sup>* (s0, offered s0) (s, v)" and "core_asks e (GET_VARIABLE_UPDATE True) (s, v) = Some (s', v')"
  shows "v' = offered s' \<and> offered s' = offered s \<and> \<not> changed (core_options (ecfg s'))
    \<and> environment_callback e (GET_VARIABLE (Some k)) s' = Some (True, Text (v' k), s')"
proof -
  have "informed sv" if "(session_step e ses)\<^sup>*\<^sup>* (s0, offered s0) sv" for sv using that
  proof (induction rule: rtranclp_induct)
    case base
    show ?case by (simp add: informed_def)
  next
    case (step sv sv')
    then show ?case using session_informed by blast
  qed
  then have "informed (s, v)" using assms(1) by blast
  then have "informed (s', v')" by (rule core_asks_informed [OF assms(2)])
  moreover have "s' = s\<lparr>ecfg := (ecfg s)\<lparr>core_options := (core_options (ecfg s))\<lparr>changed := False\<rparr>\<rparr>\<rparr>"
    using assms(2) by (simp add: core_asks_def environment_callback_def)
  ultimately show ?thesis
    by (simp add: informed_def environment_callback_def offered_def OptionList_getOptionValue_def OptionList_getOption_def fun_eq_iff)
qed

definition demo_environment :: environment where
  "demo_environment = \<lparr>ecfg = demo_config 0 0 True [], disk_control_ext = \<lparr>base_interface = 0, ext_interface = 0\<rparr>, palette_updated = 0, input_initialized = False, effect_rgb = None\<rparr>"

definition demo_info :: env_info where
  "demo_info = \<lparr>env_tag = ''GB'', bios_dir = ''/b'', env_saves = ''/s'', core_buttons = [], stack = (\<lambda>_. False)\<rparr>"

definition demo_changed :: environment where
  "demo_changed = demo_environment\<lparr>ecfg := (ecfg demo_environment)\<lparr>core_options := OptionList_setOptionRawValue ''gb'' 1 (core_options (ecfg demo_environment))\<rparr>\<rparr>"

theorem core_learns_options_witness:
  "\<exists>s' v'. core_asks demo_info (GET_VARIABLE_UPDATE True) (demo_changed, offered demo_environment) = Some (s', v') \<and> v' = offered demo_changed
     \<and> offered demo_environment ''gb'' = Some ''a'' \<and> v' ''gb'' = Some ''b''"
proof -
  obtain x :: MenuItem where x: "mkey x = ''gb''" "mvalue x = 1"
    by (rule that [of "(undefined :: MenuItem)\<lparr>mkey := ''gb'', mvalue := 1\<rparr>"]) simp_all
  have "demo_changed = demo_environment\<lparr>ecfg := OptionEmulator_optionChanged x (ecfg demo_environment), palette_updated := 0\<rparr>"
    using x by (simp add: demo_changed_def demo_environment_def OptionEmulator_optionChanged_def)
  then have step: "(session_step demo_info ses)\<^sup>*\<^sup>* (demo_environment, offered demo_environment) (demo_changed, offered demo_environment)" for ses
    using session_step.menu [of demo_info ses demo_environment "offered demo_environment" 0 x] by simp
  obtain s' v' where asks: "core_asks demo_info (GET_VARIABLE_UPDATE True) (demo_changed, offered demo_environment) = Some (s', v')"
    by (simp add: core_asks_def environment_callback_def)
  have "offered demo_environment ''gb'' = Some ''a''" "offered demo_changed ''gb'' = Some ''b''" by code_simp+
  then show ?thesis using core_learns_options [OF step asks] asks by metis
qed

definition well_announced :: "request \<Rightarrow> bool" where
  \<comment> \<open>options in the newer format have a value each\<close>
  "well_announced r \<longleftrightarrow> (case r of SET_CORE_OPTIONS (Some ds) \<Rightarrow> \<forall>d \<in> set ds. def_values d \<noteq> []
     | SET_CORE_OPTIONS_INTL (Some (Some ds)) \<Rightarrow> \<forall>d \<in> set ds. def_values d \<noteq> [] | _ \<Rightarrow> True)"

fun serve :: "env_info \<Rightarrow> request list \<Rightarrow> environment \<Rightarrow> environment option" where
  "serve e [] s = Some s"
| "serve e (r # rs) s = (case environment_callback e r s of None \<Rightarrow> None | Some (_, _, s) \<Rightarrow> serve e rs s)"

definition all_ok :: "environment \<Rightarrow> bool" where
  "all_ok s \<longleftrightarrow> (\<forall>x \<in> set (options (core_options (ecfg s))). option_ok x)"

definition contained :: "environment \<Rightarrow> environment \<Rightarrow> bool" where
  "contained s s' \<longleftrightarrow> (\<exists>l cs b. ecfg s' = (ecfg s)\<lparr>core_options := l, controls := cs, has_custom_controllers := b\<rparr>)"

lemma contained_refl: "contained s s"
proof -
  have "ecfg s = (ecfg s)\<lparr>core_options := core_options (ecfg s), controls := controls (ecfg s), has_custom_controllers := has_custom_controllers (ecfg s)\<rparr>" by simp
  then show ?thesis unfolding contained_def by blast
qed

lemma contained_trans: "contained s t \<Longrightarrow> contained t u \<Longrightarrow> contained s u"
  by (auto simp: contained_def) blast

lemma containedI:
  "ecfg s' = ecfg s \<Longrightarrow> contained s s'"
  "ecfg s' = (ecfg s)\<lparr>core_options := l\<rparr> \<Longrightarrow> contained s s'"
  "ecfg s' = (ecfg s)\<lparr>controls := cs\<rparr> \<Longrightarrow> contained s s'"
  "ecfg s' = (ecfg s)\<lparr>has_custom_controllers := b\<rparr> \<Longrightarrow> contained s s'"
  unfolding contained_def
  by (rule exI [of _ "core_options (ecfg s')"], rule exI [of _ "controls (ecfg s')"], rule exI [of _ "has_custom_controllers (ecfg s')"], simp)+

lemma callback_contained:
  assumes "environment_callback e r s = Some (b, a, s')"
  shows "contained s s'"
  using assms by (cases r) (auto simp: environment_callback_def Input_init_def announce_def set_variable_def Let_def
    intro: containedI split: option.splits prod.splits if_splits)

lemma callback_ok:
  assumes "environment_callback e r s = Some (b, a, s')" and "well_announced r" and "all_ok s"
  shows "all_ok s'"
proof -
  have init: "\<forall>d \<in> set ds. def_values d \<noteq> [] \<Longrightarrow> all_ok (announce (OptionList_init ds) s)" for ds
    by (auto simp: all_ok_def announce_def OptionList_init_def init_option_ok)
  have vars: "OptionList_vars vs = Some l \<Longrightarrow> all_ok (announce l s)" for vs l
    by (force simp: all_ok_def announce_def OptionList_vars_def Let_def split: if_splits intro: var_option_ok)
  have set: "all_ok (set_variable e k v s)" for k v
    using assms(3) unfolding all_ok_def set_variable_def OptionList_setOptionValue_def by (simp, intro update_option_ok) (simp_all add: Option_setValue_ok)
  show ?thesis
  proof (cases r)
    case (SET_INPUT_DESCRIPTORS ds)
    then show ?thesis using assms(1,3) by (auto simp: environment_callback_def Input_init_def all_ok_def Let_def split: if_splits)
  next
    case (SET_VARIABLE var)
    then show ?thesis using assms(1,3) set by (auto simp: environment_callback_def split: option.splits prod.splits)
  qed (use assms init vars in \<open>auto simp: environment_callback_def well_announced_def all_ok_def split: option.splits if_splits\<close>)
qed

lemma option_index_found: "x \<in> set os \<Longrightarrow> \<exists>i < length os. option_index os (key x) = Some i"
  by (induction os) auto

lemma callback_controls:
  assumes "environment_callback e r s = Some (b, a, s')" and "input_initialized s"
  shows "input_initialized s' \<and> controls (ecfg s') = controls (ecfg s)"
  using assms by (cases r) (auto simp: environment_callback_def Input_init_def announce_def set_variable_def Let_def
    split: option.splits prod.splits if_splits)

lemma serve_controls: "serve e rs s = Some s' \<Longrightarrow> input_initialized s \<Longrightarrow> controls (ecfg s') = controls (ecfg s)"
proof (induction rs arbitrary: s)
  case (Cons r rs)
  then obtain b a t where t: "environment_callback e r s = Some (b, a, t)" "serve e rs t = Some s'" by (auto split: option.splits)
  show ?case using callback_controls [OF t(1) Cons.prems(2)] Cons.IH [OF t(2)] by simp
qed simp

text \<open>C34: a core cannot damage the frontend. Any sequence of its requests changes, of the whole configuration, only the core's own
  options, the controls and the mark for other controllers, and the controls only until they have been set up once; every option it has announced
  then has as many labels as values and a current value, which the core is given when it asks.\<close>

theorem requests_contained:
  assumes "serve e rs s = Some s'" and "\<forall>r \<in> set rs. well_announced r" and "\<forall>x \<in> set (options (core_options (ecfg s))). option_ok x"
  shows "(\<exists>l cs b. ecfg s' = (ecfg s)\<lparr>core_options := l, controls := cs, has_custom_controllers := b\<rparr>)
    \<and> (input_initialized s \<longrightarrow> controls (ecfg s') = controls (ecfg s))
    \<and> (\<forall>x \<in> set (options (core_options (ecfg s'))). option_ok x
         \<and> (\<exists>t. environment_callback e (GET_VARIABLE (Some (key x))) s' = Some (True, Text (Some t), s')))"
proof -
  have "contained s s' \<and> all_ok s'" using assms
  proof (induction rs arbitrary: s)
    case (Cons r rs)
    obtain b a t where cb: "environment_callback e r s = Some (b, a, t)" "serve e rs t = Some s'" using Cons.prems(1) by (auto split: option.splits)
    have "all_ok t" using callback_ok [OF cb(1)] Cons.prems(2,3) by (simp add: all_ok_def)
    then show ?case using Cons.IH [OF cb(2)] Cons.prems(2) callback_contained [OF cb(1)] contained_trans by (auto simp: all_ok_def)
  qed (simp add: contained_refl all_ok_def)
  then have c: "contained s s'" and ok: "\<forall>x \<in> set (options (core_options (ecfg s'))). option_ok x" by (simp_all add: all_ok_def)
  have "\<exists>t. offered s' (key x) = Some t" if x: "x \<in> set (options (core_options (ecfg s')))" for x
  proof -
    obtain i where i: "i < length (options (core_options (ecfg s')))" "option_index (options (core_options (ecfg s'))) (key x) = Some i"
      using option_index_found [OF x] by blast
    then have "option_ok (options (core_options (ecfg s')) ! i)" using ok by simp
    then show ?thesis using i by (simp add: offered_def OptionList_getOptionValue_def OptionList_getOption_def option_value_def option_ok_def)
  qed
  then have "\<exists>t. environment_callback e (GET_VARIABLE (Some (key x))) s' = Some (True, Text (Some t), s')"
    if "x \<in> set (options (core_options (ecfg s')))" for x using that by (auto simp: environment_callback_def offered_def)
  then show ?thesis using c ok serve_controls [OF assms(1)] by (simp add: contained_def)
qed

text \<open>A core describes a button, announces an option, changes it, describes its buttons again and asks for changes.\<close>

definition demo_requests :: "request list" where
  "demo_requests =
     [SET_INPUT_DESCRIPTORS (Some [\<lparr>d_port = 0, d_device = 1, d_index = 0, d_id = 8, description = ''Jump''\<rparr>]),
      SET_VARIABLES (Some [(''gb'', ''Colours; a|b'')]), SET_VARIABLE (Some (Some ''gb'', Some ''b'')),
      SET_INPUT_DESCRIPTORS (Some []), GET_VARIABLE_UPDATE True]"

theorem requests_contained_witness:
  "\<exists>s' t. serve demo_info demo_requests demo_environment = Some s'
     \<and> environment_callback demo_info (GET_VARIABLE (Some ''gb'')) s' = Some (True, Text (Some t), s')"
proof -
  have "case serve demo_info demo_requests demo_environment of None \<Rightarrow> False
      | Some s \<Rightarrow> list_ex (\<lambda>x. key x = ''gb'') (options (core_options (ecfg s)))" by code_simp
  then obtain s' where s': "serve demo_info demo_requests demo_environment = Some s'" "\<exists>x \<in> set (options (core_options (ecfg s'))). key x = ''gb''"
    by (auto simp: list_ex_iff split: option.splits)
  have ok: "\<forall>r \<in> set demo_requests. well_announced r" "\<forall>x \<in> set (options (core_options (ecfg demo_environment))). option_ok x"
    by (simp add: demo_requests_def well_announced_def, code_simp)
  note served = requests_contained [OF s'(1) ok]
  obtain x where x: "x \<in> set (options (core_options (ecfg s')))" "key x = ''gb''" using s'(2) by blast
  from served [THEN conjunct2, THEN conjunct2, rule_format, OF x(1)] x(2) s'(1) show ?thesis by auto
qed

end
