(* ===== verification/Scaler.thy ===== *)
theory Scaler
  imports Prelude
begin

text \<open>
  The software scalers (\<open>common/scaler.c\<close>): integer enlargement in C and in NEON assembly, and the line and
  grid effects.

  A picture is a memory of 16-bit pixels, a function from pixel addresses; source and destination are
  different memories, as \<open>__restrict\<close> promises. Pointers are pixel addresses; pitches are in bytes as in the
  source and even. Sizes are far below \<open>2 ^ 32\<close>, so they are \<open>nat\<close>. A vector register \<open>d0\<close>..\<open>d31\<close> is the list
  of its four lanes, and a block of instructions is a chain of \<open>let\<close>s that assigns the registers in the
  order of the source, with every reuse of a register; a loop that runs up to an address runs the number
  of times that takes it there.
\<close>

type_synonym pixels = "nat \<Rightarrow> u16"

definition memcpy :: "pixels \<Rightarrow> nat \<Rightarrow> pixels \<Rightarrow> nat \<Rightarrow> nat \<Rightarrow> pixels" where
  "memcpy d p s q n = (\<lambda>a. if p \<le> a \<and> a < p + n div 2 then s (q + (a - p)) else d a)"

definition store :: "nat \<Rightarrow> u16 list \<Rightarrow> pixels \<Rightarrow> pixels" where
  "store p xs d = (\<lambda>a. if p \<le> a \<and> a < p + length xs then xs ! (a - p) else d a)"

definition load :: "nat \<Rightarrow> nat \<Rightarrow> pixels \<Rightarrow> u16 list" where
  "load q n s = map s [q..<q + n]"

fun row_loop :: "(nat \<Rightarrow> nat \<Rightarrow> pixels \<Rightarrow> pixels) \<Rightarrow> nat \<Rightarrow> nat \<Rightarrow> nat \<Rightarrow> nat \<Rightarrow> nat \<Rightarrow> pixels \<Rightarrow> pixels" where
  \<comment> \<open>one step per source row; both pointers move on by their strides\<close>
  "row_loop step sadd dadd 0 q p d = d"
| "row_loop step sadd dadd (Suc sh) q p d = row_loop step sadd dadd sh (q + sadd) (p + dadd) (step q p d)"

fun copy_rows :: "nat \<Rightarrow> nat \<Rightarrow> nat \<Rightarrow> nat \<Rightarrow> nat \<Rightarrow> pixels \<Rightarrow> pixels" where
  \<comment> \<open>\<open>n\<close> further copies of the row at \<open>dstsrc\<close>\<close>
  "copy_rows 0 dp swl dstsrc p d = d"
| "copy_rows (Suc n) dp swl dstsrc p d = copy_rows n dp swl dstsrc (p + dp div 2) (memcpy d p d dstsrc swl)"

definition pitch :: "nat \<Rightarrow> nat \<Rightarrow> nat" where "pitch given width = (if given = 0 then width else given)"

subsection \<open>C scalers\<close>

fun copies :: "nat \<Rightarrow> nat \<Rightarrow> nat \<Rightarrow> pixels \<Rightarrow> nat \<Rightarrow> nat \<Rightarrow> pixels \<Rightarrow> pixels" where
  "copies 0 dp swl s q p d = d"
| "copies (Suc i) dp swl s q p d = copies i dp swl s q (p + dp div 2) (memcpy d p s q swl)"

definition scale1x_c16 :: "nat \<Rightarrow> nat \<Rightarrow> nat \<Rightarrow> nat \<Rightarrow> nat \<Rightarrow> nat \<Rightarrow> nat \<Rightarrow> pixels \<Rightarrow> pixels \<Rightarrow> pixels" where
  "scale1x_c16 ymul src dst sw sh sp dp s d =
     (if sw = 0 \<or> sh = 0 \<or> ymul = 0 then d
      else (let swl = sw * 2; sp = pitch sp swl; dp = pitch dp (swl * 1) in
            if ymul = 1 \<and> swl = sp \<and> sp = dp then memcpy d dst s src (sp * sh)
            else (let swl = (if swl > dp then dp else swl) in
                  row_loop (copies ymul dp swl s) (sp div 2) (ymul * (dp div 2)) sh src dst d)))"

definition load32 :: "nat \<Rightarrow> pixels \<Rightarrow> u32" where
  \<comment> \<open>little-endian\<close>
  "load32 q s = ucast (s q) OR push_bit 16 (ucast (s (q + 1)))"

fun store32s :: "nat \<Rightarrow> u32 list \<Rightarrow> pixels \<Rightarrow> pixels" where
  "store32s p [] d = d"
| "store32s p (v # vs) d = store32s (p + 2) vs (d(p := ucast v, p + 1 := ucast (drop_bit 16 v)))"

definition dpix1 :: "u32 \<Rightarrow> u32" where "dpix1 pix = (pix AND 0x0000FFFF) OR push_bit 16 pix"
definition dpix2 :: "u32 \<Rightarrow> u32" where "dpix2 pix = (pix AND 0xFFFF0000) OR drop_bit 16 pix"
definition twice :: "u16 \<Rightarrow> u32" where "twice pix16 = ucast pix16 OR push_bit 16 (ucast pix16)"

definition words2 :: "u32 \<Rightarrow> u32 list" where "words2 pix = [dpix1 pix, dpix2 pix]"
definition words3 :: "u32 \<Rightarrow> u32 list" where "words3 pix = [dpix1 pix, pix, dpix2 pix]"
definition words4 :: "u32 \<Rightarrow> u32 list" where "words4 pix = [dpix1 pix, dpix1 pix, dpix2 pix, dpix2 pix]"
definition words5 :: "u32 \<Rightarrow> u32 list" where "words5 pix = [dpix1 pix, dpix1 pix, pix, dpix2 pix, dpix2 pix]"
definition words6 :: "u32 \<Rightarrow> u32 list" where "words6 pix = [dpix1 pix, dpix1 pix, dpix1 pix, dpix2 pix, dpix2 pix, dpix2 pix]"

fun pair_loop :: "(u32 \<Rightarrow> u32 list) \<Rightarrow> nat \<Rightarrow> nat \<Rightarrow> nat \<Rightarrow> nat \<Rightarrow> pixels \<Rightarrow> pixels \<Rightarrow> pixels" where
  "pair_loop words N 0 q p s d = d"
| "pair_loop words N (Suc n) q p s d = pair_loop words N n (q + 2) (p + 2 * N) s (store32s p (words (load32 q s)) d)"

definition line_c16 :: "nat \<Rightarrow> (u32 \<Rightarrow> u32 list) \<Rightarrow> nat \<Rightarrow> bool \<Rightarrow> nat \<Rightarrow> pixels \<Rightarrow> nat \<Rightarrow> nat \<Rightarrow> pixels \<Rightarrow> pixels" where
  \<comment> \<open>one row; the last pixel of an odd row is \<open>tails\<close> words, and a half where the factor is odd\<close>
  "line_c16 N words tails half sw s q p d =
     (let d = pair_loop words N (sw div 2) q p s d; x = sw div 2; dx = p + 2 * N * x in
      if odd sw then
        (let pix16 = s (q + x * 2); d = store32s dx (replicate tails (twice pix16)) d in
         if half then d(dx + 2 * tails := pix16) else d)
      else d)"

definition scale_c16 :: "nat \<Rightarrow> (nat \<Rightarrow> pixels \<Rightarrow> nat \<Rightarrow> nat \<Rightarrow> pixels \<Rightarrow> pixels) \<Rightarrow> nat \<Rightarrow> nat \<Rightarrow> nat \<Rightarrow> nat \<Rightarrow> nat \<Rightarrow> nat \<Rightarrow> nat \<Rightarrow>
    pixels \<Rightarrow> pixels \<Rightarrow> pixels" where
  "scale_c16 N line ymul src dst sw sh sp dp s d =
     (if sw = 0 \<or> sh = 0 \<or> ymul = 0 then d
      else (let swl = sw * 2; sp = pitch sp swl; swl = swl * N; dp = pitch dp swl in
            row_loop (\<lambda>q p d. copy_rows (ymul - 1) dp swl p (p + dp div 2) (line sw s q p d))
              (sp div 2) (ymul * (dp div 2)) sh src dst d))"

definition scale2x_c16 where "scale2x_c16 = scale_c16 2 (line_c16 2 words2 1 False)"
definition scale3x_c16 where "scale3x_c16 = scale_c16 3 (line_c16 3 words3 1 True)"
definition scale4x_c16 where "scale4x_c16 = scale_c16 4 (line_c16 4 words4 2 False)"
definition scale5x_c16 where "scale5x_c16 = scale_c16 5 (line_c16 5 words5 2 True)"
definition scale6x_c16 where "scale6x_c16 = scale_c16 6 (line_c16 6 words6 3 False)"

subsection \<open>NEON scalers\<close>

definition lanes :: "nat \<Rightarrow> u16 list \<Rightarrow> u16 list" where "lanes i ps = take 4 (drop (4 * i) ps)"
definition vdup :: "u16 \<Rightarrow> u16 list" where "vdup x = [x, x, x, x]"
definition vext :: "u16 list \<Rightarrow> u16 list \<Rightarrow> nat \<Rightarrow> u16 list" where "vext dn dm n = take 4 (drop n (dn @ dm))"

fun neon_loop :: "(u16 list \<Rightarrow> u16 list) \<Rightarrow> nat \<Rightarrow> nat \<Rightarrow> pixels \<Rightarrow> nat \<times> nat list \<times> pixels \<Rightarrow> nat \<times> nat list \<times> pixels" where
  \<comment> \<open>load \<open>w\<close> pixels, store what \<open>blk\<close> makes of them at every destination\<close>
  "neon_loop blk w 0 s st = st"
| "neon_loop blk w (Suc n) s (q, ps, d) =
     (let out = blk (load q w s) in
      neon_loop blk w n s (q + w, map (\<lambda>p. p + length out) ps, fold (\<lambda>p. store p out) ps d))"

fun neon_tests :: "nat list \<Rightarrow> nat \<Rightarrow> nat \<Rightarrow> pixels \<Rightarrow> nat \<times> nat list \<times> pixels \<Rightarrow> nat \<times> nat list \<times> pixels" where
  \<comment> \<open>labels 2 to 6\<close>
  "neon_tests [] sz r3 s (q, ps, d) = neon_loop id 1 (r3 - q) s (q, ps, d)"
| "neon_tests (b # bs) sz r3 s (q, ps, d) =
     (if q = r3 then (q, ps, d)
      else neon_tests bs sz r3 s (if odd (sz div b) then neon_loop id (b div 2) 1 s (q, ps, d) else (q, ps, d)))"

definition memcpy_neon :: "pixels \<Rightarrow> nat \<Rightarrow> pixels \<Rightarrow> nat \<Rightarrow> nat \<Rightarrow> pixels" where
  "memcpy_neon d p s q sz =
     snd (snd (neon_tests [64, 32, 16, 8] sz (q + sz div 2) s (neon_loop id 64 (sz div 128) s (q, [p], d))))"

definition neon_unaligned :: "nat \<Rightarrow> nat \<Rightarrow> nat \<Rightarrow> nat \<Rightarrow> bool" where
  \<comment> \<open>\<open>src&3 || dst&3 || sp&3 || dp&3\<close>, the addresses in bytes\<close>
  "neon_unaligned src dst sp dp \<longleftrightarrow> (2 * src) mod 4 \<noteq> 0 \<or> (2 * dst) mod 4 \<noteq> 0 \<or> sp mod 4 \<noteq> 0 \<or> dp mod 4 \<noteq> 0"

definition scale1x1_n16 :: "nat \<Rightarrow> nat \<Rightarrow> nat \<Rightarrow> nat \<Rightarrow> nat \<Rightarrow> nat \<Rightarrow> pixels \<Rightarrow> pixels \<Rightarrow> pixels" where
  "scale1x1_n16 src dst sw sh sp dp s d =
     (if sw = 0 \<or> sh = 0 then d
      else (let swl = sw * 2; sp = pitch sp swl; dp = pitch dp (swl * 1) in
            if neon_unaligned src dst sp dp then scale1x_c16 1 src dst sw sh sp dp s d
            else if swl = sp \<and> sp = dp then memcpy_neon d dst s src (sp * sh)
            else (let swl = (if swl > dp then dp else swl) in
                  row_loop (\<lambda>q p d. memcpy_neon d p s q swl) (sp div 2) (dp div 2) sh src dst d)))"

definition neon2_32 :: "u16 list \<Rightarrow> u16 list" where
  "neon2_32 ps =
     (let d16 = lanes 0 ps; d17 = lanes 1 ps; d18 = lanes 2 ps; d19 = lanes 3 ps; d20 = lanes 4 ps; d21 = lanes 5 ps; d22 = lanes 6 ps; d23 = lanes 7 ps;
          d0 = vdup (d23 ! 3); d1 = vdup (d23 ! 2); d31 = vext d1 d0 2;
          d0 = vdup (d23 ! 1); d1 = vdup (d23 ! 0); d30 = vext d1 d0 2;
          d0 = vdup (d22 ! 3); d1 = vdup (d22 ! 2); d29 = vext d1 d0 2;
          d0 = vdup (d22 ! 1); d1 = vdup (d22 ! 0); d28 = vext d1 d0 2;
          d0 = vdup (d21 ! 3); d1 = vdup (d21 ! 2); d27 = vext d1 d0 2;
          d0 = vdup (d21 ! 1); d1 = vdup (d21 ! 0); d26 = vext d1 d0 2;
          d0 = vdup (d20 ! 3); d1 = vdup (d20 ! 2); d25 = vext d1 d0 2;
          d0 = vdup (d20 ! 1); d1 = vdup (d20 ! 0); d24 = vext d1 d0 2;
          d0 = vdup (d19 ! 3); d1 = vdup (d19 ! 2); d23 = vext d1 d0 2;
          d0 = vdup (d19 ! 1); d1 = vdup (d19 ! 0); d22 = vext d1 d0 2;
          d0 = vdup (d18 ! 3); d1 = vdup (d18 ! 2); d21 = vext d1 d0 2;
          d0 = vdup (d18 ! 1); d1 = vdup (d18 ! 0); d20 = vext d1 d0 2;
          d0 = vdup (d17 ! 3); d1 = vdup (d17 ! 2); d19 = vext d1 d0 2;
          d0 = vdup (d17 ! 1); d1 = vdup (d17 ! 0); d18 = vext d1 d0 2;
          d0 = vdup (d16 ! 3); d1 = vdup (d16 ! 2); d17 = vext d1 d0 2;
          d0 = vdup (d16 ! 1); d1 = vdup (d16 ! 0); d16 = vext d1 d0 2
      in concat [d16, d17, d18, d19, d20, d21, d22, d23, d24, d25, d26, d27, d28, d29, d30, d31])"

definition neon2_16 :: "u16 list \<Rightarrow> u16 list" where
  "neon2_16 ps =
     (let d16 = lanes 0 ps; d17 = lanes 1 ps; d18 = lanes 2 ps; d19 = lanes 3 ps;
          d0 = vdup (d19 ! 3); d1 = vdup (d19 ! 2); d23 = vext d1 d0 2;
          d0 = vdup (d19 ! 1); d1 = vdup (d19 ! 0); d22 = vext d1 d0 2;
          d0 = vdup (d18 ! 3); d1 = vdup (d18 ! 2); d21 = vext d1 d0 2;
          d0 = vdup (d18 ! 1); d1 = vdup (d18 ! 0); d20 = vext d1 d0 2;
          d0 = vdup (d17 ! 3); d1 = vdup (d17 ! 2); d19 = vext d1 d0 2;
          d0 = vdup (d17 ! 1); d1 = vdup (d17 ! 0); d18 = vext d1 d0 2;
          d0 = vdup (d16 ! 3); d1 = vdup (d16 ! 2); d17 = vext d1 d0 2;
          d0 = vdup (d16 ! 1); d1 = vdup (d16 ! 0); d16 = vext d1 d0 2
      in concat [d16, d17, d18, d19, d20, d21, d22, d23])"

definition neon3_16 :: "u16 list \<Rightarrow> u16 list" where
  "neon3_16 ps =
     (let d16 = lanes 0 ps; d17 = lanes 1 ps; d18 = lanes 2 ps; d19 = lanes 3 ps;
          d31 = vdup (d19 ! 3); d30 = vdup (d19 ! 2); d29 = vdup (d19 ! 1); d28 = vdup (d19 ! 0);
          d27 = vext d30 d31 3; d26 = vext d29 d30 2; d25 = vext d28 d29 1;
          d31 = vdup (d18 ! 3); d30 = vdup (d18 ! 2); d29 = vdup (d18 ! 1); d28 = vdup (d18 ! 0);
          d24 = vext d30 d31 3; d23 = vext d29 d30 2; d22 = vext d28 d29 1;
          d31 = vdup (d17 ! 3); d30 = vdup (d17 ! 2); d29 = vdup (d17 ! 1); d28 = vdup (d17 ! 0);
          d21 = vext d30 d31 3; d20 = vext d29 d30 2; d19 = vext d28 d29 1;
          d31 = vdup (d16 ! 3); d30 = vdup (d16 ! 2); d29 = vdup (d16 ! 1); d28 = vdup (d16 ! 0);
          d18 = vext d30 d31 3; d17 = vext d29 d30 2; d16 = vext d28 d29 1
      in concat [d16, d17, d18, d19, d20, d21, d22, d23, d24, d25, d26, d27])"

definition neon4_16 :: "u16 list \<Rightarrow> u16 list" where
  "neon4_16 ps =
     (let d16 = lanes 0 ps; d17 = lanes 1 ps; d18 = lanes 2 ps; d19 = lanes 3 ps;
          d31 = vdup (d19 ! 3); d30 = vdup (d19 ! 2); d29 = vdup (d19 ! 1); d28 = vdup (d19 ! 0);
          d27 = vdup (d18 ! 3); d26 = vdup (d18 ! 2); d25 = vdup (d18 ! 1); d24 = vdup (d18 ! 0);
          d23 = vdup (d17 ! 3); d22 = vdup (d17 ! 2); d21 = vdup (d17 ! 1); d20 = vdup (d17 ! 0);
          d19 = vdup (d16 ! 3); d18 = vdup (d16 ! 2); d17 = vdup (d16 ! 1); d16 = vdup (d16 ! 0)
      in concat [d16, d17, d18, d19, d20, d21, d22, d23, d24, d25, d26, d27, d28, d29, d30, d31])"

definition neon5_8 :: "u16 list \<Rightarrow> u16 list" where
  "neon5_8 ps =
     (let d16 = lanes 0 ps; d17 = lanes 1 ps;
          d25 = vdup (d17 ! 3); d27 = vdup (d17 ! 2); d26 = vdup (d17 ! 1); d21 = vdup (d17 ! 0);
          d24 = vext d27 d25 1; d23 = vext d26 d27 2; d22 = vext d21 d26 3;
          d20 = vdup (d16 ! 3); d27 = vdup (d16 ! 2); d26 = vdup (d16 ! 1); d16 = vdup (d16 ! 0);
          d19 = vext d27 d20 1; d18 = vext d26 d27 2; d17 = vext d16 d26 3
      in concat [d16, d17, d18, d19, d20, d21, d22, d23, d24, d25])"

definition neon6_8 :: "u16 list \<Rightarrow> u16 list" where
  "neon6_8 ps =
     (let d16 = lanes 0 ps; d17 = lanes 1 ps;
          d27 = vdup (d17 ! 3); d25 = vdup (d17 ! 2); d24 = vdup (d17 ! 1); d22 = vdup (d17 ! 0);
          d26 = vext d25 d27 2; d23 = vext d22 d24 2;
          d21 = vdup (d16 ! 3); d19 = vdup (d16 ! 2); d18 = vdup (d16 ! 1); d16 = vdup (d16 ! 0);
          d20 = vext d19 d21 2; d17 = vext d16 d18 2
      in concat [d16, d17, d18, d19, d20, d21, d22, d23, d24, d25, d26, d27])"

definition neon_line :: "(u16 list \<Rightarrow> u16 list) \<Rightarrow> nat \<Rightarrow> (u16 list \<Rightarrow> u16 list) \<Rightarrow> nat \<Rightarrow> pixels \<Rightarrow> nat \<Rightarrow> nat list \<Rightarrow> pixels \<Rightarrow>
    nat \<times> nat list \<times> pixels" where
  \<comment> \<open>whole blocks of \<open>w\<close> pixels, then pixel by pixel\<close>
  "neon_line blk w rest sw s q ps d =
     neon_loop rest 1 (sw mod w) s (neon_loop blk w (sw div w) s (q, ps, d))"

definition rest2 :: "u16 list \<Rightarrow> u16 list" where "rest2 ps = [ps ! 0, ps ! 0]"
definition rest3 :: "u16 list \<Rightarrow> u16 list" where "rest3 ps = [ps ! 0, ps ! 0, ps ! 0]"
definition rest4 :: "u16 list \<Rightarrow> u16 list" where "rest4 ps = vdup (ps ! 0)"
definition rest5 :: "u16 list \<Rightarrow> u16 list" where "rest5 ps = [ps ! 0, ps ! 0, ps ! 0, ps ! 0, ps ! 0]"
definition rest6 :: "u16 list \<Rightarrow> u16 list" where "rest6 ps = vdup (ps ! 0) @ [ps ! 0, ps ! 0]"

definition neon_line2 :: "nat \<Rightarrow> pixels \<Rightarrow> nat \<Rightarrow> nat list \<Rightarrow> pixels \<Rightarrow> nat \<times> nat list \<times> pixels" where
  \<comment> \<open>blocks of 32 pixels, one of 16 if bit 5 of the length is set, then the rest\<close>
  "neon_line2 sw s q ps d =
     (let (q', ps, d) = neon_loop neon2_32 32 (sw div 32) s (q, ps, d) in
      if q' = q + sw then (q', ps, d)
      else (let (q', ps, d) = (if odd (sw * 2 div 32) then neon_loop neon2_16 16 1 s (q', ps, d) else (q', ps, d)) in
            neon_loop rest2 1 (q + sw - q') s (q', ps, d)))"

definition scale_n16 :: "nat \<Rightarrow> (nat \<Rightarrow> pixels \<Rightarrow> nat \<Rightarrow> nat list \<Rightarrow> pixels \<Rightarrow> nat \<times> nat list \<times> pixels) \<Rightarrow>
    (nat \<Rightarrow> nat \<Rightarrow> nat \<Rightarrow> nat \<Rightarrow> nat \<Rightarrow> nat \<Rightarrow> nat \<Rightarrow> pixels \<Rightarrow> pixels \<Rightarrow> pixels) \<Rightarrow>
    nat \<Rightarrow> nat \<Rightarrow> nat \<Rightarrow> nat \<Rightarrow> nat \<Rightarrow> nat \<Rightarrow> pixels \<Rightarrow> pixels \<Rightarrow> pixels" where
  \<comment> \<open>all \<open>N\<close> rows at once: the destinations of a line are \<open>dp\<close> bytes apart\<close>
  "scale_n16 N line fallback src dst sw sh sp dp s d =
     (if sw = 0 \<or> sh = 0 then d
      else (let swl = sw * 2; sp = pitch sp swl; dp = pitch dp (swl * N) in
            if neon_unaligned src dst sp dp then fallback N src dst sw sh sp dp s d
            else row_loop (\<lambda>q p d. snd (snd (line sw s q (map (\<lambda>i. p + i * (dp div 2)) [0..<N]) d)))
                   (sp div 2) (N * (dp div 2)) sh src dst d))"

definition scale2x2_n16 where "scale2x2_n16 = scale_n16 2 neon_line2 scale2x_c16"
definition scale3x3_n16 where "scale3x3_n16 = scale_n16 3 (neon_line neon3_16 16 rest3) scale3x_c16"
definition scale4x4_n16 where "scale4x4_n16 = scale_n16 4 (neon_line neon4_16 16 rest4) scale4x_c16"

definition scale5x_n16line :: "nat \<Rightarrow> pixels \<Rightarrow> nat \<Rightarrow> nat \<Rightarrow> pixels \<Rightarrow> pixels" where
  "scale5x_n16line sw s q p d = snd (snd (neon_line neon5_8 8 rest5 sw s q [p] d))"

definition scale6x_n16line :: "nat \<Rightarrow> pixels \<Rightarrow> nat \<Rightarrow> nat \<Rightarrow> pixels \<Rightarrow> pixels" where
  "scale6x_n16line sw s q p d = snd (snd (neon_line neon6_8 8 rest6 sw s q [p] d))"

fun copy_rows_neon :: "nat \<Rightarrow> nat \<Rightarrow> nat \<Rightarrow> nat \<Rightarrow> nat \<Rightarrow> pixels \<Rightarrow> pixels" where
  "copy_rows_neon 0 dp swl dstsrc p d = d"
| "copy_rows_neon (Suc n) dp swl dstsrc p d = copy_rows_neon n dp swl dstsrc (p + dp div 2) (memcpy_neon d p d dstsrc swl)"

definition scale_line_n16 :: "nat \<Rightarrow> (nat \<Rightarrow> pixels \<Rightarrow> nat \<Rightarrow> nat \<Rightarrow> pixels \<Rightarrow> pixels) \<Rightarrow>
    (nat \<Rightarrow> nat \<Rightarrow> nat \<Rightarrow> nat \<Rightarrow> nat \<Rightarrow> nat \<Rightarrow> nat \<Rightarrow> pixels \<Rightarrow> pixels \<Rightarrow> pixels) \<Rightarrow>
    nat \<Rightarrow> nat \<Rightarrow> nat \<Rightarrow> nat \<Rightarrow> nat \<Rightarrow> nat \<Rightarrow> nat \<Rightarrow> pixels \<Rightarrow> pixels \<Rightarrow> pixels" where
  "scale_line_n16 N line fallback ymul src dst sw sh sp dp s d =
     (if sw = 0 \<or> sh = 0 \<or> ymul = 0 then d
      else (let swl = sw * 2; dwl = swl * N; sp = pitch sp swl; dp = pitch dp dwl in
            if neon_unaligned src dst sp dp then fallback ymul src dst sw sh sp dp s d
            else row_loop (\<lambda>q p d. copy_rows_neon (ymul - 1) dp dwl p (p + dp div 2) (line sw s q p d))
                   (sp div 2) (ymul * (dp div 2)) sh src dst d))"

definition scale5x5_n16 where "scale5x5_n16 = scale_line_n16 5 scale5x_n16line scale5x_c16 5"
definition scale6x6_n16 where "scale6x6_n16 = scale_line_n16 6 scale6x_n16line scale6x_c16 6"

subsection \<open>Effects\<close>

definition cR :: "u16 \<Rightarrow> nat" where "cR A = unat (drop_bit 11 (A AND 0xf800))"
definition cG :: "u16 \<Rightarrow> nat" where "cG A = unat (drop_bit 5 (A AND 0x7e0))"
definition cB :: "u16 \<Rightarrow> nat" where "cB A = unat (A AND 0x1f)"

definition weight_2_5 :: "nat list" where
  "weight_2_5 = [0,0,0,1,1,2,2,2,3,3,4,4,4,5,5,6,6,6,7,7,8,8,8,9,9,10,10,10,11,11,12,12,12,13,13,14,14,14,15,15,16,16,16,17,17,18,18,18,19,19,20,20,20,21,21,22,22,22,23,23,24,24,24,25]"

definition weight_3_5 :: "nat list" where
  "weight_3_5 = [0,0,1,1,2,3,3,4,4,5,6,6,7,7,8,9,9,10,10,11,12,12,13,13,14,15,15,16,16,17,18,18,19,19,20,21,21,22,22,23,24,24,25,25,26,27,27,28,28,29,30,30,31,31,32,33,33,34,34,35,36,36,37,37]"

definition weight_3_4 :: "nat list" where
  "weight_3_4 = [0,0,1,2,3,3,4,5,6,6,7,8,9,9,10,11,12,12,13,14,15,15,16,17,18,18,19,20,21,21,22,23,24,24,25,26,27,27,28,29,30,30,31,32,33,33,34,35,36,36,37,38,39,39,40,41,42,42,43,44,45,45,46,47]"

definition weighted :: "nat list \<Rightarrow> u16 \<Rightarrow> u16" where
  "weighted t A = push_bit 11 (of_nat (t ! cR A)) OR push_bit 5 (of_nat (t ! cG A)) OR of_nat (t ! cB A)"

definition Weight2_3 :: "u16 \<Rightarrow> u16" where "Weight2_3 = weighted weight_2_5"
definition Weight3_1 :: "u16 \<Rightarrow> u16" where "Weight3_1 = weighted weight_3_4"
definition Weight3_2 :: "u16 \<Rightarrow> u16" where "Weight3_2 = weighted weight_3_5"

fun effect_row :: "nat \<Rightarrow> (u16 \<Rightarrow> (nat \<times> u16) list) \<Rightarrow> nat \<Rightarrow> pixels \<Rightarrow> nat \<Rightarrow> nat \<Rightarrow> pixels \<Rightarrow> pixels" where
  \<comment> \<open>for every pixel the writes, offset and colour, relative to \<open>dst_row\<close>\<close>
  "effect_row N writes 0 s q p d = d"
| "effect_row N writes (Suc sw) s q p d =
     effect_row N writes sw s (q + 1) (p + N) (fold (\<lambda>(i, c) d. d(p + i := c)) (writes (s q)) d)"

definition scale_effect :: "nat \<Rightarrow> (nat \<Rightarrow> u16 \<Rightarrow> (nat \<times> u16) list) \<Rightarrow> nat \<Rightarrow> nat \<Rightarrow> nat \<Rightarrow> nat \<Rightarrow> nat \<Rightarrow> nat \<Rightarrow> pixels \<Rightarrow> pixels \<Rightarrow> pixels" where
  "scale_effect N writes src dst sw sh sp dp s d =
     row_loop (\<lambda>q p d. effect_row N (writes (dp div 2)) sw s q p d) (sp div 2) (dp * N div 2) sh src dst d"

definition line2_writes :: "nat \<Rightarrow> u16 \<Rightarrow> (nat \<times> u16) list" where
  "line2_writes dw c1 = (let c2 = Weight3_2 c1 in [(0, c1), (1, c1), (dw, c2), (dw + 1, c2)])"

definition line3_writes :: "nat \<Rightarrow> u16 \<Rightarrow> (nat \<times> u16) list" where
  "line3_writes dw c1 = (let c2 = Weight3_2 c1 in
     [(0, c2), (1, c2), (2, c2), (dw * 1, c1), (dw * 1 + 1, c1), (dw * 1 + 2, c1), (dw * 2, c1), (dw * 2 + 1, c1), (dw * 2 + 2, c1)])"

definition line4_writes :: "nat \<Rightarrow> u16 \<Rightarrow> (nat \<times> u16) list" where
  "line4_writes dw c1 = (let row3 = dw * 2; row4 = dw * 3; c2 = Weight3_2 c1 in
     [(0, c1), (1, c1), (2, c1), (3, c1), (dw, c2), (dw + 1, c2), (dw + 2, c2), (dw + 3, c2),
      (row3, c1), (row3 + 1, c1), (row3 + 2, c1), (row3 + 3, c1), (row4, c2), (row4 + 1, c2), (row4 + 2, c2), (row4 + 3, c2)])"

definition grid2_writes :: "nat \<Rightarrow> u16 \<Rightarrow> (nat \<times> u16) list" where
  "grid2_writes dw c1 = (let c2 = Weight3_1 c1 in [(0, c2), (1, c2), (dw, c2), (dw + 1, c1)])"

definition grid3_writes :: "nat \<Rightarrow> u16 \<Rightarrow> (nat \<times> u16) list" where
  "grid3_writes dw c1 = (let c2 = Weight3_2 c1; c3 = Weight2_3 c1 in
     [(0, c2), (1, c1), (2, c1), (dw * 1, c2), (dw * 1 + 1, c1), (dw * 1 + 2, c1), (dw * 2, c3), (dw * 2 + 1, c2), (dw * 2 + 2, c2)])"

definition scale2x_line where "scale2x_line = scale_effect 2 line2_writes"
definition scale3x_line where "scale3x_line = scale_effect 3 line3_writes"
definition scale4x_line where "scale4x_line = scale_effect 4 line4_writes"
definition scale2x_grid where "scale2x_grid = scale_effect 2 grid2_writes"
definition scale3x_grid where "scale3x_grid = scale_effect 3 grid3_writes"

definition scale1x_line :: "nat \<Rightarrow> nat \<Rightarrow> nat \<Rightarrow> nat \<Rightarrow> nat \<Rightarrow> nat \<Rightarrow> pixels \<Rightarrow> pixels \<Rightarrow> pixels" where
  \<comment> \<open>the strides \<open>2 * sp / FIXED_BPP\<close> are in pixels\<close>
  "scale1x_line src dst sw sh sp dp s d =
     (let ip = sw * 2; src_stride = 2 * sp div 2; dst_stride = 2 * dp div 2; cpy_pitch = (if ip < dp then ip else dp) in
      row_loop (\<lambda>q p d. store (p + dst_stride) (map (\<lambda>x. Weight3_1 (s (q + src_stride + x))) [0..<sw]) (memcpy d p s q cpy_pitch))
        src_stride dst_stride ((sh + 1) div 2) src dst d)"

subsection \<open>Choosing a scaler\<close>

datatype effect = EFFECT_NONE | EFFECT_LINE | EFFECT_GRID

definition PLAT_getScaler :: "effect \<Rightarrow> nat \<Rightarrow> nat \<Rightarrow> nat \<Rightarrow> nat \<Rightarrow> nat \<Rightarrow> nat \<Rightarrow> nat \<Rightarrow> pixels \<Rightarrow> pixels \<Rightarrow> pixels" where
  "PLAT_getScaler effect_type scale =
     (if effect_type = EFFECT_LINE then
        (if scale = 4 then scale4x_line else if scale = 3 then scale3x_line else if scale = 2 then scale2x_line else scale1x_line)
      else if effect_type = EFFECT_GRID \<and> scale = 3 then scale3x_grid
      else if effect_type = EFFECT_GRID \<and> scale = 2 then scale2x_grid
      else if scale = 6 then scale6x6_n16 else if scale = 5 then scale5x5_n16 else if scale = 4 then scale4x4_n16
      else if scale = 3 then scale3x3_n16 else if scale = 2 then scale2x2_n16 else scale1x1_n16)"

subsection \<open>What a scaler draws\<close>

definition band :: "nat \<Rightarrow> nat \<Rightarrow> nat \<Rightarrow> nat \<Rightarrow> (nat \<Rightarrow> nat \<Rightarrow> u16 \<Rightarrow> u16) \<Rightarrow> pixels \<Rightarrow> nat \<Rightarrow> nat \<Rightarrow> pixels \<Rightarrow> pixels" where
  \<comment> \<open>the \<open>M\<close> rows drawn for one source row of \<open>W\<close> pixels, each pixel \<open>N\<close> wide; \<open>f\<close> is the colour by position in the cell\<close>
  "band N W M dpx f s q p d =
     (\<lambda>a. if p \<le> a \<and> (a - p) div dpx < M \<and> (a - p) mod dpx < N * W
          then f ((a - p) div dpx) ((a - p) mod dpx mod N) (s (q + (a - p) mod dpx div N)) else d a)"

definition picture :: "nat \<Rightarrow> nat \<Rightarrow> nat \<Rightarrow> nat \<Rightarrow> nat \<Rightarrow> (nat \<Rightarrow> nat \<Rightarrow> u16 \<Rightarrow> u16) \<Rightarrow> nat \<Rightarrow> pixels \<Rightarrow> nat \<Rightarrow> nat \<Rightarrow> pixels \<Rightarrow> pixels" where
  \<comment> \<open>the whole picture: the pixel at row \<open>y\<close> and column \<open>x\<close> shows the source pixel at \<open>y div M\<close> and \<open>x div N\<close>\<close>
  "picture N W M dpx spx f sh s q p d =
     (\<lambda>a. let y = (a - p) div dpx; x = (a - p) mod dpx in
          if p \<le> a \<and> y < M * sh \<and> x < N * W then f (y mod M) (x mod N) (s (q + (y div M) * spx + x div N)) else d a)"

abbreviation same :: "nat \<Rightarrow> nat \<Rightarrow> u16 \<Rightarrow> u16" where "same i j c \<equiv> c"

lemma row_col:
  assumes "(p :: nat) \<le> a"
  obtains r c where "a = p + r * n + c" "(a - p) div n = r" "(a - p) mod n = c"
proof -
  have "a = p + (a - p) div n * n + (a - p) mod n" using assms div_mult_mod_eq [of "a - p" n] by linarith
  then show thesis using that by blast
qed

lemma picture_0: "picture N W M dpx spx f 0 s q p d = d"
  by (simp add: picture_def Let_def)

lemma picture_Suc:
  assumes "0 < dpx" and "0 < M"
  shows "picture N W M dpx spx f sh s (q + spx) (p + M * dpx) (band N W M dpx f s q p d) = picture N W M dpx spx f (Suc sh) s q p d"
proof
  fix a
  show "picture N W M dpx spx f sh s (q + spx) (p + M * dpx) (band N W M dpx f s q p d) a = picture N W M dpx spx f (Suc sh) s q p d a"
  proof (cases "p + M * dpx \<le> a")
    case True
    then obtain r c where rc: "a = p + M * dpx + r * dpx + c" "(a - (p + M * dpx)) div dpx = r" "(a - (p + M * dpx)) mod dpx = c"
      by (rule row_col)
    have c: "c < dpx" using assms(1) rc(3) by auto
    have "a - p = (M + r) * dpx + c" using rc(1) by (simp add: algebra_simps)
    then have "(a - p) div dpx = M + r" "(a - p) mod dpx = c" using c by simp_all
    moreover have "(M + r) div M = Suc (r div M)" "(M + r) mod M = r mod M" using assms(2) by (simp_all add: div_add_self1)
    ultimately show ?thesis using True rc by (simp add: picture_def band_def Let_def algebra_simps)
  next
    case False
    then have "p \<le> a \<Longrightarrow> (a - p) div dpx < M" using assms(1) by (simp add: div_less_iff_less_mult less_diff_conv2 algebra_simps)
    then show ?thesis using False by (auto simp: picture_def band_def Let_def)
  qed
qed

lemma row_loop_picture:
  assumes "0 < dpx" and "0 < M" and "\<And>q p d. step q p d = band N W M dpx f s q p d"
  shows "row_loop step spx (M * dpx) sh q p d = picture N W M dpx spx f sh s q p d"
proof (induction sh arbitrary: q p d)
  case (Suc sh)
  then show ?case using picture_Suc [OF assms(1,2)] by (simp add: assms(3))
qed (simp add: picture_0)

subsection \<open>Lines\<close>

definition row_put :: "nat \<Rightarrow> nat \<Rightarrow> pixels \<Rightarrow> nat \<Rightarrow> nat \<Rightarrow> pixels \<Rightarrow> pixels" where
  "row_put N W s q p d = (\<lambda>a. if p \<le> a \<and> a < p + N * W then s (q + (a - p) div N) else d a)"

lemma nth_concat_replicate: "i < N * length xs \<Longrightarrow> concat (map (replicate N) xs) ! i = xs ! (i div N)"
proof (induction xs arbitrary: i)
  case (Cons x xs)
  show ?case
  proof (cases "i < N")
    case False
    moreover have "0 < N" using Cons.prems by (cases N) simp_all
    ultimately have "i - N < N * length xs" "i div N = Suc ((i - N) div N)" using Cons.prems by (auto simp: le_div_geq)
    then show ?thesis using False Cons.IH by (simp add: nth_append)
  qed (simp add: nth_append)
qed simp

lemma length_concat_replicate [simp]: "length (concat (map (replicate N) xs)) = N * length xs"
  by (induction xs) simp_all

lemma length_load [simp]: "length (load q n s) = n"
  by (simp add: load_def)

lemma nth_load [simp]: "i < n \<Longrightarrow> load q n s ! i = s (q + i)"
  by (simp add: load_def)

lemma store_row: "0 < N \<Longrightarrow> store p (concat (map (replicate N) (load q W s))) d = row_put N W s q p d"
proof
  fix a
  assume N: "0 < N"
  show "store p (concat (map (replicate N) (load q W s))) d a = row_put N W s q p d a"
  proof (cases "p \<le> a \<and> a < p + N * W")
    case True
    then have "(a - p) div N < W" using N by (simp add: div_less_iff_less_mult less_diff_conv2 mult.commute)
    then show ?thesis using True by (simp add: store_def row_put_def nth_concat_replicate less_diff_conv2 add.commute)
  qed (auto simp: store_def row_put_def)
qed

lemma row_put_append:
  assumes "0 < N"
  shows "row_put N m s (q + k) (p + N * k) (row_put N k s q p d) = row_put N (k + m) s q p d"
proof
  fix a
  have "(a - p) div N = k + (a - (p + N * k)) div N" if "p + N * k \<le> a"
  proof -
    have "a - p = N * k + (a - (p + N * k))" using that by simp
    then show ?thesis using assms by (metis div_mult_self2 add.commute not_gr_zero)
  qed
  then show "row_put N m s (q + k) (p + N * k) (row_put N k s q p d) a = row_put N (k + m) s q p d a"
    by (auto simp: row_put_def distrib_left add.assoc)
qed

lemma row_put_0 [simp]: "row_put N 0 s q p d = d"
  by (rule ext) (auto simp: row_put_def)

subsection \<open>C lines\<close>

definition halves :: "u32 \<Rightarrow> u16 list" where "halves v = [ucast v, ucast (drop_bit 16 v)]"

lemma store32s_store: "store32s p vs d = store p (concat (map halves vs)) d"
proof (induction vs arbitrary: p d)
  case (Cons v vs)
  have "store (p + 2) xs (d(p := x, p + 1 := y)) = store p (x # y # xs) d" for xs x y
    by (rule ext) (auto simp: store_def nth_Cons' numeral_2_eq_2)
  then show ?case by (simp only: Cons store32s.simps list.map concat.simps halves_def append.simps)
qed (rule ext, auto simp: store_def)

lemma dpix_shifts: "dpix1 pix = take_bit 16 pix OR push_bit 16 pix" "dpix2 pix = push_bit 16 (drop_bit 16 pix) OR drop_bit 16 pix"
proof -
  have "(0x0000FFFF :: u32) = mask 16" by (simp add: mask_eq_exp_minus_1)
  then show "dpix1 pix = take_bit 16 pix OR push_bit 16 pix" by (metis dpix1_def take_bit_eq_mask)
  have high: "(0xFFFF0000 :: u32) = NOT (mask 16)" by code_simp
  show "dpix2 pix = push_bit 16 (drop_bit 16 pix) OR drop_bit 16 pix"
  proof -
    have "pix AND NOT (mask 16) = push_bit 16 (drop_bit 16 pix)"
      by (rule bit_eqI) (auto simp: bit_and_iff bit_not_iff bit_mask_iff bit_push_bit_iff bit_drop_bit_eq)
    then show ?thesis by (simp only: dpix2_def high)
  qed
qed

lemma halves_simps:
  "halves (dpix1 (load32 q s)) = [s q, s q]" "halves (dpix2 (load32 q s)) = [s (q + 1), s (q + 1)]"
  "halves (load32 q s) = [s q, s (q + 1)]" "halves (twice x) = [x, x]"
  by (auto simp: halves_def dpix_shifts load32_def twice_def bit_eq_iff bit_simps dest: bit_imp_le_length)

lemma load_2: "load q 2 s = [s q, s (q + 1)]" "load q 1 s = [s q]"
  by (simp_all add: load_def upt_rec)

lemma words_halves:
  "concat (map halves (words2 (load32 q s))) = concat (map (replicate 2) (load q 2 s))"
  "concat (map halves (words3 (load32 q s))) = concat (map (replicate 3) (load q 2 s))"
  "concat (map halves (words4 (load32 q s))) = concat (map (replicate 4) (load q 2 s))"
  "concat (map halves (words5 (load32 q s))) = concat (map (replicate 5) (load q 2 s))"
  "concat (map halves (words6 (load32 q s))) = concat (map (replicate 6) (load q 2 s))"
  unfolding words2_def words3_def words4_def words5_def words6_def load_2
  by (simp_all add: halves_simps eval_nat_numeral)

lemma pair_loop_row:
  assumes "0 < N" and "\<And>q. concat (map halves (words (load32 q s))) = concat (map (replicate N) (load q 2 s))"
  shows "pair_loop words N n q p s d = row_put N (2 * n) s q p d"
proof (induction n arbitrary: q p d)
  case (Suc n)
  have "store32s p (words (load32 q s)) d = row_put N 2 s q p d" by (simp only: store32s_store assms(2) store_row [OF assms(1)])
  then have "pair_loop words N (Suc n) q p s d = row_put N (2 * n) s (q + 2) (p + N * 2) (row_put N 2 s q p d)"
    using Suc [of "q + 2" "p + 2 * N"] by (simp add: mult.commute)
  then show ?case using row_put_append [OF assms(1), of "2 * n" s q 2 p d] by simp
qed simp

lemma store_one: "store p (replicate N (s q)) d = row_put N 1 s q p d"
  by (rule ext) (auto simp: store_def row_put_def)

lemma line_c16_row:
  assumes "0 < N" and "\<And>q. concat (map halves (words (load32 q s))) = concat (map (replicate N) (load q 2 s))"
    and "N = 2 * tails + (if half then 1 else 0)"
  shows "line_c16 N words tails half sw s q p d = row_put N sw s q p d"
proof (cases "odd sw")
  case True
  then obtain x where sw: "sw = 2 * x + 1" by (rule oddE)
  have "concat (map halves (replicate tails (twice c))) = replicate (2 * tails) c" for c
    by (induction tails) (simp_all add: halves_simps)
  then have "store32s a (replicate tails (twice c)) d = store a (replicate (2 * tails) c) d" for a c d by (simp add: store32s_store)
  moreover have "(store a (replicate n c) d)(a + n := c) = store a (replicate (n + 1) c) d" for a n c d
    by (rule ext) (auto simp: store_def nth_append replicate_append_same [symmetric] less_Suc_eq)
  ultimately have last: "(let d = store32s a (replicate tails (twice c)) d in if half then d(a + 2 * tails := c) else d) = store a (replicate N c) d" for a c d
    using assms(3) by (simp add: Let_def)
  have "line_c16 N words tails half sw s q p d = store (p + 2 * N * x) (replicate N (s (q + x * 2))) (row_put N (2 * x) s q p d)"
    using last by (simp add: line_c16_def sw pair_loop_row [OF assms(1,2)] Let_def)
  also have "\<dots> = row_put N 1 s (q + 2 * x) (p + N * (2 * x)) (row_put N (2 * x) s q p d)"
    unfolding store_one by (simp add: mult.commute mult.left_commute)
  finally show ?thesis using row_put_append [OF assms(1), of 1 s q "2 * x" p d] by (simp add: sw)
next
  case False
  then show ?thesis using pair_loop_row [OF assms(1,2), of "sw div 2" q p d] by (simp add: line_c16_def Let_def)
qed

subsection \<open>NEON blocks\<close>

lemma vdup_vext: "vext (vdup a) (vdup b) 1 = [a, a, a, b]" "vext (vdup a) (vdup b) 2 = [a, a, b, b]" "vext (vdup a) (vdup b) 3 = [a, b, b, b]"
  by (simp_all add: vext_def vdup_def eval_nat_numeral)

lemma list_16:
  assumes "length ps = 16"
  obtains a b c d e f g h i j k l m n x y where "ps = [a, b, c, d, e, f, g, h, i, j, k, l, m, n, x, y]"
  using assms by (auto simp: length_Suc_conv eval_nat_numeral)

lemma neon5_8_copies: "length ps = 8 \<Longrightarrow> neon5_8 ps = concat (map (replicate 5) ps)"
  and neon6_8_copies: "length ps = 8 \<Longrightarrow> neon6_8 ps = concat (map (replicate 6) ps)"
  by (auto simp: length_Suc_conv eval_nat_numeral neon5_8_def neon6_8_def lanes_def Let_def vdup_def vext_def)

lemma neon3_16_copies: "length ps = 16 \<Longrightarrow> neon3_16 ps = concat (map (replicate 3) ps)"
  by (erule list_16) (simp add: eval_nat_numeral neon3_16_def lanes_def Let_def vdup_def vext_def)

lemma neon4_16_copies: "length ps = 16 \<Longrightarrow> neon4_16 ps = concat (map (replicate 4) ps)"
  by (erule list_16) (simp add: eval_nat_numeral neon4_16_def lanes_def Let_def vdup_def)

lemma neon2_16_copies: "length ps = 16 \<Longrightarrow> neon2_16 ps = concat (map (replicate 2) ps)"
  by (erule list_16) (simp add: eval_nat_numeral neon2_16_def lanes_def Let_def vdup_def vext_def)

lemma neon2_32_copies: "length ps = 32 \<Longrightarrow> neon2_32 ps = concat (map (replicate 2) ps)"
proof -
  assume "length ps = 32"
  then have len: "length (take 16 ps) = 16" "length (drop 16 ps) = 16" by simp_all
  from len(1) obtain a b c d e f g h i j k l m n x y where t: "take 16 ps = [a, b, c, d, e, f, g, h, i, j, k, l, m, n, x, y]"
    by (rule list_16)
  from len(2) obtain a' b' c' d' e' f' g' h' i' j' k' l' m' n' x' y' where
    "drop 16 ps = [a', b', c', d', e', f', g', h', i', j', k', l', m', n', x', y']" by (rule list_16)
  then have "ps = [a, b, c, d, e, f, g, h, i, j, k, l, m, n, x, y, a', b', c', d', e', f', g', h', i', j', k', l', m', n', x', y']"
    using t append_take_drop_id [of 16 ps] by simp
  then show ?thesis by (simp add: eval_nat_numeral neon2_32_def lanes_def Let_def vdup_def vext_def)
qed

lemmas neon_copies = neon2_32_copies neon2_16_copies neon3_16_copies neon4_16_copies neon5_8_copies neon6_8_copies

lemma rest_copies:
  "length ps = 1 \<Longrightarrow> rest2 ps = concat (map (replicate 2) ps)" "length ps = 1 \<Longrightarrow> rest3 ps = concat (map (replicate 3) ps)"
  "length ps = 1 \<Longrightarrow> rest4 ps = concat (map (replicate 4) ps)" "length ps = 1 \<Longrightarrow> rest5 ps = concat (map (replicate 5) ps)"
  "length ps = 1 \<Longrightarrow> rest6 ps = concat (map (replicate 6) ps)"
  by (auto simp: length_Suc_conv rest2_def rest3_def rest4_def rest5_def rest6_def vdup_def eval_nat_numeral)

definition cols :: "nat \<Rightarrow> nat \<Rightarrow> nat \<Rightarrow> nat \<Rightarrow> nat \<Rightarrow> pixels \<Rightarrow> nat \<Rightarrow> nat \<Rightarrow> pixels \<Rightarrow> pixels" where
  \<comment> \<open>part of a band: \<open>W\<close> source pixels drawn from column \<open>off\<close> on in each of \<open>M\<close> rows\<close>
  "cols N W M dpx off s q p d =
     (\<lambda>a. if p \<le> a \<and> (a - p) div dpx < M \<and> off \<le> (a - p) mod dpx \<and> (a - p) mod dpx < off + N * W
          then s (q + ((a - p) mod dpx - off) div N) else d a)"

lemma store_apply: "store p xs d a = (if p \<le> a \<and> a < p + length xs then xs ! (a - p) else d a)"
  by (simp add: store_def)

lemma fold_store_cols:
  assumes "off + length xs \<le> dpx"
  shows "fold (\<lambda>p. store p xs) (map (\<lambda>i. p + off + i * dpx) [0..<M]) d
    = (\<lambda>a. if p \<le> a \<and> (a - p) div dpx < M \<and> off \<le> (a - p) mod dpx \<and> (a - p) mod dpx < off + length xs
           then xs ! ((a - p) mod dpx - off) else d a)"
proof (induction M)
  case (Suc M)
  show ?case
  proof
    fix a
    show "fold (\<lambda>p. store p xs) (map (\<lambda>i. p + off + i * dpx) [0..<Suc M]) d a
      = (if p \<le> a \<and> (a - p) div dpx < Suc M \<and> off \<le> (a - p) mod dpx \<and> (a - p) mod dpx < off + length xs
         then xs ! ((a - p) mod dpx - off) else d a)"
    proof (cases "p \<le> a \<and> xs \<noteq> []")
      case True
      then obtain r c where rc: "a = p + r * dpx + c" "(a - p) div dpx = r" "(a - p) mod dpx = c" using row_col by metis
      have "0 < dpx" using assms True by (cases xs) auto
      then have "c < dpx" using rc(3) by auto
      have cell: "p + off + M * dpx \<le> a \<and> a < p + off + M * dpx + length xs \<longleftrightarrow> r = M \<and> off \<le> c \<and> c < off + length xs"
      proof (cases r M rule: linorder_cases)
        case less
        then have "Suc r * dpx \<le> M * dpx" by (intro mult_le_mono1) simp
        then show ?thesis using less rc(1) \<open>c < dpx\<close> by simp
      next
        case greater
        then have "Suc M * dpx \<le> r * dpx" by (intro mult_le_mono1) simp
        then show ?thesis using greater rc(1) assms by simp
      qed (use rc(1) in auto)
      have "a - (p + off + M * dpx) = c - off" if "r = M" using that rc(1) by simp
      then show ?thesis using cell True rc(2,3) by (auto simp: Suc store_apply less_Suc_eq)
    next
      case False
      then show ?thesis by (auto simp: Suc store_apply)
    qed
  qed
qed simp

lemma cols_store:
  assumes "0 < N" and "off + N * W \<le> dpx"
  shows "fold (\<lambda>p. store p (concat (map (replicate N) (load q W s)))) (map (\<lambda>i. p + off + i * dpx) [0..<M]) d = cols N W M dpx off s q p d"
proof -
  have "x div N < W" if "x < N * W" for x using that assms(1) by (simp add: div_less_iff_less_mult mult.commute)
  then show ?thesis
    using assms(2) fold_store_cols [of off "concat (map (replicate N) (load q W s))" dpx p M d]
    by (auto simp: cols_def nth_concat_replicate less_diff_conv2 fun_eq_iff)
qed

lemma cols_append:
  assumes "0 < N"
  shows "cols N m M dpx (off + N * k) s (q + k) p (cols N k M dpx off s q p d) = cols N (k + m) M dpx off s q p d"
proof -
  have "(x - off) div N = k + (x - (off + N * k)) div N" if "off + N * k \<le> x" for x
  proof -
    have "x - off = N * k + (x - (off + N * k))" using that by simp
    then show ?thesis using assms by (metis div_mult_self2 add.commute not_gr_zero)
  qed
  then show ?thesis by (auto simp: cols_def fun_eq_iff distrib_left add.assoc)
qed

lemma neon_loop_cols:
  assumes "0 < N" and "\<And>ps. length ps = w \<Longrightarrow> blk ps = concat (map (replicate N) ps)" and "off + N * (w * n) \<le> dpx"
  shows "neon_loop blk w n s (q, map (\<lambda>i. p + off + i * dpx) [0..<M], d)
    = (q + w * n, map (\<lambda>i. p + (off + N * (w * n)) + i * dpx) [0..<M], cols N (w * n) M dpx off s q p d)"
  using assms(3)
proof (induction n arbitrary: q off d)
  case 0
  then show ?case by (auto simp: cols_def fun_eq_iff)
next
  case (Suc n)
  have len: "off + N * w \<le> dpx" using Suc.prems by (simp add: distrib_left)
  have "map (\<lambda>x. x + N * w) (map (\<lambda>i. p + off + i * dpx) [0..<M]) = map (\<lambda>i. p + (off + N * w) + i * dpx) [0..<M]" by simp
  moreover have "off + N * w + N * (w * n) \<le> dpx" using Suc.prems by (simp add: distrib_left)
  ultimately have "neon_loop blk w (Suc n) s (q, map (\<lambda>i. p + off + i * dpx) [0..<M], d)
      = (q + w + w * n, map (\<lambda>i. p + (off + N * w + N * (w * n)) + i * dpx) [0..<M],
         cols N (w * n) M dpx (off + N * w) s (q + w) p (cols N w M dpx off s q p d))"
    using Suc.IH [of "off + N * w" "q + w" "cols N w M dpx off s q p d"]
    by (simp only: neon_loop.simps Let_def assms(2) length_load length_concat_replicate cols_store [OF assms(1) len])
  then show ?case using cols_append [OF assms(1), of "w * n" M dpx off w s q p d] by (simp add: distrib_left add.assoc)
qed

lemma cols_band: "cols N W M dpx 0 s q p d = band N W M dpx same s q p d"
  by (simp add: cols_def band_def cong: if_cong)

lemma band_row_put:
  assumes "N * W \<le> dpx"
  shows "band N W 1 dpx same s q p d = row_put N W s q p d"
proof
  fix a
  show "band N W 1 dpx same s q p d a = row_put N W s q p d a"
  proof (cases "p \<le> a \<and> 0 < dpx")
    case True
    have "a - p < N * W \<longleftrightarrow> (a - p) div dpx < 1 \<and> (a - p) mod dpx < N * W" if "(a - p) div dpx < 1 \<or> a - p < N * W"
    proof -
      have "a - p < dpx" using that assms True by (auto simp: div_eq_0_iff)
      then show ?thesis by simp
    qed
    moreover have "(a - p) div dpx < 1 \<Longrightarrow> (a - p) mod dpx = a - p" using True by (simp add: div_eq_0_iff)
    ultimately show ?thesis using True assms by (auto simp: band_def row_put_def less_diff_conv2 add.commute)
  next
    case False
    then show ?thesis using assms by (auto simp: band_def row_put_def)
  qed
qed

lemma memcpy_row_put: "memcpy d p s q n = row_put 1 (n div 2) s q p d"
  by (simp add: memcpy_def row_put_def cong: if_cong)

subsection \<open>Copying with NEON\<close>

lemma concat_replicate_1 [simp]: "concat (map (replicate 1) xs) = xs"
  by (induction xs) simp_all

lemma neon_copy:
  "neon_loop id w n s (q + k, [p + k], row_put 1 k s q p d) = (q + (k + w * n), [p + (k + w * n)], row_put 1 (k + w * n) s q p d)"
proof -
  let ?m = "w * n + 1"
  have "neon_loop id w n s (q + k, map (\<lambda>i. p + k + 0 + i * ?m) [0..<1], row_put 1 k s q p d)
      = (q + k + w * n, map (\<lambda>i. p + k + (0 + 1 * (w * n)) + i * ?m) [0..<1], cols 1 (w * n) 1 ?m 0 s (q + k) (p + k) (row_put 1 k s q p d))"
    by (rule neon_loop_cols) (simp_all del: One_nat_def)
  then show ?thesis
    using row_put_append [of 1 "w * n" s q k p d] band_row_put [of 1 "w * n" ?m s "q + k" "p + k"] by (simp add: cols_band add.assoc)
qed

lemma neon_rest:
  "k \<le> sz div 2 \<Longrightarrow> snd (snd (neon_tests [] sz (q + sz div 2) s (q + k, [p + k], row_put 1 k s q p d))) = row_put 1 (sz div 2) s q p d"
  by (simp add: neon_copy del: One_nat_def)

lemma neon_test:
  assumes "k = sz div (4 * c) * (2 * c)" and "0 < c"
    and "\<And>k. k = sz div (2 * c) * c \<Longrightarrow>
      snd (snd (neon_tests bs sz (q + sz div 2) s (q + k, [p + k], row_put 1 k s q p d))) = row_put 1 (sz div 2) s q p d"
  shows "snd (snd (neon_tests ((2 * c) # bs) sz (q + sz div 2) s (q + k, [p + k], row_put 1 k s q p d))) = row_put 1 (sz div 2) s q p d"
proof -
  have half: "sz div (4 * c) = sz div (2 * c) div 2" by (simp add: div_mult2_eq [symmetric] mult.commute mult.left_commute)
  have "(if odd (sz div (2 * c)) then k + c else k) = sz div (2 * c) * c"
    unfolding assms(1) half by (cases "odd (sz div (2 * c))") (auto elim!: oddE evenE simp: algebra_simps)
  moreover have "k = sz div 2 \<Longrightarrow> neon_tests ((2 * c) # bs) sz (q + sz div 2) s (q + k, [p + k], row_put 1 k s q p d) = (q + k, [p + k], row_put 1 k s q p d)"
    by simp
  moreover have "k \<noteq> sz div 2 \<Longrightarrow> neon_tests ((2 * c) # bs) sz (q + sz div 2) s (q + k, [p + k], row_put 1 k s q p d)
      = neon_tests bs sz (q + sz div 2) s (let j = (if odd (sz div (2 * c)) then k + c else k) in (q + j, [p + j], row_put 1 j s q p d))"
    using neon_copy [of c 1 s q k p d] by (simp add: Let_def del: One_nat_def neon_loop.simps)
  ultimately show ?thesis using assms(3) [OF refl] by (cases "k = sz div 2") (simp_all add: Let_def del: One_nat_def)
qed

lemma memcpy_neon_eq: "memcpy_neon d p s q sz = memcpy d p s q sz"
proof -
  let ?done = "\<lambda>bs k. snd (snd (neon_tests bs sz (q + sz div 2) s (q + k, [p + k], row_put 1 k s q p d))) = row_put 1 (sz div 2) s q p d"
  have "?done [] (sz div 8 * 4)" by (rule neon_rest) linarith
  then have "?done [8] (sz div 16 * 8)" using neon_test [of _ sz 4 "[]" q s p d] by simp
  then have "?done [16, 8] (sz div 32 * 16)" using neon_test [of _ sz 8 "[8]" q s p d] by simp
  then have "?done [32, 16, 8] (sz div 64 * 32)" using neon_test [of _ sz 16 "[16, 8]" q s p d] by simp
  then have "?done [64, 32, 16, 8] (sz div 128 * 64)" using neon_test [of _ sz 32 "[32, 16, 8]" q s p d] by simp
  then show ?thesis using neon_copy [of 64 "sz div 128" s q 0 p d] by (simp add: memcpy_neon_def memcpy_row_put mult.commute)
qed

lemma copy_rows_neon_eq: "copy_rows_neon n dp swl dstsrc p d = copy_rows n dp swl dstsrc p d"
  by (induction n arbitrary: p d) (simp_all add: memcpy_neon_eq)

subsection \<open>Bands\<close>

lemma band_0 [simp]: "band N W 0 dpx f s q p d = d"
  by (simp add: band_def)

lemma band_Suc:
  assumes "0 < dpx" and "N * W \<le> dpx"
  shows "row_put N W s q (p + m * dpx) (band N W m dpx same s q p d) = band N W (Suc m) dpx same s q p d"
proof
  fix a
  show "row_put N W s q (p + m * dpx) (band N W m dpx same s q p d) a = band N W (Suc m) dpx same s q p d a"
  proof (cases "p \<le> a")
    case True
    then obtain r c where rc: "a = p + r * dpx + c" "(a - p) div dpx = r" "(a - p) mod dpx = c" by (rule row_col)
    have c: "c < dpx" using assms(1) rc(3) by auto
    have cell: "p + m * dpx \<le> a \<and> a < p + m * dpx + N * W \<longleftrightarrow> r = m \<and> c < N * W"
    proof (cases r m rule: linorder_cases)
      case less
      then have "Suc r * dpx \<le> m * dpx" by (intro mult_le_mono1) simp
      then show ?thesis using less rc(1) c by simp
    next
      case greater
      then have "Suc m * dpx \<le> r * dpx" by (intro mult_le_mono1) simp
      then show ?thesis using greater rc(1) assms(2) by simp
    qed (use rc(1) in auto)
    have "a - (p + m * dpx) = c" if "r = m" using that rc(1) by simp
    then show ?thesis using cell True rc(2,3) by (auto simp: row_put_def band_def less_Suc_eq)
  qed (auto simp: row_put_def band_def)
qed

lemma copies_band:
  assumes "0 < dp div 2" and "W \<le> dp div 2" and "swl div 2 = W"
  shows "copies n dp swl s q (p + m * (dp div 2)) (band 1 W m (dp div 2) same s q p d) = band 1 W (m + n) (dp div 2) same s q p d"
proof (induction n arbitrary: m)
  case (Suc n)
  have "memcpy (band 1 W m (dp div 2) same s q p d) (p + m * (dp div 2)) s q swl = band 1 W (Suc m) (dp div 2) same s q p d"
    using band_Suc [of "dp div 2" 1 W] assms by (simp add: memcpy_row_put)
  then show ?case using Suc [of "Suc m"] by (simp add: algebra_simps)
qed simp

lemma copy_rows_band:
  assumes "0 < dp div 2" and "N * W \<le> dp div 2" and "swl div 2 = N * W" and "1 \<le> m"
  shows "copy_rows n dp swl p (p + m * (dp div 2)) (band N W m (dp div 2) same s q p d) = band N W (m + n) (dp div 2) same s q p d"
  using assms(4)
proof (induction n arbitrary: m)
  case (Suc n)
  let ?x = "p + m * (dp div 2)" and ?b = "band N W m (dp div 2) same s q p d"
  have "row_put 1 (N * W) ?b p ?x ?b = row_put N W s q ?x ?b"
  proof
    fix a
    have "?b (p + (a - ?x)) = s (q + (a - ?x) div N)" if "?x \<le> a" "a < ?x + N * W"
    proof -
      have "a - ?x < N * W" "a - ?x < dp div 2" using that assms(1,2) by linarith+
      then show ?thesis using Suc.prems by (simp add: band_def)
    qed
    then show "row_put 1 (N * W) ?b p ?x ?b a = row_put N W s q ?x ?b a" by (simp add: row_put_def)
  qed
  then have "memcpy ?b ?x ?b p swl = band N W (Suc m) (dp div 2) same s q p d"
    using band_Suc [OF assms(1,2)] unfolding memcpy_row_put assms(3) by metis
  then show ?case using Suc.IH [of "Suc m"] by (simp add: algebra_simps)
qed simp

subsection \<open>Contracts of lines\<close>

locale row_scaler =
  fixes N :: nat and line :: "nat \<Rightarrow> pixels \<Rightarrow> nat \<Rightarrow> nat \<Rightarrow> pixels \<Rightarrow> pixels"
  assumes N_pos: "0 < N" and line: "line sw s q p d = row_put N sw s q p d"
begin

lemma rows_drawn:
  assumes "0 < M" and "0 < dp div 2" and "N * sw \<le> dp div 2"
  shows "row_loop (\<lambda>q p d. copy_rows (M - 1) dp (sw * 2 * N) p (p + dp div 2) (line sw s q p d)) spx (M * (dp div 2)) sh src dst d
    = picture N sw M (dp div 2) spx same sh s src dst d"
proof (rule row_loop_picture [OF assms(2,1)])
  fix q p d
  have "sw * 2 * N div 2 = N * sw" by simp
  then show "copy_rows (M - 1) dp (sw * 2 * N) p (p + dp div 2) (line sw s q p d) = band N sw M (dp div 2) same s q p d"
    unfolding line band_row_put [OF assms(3), symmetric]
    using copy_rows_band [OF assms(2,3), of "sw * 2 * N" 1 "M - 1"] assms(1) by simp
qed

lemma c_draws:
  assumes "N * sw \<le> pitch dp (sw * 2 * N) div 2"
  shows "scale_c16 N line M src dst sw sh sp dp s d
    = picture N sw M (pitch dp (sw * 2 * N) div 2) (pitch sp (sw * 2) div 2) same sh s src dst d"
proof (cases "sw = 0 \<or> sh = 0 \<or> M = 0")
  case True
  then show ?thesis by (auto simp: scale_c16_def picture_def)
next
  case False
  then have "0 < N * sw" using N_pos by simp
  then have "0 < pitch dp (sw * 2 * N) div 2" using assms by linarith
  then show ?thesis using False rows_drawn [OF _ _ assms] by (simp add: scale_c16_def Let_def)
qed

end

lemma pitch_again: "w \<noteq> 0 \<Longrightarrow> pitch (pitch x w) w = pitch x w"
  by (simp add: pitch_def)

locale neon_row_scaler = row_scaler N line + c: row_scaler N cline for N line cline
begin

lemma neon_draws:
  assumes "N * sw \<le> pitch dp (sw * 2 * N) div 2"
  shows "scale_line_n16 N line (scale_c16 N cline) M src dst sw sh sp dp s d
    = picture N sw M (pitch dp (sw * 2 * N) div 2) (pitch sp (sw * 2) div 2) same sh s src dst d"
proof (cases "sw = 0 \<or> sh = 0 \<or> M = 0")
  case True
  then show ?thesis by (auto simp: scale_line_n16_def picture_def)
next
  case False
  then have "0 < N * sw" using N_pos by simp
  then have "0 < pitch dp (sw * 2 * N) div 2" using assms by linarith
  then show ?thesis
    using False assms N_pos rows_drawn [OF _ _ assms] c.c_draws [of sw "pitch dp (sw * 2 * N)" M src dst sh "pitch sp (sw * 2)"]
    by (simp add: scale_line_n16_def Let_def copy_rows_neon_eq pitch_again)
qed

end

locale block_scaler = c: row_scaler N cline for N cline +
  fixes blocks :: "nat \<Rightarrow> pixels \<Rightarrow> nat \<Rightarrow> nat list \<Rightarrow> pixels \<Rightarrow> nat \<times> nat list \<times> pixels"
  assumes blocks: "N * sw \<le> dpx \<Longrightarrow> snd (snd (blocks sw s q (map (\<lambda>i. p + i * dpx) [0..<N]) d)) = band N sw N dpx same s q p d"
begin

lemma blocks_draw:
  assumes "N * sw \<le> pitch dp (sw * 2 * N) div 2"
  shows "scale_n16 N blocks (scale_c16 N cline) src dst sw sh sp dp s d
    = picture N sw N (pitch dp (sw * 2 * N) div 2) (pitch sp (sw * 2) div 2) same sh s src dst d"
proof (cases "sw = 0 \<or> sh = 0")
  case True
  then show ?thesis by (auto simp: scale_n16_def picture_def)
next
  case False
  then have "0 < N * sw" using c.N_pos by simp
  then have pos: "0 < pitch dp (sw * 2 * N) div 2" using assms by linarith
  show ?thesis
    using False assms c.N_pos row_loop_picture [OF pos c.N_pos blocks [OF assms]]
      c.c_draws [of sw "pitch dp (sw * 2 * N)" N src dst sh "pitch sp (sw * 2)"]
    by (simp add: scale_n16_def Let_def pitch_again)
qed

end

interpretation c2: row_scaler 2 "line_c16 2 words2 1 False"
  by unfold_locales (simp_all add: line_c16_row words_halves)

interpretation c3: row_scaler 3 "line_c16 3 words3 1 True"
  by unfold_locales (simp_all add: line_c16_row words_halves)

interpretation c4: row_scaler 4 "line_c16 4 words4 2 False"
  by unfold_locales (simp_all add: line_c16_row words_halves)

interpretation c5: row_scaler 5 "line_c16 5 words5 2 True"
  by unfold_locales (simp_all add: line_c16_row words_halves)

interpretation c6: row_scaler 6 "line_c16 6 words6 3 False"
  by unfold_locales (simp_all add: line_c16_row words_halves)

lemma neon_line_cols:
  assumes "0 < N" and "0 < w" and "\<And>ps. length ps = w \<Longrightarrow> blk ps = concat (map (replicate N) ps)"
    and "\<And>ps. length ps = 1 \<Longrightarrow> rest ps = concat (map (replicate N) ps)" and "N * sw \<le> dpx"
  shows "snd (snd (neon_line blk w rest sw s q (map (\<lambda>i. p + i * dpx) [0..<M]) d)) = cols N sw M dpx 0 s q p d"
proof -
  let ?k = "w * (sw div w)" and ?m = "sw mod w"
  have sw: "?k + ?m = sw" by simp
  have fits: "0 + N * ?k \<le> dpx" using assms(5) order_trans [OF mult_le_mono2 [of ?k sw N]] sw by simp
  have fits': "(0 + N * ?k) + N * (1 * ?m) \<le> dpx" using assms(5) by (simp flip: distrib_left)
  have "neon_loop blk w (sw div w) s (q, map (\<lambda>i. p + i * dpx) [0..<M], d)
      = (q + ?k, map (\<lambda>i. p + (0 + N * ?k) + i * dpx) [0..<M], cols N ?k M dpx 0 s q p d)"
    using neon_loop_cols [OF assms(1,3) fits, of s q p M d] by simp
  then show ?thesis
    using neon_loop_cols [OF assms(1,4) fits', of s "q + ?k" p M "cols N ?k M dpx 0 s q p d"] cols_append [OF assms(1), of ?m M dpx 0 ?k s q p d]
    by (simp add: neon_line_def)
qed

lemma neon_line2_cols:
  assumes "2 * sw \<le> dpx"
  shows "snd (snd (neon_line2 sw s q (map (\<lambda>i. p + i * dpx) [0..<M]) d)) = cols 2 sw M dpx 0 s q p d"
proof -
  let ?k = "32 * (sw div 32)"
  define j where "j = (if odd (sw * 2 div 32) then ?k + 16 else ?k)"
  have t: "sw * 2 div 32 = sw div 16" "sw div 32 = sw div 16 div 2" by (simp_all add: div_mult2_eq [of sw 16 2, simplified])
  have "odd (sw div 16) \<Longrightarrow> 32 * (sw div 16 div 2) + 16 = 16 * (sw div 16)" by (auto elim!: oddE)
  then have j: "j \<le> sw" using times_div_less_eq_dividend [of 16 sw] times_div_less_eq_dividend [of 32 sw] by (simp add: j_def t)
  have fits: "0 + 2 * ?k \<le> dpx" using assms by linarith
  have first: "neon_loop neon2_32 32 (sw div 32) s (q, map (\<lambda>i. p + i * dpx) [0..<M], d)
      = (q + ?k, map (\<lambda>i. p + 2 * ?k + i * dpx) [0..<M], cols 2 ?k M dpx 0 s q p d)"
    using neon_loop_cols [OF _ neon2_32_copies fits, of s q p M d] by simp
  have second: "(if odd (sw * 2 div 32)
        then neon_loop neon2_16 16 1 s (q + ?k, map (\<lambda>i. p + 2 * ?k + i * dpx) [0..<M], cols 2 ?k M dpx 0 s q p d)
        else (q + ?k, map (\<lambda>i. p + 2 * ?k + i * dpx) [0..<M], cols 2 ?k M dpx 0 s q p d))
      = (q + j, map (\<lambda>i. p + 2 * j + i * dpx) [0..<M], cols 2 j M dpx 0 s q p d)"
  proof (cases "odd (sw * 2 div 32)")
    case True
    then have jk: "j = ?k + 16" by (simp add: j_def)
    then have "2 * ?k + 2 * (16 * 1) \<le> dpx" using j assms by linarith
    from neon_loop_cols [OF _ neon2_16_copies this, of s "q + ?k" p M] cols_append [of 2 16 M dpx 0 ?k s q p d] True jk
    show ?thesis by (simp add: algebra_simps)
  qed (simp add: j_def)
  have "2 * j + 2 * (1 * (sw - j)) \<le> dpx" using assms j by linarith
  from neon_loop_cols [OF _ rest_copies(1) this, of s "q + j" p M "cols 2 j M dpx 0 s q p d"]
  have third: "snd (snd (neon_loop rest2 1 (q + sw - (q + j)) s (q + j, map (\<lambda>i. p + 2 * j + i * dpx) [0..<M], cols 2 j M dpx 0 s q p d)))
      = cols 2 sw M dpx 0 s q p d"
    using cols_append [of 2 "sw - j" M dpx 0 j s q p d] j by simp
  show ?thesis
  proof (cases "q + ?k = q + sw")
    case True
    then show ?thesis using first by (simp add: neon_line2_def)
  next
    case False
    then show ?thesis unfolding neon_line2_def first Let_def prod.case using second third by simp
  qed
qed

interpretation n5: neon_row_scaler 5 scale5x_n16line "line_c16 5 words5 2 True"
proof unfold_locales
  show "scale5x_n16line sw s q p d = row_put 5 sw s q p d" for sw s q p d
    using neon_line_cols [OF _ _ neon5_8_copies rest_copies(4), where sw = sw and dpx = "5 * sw + 1" and s = s and q = q and p = p and M = 1 and d = d]
      band_row_put [of 5 sw "5 * sw + 1" s q p d]
    by (simp add: scale5x_n16line_def cols_band)
qed simp

interpretation n6: neon_row_scaler 6 scale6x_n16line "line_c16 6 words6 3 False"
proof unfold_locales
  show "scale6x_n16line sw s q p d = row_put 6 sw s q p d" for sw s q p d
    using neon_line_cols [OF _ _ neon6_8_copies rest_copies(5), where sw = sw and dpx = "6 * sw + 1" and s = s and q = q and p = p and M = 1 and d = d]
      band_row_put [of 6 sw "6 * sw + 1" s q p d]
    by (simp add: scale6x_n16line_def cols_band)
qed simp

interpretation b2: block_scaler 2 "line_c16 2 words2 1 False" neon_line2
  by unfold_locales (unfold cols_band [symmetric], rule neon_line2_cols)

interpretation b3: block_scaler 3 "line_c16 3 words3 1 True" "neon_line neon3_16 16 rest3"
  by unfold_locales (unfold cols_band [symmetric], rule neon_line_cols [OF _ _ neon3_16_copies rest_copies(2)], simp_all)

interpretation b4: block_scaler 4 "line_c16 4 words4 2 False" "neon_line neon4_16 16 rest4"
  by unfold_locales (unfold cols_band [symmetric], rule neon_line_cols [OF _ _ neon4_16_copies rest_copies(3)], simp_all)

subsection \<open>Copying without enlarging\<close>

lemma picture_whole:
  assumes "0 < sw"
  shows "row_put 1 (sw * sh) s q p d = picture 1 sw 1 sw sw same sh s q p d"
proof
  fix a
  have "(a - p) div sw * sw + (a - p) mod sw = a - p" by simp
  moreover have "a - p < sw * sh \<longleftrightarrow> (a - p) div sw < sh" using assms by (simp add: div_less_iff_less_mult mult.commute)
  ultimately show "row_put 1 (sw * sh) s q p d a = picture 1 sw 1 sw sw same sh s q p d a"
    using assms by (auto simp: row_put_def picture_def Let_def add.assoc)
qed

lemma scale1x_c16_draws:
  assumes "sw \<le> pitch dp (sw * 2) div 2"
  shows "scale1x_c16 M src dst sw sh sp dp s d = picture 1 sw M (pitch dp (sw * 2) div 2) (pitch sp (sw * 2) div 2) same sh s src dst d"
proof (cases "sw = 0 \<or> sh = 0 \<or> M = 0")
  case True
  then show ?thesis by (auto simp: scale1x_c16_def picture_def)
next
  case False
  let ?dp = "pitch dp (sw * 2)" and ?sp = "pitch sp (sw * 2)"
  have pos: "0 < ?dp div 2" "0 < M" using False assms by linarith+
  have "copies M ?dp (sw * 2) s q p d = band 1 sw M (?dp div 2) same s q p d" for q p d
    using copies_band [OF pos(1) assms, of "sw * 2" M s q p 0 d] by simp
  from row_loop_picture [OF pos this]
  have "row_loop (copies M ?dp (sw * 2) s) (?sp div 2) (M * (?dp div 2)) sh src dst d
      = picture 1 sw M (?dp div 2) (?sp div 2) same sh s src dst d" .
  moreover have "\<not> ?dp < sw * 2" using assms by linarith
  moreover have "sw * 2 = ?sp \<and> ?sp = ?dp \<Longrightarrow> memcpy d dst s src (?sp * sh) = picture 1 sw 1 (?dp div 2) (?sp div 2) same sh s src dst d"
  proof -
    assume "sw * 2 = ?sp \<and> ?sp = ?dp"
    then have "?sp div 2 = sw" "?dp div 2 = sw" "?sp * sh div 2 = sw * sh" by (metis mult.assoc mult.commute nonzero_mult_div_cancel_left zero_neq_numeral)+
    then show ?thesis using picture_whole [of sw sh s src dst d] False by (simp add: memcpy_row_put)
  qed
  ultimately show ?thesis using False by (auto simp: scale1x_c16_def Let_def)
qed

lemma scale1x1_n16_eq: "scale1x1_n16 src dst sw sh sp dp s d = scale1x_c16 1 src dst sw sh sp dp s d"
proof (cases "sw = 0 \<or> sh = 0")
  case False
  have "copies 1 dp swl s = (\<lambda>q p d. memcpy d p s q swl)" for dp swl by (simp add: fun_eq_iff)
  moreover have "scale1x_c16 1 src dst sw sh (pitch sp (sw * 2)) (pitch dp (sw * 2 * 1)) s d = scale1x_c16 1 src dst sw sh sp dp s d"
    using False by (simp add: scale1x_c16_def pitch_again)
  ultimately show ?thesis
  proof (cases "neon_unaligned src dst (pitch sp (sw * 2)) (pitch dp (sw * 2 * 1))")
    case unaligned: False
    assume "\<And>dp swl. copies 1 dp swl s = (\<lambda>q p d. memcpy d p s q swl)"
    then show ?thesis using False unaligned by (simp add: scale1x1_n16_def scale1x_c16_def memcpy_neon_eq Let_def)
  qed (use False in \<open>simp add: scale1x1_n16_def Let_def\<close>)
qed (auto simp: scale1x1_n16_def scale1x_c16_def)

subsection \<open>Effects\<close>

definition shade :: "nat \<Rightarrow> nat \<Rightarrow> u16 \<Rightarrow> u16" where
  \<comment> \<open>every channel times \<open>n / m\<close>, rounded down\<close>
  "shade n m c = push_bit 11 (of_nat (cR c * n div m)) OR push_bit 5 (of_nat (cG c * n div m)) OR of_nat (cB c * n div m)"

definition effect_colour :: "effect \<Rightarrow> nat \<Rightarrow> nat \<Rightarrow> nat \<Rightarrow> u16 \<Rightarrow> u16" where
  \<comment> \<open>the colour at row \<open>i\<close> and column \<open>j\<close> of the square drawn for a pixel\<close>
  "effect_colour e n i j c =
     (if e = EFFECT_LINE \<and> n = 2 then (if i = 1 then shade 3 5 c else c)
      else if e = EFFECT_LINE \<and> n = 3 then (if i = 0 then shade 3 5 c else c)
      else if e = EFFECT_LINE \<and> n = 4 then (if odd i then shade 3 5 c else c)
      else if e = EFFECT_GRID \<and> n = 2 then (if i = 1 \<and> j = 1 then c else shade 3 4 c)
      else if e = EFFECT_GRID \<and> n = 3 then
        (if i = 2 then (if j = 0 then shade 2 5 c else shade 3 5 c) else if j = 0 then shade 3 5 c else c)
      else c)"

lemma channels_less: "cR c < 64" "cG c < 64" "cB c < 64"
proof -
  have "unat (c AND w) \<le> unat w" for w :: u16 by (simp add: word_and_le1 flip: word_le_nat_alt)
  from this [of "0xf800"] this [of "0x7e0"] this [of "0x1f"]
  show "cR c < 64" "cG c < 64" "cB c < 64"
    unfolding cR_def cG_def cB_def unat_drop_bit_eq by (simp_all add: drop_bit_eq_div div_less_iff_less_mult)
qed

lemma weight_tables:
  "v < 64 \<Longrightarrow> weight_2_5 ! v = v * 2 div 5" "v < 64 \<Longrightarrow> weight_3_5 ! v = v * 3 div 5" "v < 64 \<Longrightarrow> weight_3_4 ! v = v * 3 div 4"
proof -
  have "list_all2 (\<lambda>t v. t = v * 2 div 5) weight_2_5 [0..<64]" "list_all2 (\<lambda>t v. t = v * 3 div 5) weight_3_5 [0..<64]"
    "list_all2 (\<lambda>t v. t = v * 3 div 4) weight_3_4 [0..<64]" by code_simp+
  then show "v < 64 \<Longrightarrow> weight_2_5 ! v = v * 2 div 5" "v < 64 \<Longrightarrow> weight_3_5 ! v = v * 3 div 5" "v < 64 \<Longrightarrow> weight_3_4 ! v = v * 3 div 4"
    by (auto simp: list_all2_conv_all_nth)
qed

lemma weights_shade: "Weight2_3 c = shade 2 5 c" "Weight3_2 c = shade 3 5 c" "Weight3_1 c = shade 3 4 c"
  by (simp_all add: Weight2_3_def Weight3_2_def Weight3_1_def weighted_def shade_def weight_tables channels_less)

definition cell :: "nat \<Rightarrow> nat \<Rightarrow> (nat \<Rightarrow> nat \<Rightarrow> u16 \<Rightarrow> u16) \<Rightarrow> nat \<Rightarrow> u16 \<Rightarrow> pixels \<Rightarrow> pixels" where
  "cell N dpx f p c d = (\<lambda>a. if p \<le> a \<and> (a - p) div dpx < N \<and> (a - p) mod dpx < N then f ((a - p) div dpx) ((a - p) mod dpx) c else d a)"

lemma cell_position:
  assumes "(c :: nat) < n" and "j < n"
  shows "p + (r * n + c) = p + (i * n + j) \<longleftrightarrow> r = i \<and> c = j"
proof
  assume "p + (r * n + c) = p + (i * n + j)"
  then have "(r * n + c) div n = (i * n + j) div n" "(r * n + c) mod n = (i * n + j) mod n" by simp_all
  then show "r = i \<and> c = j" using assms by simp
qed simp

lemma fold_writes:
  fixes p n :: nat and d :: pixels
  assumes "\<forall>((i, j), c) \<in> set ws. j < n" and "0 < n"
  shows "fold (\<lambda>(i, c) d. d(p + i := c)) (map (\<lambda>((i, j), c). (i * n + j, c)) ws) d a
    = (if p \<le> a then (case map_of (rev ws) ((a - p) div n, (a - p) mod n) of Some c \<Rightarrow> c | None \<Rightarrow> d a) else d a)"
  using assms(1)
proof (induction ws rule: rev_induct)
  case (snoc w ws)
  obtain i j c where w: "w = ((i, j), c)" by (metis surj_pair)
  have "a = p + (i * n + j) \<longleftrightarrow> p \<le> a \<and> i = (a - p) div n \<and> j = (a - p) mod n"
  proof (cases "p \<le> a")
    case True
    then obtain r k where rk: "a = p + r * n + k" "(a - p) div n = r" "(a - p) mod n = k" by (rule row_col)
    have "k < n" using rk(3) assms(2) by auto
    then show ?thesis using cell_position [of k n j p r i] snoc.prems w rk True by (auto simp: add.assoc)
  qed auto
  then show ?case using snoc w by auto
qed simp

lemma cell_of_writes:
  assumes "writes n c = map (\<lambda>((i, j), c). (i * n + j, c)) ws" and "\<forall>((i, j), c) \<in> set ws. j < n" and "0 < n"
    and "\<And>r k. map_of (rev ws) (r, k) = (if r < N \<and> k < N then Some (f r k c) else None)"
  shows "fold (\<lambda>(i, c) d. d(p + i := c)) (writes n c) d = cell N n f p c d"
  by (rule ext) (simp add: assms(1,4) fold_writes [OF assms(2,3)] cell_def)

lemma line2_cell: "2 \<le> n \<Longrightarrow> fold (\<lambda>(i, c) d. d(p + i := c)) (line2_writes n c) d = cell 2 n (effect_colour EFFECT_LINE 2) p c d"
  by (rule cell_of_writes [where ws = "let c2 = Weight3_2 c in [((0, 0), c), ((0, 1), c), ((1, 0), c2), ((1, 1), c2)]"])
    (auto simp: line2_writes_def Let_def weights_shade effect_colour_def)

lemma grid2_cell: "2 \<le> n \<Longrightarrow> fold (\<lambda>(i, c) d. d(p + i := c)) (grid2_writes n c) d = cell 2 n (effect_colour EFFECT_GRID 2) p c d"
  by (rule cell_of_writes [where ws = "let c2 = Weight3_1 c in [((0, 0), c2), ((0, 1), c2), ((1, 0), c2), ((1, 1), c)]"])
    (auto simp: grid2_writes_def Let_def weights_shade effect_colour_def)

lemma cases_4:
  obtains "r = 0" | "r = 1" | "r = 2" | "r = 3" | "4 \<le> (r :: nat)"
  by linarith

lemma line3_cell: "3 \<le> n \<Longrightarrow> fold (\<lambda>(i, c) d. d(p + i := c)) (line3_writes n c) d = cell 3 n (effect_colour EFFECT_LINE 3) p c d"
proof (rule cell_of_writes [where ws = "let c2 = Weight3_2 c in
    [((0, 0), c2), ((0, 1), c2), ((0, 2), c2), ((1, 0), c), ((1, 1), c), ((1, 2), c), ((2, 0), c), ((2, 1), c), ((2, 2), c)]"], goal_cases)
  case (4 r k)
  show ?case by (cases r rule: cases_4; cases k rule: cases_4) (simp_all add: Let_def weights_shade effect_colour_def)
qed (auto simp: line3_writes_def Let_def mult.commute)

lemma grid3_cell: "3 \<le> n \<Longrightarrow> fold (\<lambda>(i, c) d. d(p + i := c)) (grid3_writes n c) d = cell 3 n (effect_colour EFFECT_GRID 3) p c d"
proof (rule cell_of_writes [where ws = "let c2 = Weight3_2 c; c3 = Weight2_3 c in
    [((0, 0), c2), ((0, 1), c), ((0, 2), c), ((1, 0), c2), ((1, 1), c), ((1, 2), c), ((2, 0), c3), ((2, 1), c2), ((2, 2), c2)]"], goal_cases)
  case (4 r k)
  show ?case by (cases r rule: cases_4; cases k rule: cases_4) (simp_all add: Let_def weights_shade effect_colour_def)
qed (auto simp: grid3_writes_def Let_def mult.commute)

lemma line4_cell: "4 \<le> n \<Longrightarrow> fold (\<lambda>(i, c) d. d(p + i := c)) (line4_writes n c) d = cell 4 n (effect_colour EFFECT_LINE 4) p c d"
proof (rule cell_of_writes [where ws = "let c2 = Weight3_2 c in
    [((0, 0), c), ((0, 1), c), ((0, 2), c), ((0, 3), c), ((1, 0), c2), ((1, 1), c2), ((1, 2), c2), ((1, 3), c2),
     ((2, 0), c), ((2, 1), c), ((2, 2), c), ((2, 3), c), ((3, 0), c2), ((3, 1), c2), ((3, 2), c2), ((3, 3), c2)]"], goal_cases)
  case (4 r k)
  show ?case by (cases r rule: cases_4; cases k rule: cases_4) (simp_all add: Let_def weights_shade effect_colour_def)
qed (auto simp: line4_writes_def Let_def mult.commute)

lemma cell_shift:
  assumes "off + N \<le> dpx" and "0 < N"
  shows "cell N dpx f (p + off) c d = (\<lambda>a. if p \<le> a \<and> (a - p) div dpx < N \<and> off \<le> (a - p) mod dpx \<and> (a - p) mod dpx < off + N
    then f ((a - p) div dpx) ((a - p) mod dpx - off) c else d a)"
proof
  fix a
  show "cell N dpx f (p + off) c d a = (if p \<le> a \<and> (a - p) div dpx < N \<and> off \<le> (a - p) mod dpx \<and> (a - p) mod dpx < off + N
    then f ((a - p) div dpx) ((a - p) mod dpx - off) c else d a)"
  proof (cases "p \<le> a")
    case True
    then obtain r k where rk: "a = p + r * dpx + k" "(a - p) div dpx = r" "(a - p) mod dpx = k" by (rule row_col)
    have k: "k < dpx" using rk(3) assms by auto
    show ?thesis
    proof (cases "off \<le> k")
      case True
      then have "a - (p + off) = r * dpx + (k - off)" using rk(1) by simp
      moreover have "k - off < dpx" using k by simp
      ultimately have "(a - (p + off)) div dpx = r" "(a - (p + off)) mod dpx = k - off" by simp_all
      then show ?thesis using True rk \<open>p \<le> a\<close> by (auto simp: cell_def)
    next
      case low: False
      have "p + off \<le> a \<Longrightarrow> N \<le> (a - (p + off)) mod dpx"
      proof -
        assume "p + off \<le> a"
        then have "r \<noteq> 0" using low rk(1) by (cases r) auto
        then obtain r' where "r = Suc r'" by (cases r) auto
        then have "a - (p + off) = r' * dpx + (dpx + k - off)" using rk(1) assms(1) by simp
        moreover have "dpx + k - off < dpx" using low assms by linarith
        ultimately have "(a - (p + off)) mod dpx = dpx + k - off" by simp
        then show ?thesis using assms(1) by linarith
      qed
      then show ?thesis using low rk(3) by (auto simp: cell_def)
    qed
  qed (auto simp: cell_def)
qed

lemma effect_row_part:
  assumes "0 < N" and "\<And>p c d. fold (\<lambda>(i, c) d. d(p + i := c)) (writes c) d = cell N dpx f p c d" and "off + N * sw \<le> dpx"
  shows "effect_row N writes sw s q (p + off) d
    = (\<lambda>a. if p \<le> a \<and> (a - p) div dpx < N \<and> off \<le> (a - p) mod dpx \<and> (a - p) mod dpx < off + N * sw
           then f ((a - p) div dpx) (((a - p) mod dpx - off) mod N) (s (q + ((a - p) mod dpx - off) div N)) else d a)"
  using assms(3)
proof (induction sw arbitrary: q off d)
  case 0
  then show ?case by (auto simp: fun_eq_iff)
next
  case (Suc sw)
  have "off + N \<le> dpx" "off + N + N * sw \<le> dpx" using Suc.prems by simp_all
  note first = cell_shift [OF this(1) assms(1)] and IH = Suc.IH [OF this(2)]
  have "(x - off) mod N = (x - (off + N)) mod N" "(x - off) div N = Suc ((x - (off + N)) div N)" if "off + N \<le> x" for x
  proof -
    have "x - off = N + (x - (off + N))" using that by simp
    then show "(x - off) mod N = (x - (off + N)) mod N" "(x - off) div N = Suc ((x - (off + N)) div N)"
      using assms(1) by (metis mod_add_self1, metis div_add_self1 add.commute plus_1_eq_Suc not_gr_zero)
  qed
  moreover have "(x - off) mod N = x - off" "(x - off) div N = 0" if "x < off + N" "off \<le> x" for x using that by simp_all
  moreover have "effect_row N writes (Suc sw) s q (p + off) d = effect_row N writes sw s (q + 1) (p + (off + N)) (cell N dpx f (p + off) (s q) d)"
    by (simp only: effect_row.simps assms(2) add.assoc [of p off N])
  ultimately show ?case
    using assms(1) unfolding IH first by (auto simp: fun_eq_iff not_less)
qed

lemma effect_row_band:
  assumes "0 < N" and "\<And>p c d. fold (\<lambda>(i, c) d. d(p + i := c)) (writes c) d = cell N dpx f p c d" and "N * sw \<le> dpx"
  shows "effect_row N writes sw s q p d = band N sw N dpx f s q p d"
  using effect_row_part [OF assms(1,2), where off = 0 and sw = sw] assms(3) by (simp add: band_def cong: if_cong)

lemma scale_effect_draws:
  assumes "0 < N" and "\<And>p c d. N \<le> dp div 2 \<Longrightarrow> fold (\<lambda>(i, c) d. d(p + i := c)) (writes (dp div 2) c) d = cell N (dp div 2) f p c d"
    and "N * sw \<le> dp div 2" and "even dp"
  shows "scale_effect N writes src dst sw sh sp dp s d = picture N sw N (dp div 2) (sp div 2) f sh s src dst d"
proof (cases "sw = 0")
  case True
  have "row_loop (\<lambda>q p d. d) x y n q p d = d" for x y n q p and d :: pixels by (induction n arbitrary: q p) simp_all
  then show ?thesis using True by (simp add: scale_effect_def picture_def)
next
  case False
  then have wide: "N \<le> dp div 2" using assms(3) by (cases sw) auto
  have step: "effect_row N (writes (dp div 2)) sw s q p d = band N sw N (dp div 2) f s q p d" for q p d
    by (rule effect_row_band [OF assms(1) assms(2) [OF wide] assms(3)])
  have "dp * N div 2 = N * (dp div 2)" using assms(4) by (auto elim!: evenE)
  then show ?thesis using row_loop_picture [OF _ assms(1) step] wide assms(1) by (simp add: scale_effect_def)
qed

subsection \<open>Properties\<close>

lemma scalers_draw:
  assumes "e = EFFECT_NONE \<or> e = EFFECT_GRID \<and> n \<noteq> 2 \<and> n \<noteq> 3" and "1 \<le> n" and "n \<le> 6" and "n * sw \<le> pitch dp (sw * 2 * n) div 2"
  shows "PLAT_getScaler e n src dst sw sh sp dp s d
      = picture n sw n (pitch dp (sw * 2 * n) div 2) (pitch sp (sw * 2) div 2) same sh s src dst d
    \<and> PLAT_getScaler e n src dst sw sh sp dp s d
      = (if n = 1 then scale1x_c16 else if n = 2 then scale2x_c16 else if n = 3 then scale3x_c16 else if n = 4 then scale4x_c16
         else if n = 5 then scale5x_c16 else scale6x_c16) n src dst sw sh sp dp s d"
proof -
  have e: "e \<noteq> EFFECT_LINE" "\<not> (e = EFFECT_GRID \<and> n = 3)" "\<not> (e = EFFECT_GRID \<and> n = 2)" using assms(1) by auto
  consider "n = 1" | "n = 2" | "n = 3" | "n = 4" | "n = 5" | "n = 6" using assms(2,3) by linarith
  then show ?thesis
  proof cases
    case 1
    then show ?thesis using e assms(4) scale1x_c16_draws [of sw dp 1] by (simp add: PLAT_getScaler_def scale1x1_n16_eq)
  next
    case 2
    then show ?thesis using e assms(4) b2.blocks_draw [of sw dp src dst sh sp s d] c2.c_draws [of sw dp 2 src dst sh sp s d]
      by (simp add: PLAT_getScaler_def scale2x2_n16_def scale2x_c16_def)
  next
    case 3
    then show ?thesis using e assms(4) b3.blocks_draw [of sw dp src dst sh sp s d] c3.c_draws [of sw dp 3 src dst sh sp s d]
      by (simp add: PLAT_getScaler_def scale3x3_n16_def scale3x_c16_def)
  next
    case 4
    then show ?thesis using e assms(4) b4.blocks_draw [of sw dp src dst sh sp s d] c4.c_draws [of sw dp 4 src dst sh sp s d]
      by (simp add: PLAT_getScaler_def scale4x4_n16_def scale4x_c16_def)
  next
    case 5
    then show ?thesis using e assms(4) n5.neon_draws [of sw dp 5 src dst sh sp s d] c5.c_draws [of sw dp 5 src dst sh sp s d]
      by (simp add: PLAT_getScaler_def scale5x5_n16_def scale5x_c16_def)
  next
    case 6
    then show ?thesis using e assms(4) n6.neon_draws [of sw dp 6 src dst sh sp s d] c6.c_draws [of sw dp 6 src dst sh sp s d]
      by (simp add: PLAT_getScaler_def scale6x6_n16_def scale6x_c16_def)
  qed
qed

text \<open>C9: the scalers enlarge exactly: for every factor from one to six, whatever the alignment, the NEON code draws each source
  pixel as a square of that size at its place, leaves every other pixel of the screen alone, and agrees
  with the plain C code.\<close>

theorem scalers_enlarge:
  assumes "e = EFFECT_NONE \<or> e = EFFECT_GRID \<and> n \<noteq> 2 \<and> n \<noteq> 3" and "1 \<le> n" and "n \<le> 6" and "n * sw \<le> pitch dp (sw * 2 * n) div 2"
  shows "PLAT_getScaler e n src dst sw sh sp dp s d
      = picture n sw n (pitch dp (sw * 2 * n) div 2) (pitch sp (sw * 2) div 2) same sh s src dst d
    \<and> PLAT_getScaler e n src dst sw sh sp dp s d
      = (if n = 1 then scale1x_c16 else if n = 2 then scale2x_c16 else if n = 3 then scale3x_c16 else if n = 4 then scale4x_c16
         else if n = 5 then scale5x_c16 else scale6x_c16) n src dst sw sh sp dp s d"
  using assms by (rule scalers_draw)

theorem scalers_enlarge_witness:
  "PLAT_getScaler EFFECT_NONE 3 0 0 2 1 0 0 (\<lambda>a. of_nat a + 7) (\<lambda>_. 0) 4 = 8"
  using scalers_enlarge [of EFFECT_NONE 3 2 0 0 0 1 0 "\<lambda>a. of_nat a + 7" "\<lambda>_. 0"]
  by (simp add: picture_def pitch_def)

lemma effects_draw:
  assumes "e = EFFECT_LINE \<and> n \<in> {2, 3, 4} \<or> e = EFFECT_GRID \<and> n \<in> {2, 3}" and "even dp" and "n * sw \<le> dp div 2"
  shows "PLAT_getScaler e n src dst sw sh sp dp s d = picture n sw n (dp div 2) (sp div 2) (effect_colour e n) sh s src dst d"
proof -
  have draws: "0 < N \<Longrightarrow> (\<And>p c d. N \<le> dp div 2 \<Longrightarrow> fold (\<lambda>(i, c) d. d(p + i := c)) (writes (dp div 2) c) d = cell N (dp div 2) f p c d)
    \<Longrightarrow> N * sw \<le> dp div 2 \<Longrightarrow> scale_effect N writes src dst sw sh sp dp s d = picture N sw N (dp div 2) (sp div 2) f sh s src dst d" for N writes f
    by (rule scale_effect_draws) (use assms(2) in auto)
  consider "e = EFFECT_LINE" "n = 2" | "e = EFFECT_LINE" "n = 3" | "e = EFFECT_LINE" "n = 4" | "e = EFFECT_GRID" "n = 2" | "e = EFFECT_GRID" "n = 3"
    using assms(1) by auto
  then show ?thesis
  proof cases
    case 1
    then show ?thesis using draws [of 2 line2_writes "effect_colour e 2"] line2_cell assms(3) by (simp add: PLAT_getScaler_def scale2x_line_def)
  next
    case 2
    then show ?thesis using draws [of 3 line3_writes "effect_colour e 3"] line3_cell assms(3) by (simp add: PLAT_getScaler_def scale3x_line_def)
  next
    case 3
    then show ?thesis using draws [of 4 line4_writes "effect_colour e 4"] line4_cell assms(3) by (simp add: PLAT_getScaler_def scale4x_line_def)
  next
    case 4
    then show ?thesis using draws [of 2 grid2_writes "effect_colour e 2"] grid2_cell assms(3) by (simp add: PLAT_getScaler_def scale2x_grid_def)
  next
    case 5
    then show ?thesis using draws [of 3 grid3_writes "effect_colour e 3"] grid3_cell assms(3) by (simp add: PLAT_getScaler_def scale3x_grid_def)
  qed
qed

text \<open>C27: the effects darken exactly: the line and grid scalers draw each source pixel as a square in which the rows and
  columns of the effect have every colour channel multiplied by three fifths, three quarters or two
  fifths and rounded down, so the tables are the divisions they replace.\<close>

theorem effects_shade:
  assumes "e = EFFECT_LINE \<and> n \<in> {2, 3, 4} \<or> e = EFFECT_GRID \<and> n \<in> {2, 3}" and "even dp" and "n * sw \<le> dp div 2"
  shows "PLAT_getScaler e n src dst sw sh sp dp s d = picture n sw n (dp div 2) (sp div 2) (effect_colour e n) sh s src dst d"
  using assms by (rule effects_draw)

theorem effects_shade_witness:
  "PLAT_getScaler EFFECT_LINE 2 0 0 1 1 2 4 (\<lambda>_. 0xFFFF) (\<lambda>_. 0) 2 = shade 3 5 0xFFFF"
  using effects_shade [of EFFECT_LINE 2 4 1 0 0 1 2 "\<lambda>_. 0xFFFF" "\<lambda>_. 0"] by (simp add: picture_def effect_colour_def)

definition scaler_colour :: "effect \<Rightarrow> nat \<Rightarrow> nat \<Rightarrow> nat \<Rightarrow> u16 \<Rightarrow> u16" where
  "scaler_colour e n = (if e = EFFECT_LINE \<and> n \<in> {2, 3, 4} \<or> e = EFFECT_GRID \<and> n \<in> {2, 3} then effect_colour e n else same)"

lemma getScaler_draws:
  assumes "1 \<le> n" and "n \<le> 6" and "e = EFFECT_LINE \<longrightarrow> n \<in> {2, 3, 4}" and "even dp" and "0 < dp" and "0 < sp" and "n * sw \<le> dp div 2"
  shows "PLAT_getScaler e n src dst sw sh sp dp s d = picture n sw n (dp div 2) (sp div 2) (scaler_colour e n) sh s src dst d"
proof (cases "e = EFFECT_LINE \<and> n \<in> {2, 3, 4} \<or> e = EFFECT_GRID \<and> n \<in> {2, 3}")
  case True
  then show ?thesis using effects_draw [OF True assms(4,7)] by (simp only: scaler_colour_def if_True)
next
  case False
  then have "e = EFFECT_NONE \<or> e = EFFECT_GRID \<and> n \<noteq> 2 \<and> n \<noteq> 3" using assms(3) by (cases e) auto
  then show ?thesis using scalers_draw [OF _ assms(1,2), of e sw dp src dst sh sp s d] assms(5-7) False
    by (simp only: scaler_colour_def pitch_def if_False) simp
qed

lemma line1_loop:
  fixes sp dp :: nat
  assumes "sw \<le> dp" and "step = (\<lambda>q p d. store (p + dp) (map (\<lambda>x. Weight3_1 (s (q + sp + x))) [0..<sw]) (row_put 1 sw s q p d))" and "x < dp"
  shows "row_loop step sp dp n q p d (p + (k * dp + x))
    = (if x < sw \<and> k < n then s (q + k * sp + x) else if x < sw \<and> k = n \<and> 0 < n then Weight3_1 (s (q + n * sp + x)) else d (p + (k * dp + x)))"
proof (induction n arbitrary: q p d k)
  case (Suc n)
  have step: "step q p d (p + (k * dp + x)) = (if x < sw \<and> k = 1 then Weight3_1 (s (q + sp + x)) else if x < sw \<and> k = 0 then s (q + x) else d (p + (k * dp + x)))"
  proof -
    have "p + dp \<le> p + (k * dp + x) \<and> p + (k * dp + x) < p + dp + sw \<longleftrightarrow> x < sw \<and> k = 1"
      "p \<le> p + (k * dp + x) \<and> p + (k * dp + x) < p + 1 * sw \<longleftrightarrow> x < sw \<and> k = 0"
      using assms(1,3) by (cases k; cases "k - 1"; auto)+
    then show ?thesis by (auto simp: assms(2) store_apply row_put_def)
  qed
  show ?case
  proof (cases k)
    case 0
    have "row_loop step sp dp n (q + sp) (p + dp) d' (p + x) = d' (p + x)" for d'
    proof -
      have "row_loop step sp dp m q' p' d' a = d' a" if "a < p'" for m q' p' d' a
        using that by (induction m arbitrary: q' p' d') (auto simp: assms(2) store_apply row_put_def)
      then show ?thesis using assms(3) by simp
    qed
    then show ?thesis using 0 step by simp
  next
    case (Suc k')
    have "p + (k * dp + x) = p + dp + (k' * dp + x)" using Suc by simp
    then show ?thesis using Suc.IH [of "q + sp" "p + dp" "step q p d" k'] step Suc by (auto simp: algebra_simps)
  qed
qed simp

text \<open>The line effect at the original size does not do what its name says: the strides are two rows each, so the
  odd rows of the picture are never drawn, the even ones are plain copies, and the only darkened row
  is drawn below the picture.\<close>

theorem scale1x_line_rows:
  assumes "even sp" and "even dp" and "2 * sw \<le> dp" and "x < sw" and "0 < sh"
  shows "let d' = PLAT_getScaler EFFECT_LINE 1 src dst sw sh sp dp s d; at = (\<lambda>y. dst + y * (dp div 2) + x) in
     (\<forall>y. odd y \<longrightarrow> d' (at y) = d (at y)) \<and> (\<forall>y < sh. even y \<longrightarrow> d' (at y) = s (src + y * (sp div 2) + x))
     \<and> (\<exists>y \<ge> sh. d' (at y) = shade 3 4 (s (src + y * (sp div 2) + x)))"
proof -
  obtain P Q where PQ: "dp = 2 * P" "sp = 2 * Q" using assms(1,2) by (auto elim!: evenE)
  let ?n = "(sh + 1) div 2"
  let ?step = "\<lambda>q p d. store (p + dp) (map (\<lambda>x. Weight3_1 (s (q + sp + x))) [0..<sw]) (row_put 1 sw s q p d)"
  have def: "PLAT_getScaler EFFECT_LINE 1 src dst sw sh sp dp s d = row_loop ?step sp dp ?n src dst d"
  proof -
    have "(if sw * 2 < dp then sw * 2 else dp) div 2 = sw" using assms(3) by (cases "sw * 2 < dp") auto
    then show ?thesis by (simp add: PLAT_getScaler_def scale1x_line_def memcpy_row_put Let_def)
  qed
  have cell: "row_loop ?step sp dp ?n src dst d (dst + (k * dp + z))
      = (if z < sw \<and> k < ?n then s (src + k * sp + z) else if z < sw \<and> k = ?n \<and> 0 < ?n then Weight3_1 (s (src + ?n * sp + z)) else d (dst + (k * dp + z)))"
    if "z < dp" for k z using line1_loop [OF _ refl that] assms(3) by simp
  have even: "row_loop ?step sp dp ?n src dst d (dst + (2 * k) * (dp div 2) + x)
      = (if k < ?n then s (src + (2 * k) * (sp div 2) + x) else if k = ?n then shade 3 4 (s (src + (2 * k) * (sp div 2) + x)) else d (dst + (2 * k) * (dp div 2) + x))" for k
    using cell [of x k] assms(3-5) by (auto simp: PQ weights_shade algebra_simps)
  have odd: "row_loop ?step sp dp ?n src dst d (dst + (2 * k + 1) * (dp div 2) + x) = d (dst + (2 * k + 1) * (dp div 2) + x)" for k
    using cell [of "P + x" k] assms(3,4) by (simp add: PQ algebra_simps)
  have "2 * ?n \<ge> sh" by simp
  moreover have "2 * k < sh \<Longrightarrow> k < ?n" for k by simp
  ultimately show ?thesis using even odd unfolding Let_def def by (auto elim!: oddE evenE intro!: exI [of _ "2 * ?n"])
qed

theorem scale1x_line_rows_witness:
  "PLAT_getScaler EFFECT_LINE 1 0 0 1 2 2 2 (\<lambda>_. 5) (\<lambda>_. 0) 1 = 0"
  using scale1x_line_rows [of 2 2 1 0 2 0 0 "\<lambda>_. 5" "\<lambda>_. 0"] by (simp add: Let_def)

end
