(* ===== verification/Video.thy ===== *)
theory Video
  imports Scaler Complex_Main
begin

text \<open>
  From a core's frame to the screen of the rg35xx: how \<open>selectScaler\<close> (\<open>minarch/minarch.c\<close>) places a frame for the four
  scaling modes, how the platform picks and refreshes the scaler (\<open>rg35xx/platform/platform.c\<close>), the two pages of the frame
  buffer, and the frames a session draws (\<open>video_refresh_callback_main\<close>).

  A \<open>double\<close> is a rational number, and every operation on doubles rounds its exact result with \<open>rnd\<close>, an argument.
  What is needed of rounding is \<open>double_rounding\<close>: it is monotone and exact on the numbers a double represents, as
  IEEE 754 arithmetic is. Memory is counted in pixels of two bytes. The sizes the code only logs
  (\<open>aspect_w\<close>, \<open>aspect_h\<close>, \<open>scaler_name\<close>), the debug text, and the registers of the display engine other than the
  page it shows are left out. What the settings overlay and the menus paint is an argument.
\<close>

definition double_rounding :: "(rat \<Rightarrow> rat) \<Rightarrow> bool" where
  "double_rounding rnd \<longleftrightarrow> mono rnd \<and> (\<forall>(n :: int) (k :: nat). \<bar>n\<bar> \<le> 2 ^ 53 \<and> k \<le> 53 \<longrightarrow> rnd (of_int n / 2 ^ k) = of_int n / 2 ^ k)"

definition to_int :: "rat \<Rightarrow> int" where
  \<comment> \<open>the conversion truncates\<close>
  "to_int x = (if 0 \<le> x then \<lfloor>x\<rfloor> else \<lceil>x\<rceil>)"

definition CEIL_DIV :: "int \<Rightarrow> int \<Rightarrow> int" where "CEIL_DIV a b = cdiv (a + b - 1) b"

datatype scaling = SCALE_NATIVE | SCALE_ASPECT | SCALE_FULLSCREEN | SCALE_CROPPED

record device =
  DEVICE_WIDTH :: int
  DEVICE_HEIGHT :: int
  DEVICE_PITCH :: int
  HDMI_WIDTH :: int

record renderer =
  r_scale :: int
  true_w :: int
  true_h :: int
  src_x :: int
  src_y :: int
  src_w :: int
  src_h :: int
  src_p :: int
  dst_x :: int
  dst_y :: int
  dst_w :: int
  dst_h :: int
  dst_p :: int
  r_aspect :: rat
  blit :: "effect \<times> int"                        \<comment> \<open>the scaler it points to\<close>

record vid_context =
  fb :: pixels                                    \<comment> \<open>both pages of the frame buffer\<close>
  page :: nat                                     \<comment> \<open>the page drawn to\<close>
  shown :: nat                                    \<comment> \<open>the page the display engine shows\<close>
  vcleared :: bool
  vsize :: "int \<times> int \<times> int"                    \<comment> \<open>width, height and pitch of the surface\<close>

record video =
  vid :: vid_context
  effect_type :: "effect option"                  \<comment> \<open>\<open>None\<close> for -1\<close>
  next_effect :: effect
  rend :: renderer
  scaling_mode :: scaling                         \<comment> \<open>\<open>screen_scaling\<close>\<close>
  effect_mode :: effect                           \<comment> \<open>\<open>screen_effect\<close>\<close>
  in_menu :: bool
  restore :: "int \<times> int \<times> int"                  \<comment> \<open>the size of the surface before the menu\<close>
  overlay_clear :: nat
  last_flip_time :: u32
  fps_ticks :: nat

definition PAGE_PIXELS :: nat where "PAGE_PIXELS = (640 * 3) * (480 * 3)"

definition in_page :: "nat \<Rightarrow> nat \<Rightarrow> bool" where
  "in_page n a \<longleftrightarrow> n * PAGE_PIXELS \<le> a \<and> a < (n + 1) * PAGE_PIXELS"

definition rg35xx :: device where
  "rg35xx = \<lparr>DEVICE_WIDTH = 640, DEVICE_HEIGHT = 480, DEVICE_PITCH = 1280, HDMI_WIDTH = 640\<rparr>"

subsection \<open>The frame buffer\<close>

definition PLAT_clearVideo :: "vid_context \<Rightarrow> vid_context" where
  "PLAT_clearVideo v = v\<lparr>fb := (\<lambda>a. if in_page (page v) a then 0 else fb v a)\<rparr>"

definition PLAT_clearAll :: "vid_context \<Rightarrow> vid_context" where
  "PLAT_clearAll v = (PLAT_clearVideo v)\<lparr>vcleared := True\<rparr>"

definition PLAT_resizeVideo :: "int \<Rightarrow> int \<Rightarrow> int \<Rightarrow> vid_context \<Rightarrow> vid_context" where
  "PLAT_resizeVideo w h p v =
     (let start = page v * PAGE_PIXELS in
      v\<lparr>vsize := (w, h, p), fb := (\<lambda>a. if start \<le> a \<and> a < start + nat (p * h) div 2 then 0 else fb v a), shown := page v\<rparr>)"

definition PLAT_flip :: "vid_context \<Rightarrow> vid_context" where
  "PLAT_flip v =
     (let v = v\<lparr>shown := page v\<rparr>; v = v\<lparr>page := 1 - page v\<rparr>
      in if vcleared v then (PLAT_clearVideo v)\<lparr>vcleared := False\<rparr> else v)"

definition paint :: "nat \<Rightarrow> pixels \<Rightarrow> vid_context \<Rightarrow> vid_context" where
  \<comment> \<open>anything drawn on a page\<close>
  "paint n f v = v\<lparr>fb := (\<lambda>a. if in_page n a then f a else fb v a)\<rparr>"

subsection \<open>Placing a frame\<close>

record placement =
  p_scale :: int
  p_src_x :: int
  p_src_y :: int
  p_src_w :: int
  p_src_h :: int
  p_dst_x :: int
  p_dst_y :: int
  p_dst_w :: int
  p_dst_h :: int
  p_dst_p :: int

definition forced_crop :: "device \<Rightarrow> int \<Rightarrow> int \<Rightarrow> placement" where
  "forced_crop v w h =
     (let ox = cdiv (DEVICE_WIDTH v - w) 2; oy = cdiv (DEVICE_HEIGHT v - h) 2 in
      \<lparr>p_scale = 0, p_src_x = (if ox < 0 then - ox else 0), p_src_y = (if oy < 0 then - oy else 0), p_src_w = w, p_src_h = h,
       p_dst_x = (if ox < 0 then 0 else ox), p_dst_y = (if oy < 0 then 0 else oy),
       p_dst_w = DEVICE_WIDTH v, p_dst_h = DEVICE_HEIGHT v, p_dst_p = DEVICE_PITCH v\<rparr>)"

definition cropped :: "device \<Rightarrow> int \<Rightarrow> int \<Rightarrow> placement" where
  "cropped v w h =
     (let scale_x = CEIL_DIV (DEVICE_WIDTH v) w; scale_y = CEIL_DIV (DEVICE_HEIGHT v) h; scale = min scale_x scale_y;
          ox = cdiv (DEVICE_WIDTH v - w * scale) 2; oy = cdiv (DEVICE_HEIGHT v - h * scale) 2;
          sx = (if ox < 0 then cdiv (- ox) scale else 0); sy = (if oy < 0 then cdiv (- oy) scale else 0) in
      \<lparr>p_scale = scale, p_src_x = sx, p_src_y = sy, p_src_w = w - sx * 2, p_src_h = h - sy * 2,
       p_dst_x = (if ox < 0 then 0 else ox), p_dst_y = (if oy < 0 then 0 else oy),
       p_dst_w = DEVICE_WIDTH v, p_dst_h = DEVICE_HEIGHT v, p_dst_p = DEVICE_PITCH v\<rparr>)"

definition integer_scale :: "device \<Rightarrow> int \<Rightarrow> int \<Rightarrow> int \<Rightarrow> placement" where
  "integer_scale v scale w h =
     \<lparr>p_scale = scale, p_src_x = 0, p_src_y = 0, p_src_w = w, p_src_h = h,
      p_dst_x = cdiv (DEVICE_WIDTH v - w * scale) 2, p_dst_y = cdiv (DEVICE_HEIGHT v - h * scale) 2,
      p_dst_w = DEVICE_WIDTH v, p_dst_h = DEVICE_HEIGHT v, p_dst_p = DEVICE_PITCH v\<rparr>"

definition oversize_scale :: "device \<Rightarrow> int \<Rightarrow> int \<Rightarrow> int" where
  "oversize_scale v w h =
     (let scale_x = CEIL_DIV (DEVICE_WIDTH v) w; scale_y = CEIL_DIV (DEVICE_HEIGHT v) h;
          r = DEVICE_HEIGHT v - h - cdiv (DEVICE_HEIGHT v - h) 8 * 8;
          scale_y = (if r \<noteq> 0 \<and> r < 8 then scale_y - 1 else scale_y)
      in max scale_x scale_y)"

definition oversized :: "int \<Rightarrow> int \<Rightarrow> int \<Rightarrow> int \<Rightarrow> int \<Rightarrow> int \<Rightarrow> int \<Rightarrow> placement" where
  "oversized scale w h x y dw dh =
     \<lparr>p_scale = scale, p_src_x = 0, p_src_y = 0, p_src_w = w, p_src_h = h, p_dst_x = x, p_dst_y = y, p_dst_w = dw, p_dst_h = dh, p_dst_p = dw * 2\<rparr>"

definition aspect_scale :: "(rat \<Rightarrow> rat) \<Rightarrow> device \<Rightarrow> rat \<Rightarrow> int \<Rightarrow> int \<Rightarrow> int \<Rightarrow> placement" where
  "aspect_scale rnd v ratio scale w h =
     (let scaled_w = w * scale; scaled_h = h * scale;
          fixed_aspect_ratio = rnd (of_int (DEVICE_WIDTH v) / of_int (DEVICE_HEIGHT v));
          core_aspect = to_int (rnd (ratio * 1000));
          fixed_aspect = to_int (rnd (fixed_aspect_ratio * 1000))
      in if core_aspect > fixed_aspect then
           (let aspect_h = to_int (rnd (of_int (DEVICE_WIDTH v) / ratio));
                aspect_hr = rnd (of_int aspect_h / of_int (DEVICE_HEIGHT v));
                dh = to_int (rnd (of_int scaled_h / aspect_hr))
            in oversized scale w h 0 (cdiv (dh - scaled_h) 2) scaled_w dh)
         else if core_aspect < fixed_aspect then
           (let aspect_w = to_int (rnd (of_int (DEVICE_HEIGHT v) * ratio));
                aspect_wr = rnd (of_int aspect_w / of_int (DEVICE_WIDTH v));
                dw = to_int (rnd (of_int scaled_w / aspect_wr));
                dw = cdiv dw 8 * 8
            in oversized scale w h (cdiv (dw - scaled_w) 2) 0 dw scaled_h)
         else oversized scale w h 0 0 scaled_w scaled_h)"

definition place :: "(rat \<Rightarrow> rat) \<Rightarrow> device \<Rightarrow> scaling \<Rightarrow> rat \<Rightarrow> int \<Rightarrow> int \<Rightarrow> placement" where
  "place rnd v scaling ratio w h =
     (if scaling = SCALE_NATIVE \<or> scaling = SCALE_CROPPED then
        (let scale = min (cdiv (DEVICE_WIDTH v) w) (cdiv (DEVICE_HEIGHT v) h) in
         if scale = 0 then forced_crop v w h else if scaling = SCALE_CROPPED then cropped v w h else integer_scale v scale w h)
      else (let scale = oversize_scale v w h in
            if scaling = SCALE_FULLSCREEN then oversized scale w h 0 0 (w * scale) (h * scale)
            else aspect_scale rnd v ratio scale w h))"

subsection \<open>The renderer\<close>

definition GFX_getScaler :: "effect option \<Rightarrow> int \<Rightarrow> effect \<times> int" where
  \<comment> \<open>which of the scalers of \<open>PLAT_getScaler\<close> is chosen; an unset effect chooses as none does\<close>
  "GFX_getScaler e scale = (case e of Some e \<Rightarrow> e | None \<Rightarrow> EFFECT_NONE, scale)"

definition selectScaler :: "(rat \<Rightarrow> rat) \<Rightarrow> device \<Rightarrow> rat \<Rightarrow> int \<Rightarrow> int \<Rightarrow> int \<Rightarrow> video \<Rightarrow> video" where
  "selectScaler rnd dev ratio w h p v =
     (let scaling = (if scaling_mode v = SCALE_CROPPED \<and> DEVICE_WIDTH dev = HDMI_WIDTH dev then SCALE_NATIVE else scaling_mode v);
          q = place rnd dev scaling ratio w h
      in v\<lparr>rend := (rend v)\<lparr>r_scale := p_scale q, true_w := w, true_h := h, src_x := p_src_x q, src_y := p_src_y q, src_w := p_src_w q,
              src_h := p_src_h q, src_p := p, dst_x := p_dst_x q, dst_y := p_dst_y q, dst_w := p_dst_w q, dst_h := p_dst_h q,
              dst_p := p_dst_p q,
              r_aspect := (if scaling = SCALE_NATIVE \<or> scaling = SCALE_CROPPED then 0 else if scaling = SCALE_FULLSCREEN then - 1 else ratio),
              blit := GFX_getScaler (effect_type v) (p_scale q)\<rparr>,
           vid := PLAT_resizeVideo (p_dst_w q) (p_dst_h q) (p_dst_p q) (vid v)\<rparr>)"

definition PLAT_setEffect :: "effect \<Rightarrow> video \<Rightarrow> video" where
  "PLAT_setEffect e v = v\<lparr>next_effect := e\<rparr>"

definition PLAT_setSharpness :: "video \<Rightarrow> video" where
  \<comment> \<open>beside the coefficients of the display engine: the effect is loaded again\<close>
  "PLAT_setSharpness v =
     (let v = (case effect_type v of Some e \<Rightarrow> v\<lparr>next_effect := e\<rparr> | None \<Rightarrow> v) in v\<lparr>effect_type := None\<rparr>)"

definition refresh_scaler :: "video \<Rightarrow> video" where
  "refresh_scaler v =
     (if effect_type v \<noteq> Some (next_effect v)
      then v\<lparr>effect_type := Some (next_effect v), rend := (rend v)\<lparr>blit := GFX_getScaler (Some (next_effect v)) (r_scale (rend v))\<rparr>\<rparr>
      else v)"

definition PLAT_blitRenderer :: "pixels \<Rightarrow> nat \<Rightarrow> video \<Rightarrow> video" where
  "PLAT_blitRenderer s data v =
     (let v = refresh_scaler v; r = rend v; (e, scale) = blit r;
          dst = nat (2 * int (page (vid v) * PAGE_PIXELS) + dst_y r * dst_p r + dst_x r * 2) div 2
      in v\<lparr>vid := (vid v)\<lparr>fb := PLAT_getScaler e (nat scale) data dst (nat (src_w r)) (nat (src_h r)) (nat (src_p r)) (nat (dst_p r)) s (fb (vid v))\<rparr>\<rparr>)"

record frame_in =
  frame_mem :: "pixels option"                    \<comment> \<open>what the core hands over, from address \<open>frame_at\<close>; \<open>None\<close> for no data\<close>
  frame_at :: nat
  frame_w :: int
  frame_h :: int
  frame_p :: int
  frame_fast :: bool                              \<comment> \<open>\<open>fast_forward\<close>\<close>
  frame_now :: u32                                \<comment> \<open>the clock before and after\<close>
  frame_done :: u32
  frame_overlay :: "pixels option"                \<comment> \<open>the settings overlay, when it shows\<close>

definition fit_frame :: "(rat \<Rightarrow> rat) \<Rightarrow> device \<Rightarrow> rat \<Rightarrow> frame_in \<Rightarrow> video \<Rightarrow> video" where
  "fit_frame rnd dev ratio f v =
     (if dst_p (rend v) = 0 \<or> frame_w f \<noteq> true_w (rend v) \<or> frame_h f \<noteq> true_h (rend v)
      then (let v = selectScaler rnd dev ratio (frame_w f) (frame_h f) (frame_p f) v in v\<lparr>vid := PLAT_clearAll (vid v)\<rparr>)
      else v)"

definition wipe_overlay :: "frame_in \<Rightarrow> video \<Rightarrow> video" where
  "wipe_overlay f v =
     (if frame_overlay f \<noteq> None then v\<lparr>overlay_clear := 2\<rparr>
      else if overlay_clear v > 0 then v\<lparr>vid := PLAT_clearAll (vid v), overlay_clear := overlay_clear v - 1\<rparr> else v)"

definition video_refresh_callback_main :: "(rat \<Rightarrow> rat) \<Rightarrow> device \<Rightarrow> rat \<Rightarrow> bool \<Rightarrow> frame_in \<Rightarrow> video \<Rightarrow> video" where
  "video_refresh_callback_main rnd dev ratio thread_video f v =
     (if frame_fast f \<and> frame_now f - last_flip_time v < 10 then v
      else case frame_mem f of None \<Rightarrow> v
      | Some s \<Rightarrow>
          (let v = v\<lparr>fps_ticks := fps_ticks v + 1\<rparr>; v = fit_frame rnd dev ratio f v; v = wipe_overlay f v; v = PLAT_blitRenderer s (frame_at f) v;
               v = (case frame_overlay f of Some ov \<Rightarrow> v\<lparr>vid := paint (page (vid v)) ov (vid v)\<rparr> | None \<Rightarrow> v);
               v = (if thread_video then v else v\<lparr>vid := PLAT_flip (vid v)\<rparr>)
           in v\<lparr>last_flip_time := frame_done f\<rparr>))"

subsection \<open>A session\<close>

definition sync_scaling :: "scaling \<Rightarrow> video \<Rightarrow> video" where
  \<comment> \<open>the scaling and sharpness branches of \<open>Config_syncFrontend\<close>\<close>
  "sync_scaling m v = (let v = PLAT_setSharpness (v\<lparr>scaling_mode := m\<rparr>) in v\<lparr>rend := (rend v)\<lparr>dst_p := 0\<rparr>\<rparr>)"

definition sync_effect :: "effect \<Rightarrow> video \<Rightarrow> video" where
  "sync_effect e v = (let v = PLAT_setEffect e (v\<lparr>effect_mode := e\<rparr>) in v\<lparr>rend := (rend v)\<lparr>dst_p := 0\<rparr>\<rparr>)"

definition resize_to :: "device \<Rightarrow> int \<times> int \<times> int \<Rightarrow> int \<times> int \<times> int \<Rightarrow> vid_context \<Rightarrow> vid_context" where
  \<comment> \<open>nothing to do when the given size is the screen's\<close>
  "resize_to dev old target c =
     (case (old, target) of ((w, h, _), (tw, th, tp)) \<Rightarrow>
        if w \<noteq> DEVICE_WIDTH dev \<or> h \<noteq> DEVICE_HEIGHT dev then PLAT_resizeVideo tw th tp c else c)"

definition enter_menu :: "device \<Rightarrow> video \<Rightarrow> video" where
  "enter_menu dev v =
     PLAT_setEffect EFFECT_NONE
       (v\<lparr>in_menu := True, restore := vsize (vid v),
          vid := resize_to dev (vsize (vid v)) (DEVICE_WIDTH dev, DEVICE_HEIGHT dev, DEVICE_PITCH dev) (vid v)\<rparr>)"

definition menu_rescale :: "(rat \<Rightarrow> rat) \<Rightarrow> device \<Rightarrow> rat \<Rightarrow> video \<Rightarrow> video" where
  \<comment> \<open>back from the options with another scaling\<close>
  "menu_rescale rnd dev ratio v =
     (let r = rend v; v = selectScaler rnd dev ratio (true_w r) (true_h r) (src_p r) v
      in v\<lparr>restore := vsize (vid v), vid := PLAT_resizeVideo (DEVICE_WIDTH dev) (DEVICE_HEIGHT dev) (DEVICE_PITCH dev) (vid v)\<rparr>)"

definition leave_menu :: "device \<Rightarrow> video \<Rightarrow> video" where
  \<comment> \<open>up to the frame that is drawn again\<close>
  "leave_menu dev v =
     (let v = v\<lparr>vid := PLAT_clearAll (vid v)\<rparr>; v = v\<lparr>vid := resize_to dev (restore v) (restore v) (vid v)\<rparr>;
          v = PLAT_setEffect (effect_mode v) v
      in v\<lparr>vid := PLAT_clearVideo (vid v), in_menu := False\<rparr>)"

definition video_init :: video where
  \<comment> \<open>\<open>PLAT_initVideo\<close>; a renderer without a pitch places the first frame\<close>
  "video_init = \<lparr>vid = \<lparr>fb = (\<lambda>_. 0), page = 1, shown = 1, vcleared = False, vsize = (640, 480, 1280)\<rparr>, effect_type = Some EFFECT_NONE,
     next_effect = EFFECT_NONE,
     rend = \<lparr>r_scale = 0, true_w = 0, true_h = 0, src_x = 0, src_y = 0, src_w = 0, src_h = 0, src_p = 0, dst_x = 0, dst_y = 0,
       dst_w = 0, dst_h = 0, dst_p = 0, r_aspect = 0, blit = (EFFECT_NONE, 0)\<rparr>,
     scaling_mode = SCALE_ASPECT, effect_mode = EFFECT_NONE, in_menu = False, restore = (0, 0, 0), overlay_clear = 0,
     last_flip_time = 0, fps_ticks = 0\<rparr>"

inductive video_step :: "(rat \<Rightarrow> rat) \<Rightarrow> device \<Rightarrow> rat \<Rightarrow> (int \<Rightarrow> int \<Rightarrow> int) \<Rightarrow> video \<Rightarrow> video \<Rightarrow> bool"
  for rnd dev ratio pf where
  \<comment> \<open>\<open>pf\<close>: the pitch a core uses for each size of its frames\<close>
  frame: "\<not> in_menu v \<Longrightarrow> frame_p f = pf (frame_w f) (frame_h f) \<Longrightarrow> video_step rnd dev ratio pf v (video_refresh_callback_main rnd dev ratio thread f v)"
| flip: "video_step rnd dev ratio pf v (v\<lparr>vid := PLAT_flip (vid v)\<rparr>)"
| scaling: "video_step rnd dev ratio pf v (sync_scaling m v)"
| effect: "video_step rnd dev ratio pf v (sync_effect e v)"
| enter: "\<not> in_menu v \<Longrightarrow> video_step rnd dev ratio pf v (enter_menu dev v)"
| draw: "in_menu v \<Longrightarrow> video_step rnd dev ratio pf v (v\<lparr>vid := paint (page (vid v)) g (vid v)\<rparr>)"
| clear: "video_step rnd dev ratio pf v (v\<lparr>vid := PLAT_clearAll (vid v)\<rparr>)"
| rescale: "in_menu v \<Longrightarrow> true_w (rend v) \<noteq> 0 \<Longrightarrow> video_step rnd dev ratio pf v (menu_rescale rnd dev ratio v)"
| leave: "in_menu v \<Longrightarrow> video_step rnd dev ratio pf v (leave_menu dev v)"

subsection \<open>Arithmetic\<close>

lemma cdiv_pos: "0 \<le> a \<Longrightarrow> 0 < b \<Longrightarrow> cdiv a b = a div b"
  by (rule cdiv_nonneg)

lemma min_div_fits:
  assumes "0 < w" and "0 \<le> W" and "k \<le> cdiv W w" and "0 \<le> k"
  shows "w * k \<le> (W :: int)"
proof -
  have "w * k \<le> w * (W div w)" using assms by (simp add: cdiv_pos mult_left_mono)
  also have "\<dots> \<le> W" using assms(1) by (simp add: minus_mod_eq_mult_div [symmetric])
  finally show ?thesis .
qed

lemma centred: "a \<le> b \<Longrightarrow> 0 \<le> cdiv (b - a) 2 \<and> cdiv (b - a) 2 + a \<le> (b :: int)"
  by (simp add: cdiv_pos)

lemma CEIL_DIV_bounds:
  assumes "0 < b" and "0 < a"
  shows "1 \<le> CEIL_DIV a b" and "CEIL_DIV a b \<le> a"
proof -
  have "b * 1 \<le> a + b - 1" using assms by simp
  then show "1 \<le> CEIL_DIV a b" using assms by (simp add: CEIL_DIV_def cdiv_pos pos_imp_zdiv_pos_iff int_one_le_iff_zero_less)
  have "a * 1 \<le> a * b" using assms by (intro mult_left_mono) auto
  then have "a + b - 1 \<le> (b - 1) + a * b" by linarith
  then have "(a + b - 1) div b \<le> ((b - 1) + a * b) div b" using assms(1) by (rule zdiv_mono1)
  also have "\<dots> = a" using assms by simp
  finally show "CEIL_DIV a b \<le> a" using assms by (simp add: CEIL_DIV_def cdiv_pos)
qed

lemma to_int_mono: "x \<le> y \<Longrightarrow> to_int x \<le> to_int y"
  unfolding to_int_def by (auto intro: floor_mono ceiling_mono) (metis ceiling_le_zero le_cases not_le order_trans zero_le_floor)

lemma to_int_of_int [simp]: "to_int (of_int n) = n"
  by (simp add: to_int_def)

lemma to_int_ge: "of_int n \<le> x \<Longrightarrow> n \<le> to_int x"
  using to_int_mono [of "of_int n" x] by simp

lemma to_int_le: "x \<le> of_int n \<Longrightarrow> to_int x \<le> n"
  using to_int_mono [of x "of_int n"] by simp

lemma rnd_laws:
  assumes "double_rounding rnd"
  shows "x \<le> y \<Longrightarrow> rnd x \<le> rnd y" and "\<bar>n\<bar> \<le> 2 ^ 53 \<Longrightarrow> rnd (of_int n) = of_int n"
    and "\<bar>n\<bar> \<le> 2 ^ 53 \<Longrightarrow> k \<le> 53 \<Longrightarrow> of_int n / 2 ^ k \<le> x \<Longrightarrow> of_int n / 2 ^ k \<le> rnd x"
proof -
  show mono: "x \<le> y \<Longrightarrow> rnd x \<le> rnd y" for x y using assms by (auto simp: double_rounding_def mono_def)
  have exact: "\<bar>n\<bar> \<le> 2 ^ 53 \<Longrightarrow> k \<le> 53 \<Longrightarrow> rnd (of_int n / 2 ^ k) = of_int n / 2 ^ k" for n k
    using assms by (simp add: double_rounding_def)
  show "\<bar>n\<bar> \<le> 2 ^ 53 \<Longrightarrow> rnd (of_int n) = of_int n" using exact [of n 0] by simp
  show "\<bar>n\<bar> \<le> 2 ^ 53 \<Longrightarrow> k \<le> 53 \<Longrightarrow> of_int n / 2 ^ k \<le> x \<Longrightarrow> of_int n / 2 ^ k \<le> rnd x" using mono [of "of_int n / 2 ^ k" x] exact [of n k] by simp
qed

lemma rnd_quotient:
  \<comment> \<open>dividing by a rounded ratio that is at most one does not make a number smaller\<close>
  assumes "double_rounding rnd" and "0 < k" and "k \<le> m" and "m \<le> 2 ^ 53" and "0 \<le> n" and "n \<le> 2 ^ 53"
  shows "n \<le> to_int (rnd (of_int n / rnd (of_int k / of_int m)))"
proof -
  let ?r = "rnd (of_int k / of_int m)"
  have m: "0 < (of_int m :: rat)" "(of_int m :: rat) \<le> 2 ^ 53" using assms(2-4) by (simp, metis of_int_le_iff of_int_numeral of_int_power)
  have "1 / 2 ^ 53 \<le> 1 / (of_int m :: rat)" using m by (intro divide_left_mono) auto
  also have "\<dots> \<le> of_int k / of_int m" using assms(2) m by (intro divide_right_mono) auto
  finally have "1 / 2 ^ 53 \<le> ?r" using rnd_laws(3) [OF assms(1), of 1 53] by simp
  moreover have "(0 :: rat) < 1 / 2 ^ 53" by simp
  ultimately have pos: "0 < ?r" by (rule less_le_trans [rotated])
  have "of_int k / of_int m \<le> (of_int 1 :: rat)" using assms(3) m by (simp add: divide_le_eq)
  then have "?r \<le> rnd (of_int 1)" by (rule rnd_laws(1) [OF assms(1)])
  then have le: "?r \<le> 1" using rnd_laws(2) [OF assms(1), of 1] by simp
  have "of_int n \<le> (of_int n :: rat) / ?r"
  proof -
    have "of_int n * ?r \<le> of_int n * 1" using le assms(5) by (intro mult_left_mono) auto
    then show ?thesis using pos by (simp add: le_divide_eq)
  qed
  then have "rnd (of_int n) \<le> rnd (of_int n / ?r)" by (rule rnd_laws(1) [OF assms(1)])
  then show ?thesis using rnd_laws(2) [OF assms(1), of n] assms(5,6) by (intro to_int_ge) simp
qed

definition device_ok :: "device \<Rightarrow> bool" where
  "device_ok v \<longleftrightarrow> 0 < DEVICE_WIDTH v \<and> DEVICE_WIDTH v \<le> 10000 \<and> 0 < DEVICE_HEIGHT v \<and> DEVICE_HEIGHT v \<le> 10000
     \<and> DEVICE_PITCH v = 2 * DEVICE_WIDTH v"

definition frame_fits :: "placement \<Rightarrow> bool" where
  \<comment> \<open>the enlarged frame lies inside the surface\<close>
  "frame_fits q \<longleftrightarrow> 1 \<le> p_scale q \<and> 0 \<le> p_dst_x q \<and> 0 \<le> p_dst_y q \<and> p_dst_x q + p_src_w q * p_scale q \<le> p_dst_w q
     \<and> p_dst_y q + p_src_h q * p_scale q \<le> p_dst_h q \<and> p_dst_p q = 2 * p_dst_w q"

lemma integer_fits:
  assumes "device_ok v" and "0 < w" and "0 < h" and "scale = min (cdiv (DEVICE_WIDTH v) w) (cdiv (DEVICE_HEIGHT v) h)" and "scale \<noteq> 0"
  shows "frame_fits (integer_scale v scale w h)"
proof -
  have "0 \<le> cdiv (DEVICE_WIDTH v) w" "0 \<le> cdiv (DEVICE_HEIGHT v) h"
    using assms(1-3) by (simp_all add: device_ok_def cdiv_pos pos_imp_zdiv_nonneg_iff)
  then have "0 \<le> scale" using assms(4) by simp
  moreover have "w * scale \<le> DEVICE_WIDTH v" "h * scale \<le> DEVICE_HEIGHT v"
    using assms(1-4) \<open>0 \<le> scale\<close> by (auto simp: device_ok_def intro!: min_div_fits)
  ultimately show ?thesis using assms(1,5) centred by (auto simp: frame_fits_def integer_scale_def device_ok_def)
qed

lemma oversize_scale_bounds:
  assumes "device_ok v" and "0 < w" and "0 < h"
  shows "1 \<le> oversize_scale v w h" and "oversize_scale v w h \<le> 10000"
  using CEIL_DIV_bounds [of w "DEVICE_WIDTH v"] CEIL_DIV_bounds [of h "DEVICE_HEIGHT v"] assms
  by (auto simp: oversize_scale_def device_ok_def Let_def max_def)

subsection \<open>A picture in a window\<close>

lemma picture_window:
  assumes "X < dpx" and "dx + n * w \<le> dpx" and "0 < n" and "0 < w"
  shows "picture n w n dpx spx f h s q (start + dy * dpx + dx) d (start + Y * dpx + X)
    = (if dx \<le> X \<and> X < dx + n * w \<and> dy \<le> Y \<and> Y < dy + n * h
       then f ((Y - dy) mod n) ((X - dx) mod n) (s (q + (Y - dy) div n * spx + (X - dx) div n)) else d (start + Y * dpx + X))"
proof -
  let ?p = "start + dy * dpx + dx" and ?a = "start + Y * dpx + X"
  have pos: "0 < n * w" using assms(3,4) by simp
  show ?thesis
  proof (cases "dy \<le> Y")
    case True
    then obtain k where k: "Y = dy + k" using le_Suc_ex by blast
    show ?thesis
    proof (cases "dx \<le> X")
      case True
      have "?a - ?p = k * dpx + (X - dx)" using True by (simp add: k algebra_simps)
      moreover have "X - dx < dpx" using assms(1) by simp
      ultimately have "(?a - ?p) div dpx = k" "(?a - ?p) mod dpx = X - dx" by simp_all
      then show ?thesis using True k by (auto simp: picture_def Let_def algebra_simps)
    next
      case False
      have "n * w \<le> (?a - ?p) mod dpx" if le: "?p \<le> ?a"
      proof -
        have "k \<noteq> 0" using le False by (intro notI) (simp add: k)
        then obtain m where m: "k = Suc m" by (cases k) auto
        have "?a - ?p = m * dpx + (dpx + X - dx)" using False assms(2) by (simp add: k m algebra_simps)
        moreover have "dpx + X - dx < dpx" using False assms(2) pos by linarith
        ultimately have "(?a - ?p) mod dpx = dpx + X - dx" by simp
        then show ?thesis using assms(2) by linarith
      qed
      then show ?thesis using False by (auto simp: picture_def Let_def)
    qed
  next
    case False
    then have "Suc Y * dpx \<le> dy * dpx" by (intro mult_right_mono) auto
    then have "?a < ?p" using assms(1) by simp
    then show ?thesis using False by (simp add: picture_def Let_def)
  qed
qed

lemma picture_outside:
  assumes "dx + n * w \<le> dpx" and "0 < n" and "0 < w" and "dy + n * h \<le> H" and "a < start \<or> start + dpx * H \<le> a"
  shows "picture n w n dpx spx f h s q (start + dy * dpx + dx) d a = d a"
proof (cases "start \<le> a")
  case True
  have pos: "0 < dpx" using assms(1-3) by (metis add_is_0 gr_zeroI le_zero_eq mult_is_0)
  obtain Y X where a: "a = start + Y * dpx + X" "(a - start) mod dpx = X" using True by (rule row_col)
  have "X < dpx" using a(2) pos by auto
  moreover have "H \<le> Y"
  proof (rule ccontr)
    assume "\<not> H \<le> Y"
    then have "Suc Y * dpx \<le> H * dpx" by (intro mult_right_mono) auto
    then show False using assms(5) True a(1) \<open>X < dpx\<close> by (simp add: mult.commute)
  qed
  ultimately show ?thesis using picture_window [OF _ assms(1-3), of X] assms(4) a(1) by simp
next
  case False
  then show ?thesis by (simp add: picture_def Let_def)
qed

subsection \<open>Drawing a frame\<close>

definition drawable :: "placement \<Rightarrow> effect \<Rightarrow> bool" where
  \<comment> \<open>there is a scaler for the factor, and the surface fits in a page\<close>
  "drawable q e \<longleftrightarrow> frame_fits q \<and> 0 < p_src_w q \<and> 0 < p_src_h q \<and> p_scale q \<le> 6 \<and> (e = EFFECT_LINE \<longrightarrow> p_scale q \<in> {2, 3, 4})
     \<and> p_dst_w q * p_dst_h q \<le> int PAGE_PIXELS"

definition placed :: "placement \<Rightarrow> renderer \<Rightarrow> bool" where
  "placed q r \<longleftrightarrow> r_scale r = p_scale q \<and> src_w r = p_src_w q \<and> src_h r = p_src_h q \<and> dst_x r = p_dst_x q \<and> dst_y r = p_dst_y q
     \<and> dst_w r = p_dst_w q \<and> dst_h r = p_dst_h q \<and> dst_p r = p_dst_p q"

definition pixel_at :: "placement \<Rightarrow> nat \<Rightarrow> nat \<Rightarrow> nat \<Rightarrow> nat" where
  \<comment> \<open>the address of a pixel of the surface on a page\<close>
  "pixel_at q b X Y = b * PAGE_PIXELS + Y * nat (p_dst_w q) + X"

definition in_picture :: "placement \<Rightarrow> nat \<Rightarrow> nat \<Rightarrow> bool" where
  "in_picture q X Y \<longleftrightarrow> p_dst_x q \<le> int X \<and> int X < p_dst_x q + p_src_w q * p_scale q
     \<and> p_dst_y q \<le> int Y \<and> int Y < p_dst_y q + p_src_h q * p_scale q"

definition frame_pixel :: "placement \<Rightarrow> effect \<Rightarrow> pixels \<Rightarrow> nat \<Rightarrow> nat \<Rightarrow> nat \<Rightarrow> nat \<Rightarrow> u16" where
  \<comment> \<open>the colour of a pixel of the picture: its source pixel, under the effect\<close>
  "frame_pixel q e s data spx X Y =
     (let n = nat (p_scale q); x = X - nat (p_dst_x q); y = Y - nat (p_dst_y q)
      in scaler_colour e n (y mod n) (x mod n) (s (data + y div n * spx + x div n)))"

lemma blit_picture:
  assumes "placed q (rend v)" and "drawable q e" and "blit (rend v) = (e, r_scale (rend v))" and "effect_type v = Some (next_effect v)"
    and "0 < src_p (rend v)"
  shows "vid (PLAT_blitRenderer s data v) = (vid v)\<lparr>fb := picture (nat (p_scale q)) (nat (p_src_w q)) (nat (p_scale q)) (nat (p_dst_w q))
     (nat (src_p (rend v)) div 2) (scaler_colour e (nat (p_scale q))) (nat (p_src_h q)) s data
     (page (vid v) * PAGE_PIXELS + nat (p_dst_y q) * nat (p_dst_w q) + nat (p_dst_x q)) (fb (vid v))\<rparr>"
proof -
  let ?n = "nat (p_scale q)" and ?w = "nat (p_src_w q)" and ?W = "nat (p_dst_w q)"
  have q: "1 \<le> p_scale q" "p_scale q \<le> 6" "0 \<le> p_dst_x q" "0 \<le> p_dst_y q" "0 < p_src_w q" "p_dst_p q = 2 * p_dst_w q"
    "p_dst_x q + p_src_w q * p_scale q \<le> p_dst_w q" "e = EFFECT_LINE \<longrightarrow> p_scale q \<in> {2, 3, 4}"
    using assms(2) by (auto simp: drawable_def frame_fits_def)
  have "0 < p_src_w q * p_scale q" using q(1,5) by simp
  then have W: "0 < p_dst_w q" "p_src_w q * p_scale q \<le> p_dst_w q" using q(3,7) by linarith+
  then have room: "?n * ?w \<le> ?W" using q(1,5) by (simp add: nat_mult_distrib [symmetric] mult.commute nat_mono)
  have "2 * int (page (vid v) * PAGE_PIXELS) + p_dst_y q * p_dst_p q + p_dst_x q * 2
      = 2 * int (page (vid v) * PAGE_PIXELS + nat (p_dst_y q) * ?W + nat (p_dst_x q))"
    using q(3,4,6) W(1) by (simp add: algebra_simps)
  then have at: "nat (2 * int (page (vid v) * PAGE_PIXELS) + p_dst_y q * p_dst_p q + p_dst_x q * 2) div 2
      = page (vid v) * PAGE_PIXELS + nat (p_dst_y q) * ?W + nat (p_dst_x q)"
    by (simp only: nat_mult_distrib nat_int) simp
  have p: "nat (p_dst_p q) = 2 * ?W" using q(6) W(1) by (simp add: nat_mult_distrib)
  have "PLAT_getScaler e ?n data dst ?w h sp (2 * ?W) s d = picture ?n ?w ?n ?W (sp div 2) (scaler_colour e ?n) h s data dst d"
    if "0 < sp" for dst h sp d
    using getScaler_draws [of ?n e "2 * ?W" sp ?w data dst h s d] that q(1,2,8) W(1) room by auto
  moreover have "refresh_scaler v = v" by (simp add: refresh_scaler_def assms(4))
  ultimately show ?thesis using assms(1,3,5) at p by (simp add: PLAT_blitRenderer_def Let_def placed_def)
qed

lemma blit_pixel:
  assumes "placed q (rend v)" and "drawable q e" and "blit (rend v) = (e, r_scale (rend v))" and "effect_type v = Some (next_effect v)"
    and "0 < src_p (rend v)" and "X < nat (p_dst_w q)"
  shows "fb (vid (PLAT_blitRenderer s data v)) (pixel_at q (page (vid v)) X Y)
    = (if in_picture q X Y then frame_pixel q e s data (nat (src_p (rend v)) div 2) X Y else fb (vid v) (pixel_at q (page (vid v)) X Y))"
proof -
  have q: "1 \<le> p_scale q" "0 \<le> p_dst_x q" "0 \<le> p_dst_y q" "0 < p_src_w q" "0 < p_src_h q" "p_dst_x q + p_src_w q * p_scale q \<le> p_dst_w q"
    using assms(2) by (auto simp: drawable_def frame_fits_def)
  have fits: "nat (p_dst_x q) + nat (p_scale q) * nat (p_src_w q) \<le> nat (p_dst_w q)"
    using q by (simp add: nat_mult_distrib [symmetric] nat_add_distrib [symmetric] mult.commute nat_mono)
  have "in_picture q X Y \<longleftrightarrow> nat (p_dst_x q) \<le> X \<and> X < nat (p_dst_x q) + nat (p_scale q) * nat (p_src_w q)
      \<and> nat (p_dst_y q) \<le> Y \<and> Y < nat (p_dst_y q) + nat (p_scale q) * nat (p_src_h q)"
    using q by (simp add: in_picture_def nat_mult_distrib [symmetric] nat_add_distrib [symmetric] mult.commute nat_le_iff zless_nat_eq_int_zless)
  then show ?thesis
    using picture_window [OF assms(6) fits] q by (simp add: blit_picture [OF assms(1-5)] pixel_at_def frame_pixel_def Let_def)
qed

lemma blit_outside:
  assumes "placed q (rend v)" and "drawable q e" and "blit (rend v) = (e, r_scale (rend v))" and "effect_type v = Some (next_effect v)"
    and "0 < src_p (rend v)" and "\<not> in_page (page (vid v)) a"
  shows "fb (vid (PLAT_blitRenderer s data v)) a = fb (vid v) a"
proof -
  have q: "1 \<le> p_scale q" "0 \<le> p_dst_x q" "0 \<le> p_dst_y q" "0 < p_src_w q" "0 < p_src_h q" "p_dst_x q + p_src_w q * p_scale q \<le> p_dst_w q"
    "p_dst_y q + p_src_h q * p_scale q \<le> p_dst_h q" "p_dst_w q * p_dst_h q \<le> int PAGE_PIXELS"
    using assms(2) by (auto simp: drawable_def frame_fits_def)
  have "0 < p_src_w q * p_scale q" "0 < p_src_h q * p_scale q" using q(1,4,5) by simp_all
  then have pos: "0 < p_dst_w q" "0 < p_dst_h q" using q(2,3,6,7) by linarith+
  have fits: "nat (p_dst_x q) + nat (p_scale q) * nat (p_src_w q) \<le> nat (p_dst_w q)" "nat (p_dst_y q) + nat (p_scale q) * nat (p_src_h q) \<le> nat (p_dst_h q)"
    using q by (simp_all add: nat_mult_distrib [symmetric] nat_add_distrib [symmetric] mult.commute nat_mono)
  have "nat (p_dst_w q) * nat (p_dst_h q) \<le> PAGE_PIXELS" using q(8) pos by (simp add: nat_mult_distrib [symmetric])
  then have "a < page (vid v) * PAGE_PIXELS \<or> page (vid v) * PAGE_PIXELS + nat (p_dst_w q) * nat (p_dst_h q) \<le> a"
    using assms(6) by (auto simp: in_page_def)
  then show ?thesis using picture_outside [OF fits(1) _ _ fits(2)] q by (simp add: blit_picture [OF assms(1-5)])
qed

subsection \<open>The invariant of a session\<close>

definition mode :: "device \<Rightarrow> video \<Rightarrow> scaling" where
  "mode dev v = (if scaling_mode v = SCALE_CROPPED \<and> DEVICE_WIDTH dev = HDMI_WIDTH dev then SCALE_NATIVE else scaling_mode v)"

definition current :: "(rat \<Rightarrow> rat) \<Rightarrow> device \<Rightarrow> rat \<Rightarrow> video \<Rightarrow> placement" where
  "current rnd dev ratio v = place rnd dev (mode dev v) ratio (true_w (rend v)) (true_h (rend v))"

definition bars :: "placement \<Rightarrow> nat \<Rightarrow> pixels \<Rightarrow> bool" where
  \<comment> \<open>all around the picture the page is black\<close>
  "bars q b m \<longleftrightarrow> (\<forall>X Y. X < nat (p_dst_w q) \<and> Y < nat (p_dst_h q) \<and> \<not> in_picture q X Y \<longrightarrow> m (pixel_at q b X Y) = 0)"

definition pages_black :: "placement \<Rightarrow> vid_context \<Rightarrow> bool" where
  \<comment> \<open>the page that is shown may wait to be cleared\<close>
  "pages_black q c \<longleftrightarrow> (\<forall>b < 2. bars q b (fb c) \<or> b \<noteq> page c \<and> vcleared c)"

fun whole_rows :: "int \<times> int \<times> int \<Rightarrow> bool" where "whole_rows (w, h, p) = (p = 2 * w)"

definition sizes_ok :: "device \<Rightarrow> (int \<Rightarrow> int \<Rightarrow> int) \<Rightarrow> video \<Rightarrow> bool" where
  "sizes_ok dev pf v \<longleftrightarrow> page (vid v) < 2 \<and> whole_rows (vsize (vid v)) \<and> whole_rows (restore v)
     \<and> (in_menu v \<longrightarrow> vsize (vid v) = (DEVICE_WIDTH dev, DEVICE_HEIGHT dev, DEVICE_PITCH dev))
     \<and> (true_w (rend v) \<noteq> 0 \<longrightarrow> src_p (rend v) = pf (true_w (rend v)) (true_h (rend v)))"

definition tuned :: "(rat \<Rightarrow> rat) \<Rightarrow> device \<Rightarrow> rat \<Rightarrow> (int \<Rightarrow> int \<Rightarrow> int) \<Rightarrow> video \<Rightarrow> bool" where
  "tuned rnd dev ratio pf v \<longleftrightarrow> placed (current rnd dev ratio v) (rend v) \<and> src_p (rend v) = pf (true_w (rend v)) (true_h (rend v))
     \<and> (\<forall>e. effect_type v = Some e \<longrightarrow> blit (rend v) = (e, r_scale (rend v)))
     \<and> (if in_menu v then restore v else vsize (vid v)) = (dst_w (rend v), dst_h (rend v), dst_p (rend v))
     \<and> (\<not> in_menu v \<and> overlay_clear v = 0 \<and> drawable (current rnd dev ratio v) (next_effect v) \<longrightarrow> pages_black (current rnd dev ratio v) (vid v))"

definition video_inv :: "(rat \<Rightarrow> rat) \<Rightarrow> device \<Rightarrow> rat \<Rightarrow> (int \<Rightarrow> int \<Rightarrow> int) \<Rightarrow> video \<Rightarrow> bool" where
  "video_inv rnd dev ratio pf v \<longleftrightarrow> sizes_ok dev pf v \<and> (dst_p (rend v) \<noteq> 0 \<longrightarrow> tuned rnd dev ratio pf v)"

lemmas frame_buffer_defs = PLAT_clearVideo_def PLAT_clearAll_def PLAT_resizeVideo_def PLAT_flip_def paint_def Let_def

lemma place_pitch: "device_ok dev \<Longrightarrow> p_dst_p (place rnd dev m ratio w h) = 2 * p_dst_w (place rnd dev m ratio w h)"
  by (auto simp: place_def forced_crop_def cropped_def integer_scale_def oversized_def aspect_scale_def device_ok_def Let_def)

lemma pixel_page:
  assumes "X < nat (p_dst_w q)" and "Y < nat (p_dst_h q)" and "drawable q e"
  shows "in_page b' (pixel_at q b X Y) \<longleftrightarrow> b' = b"
proof -
  have area: "nat (p_dst_w q) * nat (p_dst_h q) \<le> PAGE_PIXELS" using assms by (simp add: drawable_def nat_mult_distrib [symmetric] nat_le_iff)
  have "Suc Y * nat (p_dst_w q) \<le> nat (p_dst_h q) * nat (p_dst_w q)" using assms(2) by (intro mult_right_mono) auto
  then have k: "Y * nat (p_dst_w q) + X < PAGE_PIXELS" using assms(1) area by (simp add: mult.commute)
  have "in_page b' (b * PAGE_PIXELS + k) \<longleftrightarrow> b' = b" if "k < PAGE_PIXELS" for k
  proof
    assume "in_page b' (b * PAGE_PIXELS + k)"
    then have "(b * PAGE_PIXELS + k) div PAGE_PIXELS = b'" using that
      by (intro div_nat_eqI) (auto simp: in_page_def mult.commute)
    then show "b' = b" using that by simp
  qed (use that in \<open>simp add: in_page_def\<close>)
  then show ?thesis using k by (simp add: pixel_at_def add.assoc)
qed

lemma bars_cleared: "drawable q e \<Longrightarrow> bars q b (\<lambda>a. if in_page b a then 0 else m a)"
  using pixel_page by (simp add: bars_def)

lemma bars_other: "drawable q e \<Longrightarrow> b \<noteq> b' \<Longrightarrow> bars q b (\<lambda>a. if in_page b' a then g a else m a) = bars q b m"
  using pixel_page by (auto simp: bars_def)

lemma clear_black:
  assumes "drawable q e" and "page c < 2"
  shows "pages_black q (PLAT_clearAll c)"
  using bars_cleared [OF assms(1)] assms(2) by (auto simp: pages_black_def PLAT_clearAll_def PLAT_clearVideo_def)

lemma flip_black:
  assumes "drawable q e" and "page c < 2" and "pages_black q c"
  shows "pages_black q (PLAT_flip c)"
proof -
  have "bars q (page c) (fb c)" using assms(2,3) by (auto simp: pages_black_def)
  moreover have "1 - page c < 2" by simp
  then have "vcleared c \<or> bars q (1 - page c) (fb c)" using assms(3) unfolding pages_black_def by blast
  moreover have "page c \<noteq> 1 - page c" using assms(2) by arith
  ultimately have black: "bars q (page c) (fb (PLAT_flip c))" "bars q (1 - page c) (fb (PLAT_flip c))"
    using bars_cleared [OF assms(1)] bars_other [OF assms(1)] by (simp_all add: PLAT_flip_def PLAT_clearVideo_def Let_def, blast)
  have "bars q b (fb (PLAT_flip c))" if "b < 2" for b
  proof -
    have "b = page c \<or> b = 1 - page c" using that assms(2) by auto
    then show ?thesis using black by (elim disjE) simp_all
  qed
  then show ?thesis by (simp add: pages_black_def)
qed

subsection \<open>Every step keeps it\<close>

lemma selectScaler_places:
  assumes "device_ok dev" and "v' = selectScaler rnd dev ratio w h p v" and "q = place rnd dev (mode dev v) ratio w h"
  shows "current rnd dev ratio v' = q" and "placed q (rend v')" and "true_w (rend v') = w" and "true_h (rend v') = h" and "src_p (rend v') = p"
    and "effect_type v' = Some e \<Longrightarrow> blit (rend v') = (e, r_scale (rend v'))"
    and "vsize (vid v') = (dst_w (rend v'), dst_h (rend v'), dst_p (rend v'))" and "whole_rows (vsize (vid v'))" and "page (vid v') = page (vid v)"
    and "mode dev v' = mode dev v" and "in_menu v' = in_menu v" and "restore v' = restore v" and "overlay_clear v' = overlay_clear v"
    and "next_effect v' = next_effect v" and "effect_type v' = effect_type v"
  using assms(2,3) place_pitch [OF assms(1), of rnd "mode dev v" ratio w h]
  by (simp_all add: selectScaler_def Let_def placed_def PLAT_resizeVideo_def GFX_getScaler_def mode_def [symmetric])
    (simp_all add: current_def mode_def)

lemma fit_frame_tuned:
  assumes "device_ok dev" and "video_inv rnd dev ratio pf v" and "\<not> in_menu v" and "frame_p f = pf (frame_w f) (frame_h f)"
    and "v' = fit_frame rnd dev ratio f v"
  shows "sizes_ok dev pf v' \<and> tuned rnd dev ratio pf v' \<and> true_w (rend v') = frame_w f \<and> true_h (rend v') = frame_h f
    \<and> \<not> in_menu v' \<and> mode dev v' = mode dev v \<and> next_effect v' = next_effect v \<and> overlay_clear v' = overlay_clear v"
proof (cases "dst_p (rend v) = 0 \<or> frame_w f \<noteq> true_w (rend v) \<or> frame_h f \<noteq> true_h (rend v)")
  case True
  define u where "u = selectScaler rnd dev ratio (frame_w f) (frame_h f) (frame_p f) v"
  have v': "v' = u\<lparr>vid := PLAT_clearAll (vid u)\<rparr>" using True assms(5) by (simp add: fit_frame_def u_def Let_def)
  note u = selectScaler_places [OF assms(1) u_def refl]
  have c: "current rnd dev ratio v' = current rnd dev ratio u" "mode dev v' = mode dev u" by (simp_all add: v' current_def mode_def)
  have "sizes_ok dev pf v" using assms(2) by (simp add: video_inv_def)
  then show ?thesis using u assms(3,4) clear_black [of "current rnd dev ratio u" _ "vid u"] c
    by (auto simp: v' sizes_ok_def tuned_def PLAT_clearAll_def PLAT_clearVideo_def)
next
  case False
  then have "v' = v" using assms(5) by (simp add: fit_frame_def)
  then show ?thesis using False assms(2,3) by (auto simp: video_inv_def)
qed

lemma current_cong: "rend v' = rend v \<Longrightarrow> scaling_mode v' = scaling_mode v \<Longrightarrow> current rnd dev ratio v' = current rnd dev ratio v"
  by (simp add: current_def mode_def)

lemma wipe_overlay_tuned:
  assumes "sizes_ok dev pf v" and "tuned rnd dev ratio pf v" and "v' = wipe_overlay f v"
  shows "sizes_ok dev pf v' \<and> tuned rnd dev ratio pf v' \<and> rend v' = rend v \<and> in_menu v' = in_menu v \<and> mode dev v' = mode dev v
    \<and> next_effect v' = next_effect v \<and> page (vid v') = page (vid v) \<and> effect_type v' = effect_type v
    \<and> (frame_overlay f = None \<and> \<not> in_menu v \<and> drawable (current rnd dev ratio v) (next_effect v) \<longrightarrow> pages_black (current rnd dev ratio v) (vid v'))
    \<and> (frame_overlay f \<noteq> None \<longrightarrow> overlay_clear v' > 0)"
proof -
  have "page (vid v) < 2" using assms(1) by (simp add: sizes_ok_def)
  moreover have "current rnd dev ratio v' = current rnd dev ratio v" using assms(3) by (auto simp: wipe_overlay_def intro!: current_cong)
  moreover have "mode dev v' = mode dev v" using assms(3) by (auto simp: wipe_overlay_def mode_def)
  ultimately show ?thesis using assms clear_black [of "current rnd dev ratio v" _ "vid v"]
    by (auto simp: wipe_overlay_def sizes_ok_def tuned_def PLAT_clearAll_def PLAT_clearVideo_def)
qed

lemma refresh_scaler_facts:
  assumes "\<forall>e. effect_type v = Some e \<longrightarrow> blit (rend v) = (e, r_scale (rend v))" and "v' = refresh_scaler v"
  shows "effect_type v' = Some (next_effect v)" "blit (rend v') = (next_effect v, r_scale (rend v))" "vid v' = vid v" "next_effect v' = next_effect v"
    "in_menu v' = in_menu v" "scaling_mode v' = scaling_mode v" "restore v' = restore v" "overlay_clear v' = overlay_clear v"
    "rend v' = (rend v)\<lparr>blit := (next_effect v, r_scale (rend v))\<rparr>"
  using assms by (auto simp: refresh_scaler_def GFX_getScaler_def)

lemma PLAT_blitRenderer_refreshed: "PLAT_blitRenderer s data v = PLAT_blitRenderer s data (refresh_scaler v)"
proof -
  have "refresh_scaler (refresh_scaler v) = refresh_scaler v" by (simp add: refresh_scaler_def)
  then show ?thesis by (simp add: PLAT_blitRenderer_def)
qed

lemma PLAT_blitRenderer_frame:
  "rend (PLAT_blitRenderer s data v) = rend (refresh_scaler v)" "effect_type (PLAT_blitRenderer s data v) = effect_type (refresh_scaler v)"
  "next_effect (PLAT_blitRenderer s data v) = next_effect v" "in_menu (PLAT_blitRenderer s data v) = in_menu v"
  "scaling_mode (PLAT_blitRenderer s data v) = scaling_mode v" "restore (PLAT_blitRenderer s data v) = restore v"
  "overlay_clear (PLAT_blitRenderer s data v) = overlay_clear v" "page (vid (PLAT_blitRenderer s data v)) = page (vid v)"
  "vcleared (vid (PLAT_blitRenderer s data v)) = vcleared (vid v)" "vsize (vid (PLAT_blitRenderer s data v)) = vsize (vid v)"
  by (simp_all add: PLAT_blitRenderer_def refresh_scaler_def Let_def split: prod.splits)

lemma blit_tuned:
  assumes "sizes_ok dev pf v" and "tuned rnd dev ratio pf v" and "\<And>w h. 0 < pf w h" and "v' = PLAT_blitRenderer s data v" and "q = current rnd dev ratio v"
  shows "sizes_ok dev pf v' \<and> current rnd dev ratio v' = q \<and> next_effect v' = next_effect v \<and> page (vid v') = page (vid v)
      \<and> (pages_black q (vid v) \<and> drawable q (next_effect v) \<longrightarrow> pages_black q (vid v')) \<and> tuned rnd dev ratio pf v'"
    and "drawable q (next_effect v) \<Longrightarrow> X < nat (p_dst_w q) \<Longrightarrow> fb (vid v') (pixel_at q (page (vid v)) X Y)
      = (if in_picture q X Y then frame_pixel q (next_effect v) s data (nat (src_p (rend v)) div 2) X Y else fb (vid v) (pixel_at q (page (vid v)) X Y))"
proof -
  define u where "u = refresh_scaler v"
  have eff: "\<forall>e. effect_type v = Some e \<longrightarrow> blit (rend v) = (e, r_scale (rend v))" using assms(2) by (simp add: tuned_def)
  note u = refresh_scaler_facts [OF eff u_def]
  have v': "v' = PLAT_blitRenderer s data u" using assms(4) PLAT_blitRenderer_refreshed u_def by simp
  have ready: "placed q (rend u)" "blit (rend u) = (next_effect v, r_scale (rend u))" "effect_type u = Some (next_effect u)" "0 < src_p (rend u)"
    using assms(2,3,5) u by (simp_all add: tuned_def placed_def)
  show pixel: "fb (vid v') (pixel_at q (page (vid v)) X Y)
      = (if in_picture q X Y then frame_pixel q (next_effect v) s data (nat (src_p (rend v)) div 2) X Y else fb (vid v) (pixel_at q (page (vid v)) X Y))"
    if "drawable q (next_effect v)" "X < nat (p_dst_w q)" for X Y
    using blit_pixel [OF ready(1) that(1) ready(2-4) that(2), of s data Y] u v' by simp
  have "bars q b (fb (vid v')) = bars q b (fb (vid v))" if d: "drawable q (next_effect v)" for b
  proof (cases "b = page (vid v)")
    case True
    then show ?thesis using pixel [OF d] by (simp add: bars_def cong: conj_cong)
  next
    case False
    have "fb (vid v') (pixel_at q b X Y) = fb (vid v) (pixel_at q b X Y)" if "X < nat (p_dst_w q)" "Y < nat (p_dst_h q)" for X Y
      using blit_outside [OF ready(1) d ready(2-4), of "pixel_at q b X Y" s data] pixel_page [OF that d] False u(3) v' by simp
    then show ?thesis by (simp add: bars_def cong: conj_cong)
  qed
  then have black: "drawable q (next_effect v) \<Longrightarrow> pages_black q (vid v') = pages_black q (vid v)"
    using PLAT_blitRenderer_frame(8,9) assms(4) by (simp add: pages_black_def)
  have cur: "current rnd dev ratio v' = q" using PLAT_blitRenderer_frame(1,5) [of s data v] assms(4,5) u u_def by (simp add: current_def mode_def)
  show "sizes_ok dev pf v' \<and> current rnd dev ratio v' = q \<and> next_effect v' = next_effect v \<and> page (vid v') = page (vid v)
      \<and> (pages_black q (vid v) \<and> drawable q (next_effect v) \<longrightarrow> pages_black q (vid v')) \<and> tuned rnd dev ratio pf v'"
    using assms(1,2,5) black cur u PLAT_blitRenderer_frame [of s data v, folded u_def assms(4)] unfolding sizes_ok_def tuned_def
    by (auto simp: placed_def)
qed

lemma flip_tuned:
  assumes "sizes_ok dev pf v" and "tuned rnd dev ratio pf v" and "v' = v\<lparr>vid := PLAT_flip (vid v)\<rparr>"
  shows "sizes_ok dev pf v' \<and> tuned rnd dev ratio pf v'"
proof -
  have "page (vid v) < 2" using assms(1) by (simp add: sizes_ok_def)
  moreover have "current rnd dev ratio v' = current rnd dev ratio v" using assms(3) by (simp add: current_def mode_def)
  ultimately show ?thesis using assms flip_black [of "current rnd dev ratio v" _ "vid v"]
    by (auto simp: sizes_ok_def tuned_def PLAT_flip_def PLAT_clearVideo_def Let_def)
qed

lemma overlay_tuned:
  assumes "sizes_ok dev pf v" and "tuned rnd dev ratio pf v" and "overlay_clear v > 0" and "v' = v\<lparr>vid := paint b g (vid v)\<rparr>"
  shows "sizes_ok dev pf v' \<and> tuned rnd dev ratio pf v'"
proof -
  have "current rnd dev ratio v' = current rnd dev ratio v" using assms(4) by (simp add: current_def mode_def)
  then show ?thesis using assms by (auto simp: sizes_ok_def tuned_def paint_def)
qed

lemma time_tuned:
  "sizes_ok dev pf (v\<lparr>last_flip_time := t\<rparr>) = sizes_ok dev pf v" "tuned rnd dev ratio pf (v\<lparr>last_flip_time := t\<rparr>) = tuned rnd dev ratio pf v"
  "video_inv rnd dev ratio pf (v\<lparr>fps_ticks := n\<rparr>) = video_inv rnd dev ratio pf v"
  by (simp_all add: sizes_ok_def tuned_def video_inv_def current_def mode_def)

lemma refresh_drawn:
  assumes "\<not> (frame_fast f \<and> frame_now f - last_flip_time v < 10)" and "frame_mem f = Some s"
    and "c = PLAT_blitRenderer s (frame_at f) (wipe_overlay f (fit_frame rnd dev ratio f (v\<lparr>fps_ticks := fps_ticks v + 1\<rparr>)))"
    and "d = (case frame_overlay f of Some ov \<Rightarrow> c\<lparr>vid := paint (page (vid c)) ov (vid c)\<rparr> | None \<Rightarrow> c)"
  shows "video_refresh_callback_main rnd dev ratio thread f v
      = (if thread then d else d\<lparr>vid := PLAT_flip (vid d)\<rparr>)\<lparr>last_flip_time := frame_done f\<rparr>"
  unfolding video_refresh_callback_main_def if_not_P [OF assms(1)] assms(2-4) option.case Let_def ..

lemma refresh_inv:
  assumes "device_ok dev" and "\<And>w h. 0 < pf w h" and "video_inv rnd dev ratio pf v" and "\<not> in_menu v" and "frame_p f = pf (frame_w f) (frame_h f)"
  shows "video_inv rnd dev ratio pf (video_refresh_callback_main rnd dev ratio thread f v)"
proof (cases "(frame_fast f \<and> frame_now f - last_flip_time v < 10) \<or> frame_mem f = None")
  case False
  then obtain s where s: "frame_mem f = Some s" by auto
  define a where "a = fit_frame rnd dev ratio f (v\<lparr>fps_ticks := fps_ticks v + 1\<rparr>)"
  define b where "b = wipe_overlay f a"
  define c where "c = PLAT_blitRenderer s (frame_at f) b"
  define d where "d = (case frame_overlay f of Some ov \<Rightarrow> c\<lparr>vid := paint (page (vid c)) ov (vid c)\<rparr> | None \<Rightarrow> c)"
  have a: "sizes_ok dev pf a" "tuned rnd dev ratio pf a" "\<not> in_menu a"
    using fit_frame_tuned [where pf = pf and f = f, OF assms(1) _ _ assms(5) a_def] assms(3,4) by (simp_all add: time_tuned)
  have b: "sizes_ok dev pf b" "tuned rnd dev ratio pf b" "frame_overlay f \<noteq> None \<longrightarrow> overlay_clear b > 0"
    using wipe_overlay_tuned [OF a(1,2) b_def] by simp_all
  have c: "sizes_ok dev pf c" "tuned rnd dev ratio pf c" using blit_tuned(1) [OF b(1,2) assms(2) c_def refl] by simp_all
  have "overlay_clear c = overlay_clear b" by (simp add: c_def PLAT_blitRenderer_frame)
  then have d: "sizes_ok dev pf d \<and> tuned rnd dev ratio pf d" using overlay_tuned [OF c] c b(3) by (auto simp: d_def split: option.split)
  then have "sizes_ok dev pf (d\<lparr>vid := PLAT_flip (vid d)\<rparr>) \<and> tuned rnd dev ratio pf (d\<lparr>vid := PLAT_flip (vid d)\<rparr>)" using flip_tuned [of dev pf d rnd ratio] by blast
  moreover have "video_refresh_callback_main rnd dev ratio thread f v
      = (if thread then d else d\<lparr>vid := PLAT_flip (vid d)\<rparr>)\<lparr>last_flip_time := frame_done f\<rparr>"
    using False by (intro refresh_drawn [OF _ s]) (simp_all only: a_def b_def c_def d_def de_Morgan_disj not_False_eq_True)
  ultimately show ?thesis using d by (simp add: video_inv_def time_tuned)
qed (use assms(3) in \<open>auto simp: video_refresh_callback_main_def\<close>)

lemma menu_inv:
  assumes "device_ok dev" and "video_inv rnd dev ratio pf v"
  shows "\<not> in_menu v \<Longrightarrow> video_inv rnd dev ratio pf (enter_menu dev v)"
    and "in_menu v \<Longrightarrow> video_inv rnd dev ratio pf (v\<lparr>vid := paint b g (vid v)\<rparr>)"
    and "in_menu v \<Longrightarrow> true_w (rend v) \<noteq> 0 \<Longrightarrow> video_inv rnd dev ratio pf (menu_rescale rnd dev ratio v)"
    and "in_menu v \<Longrightarrow> video_inv rnd dev ratio pf (leave_menu dev v)"
proof -
  have ok: "sizes_ok dev pf v" "dst_p (rend v) \<noteq> 0 \<longrightarrow> tuned rnd dev ratio pf v" using assms(2) by (simp_all add: video_inv_def)
  have dev: "DEVICE_PITCH dev = 2 * DEVICE_WIDTH dev" using assms(1) by (simp add: device_ok_def)
  obtain x y z where sz: "vsize (vid v) = (x, y, z)" by (cases "vsize (vid v)") auto
  obtain x' y' z' where rs: "restore v = (x', y', z')" by (cases "restore v") auto
  show "video_inv rnd dev ratio pf (enter_menu dev v)" if "\<not> in_menu v"
  proof -
    have "current rnd dev ratio (enter_menu dev v) = current rnd dev ratio v" by (auto simp: enter_menu_def PLAT_setEffect_def intro!: current_cong)
    then show ?thesis using ok that dev sz
      by (auto simp: video_inv_def enter_menu_def PLAT_setEffect_def sizes_ok_def tuned_def resize_to_def PLAT_resizeVideo_def Let_def)
  qed
  show "video_inv rnd dev ratio pf (v\<lparr>vid := paint b g (vid v)\<rparr>)" if "in_menu v"
    using ok that by (auto simp: video_inv_def sizes_ok_def tuned_def paint_def current_def mode_def)
  show "video_inv rnd dev ratio pf (menu_rescale rnd dev ratio v)" if "in_menu v" "true_w (rend v) \<noteq> 0"
  proof -
    define u where "u = selectScaler rnd dev ratio (true_w (rend v)) (true_h (rend v)) (src_p (rend v)) v"
    define w where "w = u\<lparr>restore := vsize (vid u), vid := PLAT_resizeVideo (DEVICE_WIDTH dev) (DEVICE_HEIGHT dev) (DEVICE_PITCH dev) (vid u)\<rparr>"
    have w: "menu_rescale rnd dev ratio v = w" by (simp add: menu_rescale_def u_def w_def Let_def)
    have "current rnd dev ratio w = current rnd dev ratio u" unfolding w_def by (rule current_cong) simp_all
    then show ?thesis using selectScaler_places [OF assms(1) u_def refl] ok that dev unfolding w
      by (auto simp: w_def video_inv_def sizes_ok_def tuned_def PLAT_resizeVideo_def Let_def)
  qed
  show "video_inv rnd dev ratio pf (leave_menu dev v)" if "in_menu v"
  proof -
    have cur: "current rnd dev ratio (leave_menu dev v) = current rnd dev ratio v" by (auto simp: leave_menu_def PLAT_setEffect_def Let_def intro!: current_cong)
    have "pages_black q (vid (leave_menu dev v))" if "drawable q e" for q e
      using bars_cleared [OF that] ok(1)
      by (auto simp: leave_menu_def PLAT_setEffect_def pages_black_def PLAT_clearVideo_def PLAT_clearAll_def PLAT_resizeVideo_def resize_to_def rs Let_def sizes_ok_def)
    then show ?thesis using ok that dev sz rs cur unfolding video_inv_def sizes_ok_def tuned_def
      by (auto simp: leave_menu_def PLAT_setEffect_def resize_to_def PLAT_resizeVideo_def PLAT_clearVideo_def PLAT_clearAll_def Let_def)
  qed
qed

lemma video_inv_step:
  assumes "device_ok dev" and "\<And>w h. 0 < pf w h" and "video_step rnd dev ratio pf v v'" and "video_inv rnd dev ratio pf v"
  shows "video_inv rnd dev ratio pf v'"
  using assms(3)
proof cases
  case (frame f thread)
  then show ?thesis using refresh_inv [OF assms(1,2,4)] by simp
next
  case flip
  then have "sizes_ok dev pf v'" using assms(4) by (auto simp: video_inv_def sizes_ok_def PLAT_flip_def PLAT_clearVideo_def Let_def)
  then show ?thesis using flip flip_tuned [of dev pf v rnd ratio v'] assms(4) by (auto simp: video_inv_def)
next
  case clear
  have cur: "current rnd dev ratio v' = current rnd dev ratio v" unfolding clear by (rule current_cong) simp_all
  have "page (vid v) < 2" using assms(4) by (simp add: video_inv_def sizes_ok_def)
  then have "pages_black q (vid v')" if "drawable q e" for q e using clear_black [OF that] clear by simp
  then show ?thesis using assms(4) cur by (auto simp: clear video_inv_def sizes_ok_def tuned_def PLAT_clearAll_def PLAT_clearVideo_def)
qed (use assms(4) menu_inv [OF assms(1,4)] in \<open>auto simp: video_inv_def sizes_ok_def sync_scaling_def sync_effect_def PLAT_setSharpness_def PLAT_setEffect_def
  Let_def split: option.split\<close>)

lemma fit_frame_page: "page (vid (fit_frame rnd dev ratio f v)) = page (vid v)"
  by (simp add: fit_frame_def selectScaler_def PLAT_clearAll_def PLAT_clearVideo_def PLAT_resizeVideo_def Let_def)

lemma video_inv_init: "video_inv rnd rg35xx ratio pf video_init"
  by (simp add: video_inv_def sizes_ok_def video_init_def)

lemma video_inv_reachable:
  assumes "\<And>w h. 0 < pf w h" and "(video_step rnd rg35xx ratio pf)\<^sup>*\<^sup>* video_init v"
  shows "video_inv rnd rg35xx ratio pf v"
proof -
  have dev: "device_ok rg35xx" by (simp add: device_ok_def rg35xx_def)
  show ?thesis using assms(2)
    by (induction rule: rtranclp_induct) (auto intro: video_inv_init video_inv_step [OF dev assms(1)])
qed

text \<open>C8: what the player sees on the rg35xx when the core runs in the frontend's own thread. At any point of a session with frames of any sizes whose
  row length depends on their size alone, changes of scaling and effect, overlays and visits to the menu, a frame that is not skipped by
  fast-forward, comes without the frontend's overlay and is drawable (its enlargement lies inside its surface and the surface inside a page, and there is a scaler for
  the factor: at most six, two to four with the line effect) ends on the page that is shown: each pixel of the surface inside the
  picture has the colour of its source pixel under the chosen effect, and everything around it is black, whatever was painted there before.\<close>

theorem frame_on_screen:
  assumes "\<And>w h. 0 < pf w h" and "(video_step rnd rg35xx ratio pf)\<^sup>*\<^sup>* video_init v" and "\<not> in_menu v"
    and "frame_mem f = Some s" and "\<not> (frame_fast f \<and> frame_now f - last_flip_time v < 10)" and "frame_overlay f = None"
    and "frame_p f = pf (frame_w f) (frame_h f)"
    and "q = place rnd rg35xx (if scaling_mode v = SCALE_CROPPED then SCALE_NATIVE else scaling_mode v) ratio (frame_w f) (frame_h f)"
    and "drawable q (next_effect v)" and "int X < p_dst_w q" and "int Y < p_dst_h q"
  shows "let c = vid (video_refresh_callback_main rnd rg35xx ratio False f v) in
    shown c = page (vid v) \<and> vsize c = (p_dst_w q, p_dst_h q, p_dst_p q)
    \<and> fb c (pixel_at q (shown c) X Y) = (if in_picture q X Y then frame_pixel q (next_effect v) s (frame_at f) (nat (frame_p f) div 2) X Y else 0)"
proof -
  have dev: "device_ok rg35xx" by (simp add: device_ok_def rg35xx_def)
  note inv = video_inv_reachable [OF assms(1,2)]
  define a where "a = fit_frame rnd rg35xx ratio f (v\<lparr>fps_ticks := fps_ticks v + 1\<rparr>)"
  define b where "b = wipe_overlay f a"
  define c where "c = PLAT_blitRenderer s (frame_at f) b"
  have a: "sizes_ok rg35xx pf a" "tuned rnd rg35xx ratio pf a" "\<not> in_menu a" "true_w (rend a) = frame_w f" "true_h (rend a) = frame_h f"
    "mode rg35xx a = mode rg35xx v" "next_effect a = next_effect v"
    using fit_frame_tuned [where pf = pf and f = f, OF dev _ _ assms(7) a_def] inv assms(3) by (simp_all add: time_tuned mode_def)
  have q: "current rnd rg35xx ratio a = q" using a(4-6) assms(8) by (simp add: current_def mode_def rg35xx_def)
  have b: "sizes_ok rg35xx pf b" "tuned rnd rg35xx ratio pf b" "rend b = rend a" "next_effect b = next_effect v" "pages_black q (vid b)" "mode rg35xx b = mode rg35xx a"
    using wipe_overlay_tuned [OF a(1,2) b_def] a(3,7) assms(6,9) q by simp_all
  have qb: "q = current rnd rg35xx ratio b" using q b(3,6) by (simp add: current_def)
  have lt: "X < nat (p_dst_w q)" "Y < nat (p_dst_h q)" using assms(10,11) by auto
  have p: "src_p (rend b) = frame_p f" using a(2,4,5) b(3) assms(7) by (simp add: tuned_def)
  note c = blit_tuned(1) [OF b(1,2) assms(1) c_def qb] and pixel = blit_tuned(2) [OF b(1,2) assms(1) c_def qb]
  have black: "fb (vid b) (pixel_at q (page (vid b)) X Y) = 0" if "\<not> in_picture q X Y"
    using b(1,5) lt that by (auto simp: pages_black_def bars_def sizes_ok_def)
  have shown: "fb (vid c) (pixel_at q (page (vid c)) X Y)
      = (if in_picture q X Y then frame_pixel q (next_effect v) s (frame_at f) (nat (frame_p f) div 2) X Y else 0)"
    using pixel [of X Y] c b(4) assms(9) lt(1) black p by simp
  have "in_menu c = in_menu a" using wipe_overlay_tuned [OF a(1,2) b_def] by (simp add: c_def PLAT_blitRenderer_frame)
  then have size: "vsize (vid c) = (p_dst_w q, p_dst_h q, p_dst_p q)" using c a(3) by (simp add: tuned_def placed_def)
  have other: "page (vid c) \<noteq> 1 - page (vid c)" using c by (simp add: sizes_ok_def) arith
  have final: "vid (video_refresh_callback_main rnd rg35xx ratio False f v) = PLAT_flip (vid c)"
    using refresh_drawn [OF assms(5,4), of c rnd rg35xx ratio c False] assms(6) by (simp add: a_def b_def c_def)
  have keep: "fb (PLAT_flip (vid c)) (pixel_at q (page (vid c)) X Y) = fb (vid c) (pixel_at q (page (vid c)) X Y)"
    using pixel_page [OF lt assms(9)] other by (simp add: PLAT_flip_def PLAT_clearVideo_def Let_def)
  have "shown (PLAT_flip (vid c)) = page (vid c)" "vsize (PLAT_flip (vid c)) = vsize (vid c)"
    by (simp_all add: PLAT_flip_def PLAT_clearVideo_def Let_def)
  moreover have "page (vid c) = page (vid v)"
    using c wipe_overlay_tuned [OF a(1,2) b_def] fit_frame_page [of rnd rg35xx ratio f "v\<lparr>fps_ticks := fps_ticks v + 1\<rparr>"] by (simp add: a_def)
  ultimately show ?thesis using shown size keep final by (simp add: Let_def)
qed

theorem frame_on_screen_witness:
  "fb (vid (video_refresh_callback_main id rg35xx (4 / 3) False
     \<lparr>frame_mem = Some of_nat, frame_at = 0, frame_w = 320, frame_h = 240, frame_p = 640, frame_fast = False, frame_now = 0, frame_done = 0,
      frame_overlay = None\<rparr> video_init)) (2764800 + 2 * 640 + 3) = 321"
proof -
  let ?f = "\<lparr>frame_mem = Some of_nat, frame_at = 0, frame_w = 320, frame_h = 240, frame_p = 640, frame_fast = False, frame_now = 0, frame_done = 0,
      frame_overlay = None\<rparr>"
  let ?c = "vid (video_refresh_callback_main id rg35xx (4 / 3) False ?f video_init)"
  have q: "place id rg35xx (if scaling_mode video_init = SCALE_CROPPED then SCALE_NATIVE else scaling_mode video_init) (4 / 3) (frame_w ?f) (frame_h ?f)
      = oversized 2 320 240 0 0 640 480"
    by (simp add: place_def rg35xx_def oversize_scale_def aspect_scale_def video_init_def CEIL_DIV_def cdiv_def to_int_def Let_def)
  have d: "drawable (oversized 2 320 240 0 0 640 480) (next_effect video_init)"
    by (simp add: drawable_def frame_fits_def oversized_def PAGE_PIXELS_def video_init_def)
  define Q where "Q = oversized 2 320 240 0 0 640 480"
  have v: "\<not> in_menu video_init" "next_effect video_init = EFFECT_NONE" "page (vid video_init) = 1" by (simp_all add: video_init_def)
  have pixel: "in_picture Q 3 2" "frame_pixel Q EFFECT_NONE of_nat 0 320 3 2 = 321" "pixel_at Q 1 3 2 = 2764800 + 2 * 640 + 3"
    "p_dst_w Q = 640" "p_dst_h Q = 480"
    by (simp_all add: Q_def in_picture_def oversized_def frame_pixel_def scaler_colour_def pixel_at_def PAGE_PIXELS_def)
  show ?thesis
    using frame_on_screen [of "\<lambda>_ _. 640" id "4 / 3" video_init ?f of_nat, OF _ _ _ _ _ _ _ refl, of 3 2] d v pixel
    unfolding q Q_def [symmetric] by (auto simp: Let_def simp del: One_nat_def cong: if_cong)
qed

subsection \<open>Frames that fit\<close>

lemma CEIL_DIV_mult: "0 < b \<Longrightarrow> 0 < a \<Longrightarrow> b * CEIL_DIV a b \<le> a + b - 1"
proof -
  assume "0 < b" "0 < a"
  then have "0 \<le> (a + b - 1) mod b" by (intro pos_mod_sign)
  moreover have "b * CEIL_DIV a b = a + b - 1 - (a + b - 1) mod b"
    using \<open>0 < b\<close> \<open>0 < a\<close> by (simp add: CEIL_DIV_def cdiv_pos minus_mod_eq_mult_div [symmetric])
  ultimately show ?thesis by linarith
qed

lemma CEIL_DIV_le: "0 < b \<Longrightarrow> 0 < a \<Longrightarrow> a \<le> k * b \<Longrightarrow> CEIL_DIV a b \<le> k"
proof -
  assume "0 < b" "0 < a" "a \<le> k * b"
  then have "(a + b - 1) div b \<le> (b - 1 + k * b) div b" by (intro zdiv_mono1) simp_all
  then show ?thesis using \<open>0 < b\<close> \<open>0 < a\<close> by (simp add: CEIL_DIV_def cdiv_pos)
qed

lemma oversize_rg35xx:
  assumes "160 \<le> w" and "w \<le> 640" and "120 \<le> h" and "h \<le> 480" and "n = oversize_scale rg35xx w h"
  shows "1 \<le> n" and "n \<le> 4" and "(w * n) * (h * n) \<le> int PAGE_PIXELS"
proof -
  let ?x = "CEIL_DIV 640 w" and ?y = "CEIL_DIV 480 h"
  have b: "1 \<le> ?x" "?x \<le> 4" "1 \<le> ?y" "?y \<le> 4" using assms(1-4) CEIL_DIV_bounds [of w 640] CEIL_DIV_bounds [of h 480] CEIL_DIV_le [of w 640 4] CEIL_DIV_le [of h 480 4] by auto
  have n: "n = ?x \<or> n \<le> ?y" "1 \<le> n" "n \<le> 4" using b unfolding assms(5) by (auto simp: oversize_scale_def rg35xx_def Let_def max_def)
  then show "1 \<le> n" "n \<le> 4" by simp_all
  have top: "w * n \<le> 640 * 4" "h * n \<le> 480 * 4" "0 \<le> w * n" "0 \<le> h * n" using assms(1-4) n by (intro mult_mono mult_nonneg_nonneg; simp)+
  have "w * n \<le> 1279 \<or> h * n \<le> 959"
  proof (cases "n = ?x")
    case True
    then show ?thesis using CEIL_DIV_mult [of w 640] assms(1,2) by simp
  next
    case False
    then have "h * n \<le> h * ?y" using n(1) assms(3) by (intro mult_left_mono) auto
    also have "\<dots> \<le> 480 + h - 1" using CEIL_DIV_mult [of h 480] assms(3) by simp
    finally show ?thesis using assms(4) by simp
  qed
  then have "(w * n) * (h * n) \<le> 1279 * (480 * 4) \<or> (w * n) * (h * n) \<le> (640 * 4) * 959" using top by (metis mult_mono order_trans top zero_le_numeral)
  then show "(w * n) * (h * n) \<le> int PAGE_PIXELS" by (auto simp: PAGE_PIXELS_def)
qed

lemma rnd_half_quotient:
  \<comment> \<open>dividing by a rounded ratio that is at least one half does not more than double a number\<close>
  assumes "double_rounding rnd" and "0 < m" and "m \<le> 2 * k" and "0 \<le> n" and "n \<le> 2 ^ 52"
  shows "to_int (rnd (of_int n / rnd (of_int k / of_int m))) \<le> 2 * n"
proof -
  let ?r = "rnd (of_int k / of_int m)"
  have "(of_int m :: rat) \<le> of_int (2 * k)" using assms(3) by (simp only: of_int_le_iff)
  then have "1 / 2 \<le> (of_int k / of_int m :: rat)" using assms(2) by (simp add: le_divide_eq)
  then have half: "1 / 2 \<le> ?r" using rnd_laws(3) [OF assms(1), of 1 1] by simp
  then have "of_int n / ?r \<le> of_int n / (1 / 2)" using assms(4) by (intro divide_left_mono) auto
  then have "rnd (of_int n / ?r) \<le> rnd (of_int (2 * n))" using rnd_laws(1) [OF assms(1)] by simp
  also have "\<dots> = of_int (2 * n)" using assms(4,5) by (intro rnd_laws(2) [OF assms(1)]) simp
  finally show ?thesis by (rule to_int_le)
qed

lemma aspect_sides:
  \<comment> \<open>comparing the rounded aspects in thousandths tells on which side of the screen's the core's is\<close>
  assumes "double_rounding rnd" and "rnd ratio = ratio"
  shows "to_int (rnd (rnd c * 1000)) < to_int (rnd (ratio * 1000)) \<Longrightarrow> c \<le> ratio"
    and "to_int (rnd (ratio * 1000)) < to_int (rnd (rnd c * 1000)) \<Longrightarrow> ratio \<le> c"
proof -
  have mono: "x \<le> y \<Longrightarrow> to_int (rnd (x * 1000)) \<le> to_int (rnd (y * 1000))" for x y
    by (intro to_int_mono rnd_laws(1) [OF assms(1)]) simp
  show "c \<le> ratio" if "to_int (rnd (rnd c * 1000)) < to_int (rnd (ratio * 1000))"
    using mono [of ratio "rnd c"] rnd_laws(1) [OF assms(1), of ratio c] assms(2) that by (metis leD linorder_le_cases)
  show "ratio \<le> c" if "to_int (rnd (ratio * 1000)) < to_int (rnd (rnd c * 1000))"
    using mono [of "rnd c" ratio] rnd_laws(1) [OF assms(1), of c ratio] assms(2) that by (metis leD linorder_le_cases)
qed

lemma rnd_int_bounds:
  assumes "double_rounding rnd" and "0 \<le> n" and "n \<le> 2 ^ 53"
  shows "of_int n \<le> x \<Longrightarrow> n \<le> to_int (rnd x)" and "x \<le> of_int n \<Longrightarrow> to_int (rnd x) \<le> n"
  using rnd_laws(1) [OF assms(1), of "of_int n" x] rnd_laws(1) [OF assms(1), of x "of_int n"] rnd_laws(2) [OF assms(1), of n] assms(2,3)
  by (auto intro: to_int_ge to_int_le)

lemma aspect_fits:
  assumes "double_rounding rnd" and "rnd ratio = ratio" and "2 / 3 \<le> ratio" and "ratio \<le> 8 / 3" and "8 dvd w" and "0 < w" and "0 < h"
    and "1 \<le> n" and "2 * ((w * n) * (h * n)) \<le> int PAGE_PIXELS" and "q = aspect_scale rnd rg35xx ratio n w h"
  shows "frame_fits q \<and> p_dst_w q * p_dst_h q \<le> int PAGE_PIXELS \<and> p_scale q = n \<and> p_src_w q = w \<and> p_src_h q = h"
proof -
  let ?W = "w * n" and ?H = "h * n" and ?c = "640 / 480 :: rat"
  let ?core = "to_int (rnd (ratio * 1000))" and ?fixed = "to_int (rnd (rnd ?c * 1000))"
  have pos: "0 < ?W" "0 < ?H" using assms(6-8) by simp_all
  have le: "x \<le> 2 ^ 52" if "x * y \<le> 2 ^ 52" "0 < x" "0 < y" for x y :: int
  proof -
    have "x * 1 \<le> x * y" using that by (intro mult_left_mono) auto
    then show ?thesis using that(1) by simp
  qed
  have "2 * (?W * ?H) \<le> 2 * 2 ^ 52" using assms(9) by (rule order_trans) (simp add: PAGE_PIXELS_def)
  then have "?W * ?H \<le> 2 ^ 52" by (simp only: mult_le_cancel_left_pos zero_less_numeral)
  then have small: "?W \<le> 2 ^ 52" "?H \<le> 2 ^ 52" using le [of ?W ?H] le [of ?H ?W] pos by (simp_all only: mult.commute)
  consider "?fixed < ?core" | "?core < ?fixed" | "?core = ?fixed" by linarith
  then show ?thesis
  proof cases
    case 1
    let ?a = "to_int (rnd (640 / ratio))"
    have "?c \<le> ratio" using 1 by (rule aspect_sides(1) [OF assms(1,2)])
    then have "640 / ratio \<le> 480" "240 \<le> 640 / ratio" using assms(3,4) by (simp_all add: divide_le_eq le_divide_eq)
    then have a: "?a \<le> 480" "240 \<le> ?a" using rnd_int_bounds [OF assms(1), of 480] rnd_int_bounds [OF assms(1), of 240] by simp_all
    define d where "d = to_int (rnd (of_int ?H / rnd (of_int ?a / 480)))"
    have d: "?H \<le> d" "d \<le> 2 * ?H"
      using rnd_quotient [OF assms(1), of ?a 480 ?H] rnd_half_quotient [OF assms(1), of 480 ?a ?H] a pos small by (simp_all add: d_def)
    have q: "q = oversized n w h 0 (cdiv (d - ?H) 2) ?W d" using 1 assms(10) by (simp add: aspect_scale_def rg35xx_def Let_def d_def)
    have "?W * d \<le> ?W * (2 * ?H)" using d(2) pos by (intro mult_left_mono) auto
    then show ?thesis using centred [OF d(1)] assms(8,9) by (simp add: q frame_fits_def oversized_def mult.left_commute)
  next
    case 2
    let ?a = "to_int (rnd (480 * ratio))"
    have "ratio \<le> ?c" using 2 by (rule aspect_sides(2) [OF assms(1,2)])
    then have "480 * ratio \<le> 640" "320 \<le> 480 * ratio" using assms(3,4) by simp_all
    then have a: "?a \<le> 640" "320 \<le> ?a" using rnd_int_bounds [OF assms(1), of 640] rnd_int_bounds [OF assms(1), of 320] by simp_all
    define d where "d = to_int (rnd (of_int ?W / rnd (of_int ?a / 640)))"
    have d: "?W \<le> d" "d \<le> 2 * ?W"
      using rnd_quotient [OF assms(1), of ?a 640 ?W] rnd_half_quotient [OF assms(1), of 640 ?a ?W] a pos small by (simp_all add: d_def)
    define e where "e = cdiv d 8 * 8"
    have "?W = ?W div 8 * 8" using assms(5) by simp
    also have "\<dots> \<le> d div 8 * 8" using d(1) by (intro mult_right_mono zdiv_mono1) auto
    finally have "?W \<le> d div 8 * 8" .
    moreover have "e = d div 8 * 8" using d(1) pos(1) unfolding e_def by (simp add: cdiv_pos)
    moreover have "d div 8 * 8 \<le> d" by simp
    ultimately have e: "?W \<le> e" "e \<le> 2 * ?W" using d(2) by linarith+
    have q: "q = oversized n w h (cdiv (e - ?W) 2) 0 e ?H" using 2 assms(10) by (simp add: aspect_scale_def rg35xx_def Let_def d_def e_def)
    have "e * ?H \<le> (2 * ?W) * ?H" using e(2) pos by (intro mult_right_mono) auto
    then show ?thesis using centred [OF e(1)] assms(8,9) by (simp add: q frame_fits_def oversized_def mult.assoc)
  next
    case 3
    then have "q = oversized n w h 0 0 ?W ?H" using assms(10) by (simp add: aspect_scale_def rg35xx_def Let_def)
    then show ?thesis using assms(8,9) pos by (simp add: frame_fits_def oversized_def)
  qed
qed

text \<open>C18: frames of the usual sizes fit where they are not cropped. For a frame between 160 by 120 and 640 by 480 pixels and
  with any rounding of doubles, the enlarged frame lies inside its surface, the surface lies inside a page of the frame
  buffer, and there is a scaler for the factor: in native and full-screen scaling always, and with the core's own aspect for a width of
  whole groups of eight pixels, an exact aspect between 2:3 and 8:3 and half a page of room.\<close>

theorem frame_placed:
  assumes "double_rounding rnd" and "160 \<le> w" and "w \<le> 640" and "120 \<le> h" and "h \<le> 480" and "m \<noteq> SCALE_CROPPED"
    and "m = SCALE_ASPECT \<longrightarrow> rnd ratio = ratio \<and> 2 / 3 \<le> ratio \<and> ratio \<le> 8 / 3 \<and> 8 dvd w
           \<and> 2 * ((w * oversize_scale rg35xx w h) * (h * oversize_scale rg35xx w h)) \<le> int PAGE_PIXELS"
    and "q = place rnd rg35xx m ratio w h"
  shows "drawable q EFFECT_NONE \<and> p_scale q \<le> 4 \<and> p_src_w q = w \<and> p_src_h q = h"
proof -
  note over = oversize_rg35xx [OF assms(2-5) refl]
  consider "m = SCALE_NATIVE" | "m = SCALE_FULLSCREEN" | "m = SCALE_ASPECT" using assms(6) by (cases m) auto
  then show ?thesis
  proof cases
    case 1
    define n where "n = min (cdiv 640 w) (cdiv 480 h)"
    have d: "cdiv 640 w = 640 div w" "cdiv 480 h = 480 div h" using assms(2,4) by (simp_all add: cdiv_pos)
    have "w div w \<le> 640 div w" "h div h \<le> 480 div h" using assms(2-5) by (intro zdiv_mono1; simp)+
    then have one: "1 \<le> n" using assms(2,4) by (simp add: n_def d)
    have "640 div w \<le> 640 div 160" using assms(2) by (intro zdiv_mono2) simp_all
    then have four: "n \<le> 4" by (simp add: n_def d)
    have "frame_fits (integer_scale rg35xx n w h)"
    proof (rule integer_fits)
      show "n \<noteq> 0" using one by linarith
    qed (use assms(2,4) in \<open>simp_all add: device_ok_def rg35xx_def n_def\<close>)
    moreover have "q = integer_scale rg35xx n w h"
    proof -
      have "min (cdiv (DEVICE_WIDTH rg35xx) w) (cdiv (DEVICE_HEIGHT rg35xx) h) = n" by (simp add: n_def rg35xx_def)
      then show ?thesis using 1 assms(8) one by (simp add: place_def Let_def)
    qed
    ultimately show ?thesis using four assms(2,4) by (simp add: drawable_def integer_scale_def rg35xx_def PAGE_PIXELS_def)
  next
    case 2
    then have "q = oversized (oversize_scale rg35xx w h) w h 0 0 (w * oversize_scale rg35xx w h) (h * oversize_scale rg35xx w h)"
      using assms(8) by (simp add: place_def Let_def)
    then show ?thesis using over assms(2,4) by (simp add: drawable_def oversized_def frame_fits_def)
  next
    case 3
    then have "q = aspect_scale rnd rg35xx ratio (oversize_scale rg35xx w h) w h" using assms(8) by (simp add: place_def Let_def)
    from aspect_fits [OF assms(1) _ _ _ _ _ _ over(1) _ this] show ?thesis using 3 assms(2,4,7) over(2) by (simp add: drawable_def)
  qed
qed

lemma double_rounding_id: "double_rounding id"
  by (simp add: double_rounding_def mono_def)

theorem frame_placed_witness:
  "drawable (place id rg35xx SCALE_ASPECT (3 / 2) 240 160) EFFECT_NONE"
  using frame_placed [OF double_rounding_id, of 240 160 SCALE_ASPECT "3 / 2"]
  by (simp add: oversize_scale_def rg35xx_def CEIL_DIV_def cdiv_def PAGE_PIXELS_def)

end
