(* ===== verification/Running.thy ===== *)
theory Running
  imports Environment Video "HOL-Library.Sublist"
begin

text \<open>
  Running a game in the emulator frontend (\<open>minarch/minarch.c\<close>): what loading and leaving a core does to the saves
  (\<open>Core_open\<close>, \<open>Core_load\<close>, \<open>Core_quit\<close>), handing frames from the core's thread to the screen
  (\<open>video_refresh_callback\<close> and the main loop), holding back fast-forward (\<open>limitFF\<close>), and restarting when a display
  is plugged in (\<open>hdmimon\<close>).

  What the core does when it boots a game is an argument. Times are microseconds; the clock does not reach the end of 64
  bits, but the elapsed time is the 32-bit \<open>int\<close> of the source.
\<close>

subsection \<open>Cores\<close>

record system_info =
  library_name :: string
  library_version :: string
  valid_extensions :: string
  full_path :: bool

record core_names =
  c_name :: string
  c_version :: string
  c_tag :: string
  c_extensions :: string
  c_fullpath :: bool
  c_config_dir :: string
  c_states_dir :: string
  c_saves_dir :: string
  c_bios_dir :: string

definition Core_getName :: "string \<Rightarrow> string option" where
  \<comment> \<open>a name without an underscore makes the code follow a null pointer\<close>
  "Core_getName p = map_option (\<lambda>i. take i (basename p)) (strrchr (basename p) (CHR ''_''))"

definition Core_open :: "string \<Rightarrow> string \<Rightarrow> string \<Rightarrow> system_info \<Rightarrow> core_names option" where
  \<comment> \<open>the first argument is \<open>USERDATA_PATH\<close>; the folders for settings and states are then made\<close>
  "Core_open userdata core_path tag_name info =
     map_option (\<lambda>n. let tag = snprintf_buf 8 tag_name in
       \<lparr>c_name = n, c_version = library_name info @ '' ('' @ library_version info @ '')'', c_tag = tag,
        c_extensions = snprintf_buf 128 (valid_extensions info), c_fullpath = full_path info,
        c_config_dir = userdata @ ''/'' @ tag @ ''-'' @ n, c_states_dir = SHARED_USERDATA_PATH @ ''/'' @ tag @ ''-'' @ n,
        c_saves_dir = SDCARD_PATH @ ''/Saves/'' @ tag, c_bios_dir = SDCARD_PATH @ ''/Bios/'' @ tag\<rparr>) (Core_getName core_path)"

record av_info =
  av_fps :: rat
  av_rate :: rat
  av_aspect :: rat
  base_width :: nat
  base_height :: nat

record running =
  rcore :: core
  rfps :: rat
  rrate :: rat
  raspect :: rat

definition Core_load :: "(rat \<Rightarrow> rat) \<Rightarrow> (string \<Rightarrow> string option \<Rightarrow> core \<times> av_info) \<Rightarrow> game \<Rightarrow> fs \<Rightarrow> running" where
  "Core_load rnd boot g fs =
     (let (c, av) = boot (if tmp_path g \<noteq> [] then tmp_path g else gpath g) (gdata g);
          c = SRAM_read (gname g) fs c; c = RTC_read (gname g) fs c;
          a = av_aspect av; a = (if a \<le> 0 then rnd (of_nat (base_width av) / of_nat (base_height av)) else a)
      in \<lparr>rcore = c, rfps = av_fps av, rrate = av_rate av, raspect = a\<rparr>)"

definition Core_quit :: "bool \<Rightarrow> core \<Rightarrow> string \<Rightarrow> nat \<Rightarrow> fs \<Rightarrow> bool \<times> fs" where
  \<comment> \<open>the flag is \<open>core.initialized\<close>\<close>
  "Core_quit ready c nm spc fs =
     (if ready
      then (let fs = last (SRAM_write c nm spc fs); fs = last (RTC_write c nm spc fs) in (False, fs))
      else (ready, fs))"

definition finish :: "bool \<Rightarrow> core \<Rightarrow> nat \<Rightarrow> game \<Rightarrow> fs \<Rightarrow> fs" where
  \<comment> \<open>the end of \<open>main\<close>\<close>
  "finish ready c spc g fs = (let (g, fs) = Game_close g fs in snd (Core_quit ready c (gname g) spc fs))"

subsection \<open>A core in a thread of its own\<close>

record shot =
  shot_w :: nat
  shot_h :: nat
  shot_p :: nat
  bytes :: "u8 list"

record handoff =
  backbuffer :: "shot option"
  frame_ready :: bool
  stopping :: bool                                \<comment> \<open>\<open>quit\<close>\<close>
  produced :: "shot list"                         \<comment> \<open>what the core has handed over, in order\<close>
  displayed :: "shot list"                        \<comment> \<open>what the main thread has drawn, in order\<close>

definition copy_shot :: "u8 list \<Rightarrow> shot \<Rightarrow> shot option \<Rightarrow> shot" where
  \<comment> \<open>\<open>fresh\<close>: what newly allocated memory holds\<close>
  "copy_shot fresh f b =
     (let b = (case b of Some x \<Rightarrow> if shot_w x \<noteq> shot_w f \<or> shot_h x \<noteq> shot_h f \<or> shot_p x \<noteq> shot_p f then None else Some x | None \<Rightarrow> None);
          x = (case b of Some x \<Rightarrow> x | None \<Rightarrow> \<lparr>shot_w = shot_w f, shot_h = shot_h f, shot_p = shot_p f, bytes = take (shot_h f * shot_p f) fresh\<rparr>);
          n = shot_h x * shot_p x
      in x\<lparr>bytes := take n (bytes f) @ drop n (bytes x)\<rparr>)"

definition video_refresh_callback :: "u8 list \<Rightarrow> shot \<Rightarrow> handoff \<Rightarrow> handoff" where
  \<comment> \<open>in the core's thread, holding the lock\<close>
  "video_refresh_callback fresh f s =
     s\<lparr>backbuffer := Some (copy_shot fresh f (backbuffer s)), frame_ready := True, produced := produced s @ [f\<lparr>bytes := take (shot_h f * shot_p f) (bytes f)\<rparr>]\<rparr>"

definition show_ready :: "handoff \<Rightarrow> handoff" where
  \<comment> \<open>in the main thread, after it has waited\<close>
  "show_ready s =
     (let s = s\<lparr>frame_ready := False\<rparr>
      in case backbuffer s of Some x \<Rightarrow> s\<lparr>displayed := displayed s @ [x]\<rparr> | None \<Rightarrow> s)"

inductive thread_step :: "handoff \<Rightarrow> handoff \<Rightarrow> bool" where
  produce: "length (bytes f) \<ge> shot_h f * shot_p f \<Longrightarrow> thread_step s (video_refresh_callback fresh f s)"
| display: "frame_ready s \<or> stopping s \<Longrightarrow> thread_step s (show_ready s)"
| stop: "thread_step s (s\<lparr>stopping := True\<rparr>)"

subsection \<open>Fast-forward\<close>

record pace =
  ff_frame_time :: nat
  last_time :: nat
  last_max_speed :: int

definition ff_time :: "(rat \<Rightarrow> rat) \<Rightarrow> rat \<Rightarrow> nat \<Rightarrow> nat" where
  "ff_time rnd fps max_speed = nat \<lfloor>rnd (1000000 / rnd (fps * of_nat (max_speed + 1)))\<rfloor>"

definition limitFF :: "(rat \<Rightarrow> rat) \<Rightarrow> rat \<Rightarrow> bool \<Rightarrow> nat \<Rightarrow> nat \<Rightarrow> pace \<Rightarrow> nat \<times> pace" where
  \<comment> \<open>gives the delay in milliseconds\<close>
  "limitFF rnd fps fast max_speed t p =
     (if \<not> fast \<or> max_speed = 0 then (0, p\<lparr>last_time := 0\<rparr>)
      else
        (let p = (if last_max_speed p \<noteq> int max_speed
                  then p\<lparr>last_max_speed := int max_speed, ff_frame_time := ff_time rnd fps max_speed\<rparr> else p);
             p = (if last_time p = 0 then p\<lparr>last_time := t\<rparr> else p);
             elapsed = sint (word_of_int (int t - int (last_time p)) :: 32 word)
         in if elapsed > 0 \<and> elapsed < 0x80000
            then (let delay = (if elapsed < int (ff_frame_time p) then (ff_frame_time p - nat elapsed) div 1000 else 0)
                  in (if delay > 0 \<and> delay < 17 then delay else 0, p\<lparr>last_time := last_time p + ff_frame_time p\<rparr>))
            else (0, p\<lparr>last_time := t\<rparr>)))"

fun ff_frames :: "(rat \<Rightarrow> rat) \<Rightarrow> rat \<Rightarrow> nat \<Rightarrow> (nat \<times> nat) list \<Rightarrow> nat \<times> pace \<Rightarrow> nat \<times> pace" where
  \<comment> \<open>frames of the core in fast-forward: how long each runs, and how much longer than asked the delay takes\<close>
  "ff_frames rnd fps n [] tp = tp"
| "ff_frames rnd fps n ((run, late) # fs) (t, p) =
     (case limitFF rnd fps True n (t + run) p of (delay, p) \<Rightarrow> ff_frames rnd fps n fs (t + run + delay * 1000 + late, p))"

subsection \<open>Displays\<close>

definition hdmimon :: "core \<Rightarrow> string \<Rightarrow> string \<Rightarrow> nat \<Rightarrow> bool \<Rightarrow> bool \<Rightarrow> bool option \<times> bool \<times> bool \<times> arch \<Rightarrow> bool option \<times> bool \<times> bool \<times> arch" where
  \<comment> \<open>\<open>had_hdmi\<close>, \<open>show_menu\<close>, \<open>quit\<close> and the saves\<close>
  "hdmimon c nm game_path spc alloc has_hdmi s =
     (case s of (had, menu, q, a) \<Rightarrow>
        (let had = (if had = None then Some has_hdmi else had)
         in if Some has_hdmi \<noteq> had then (Some has_hdmi, False, True, Menu_beforeSleep c nm game_path spc alloc a)
            else (had, menu, q, a)))"

subsection \<open>Frames reach the screen in order\<close>

lemma copy_shot_whole:
  assumes "length (bytes f) \<ge> shot_h f * shot_p f" and "\<forall>x. b = Some x \<longrightarrow> length (bytes x) \<le> shot_h x * shot_p x"
  shows "copy_shot fresh f b = f\<lparr>bytes := take (shot_h f * shot_p f) (bytes f)\<rparr>"
  using assms by (cases b) (auto simp: copy_shot_def Let_def)

definition handoff_inv :: "handoff \<Rightarrow> bool" where
  "handoff_inv s \<longleftrightarrow>
     (case backbuffer s of None \<Rightarrow> produced s = [] | Some x \<Rightarrow> produced s \<noteq> [] \<and> x = last (produced s) \<and> length (bytes x) \<le> shot_h x * shot_p x)
     \<and> (\<exists>is. displayed s = map ((!) (produced s)) is \<and> sorted is \<and> (\<forall>i \<in> set is. i < length (produced s))
          \<and> (\<not> stopping s \<longrightarrow> distinct is) \<and> (frame_ready s \<and> \<not> stopping s \<longrightarrow> length (produced s) - 1 \<notin> set is)
          \<and> (\<not> frame_ready s \<and> produced s \<noteq> [] \<longrightarrow> length (produced s) - 1 \<in> set is))
     \<and> (frame_ready s \<longrightarrow> produced s \<noteq> [])"

lemma produce_inv:
  assumes "handoff_inv s" and "length (bytes f) \<ge> shot_h f * shot_p f"
  shows "handoff_inv (video_refresh_callback fresh f s)"
proof -
  define g where "g = f\<lparr>bytes := take (shot_h f * shot_p f) (bytes f)\<rparr>"
  obtain "is" where i: "displayed s = map ((!) (produced s)) is" "sorted is" "\<forall>i \<in> set is. i < length (produced s)" "\<not> stopping s \<longrightarrow> distinct is"
    using assms(1) by (auto simp: handoff_inv_def)
  have "copy_shot fresh f (backbuffer s) = g" using assms copy_shot_whole [of f "backbuffer s" fresh] by (auto simp: g_def handoff_inv_def split: option.splits)
  then have v: "video_refresh_callback fresh f s = s\<lparr>backbuffer := Some g, frame_ready := True, produced := produced s @ [g]\<rparr>"
    by (simp add: video_refresh_callback_def g_def)
  have "displayed s = map ((!) (produced s @ [g])) is" using i(1,3) by (simp add: nth_append)
  moreover have "length (produced s) \<notin> set is" using i(3) by auto
  moreover have "length (bytes g) \<le> shot_h g * shot_p g" by (simp add: g_def)
  ultimately show ?thesis using i unfolding handoff_inv_def v by (auto intro!: exI [of _ "is"] simp: less_Suc_eq)
qed

lemma show_inv:
  assumes "handoff_inv s" and "frame_ready s \<or> stopping s"
  shows "handoff_inv (show_ready s)"
proof (cases "backbuffer s")
  case None
  then show ?thesis using assms by (auto simp: handoff_inv_def show_ready_def Let_def)
next
  case (Some x)
  obtain "is" where i: "displayed s = map ((!) (produced s)) is" "sorted is" "\<forall>i \<in> set is. i < length (produced s)" "\<not> stopping s \<longrightarrow> distinct is"
    "frame_ready s \<and> \<not> stopping s \<longrightarrow> length (produced s) - 1 \<notin> set is"
    using assms(1) by (auto simp: handoff_inv_def)
  have x: "produced s \<noteq> []" "x = last (produced s)" "length (bytes x) \<le> shot_h x * shot_p x" using assms(1) Some by (auto simp: handoff_inv_def)
  let ?n = "length (produced s) - 1"
  have "displayed s @ [x] = map ((!) (produced s)) (is @ [?n])" using i(1) x(1,2) by (simp add: last_conv_nth)
  moreover have "sorted (is @ [?n])" using i(2,3) by (auto simp: sorted_append)
  moreover have "\<forall>k \<in> set (is @ [?n]). k < length (produced s)" using i(3) x(1) by auto
  moreover have "\<not> stopping s \<longrightarrow> distinct (is @ [?n])" using i(4,5) assms(2) by auto
  ultimately show ?thesis using Some x unfolding handoff_inv_def show_ready_def Let_def
    by (auto intro!: exI [of _ "is @ [?n]"])
qed

lemma thread_inv: "thread_step s s' \<Longrightarrow> handoff_inv s \<Longrightarrow> handoff_inv s'"
proof (induction rule: thread_step.induct)
  case (stop s)
  then show ?case by (auto simp: handoff_inv_def split: option.splits)
qed (auto intro: produce_inv show_inv)

text \<open>C12: with the core in a thread of its own, in every interleaving, the frames drawn are complete frames of the core in the order
  it made them, none drawn twice while the game runs; a frame waiting to be drawn is the newest, and when none waits
  the newest has been drawn.\<close>

theorem frames_in_order:
  assumes "thread_step\<^sup>*\<^sup>* \<lparr>backbuffer = None, frame_ready = False, stopping = False, produced = [], displayed = []\<rparr> s" and "\<not> stopping s"
  shows "subseq (displayed s) (produced s) \<and> (frame_ready s \<longrightarrow> backbuffer s = Some (last (produced s)))
    \<and> (\<not> frame_ready s \<and> produced s \<noteq> [] \<longrightarrow> last (displayed s) = last (produced s))"
proof -
  have "handoff_inv s" using assms(1)
    by (induction rule: rtranclp_induct) (auto simp: handoff_inv_def [of "\<lparr>backbuffer = None, frame_ready = _, stopping = _, produced = _, displayed = _\<rparr>"] intro: thread_inv)
  then obtain "is" where i: "displayed s = map ((!) (produced s)) is" "sorted is" "\<forall>i \<in> set is. i < length (produced s)" "distinct is"
    "\<not> frame_ready s \<and> produced s \<noteq> [] \<longrightarrow> length (produced s) - 1 \<in> set is"
    and b: "frame_ready s \<longrightarrow> backbuffer s = Some (last (produced s))"
    using assms(2) by (auto simp: handoff_inv_def split: option.splits)
  have "sorted_wrt (<) is" using i(2,4) by (simp add: strict_sorted_iff)
  then have "is = filter (\<lambda>k. k \<in> set is) [0..<length (produced s)]"
    using i(3) by (intro sorted_distinct_set_unique) (auto simp: strict_sorted_iff intro!: sorted_wrt_filter)
  then have "subseq is [0..<length (produced s)]" by (metis subseq_filter_left)
  then have "subseq (map ((!) (produced s)) is) (map ((!) (produced s)) [0..<length (produced s)])" by (rule subseq_map)
  then have sub: "subseq (displayed s) (produced s)" using i(1) by (simp add: map_nth)
  have "last (displayed s) = last (produced s)" if "\<not> frame_ready s" "produced s \<noteq> []"
  proof -
    let ?n = "length (produced s) - 1"
    have n: "?n \<in> set is" using i(5) that by simp
    then have ne: "is \<noteq> []" by auto
    have "last is = ?n"
    proof (rule antisym)
      show "last is \<le> ?n" using i(3) ne by (metis One_nat_def Suc_pred last_in_set less_Suc_eq_le length_greater_0_conv that(2))
      show "?n \<le> last is" using n i(2) ne by (metis in_set_conv_nth last_conv_nth length_greater_0_conv less_Suc_eq_le Suc_pred sorted_nth_mono diff_less zero_less_one One_nat_def)
    qed
    then show ?thesis using i(1) ne that(2) by (simp add: last_map last_conv_nth)
  qed
  then show ?thesis using sub b by simp
qed

definition demo_shot :: shot where "demo_shot = \<lparr>shot_w = 1, shot_h = 1, shot_p = 2, bytes = [7, 8]\<rparr>"

theorem frames_in_order_witness:
  "last (displayed (show_ready (video_refresh_callback [] demo_shot \<lparr>backbuffer = None, frame_ready = False, stopping = False, produced = [], displayed = []\<rparr>)))
   = demo_shot"
proof -
  let ?s0 = "\<lparr>backbuffer = None, frame_ready = False, stopping = False, produced = [], displayed = []\<rparr> :: handoff"
  let ?s1 = "video_refresh_callback [] demo_shot ?s0"
  have "thread_step ?s0 ?s1" by (rule thread_step.produce) (simp add: demo_shot_def)
  moreover have "thread_step ?s1 (show_ready ?s1)" by (rule thread_step.display) (simp add: video_refresh_callback_def)
  ultimately have "thread_step\<^sup>*\<^sup>* ?s0 (show_ready ?s1)" by auto
  from frames_in_order [OF this] show ?thesis
    by (simp add: show_ready_def video_refresh_callback_def demo_shot_def Let_def)
qed

subsection \<open>Fast-forward is held back\<close>

lemma ff_fits: "n < 2 ^ 31 \<Longrightarrow> sint (word_of_int (int n) :: 32 word) = int n"
proof -
  assume "n < 2 ^ 31"
  then have "signed_take_bit 31 (int n) = int n" by (intro signed_take_bit_int_eq_self) simp_all
  then show ?thesis by (simp add: signed_of_nat signed_of_int)
qed

lemma limitFF_schedule:
  assumes "0 < n" and "last_max_speed p = int n" and "ft = ff_frame_time p" and "ft < 17000" and "0 < last_time p" and "last_time p < t"
    and "(delay, p') = limitFF rnd fps True n t p"
  shows "last_time p + ft \<le> last_time p'" and "last_time p' < t + delay * 1000 + 1000" and "last_max_speed p' = int n" and "ff_frame_time p' = ft"
proof -
  let ?d = "t - last_time p" and ?e = "sint (word_of_int (int t - int (last_time p)) :: 32 word)"
  have d: "int t - int (last_time p) = int ?d" using assms(6) by simp
  have early: "?e = int ?d" if "?d < 2 ^ 31" using ff_fits [OF that] by (simp only: d)
  have res: "(delay, p') = (if ?e > 0 \<and> ?e < 0x80000
      then (let x = (if ?e < int ft then (ft - nat ?e) div 1000 else 0) in (if x > 0 \<and> x < 17 then x else 0, p\<lparr>last_time := last_time p + ft\<rparr>))
      else (0, p\<lparr>last_time := t\<rparr>))"
    using assms(1-3,5,7) by (simp add: limitFF_def Let_def)
  show "last_max_speed p' = int n" "ff_frame_time p' = ft" using res assms(2,3) by (auto simp: Let_def split: if_splits)
  show "last_time p + ft \<le> last_time p' " and "last_time p' < t + delay * 1000 + 1000"
  proof -
    show "last_time p + ft \<le> last_time p'"
    proof (cases "?e > 0 \<and> ?e < 0x80000")
      case True
      then show ?thesis using res by (simp add: Let_def)
    next
      case False
      have "ft \<le> ?d"
      proof (cases "?d < 2 ^ 31")
        case True
        then show ?thesis using early [OF True] False assms(4,6) by auto
      qed (use assms(4) in simp)
      then show ?thesis using False res assms(6) by auto
    qed
    show "last_time p' < t + delay * 1000 + 1000"
    proof (cases "?e > 0 \<and> ?e < 0x80000")
      case True
      let ?x = "(ft - nat ?e) div 1000"
      have p': "last_time p' = last_time p + ft" using True res by (simp add: Let_def)
      show ?thesis
      proof (cases "?d < 2 ^ 31")
        case small: True
        have x: "?x < 17" using assms(4) by (simp add: div_less_iff_less_mult)
        have "ft < ?d + delay * 1000 + 1000"
        proof (cases "?e < int ft")
          case lt: True
          then have "delay = ?x" using True res x by (auto simp: Let_def split: if_splits)
          moreover have "ft - ?d < ?x * 1000 + 1000" using early [OF small] by (simp add: dividend_less_div_times)
          ultimately show ?thesis by linarith
        next
          case ge: False
          then show ?thesis using early [OF small] by simp
        qed
        then show ?thesis using p' assms(6) by linarith
      next
        case False
        then have "2147483648 \<le> t - last_time p" by simp
        then show ?thesis using p' assms(4) by linarith
      qed
    next
      case False
      then have "last_time p' = t" using res by auto
      then show ?thesis by simp
    qed
  qed
qed

lemma ff_frames_schedule:
  assumes "0 < n" and "last_max_speed p = int n" and "ft = ff_frame_time p" and "ft < 17000" and "0 < last_time p" and "last_time p < t + 1000"
    and "\<forall>(run, late) \<in> set fs. 1000 \<le> run" and "(t', p') = ff_frames rnd fps n fs (t, p)"
  shows "last_time p + length fs * ft < t' + 1000"
  using assms
proof (induction fs arbitrary: t p)
  case Nil
  then show ?case by simp
next
  case (Cons f fs)
  obtain run late where f: "f = (run, late)" by fastforce
  have run: "1000 \<le> run" using Cons.prems(7) f by simp
  obtain delay q where q: "(delay, q) = limitFF rnd fps True n (t + run) p" by (metis surj_pair)
  have after: "last_time p < t + run" using Cons.prems(6) run by linarith
  note s = limitFF_schedule [OF Cons.prems(1-5) after q]
  have "(t', p') = ff_frames rnd fps n fs (t + run + delay * 1000 + late, q)" using Cons.prems(8) q [symmetric] by (simp add: f)
  moreover have "last_time q < t + run + delay * 1000 + late + 1000" using s(2) by linarith
  ultimately have "last_time q + length fs * ft < t' + 1000"
    using Cons.IH [of q "t + run + delay * 1000 + late"] Cons.prems(1,4,5,7) s by (simp add: f)
  then show ?case using s(1) by simp
qed

text \<open>The limit on fast-forward holds. When each frame of the core takes a millisecond or more, the frames after the first
  together take at least their number times the time the limit allows for one, less one millisecond, however the delays
  turn out and whatever pauses there are.\<close>

theorem ff_limit_holds:
  assumes "0 < n" and "ff_time rnd fps n < 17000" and "last_time p = 0" and "last_max_speed p = int n \<longrightarrow> ff_frame_time p = ff_time rnd fps n"
    and "0 < t + r" and "\<forall>(run, late) \<in> set fs. 1000 \<le> run" and "(t', p') = ff_frames rnd fps n ((r, l) # fs) (t, p)"
  shows "t + r + length fs * ff_time rnd fps n < t' + 1000"
proof -
  define q where "q = p\<lparr>last_max_speed := int n, ff_frame_time := ff_time rnd fps n, last_time := t + r\<rparr>"
  have "limitFF rnd fps True n (t + r) p = (0, q)" using assms(1,3,4) by (auto simp: limitFF_def Let_def q_def)
  then have "(t', p') = ff_frames rnd fps n fs (t + r + l, q)" using assms(7) by simp
  moreover have "last_max_speed q = int n" "ff_time rnd fps n = ff_frame_time q" "last_time q = t + r" by (simp_all add: q_def)
  ultimately show ?thesis
    using ff_frames_schedule [of n q "ff_time rnd fps n" "t + r + l" fs t' p' rnd fps] assms(1,2,5,6) by simp
qed

definition demo_pace :: pace where "demo_pace = \<lparr>ff_frame_time = 0, last_time = 0, last_max_speed = - 1\<rparr>"

theorem ff_limit_holds_witness:
  "1000 + 2 * 4166 < fst (ff_frames id 60 3 [(1000, 0), (2000, 0), (2000, 0)] (0, demo_pace)) + 1000"
proof -
  have "\<lfloor>12500 / 3 :: rat\<rfloor> = 4166" by (simp add: floor_eq_iff)
  then have ft: "ff_time id 60 3 = 4166" by (simp add: ff_time_def)
  obtain t' p' where r: "(t', p') = ff_frames id 60 3 [(1000, 0), (2000, 0), (2000, 0)] (0, demo_pace)" by (metis surj_pair)
  from ff_limit_holds [OF _ _ _ _ _ _ r] show ?thesis unfolding ft r [symmetric] by (simp add: demo_pace_def)
qed

text \<open>A core that needs less than that is not held back: an elapsed time of zero or less restarts the schedule.\<close>

lemma ff_limit_missed: "fst (ff_frames id 60 7 [(100, 0), (100, 0), (100, 0), (100, 0), (100, 0)] (0, demo_pace)) = 2500"
proof -
  have "\<lfloor>6250 / 3 :: rat\<rfloor> = 2083" by (simp add: floor_eq_iff)
  then have "ff_time id 60 7 = 2083" by (simp add: ff_time_def)
  then show ?thesis by (simp add: limitFF_def demo_pace_def)
qed

subsection \<open>Saves from one run to the next\<close>

lemma fopen_r_put_dir: "q \<noteq> p \<Longrightarrow> fopen_r (fs_put p Dir fs) q = fopen_r fs q"
  by (simp add: fopen_r_def map_of_fs_put)

lemma Game_open_other:
  assumes "Game_open e p fs = Some (g, fs')" and "q \<noteq> tmp_dirname e" and "\<And>b. q \<noteq> tmp_dirname e @ ''/'' @ b"
  shows "fopen_r fs' q = fopen_r fs q"
proof -
  have "extract_entry e z ent fs = Some (t, b, fs'') \<Longrightarrow> fopen_r fs'' q = fopen_r fs q" for z ent t b fs''
    using assms(2,3)
    by (auto simp: extract_entry_def Let_def split_beta fopen_r_fs_put fopen_r_put_dir split: if_splits option.splits)
  then have "open_zip e p fs = Some (t, b, fs'') \<Longrightarrow> fopen_r fs'' q = fopen_r fs q" for t b fs''
    by (auto simp: open_zip_def split: option.splits zip_result.splits)
  then show ?thesis using assms(1) by (auto simp: Game_open_def Let_def split: if_splits option.splits prod.splits bool.splits)
qed

definition outside_tmp :: "open_env \<Rightarrow> string \<Rightarrow> bool" where
  "outside_tmp e q \<longleftrightarrow> q \<noteq> tmp_dirname e \<and> (\<forall>b. q \<noteq> tmp_dirname e @ ''/'' @ b)"

definition can_save :: "fs \<Rightarrow> string \<Rightarrow> bool" where
  "can_save fs f \<longleftrightarrow> length f < 507 \<and> fopen_w fs f \<and> fopen_w fs (tmp_filename f)"

lemma hdmimon_steady: "had = None \<or> had = Some h \<Longrightarrow> hdmimon c nm p spc alloc h (had, menu, q, a) = (Some h, menu, q, a)"
  by (auto simp: hdmimon_def)

lemma hdmimon_change: "hdmimon c nm p spc alloc h (Some (\<not> h), menu, q, a) = (Some h, False, True, Menu_beforeSleep c nm p spc alloc a)"
  by (simp add: hdmimon_def)

text \<open>C11: a game keeps its battery save and its clock: leaving it with room on the card and starting it again gives the core
  both memories byte for byte, also when the game is extracted from an archive on the way.\<close>

theorem quit_start_keeps_saves:
  assumes "sram c = Some m" and "length m = sram_size c" and "0 < sram_size c" and "sram_size c \<le> spc"
    and "rtc c = Some r" and "length r = rtc_size c" and "0 < rtc_size c" and "rtc_size c \<le> spc"
    and "fs1 = snd (Game_close g fs)" and "can_save fs1 (SRAM_getPath c (gname g))"
    and "can_save (last (SRAM_write c (gname g) spc fs1)) (RTC_getPath c (gname g))"
    and "Game_open e p (finish True c spc g fs) = Some (g', fs3)" and "gname g' = gname g"
    and "outside_tmp e (SRAM_getPath c (gname g))" and "outside_tmp e (RTC_getPath c (gname g))"
    and "\<And>x d. \<exists>c0 av. boot x d = (c0, av) \<and> saves_dir c0 = saves_dir c \<and> sram_size c0 = sram_size c \<and> rtc_size c0 = rtc_size c
           \<and> (\<exists>m0 r0. sram c0 = Some m0 \<and> length m0 = sram_size c \<and> rtc c0 = Some r0 \<and> length r0 = rtc_size c)"
  shows "let c' = rcore (Core_load rnd boot g' fs3) in sram c' = Some m \<and> rtc c' = Some r"
proof -
  let ?s = "SRAM_getPath c (gname g)" and ?r = "RTC_getPath c (gname g)"
  define fs2 where "fs2 = last (SRAM_write c (gname g) spc fs1)"
  have ok: "length ?s < 507" "fopen_w fs1 ?s" "fopen_w fs1 (tmp_filename ?s)" "length ?r < 507" "fopen_w fs2 ?r" "fopen_w fs2 (tmp_filename ?r)"
    using assms(10,11) by (simp_all add: can_save_def fs2_def)
  have tmp: "tmp_filename ?r = ?r @ ''.tmp''" using ok(4) by (simp add: tmp_filename_def snprintf_buf_fits MAX_PATH_def)
  have "last ?s \<noteq> last ?r" "last ?s \<noteq> last (?r @ ''.tmp'')" by (simp_all add: SRAM_getPath_def RTC_getPath_def)
  then have apart: "?s \<noteq> ?r" "?s \<noteq> tmp_filename ?r" unfolding tmp by metis+
  have fin: "finish True c spc g fs = last (RTC_write c (gname g) spc fs2)"
    using assms(9) by (simp add: finish_def Core_quit_def Game_close_def fs2_def Let_def)
  have "fopen_r fs2 ?s = Some m" using write_memory_complete [of "sram_size c" "sram c" m spc ?s fs1] assms(1-4) ok by (simp add: fs2_def SRAM_write_def)
  then have sav: "fopen_r (finish True c spc g fs) ?s = Some m" using write_memory_other [OF apart] by (simp add: fin RTC_write_def)
  have rt: "fopen_r (finish True c spc g fs) ?r = Some r"
    using write_memory_complete [of "rtc_size c" "rtc c" r spc ?r fs2] assms(5-8) ok by (simp add: fin RTC_write_def)
  have files: "fopen_r fs3 ?s = Some m" "fopen_r fs3 ?r = Some r"
    using Game_open_other [OF assms(12)] sav rt assms(14,15) by (simp_all add: outside_tmp_def)
  obtain c0 av m0 r0 where b: "boot (if tmp_path g' \<noteq> [] then tmp_path g' else gpath g') (gdata g') = (c0, av)" "saves_dir c0 = saves_dir c"
    "sram_size c0 = sram_size c" "rtc_size c0 = rtc_size c" "sram c0 = Some m0" "length m0 = sram_size c" "rtc c0 = Some r0" "length r0 = rtc_size c"
    using assms(16) by blast
  have paths: "SRAM_getPath c0 (gname g) = ?s" "RTC_getPath (c0\<lparr>sram := x\<rparr>) (gname g) = ?r" for x using b(2) by (simp_all add: SRAM_getPath_def RTC_getPath_def)
  show ?thesis using b files paths assms(2,3,6,7,13)
    by (simp add: Core_load_def SRAM_read_def RTC_read_def read_memory_def Let_def)
qed

definition demo_rtc_core :: core where "demo_rtc_core = demo_core\<lparr>rtc_size := 2, rtc := Some ''zz''\<rparr>"

definition demo_boot :: "string \<Rightarrow> string option \<Rightarrow> core \<times> av_info" where
  "demo_boot p d = (demo_rtc_core\<lparr>sram := Some ''???'', rtc := Some ''??''\<rparr>, \<lparr>av_fps = 60, av_rate = 44100, av_aspect = 0, base_width = 4, base_height = 3\<rparr>)"

definition demo_open :: open_env where
  "demo_open = \<lparr>extensions = ''gb'', need_fullpath = True, tmp_dirname = ''/tmp/m'', card_room = 0, alloc_game = True, inflate_init = True, inflate = demo_zlib, walk_fuel = 0\<rparr>"

definition demo_played :: game where
  "demo_played = \<lparr>gpath = ''/r/g.gb'', gname = ''g.gb'', m3u_path = [], tmp_path = [], gdata = None, is_open = True\<rparr>"

theorem quit_start_keeps_saves_witness:
  "let c' = rcore (Core_load id demo_boot demo_played (finish True demo_rtc_core 100 demo_played demo_saves))
   in sram c' = Some ''abc'' \<and> rtc c' = Some ''zz''"
proof -
  have boot: "\<exists>c0 av. demo_boot x d = (c0, av) \<and> saves_dir c0 = saves_dir demo_rtc_core \<and> sram_size c0 = sram_size demo_rtc_core
      \<and> rtc_size c0 = rtc_size demo_rtc_core
      \<and> (\<exists>m0 r0. sram c0 = Some m0 \<and> length m0 = sram_size demo_rtc_core \<and> rtc c0 = Some r0 \<and> length r0 = rtc_size demo_rtc_core)" for x d
    by (simp add: demo_boot_def) (simp add: demo_rtc_core_def demo_core_def)
  have "Game_open demo_open ''/r/g.gb'' (finish True demo_rtc_core 100 demo_played demo_saves)
      = Some (demo_played, finish True demo_rtc_core 100 demo_played demo_saves)" by code_simp
  moreover have "can_save (snd (Game_close demo_played demo_saves)) (SRAM_getPath demo_rtc_core (gname demo_played))" by code_simp
  moreover have "can_save (last (SRAM_write demo_rtc_core (gname demo_played) 100 (snd (Game_close demo_played demo_saves)))) (RTC_getPath demo_rtc_core (gname demo_played))"
    by code_simp
  moreover have "outside_tmp demo_open (SRAM_getPath demo_rtc_core (gname demo_played))" "outside_tmp demo_open (RTC_getPath demo_rtc_core (gname demo_played))"
    by (simp_all add: outside_tmp_def demo_open_def SRAM_getPath_def RTC_getPath_def demo_rtc_core_def demo_core_def)
  moreover have "sram demo_rtc_core = Some ''abc''" "sram_size demo_rtc_core = 3" "rtc demo_rtc_core = Some ''zz''" "rtc_size demo_rtc_core = 2"
    by (simp_all add: demo_rtc_core_def demo_core_def)
  ultimately show ?thesis
    by (intro quit_start_keeps_saves [where spc = 100 and p = "''/r/g.gb''" and e = demo_open and fs = demo_saves and g = demo_played]) (rule boot | simp)+
qed

end
