(* ===== verification/OptionScreen.thy ===== *)
theory OptionScreen
  imports Screen OptionMenu
begin

text \<open>
  What the option menus draw (\<open>minarch/menu.c\<close>: the drawing half of \<open>Menu_options\<close>, and \<open>Menu_message\<close>): the rows of each of the
  four types of list, the triangles, the description, and the width of a table of names and values. The size a font gives
  a text and the names and descriptions of the rows are arguments.
\<close>

datatype menu_type = MENU_LIST | MENU_VAR | MENU_FIXED | MENU_INPUT

record row_item =
  iname :: string
  idesc :: "string option"
  ivalues :: "string list"
  ivalue :: int

record menu_list =
  list_type :: menu_type
  max_width :: int       \<comment> \<open>0 before the first drawing\<close>
  list_desc :: "string option"
  list_items :: "row_item list"

definition drawn_item :: "(MenuItem \<Rightarrow> string) \<Rightarrow> (MenuItem \<Rightarrow> string option) \<Rightarrow> MenuItem \<Rightarrow> row_item" where
  \<comment> \<open>an item of \<open>OptionMenu\<close> with the name and description it shows\<close>
  "drawn_item label desc x =
     \<lparr>iname = label x, idesc = desc x,
      ivalues = (case mvalues x of No_Values \<Rightarrow> [] | Button_Labels \<Rightarrow> button_labels | Labels ls \<Rightarrow> ls), ivalue = mvalue x\<rparr>"

definition OPTION_PADDING :: int where "OPTION_PADDING = 8"
definition SCROLL_WIDTH :: int where "SCROLL_WIDTH = 24"
definition SCROLL_HEIGHT :: int where "SCROLL_HEIGHT = 4"

lemmas option_layout_defs = layout_defs OPTION_PADDING_def SCROLL_WIDTH_def SCROLL_HEIGHT_def

definition max_options :: "screen_env \<Rightarrow> int" where
  \<comment> \<open>\<open>max_visible_options\<close>\<close>
  "max_options e = cdiv (screen_h e - (SCALE1 (PADDING e + PILL_SIZE) * 2 + SCALE1 BUTTON_SIZE)) (SCALE1 BUTTON_SIZE)"

subsection \<open>Widths\<close>

definition name_width :: "screen_env \<Rightarrow> string \<Rightarrow> int" where
  "name_width e s = text_w e font_small s + SCALE1 (OPTION_PADDING * 2)"

definition list_width :: "screen_env \<Rightarrow> row_item list \<Rightarrow> int" where
  "list_width e its = fold (\<lambda>x mw. if name_width e (iname x) > mw then name_width e (iname x) else mw) its 0"

fun value_widths :: "screen_env \<Rightarrow> int \<Rightarrow> string list \<Rightarrow> int \<times> int \<Rightarrow> int \<times> int" where
  \<comment> \<open>the width of a row, and the widest value so far\<close>
  "value_widths e lw [] (w, mrw) = (w, mrw)"
| "value_widths e lw (v # vs) (w, mrw) =
     (let rw = text_w e font_tiny v in
      value_widths e lw vs (if lw + rw > w then lw + rw else w, if rw > mrw then rw else mrw))"

fun table_width :: "screen_env \<Rightarrow> bool \<Rightarrow> row_item list \<Rightarrow> int \<times> int \<Rightarrow> int" where
  \<comment> \<open>the widest row so far, and the widest value\<close>
  "table_width e is_input [] (mw, mrw) = mw"
| "table_width e is_input (x # xs) (mw, mrw) =
     (let lw = text_w e font_small (iname x);
          (w, mrw) = (if mrw = 0 \<or> \<not> is_input then value_widths e lw (ivalues x) (0, mrw) else (lw + mrw, mrw));
          w = w + SCALE1 (OPTION_PADDING * 4)
      in table_width e is_input xs (if w > mw then w else mw, mrw))"

definition rows_width :: "screen_env \<Rightarrow> menu_list \<Rightarrow> int" where
  "rows_width e l =
     (let room = screen_w e - SCALE1 (PADDING e * 2) in
      case list_type l of
        MENU_FIXED \<Rightarrow> room
      | t \<Rightarrow> if max_width l \<noteq> 0 then max_width l
             else min (if t = MENU_LIST then list_width e (list_items l) else table_width e (t = MENU_INPUT) (list_items l) (0, 0)) room)"

definition cache_width :: "screen_env \<Rightarrow> menu_list \<Rightarrow> menu_list" where
  "cache_width e l = (if list_type l = MENU_FIXED then l else l\<lparr>max_width := rows_width e l\<rparr>)"

subsection \<open>Rows\<close>

definition option_y :: "screen_env \<Rightarrow> int \<Rightarrow> int" where
  "option_y e j = SCALE1 (PADDING e + PILL_SIZE) + SCALE1 (j * BUTTON_SIZE)"

definition name_pill :: "screen_env \<Rightarrow> int \<Rightarrow> int \<Rightarrow> string \<Rightarrow> draw list" where
  "name_pill e ox j s = GFX_blitPill ASSET_BUTTON (ox, option_y e j, name_width e s, SCALE1 BUTTON_SIZE)"

definition gray_pill :: "screen_env \<Rightarrow> int \<Rightarrow> int \<Rightarrow> int \<Rightarrow> draw list" where
  "gray_pill e ox j mw = GFX_blitPill ASSET_OPTION (ox, option_y e j, mw, SCALE1 BUTTON_SIZE)"

definition name_text :: "screen_env \<Rightarrow> int \<Rightarrow> int \<Rightarrow> bool \<Rightarrow> string \<Rightarrow> draw" where
  "name_text e ox j on s =
     Glyphs font_small s (if on then RGB_BLACK else RGB_WHITE) (ox + SCALE1 OPTION_PADDING)
       (SCALE1 (PADDING e + PILL_SIZE) + SCALE1 (j * BUTTON_SIZE + 1))"

definition value_text :: "screen_env \<Rightarrow> int \<Rightarrow> int \<Rightarrow> int \<Rightarrow> row_item \<Rightarrow> draw list option" where
  \<comment> \<open>a value outside its labels is read past their end\<close>
  "value_text e ox j mw x =
     (if ivalue x < 0 then Some []
      else if ivalue x < int (length (ivalues x))
      then (let s = ivalues x ! nat (ivalue x) in
            Some [Glyphs font_tiny s RGB_WHITE (ox + mw - text_w e font_tiny s - SCALE1 OPTION_PADDING)
                    (SCALE1 (PADDING e + PILL_SIZE) + SCALE1 (j * BUTTON_SIZE + 3))])
      else None)"

definition option_draws :: "screen_env \<Rightarrow> menu_type \<Rightarrow> bool \<Rightarrow> int \<Rightarrow> int \<Rightarrow> int \<Rightarrow> bool \<Rightarrow> row_item \<Rightarrow> draw list option" where
  \<comment> \<open>\<open>on\<close>: the selected row\<close>
  "option_draws e t await ox mw j on x =
     (let pill = (if on then name_pill e ox j (iname x) else []);
          gray = (if on then gray_pill e ox j mw else []);
          label = [name_text e ox j on (iname x)]
      in case t of
           MENU_LIST \<Rightarrow> Some (pill @ label)
         | MENU_FIXED \<Rightarrow> map_option (\<lambda>v. gray @ v @ pill @ label) (value_text e ox j mw x)
         | _ \<Rightarrow> map_option (\<lambda>v. gray @ pill @ label @ v) (if await \<and> on then Some [] else value_text e ox j mw x))"

definition option_rows :: "screen_env \<Rightarrow> menu_list \<Rightarrow> bool \<Rightarrow> int \<Rightarrow> int \<Rightarrow> rows \<Rightarrow> draw list list option" where
  \<comment> \<open>no result when an item outside the list is read\<close>
  "option_rows e l await ox mw r =
     those (map (\<lambda>i. if 0 \<le> i \<and> i < int (length (list_items l))
                     then option_draws e (list_type l) await ox mw (i - rows.top r) (i - rows.top r = rows.sel r - rows.top r) (list_items l ! nat i)
                     else None)
                [rows.top r .. rows.bot r - 1])"

definition scroll_marks :: "screen_env \<Rightarrow> int \<Rightarrow> rows \<Rightarrow> draw list" where
  "scroll_marks e cnt r =
     (let ox = half (screen_w e - SCALE1 SCROLL_WIDTH); oy = SCALE1 (half (PILL_SIZE - SCROLL_HEIGHT)) in
      if cnt > max_options e
      then (if rows.top r > 0 then GFX_blitAsset ASSET_SCROLL_UP None ox (SCALE1 (PADDING e) + oy) else [])
           @ (if rows.bot r < cnt
              then GFX_blitAsset ASSET_SCROLL_DOWN None ox (screen_h e - SCALE1 (PADDING e + PILL_SIZE + BUTTON_SIZE) + oy) else [])
      else [])"

definition shown_desc :: "menu_list \<Rightarrow> rows \<Rightarrow> string option" where
  \<comment> \<open>of the selected row if it is drawn, else of the list\<close>
  "shown_desc l r =
     (case (if rows.top r \<le> rows.sel r \<and> rows.sel r < rows.bot r then idesc (list_items l ! nat (rows.sel r)) else None) of
        Some d \<Rightarrow> Some d | None \<Rightarrow> list_desc l)"

definition desc_text :: "screen_env \<Rightarrow> string option \<Rightarrow> draw list option" where
  "desc_text e desc =
     (case desc of
        None \<Rightarrow> Some []
      | Some d \<Rightarrow>
          (case GFX_sizeText (text_w e font_tiny) d (SCALE1 12) of
             None \<Rightarrow> None
           | Some (w, h) \<Rightarrow> GFX_blitText e font_tiny d (SCALE1 12) RGB_WHITE
               (Some (half (screen_w e - w), screen_h e - SCALE1 (PADDING e) - h, w, h))))"

definition options_screen :: "screen_env \<Rightarrow> hardware \<Rightarrow> int \<Rightarrow> bool \<Rightarrow> menu_list \<Rightarrow> rows \<Rightarrow> (draw list \<times> menu_list) option" where
  \<comment> \<open>the drawing of \<open>Menu_options\<close>\<close>
  "options_screen e hw setting await l r =
     (let mw = rows_width e l;
          ox = (if list_type l = MENU_FIXED then SCALE1 (PADDING e) else half (screen_w e - mw))
      in case (option_rows e l await ox mw r, desc_text e (shown_desc l r)) of
           (Some rs, Some d) \<Rightarrow>
             Some (fst (GFX_blitHardwareGroup e hw setting) @ concat rs @ scroll_marks e (int (length (list_items l))) r @ d, cache_width e l)
         | _ \<Rightarrow> None)"

subsection \<open>A message\<close>

definition message_screen :: "screen_env \<Rightarrow> string \<Rightarrow> (string \<times> string) list \<Rightarrow> draw list option" where
  \<comment> \<open>in \<open>MODE_MAIN\<close>\<close>
  "message_screen e message pairs =
     (let e = e\<lparr>mode_main := True\<rparr> in
      map_option (\<lambda>m. m @ fst (GFX_blitButtonGroup e pairs 0 True))
        (GFX_blitMessage e font_medium message (Some (0, SCALE1 (PADDING e), screen_w e, screen_h e - SCALE1 (PILL_SIZE + PADDING e)))))"

fun Menu_message :: "bool \<Rightarrow> (PAD_Context \<times> bool) list \<Rightarrow> bool list \<times> bool" where
  \<comment> \<open>for each frame the pad and whether \<open>PWR_update\<close> asks for a new drawing; gives which frames draw, and whether it was left\<close>
  "Menu_message redraw [] = ([], False)"
| "Menu_message redraw ((pad, woke) # frames) =
     (if PAD_justPressed pad (btn_mask BTN_ID_A) \<or> PAD_justPressed pad (btn_mask BTN_ID_B) then ([], True)
      else (case Menu_message False frames of (drawn, left) \<Rightarrow> ((redraw \<or> woke) # drawn, left)))"

subsection \<open>The widths are wide enough\<close>

lemma fold_least: "m \<le> fold (\<lambda>x mw. if f x > mw then f x else mw) xs (m :: int)"
proof (induction xs arbitrary: m)
  case (Cons y ys)
  show ?case using Cons [of "if f y > m then f y else m"] by (simp split: if_splits)
qed simp

lemma fold_widest: "x \<in> set xs \<Longrightarrow> f x \<le> fold (\<lambda>x mw. if f x > mw then f x else mw) xs (m :: int)"
proof (induction xs arbitrary: m)
  case (Cons y ys)
  show ?case
  proof (cases "x = y")
    case True
    then show ?thesis using fold_least [of "if f y > m then f y else m" f ys] by (simp split: if_splits)
  next
    case False
    then show ?thesis using Cons by simp
  qed
qed simp

lemma list_width_name: "x \<in> set xs \<Longrightarrow> name_width e (iname x) \<le> list_width e xs"
  unfolding list_width_def by (rule fold_widest)

lemma value_widths_bound:
  assumes "value_widths e lw vs (w, m) = (w', m')"
  shows "w \<le> w'" "m \<le> m'" "v \<in> set vs \<Longrightarrow> lw + text_w e font_tiny v \<le> w'" "v \<in> set vs \<Longrightarrow> text_w e font_tiny v \<le> m'"
proof -
  have "w \<le> w' \<and> m \<le> m' \<and> (\<forall>v \<in> set vs. lw + text_w e font_tiny v \<le> w' \<and> text_w e font_tiny v \<le> m')"
    using assms by (induction vs arbitrary: w m) (fastforce simp: Let_def split: if_splits)+
  then show "w \<le> w'" "m \<le> m'" "v \<in> set vs \<Longrightarrow> lw + text_w e font_tiny v \<le> w'" "v \<in> set vs \<Longrightarrow> text_w e font_tiny v \<le> m'"
    by auto
qed

definition same_values :: "row_item list \<Rightarrow> bool" where
  "same_values xs \<longleftrightarrow> (\<forall>x \<in> set xs. \<forall>y \<in> set xs. ivalues x = ivalues y)"

lemma table_width_least: "mw \<le> table_width e is_input xs (mw, mrw)"
proof (induction xs arbitrary: mw mrw)
  case (Cons x xs)
  obtain w m where wm: "(if mrw = 0 \<or> \<not> is_input then value_widths e (text_w e font_small (iname x)) (ivalues x) (0, mrw)
      else (text_w e font_small (iname x) + mrw, mrw)) = (w, m)" by (rule prod.exhaust)
  show ?case using Cons [of "max mw (w + SCALE1 (OPTION_PADDING * 4))" m] by (simp add: wm Let_def max_def split: if_splits)
qed simp

text \<open>In a table of names and values the row is wide enough for the name, the value and the space around them.\<close>

lemma table_width_row:
  assumes "is_input \<Longrightarrow> same_values xs" "mrw = 0 \<or> \<not> is_input \<or> (\<forall>x \<in> set xs. \<forall>v \<in> set (ivalues x). text_w e font_tiny v \<le> mrw)"
    and "x \<in> set xs" "v \<in> set (ivalues x)"
  shows "text_w e font_small (iname x) + text_w e font_tiny v + SCALE1 (OPTION_PADDING * 4) \<le> table_width e is_input xs (mw, mrw)"
  using assms
proof (induction xs arbitrary: mw mrw)
  case (Cons y ys)
  let ?lw = "text_w e font_small (iname y)"
  obtain w m where wm: "(if mrw = 0 \<or> \<not> is_input then value_widths e ?lw (ivalues y) (0, mrw) else (?lw + mrw, mrw)) = (w, m)"
    by (rule prod.exhaust)
  let ?mw = "if w + SCALE1 (OPTION_PADDING * 4) > mw then w + SCALE1 (OPTION_PADDING * 4) else mw"
  have step: "table_width e is_input (y # ys) (mw, mrw) = table_width e is_input ys (?mw, m)" by (simp add: wm Let_def)
  have wide: "?lw + text_w e font_tiny u \<le> w" if "u \<in> set (ivalues y)" for u
    using that wm Cons.prems(2) value_widths_bound(3) [of e ?lw "ivalues y" 0 mrw w m u] by (auto split: if_splits)
  have "text_w e font_tiny u \<le> m" if "is_input" "z \<in> set ys" "u \<in> set (ivalues z)" for z u
  proof (cases "mrw = 0")
    case True
    have "ivalues z = ivalues y" using Cons.prems(1) that(1,2) unfolding same_values_def by (meson list.set_intros)
    then show ?thesis using True wm that(3) value_widths_bound(4) [of e ?lw "ivalues y" 0 mrw w m u] by simp
  next
    case False
    then have "m = mrw" using wm that(1) by simp
    then show ?thesis using False Cons.prems(2) that by auto
  qed
  then have next_m: "\<not> is_input \<or> (\<forall>x \<in> set ys. \<forall>v \<in> set (ivalues x). text_w e font_tiny v \<le> m)" by blast
  show ?case
  proof (cases "x \<in> set ys")
    case True
    have rest: "is_input \<Longrightarrow> same_values ys" using Cons.prems(1) unfolding same_values_def by (meson list.set_intros(2))
    show ?thesis unfolding step by (rule Cons.IH [OF rest disjI2 [OF next_m] True Cons.prems(4)])
  next
    case False
    then have "x = y" using Cons.prems(3) by simp
    then have "text_w e font_small (iname x) + text_w e font_tiny v + SCALE1 (OPTION_PADDING * 4) \<le> ?mw"
      using wide [of v] Cons.prems(4) by auto
    then show ?thesis unfolding step by (rule order_trans [OF _ table_width_least])
  qed
qed simp

subsection \<open>Layout\<close>

definition option_fonts_ok :: "screen_env \<Rightarrow> bool" where
  \<comment> \<open>names and values are not taller than a row, lines of a description not taller than their leading\<close>
  "option_fonts_ok e \<longleftrightarrow> (\<forall>s. 0 \<le> text_w e font_tiny s \<and> text_h e font_small s \<le> 38 \<and> text_h e font_tiny s \<le> 24)"

definition names_ok :: "screen_env \<Rightarrow> menu_list \<Rightarrow> bool" where
  \<comment> \<open>every name is as wide as a cap, and names, values and both together are not cut by the screen\<close>
  "names_ok e l \<longleftrightarrow>
     (\<forall>x \<in> set (list_items l). 8 \<le> text_w e font_small (iname x))
     \<and> (let room = screen_w e - SCALE1 (PADDING e * 2); its = list_items l in
        case list_type l of
          MENU_LIST \<Rightarrow> list_width e its \<le> room
        | MENU_FIXED \<Rightarrow> \<forall>x \<in> set its. name_width e (iname x) \<le> room \<and> (\<forall>v \<in> set (ivalues x). text_w e font_tiny v + 16 \<le> room)
        | MENU_VAR \<Rightarrow> table_width e False its (0, 0) \<le> room
        | MENU_INPUT \<Rightarrow> table_width e True its (0, 0) \<le> room \<and> same_values its)
     \<and> (max_width l = 0 \<or> max_width l = rows_width e (l\<lparr>max_width := 0\<rparr>))"

lemma rows_width_fresh: "names_ok e l \<Longrightarrow> rows_width e l = rows_width e (l\<lparr>max_width := 0\<rparr>)"
  by (auto simp: names_ok_def rows_width_def Let_def split: menu_type.splits)

lemma rows_width_row:
  assumes "names_ok e l" "option_fonts_ok e" "x \<in> set (list_items l)" "list_type l \<noteq> MENU_LIST \<Longrightarrow> ivalues x \<noteq> []"
  shows "40 \<le> name_width e (iname x)" "name_width e (iname x) \<le> rows_width e l"
    and "list_type l \<noteq> MENU_LIST \<Longrightarrow> v \<in> set (ivalues x) \<Longrightarrow> text_w e font_tiny v + 16 \<le> rows_width e l"
    and "list_type l \<in> {MENU_VAR, MENU_INPUT} \<Longrightarrow> v \<in> set (ivalues x) \<Longrightarrow>
      name_width e (iname x) + text_w e font_tiny v + 16 < rows_width e l"
proof -
  show least: "40 \<le> name_width e (iname x)" using assms(1,3) by (auto simp: names_ok_def name_width_def option_layout_defs)
  have tiny: "0 \<le> text_w e font_tiny u" for u using assms(2) by (simp add: option_fonts_ok_def)
  have table: "name_width e (iname x) + text_w e font_tiny u + 32 \<le> rows_width e l"
    if "list_type l \<in> {MENU_VAR, MENU_INPUT}" "u \<in> set (ivalues x)" for u
  proof -
    have "list_type l = MENU_INPUT \<Longrightarrow> same_values (list_items l)" using assms(1) by (simp add: names_ok_def Let_def)
    then have "text_w e font_small (iname x) + text_w e font_tiny u + SCALE1 (OPTION_PADDING * 4)
        \<le> table_width e (list_type l = MENU_INPUT) (list_items l) (0, 0)"
      by (intro table_width_row [OF _ _ assms(3) that(2)]) simp_all
    then have "name_width e (iname x) + text_w e font_tiny u + 32 \<le> table_width e (list_type l = MENU_INPUT) (list_items l) (0, 0)"
      by (simp add: name_width_def option_layout_defs)
    then show ?thesis unfolding rows_width_fresh [OF assms(1)] using assms(1) that(1)
      by (auto simp: rows_width_def names_ok_def Let_def)
  qed
  then show "name_width e (iname x) + text_w e font_tiny v + 16 < rows_width e l"
    if "list_type l \<in> {MENU_VAR, MENU_INPUT}" "v \<in> set (ivalues x)" using that by fastforce
  have "(\<exists>u. u \<in> set (ivalues x)) \<or> list_type l = MENU_LIST" using assms(4) by (cases "ivalues x") auto
  then show "name_width e (iname x) \<le> rows_width e l"
  proof (cases "list_type l")
    case MENU_LIST
    then show ?thesis unfolding rows_width_fresh [OF assms(1)] using assms(1) list_width_name [OF assms(3), of e]
      by (simp add: rows_width_def names_ok_def Let_def)
  next
    case MENU_FIXED
    then show ?thesis using assms(1,3) by (simp add: rows_width_def names_ok_def Let_def)
  next
    case MENU_VAR
    then obtain u where "u \<in> set (ivalues x)" using assms(4) by (cases "ivalues x") auto
    then show ?thesis using MENU_VAR table [of u] tiny [of u] by simp
  next
    case MENU_INPUT
    then obtain u where "u \<in> set (ivalues x)" using assms(4) by (cases "ivalues x") auto
    then show ?thesis using MENU_INPUT table [of u] tiny [of u] by simp
  qed
  show "text_w e font_tiny v + 16 \<le> rows_width e l" if "list_type l \<noteq> MENU_LIST" "v \<in> set (ivalues x)"
  proof (cases "list_type l = MENU_FIXED")
    case True
    then show ?thesis using assms(1,3) that by (auto simp: rows_width_def names_ok_def Let_def)
  next
    case False
    then show ?thesis using table [OF _ that(2)] that(1) least by (cases "list_type l") auto
  qed
qed

definition option_rect :: "screen_env \<Rightarrow> int \<Rightarrow> int \<Rightarrow> int \<Rightarrow> rect" where
  "option_rect e ox mw j = (ox, option_y e j, mw, SCALE1 BUTTON_SIZE)"

definition value_ok :: "row_item \<Rightarrow> bool" where
  "value_ok x \<longleftrightarrow> 0 \<le> ivalue x \<and> ivalue x < int (length (ivalues x))"

lemma option_draws_inside:
  assumes "names_ok e l" "option_fonts_ok e" "x \<in> set (list_items l)" "list_type l \<noteq> MENU_LIST \<Longrightarrow> value_ok x"
    and "mw = rows_width e l"
  shows "\<exists>ds. option_draws e (list_type l) await ox mw j on x = Some ds \<and> draws_inside e ds (option_rect e ox mw j)"
proof -
  have labels: "ivalues x \<noteq> []" if "list_type l \<noteq> MENU_LIST" using assms(4) that by (auto simp: value_ok_def)
  note wide = rows_width_row [OF assms(1,2,3) labels, folded assms(5)]
  have pill: "draws_inside e (name_pill e ox j (iname x)) (option_rect e ox mw j)"
    unfolding name_pill_def option_rect_def using wide(1,2) by (intro blitPill_inside) (simp_all add: option_layout_defs)
  have gray: "draws_inside e (gray_pill e ox j mw) (option_rect e ox mw j)"
    unfolding gray_pill_def option_rect_def using wide(1,2) by (intro blitPill_inside) (simp_all add: option_layout_defs)
  have label: "inside (draw_area e (name_text e ox j on (iname x))) (option_rect e ox mw j)" for on
    using wide(1,2) assms(2)
    by (simp add: name_text_def option_rect_def option_y_def name_width_def option_fonts_ok_def option_layout_defs distrib_right)
  have short: "text_h e font_tiny s \<le> 34" "0 \<le> text_w e font_tiny s" for s using assms(2) by (auto simp: option_fonts_ok_def intro: order_trans)
  have val: "\<exists>v. value_text e ox j mw x = Some v \<and> draws_inside e v (option_rect e ox mw j)" if "list_type l \<noteq> MENU_LIST"
    using that wide(3) [OF that, of "ivalues x ! nat (ivalue x)"] short assms(4) [OF that]
    by (simp add: value_text_def value_ok_def option_rect_def option_y_def option_fonts_ok_def option_layout_defs distrib_right nat_less_iff Let_def)
  show ?thesis using pill gray label val by (cases "list_type l") (auto simp: option_draws_def Let_def)
qed

text \<open>A value of a table does not touch the name next to it.\<close>

lemma value_apart:
  assumes "names_ok e l" "option_fonts_ok e" "x \<in> set (list_items l)" "list_type l \<in> {MENU_VAR, MENU_INPUT}" "value_ok x"
    and "value_text e ox j (rows_width e l) x = Some v" "d \<in> set v"
  shows "Draw.apart (ox, option_y e j, name_width e (iname x), SCALE1 BUTTON_SIZE) (draw_area e d)"
proof -
  have "ivalues x \<noteq> []" "ivalues x ! nat (ivalue x) \<in> set (ivalues x)" using assms(5) by (auto simp: value_ok_def nat_less_iff)
  from rows_width_row(4) [OF assms(1-3) this(1) assms(4) this(2)] show ?thesis
    using assms(5-7) by (auto simp: value_text_def value_ok_def Let_def option_layout_defs)
qed

lemma option_rows_inside:
  assumes "names_ok e l" "option_fonts_ok e" "list_type l \<noteq> MENU_LIST \<Longrightarrow> \<forall>x \<in> set (list_items l). value_ok x"
    and "0 \<le> rows.top r" "rows.bot r \<le> int (length (list_items l))" "mw = rows_width e l"
  shows "\<exists>rs. option_rows e l await ox mw r = Some rs \<and> length rs = nat (rows.bot r - rows.top r)
    \<and> (\<forall>k < length rs. draws_inside e (rs ! k) (option_rect e ox mw (int k)))"
proof -
  let ?row = "\<lambda>i. if 0 \<le> i \<and> i < int (length (list_items l))
    then option_draws e (list_type l) await ox mw (i - rows.top r) (i - rows.top r = rows.sel r - rows.top r) (list_items l ! nat i) else None"
  let ?is = "[rows.top r .. rows.bot r - 1]"
  have "\<forall>i \<in> set ?is. \<exists>ds. ?row i = Some ds \<and> draws_inside e ds (option_rect e ox mw (i - rows.top r))"
  proof
    fix i assume i: "i \<in> set ?is"
    then have "list_items l ! nat i \<in> set (list_items l)" "0 \<le> i" "i < int (length (list_items l))" using assms(4,5) by auto
    then show "\<exists>ds. ?row i = Some ds \<and> draws_inside e ds (option_rect e ox mw (i - rows.top r))"
      using option_draws_inside [OF assms(1,2) _ _ assms(6)] assms(3) by simp
  qed
  from those_all [OF this] obtain rs where rs: "option_rows e l await ox mw r = Some rs"
    "list_all2 (\<lambda>i ds. draws_inside e ds (option_rect e ox mw (i - rows.top r))) ?is rs"
    unfolding option_rows_def by (elim exE conjE)
  have len: "length rs = nat (rows.bot r - rows.top r)" using list_all2_lengthD [OF rs(2)] by simp
  have "draws_inside e (rs ! k) (option_rect e ox mw (int k))" if k: "k < length rs" for k
  proof -
    have "?is ! k = rows.top r + int k" using nth_upto [of "rows.top r" k "rows.bot r - 1"] k unfolding len by linarith
    then show ?thesis using list_all2_nthD2 [OF rs(2) k] by simp
  qed
  then show ?thesis using rs(1) len by blast
qed

lemma blit_rows_inside:
  assumes "\<forall>l \<in> set ls. l \<noteq> [] \<longrightarrow> 0 \<le> text_w e f l \<and> text_w e f l \<le> w \<and> text_h e f l \<le> leading" "0 \<le> leading"
  shows "draws_inside e (blit_rows e f c x w y leading ls) (x, y, w, int (length ls) * leading)"
  using assms(1)
proof (induction ls arbitrary: y)
  case (Cons l ls)
  have "draws_inside e (blit_rows e f c x w (y + leading) leading ls) (x, y, w, int (length (l # ls)) * leading)"
    using Cons assms(2) by (intro draws_inside_mono [OF Cons.IH]) (auto simp: distrib_right)
  moreover have "inside (draw_area e (Glyphs f l c (x + half (w - text_w e f l)) y)) (x, y, w, int (length (l # ls)) * leading)" if "l \<noteq> []"
  proof -
    have "0 \<le> int (length ls) * leading" using assms(2) by simp
    moreover have "text_w e f l \<le> w" "text_h e f l \<le> leading" using Cons.prems that by simp_all
    ultimately show ?thesis using half_bounds [of "w - text_w e f l"] by (simp add: distrib_right)
  qed
  ultimately show ?case by simp
qed simp

text \<open>The size measured for a description is large enough for it.\<close>

lemma desc_text_inside:
  assumes "option_fonts_ok e" "GFX_sizeText (text_w e font_tiny) s (SCALE1 12) = Some (w, h)"
  shows "\<exists>d. desc_text e (Some s) = Some d
    \<and> draws_inside e d (half (screen_w e - w), screen_h e - SCALE1 (PADDING e) - h, w, h)"
proof -
  let ?ls = "text_lines (MAX_TEXT_LINES - 1) s"
  have size: "\<forall>l \<in> set ?ls. length l < 256" "h = int (length ?ls) * SCALE1 12"
    "w = fold (\<lambda>l mw. if l \<noteq> [] \<and> text_w e font_tiny l > mw then text_w e font_tiny l else mw) ?ls 0"
    using assms(2) by (auto simp: GFX_sizeText_def Let_def not_le split: if_splits)
  have "w = fold (\<lambda>l mw. if (if l = [] then 0 else text_w e font_tiny l) > mw then (if l = [] then 0 else text_w e font_tiny l) else mw) ?ls 0"
  proof -
    have "fold (\<lambda>l mw. if l \<noteq> [] \<and> text_w e font_tiny l > mw then text_w e font_tiny l else mw) ls m
      = fold (\<lambda>l mw. if (if l = [] then 0 else text_w e font_tiny l) > mw then (if l = [] then 0 else text_w e font_tiny l) else mw) ls m"
      if "0 \<le> m" for ls m
      using that by (induction ls arbitrary: m) auto
    then show ?thesis unfolding size(3) by blast
  qed
  then have "(if l = [] then 0 else text_w e font_tiny l) \<le> w" if "l \<in> set ?ls" for l
    using fold_widest [OF that, of "\<lambda>l. if l = [] then 0 else text_w e font_tiny l" 0] by simp
  then have "\<forall>l \<in> set ?ls. l \<noteq> [] \<longrightarrow> text_w e font_tiny l \<le> w" by (metis (full_types))
  then have "draws_inside e (blit_rows e font_tiny RGB_WHITE (half (screen_w e - w)) w (screen_h e - SCALE1 (PADDING e) - h) (SCALE1 12) ?ls)
      (half (screen_w e - w), screen_h e - SCALE1 (PADDING e) - h, w, h)"
    unfolding size(2) using assms(1) by (intro blit_rows_inside) (auto simp: option_fonts_ok_def layout_defs)
  then show ?thesis using size(1) assms(2) by (simp add: desc_text_def GFX_blitText_def Let_def list_all_iff line_fits_def)
qed

subsection \<open>The screen\<close>

lemma max_options_room:
  "0 < max_options e \<Longrightarrow> option_y e (max_options e) \<le> screen_h e - SCALE1 (PADDING e + PILL_SIZE + BUTTON_SIZE)"
proof -
  let ?a = "screen_h e - (SCALE1 (PADDING e + PILL_SIZE) * 2 + SCALE1 BUTTON_SIZE)"
  assume "0 < max_options e"
  then have "0 \<le> ?a" by (auto simp: max_options_def cdiv_def layout_defs sgn_if split: if_splits)
  then have "max_options e = ?a div 40" by (simp add: max_options_def cdiv_nonneg layout_defs)
  then have "40 * max_options e \<le> ?a" by (metis mult_div_mod_eq le_add_same_cancel1 pos_mod_sign zero_less_numeral)
  then show ?thesis by (simp add: option_y_def layout_defs)
qed

lemma scroll_marks_inside:
  assumes "d \<in> set (scroll_marks e n r)"
  shows "draw_area e d = (half (screen_w e - 48), SCALE1 (PADDING e) + 26, 48, 12)
    \<or> draw_area e d = (half (screen_w e - 48), screen_h e - SCALE1 (PADDING e + PILL_SIZE + BUTTON_SIZE) + 26, 48, 12)"
  using assms by (auto simp: scroll_marks_def GFX_blitAsset_def option_layout_defs SCALE4_def half_def Let_def split: if_splits)

text \<open>C23: The screen of an option menu is laid out without collisions. For every list the menus can be in, after any frames, whose
  names and values are no wider than the screen allows (and, in an input table, whose rows all have the same values, so not a table that starts
  with the type of the controller), it is
  drawn, with one row for each visible option; each row keeps to its box, the boxes are on the screen and touch neither each other, nor the
  group of the battery and levels, nor the triangles, nor the description, which do not touch each other
  either. The description has at most two lines and is no wider than the screen. Longer names, such as those of collections, are cut by the screen and not covered.\<close>

theorem options_layout:
  assumes "rows_ok (max_options e) m" "list_items l = map (drawn_item label desc) (mitems m)"
    and "list_type l \<noteq> MENU_LIST \<Longrightarrow> list_all row_ok (mitems m)"
    and "names_ok e l" "option_fonts_ok e" "hardware_ok e hw" "GFX_blitHardwareGroup e hw setting = (grp, ow)"
    and "0 \<le> PADDING e" "SCALE1 (PADDING e) + ow + 24 \<le> half (screen_w e)"
    and "shown_desc l (mrows m) = Some s" "GFX_sizeText (text_w e font_tiny) s (SCALE1 12) = Some (dw, dh)" "dh \<le> 48" "dw \<le> screen_w e"
    and "mw = rows_width e l" "ox = (if list_type l = MENU_FIXED then SCALE1 (PADDING e) else half (screen_w e - mw))"
  shows "\<exists>rs marks d. options_screen e hw setting (await_input m) l (mrows m) = Some (grp @ concat rs @ marks @ d, cache_width e l)
    \<and> length rs = min (length (mitems m)) (nat (max_options e))
    \<and> draws_inside e grp (hardware_rect e ow)
    \<and> draws_inside e (marks @ d) (0, 0, screen_w e, screen_h e)
    \<and> (\<forall>a \<in> set marks. Draw.apart (draw_area e a) (hardware_rect e ow) \<and> (\<forall>b \<in> set d. Draw.apart (draw_area e a) (draw_area e b)))
    \<and> (\<forall>k < length rs. draws_inside e (rs ! k) (option_rect e ox mw (int k))
        \<and> inside (option_rect e ox mw (int k)) (0, 0, screen_w e, screen_h e)
        \<and> Draw.apart (option_rect e ox mw (int k)) (hardware_rect e ow)
        \<and> (\<forall>a \<in> set (marks @ d). Draw.apart (option_rect e ox mw (int k)) (draw_area e a))
        \<and> (\<forall>j < k. Draw.apart (option_rect e ox mw (int j)) (option_rect e ox mw (int k))))"
proof -
  let ?r = "mrows m" and ?max = "max_options e"
  have win: "0 \<le> rows.top ?r" "rows.bot ?r \<le> int (length (list_items l))" "rows.bot ?r - rows.top ?r = min (int (length (mitems m))) ?max"
    "0 < ?max" "mitems m \<noteq> []"
    using assms(1,2) by (auto simp: rows_ok_def visible_rows_def)
  have "value_ok (drawn_item label desc x)" if "row_ok x" for x
    using that by (auto simp: row_ok_def value_ok_def drawn_item_def split: item_values.splits)
  then have vals: "list_type l \<noteq> MENU_LIST \<Longrightarrow> \<forall>x \<in> set (list_items l). value_ok x" using assms(2,3) by (auto simp: list_all_iff)
  obtain rs where rs: "option_rows e l (await_input m) ox mw ?r = Some rs" "length rs = nat (rows.bot ?r - rows.top ?r)"
    "\<forall>k < length rs. draws_inside e (rs ! k) (option_rect e ox mw (int k))"
    using option_rows_inside [OF assms(4,5) vals win(1,2) assms(14)] by blast
  obtain d where d: "desc_text e (Some s) = Some d" "draws_inside e d (half (screen_w e - dw), screen_h e - SCALE1 (PADDING e) - dh, dw, dh)"
    using desc_text_inside [OF assms(5,11)] by blast
  have count: "length rs = min (length (mitems m)) (nat ?max)" using rs(2) win(3,4) by linarith
  have room: "mw \<le> screen_w e - SCALE1 (PADDING e * 2)"
    unfolding assms(14) rows_width_fresh [OF assms(4)] by (simp add: rows_width_def Let_def split: menu_type.split)
  have across: "0 \<le> ox \<and> ox + mw \<le> screen_w e"
    using room assms(8,15) half_bounds [of "screen_w e - mw"] by (auto simp: layout_defs)
  have down: "option_y e (int k) + 40 \<le> screen_h e - SCALE1 (PADDING e) - 100" "0 \<le> option_y e (int k)" if "k < length rs" for k
  proof -
    have "int k + 1 \<le> ?max" using that count by linarith
    then have "option_y e (int k + 1) \<le> option_y e ?max" by (simp add: option_y_def layout_defs)
    then show "option_y e (int k) + 40 \<le> screen_h e - SCALE1 (PADDING e) - 100" "0 \<le> option_y e (int k)"
      using max_options_room [OF win(4)] assms(8) by (simp_all add: option_y_def layout_defs)
  qed
  have low: "SCALE1 (PADDING e) + 200 \<le> screen_h e - SCALE1 (PADDING e)"
    using down [of 0] count win(4,5) by (simp add: option_y_def layout_defs)
  have middle: "half (screen_w e - 48) + 48 \<le> screen_w e - SCALE1 (PADDING e) - ow" "0 \<le> half (screen_w e - 48)"
    using assms(8,9) hardware_width_pos [OF assms(6), of setting] assms(7) by (auto simp: half_def layout_defs split: if_splits)
  let ?marks = "scroll_marks e (int (length (list_items l))) ?r"
  let ?box = "\<lambda>k. option_rect e ox mw (int k)"
  have mark: "Draw.apart (draw_area e a) (hardware_rect e ow)" "inside (draw_area e a) (0, 0, screen_w e, screen_h e)"
    "k < length rs \<Longrightarrow> Draw.apart (?box k) (draw_area e a)"
    "Draw.apart (draw_area e a) (half (screen_w e - dw), screen_h e - SCALE1 (PADDING e) - dh, dw, dh)" if "a \<in> set ?marks" for a k
  proof -
    have hw: "0 \<le> ow" using hardware_width_pos [OF assms(6), of setting] assms(7) by simp
    show "Draw.apart (draw_area e a) (hardware_rect e ow)" "inside (draw_area e a) (0, 0, screen_w e, screen_h e)"
      "k < length rs \<Longrightarrow> Draw.apart (?box k) (draw_area e a)"
      "Draw.apart (draw_area e a) (half (screen_w e - dw), screen_h e - SCALE1 (PADDING e) - dh, dw, dh)"
      using scroll_marks_inside [OF that] middle low assms(8,12) hw down [of k]
      by (auto simp: hardware_rect_def option_rect_def option_y_def layout_defs)
  qed
  have "0 \<le> half (screen_w e - dw) \<and> half (screen_w e - dw) + dw \<le> screen_w e" using half_bounds [of "screen_w e - dw"] assms(13) by simp
  then have desc: "inside (half (screen_w e - dw), screen_h e - SCALE1 (PADDING e) - dh, dw, dh) (0, 0, screen_w e, screen_h e)"
    using low assms(8,12) by (auto simp: layout_defs)
  have desc_row: "Draw.apart (?box k) (half (screen_w e - dw), screen_h e - SCALE1 (PADDING e) - dh, dw, dh)" if "k < length rs" for k
    using down(1) [OF that] assms(12) by (simp add: option_rect_def layout_defs)
  have in_desc: "Draw.apart r (draw_area e b)" if "b \<in> set d" "Draw.apart r (half (screen_w e - dw), screen_h e - SCALE1 (PADDING e) - dh, dw, dh)" for r b
    using d(2) that inside_apart [of r r "draw_area e b"] by (cases r) (auto simp: draws_inside_def)
  have "options_screen e hw setting (await_input m) l ?r = Some (grp @ concat rs @ ?marks @ d, cache_width e l)"
    using rs(1) d(1) assms(7,10,14,15) by (cases "list_type l = MENU_FIXED") (simp_all add: options_screen_def Let_def)
  moreover have "draws_inside e grp (hardware_rect e ow)" using hardwareGroup_inside [OF assms(6), of setting] assms(7) by simp
  moreover have "draws_inside e (?marks @ d) (0, 0, screen_w e, screen_h e)"
    using mark(2) draws_inside_mono [OF d(2) desc] by (auto simp: draws_inside_def)
  moreover have "\<forall>k < length rs. inside (?box k) (0, 0, screen_w e, screen_h e) \<and> Draw.apart (?box k) (hardware_rect e ow)
      \<and> (\<forall>j < k. Draw.apart (?box j) (?box k))"
    using across down assms(8) by (fastforce simp: option_rect_def hardware_rect_def option_y_def layout_defs)
  ultimately show ?thesis using count rs(3) mark(1,3,4) desc_row in_desc
    by (intro exI [of _ rs] exI [of _ ?marks] exI [of _ d]) (simp add: ball_Un)
qed

definition demo_option_items :: "MenuItem list" where
  "demo_option_items =
    [\<lparr>mkey = ''minarch_screen_scaling'', mid = 0, mvalue = 1, mvalues = Labels [''Native'', ''Aspect'', ''Fullscreen'']\<rparr>,
     \<lparr>mkey = ''minarch_max_ff_speed'', mid = 1, mvalue = 0, mvalues = Labels [''None'', ''2x'']\<rparr>]"

definition demo_list :: menu_list where
  "demo_list = \<lparr>list_type = MENU_VAR, max_width = 0, list_desc = Some ''Two lines'',
     list_items = map (drawn_item mkey (\<lambda>x. None)) demo_option_items\<rparr>"

lemma demo_list_ok:
  "rows_ok (max_options demo_screen) (menu_start 7 demo_option_items c)" "names_ok demo_screen demo_list"
  "option_fonts_ok demo_screen" "list_all row_ok demo_option_items"
proof -
  have "max_options demo_screen = 7" by code_simp
  then show "rows_ok (max_options demo_screen) (menu_start 7 demo_option_items c)"
    by (simp add: rows_start demo_option_items_def)
  show "option_fonts_ok demo_screen" by (simp add: option_fonts_ok_def demo_screen_def text_w_def text_h_def)
qed code_simp+

theorem options_layout_witness:
  "\<forall>c. \<exists>rs marks d grp. options_screen demo_screen demo_hardware 0 False demo_list (mrows (menu_start 7 demo_option_items c))
      = Some (grp @ concat rs @ marks @ d, cache_width demo_screen demo_list) \<and> length rs = 2"
proof
  fix c
  let ?m = "menu_start 7 demo_option_items c"
  have items: "list_items demo_list = map (drawn_item mkey (\<lambda>x. None)) (mitems ?m)" by (simp add: demo_list_def menu_start_def)
  have grp: "GFX_blitHardwareGroup demo_screen demo_hardware 0
      = (fst (GFX_blitHardwareGroup demo_screen demo_hardware 0), snd (GFX_blitHardwareGroup demo_screen demo_hardware 0))" by simp
  have desc: "shown_desc demo_list (mrows ?m) = Some ''Two lines''"
    by (simp add: shown_desc_def demo_list_def demo_option_items_def menu_start_def drawn_item_def)
  have size: "GFX_sizeText (text_w demo_screen font_tiny) ''Two lines'' (SCALE1 12) = Some (90, 24)" by code_simp
  have room: "SCALE1 (PADDING demo_screen) + snd (GFX_blitHardwareGroup demo_screen demo_hardware 0) + 24 \<le> half (screen_w demo_screen)"
    unfolding demo_screen_ok(8) by (simp add: demo_screen_def layout_defs half_def)
  have "list_all row_ok (mitems ?m)" using demo_list_ok(4) by (simp add: menu_start_def)
  moreover have "0 \<le> PADDING demo_screen" "90 \<le> screen_w demo_screen" by (simp_all add: demo_screen_def)
  ultimately obtain rs marks d where "options_screen demo_screen demo_hardware 0 (await_input ?m) demo_list (mrows ?m)
      = Some (fst (GFX_blitHardwareGroup demo_screen demo_hardware 0) @ concat rs @ marks @ d, cache_width demo_screen demo_list)"
    "length rs = min (length (mitems ?m)) (nat (max_options demo_screen))"
    using options_layout [OF demo_list_ok(1) items _ demo_list_ok(2,3) demo_screen_ok(4) grp _ room desc size _ _ refl refl] by auto
  moreover have "max_options demo_screen = 7" by code_simp
  ultimately show "\<exists>rs marks d grp. options_screen demo_screen demo_hardware 0 False demo_list (mrows ?m)
      = Some (grp @ concat rs @ marks @ d, cache_width demo_screen demo_list) \<and> length rs = 2"
    by (intro exI [of _ rs] exI [of _ marks] exI [of _ d] exI [of _ "fst (GFX_blitHardwareGroup demo_screen demo_hardware 0)"])
      (simp add: menu_start_def demo_option_items_def)
qed

text \<open>Only the values of the first row of an input table are measured. When that row is the type of the controller, the
  label of a button pressed with the menu button can be wider and reach into the name.\<close>

definition controller_rows :: "row_item list" where
  "controller_rows =
    [\<lparr>iname = ''Controller'', idesc = Some ''Select the type of controller.'', ivalues = gamepad_labels, ivalue = 0\<rparr>,
     \<lparr>iname = ''Start/Next'', idesc = None, ivalues = button_labels, ivalue = 26\<rparr>]"

lemma controller_row_narrow:
  "let e = demo_screen; x = controller_rows ! 1; mw = rows_width e \<lparr>list_type = MENU_INPUT, max_width = 0, list_desc = None, list_items = controller_rows\<rparr>;
     v = hd (the (value_text e 0 1 mw x))
   in v = Glyphs font_tiny ''MENU+SELECT'' RGB_WHITE 128 126 \<and> \<not> Draw.apart (0, option_y e 1, name_width e (iname x), SCALE1 BUTTON_SIZE) (draw_area e v)"
  by code_simp

end
