(* ===== verification/Preview.thy ===== *)
theory Preview
  imports Video
begin

text \<open>
  The pictures in the in-game menu: \<open>Menu_scale\<close> (\<open>minarch/menu.c\<close>), which draws the screenshot of a save state into the
  preview by nearest neighbour.
  Surfaces are lists of pixels; a read or write outside them has no result.
\<close>

subsection \<open>Where the picture goes\<close>

record preview_rect =
  v_sw :: int
  v_sh :: int
  v_rx :: int
  v_ry :: int
  v_rw :: int
  v_rh :: int

definition halve :: "device \<Rightarrow> int \<Rightarrow> preview_rect \<Rightarrow> preview_rect" where
  "halve dev dw v =
     (if dw = cdiv (DEVICE_WIDTH dev) 2
      then v\<lparr>v_rx := cdiv (v_rx v) 2, v_ry := cdiv (v_ry v) 2, v_rw := cdiv (v_rw v) 2, v_rh := cdiv (v_rh v) 2\<rparr> else v)"

definition preview_mode :: "device \<Rightarrow> scaling \<Rightarrow> scaling" where
  "preview_mode dev m = (if m = SCALE_CROPPED \<and> DEVICE_WIDTH dev = HDMI_WIDTH dev then SCALE_NATIVE else m)"

definition preview_aspect :: "(rat \<Rightarrow> rat) \<Rightarrow> device \<Rightarrow> rat \<Rightarrow> int \<Rightarrow> int \<Rightarrow> preview_rect \<Rightarrow> preview_rect" where
  "preview_aspect rnd dev aspect_ratio dw dh v =
     (let fixed_aspect_ratio = rnd (of_int (DEVICE_WIDTH dev) / of_int (DEVICE_HEIGHT dev));
          core_aspect = to_int (rnd (aspect_ratio * 1000));
          fixed_aspect = to_int (rnd (fixed_aspect_ratio * 1000));
          (rw, rh) =
            (if core_aspect > fixed_aspect
             then (let h = to_int (rnd (of_int dw / aspect_ratio)) in (dw, h + h mod 2))
             else if core_aspect < fixed_aspect
             then (let w = to_int (rnd (of_int dh * aspect_ratio)); w = w + w mod 2 in (cdiv w 8 * 8, dh))
             else (dw, dh))
      in v\<lparr>v_rw := rw, v_rh := rh, v_rx := cdiv (dw - rw) 2, v_ry := cdiv (dh - rh) 2\<rparr>)"

definition preview_place :: "(rat \<Rightarrow> rat) \<Rightarrow> device \<Rightarrow> scaling \<Rightarrow> rat \<Rightarrow> renderer \<Rightarrow> int \<Rightarrow> int \<Rightarrow> int \<Rightarrow> int \<Rightarrow> preview_rect" where
  "preview_place rnd dev m aspect_ratio r sw sh dw dh =
     (let whole = \<lparr>v_sw = sw, v_sh = sh, v_rx = 0, v_ry = 0, v_rw = dw, v_rh = dh\<rparr>;
          m = preview_mode dev m;
          v = (case m of
                 SCALE_NATIVE \<Rightarrow>
                   halve dev dw
                     (if r_scale r \<noteq> 0
                      then whole\<lparr>v_rx := dst_x r, v_ry := dst_y r, v_rw := src_w r * r_scale r, v_rh := src_h r * r_scale r\<rparr>
                      else (let w = src_w r - src_x r * 2; h = src_h r - src_y r * 2
                            in whole\<lparr>v_rx := dst_x r, v_ry := dst_y r, v_rw := w, v_rh := h, v_sw := w, v_sh := h\<rparr>))
               | SCALE_CROPPED \<Rightarrow>
                   (let w = sw - src_x r * 2; h = sh - src_y r * 2
                    in halve dev dw (whole\<lparr>v_sw := w, v_sh := h, v_rx := dst_x r, v_ry := dst_y r,
                         v_rw := w * r_scale r, v_rh := h * r_scale r\<rparr>))
               | _ \<Rightarrow> whole)
      in if m = SCALE_ASPECT \<or> v_rw v > dw \<or> v_rh v > dh then preview_aspect rnd dev aspect_ratio dw dh v else v)"

subsection \<open>Drawing it\<close>

fun scale_line :: "u16 list \<Rightarrow> int \<Rightarrow> int \<Rightarrow> int \<Rightarrow> nat \<Rightarrow> int \<Rightarrow> u16 list \<Rightarrow> u16 list option" where
  "scale_line s sr mx sx 0 pos d = Some d"
| "scale_line s sr mx sx (Suc n) pos d =
     (let i = sr + sx div 65536 in
      if 0 \<le> i \<and> i < int (length s) \<and> 0 \<le> pos \<and> pos < int (length d)
      then scale_line s sr mx (sx + mx) n (pos + 1) (d[nat pos := s ! nat i]) else None)"

definition copy_row :: "int \<Rightarrow> int \<Rightarrow> u16 list \<Rightarrow> u16 list option" where
  \<comment> \<open>\<open>memcpy(d+dr,d+dr-dp,cp)\<close>\<close>
  "copy_row dr dp d =
     (if dp \<le> dr \<and> dr + dp \<le> int (length d)
      then Some (take (nat dr) d @ take (nat dp) (drop (nat (dr - dp)) d) @ drop (nat (dr + dp)) d) else None)"

fun scale_rows :: "u16 list \<Rightarrow> int \<Rightarrow> int \<Rightarrow> int \<Rightarrow> int \<Rightarrow> nat \<Rightarrow> int \<Rightarrow> int \<Rightarrow> nat \<Rightarrow> int \<Rightarrow> int \<Rightarrow> int \<Rightarrow> u16 list \<Rightarrow> u16 list option" where
  "scale_rows s sp mx my ox rw rx dp 0 sy lr dr d = Some d"
| "scale_rows s sp mx my ox rw rx dp (Suc n) sy lr dr d =
     (let sr = sy div 65536 * sp in
      case (if sr = lr then copy_row dr dp d else scale_line s sr mx ox rw (dr + rx) d) of
        None \<Rightarrow> None
      | Some d \<Rightarrow> scale_rows s sp mx my ox rw rx dp n (sy + my) sr (dr + dp) d)"

definition Menu_scale :: "(rat \<Rightarrow> rat) \<Rightarrow> device \<Rightarrow> scaling \<Rightarrow> rat \<Rightarrow> renderer \<Rightarrow> int \<times> int \<times> int \<Rightarrow> u16 list
    \<Rightarrow> int \<times> int \<times> int \<Rightarrow> u16 list \<Rightarrow> u16 list option" where
  \<comment> \<open>width, height and pixels per row of both surfaces; no result when the picture would have no width or height\<close>
  "Menu_scale rnd dev m aspect_ratio r ssize s dsize d =
     (case (ssize, dsize) of ((sw, sh, sp), (dw, dh, dp)) \<Rightarrow>
      let v = preview_place rnd dev m aspect_ratio r sw sh dw dh in
      if v_rw v = 0 \<or> v_rh v = 0 then None
      else scale_rows s sp (cdiv (v_sw v * 65536) (v_rw v)) (cdiv (v_sh v * 65536) (v_rh v)) (src_x r * 65536) (nat (v_rw v)) (v_rx v) dp
             (nat (v_rh v)) (src_y r * 65536) (- 1) (v_ry v * dp) d)"

subsection \<open>Facts on the picture\<close>

lemma scale_line_result:
  assumes "\<forall>k < n. 0 \<le> sr + (sx + int k * mx) div 65536 \<and> sr + (sx + int k * mx) div 65536 < int (length s)"
    and "pos + n \<le> length d"
  shows "\<exists>d'. scale_line s sr mx sx n (int pos) d = Some d' \<and> length d' = length d
    \<and> (\<forall>a < length d. d' ! a = (if pos \<le> a \<and> a < pos + n then s ! nat (sr + (sx + int (a - pos) * mx) div 65536) else d ! a))"
  using assms
proof (induction n arbitrary: sx pos d)
  case 0
  then show ?case by auto
next
  case (Suc n)
  let ?d = "d[pos := s ! nat (sr + sx div 65536)]"
  have here: "0 \<le> sr + sx div 65536" "sr + sx div 65536 < int (length s)" "pos < length d" using Suc.prems by force+
  have "\<forall>k < n. 0 \<le> sr + (sx + mx + int k * mx) div 65536 \<and> sr + (sx + mx + int k * mx) div 65536 < int (length s)"
  proof (intro allI impI)
    fix k assume "k < n"
    then have "Suc k < Suc n" by simp
    with Suc.prems(1) show "0 \<le> sr + (sx + mx + int k * mx) div 65536 \<and> sr + (sx + mx + int k * mx) div 65536 < int (length s)"
      by (metis add.assoc of_nat_Suc distrib_right mult_1)
  qed
  from Suc.IH [OF this, of "Suc pos" ?d] Suc.prems(2) obtain d' where d': "scale_line s sr mx (sx + mx) n (int (Suc pos)) ?d = Some d'"
    "length d' = length d"
    "\<forall>a < length d. d' ! a = (if Suc pos \<le> a \<and> a < Suc pos + n then s ! nat (sr + (sx + mx + int (a - Suc pos) * mx) div 65536) else ?d ! a)"
    by auto
  have "scale_line s sr mx sx (Suc n) (int pos) d = Some d'" using here d'(1) by (simp add: add.commute)
  moreover have "d' ! a = (if pos \<le> a \<and> a < pos + Suc n then s ! nat (sr + (sx + int (a - pos) * mx) div 65536) else d ! a)" if a: "a < length d" for a
  proof (cases "Suc pos \<le> a \<and> a < Suc pos + n")
    case True
    then have eq: "sx + mx + int (a - Suc pos) * mx = sx + int (a - pos) * mx" by (simp add: of_nat_diff algebra_simps)
    have "d' ! a = s ! nat (sr + (sx + mx + int (a - Suc pos) * mx) div 65536)" using True d'(3) a by simp
    then show ?thesis unfolding eq using True by auto
  next
    case False
    then show ?thesis using d'(3) a by (cases "a = pos") auto
  qed
  ultimately show ?case using d'(2) by blast
qed

lemma copy_row_result:
  assumes "DP \<le> DR" "DR + DP \<le> length d"
  shows "\<exists>d'. copy_row (int DR) (int DP) d = Some d' \<and> length d' = length d
    \<and> (\<forall>a < length d. d' ! a = (if DR \<le> a \<and> a < DR + DP then d ! (a - DP) else d ! a))"
proof -
  have "nat (int DR - int DP) = DR - DP" "nat (int DR + int DP) = DR + DP" using assms(1) by simp_all
  then have "copy_row (int DR) (int DP) d = Some (take DR d @ take DP (drop (DR - DP) d) @ drop (DR + DP) d)"
    using assms by (simp add: copy_row_def)
  then show ?thesis
    using assms by (intro exI [of _ "take DR d @ take DP (drop (DR - DP) d) @ drop (DR + DP) d"]) (auto simp: nth_append min_def)
qed

definition row_pixel :: "u16 list \<Rightarrow> int \<Rightarrow> int \<Rightarrow> int \<Rightarrow> int \<Rightarrow> nat \<Rightarrow> nat \<Rightarrow> int \<Rightarrow> nat \<Rightarrow> nat \<Rightarrow> u16" where
  \<comment> \<open>column \<open>c\<close> of row \<open>y\<close>\<close>
  "row_pixel s sp mx my ox rw rx sy y c =
     (if rx \<le> c \<and> c < rx + rw then s ! nat ((sy + int y * my) div 65536 * sp + (ox + int (c - rx) * mx) div 65536) else 0)"

lemma scale_rows_result:
  assumes "\<forall>y < y0 + n. \<forall>k < rw. 0 \<le> (sy + int y * my) div 65536 * sp + (ox + int k * mx) div 65536
      \<and> (sy + int y * my) div 65536 * sp + (ox + int k * mx) div 65536 < int (length s)"
    and "rx + rw \<le> DP" "DR + n * DP \<le> length d" "\<forall>a. DR \<le> a \<and> a < DR + n * DP \<longrightarrow> d ! a = 0"
    and "if y0 = 0 then lr < 0 \<and> 0 \<le> sy \<and> 0 \<le> my \<and> 0 \<le> sp
      else DP \<le> DR \<and> lr = (sy + int (y0 - 1) * my) div 65536 * sp \<and> (\<forall>c < DP. d ! (DR + c - DP) = row_pixel s sp mx my ox rw rx sy (y0 - 1) c)"
  shows "\<exists>d'. scale_rows s sp mx my ox rw (int rx) (int DP) n (sy + int y0 * my) lr (int DR) d = Some d' \<and> length d' = length d
    \<and> (\<forall>y < n. \<forall>c < DP. d' ! (DR + y * DP + c) = row_pixel s sp mx my ox rw rx sy (y0 + y) c)
    \<and> (\<forall>a < length d. a < DR \<or> DR + n * DP \<le> a \<longrightarrow> d' ! a = d ! a)"
  using assms
proof (induction n arbitrary: y0 lr DR d)
  case 0
  then show ?case by simp
next
  case (Suc n)
  let ?sr = "(sy + int y0 * my) div 65536 * sp"
  have len: "DR + DP \<le> length d" "DR + DP + n * DP \<le> length d" using Suc.prems(3) by simp_all
  have "\<exists>d1. (if ?sr = lr then copy_row (int DR) (int DP) d else scale_line s ?sr mx ox rw (int DR + int rx) d) = Some d1
    \<and> length d1 = length d \<and> (\<forall>c < DP. d1 ! (DR + c) = row_pixel s sp mx my ox rw rx sy y0 c)
    \<and> (\<forall>a < length d. a < DR \<or> DR + DP \<le> a \<longrightarrow> d1 ! a = d ! a)"
  proof (cases "?sr = lr")
    case True
    have "y0 \<noteq> 0"
    proof
      assume "y0 = 0"
      then have "0 \<le> ?sr" "lr < 0" using Suc.prems(5) by (simp_all add: pos_imp_zdiv_nonneg_iff)
      then show False using True by simp
    qed
    then have prev: "DP \<le> DR" "lr = (sy + int (y0 - 1) * my) div 65536 * sp"
      "\<forall>c < DP. d ! (DR + c - DP) = row_pixel s sp mx my ox rw rx sy (y0 - 1) c" using Suc.prems(5) by simp_all
    have "row_pixel s sp mx my ox rw rx sy y0 c = row_pixel s sp mx my ox rw rx sy (y0 - 1) c" for c
      unfolding row_pixel_def True prev(2) [symmetric] ..
    then show ?thesis using copy_row_result [OF prev(1) len(1)] prev True len(1) by auto
  next
    case False
    have "\<forall>k < rw. 0 \<le> ?sr + (ox + int k * mx) div 65536 \<and> ?sr + (ox + int k * mx) div 65536 < int (length s)"
      using Suc.prems(1) by simp
    from scale_line_result [OF this, of "DR + rx" d] obtain d1 where d1:
      "scale_line s ?sr mx ox rw (int (DR + rx)) d = Some d1" "length d1 = length d"
      "\<forall>a < length d. d1 ! a = (if DR + rx \<le> a \<and> a < DR + rx + rw then s ! nat (?sr + (ox + int (a - (DR + rx)) * mx) div 65536) else d ! a)"
      using Suc.prems(2) len(1) by auto
    then show ?thesis using False Suc.prems(2,4) len(1) by (auto simp: row_pixel_def)
  qed
  then obtain d1 where d1: "(if ?sr = lr then copy_row (int DR) (int DP) d else scale_line s ?sr mx ox rw (int DR + int rx) d) = Some d1"
    "length d1 = length d" "\<forall>c < DP. d1 ! (DR + c) = row_pixel s sp mx my ox rw rx sy y0 c"
    "\<forall>a < length d. a < DR \<or> DR + DP \<le> a \<longrightarrow> d1 ! a = d ! a" by blast
  have "\<exists>d'. scale_rows s sp mx my ox rw (int rx) (int DP) n (sy + int (Suc y0) * my) ?sr (int (DR + DP)) d1 = Some d' \<and> length d' = length d1
    \<and> (\<forall>y < n. \<forall>c < DP. d' ! (DR + DP + y * DP + c) = row_pixel s sp mx my ox rw rx sy (Suc y0 + y) c)
    \<and> (\<forall>a < length d1. a < DR + DP \<or> DR + DP + n * DP \<le> a \<longrightarrow> d' ! a = d1 ! a)"
    by (rule Suc.IH) (use Suc.prems(1,2,4) len d1 in auto)
  then obtain d' where d': "scale_rows s sp mx my ox rw (int rx) (int DP) n (sy + int (Suc y0) * my) ?sr (int (DR + DP)) d1 = Some d'" "length d' = length d"
    "\<forall>y < n. \<forall>c < DP. d' ! (DR + DP + y * DP + c) = row_pixel s sp mx my ox rw rx sy (Suc y0 + y) c"
    "\<forall>a < length d. a < DR + DP \<or> DR + DP + n * DP \<le> a \<longrightarrow> d' ! a = d1 ! a" using d1(2) by auto
  have step: "scale_rows s sp mx my ox rw (int rx) (int DP) (Suc n) (sy + int y0 * my) lr (int DR) d = Some d'"
  proof -
    have "sy + int (Suc y0) * my = sy + int y0 * my + my" by (simp add: algebra_simps)
    then show ?thesis using d1(1) d'(1) by (simp only: scale_rows.simps Let_def option.case of_nat_add)
  qed
  have rows: "d' ! (DR + y * DP + c) = row_pixel s sp mx my ox rw rx sy (y0 + y) c" if "y < Suc n" "c < DP" for y c
  proof (cases y)
    case 0
    then show ?thesis using d'(4) d1(3) that len(1) by simp
  next
    case (Suc y')
    then show ?thesis using d'(3) that by (simp add: add.assoc)
  qed
  moreover have "d' ! a = d ! a" if "a < length d" "a < DR \<or> DR + Suc n * DP \<le> a" for a
    using that d'(4) d1(4) by auto
  ultimately show ?case using step d'(2) by blast
qed

definition preview_fits :: "preview_rect \<Rightarrow> renderer \<Rightarrow> nat \<Rightarrow> nat \<Rightarrow> int \<Rightarrow> nat \<Rightarrow> bool" where
  \<comment> \<open>the picture lies in the preview of \<open>dlen\<close> pixels and what is read lies in the screenshot of \<open>slen\<close> pixels\<close>
  "preview_fits v r dp dlen sp slen \<longleftrightarrow> 0 < v_rw v \<and> 0 < v_rh v \<and> 0 \<le> v_rx v \<and> 0 \<le> v_ry v \<and> v_rx v + v_rw v \<le> int dp
     \<and> (v_ry v + v_rh v) * int dp \<le> int dlen \<and> 0 < v_sw v \<and> 0 < v_sh v \<and> 0 \<le> src_x r \<and> 0 \<le> src_y r \<and> src_x r + v_sw v \<le> sp
     \<and> (src_y r + v_sh v) * sp \<le> int slen"

lemma step_inside:
  assumes "0 < n" "0 < w" "k < n"
  shows "0 \<le> int k * cdiv (w * 65536) (int n) div 65536" "int k * cdiv (w * 65536) (int n) div 65536 < w"
proof -
  let ?m = "w * 65536 div int n"
  have m: "0 \<le> ?m" "int n * ?m \<le> w * 65536" using assms(1,2) by (simp_all add: pos_imp_zdiv_nonneg_iff minus_mod_eq_mult_div [symmetric])
  have "int k * ?m < w * 65536"
  proof (cases "?m = 0")
    case True
    then show ?thesis using assms(2) by simp
  next
    case False
    then have "int k * ?m < int n * ?m" using m(1) assms(3) by (simp add: mult_strict_right_mono)
    then show ?thesis using m(2) by linarith
  qed
  then have "int k * ?m div 65536 < w" by (simp add: div_less_iff_less_mult)
  moreover have "0 \<le> int k * ?m div 65536" using m(1) by (simp add: pos_imp_zdiv_nonneg_iff)
  moreover have "cdiv (w * 65536) (int n) = ?m" using assms(1,2) by (intro cdiv_pos) simp_all
  ultimately show "0 \<le> int k * cdiv (w * 65536) (int n) div 65536" "int k * cdiv (w * 65536) (int n) div 65536 < w" by simp_all
qed

lemma shifted_div: "(a * 65536 + b) div 65536 = a + b div (65536 :: int)"
  by simp

lemma preview_reads:
  assumes "y < RH" "k < RW" "0 < sw" "0 < sh" "0 \<le> x0" "0 \<le> y0" "x0 + sw \<le> sp" "(y0 + sh) * sp \<le> int n"
  shows "0 \<le> (y0 * 65536 + int y * cdiv (sh * 65536) (int RH)) div 65536 * sp + (x0 * 65536 + int k * cdiv (sw * 65536) (int RW)) div 65536
    \<and> (y0 * 65536 + int y * cdiv (sh * 65536) (int RH)) div 65536 * sp + (x0 * 65536 + int k * cdiv (sw * 65536) (int RW)) div 65536 < int n"
proof -
  define a b where "a = int y * cdiv (sh * 65536) (int RH) div 65536" and "b = int k * cdiv (sw * 65536) (int RW) div 65536"
  have ab: "0 \<le> a" "a < sh" "0 \<le> b" "b < sw"
    using step_inside [of RH sh y] step_inside [of RW sw k] assms(1-4) by (simp_all add: a_def b_def)
  have sp: "0 \<le> sp" using assms by linarith
  have "(y0 + a) * sp + (x0 + b) < (y0 + a) * sp + sp" using ab assms(7) by linarith
  also have "\<dots> = (y0 + a + 1) * sp" by (simp add: distrib_right)
  also have "\<dots> \<le> (y0 + sh) * sp" using ab sp by (intro mult_right_mono) auto
  also note assms(8)
  finally have "(y0 + a) * sp + (x0 + b) < int n" .
  moreover have "0 \<le> (y0 + a) * sp + (x0 + b)" using ab assms(5,6) sp by simp
  ultimately show ?thesis unfolding shifted_div by (simp add: a_def b_def)
qed

lemma other_row:
  fixes z :: nat
  assumes "\<not> (RY \<le> z \<and> z < RY + RH)" "c < dp"
  shows "z * dp + c < RY * dp \<or> RY * dp + RH * dp \<le> z * dp + c"
proof (cases "z < RY")
  case True
  then have "(z + 1) * dp \<le> RY * dp" by (intro mult_right_mono) auto
  then show ?thesis using assms(2) by simp
next
  case False
  then have "(RY + RH) * dp \<le> z * dp" using assms(1) by (intro mult_right_mono) auto
  then show ?thesis by (simp add: distrib_right)
qed

text \<open>C26: A save state's screenshot is drawn into the preview exactly as nearest-neighbour scaling draws it: every pixel of the
  target rectangle is the pixel of the screenshot at the scaled position, including the rows that are copied from the row above
  instead of computed, everything around it stays black, and no pixel outside the two surfaces is read or written. The
  rectangle lies in the preview and the part shown lies in the screenshot.\<close>

theorem preview_nearest:
  assumes "v = preview_place rnd dev m ratio r sw sh dw dh" "preview_fits v r dp dlen sp (length s)"
    and "mx = v_sw v * 65536 div v_rw v" "my = v_sh v * 65536 div v_rh v"
  shows "\<exists>d. Menu_scale rnd dev m ratio r (sw, sh, sp) s (dw, dh, int dp) (replicate dlen 0) = Some d \<and> length d = dlen
    \<and> (\<forall>x y. 0 \<le> x \<and> x < int dp \<and> 0 \<le> y \<and> y * int dp + x < int dlen \<longrightarrow>
        d ! nat (y * int dp + x) =
          (if v_rx v \<le> x \<and> x < v_rx v + v_rw v \<and> v_ry v \<le> y \<and> y < v_ry v + v_rh v
           then s ! nat ((src_y r + (y - v_ry v) * my div 65536) * sp + (src_x r + (x - v_rx v) * mx div 65536)) else 0))"
proof -
  define RW RH RX RY where "RW = nat (v_rw v)" and "RH = nat (v_rh v)" and "RX = nat (v_rx v)" and "RY = nat (v_ry v)"
  have pos: "0 < RW" "0 < RH" and as_int: "int RW = v_rw v" "int RH = v_rh v" "int RX = v_rx v" "int RY = v_ry v"
    and src: "0 < v_sw v" "0 < v_sh v" "0 \<le> src_x r" "0 \<le> src_y r" "src_x r + v_sw v \<le> sp" "(src_y r + v_sh v) * sp \<le> int (length s)"
    and dst: "v_rx v + v_rw v \<le> int dp" "(v_ry v + v_rh v) * int dp \<le> int dlen"
    using assms(2) by (auto simp: preview_fits_def RW_def RH_def RX_def RY_def)
  have steps: "cdiv (v_sw v * 65536) (int RW) = mx" "cdiv (v_sh v * 65536) (int RH) = my"
    unfolding assms(3,4) as_int [symmetric] using pos src(1,2) by (simp_all add: cdiv_pos)
  have room: "RX + RW \<le> dp" "RY * dp + RH * dp \<le> dlen"
  proof -
    have "int (RX + RW) \<le> int dp" using dst(1) as_int by simp
    then show "RX + RW \<le> dp" by linarith
    have "int (RY * dp + RH * dp) \<le> int dlen" using dst(2) as_int by (simp add: distrib_right)
    then show "RY * dp + RH * dp \<le> dlen" by linarith
  qed
  have reads: "0 \<le> (src_y r * 65536 + int y * my) div 65536 * sp + (src_x r * 65536 + int k * mx) div 65536
      \<and> (src_y r * 65536 + int y * my) div 65536 * sp + (src_x r * 65536 + int k * mx) div 65536 < int (length s)"
    if "y < RH" "k < RW" for y k
    using preview_reads [OF that src] unfolding steps .
  have my: "0 \<le> my" using assms(4) src(2) pos(2) as_int(2) by (simp add: pos_imp_zdiv_nonneg_iff)
  obtain d where d: "scale_rows s sp mx my (src_x r * 65536) RW (int RX) (int dp) RH (src_y r * 65536 + int 0 * my) (- 1) (int (RY * dp)) (replicate dlen 0) = Some d"
    "length d = dlen"
    "\<forall>y < RH. \<forall>c < dp. d ! (RY * dp + y * dp + c) = row_pixel s sp mx my (src_x r * 65536) RW RX (src_y r * 65536) (0 + y) c"
    "\<forall>a < dlen. a < RY * dp \<or> RY * dp + RH * dp \<le> a \<longrightarrow> d ! a = 0"
    using scale_rows_result [of 0 RH RW "src_y r * 65536" my sp "src_x r * 65536" mx s RX dp "RY * dp" "replicate dlen 0" "- 1"]
      reads room my src by auto
  have "Menu_scale rnd dev m ratio r (sw, sh, sp) s (dw, dh, int dp) (replicate dlen 0) = Some d"
    using d(1) pos steps as_int by (simp add: Menu_scale_def Let_def assms(1) [symmetric] RW_def RH_def)
  moreover have "d ! nat (y * int dp + x) =
      (if v_rx v \<le> x \<and> x < v_rx v + v_rw v \<and> v_ry v \<le> y \<and> y < v_ry v + v_rh v
       then s ! nat ((src_y r + (y - v_ry v) * my div 65536) * sp + (src_x r + (x - v_rx v) * mx div 65536)) else 0)"
    if xy: "0 \<le> x" "x < int dp" "0 \<le> y" "y * int dp + x < int dlen" for x y
  proof -
    obtain c z where cz: "x = int c" "y = int z" using xy(1,3) by (metis nonneg_int_cases)
    have sum: "y * int dp + x = int (z * dp + c)" using cz by simp
    have c: "c < dp" using xy(2) cz(1) by simp
    have a: "nat (y * int dp + x) = z * dp + c" "z * dp + c < dlen" using xy(4) unfolding sum by (simp_all only: nat_int of_nat_less_iff)
    show ?thesis
    proof (cases "RY \<le> z \<and> z < RY + RH")
      case True
      have "z * dp + c = RY * dp + (z - RY) * dp + c" using True by (simp add: diff_mult_distrib)
      then have "d ! (z * dp + c) = row_pixel s sp mx my (src_x r * 65536) RW RX (src_y r * 65536) (z - RY) c"
        using d(3) [rule_format, of "z - RY" c] c True by auto
      moreover have "v_ry v \<le> y \<and> y < v_ry v + v_rh v" using True by (simp add: cz as_int [symmetric])
      moreover have "v_rx v \<le> x \<and> x < v_rx v + v_rw v \<longleftrightarrow> RX \<le> c \<and> c < RX + RW" unfolding cz as_int [symmetric] by linarith
      moreover have "int (z - RY) = y - v_ry v" using True by (simp add: cz as_int [symmetric])
      moreover have "int (c - RX) = x - v_rx v" if "RX \<le> c" using that by (simp add: cz as_int [symmetric])
      ultimately show ?thesis unfolding a(1) row_pixel_def shifted_div by (simp add: add.assoc)
    next
      case False
      then have "d ! (z * dp + c) = 0" using d(4) a(2) other_row [OF _ c] by blast
      moreover have "\<not> (v_ry v \<le> y \<and> y < v_ry v + v_rh v)" unfolding cz as_int [symmetric] using False by linarith
      ultimately show ?thesis unfolding a(1) by auto
    qed
  qed
  ultimately show ?thesis using d(2) by blast
qed

definition demo_renderer :: renderer where
  "demo_renderer = \<lparr>r_scale = 2, true_w = 320, true_h = 240, src_x = 0, src_y = 0, src_w = 320, src_h = 240, src_p = 640,
     dst_x = 0, dst_y = 0, dst_w = 640, dst_h = 480, dst_p = 1280, r_aspect = 0, blit = (EFFECT_NONE, 2)\<rparr>"

theorem preview_nearest_witness:
  "\<exists>d. Menu_scale (\<lambda>x. x) rg35xx SCALE_FULLSCREEN 1 demo_renderer (4, 2, 4) [1, 2, 3, 4, 5, 6, 7, 8] (2, 4, 2) (replicate 8 0) = Some d
    \<and> d ! 3 = 3 \<and> d ! 4 = 5"
proof -
  let ?s = "[1, 2, 3, 4, 5, 6, 7, 8] :: u16 list"
  define v where "v = preview_place (\<lambda>x. x) rg35xx SCALE_FULLSCREEN 1 demo_renderer 4 2 2 4"
  have v: "v = \<lparr>v_sw = 4, v_sh = 2, v_rx = 0, v_ry = 0, v_rw = 2, v_rh = 4\<rparr>"
    by (simp add: v_def preview_place_def preview_mode_def Let_def)
  then have "preview_fits v demo_renderer 2 8 4 (length ?s)" by (simp add: preview_fits_def demo_renderer_def)
  from preview_nearest [OF v_def this refl refl] obtain d where
    d: "Menu_scale (\<lambda>x. x) rg35xx SCALE_FULLSCREEN 1 demo_renderer (4, 2, 4) ?s (2, 4, 2) (replicate 8 0) = Some d"
    "\<forall>x y. 0 \<le> x \<and> x < 2 \<and> 0 \<le> y \<and> y * 2 + x < 8 \<longrightarrow> d ! nat (y * 2 + x) = (if x < 2 \<and> y < 4 then ?s ! nat ((y * 32768 div 65536) * 4 + x * 131072 div 65536) else 0)"
    by (auto simp: v demo_renderer_def)
  from d(2) [rule_format, of 1 1] d(2) [rule_format, of 0 2] have "d ! 3 = 3" "d ! 4 = 5" by simp_all
  then show ?thesis using d(1) by blast
qed

end
