(* ===== verification/MenuScreen.thy ===== *)
theory MenuScreen
  imports Screen Menu Preview
begin

text \<open>
  What the in-game menu draws (\<open>minarch/menu.c\<close>: the drawing half of \<open>Menu_loop\<close>): the title, the hints, the six items, the
  disc, and the window with the screenshot of the selected slot. The frame behind the menu, the overlay and the screenshot are
  pictures of a size; their pixels are those of \<open>Menu_scale\<close> (\<open>Preview\<close>).
\<close>

definition WINDOW_RADIUS :: int where "WINDOW_RADIUS = 4"
definition PAGINATION_HEIGHT :: int where "PAGINATION_HEIGHT = 6"

lemmas menu_layout_defs = layout_defs WINDOW_RADIUS_def PAGINATION_HEIGHT_def MENU_SLOT_COUNT_def MENU_ITEM_COUNT_def

definition title_width :: "screen_env \<Rightarrow> string \<Rightarrow> int \<Rightarrow> (string \<times> int) option" where
  \<comment> \<open>the name that fits left of the group at the top, and the width of its pill\<close>
  "title_width e rom_name ow =
     (let max_width = screen_w e - SCALE1 (PADDING e * 2) - ow in
      map_option (\<lambda>(s, w). (s, min max_width w)) (GFX_truncateText (text_w e font_large) rom_name max_width (SCALE1 (BUTTON_PADDING * 2))))"

definition menu_title :: "screen_env \<Rightarrow> string \<times> int \<Rightarrow> draw list" where
  "menu_title e title =
     (case title of (s, w) \<Rightarrow>
      GFX_blitPill ASSET_BLACK_PILL (SCALE1 (PADDING e), SCALE1 (PADDING e), w, SCALE1 PILL_SIZE)
      @ [Glyphs_cut font_large s RGB_WHITE (w - SCALE1 (BUTTON_PADDING * 2)) (SCALE1 (PADDING e + BUTTON_PADDING)) (SCALE1 (PADDING e + 4))])"

definition item_step :: int where "item_step = PILL_SIZE - 4"

definition items_top :: "device \<Rightarrow> screen_env \<Rightarrow> int" where
  "items_top dev e =
     (let band_top = PADDING e + PILL_SIZE;
          band_bot = cdiv (DEVICE_HEIGHT dev) FIXED_SCALE - PADDING e - PILL_SIZE;
          content_h = (MENU_ITEM_COUNT - 1) * item_step + PILL_SIZE
      in band_top + half ((band_bot - band_top) - content_h) - PADDING e)"

definition disc_row :: "screen_env \<Rightarrow> int \<Rightarrow> string \<Rightarrow> draw list" where
  "disc_row e oy disc_name =
     GFX_blitPill ASSET_DARK_GRAY_PILL (SCALE1 (PADDING e), SCALE1 (oy + PADDING e), screen_w e - SCALE1 (PADDING e * 2), SCALE1 PILL_SIZE)
     @ [Glyphs font_medium disc_name RGB_WHITE (screen_w e - SCALE1 (PADDING e + BUTTON_PADDING) - text_w e font_medium disc_name)
          (SCALE1 (oy + PADDING e + 6))]"

definition item_row :: "screen_env \<Rightarrow> int \<Rightarrow> string option \<Rightarrow> int \<Rightarrow> int \<Rightarrow> string \<Rightarrow> draw list" where
  \<comment> \<open>the label of the disc when there are several\<close>
  "item_row e oy disc_name choice i item =
     (if i = choice
      then (case disc_name of Some d \<Rightarrow> if i = 0 then disc_row e oy d else [] | None \<Rightarrow> [])
           @ GFX_blitPill ASSET_WHITE_PILL (SCALE1 (PADDING e), SCALE1 (oy + PADDING e + i * item_step),
               text_w e font_medium item + SCALE1 (BUTTON_PADDING * 2), SCALE1 PILL_SIZE)
      else [Glyphs font_medium item RGB_BLACK (SCALE1 (2 + PADDING e + BUTTON_PADDING)) (SCALE1 (1 + PADDING e + oy + i * item_step + 6))])
     @ [Glyphs font_medium item RGB_WHITE (SCALE1 (PADDING e + BUTTON_PADDING)) (SCALE1 (oy + PADDING e + i * item_step + 6))]"

definition item_rows :: "bool \<Rightarrow> device \<Rightarrow> screen_env \<Rightarrow> string option \<Rightarrow> int \<Rightarrow> draw list list" where
  "item_rows simple dev e disc_name choice =
     map (\<lambda>i. item_row e (items_top dev e) disc_name choice (int i) (menu_items simple ! i)) [0 ..< nat MENU_ITEM_COUNT]"

definition disc_label :: "menu \<Rightarrow> string option" where
  "disc_label m = (if length (disc_paths m) > 1 then Some (''Disc '' @ dec_int (disc m + 1)) else None)"

subsection \<open>The window of a slot\<close>

definition window_rect :: "device \<Rightarrow> screen_env \<Rightarrow> rect" where
  "window_rect dev e =
     (let pw = cdiv (DEVICE_WIDTH dev) 2 + SCALE1 (WINDOW_RADIUS * 2);
          ph = cdiv (DEVICE_HEIGHT dev) 2 + SCALE1 (WINDOW_RADIUS * 2 + PAGINATION_HEIGHT + WINDOW_RADIUS)
      in (DEVICE_WIDTH dev - pw - SCALE1 (PADDING e), half (DEVICE_HEIGHT dev - ph), pw, ph))"

definition slot_picture :: "screen_env \<Rightarrow> menu \<Rightarrow> rect \<Rightarrow> draw list option" where
  "slot_picture e m r =
     (case r of (x, y, w, h) \<Rightarrow>
      if preview_exists m then Some [Picture w h x y]
      else map_option (Cons (Fill r RGB_BLACK))
             (GFX_blitMessage e font_large (if save_exists m then ''No Preview'' else ''Empty Slot'') (Some r)))"

definition page_mark :: "int \<Rightarrow> int \<Rightarrow> int \<Rightarrow> int \<Rightarrow> draw list" where
  "page_mark ox oy slot i =
     (if i = slot then GFX_blitAsset ASSET_PAGE None (ox + SCALE1 (i * 15)) oy
      else GFX_blitAsset ASSET_DOT None (ox + SCALE1 (i * 15) + 4) (oy + SCALE1 2))"

definition slot_window :: "device \<Rightarrow> screen_env \<Rightarrow> menu \<Rightarrow> (draw list \<times> draw list \<times> draw list) option" where
  \<comment> \<open>the frame, the picture and the pages\<close>
  "slot_window dev e m =
     (case window_rect dev e of (ox, oy, pw, ph) \<Rightarrow>
      let hw = cdiv (DEVICE_WIDTH dev) 2; hh = cdiv (DEVICE_HEIGHT dev) 2;
          ix = ox + SCALE1 WINDOW_RADIUS; iy = oy + SCALE1 WINDOW_RADIUS;
          px = ix + half (pw - SCALE1 (15 * MENU_SLOT_COUNT)); py = iy + (hh + SCALE1 WINDOW_RADIUS)
      in map_option (\<lambda>pic. (GFX_blitRect ASSET_STATE_BG (ox, oy, pw, ph), pic,
             concat (map (page_mark px py (mslot m)) [0 .. MENU_SLOT_COUNT - 1])))
           (slot_picture e m (ix, iy, hw, hh)))"

subsection \<open>The screen\<close>

definition backdrop :: "device \<Rightarrow> draw list" where
  "backdrop dev = [Picture (DEVICE_WIDTH dev) (DEVICE_HEIGHT dev) 0 0, Picture (DEVICE_WIDTH dev) (DEVICE_HEIGHT dev) 0 0]"

definition loop_hints :: "screen_env \<Rightarrow> hardware \<Rightarrow> int \<Rightarrow> draw list" where
  "loop_hints e hw setting =
     setting_hints e hw setting [(''POWER'', ''SLEEP'')] @ fst (GFX_blitButtonGroup e [(''B'', ''BACK''), (''A'', ''OKAY'')] 1 True)"

definition loop_screen :: "bool \<Rightarrow> device \<Rightarrow> screen_env \<Rightarrow> hardware \<Rightarrow> int \<Rightarrow> string \<Rightarrow> int \<Rightarrow> menu \<Rightarrow> draw list option" where
  \<comment> \<open>the drawing of \<open>Menu_loop\<close>, for the flags of the slot that \<open>Menu_updateState\<close> left\<close>
  "loop_screen simple dev e hw setting rom_name choice m =
     (let (group, ow) = GFX_blitHardwareGroup e hw setting in
      case title_width e rom_name ow of
        None \<Rightarrow> None
      | Some title \<Rightarrow>
          map_option (\<lambda>window. backdrop dev @ group @ menu_title e title @ loop_hints e hw setting
               @ concat (item_rows simple dev e (disc_label m) choice) @ window)
            (if choice = 1 \<or> choice = 2 then map_option (\<lambda>(a, b, c). a @ b @ c) (slot_window dev e m) else Some []))"

subsection \<open>Layout\<close>

definition menu_fonts_ok :: "screen_env \<Rightarrow> bool" where
  \<comment> \<open>no text is taller than its row\<close>
  "menu_fonts_ok e \<longleftrightarrow> (\<forall>s. 0 \<le> text_w e font_large s \<and> text_h e font_large s \<le> 48 \<and> text_h e font_medium s \<le> 36)"

definition title_rect :: "screen_env \<Rightarrow> int \<Rightarrow> rect" where
  "title_rect e ow = (SCALE1 (PADDING e), SCALE1 (PADDING e), screen_w e - SCALE1 (PADDING e * 2) - ow, SCALE1 PILL_SIZE)"

definition item_y :: "device \<Rightarrow> screen_env \<Rightarrow> int \<Rightarrow> int" where
  "item_y dev e i = SCALE1 (items_top dev e + PADDING e + i * item_step)"

definition item_rect :: "bool \<Rightarrow> device \<Rightarrow> screen_env \<Rightarrow> string option \<Rightarrow> int \<Rightarrow> nat \<Rightarrow> rect" where
  \<comment> \<open>the pill of the selected item or the row of the disc, and the text of another with its shadow\<close>
  "item_rect simple dev e disc_name choice i =
     (let w = text_w e font_medium (menu_items simple ! i) in
      if int i = choice
      then (SCALE1 (PADDING e), item_y dev e (int i), if disc_name \<noteq> None \<and> i = 0 then screen_w e - SCALE1 (PADDING e * 2) else w + 48, 60)
      else (SCALE1 (PADDING e) + 24, item_y dev e (int i) + 12, w + 4, 38))"

definition menu_room :: "device \<Rightarrow> screen_env \<Rightarrow> bool" where
  \<comment> \<open>enough for six items and the window: 640 by 480 with a padding of 10, 1280 by 720 with 10 or 40\<close>
  "menu_room dev e \<longleftrightarrow> screen_w e = DEVICE_WIDTH dev \<and> screen_h e = DEVICE_HEIGHT dev \<and> 0 \<le> PADDING e
     \<and> 640 \<le> DEVICE_WIDTH dev \<and> 10 * PADDING e \<le> DEVICE_WIDTH dev
     \<and> 440 + 4 * PADDING e \<le> DEVICE_HEIGHT dev \<and> 312 + 8 * PADDING e \<le> DEVICE_HEIGHT dev"

definition window_x :: "device \<Rightarrow> screen_env \<Rightarrow> int" where
  "window_x dev e = fst (window_rect dev e)"

definition items_fit :: "bool \<Rightarrow> device \<Rightarrow> screen_env \<Rightarrow> bool" where
  \<comment> \<open>an item is as wide as a cap and ends left of the window\<close>
  "items_fit simple dev e \<longleftrightarrow>
     list_all (\<lambda>s. 12 \<le> text_w e font_medium s \<and> SCALE1 (PADDING e) + 48 + text_w e font_medium s \<le> window_x dev e) (menu_items simple)"

lemma menu_items_length [simp]: "length (menu_items simple) = 6"
  by (simp add: menu_items_def)

lemma items_nth: "i < 6 \<Longrightarrow> menu_items simple ! i \<in> set (menu_items simple)"
  by (intro nth_mem) simp

lemma item_y_band:
  assumes "menu_room dev e"
  shows "SCALE1 (PADDING e) + 60 \<le> item_y dev e 0"
    and "item_y dev e 0 + 320 \<le> screen_h e - SCALE1 (PADDING e) - 60"
    and "item_y dev e i = item_y dev e 0 + 52 * i"
proof -
  define b where "b = DEVICE_HEIGHT dev div 2 - 2 * PADDING e - 60"
  have b: "160 \<le> b" "PADDING e + 30 + b + PADDING e + 30 = DEVICE_HEIGHT dev div 2" using assms by (auto simp: menu_room_def b_def)
  have "items_top dev e + PADDING e = PADDING e + 30 + (b - 160) div 2"
    using assms b by (simp add: items_top_def item_step_def menu_layout_defs menu_room_def cdiv_nonneg half_def b_def)
  then have y0: "item_y dev e 0 = 2 * PADDING e + 60 + 2 * ((b - 160) div 2)" by (simp add: item_y_def layout_defs)
  show "SCALE1 (PADDING e) + 60 \<le> item_y dev e 0" unfolding y0 using b(1) by (simp add: layout_defs)
  show "item_y dev e 0 + 320 \<le> screen_h e - SCALE1 (PADDING e) - 60" unfolding y0 using b assms by (simp add: menu_room_def layout_defs)
  show "item_y dev e i = item_y dev e 0 + 52 * i" by (simp add: item_y_def item_step_def layout_defs distrib_right)
qed

lemma item_row_inside:
  assumes "menu_room dev e" "items_fit simple dev e" "menu_fonts_ok e" "i < 6"
    and "\<forall>d. disc_name = Some d \<longrightarrow> 0 \<le> text_w e font_medium d \<and> text_w e font_medium d \<le> 300"
  shows "draws_inside e (item_row e (items_top dev e) disc_name choice (int i) (menu_items simple ! i)) (item_rect simple dev e disc_name choice i)"
proof -
  let ?s = "menu_items simple ! i"
  have w: "12 \<le> text_w e font_medium ?s" "SCALE1 (PADDING e) + 48 + text_w e font_medium ?s \<le> window_x dev e"
    using assms(2) items_nth [OF assms(4), of simple] by (auto simp: items_fit_def list_all_iff)
  have wx: "window_x dev e \<le> screen_w e - SCALE1 (PADDING e)"
    using assms(1) by (simp add: window_x_def window_rect_def menu_room_def menu_layout_defs Let_def cdiv_nonneg) presburger
  have th: "text_h e font_medium t \<le> 36" for t using assms(3) by (simp add: menu_fonts_ok_def)
  have pill: "draws_inside e (GFX_blitPill ASSET_WHITE_PILL (SCALE1 (PADDING e), item_y dev e (int i), text_w e font_medium ?s + 48, 60)) r"
    if "inside (SCALE1 (PADDING e), item_y dev e (int i), text_w e font_medium ?s + 48, 60) r" for r
    using w(1) that by (intro blitPill_inside) simp_all
  have dark: "draws_inside e (disc_row e (items_top dev e) d) (SCALE1 (PADDING e), item_y dev e 0, screen_w e - SCALE1 (PADDING e * 2), 60)"
    if "disc_name = Some d" for d
  proof -
    have "draws_inside e (GFX_blitPill ASSET_DARK_GRAY_PILL (SCALE1 (PADDING e), item_y dev e 0, screen_w e - SCALE1 (PADDING e * 2), 60))
        (SCALE1 (PADDING e), item_y dev e 0, screen_w e - SCALE1 (PADDING e * 2), 60)"
      using assms(1) by (intro blitPill_inside) (simp_all add: menu_room_def layout_defs)
    then show ?thesis using assms(1,5) that th [of d]
      by (simp add: disc_row_def item_y_def menu_room_def layout_defs)
  qed
  show ?thesis
  proof (cases "int i = choice")
    case True
    show ?thesis
    proof (cases "i = 0 \<and> disc_name \<noteq> None")
      case disc: True
      then show ?thesis using True w wx th [of ?s] pill dark
        by (auto simp: item_row_def item_rect_def item_y_def layout_defs)
    next
      case False
      then show ?thesis using True w th [of ?s] pill
        by (auto simp: item_row_def item_rect_def item_y_def layout_defs split: option.split)
    qed
  next
    case False
    then show ?thesis using th [of ?s] by (simp add: item_row_def item_rect_def item_y_def layout_defs Let_def)
  qed
qed

lemma title_inside:
  assumes "menu_fonts_ok e" "avail = screen_w e - SCALE1 (PADDING e * 2) - ow" "text_w e font_large dots + 48 \<le> avail" "60 \<le> avail"
    and "4 \<le> length rom_name \<or> text_w e font_large rom_name + 48 \<le> avail"
  shows "\<exists>title. title_width e rom_name ow = Some title \<and> draws_inside e (menu_title e title) (title_rect e ow)"
proof -
  obtain out where out: "GFX_truncateText (text_w e font_large) rom_name avail (SCALE1 (BUTTON_PADDING * 2)) = Some (out, text_w e font_large out + 48)"
    "text_w e font_large out + 48 \<le> avail"
    using truncate_fits [of "text_w e font_large" "SCALE1 (BUTTON_PADDING * 2)" avail rom_name] assms(3,5) by (auto simp: layout_defs)
  let ?w = "text_w e font_large out + 48"
  have "title_width e rom_name ow = Some (out, ?w)" using out by (simp add: title_width_def assms(2) [symmetric] Let_def min_def)
  moreover have "draws_inside e (menu_title e (out, ?w)) (title_rect e ow)"
  proof -
    have rect: "title_rect e ow = (SCALE1 (PADDING e), SCALE1 (PADDING e), avail, 60)" using assms(2) by (simp add: title_rect_def layout_defs)
    have size: "0 \<le> text_w e font_large out" "text_h e font_large out \<le> 48" using assms(1) by (simp_all add: menu_fonts_ok_def)
    have "draws_inside e (GFX_blitPill ASSET_BLACK_PILL (SCALE1 (PADDING e), SCALE1 (PADDING e), max ?w 60, 60)) (title_rect e ow)"
      unfolding rect using out(2) assms(4) by (intro blitPill_inside) auto
    then have "draws_inside e (GFX_blitPill ASSET_BLACK_PILL (SCALE1 (PADDING e), SCALE1 (PADDING e), ?w, 60)) (title_rect e ow)"
      by (subst blitPill_narrow) simp_all
    then show ?thesis unfolding rect using size out(2) by (simp add: menu_title_def layout_defs)
  qed
  ultimately show ?thesis by blast
qed

lemma page_mark_inside:
  assumes "0 \<le> i" "i < 8"
  shows "draws_inside e (page_mark ox oy slot i) (ox, oy, 240, 12)"
  using assms by (simp add: page_mark_def layout_defs SCALE4_def)

lemma message_inside:
  assumes "\<forall>s. text_h e f s \<le> 48" "message_rows 14 msg = Some [msg]" "length msg < 256" "0 \<le> text_w e f msg" "text_w e f msg \<le> w" "48 \<le> h"
  shows "\<exists>ds. GFX_blitMessage e f msg (Some (x, y, w, h)) = Some ds \<and> draws_inside e ds (x, y, w, h)"
proof -
  have "text_h e f msg \<le> 48" using assms(1) by blast
  then show ?thesis using assms(2-) half_bounds [of "w - text_w e f msg"] half_bounds [of "h - 48"]
    by (auto simp: GFX_blitMessage_def TEXT_BOX_MAX_ROWS_def LINE_HEIGHT_def line_fits_def layout_defs)
qed

definition slot_texts :: "string list" where "slot_texts = [''No Preview'', ''Empty Slot'']"

text \<open>The picture and the pages are in the window and do not touch.\<close>

lemma slot_window_inside:
  assumes "menu_room dev e" "menu_fonts_ok e" "\<forall>s \<in> set slot_texts. text_w e font_large s \<le> 320"
  shows "\<exists>a pic pages. slot_window dev e m = Some (a, pic, pages)
    \<and> draws_inside e (a @ pic @ pages) (window_rect dev e)
    \<and> (\<forall>p \<in> set pic. \<forall>q \<in> set pages. Draw.apart (draw_area e p) (draw_area e q))"
proof -
  obtain ox oy pw ph where rect: "window_rect dev e = (ox, oy, pw, ph)" by (cases "window_rect dev e")
  define hw hh where "hw = cdiv (DEVICE_WIDTH dev) 2" and "hh = cdiv (DEVICE_HEIGHT dev) 2"
  have dims: "pw = hw + 16" "ph = hh + 36" using rect by (auto simp: window_rect_def menu_layout_defs Let_def hw_def hh_def)
  have large: "320 \<le> hw" "200 \<le> hh" using assms(1) by (auto simp: hw_def hh_def menu_room_def cdiv_nonneg)
  let ?pic = "(ox + 8, oy + 8, hw, hh)"
  have frame: "draws_inside e (GFX_blitRect ASSET_STATE_BG (ox, oy, pw, ph)) (ox, oy, pw, ph)"
    using large dims by (simp add: GFX_blitRect_def layout_defs SCALE4_def half_def Let_def)
  have "\<exists>pic. slot_picture e m ?pic = Some pic \<and> draws_inside e pic ?pic"
  proof (cases "preview_exists m")
    case False
    let ?msg = "if save_exists m then ''No Preview'' else ''Empty Slot''"
    have "message_rows 14 ''No Preview'' = Some [''No Preview'']" "message_rows 14 ''Empty Slot'' = Some [''Empty Slot'']" by code_simp+
    then have "message_rows 14 ?msg = Some [?msg]" "length ?msg < 256" "?msg \<in> set slot_texts" by (simp_all add: slot_texts_def)
    then have "\<exists>ds. GFX_blitMessage e font_large ?msg (Some ?pic) = Some ds \<and> draws_inside e ds ?pic"
      using assms(2,3) large by (intro message_inside) (auto simp: menu_fonts_ok_def)
    then show ?thesis using False by (auto simp: slot_picture_def)
  qed (simp add: slot_picture_def)
  then obtain pic where pic: "slot_picture e m ?pic = Some pic" "draws_inside e pic ?pic" by blast
  define px py where "px = ox + 8 + half (pw - 240)" and "py = oy + 8 + (hh + 8)"
  have px: "ox + 8 \<le> px" "px + 240 \<le> ox + pw" using large dims half_bounds [of "pw - 240"] by (simp_all add: px_def)
  let ?pages = "concat (map (page_mark px py (mslot m)) [0 .. 7])"
  have pages: "draws_inside e ?pages (px, py, 240, 12)" using page_mark_inside [where e = e] by (auto simp: draws_inside_def)
  have "slot_window dev e m = Some (GFX_blitRect ASSET_STATE_BG (ox, oy, pw, ph), pic, ?pages)"
    using pic(1) rect by (simp add: slot_window_def menu_layout_defs Let_def hw_def hh_def px_def py_def)
  moreover have "draws_inside e (GFX_blitRect ASSET_STATE_BG (ox, oy, pw, ph) @ pic @ ?pages) (window_rect dev e)"
    using frame draws_inside_mono [OF pic(2), of "(ox, oy, pw, ph)"] draws_inside_mono [OF pages, of "(ox, oy, pw, ph)"] px dims rect large
    by (simp add: py_def)
  moreover have "Draw.apart (draw_area e p) (draw_area e q)" if "p \<in> set pic" "q \<in> set ?pages" for p q
  proof -
    have "Draw.apart ?pic (px, py, 240, 12)" by (simp add: py_def)
    then show ?thesis using pic(2) pages that inside_apart unfolding draws_inside_def by blast
  qed
  ultimately show ?thesis by blast
qed

lemma window_room:
  assumes "menu_room dev e"
  shows "inside (window_rect dev e) (window_x dev e, SCALE1 (PADDING e) + 60, screen_w e - SCALE1 (PADDING e) - window_x dev e,
    screen_h e - SCALE1 (PADDING e * 2) - 120)" "0 \<le> window_x dev e"
proof -
  define hh where "hh = DEVICE_HEIGHT dev div 2"
  have dims: "440 \<le> DEVICE_HEIGHT dev" "2 * hh \<le> DEVICE_HEIGHT dev" "DEVICE_HEIGHT dev \<le> 2 * hh + 1" "312 + 8 * PADDING e \<le> DEVICE_HEIGHT dev"
    using assms by (auto simp: menu_room_def hh_def)
  then have oy: "half (DEVICE_HEIGHT dev - (hh + 36)) = (DEVICE_HEIGHT dev - (hh + 36)) div 2" by (simp add: half_def)
  have "SCALE1 (PADDING e) + 60 \<le> (DEVICE_HEIGHT dev - (hh + 36)) div 2"
    "(DEVICE_HEIGHT dev - (hh + 36)) div 2 + (hh + 36) \<le> DEVICE_HEIGHT dev - SCALE1 (PADDING e) - 60"
    unfolding layout_defs using dims by presburger+
  moreover have "640 \<le> DEVICE_WIDTH dev" "10 * PADDING e \<le> DEVICE_WIDTH dev" using assms by (auto simp: menu_room_def)
  then have "0 \<le> DEVICE_WIDTH dev - (DEVICE_WIDTH dev div 2 + 16) - 2 * PADDING e" by presburger
  ultimately show "inside (window_rect dev e) (window_x dev e, SCALE1 (PADDING e) + 60, screen_w e - SCALE1 (PADDING e) - window_x dev e,
      screen_h e - SCALE1 (PADDING e * 2) - 120)" "0 \<le> window_x dev e"
    using assms oy by (simp_all add: window_x_def window_rect_def menu_layout_defs Let_def cdiv_nonneg menu_room_def hh_def [symmetric])
qed

definition loop_left :: "hardware \<Rightarrow> int \<Rightarrow> (string \<times> string) list" where
  "loop_left hw setting =
     (if setting \<noteq> 0 \<and> \<not> hw_hdmi hw then [(if setting = 1 then BRIGHTNESS_BUTTON_LABEL else ''MENU'', ''BRIGHTNESS'')] else [(''POWER'', ''SLEEP'')])"

definition loop_right :: "(string \<times> string) list" where "loop_right = [(''B'', ''BACK''), (''A'', ''OKAY'')]"

lemma loop_hints_inside:
  assumes "list_all (hint_ok e) (loop_left hw setting @ loop_right)"
  shows "\<exists>left right. loop_hints e hw setting = left @ right
    \<and> draws_inside e left (group_rect e (loop_left hw setting) False) \<and> draws_inside e right (group_rect e loop_right True)"
proof -
  have ok: "\<forall>h \<in> set (take 2 (loop_left hw setting)). hint_ok e h" "\<forall>h \<in> set (take 2 loop_right). hint_ok e h"
    using assms by (auto simp: list_all_iff dest: in_set_takeD)
  have "loop_left hw setting \<noteq> []" "loop_right \<noteq> []" by (simp_all add: loop_left_def loop_right_def)
  from buttonGroup_inside(1) [OF ok(1) this(1), of 0 False] buttonGroup_inside(1) [OF ok(2) this(2), of 1 True] show ?thesis
    by (intro exI [of _ "fst (GFX_blitButtonGroup e (loop_left hw setting) 0 False)"] exI [of _ "fst (GFX_blitButtonGroup e loop_right 1 True)"])
      (simp add: loop_hints_def setting_hints_def loop_left_def loop_right_def GFX_blitHardwareHints_def)
qed

lemma item_rect_place:
  assumes "menu_room dev e" "items_fit simple dev e" "i < 6" "0 \<le> ow"
  shows "inside (item_rect simple dev e disc_name choice i) (0, 0, screen_w e, screen_h e)"
    and "Draw.apart (item_rect simple dev e disc_name choice i) (title_rect e ow)"
    and "Draw.apart (item_rect simple dev e disc_name choice i) (hardware_rect e ow)"
    and "Draw.apart (item_rect simple dev e disc_name choice i) (group_rect e hints right)"
    and "j < i \<Longrightarrow> Draw.apart (item_rect simple dev e disc_name choice j) (item_rect simple dev e disc_name choice i)"
    and "choice \<noteq> 0 \<Longrightarrow> Draw.apart (item_rect simple dev e disc_name choice i) (window_rect dev e)"
proof -
  let ?s = "menu_items simple ! i"
  note y = item_y_band [OF assms(1)]
  have w: "12 \<le> text_w e font_medium ?s" "SCALE1 (PADDING e) + 48 + text_w e font_medium ?s \<le> window_x dev e"
    using assms(2) items_nth [OF assms(3), of simple] by (auto simp: items_fit_def list_all_iff)
  have P: "0 \<le> PADDING e" using assms(1) by (simp add: menu_room_def)
  have win: "fst (window_rect dev e) = window_x dev e" by (simp add: window_x_def)
  have wide: "window_x dev e \<le> screen_w e"
    using assms(1) P by (simp add: window_x_def window_rect_def menu_room_def menu_layout_defs Let_def cdiv_nonneg) presburger
  have low: "SCALE1 (PADDING e) + 60 \<le> item_y dev e (int i)" "item_y dev e (int i) + 60 \<le> screen_h e - SCALE1 (PADDING e) - 60"
    using y(1,2) y(3) [of "int i"] assms(3) by linarith+
  show "inside (item_rect simple dev e disc_name choice i) (0, 0, screen_w e, screen_h e)"
    using w wide low P by (auto simp: item_rect_def layout_defs Let_def)
  show "Draw.apart (item_rect simple dev e disc_name choice i) (title_rect e ow)"
    using low by (auto simp: item_rect_def title_rect_def layout_defs Let_def)
  show "Draw.apart (item_rect simple dev e disc_name choice i) (hardware_rect e ow)"
    using low by (auto simp: item_rect_def hardware_rect_def layout_defs Let_def)
  show "Draw.apart (item_rect simple dev e disc_name choice i) (group_rect e hints right)"
    using low by (auto simp: item_rect_def group_rect_def layout_defs Let_def)
  show "Draw.apart (item_rect simple dev e disc_name choice j) (item_rect simple dev e disc_name choice i)" if "j < i"
  proof -
    have "item_y dev e (int j) + 52 \<le> item_y dev e (int i)" using that y(3) [of "int i"] y(3) [of "int j"] by linarith
    then show ?thesis by (auto simp: item_rect_def Let_def)
  qed
  show "Draw.apart (item_rect simple dev e disc_name choice i) (window_rect dev e)" if "choice \<noteq> 0"
    using that w win by (cases "window_rect dev e") (auto simp: item_rect_def layout_defs Let_def)
qed

text \<open>C24: The screen of the in-game menu is laid out without collisions. The title, the group of the battery and levels, the six
  items, the hints and, when saving or loading is selected, the window of the slot with its picture and pages keep to their places; these are on
  the screen and no two of them overlap. The name of the game is cut to make room; the items leave room for the window.\<close>

theorem menu_layout:
  assumes "menu_room dev e" "items_fit simple dev e" "menu_fonts_ok e" "hardware_ok e hw"
    and "list_all (hint_ok e) (loop_left hw setting @ loop_right)" "GFX_blitHardwareGroup e hw setting = (grp, ow)"
    and "text_w e font_large dots + 60 \<le> screen_w e - SCALE1 (PADDING e * 2) - ow"
    and "4 \<le> length rom_name \<or> text_w e font_large rom_name + 48 \<le> screen_w e - SCALE1 (PADDING e * 2) - ow"
    and "\<forall>d. disc_label m = Some d \<longrightarrow> text_w e font_medium d \<in> {0 .. 300}" "\<forall>s \<in> set slot_texts. text_w e font_large s \<le> 320"
    and "spot = item_rect simple dev e (disc_label m) choice" "drawn = item_rows simple dev e (disc_label m) choice"
    and "outer = {title_rect e ow, hardware_rect e ow, group_rect e (loop_left hw setting) False, group_rect e loop_right True}"
  shows "\<exists>title left right win.
    loop_screen simple dev e hw setting rom_name choice m = Some (backdrop dev @ grp @ title @ left @ right @ concat drawn @ win)
    \<and> draws_inside e title (title_rect e ow) \<and> draws_inside e grp (hardware_rect e ow)
    \<and> draws_inside e left (group_rect e (loop_left hw setting) False) \<and> draws_inside e right (group_rect e loop_right True)
    \<and> Draw.apart (title_rect e ow) (hardware_rect e ow) \<and> length drawn = 6
    \<and> (\<forall>i < 6. draws_inside e (drawn ! i) (spot i) \<and> inside (spot i) (0, 0, screen_w e, screen_h e)
        \<and> (\<forall>r \<in> outer. Draw.apart (spot i) r) \<and> (\<forall>j < i. Draw.apart (spot j) (spot i)))
    \<and> (if choice = 1 \<or> choice = 2
       then draws_inside e win (window_rect dev e) \<and> inside (window_rect dev e) (0, 0, screen_w e, screen_h e)
         \<and> (\<forall>r \<in> outer. Draw.apart (window_rect dev e) r) \<and> (\<forall>i < 6. Draw.apart (spot i) (window_rect dev e))
       else win = [])"
proof -
  have ow: "0 \<le> ow" "draws_inside e grp (hardware_rect e ow)"
    using hardware_width_pos [OF assms(4), of setting] hardwareGroup_inside [OF assms(4), of setting] assms(6) by simp_all
  have P: "0 \<le> PADDING e" using assms(1) by (simp add: menu_room_def)
  have dots: "text_w e font_large dots + 48 \<le> screen_w e - SCALE1 (PADDING e * 2) - ow" "60 \<le> screen_w e - SCALE1 (PADDING e * 2) - ow"
  proof -
    have "0 \<le> text_w e font_large dots" using assms(3) by (simp add: menu_fonts_ok_def)
    then show "text_w e font_large dots + 48 \<le> screen_w e - SCALE1 (PADDING e * 2) - ow" "60 \<le> screen_w e - SCALE1 (PADDING e * 2) - ow"
      using assms(7) by linarith+
  qed
  obtain title where title: "title_width e rom_name ow = Some title" "draws_inside e (menu_title e title) (title_rect e ow)"
    using title_inside [OF assms(3) refl _ _ assms(8)] dots by auto
  obtain left right where hints: "loop_hints e hw setting = left @ right" "draws_inside e left (group_rect e (loop_left hw setting) False)"
    "draws_inside e right (group_rect e loop_right True)"
    using loop_hints_inside [OF assms(5)] by blast
  obtain a pic pages where win: "slot_window dev e m = Some (a, pic, pages)" "draws_inside e (a @ pic @ pages) (window_rect dev e)"
    using slot_window_inside [OF assms(1,3,10)] by blast
  let ?win = "if choice = 1 \<or> choice = 2 then a @ pic @ pages else []"
  have "loop_screen simple dev e hw setting rom_name choice m
      = Some (backdrop dev @ grp @ menu_title e title @ left @ right @ concat drawn @ ?win)"
    using title(1) hints(1) win(1) assms(6,12) by (simp add: loop_screen_def)
  moreover have "length drawn = 6" "\<forall>i < 6. draws_inside e (drawn ! i) (spot i)"
    using item_row_inside [OF assms(1-3)] assms(9,11,12) by (auto simp: item_rows_def MENU_ITEM_COUNT_def)
  moreover have "Draw.apart (title_rect e ow) (hardware_rect e ow)" by (simp add: title_rect_def hardware_rect_def layout_defs)
  moreover have "\<forall>i < 6. inside (spot i) (0, 0, screen_w e, screen_h e) \<and> (\<forall>r \<in> outer. Draw.apart (spot i) r)
      \<and> (\<forall>j < i. Draw.apart (spot j) (spot i)) \<and> (choice \<noteq> 0 \<longrightarrow> Draw.apart (spot i) (window_rect dev e))"
    unfolding assms(11,13) using item_rect_place [OF assms(1,2) _ ow(1)] by simp
  moreover have "\<forall>r \<in> outer. Draw.apart (window_rect dev e) r" "inside (window_rect dev e) (0, 0, screen_w e, screen_h e)"
    using window_room [OF assms(1)] P unfolding assms(13)
    by (cases "window_rect dev e"; simp add: title_rect_def hardware_rect_def group_rect_def layout_defs)+
  ultimately show ?thesis using title(2) ow(2) hints(2,3) win(2)
    by (intro exI [of _ "menu_title e title"] exI [of _ left] exI [of _ right] exI [of _ ?win]) auto
qed

definition demo_panel :: device where
  "demo_panel = \<lparr>DEVICE_WIDTH = 640, DEVICE_HEIGHT = 480, DEVICE_PITCH = 1280, HDMI_WIDTH = 1280\<rparr>"

definition demo_slots :: menu where
  "demo_slots = \<lparr>disc_paths = [''/mnt/sdcard/Roms/PS/a.cue'', ''/mnt/sdcard/Roms/PS/b.cue''], minui_dir = [], slot_path = [], base_path = [],
     bmp_path = [], txt_path = [], disc = 1, mslot = 3, save_exists = True, preview_exists = False\<rparr>"

lemma demo_menu_ok:
  "menu_room demo_panel demo_screen" "items_fit False demo_panel demo_screen" "menu_fonts_ok demo_screen"
  "list_all (hint_ok demo_screen) (loop_left demo_hardware 0 @ loop_right)"
  "text_w demo_screen font_large dots + 60 \<le> screen_w demo_screen - SCALE1 (PADDING demo_screen * 2) - 102"
  "disc_label demo_slots = Some ''Disc 2''" "text_w demo_screen font_medium ''Disc 2'' \<in> {0 .. 300}"
  "\<forall>s \<in> set slot_texts. text_w demo_screen font_large s \<le> 320"
proof -
  show "menu_fonts_ok demo_screen" by (simp add: menu_fonts_ok_def demo_screen_def text_w_def text_h_def)
qed code_simp+

theorem menu_layout_witness:
  "\<exists>drawn. loop_screen False demo_panel demo_screen demo_hardware 0 ''A long name of a game'' 1 demo_slots = Some drawn
    \<and> \<not> (\<exists>d \<in> set (concat (item_rows False demo_panel demo_screen (disc_label demo_slots) 1)). d \<notin> set drawn)
    \<and> Draw.apart (item_rect False demo_panel demo_screen (disc_label demo_slots) 1 5) (window_rect demo_panel demo_screen)"
proof -
  have grp: "GFX_blitHardwareGroup demo_screen demo_hardware 0 = (fst (GFX_blitHardwareGroup demo_screen demo_hardware 0), 102)"
    using demo_screen_ok(8) by (metis prod.collapse)
  have disc: "\<forall>d. disc_label demo_slots = Some d \<longrightarrow> text_w demo_screen font_medium d \<in> {0 .. 300}" using demo_menu_ok(6,7) by simp
  have name: "4 \<le> length ''A long name of a game'' \<or>
      text_w demo_screen font_large ''A long name of a game'' + 48 \<le> screen_w demo_screen - SCALE1 (PADDING demo_screen * 2) - 102" by simp
  obtain title left right win where "loop_screen False demo_panel demo_screen demo_hardware 0 ''A long name of a game'' 1 demo_slots
      = Some (backdrop demo_panel @ fst (GFX_blitHardwareGroup demo_screen demo_hardware 0) @ title @ left @ right
          @ concat (item_rows False demo_panel demo_screen (disc_label demo_slots) 1) @ win)"
    "Draw.apart (item_rect False demo_panel demo_screen (disc_label demo_slots) 1 5) (window_rect demo_panel demo_screen)"
    using menu_layout [OF demo_menu_ok(1-3) demo_screen_ok(4) demo_menu_ok(4) grp demo_menu_ok(5) name disc demo_menu_ok(8) refl refl refl, of 1] by auto
  then show ?thesis by auto
qed

end
