(* ===== verification/Hud.thy ===== *)
theory Hud
  imports Video FileSystem
begin

text \<open>
  Debug text drawn into a frame (\<open>minarch/minarch.c\<close>: \<open>bitmap_font\<close>, \<open>blitBitmapText\<close>, the four corners of
  \<open>video_refresh_callback_main\<close>) and the numbers of the \<open>MSG\<close> functions. The frame is a list of pixels; a write outside it and a
  character without a picture have no result.
\<close>

subsection \<open>Letters\<close>

definition CHAR_WIDTH :: nat where "CHAR_WIDTH = 5"
definition CHAR_HEIGHT :: nat where "CHAR_HEIGHT = 9"
definition LETTERSPACING :: nat where "LETTERSPACING = 1"

lemmas char_defs = CHAR_WIDTH_def CHAR_HEIGHT_def LETTERSPACING_def

definition bitmap_table :: "(char \<times> string) list" where
  "bitmap_table =
    [(CHR ''0'', '' 111 1   11   11  111 1 111  11   11   1 111 ''),
     (CHR ''1'', ''   1  111    1    1    1    1    1    1    1 ''),
     (CHR ''2'', '' 111 1   1    1   1   1   1   1    1    11111''),
     (CHR ''3'', '' 111 1   1    1    1 111     1    11   1 111 ''),
     (CHR ''4'', ''1   11   11   11   11   11   111111    1    1''),
     (CHR ''5'', ''111111    1    1111     1    1    11   1 111 ''),
     (CHR ''6'', '' 111 1    1    1111 1   11   11   11   1 111 ''),
     (CHR ''7'', ''11111    1    1   1   1    1    1    1    1  ''),
     (CHR ''8'', '' 111 1   11   11   1 111 1   11   11   1 111 ''),
     (CHR ''9'', '' 111 1   11   11   11   1 1111    1    1 111 ''),
     (CHR ''.'', ''                                    11   11  ''),
     (CHR '','', ''                                1    1   1   ''),
     (CHR '' '', ''                                             ''),
     (CHR ''('', ''   1   1   1    1    1    1    1     1     1 ''),
     (CHR '')'', '' 1     1     1    1    1    1    1   1   1   ''),
     (CHR ''/'', ''   1    1    1   1    1    1   1    1    1   ''),
     (CHR ''x'', ''          1   11   1 1 1   1   1 1 1   11   1''),
     (CHR ''%'', '' 1   1 1  1 1 1 1 1   1   1 1 1 1 1  1 1   1 ''),
     (CHR ''-'', ''                     111                     '')]"

definition bitmap_font :: "char \<Rightarrow> string option" where
  "bitmap_font c = map_of bitmap_table c"

lemma bitmap_font_size: "bitmap_font c = Some g \<Longrightarrow> length g = CHAR_WIDTH * CHAR_HEIGHT"
proof -
  assume "bitmap_font c = Some g"
  moreover have "list_all (\<lambda>(c, g). length g = 45) bitmap_table" by code_simp
  ultimately show ?thesis by (auto simp: bitmap_font_def char_defs list_all_iff dest!: map_of_SomeD)
qed

subsection \<open>A text\<close>

definition clear_pixels :: "int \<Rightarrow> nat \<Rightarrow> u16 list \<Rightarrow> u16 list option" where
  \<comment> \<open>\<open>memset\<close> of so many pixels\<close>
  "clear_pixels pos n d =
     (if 0 \<le> pos \<and> pos + int n \<le> int (length d) then Some (take (nat pos) d @ replicate n 0 @ drop (nat pos + n) d) else None)"

fun blit_bits :: "string \<Rightarrow> int \<Rightarrow> u16 list \<Rightarrow> u16 list option" where
  "blit_bits [] pos d = Some d"
| "blit_bits (b # bs) pos d =
     (if b = CHR ''1''
      then (if 0 \<le> pos \<and> pos < int (length d) then blit_bits bs (pos + 1) (d[nat pos := 0xffff]) else None)
      else blit_bits bs (pos + 1) d)"

fun blit_line :: "nat \<Rightarrow> string \<Rightarrow> int \<Rightarrow> u16 list \<Rightarrow> u16 list option" where
  "blit_line y [] pos d = Some d"
| "blit_line y (ch # chs) pos d =
     (case bitmap_font ch of
        None \<Rightarrow> None
      | Some c \<Rightarrow>
          (case blit_bits (take CHAR_WIDTH (drop (y * CHAR_WIDTH) c)) pos d of
             None \<Rightarrow> None
           | Some d \<Rightarrow> blit_line y chs (pos + int (CHAR_WIDTH + LETTERSPACING)) d))"

fun text_rows :: "string \<Rightarrow> nat \<Rightarrow> int \<Rightarrow> int \<Rightarrow> nat \<Rightarrow> nat \<Rightarrow> u16 list \<Rightarrow> u16 list option" where
  "text_rows msg n stride row y 0 d = Some d"
| "text_rows msg n stride row y (Suc k) d =
     (case clear_pixels (row - 1) n d of
        None \<Rightarrow> None
      | Some d \<Rightarrow>
          (case blit_line y msg row d of None \<Rightarrow> None | Some d \<Rightarrow> text_rows msg n stride (row + stride) (y + 1) k d))"

definition text_origin :: "nat \<Rightarrow> int \<Rightarrow> int \<Rightarrow> int \<Rightarrow> int \<Rightarrow> int \<times> int" where
  "text_origin len ox oy width height =
     (let w = int (CHAR_WIDTH + LETTERSPACING) * int len - 1; h = int CHAR_HEIGHT
      in (if ox < 0 then width - w + ox else ox, if oy < 0 then height - h + oy else oy))"

definition blitBitmapText :: "string \<Rightarrow> int \<Rightarrow> int \<Rightarrow> u16 list \<Rightarrow> int \<Rightarrow> int \<Rightarrow> int \<Rightarrow> u16 list option" where
  "blitBitmapText msg ox oy d stride width height =
     (case text_origin (length msg) ox oy width height of (ox, oy) \<Rightarrow>
      let n = (CHAR_WIDTH + LETTERSPACING) * length msg + 1; \<comment> \<open>\<open>w+2\<close>\<close>
          data = oy * stride + ox
      in case clear_pixels (data - stride - 1) n d of
           None \<Rightarrow> None
         | Some d \<Rightarrow>
             (case text_rows msg n stride data 0 CHAR_HEIGHT d of
                None \<Rightarrow> None
              | Some d \<Rightarrow> clear_pixels (data + int CHAR_HEIGHT * stride - 1) n d))"

definition debug_texts :: "renderer \<Rightarrow> string \<Rightarrow> (string \<times> bool \<times> bool) list" where
  \<comment> \<open>the text of the rates, formatted from doubles, is an argument; each text with whether it is at the right and at the bottom\<close>
  "debug_texts r rates =
     (let scale = (if r_scale r = - 1 then 1 else r_scale r) in
      [(dec_int (src_w r) @ ''x'' @ dec_int (src_h r) @ '' '' @ dec_int scale @ ''x'', False, False),
       (dec_int (dst_x r) @ '','' @ dec_int (dst_y r) @ '' '' @ dec_int (src_w r * scale) @ ''x'' @ dec_int (src_h r * scale), True, False),
       (rates, False, True),
       (dec_int (dst_w r) @ ''x'' @ dec_int (dst_h r), True, True)])"

definition blit_debug :: "renderer \<Rightarrow> string \<Rightarrow> int \<Rightarrow> int \<Rightarrow> int \<Rightarrow> u16 list \<Rightarrow> u16 list option" where
  "blit_debug r rates stride width height d =
     (let x = 2 + src_x r; y = 2 + src_y r in
      fold (\<lambda>(msg, right, bottom) acc.
              Option.bind acc (\<lambda>d. blitBitmapText msg (if right then - x else x) (if bottom then - y else y) d stride width height))
        (debug_texts r rates) (Some d))"

subsection \<open>Numbers\<close>

datatype digit_draw = Digit int int int  \<comment> \<open>number of the picture, position\<close>

definition DIGIT_DOT :: int where "DIGIT_DOT = 11"
definition DIGIT_SPACE :: int where "DIGIT_SPACE = 16"

definition MSG_blitChar :: "int \<Rightarrow> int \<Rightarrow> int \<Rightarrow> digit_draw list \<times> int" where
  \<comment> \<open>with \<open>DIGIT_WIDTH\<close> 9 and \<open>DIGIT_TRACKING\<close> -2 at scale two\<close>
  "MSG_blitChar n x y = (if n \<noteq> DIGIT_SPACE then [Digit n x y] else [], x + (9 - 2) * 2)"

fun MSG_blitChars :: "int list \<Rightarrow> int \<Rightarrow> int \<Rightarrow> digit_draw list \<times> int" where
  "MSG_blitChars [] x y = ([], x)"
| "MSG_blitChars (n # ns) x y = (let (ds, x) = MSG_blitChar n x y; (es, x) = MSG_blitChars ns x y in (ds @ es, x))"

definition MSG_digits :: "int \<Rightarrow> int list" where
  \<comment> \<open>the characters \<open>MSG_blitInt\<close> draws, in order\<close>
  "MSG_digits num =
     (let i = num;
          (a, i) = (if i > 999 then ([cdiv i 1000], i - cdiv i 1000 * 1000) else ([], i));
          (b, i) = (if i > 99 then ([cdiv i 100], i - cdiv i 100 * 100) else if num > 99 then ([0], i) else ([], i));
          (c, i) = (if i > 9 then ([cdiv i 10], i - cdiv i 10 * 10) else if num > 9 then ([0], i) else ([], i))
      in a @ b @ c @ [i])"

definition MSG_blitInt :: "int \<Rightarrow> int \<Rightarrow> int \<Rightarrow> digit_draw list \<times> int" where
  "MSG_blitInt num x y = MSG_blitChars (MSG_digits num) x y"

definition MSG_blitDouble :: "(rat \<Rightarrow> rat) \<Rightarrow> rat \<Rightarrow> int \<Rightarrow> int \<Rightarrow> digit_draw list \<times> int" where
  "MSG_blitDouble rnd num x y =
     (let i = to_int num; r = to_int (rnd (rnd (num - of_int i) * 10)) in MSG_blitChars (MSG_digits i @ [DIGIT_DOT, r]) x y)"

subsection \<open>Facts\<close>

lemma clear_pixels_result:
  assumes "pos + n \<le> length d"
  shows "\<exists>d'. clear_pixels (int pos) n d = Some d' \<and> length d' = length d
    \<and> (\<forall>a < length d. d' ! a = (if pos \<le> a \<and> a < pos + n then 0 else d ! a))"
  using assms
  by (intro exI [of _ "take pos d @ replicate n 0 @ drop (pos + n) d"]) (auto simp: clear_pixels_def nth_append min_def)

lemma blit_bits_result:
  assumes "pos + length bs \<le> length d"
  shows "\<exists>d'. blit_bits bs (int pos) d = Some d' \<and> length d' = length d
    \<and> (\<forall>a < length d. d' ! a = (if pos \<le> a \<and> a < pos + length bs \<and> bs ! (a - pos) = CHR ''1'' then 0xffff else d ! a))"
  using assms
proof (induction bs arbitrary: pos d)
  case Nil
  then show ?case by auto
next
  case (Cons b bs)
  define e where "e = (if b = CHR ''1'' then d[pos := 0xffff] else d)"
  have e: "length e = length d" "\<And>a. a < length d \<Longrightarrow> e ! a = (if a = pos \<and> b = CHR ''1'' then 0xffff else d ! a)"
    by (auto simp: e_def nth_list_update)
  obtain d' where d': "blit_bits bs (int (Suc pos)) e = Some d'" "length d' = length d"
    "\<forall>a < length d. d' ! a = (if Suc pos \<le> a \<and> a < Suc pos + length bs \<and> bs ! (a - Suc pos) = CHR ''1'' then 0xffff else e ! a)"
    using Cons.IH [of "Suc pos" e] Cons.prems e(1) by auto
  have "blit_bits (b # bs) (int pos) d = Some d'" using d'(1) Cons.prems by (simp add: add.commute e_def split: if_splits)
  moreover have "d' ! a = (if pos \<le> a \<and> a < pos + length (b # bs) \<and> (b # bs) ! (a - pos) = CHR ''1'' then 0xffff else d ! a)" if "a < length d" for a
  proof (cases "a = pos")
    case True
    then show ?thesis using d'(3) that e(2) by auto
  next
    case False
    then have "(b # bs) ! (a - pos) = bs ! (a - Suc pos)" if "pos \<le> a" using that by (simp add: nth_Cons' diff_Suc split: nat.splits)
    then show ?thesis using d'(3) that False e(2) by auto
  qed
  ultimately show ?case using d'(2) by blast
qed

definition lit :: "string \<Rightarrow> nat \<Rightarrow> nat \<Rightarrow> bool" where
  \<comment> \<open>whether column \<open>i\<close> of row \<open>y\<close> of a text is set in the pictures of its letters\<close>
  "lit msg y i \<longleftrightarrow> i < 6 * length msg \<and> i mod 6 < 5
     \<and> (case bitmap_font (msg ! (i div 6)) of Some g \<Rightarrow> g ! (y * 5 + i mod 6) = CHR ''1'' | None \<Rightarrow> False)"

lemma lit_Cons:
  "lit (ch # chs) y i \<longleftrightarrow> (if i < 6 then i < 5 \<and> (case bitmap_font ch of Some g \<Rightarrow> g ! (y * 5 + i) = CHR ''1'' | None \<Rightarrow> False) else lit chs y (i - 6))"
proof (cases "i < 6")
  case True
  then have "i mod 6 = i" "i div 6 = 0" by simp_all
  then show ?thesis using True unfolding lit_def by (auto split: option.splits)
next
  case False
  then have "i mod 6 = (i - 6) mod 6" "i div 6 = Suc ((i - 6) div 6)" by (simp_all add: le_mod_geq le_div_geq)
  then show ?thesis using False by (auto simp: lit_def split: option.splits)
qed

lemma blit_line_result:
  assumes "\<forall>c \<in> set msg. bitmap_font c \<noteq> None" "y < 9" "pos + 6 * length msg \<le> length d + 1"
  shows "\<exists>d'. blit_line y msg (int pos) d = Some d' \<and> length d' = length d
    \<and> (\<forall>a < length d. d' ! a = (if pos \<le> a \<and> lit msg y (a - pos) then 0xffff else d ! a))"
  using assms
proof (induction msg arbitrary: pos d)
  case Nil
  then show ?case by (simp add: lit_def)
next
  case (Cons ch chs)
  obtain g where g: "bitmap_font ch = Some g" using Cons.prems(1) by auto
  let ?bs = "take CHAR_WIDTH (drop (y * CHAR_WIDTH) g)"
  have bs: "length ?bs = 5" "\<And>k. k < 5 \<Longrightarrow> ?bs ! k = g ! (y * 5 + k)"
    using bitmap_font_size [OF g] Cons.prems(2) by (simp_all add: char_defs)
  obtain d1 where d1: "blit_bits ?bs (int pos) d = Some d1" "length d1 = length d"
    "\<forall>a < length d. d1 ! a = (if pos \<le> a \<and> a < pos + 5 \<and> ?bs ! (a - pos) = CHR ''1'' then 0xffff else d ! a)"
    using blit_bits_result [of pos ?bs d] bs(1) Cons.prems(3) by auto
  obtain d' where d': "blit_line y chs (int (pos + 6)) d1 = Some d'" "length d' = length d"
    "\<forall>a < length d. d' ! a = (if pos + 6 \<le> a \<and> lit chs y (a - (pos + 6)) then 0xffff else d1 ! a)"
    using Cons.IH [of "pos + 6" d1] Cons.prems d1(2) by auto
  have "blit_line y (ch # chs) (int pos) d = Some d'" using g d1(1) d'(1) by (simp add: char_defs)
  moreover have "d' ! a = (if pos \<le> a \<and> lit (ch # chs) y (a - pos) then 0xffff else d ! a)" if "a < length d" for a
  proof (cases "pos \<le> a \<and> a < pos + 5")
    case True
    then have "a - pos < 5" by linarith
    then show ?thesis using that True d1(3) d'(3) bs(2) g by (simp add: lit_Cons)
  next
    case False
    then show ?thesis using that d1(3) d'(3) by (auto simp: lit_Cons)
  qed
  ultimately show ?case using d'(2) by blast
qed

definition text_pixel :: "string \<Rightarrow> nat \<Rightarrow> nat \<Rightarrow> u16" where
  \<comment> \<open>column \<open>i\<close>, counted from the border at the left, of row \<open>y\<close>\<close>
  "text_pixel msg y i = (if 0 < i \<and> lit msg y (i - 1) then 0xffff else 0)"

lemma text_row_result:
  assumes "\<forall>c \<in> set msg. bitmap_font c \<noteq> None" "y < 9" "0 < row" "row + 6 * length msg \<le> length d"
  shows "\<exists>d1 d'. clear_pixels (int row - 1) (6 * length msg + 1) d = Some d1 \<and> blit_line y msg (int row) d1 = Some d' \<and> length d' = length d
    \<and> (\<forall>a < length d. d' ! a = (if row \<le> a + 1 \<and> a < row + 6 * length msg then text_pixel msg y (a + 1 - row) else d ! a))"
proof -
  obtain r where r: "row = Suc r" using assms(3) by (cases row) auto
  have "r + (6 * length msg + 1) \<le> length d" using assms(4) r by simp
  from clear_pixels_result [OF this] obtain d1 where d1: "clear_pixels (int row - 1) (6 * length msg + 1) d = Some d1" "length d1 = length d"
    "\<forall>a < length d. d1 ! a = (if r \<le> a \<and> a < r + (6 * length msg + 1) then 0 else d ! a)"
    by (auto simp: r)
  obtain d' where d': "blit_line y msg (int row) d1 = Some d'" "length d' = length d"
    "\<forall>a < length d. d' ! a = (if row \<le> a \<and> lit msg y (a - row) then 0xffff else d1 ! a)"
    using blit_line_result [OF assms(1,2), of row d1] assms(4) d1(2) by auto
  have "d' ! a = (if row \<le> a + 1 \<and> a < row + 6 * length msg then text_pixel msg y (a + 1 - row) else d ! a)" if "a < length d" for a
    using that d'(3) d1(3) r by (auto simp: text_pixel_def lit_def)
  then show ?thesis using d1(1) d'(1,2) by blast
qed

definition in_row :: "nat \<Rightarrow> nat \<Rightarrow> nat \<Rightarrow> bool" where
  \<comment> \<open>a border of one pixel at both sides of the text that starts after pixel \<open>r\<close>\<close>
  "in_row n r a \<longleftrightarrow> r \<le> a \<and> a \<le> r + 6 * n"

lemma text_rows_result:
  assumes "\<forall>c \<in> set msg. bitmap_font c \<noteq> None" "y0 + k \<le> 9" "6 * length msg < S" "r + k * S + 6 * length msg < length d + S"
  shows "\<exists>d'. text_rows msg (6 * length msg + 1) (int S) (int (Suc r)) y0 k d = Some d' \<and> length d' = length d
    \<and> (\<forall>j < k. \<forall>i \<le> 6 * length msg. d' ! (r + j * S + i) = text_pixel msg (y0 + j) i)
    \<and> (\<forall>a < length d. (\<forall>j < k. \<not> in_row (length msg) (r + j * S) a) \<longrightarrow> d' ! a = d ! a)"
  using assms
proof (induction k arbitrary: r y0 d)
  case 0
  then show ?case by simp
next
  case (Suc k)
  have len: "Suc r + 6 * length msg \<le> length d" using Suc.prems(4) by simp
  obtain e d1 where d1: "clear_pixels (int (Suc r) - 1) (6 * length msg + 1) d = Some e" "blit_line y0 msg (int (Suc r)) e = Some d1" "length d1 = length d"
    "\<forall>a < length d. d1 ! a = (if Suc r \<le> a + 1 \<and> a < Suc r + 6 * length msg then text_pixel msg y0 (a + 1 - Suc r) else d ! a)"
    using text_row_result [OF Suc.prems(1) _ _ len, of y0] Suc.prems(2) by auto
  have "\<exists>d'. text_rows msg (6 * length msg + 1) (int S) (int (Suc (r + S))) (Suc y0) k d1 = Some d' \<and> length d' = length d1
    \<and> (\<forall>j < k. \<forall>i \<le> 6 * length msg. d' ! (r + S + j * S + i) = text_pixel msg (Suc y0 + j) i)
    \<and> (\<forall>a < length d1. (\<forall>j < k. \<not> in_row (length msg) (r + S + j * S) a) \<longrightarrow> d' ! a = d1 ! a)"
    by (rule Suc.IH) (use Suc.prems d1(3) in simp_all)
  then obtain d' where d': "text_rows msg (6 * length msg + 1) (int S) (int (Suc (r + S))) (Suc y0) k d1 = Some d'" "length d' = length d"
    "\<forall>j < k. \<forall>i \<le> 6 * length msg. d' ! (r + S + j * S + i) = text_pixel msg (Suc y0 + j) i"
    "\<forall>a < length d. (\<forall>j < k. \<not> in_row (length msg) (r + S + j * S) a) \<longrightarrow> d' ! a = d1 ! a" using d1(3) by auto
  have "text_rows msg (6 * length msg + 1) (int S) (int (Suc r)) y0 (Suc k) d = Some d'"
    using d1(1,2) d'(1) by (simp add: add.commute add.left_commute)
  moreover have "d' ! (r + j * S + i) = text_pixel msg (y0 + j) i" if "j < Suc k" "i \<le> 6 * length msg" for j i
  proof (cases j)
    case 0
    have "\<not> in_row (length msg) (r + S + l * S) (r + i)" for l using that(2) Suc.prems(3) by (simp add: in_row_def)
    then have "d' ! (r + i) = d1 ! (r + i)" using d'(4) that(2) len by simp
    also have "\<dots> = text_pixel msg y0 i" using d1(4) that(2) len by simp
    finally show ?thesis using 0 by simp
  next
    case (Suc l)
    then show ?thesis using d'(3) that by (simp add: add.assoc)
  qed
  moreover have "d' ! a = d ! a" if "a < length d" "\<forall>j < Suc k. \<not> in_row (length msg) (r + j * S) a" for a
  proof -
    have "\<not> in_row (length msg) (r + S + j * S) a" if "j < k" for j using \<open>\<forall>j < Suc k. _ j\<close> [rule_format, of "Suc j"] that by (simp add: add.assoc)
    then have "d' ! a = d1 ! a" using d'(4) that(1) by blast
    moreover have "\<not> in_row (length msg) r a" using that(2) [rule_format, of 0] by simp
    ultimately show ?thesis using d1(4) that(1) by (auto simp: in_row_def)
  qed
  ultimately show ?case using d'(2) by blast
qed

lemma grid_row:
  assumes "x < S" "X + 6 * n < S"
  shows "in_row n (q * S + X) (y * S + x) \<longleftrightarrow> y = q \<and> X \<le> x \<and> x \<le> X + 6 * n"
proof -
  consider "y = q" | "y < q" | "q < y" by linarith
  then show ?thesis
  proof cases
    case 2
    then have "(y + 1) * S \<le> q * S" by (intro mult_right_mono) auto
    then show ?thesis using 2 assms by (simp add: in_row_def)
  next
    case 3
    then have "(q + 1) * S \<le> y * S" by (intro mult_right_mono) auto
    then show ?thesis using 3 assms by (simp add: in_row_def)
  qed (auto simp: in_row_def)
qed

lemma clear_row_result:
  assumes "r + 6 * n < length d"
  shows "\<exists>d'. clear_pixels (int r) (6 * n + 1) d = Some d' \<and> length d' = length d
    \<and> (\<forall>a < length d. d' ! a = (if in_row n r a then 0 else d ! a))"
  using clear_pixels_result [of r "6 * n + 1" d] assms by (auto simp: in_row_def less_Suc_eq_le)

lemma blit_text_grid:
  assumes "\<forall>c \<in> set msg. bitmap_font c \<noteq> None" "n = length msg" "X + 6 * n < S" "(Y + 11) * S \<le> length d"
    and "text_origin n ox oy width height = (int (Suc X), int (Suc Y))"
  shows "\<exists>d'. blitBitmapText msg ox oy d (int S) width height = Some d' \<and> length d' = length d
    \<and> (\<forall>x < S. \<forall>y. y * S + x < length d \<longrightarrow> d' ! (y * S + x) =
        (if X \<le> x \<and> x \<le> X + 6 * n \<and> Y \<le> y \<and> y \<le> Y + 10
         then (if Y < y \<and> y < Y + 10 then text_pixel msg (y - Suc Y) (x - X) else 0) else d ! (y * S + x)))"
proof -
  have rows: "(Y + j) * S + S \<le> length d" if "j \<le> 10" for j
  proof -
    have "(Y + j + 1) * S \<le> (Y + 11) * S" using that by (intro mult_right_mono) auto
    moreover have "(Y + j) * S + S = (Y + j + 1) * S" by (simp add: algebra_simps)
    ultimately show ?thesis using assms(4) by linarith
  qed
  obtain d1 where d1: "clear_pixels (int (Y * S + X)) (6 * n + 1) d = Some d1" "length d1 = length d"
    "\<forall>a < length d. d1 ! a = (if in_row n (Y * S + X) a then 0 else d ! a)"
    using clear_row_result [of "Y * S + X" n d] rows [of 0] assms(3) by auto
  obtain d2 where d2: "text_rows msg (6 * n + 1) (int S) (int (Suc (Suc Y * S + X))) 0 9 d1 = Some d2" "length d2 = length d"
    "\<forall>j < 9. \<forall>i \<le> 6 * n. d2 ! (Suc Y * S + X + j * S + i) = text_pixel msg j i"
    "\<forall>a < length d. (\<forall>j < 9. \<not> in_row n (Suc Y * S + X + j * S) a) \<longrightarrow> d2 ! a = d1 ! a"
    using text_rows_result [OF assms(1), of 0 9 S "Suc Y * S + X" d1] rows [of 9] assms(2,3) d1(2) by (auto simp: distrib_right)
  obtain d3 where d3: "clear_pixels (int ((Y + 10) * S + X)) (6 * n + 1) d2 = Some d3" "length d3 = length d"
    "\<forall>a < length d. d3 ! a = (if in_row n ((Y + 10) * S + X) a then 0 else d2 ! a)"
    using clear_row_result [of "(Y + 10) * S + X" n d2] rows [of 10] assms(3) d2(2) by auto
  have "blitBitmapText msg ox oy d (int S) width height = Some d3"
    using d1(1) d2(1) d3(1) assms(2,5) by (simp add: blitBitmapText_def Let_def char_defs algebra_simps)
  moreover have "d3 ! (y * S + x) =
        (if X \<le> x \<and> x \<le> X + 6 * n \<and> Y \<le> y \<and> y \<le> Y + 10
         then (if Y < y \<and> y < Y + 10 then text_pixel msg (y - Suc Y) (x - X) else 0) else d ! (y * S + x))"
    if x: "x < S" and a: "y * S + x < length d" for x y
  proof -
    have row: "in_row n (q * S + X) (y * S + x) \<longleftrightarrow> y = q \<and> X \<le> x \<and> x \<le> X + 6 * n" for q by (rule grid_row [OF x assms(3)])
    have mid: "in_row n (Suc Y * S + X + j * S) (y * S + x) \<longleftrightarrow> y = Suc Y + j \<and> X \<le> x \<and> x \<le> X + 6 * n" for j
      using row [of "Suc Y + j"] by (simp add: algebra_simps)
    show ?thesis
    proof (cases "X \<le> x \<and> x \<le> X + 6 * n \<and> Y < y \<and> y < Y + 10")
      case True
      define j i where "j = y - Suc Y" and "i = x - X"
      have ji: "y = Suc Y + j" "x = X + i" "j < 9" "i \<le> 6 * n" using True by (auto simp: j_def i_def)
      then have "y * S + x = Suc Y * S + X + j * S + i" by (simp add: distrib_right)
      then have "d2 ! (y * S + x) = text_pixel msg j i" using d2(3) ji(3,4) by presburger
      then have "d2 ! (y * S + x) = text_pixel msg (y - Suc Y) (x - X)" using ji(1,2) by simp
      moreover have "\<not> in_row n ((Y + 10) * S + X) (y * S + x)" using True row by simp
      ultimately show ?thesis using True d3(3) a by simp
    next
      case False
      then have "\<forall>j < 9. \<not> in_row n (Suc Y * S + X + j * S) (y * S + x)" unfolding mid by auto
      then have "d2 ! (y * S + x) = d1 ! (y * S + x)" using d2(4) a by blast
      then show ?thesis using False d3(3) d1(3) a row [of Y] row [of "Y + 10"] by auto
    qed
  qed
  ultimately show ?thesis using d3(2) by blast
qed

text \<open>The number drawn by the MSG functions is the number in decimal.\<close>

lemma dec_nat_step: "10 \<le> n \<Longrightarrow> dec_nat n = dec_nat (n div 10) @ [digit_char (n mod 10)]" "n < 10 \<Longrightarrow> dec_nat n = [digit_char n]"
  by (simp_all add: dec_nat.simps [of n])

lemma nat_cdiv: "0 < b \<Longrightarrow> cdiv (int a) (int b) = int (a div b)"
  by (simp add: cdiv_nonneg zdiv_int)

lemma digit_step:
  assumes "0 < c" "c dvd b" "m = n mod b"
  shows "(if int m > int c - 1 then ([cdiv (int m) (int c)], int m - cdiv (int m) (int c) * int c)
      else if int n > int c - 1 then ([0], int m) else ([], int m))
    = (map int (if n > c - 1 then [m div c] else []), int (n mod c))"
proof -
  have rest: "int m - cdiv (int m) (int c) * int c = int (m mod c)" "cdiv (int m) (int c) = int (m div c)"
    using assms(1) by (simp_all add: nat_cdiv zdiv_int zmod_int minus_div_mult_eq_mod)
  have m: "m mod c = n mod c" "m \<le> n" using assms(2,3) by (simp_all add: mod_mod_cancel)
  show ?thesis
  proof (cases "c \<le> m")
    case True
    then show ?thesis using rest m assms(1) by auto
  next
    case False
    then show ?thesis using rest m assms(1) by auto
  qed
qed

lemma MSG_digits_nat:
  "MSG_digits (int n) = map int ((if n > 999 then [n div 1000] else []) @ (if n > 99 then [n mod 1000 div 100] else [])
     @ (if n > 9 then [n mod 100 div 10] else []) @ [n mod 10])"
proof -
  have s1: "(if int n > 999 then ([cdiv (int n) 1000], int n - cdiv (int n) 1000 * 1000) else ([], int n))
      = (map int (if n > 999 then [n div 1000] else []), int (n mod 1000))"
    using nat_cdiv [of 1000 n] by (simp add: zdiv_int zmod_int minus_div_mult_eq_mod)
  have s2: "(if int (n mod 1000) > 99 then ([cdiv (int (n mod 1000)) 100], int (n mod 1000) - cdiv (int (n mod 1000)) 100 * 100)
      else if int n > 99 then ([0], int (n mod 1000)) else ([], int (n mod 1000))) = (map int (if n > 99 then [n mod 1000 div 100] else []), int (n mod 100))"
    using digit_step [of 100 1000 "n mod 1000" n, unfolded of_nat_numeral] by (simp cong: if_cong)
  have s3: "(if int (n mod 100) > 9 then ([cdiv (int (n mod 100)) 10], int (n mod 100) - cdiv (int (n mod 100)) 10 * 10)
      else if int n > 9 then ([0], int (n mod 100)) else ([], int (n mod 100))) = (map int (if n > 9 then [n mod 100 div 10] else []), int (n mod 10))"
    using digit_step [of 10 100 "n mod 100" n, unfolded of_nat_numeral] by (simp cong: if_cong)
  show ?thesis by (simp only: MSG_digits_def Let_def s1 s2 s3 prod.case) simp
qed

lemma digit_laws:
  "(n :: nat) div 10 div 10 = n div 100" "n div 100 div 10 = n div 1000" "n div 10 mod 10 = n mod 100 div 10" "n div 100 mod 10 = n mod 1000 div 100"
proof -
  show "n div 10 div 10 = n div 100" "n div 100 div 10 = n div 1000" by (simp_all flip: div_mult2_eq)
  show "n div 10 mod 10 = n mod 100 div 10" using mod_mult2_eq [of n 10 10] by simp
  show "n div 100 mod 10 = n mod 1000 div 100" using mod_mult2_eq [of n 100 10] by simp
qed

lemma MSG_digits_decimal:
  assumes "n < 10000"
  shows "map (digit_char \<circ> nat) (MSG_digits (int n)) = dec_nat n"
proof -
  consider "n < 10" | "10 \<le> n" "n < 100" | "100 \<le> n" "n < 1000" | "1000 \<le> n" by linarith
  then show ?thesis
  proof cases
    case 1
    then show ?thesis by (simp add: MSG_digits_nat dec_nat_step)
  next
    case 2
    then have "n div 10 < 10" "n mod 100 = n" by auto
    then show ?thesis using 2 by (simp add: MSG_digits_nat dec_nat_step)
  next
    case 3
    then have "10 \<le> n div 10" "n div 100 < 10" "n mod 1000 = n" by auto
    then show ?thesis using 3 by (simp add: MSG_digits_nat dec_nat_step digit_laws)
  next
    case 4
    then have "10 \<le> n div 10" "10 \<le> n div 100" "n div 1000 < 10" using assms by auto
    then show ?thesis using 4 by (simp add: MSG_digits_nat dec_nat_step digit_laws)
  qed
qed

end
