(* ===== verification/PlusVideo.thy ===== *)
theory PlusVideo
  imports Video Draw
begin

text \<open>
  The screen of the rg35xxplus (\<open>rg35xxplus/platform/platform.c\<close>): the textures of SDL's renderer and their sizes, which parts of which
  texture are copied where when the screen is flipped, the pattern of the screen effect, and the group of the levels drawn over a
  game. A flip is the list of its calls of SDL's renderer. Frames are placed by \<open>selectScaler\<close> (\<open>Video\<close>); what a picture file holds is an argument.
\<close>

datatype sharpness = SHARPNESS_SHARP | SHARPNESS_CRISP | SHARPNESS_SOFT

subsection \<open>Screen effects\<close>

type_synonym rgba = "8 word \<times> 8 word \<times> 8 word \<times> 8 word"

record fx_context =
  fx_scale :: int
  fx_type :: effect
  fx_color :: u32
  fx_next_scale :: int
  fx_next_type :: effect
  fx_next_color :: u32
  fx_live_type :: effect
  fx_texture :: "(rgba list \<times> int) option"    \<comment> \<open>\<open>vid.effect\<close>: its pixels and its opacity\<close>

definition fx_start :: fx_context where
  "fx_start = \<lparr>fx_scale = 1, fx_type = EFFECT_NONE, fx_color = 0, fx_next_scale = 1, fx_next_type = EFFECT_NONE, fx_next_color = 0,
     fx_live_type = EFFECT_NONE, fx_texture = None\<rparr>"

definition rgb565_to_rgb888 :: "u32 \<Rightarrow> 8 word \<times> 8 word \<times> 8 word" where
  "rgb565_to_rgb888 c =
     (let red = ucast (and (drop_bit 11 c) 0x1F) :: 8 word; green = ucast (and (drop_bit 5 c) 0x3F) :: 8 word; blue = ucast (and c 0x1F) :: 8 word
      in (or (push_bit 3 red) (drop_bit 2 red), or (push_bit 2 green) (drop_bit 4 green), or (push_bit 3 blue) (drop_bit 2 blue)))"

definition RES_PATH :: string where "RES_PATH = ''/mnt/sdcard/.system/res''"

definition effect_picture :: "effect \<Rightarrow> int \<Rightarrow> string \<times> int" where
  \<comment> \<open>the file and the opacity\<close>
  "effect_picture t scale =
     (if t = EFFECT_LINE then
        (RES_PATH @ (if scale < 3 then ''/line-2.png'' else if scale < 4 then ''/line-3.png'' else if scale < 5 then ''/line-4.png''
                     else if scale < 6 then ''/line-5.png'' else if scale < 8 then ''/line-6.png'' else ''/line-8.png''), 128)
      else
        (if scale < 3 then (RES_PATH @ ''/grid-2.png'', 64) else if scale < 4 then (RES_PATH @ ''/grid-3.png'', 112)
         else if scale < 5 then (RES_PATH @ ''/grid-4.png'', 144) else if scale < 6 then (RES_PATH @ ''/grid-5.png'', 160)
         else if scale < 8 then (RES_PATH @ ''/grid-6.png'', 112) else if scale < 11 then (RES_PATH @ ''/grid-8.png'', 144)
         else (RES_PATH @ ''/grid-11.png'', 136)))"

definition recolor :: "u32 \<Rightarrow> rgba list \<Rightarrow> rgba list" where
  "recolor c ps =
     (case rgb565_to_rgb888 c of (r, g, b) \<Rightarrow> map (\<lambda>(r0, g0, b0, a). if a \<noteq> 0 then (r, g, b, a) else (r0, g0, b0, a)) ps)"

definition load_effect :: "(string \<Rightarrow> rgba list option) \<Rightarrow> effect \<Rightarrow> int \<Rightarrow> u32 \<Rightarrow> (rgba list \<times> int) option" where
  "load_effect img_load t scale c =
     (case effect_picture t scale of (path, opacity) \<Rightarrow>
      map_option (\<lambda>ps. (if t = EFFECT_GRID \<and> c \<noteq> 0 then recolor c ps else ps, opacity)) (img_load path))"

definition updateEffect :: "(string \<Rightarrow> rgba list option) \<Rightarrow> fx_context \<Rightarrow> fx_context" where
  "updateEffect img_load x =
     (if fx_next_scale x = fx_scale x \<and> fx_next_type x = fx_type x \<and> fx_next_color x = fx_color x then x
      else
       (let live_scale = fx_scale x; live_color = fx_color x;
            x = x\<lparr>fx_scale := fx_next_scale x, fx_type := fx_next_type x, fx_color := fx_next_color x\<rparr>
        in if fx_type x = EFFECT_NONE then x
           else if fx_type x = fx_live_type x \<and> fx_scale x = live_scale \<and> fx_color x = live_color then x
           else (case load_effect img_load (fx_type x) (fx_scale x) (fx_color x) of
                   None \<Rightarrow> x
                 | Some t \<Rightarrow> x\<lparr>fx_texture := Some t, fx_live_type := fx_type x\<rparr>)))"

subsection \<open>Textures\<close>

record plus_video =
  pv_device :: "int \<times> int"                      \<comment> \<open>\<open>device_width\<close>, \<open>device_height\<close>\<close>
  pv_rotate :: int
  pv_texture :: "int \<times> int"                     \<comment> \<open>the size of \<open>vid.texture\<close>\<close>
  pv_linear :: bool                              \<comment> \<open>and how it is scaled\<close>
  pv_target :: "(int \<times> int) option"
  pv_size :: "int \<times> int \<times> int"              \<comment> \<open>\<open>vid.width\<close>, \<open>vid.height\<close>, \<open>vid.pitch\<close>\<close>
  pv_sharpness :: sharpness
  pv_hard_scale :: int
  pv_blit :: "renderer option"
  pv_hdmi :: bool                                \<comment> \<open>\<open>on_hdmi\<close>\<close>
  pv_fx :: fx_context
  pv_hwg :: int                                  \<comment> \<open>\<open>hwg_show\<close>\<close>

definition FIXED_PITCH :: int where "FIXED_PITCH = FIXED_WIDTH * 2"
definition HDMI_PITCH :: int where "HDMI_PITCH = 1280 * 2"

definition plus_initVideo :: "int \<Rightarrow> int \<times> int \<Rightarrow> plus_video" where
  \<comment> \<open>the number in \<open>HDMI_STATE_PATH\<close> and the size of the display mode\<close>
  "plus_initVideo state dims =
     (let hdmi = (state \<noteq> 0);
          (w, h, p) = (if hdmi then (1280, 720, HDMI_PITCH) else (FIXED_WIDTH, FIXED_HEIGHT, FIXED_PITCH))
      in \<lparr>pv_device = (w, h), pv_rotate = (if snd dims > fst dims then 3 else 0), pv_texture = (w, h), pv_linear = True, pv_target = None,
          pv_size = (w, h, p), pv_sharpness = SHARPNESS_SOFT, pv_hard_scale = 4, pv_blit = None, pv_hdmi = hdmi, pv_fx = fx_start, pv_hwg = 0\<rparr>)"

definition resizeVideo :: "int \<Rightarrow> int \<Rightarrow> int \<Rightarrow> plus_video \<Rightarrow> plus_video" where
  "resizeVideo w h p v =
     (if (w, h, p) = pv_size v then v
      else
       (let hs = (if w \<ge> fst (pv_device v) \<and> h \<ge> snd (pv_device v) then 1 else if h \<ge> 160 then 2 else 4)
        in v\<lparr>pv_hard_scale := hs, pv_texture := (w, h), pv_linear := (pv_sharpness v = SHARPNESS_SOFT),
             pv_target := (if pv_sharpness v = SHARPNESS_CRISP then Some (w * hs, h * hs) else None), pv_size := (w, h, p)\<rparr>))"

definition plus_setSharpness :: "sharpness \<Rightarrow> plus_video \<Rightarrow> plus_video" where
  "plus_setSharpness s v =
     (if pv_sharpness v = s then v
      else (case pv_size v of (w, h, p) \<Rightarrow> resizeVideo w h p (v\<lparr>pv_size := (w, h, 0), pv_sharpness := s\<rparr>)))"

definition plus_setEffect :: "effect \<Rightarrow> plus_video \<Rightarrow> plus_video" where
  "plus_setEffect t v = v\<lparr>pv_fx := (pv_fx v)\<lparr>fx_next_type := t\<rparr>\<rparr>"

definition plus_setEffectColor :: "u32 \<Rightarrow> plus_video \<Rightarrow> plus_video" where
  "plus_setEffectColor c v = v\<lparr>pv_fx := (pv_fx v)\<lparr>fx_next_color := c\<rparr>\<rparr>"

definition plus_getScaler :: "renderer \<Rightarrow> plus_video \<Rightarrow> plus_video" where
  \<comment> \<open>the scaler is always \<open>scale1x1_c16\<close>\<close>
  "plus_getScaler r v = v\<lparr>pv_fx := (pv_fx v)\<lparr>fx_next_scale := r_scale r\<rparr>\<rparr>"

definition plus_setHardwareGroup :: "int \<Rightarrow> plus_video \<Rightarrow> plus_video" where
  "plus_setHardwareGroup s v = v\<lparr>pv_hwg := s\<rparr>"

definition plus_blitRenderer :: "renderer \<Rightarrow> plus_video \<Rightarrow> plus_video" where
  "plus_blitRenderer r v = resizeVideo (true_w r) (true_h r) (src_p r) (v\<lparr>pv_blit := Some r\<rparr>)"

subsection \<open>The group over a game\<close>

definition expand5 :: "int \<Rightarrow> int" where "expand5 x = or (push_bit 3 x) (drop_bit 2 x)"
definition expand6 :: "int \<Rightarrow> int" where "expand6 x = or (push_bit 2 x) (drop_bit 4 x)"

definition channels :: "u16 \<Rightarrow> int \<times> int \<times> int" where
  "channels c =
     (expand5 (and (drop_bit 11 (uint c)) 0x1F), expand6 (and (drop_bit 5 (uint c)) 0x3F), expand5 (and (uint c) 0x1F))"

definition argb :: "int \<Rightarrow> int \<Rightarrow> int \<Rightarrow> int \<Rightarrow> u32" where
  "argb a r g b = or (or (or (push_bit 24 (word_of_int a)) (push_bit 16 (word_of_int r))) (push_bit 8 (word_of_int g))) (word_of_int b)"

definition hwg_alpha :: "u16 \<Rightarrow> u16 \<Rightarrow> int" where
  "hwg_alpha black white =
     (case (channels black, channels white) of ((br, bg, bb), (wr, wg, wb)) \<Rightarrow>
      let a = 255 - cdiv ((wr - br) + (wg - bg) + (wb - bb)) 3 in if a < 0 then 0 else if a > 255 then 255 else a)"

definition hwg_channel :: "int \<Rightarrow> int \<Rightarrow> int" where
  "hwg_channel a c = (let x = cdiv (c * 255) a in if x > 255 then 255 else x)"

definition hwg_pixel :: "u16 \<Rightarrow> u16 \<Rightarrow> u32" where
  \<comment> \<open>a pixel of the group on black and on white\<close>
  "hwg_pixel black white =
     (let a = hwg_alpha black white in
      case channels black of (r, g, b) \<Rightarrow> if a > 0 then argb a (hwg_channel a r) (hwg_channel a g) (hwg_channel a b) else 0)"

definition hwg_region :: "plus_video \<Rightarrow> int \<Rightarrow> int \<Rightarrow> rect" where
  \<comment> \<open>the padding and the width of the group\<close>
  "hwg_region v padding ow =
     (case pv_device v of (dw, dh) \<Rightarrow>
      let pad = SCALE1 padding;
          x = dw - pad - ow; y = pad; w = ow; h = SCALE1 PILL_SIZE;
          x = (if x < 0 then 0 else x); y = (if y < 0 then 0 else y);
          w = (if x + w > dw then dw - x else w); h = (if y + h > dh then dh - y else h)
      in (x, y, w, h))"

definition hwg_compose :: "rect \<Rightarrow> (int \<times> int \<Rightarrow> u16) \<Rightarrow> (int \<times> int \<Rightarrow> u16) \<Rightarrow> (int \<times> int \<Rightarrow> u32) \<Rightarrow> int \<times> int \<Rightarrow> u32" where
  "hwg_compose region black white old p =
     (case region of (x, y, w, h) \<Rightarrow>
      if x \<le> fst p \<and> fst p < x + w \<and> y \<le> snd p \<and> snd p < y + h then hwg_pixel (black p) (white p) else old p)"

subsection \<open>Flipping\<close>

datatype texture = Frame_Texture | Target_Texture | Effect_Texture | Group_Texture

datatype render =
    Update texture
  | Copy texture "rect option" "rect option"
  | Rotated texture "rect option" rect int "(int \<times> int) option"    \<comment> \<open>degrees, around a point or the middle\<close>
  | Onto_Target bool
  | Present

definition flip_target :: "(rat \<Rightarrow> rat) \<Rightarrow> int \<times> int \<Rightarrow> renderer \<Rightarrow> rect" where
  \<comment> \<open>\<open>dst_rect\<close>\<close>
  "flip_target rnd dims r =
     (case dims of (dw, dh) \<Rightarrow>
      if r_aspect r = 0 then
        (let w = src_w r * r_scale r; h = src_h r * r_scale r in (cdiv (dw - w) 2, cdiv (dh - h) 2, w, h))
      else if r_aspect r > 0 then
        (let w = to_int (rnd (of_int dh * r_aspect r));
             (w, h) = (if w > dw then (dw, to_int (rnd (of_int dw * rnd (1 / r_aspect r)))) else (w, dh))
         in (cdiv (dw - w) 2, cdiv (dh - h) 2, w, h))
      else (0, 0, dw, dh))"

definition flip_source :: "plus_video \<Rightarrow> renderer \<Rightarrow> rect" where
  \<comment> \<open>\<open>src_rect\<close>\<close>
  "flip_source v r =
     (let k = (if pv_sharpness v = SHARPNESS_CRISP then pv_hard_scale v else 1) in (src_x r * k, src_y r * k, src_w r * k, src_h r * k))"

definition turned :: "plus_video \<Rightarrow> bool" where "turned v \<longleftrightarrow> pv_rotate v \<noteq> 0 \<and> \<not> pv_hdmi v"

definition show_rect :: "plus_video \<Rightarrow> texture \<Rightarrow> rect \<Rightarrow> rect \<Rightarrow> render" where
  "show_rect v t src dst =
     (case (pv_device v, dst) of ((dw, dh), (x, y, w, h)) \<Rightarrow>
      let oy = cdiv (dw - dh) 2; ox = - oy in
      if turned v then Rotated t (Some src) (ox + x, oy + y, w, h) (pv_rotate v * 90) None else Copy t (Some src) (Some dst))"

definition plus_flip :: "(rat \<Rightarrow> rat) \<Rightarrow> (string \<Rightarrow> rgba list option) \<Rightarrow> bool \<Rightarrow> int \<Rightarrow> int \<Rightarrow> bool \<Rightarrow> plus_video \<Rightarrow> render list \<times> plus_video" where
  \<comment> \<open>\<open>GetHDMI()\<close>, the padding, the width of the group, and whether its surfaces could be made\<close>
  "plus_flip rnd img_load has_hdmi pad ow made v =
     (let v = v\<lparr>pv_hdmi := has_hdmi\<rparr> in
      case pv_blit v of
        None \<Rightarrow>
          (let v = (case pv_device v of (dw, dh) \<Rightarrow> resizeVideo dw dh FIXED_PITCH v) in
           ([Update Frame_Texture,
             (if turned v then Rotated Frame_Texture None (0, fst (pv_device v), fst (pv_device v), snd (pv_device v)) (pv_rotate v * 90) (Some (0, 0))
              else Copy Frame_Texture None None),
             Present], v))
      | Some r \<Rightarrow>
          (let crisp = (pv_sharpness v = SHARPNESS_CRISP);
               dst = flip_target rnd (pv_device v) r;
               x = updateEffect img_load (pv_fx v);
               region = hwg_region v pad ow
           in ([Update Frame_Texture]
               @ (if crisp then [Onto_Target True, Copy Frame_Texture None None, Onto_Target False] else [])
               @ [show_rect v (if crisp then Target_Texture else Frame_Texture) (flip_source v r) dst]
               @ (if fx_type x \<noteq> EFFECT_NONE \<and> fx_texture x \<noteq> None
                  then [show_rect v Effect_Texture (case dst of (_, _, w, h) \<Rightarrow> (0, 0, w, h)) dst] else [])
               @ (if pv_hwg v \<noteq> 0 \<and> \<not> pv_hdmi v \<and> made then [Update Group_Texture, Copy Group_Texture (Some region) (Some region)] else [])
               @ [Present],
               v\<lparr>pv_fx := x, pv_blit := None\<rparr>)))"

subsection \<open>The group keeps its colours\<close>

lemma expand_range: "0 \<le> x \<Longrightarrow> x < 32 \<Longrightarrow> expand5 x \<in> {0 .. 255}" "0 \<le> x \<Longrightarrow> x < 64 \<Longrightarrow> expand6 x \<in> {0 .. 255}"
proof -
  have "list_all (\<lambda>x. 0 \<le> expand5 x \<and> expand5 x \<le> 255) [0 .. 31]" by code_simp
  then show "0 \<le> x \<Longrightarrow> x < 32 \<Longrightarrow> expand5 x \<in> {0 .. 255}" by (simp add: list_all_iff)
  have "list_all (\<lambda>x. 0 \<le> expand6 x \<and> expand6 x \<le> 255) [0 .. 63]" by code_simp
  then show "0 \<le> x \<Longrightarrow> x < 64 \<Longrightarrow> expand6 x \<in> {0 .. 255}" by (simp add: list_all_iff)
qed

lemma channels_range: "channels c = (r, g, b) \<Longrightarrow> r \<in> {0 .. 255} \<and> g \<in> {0 .. 255} \<and> b \<in> {0 .. 255}"
proof -
  have "and x 31 \<in> {0 ..< 32}" "and x 63 \<in> {0 ..< 64}" for x :: int
    using AND_upper2 [of 31 x] AND_upper2 [of 63 x] by simp_all
  then show "channels c = (r, g, b) \<Longrightarrow> r \<in> {0 .. 255} \<and> g \<in> {0 .. 255} \<and> b \<in> {0 .. 255}"
    using expand_range by (auto simp: channels_def)
qed

text \<open>What the group paints alike on black and on white is shown opaque in its own colour; what it leaves alone lets the game through.\<close>

lemma hwg_painted: "channels c = (r, g, b) \<Longrightarrow> hwg_pixel c c = argb 255 r g b"
proof -
  assume c: "channels c = (r, g, b)"
  have "hwg_channel 255 x = x" if "x \<in> {0 .. 255}" for x using that by (simp add: hwg_channel_def cdiv_nonneg)
  then show "hwg_pixel c c = argb 255 r g b" using c channels_range [OF c] by (simp add: hwg_pixel_def hwg_alpha_def cdiv_def)
qed

lemma hwg_untouched: "hwg_pixel 0 0xFFFF = 0"
  by code_simp

lemma hwg_region_inside:
  assumes "pv_device v = (dw, dh)" "0 \<le> padding" "0 \<le> ow" "SCALE1 padding \<le> dw" "SCALE1 padding \<le> dh"
  shows "inside (hwg_region v padding ow) (0, 0, dw, dh)"
  using assms by (auto simp: hwg_region_def layout_defs Let_def)

subsection \<open>Sizes of the textures\<close>

datatype plus_op =
    Do_Sharpness sharpness
  | Do_Effect effect
  | Do_Color u32
  | Do_Scaler renderer
  | Do_Group int
  | Do_Frame renderer
  | Do_Flip bool int int bool

fun plus_do :: "(rat \<Rightarrow> rat) \<Rightarrow> (string \<Rightarrow> rgba list option) \<Rightarrow> plus_op \<Rightarrow> plus_video \<Rightarrow> plus_video" where
  "plus_do rnd img (Do_Sharpness s) v = plus_setSharpness s v"
| "plus_do rnd img (Do_Effect t) v = plus_setEffect t v"
| "plus_do rnd img (Do_Color c) v = plus_setEffectColor c v"
| "plus_do rnd img (Do_Scaler r) v = plus_getScaler r v"
| "plus_do rnd img (Do_Group s) v = plus_setHardwareGroup s v"
| "plus_do rnd img (Do_Frame r) v = plus_blitRenderer r v"
| "plus_do rnd img (Do_Flip h p ow made) v = snd (plus_flip rnd img h p ow made v)"

definition textures_ok :: "plus_video \<Rightarrow> bool" where
  \<comment> \<open>the texture has the size of the frame, and the enlarged one exists exactly when it is used\<close>
  "textures_ok v \<longleftrightarrow>
     (case pv_size v of (w, h, p) \<Rightarrow> 0 < p \<and> 0 < pv_hard_scale v \<and> pv_texture v = (w, h)
        \<and> pv_target v = (if pv_sharpness v = SHARPNESS_CRISP then Some (w * pv_hard_scale v, h * pv_hard_scale v) else None))
     \<and> (\<forall>r. pv_blit v = Some r \<longrightarrow> pv_size v = (true_w r, true_h r, src_p r))"

lemma resize_fresh:
  assumes "pv_size v \<noteq> (w, h, p)" "0 < p" "\<forall>r. pv_blit v = Some r \<longrightarrow> (w, h, p) = (true_w r, true_h r, src_p r)"
  shows "textures_ok (resizeVideo w h p v)"
  using assms by (auto simp: textures_ok_def resizeVideo_def Let_def)

lemma setSharpness_ok: "textures_ok v \<Longrightarrow> textures_ok (plus_setSharpness s v)"
proof -
  assume ok: "textures_ok v"
  obtain w h p where size: "pv_size v = (w, h, p)" by (rule prod_cases3)
  have "textures_ok (resizeVideo w h p (v\<lparr>pv_size := (w, h, 0), pv_sharpness := s\<rparr>))"
    using ok size by (intro resize_fresh) (auto simp: textures_ok_def)
  then show ?thesis using ok size by (simp add: plus_setSharpness_def)
qed

lemma blitRenderer_ok: "textures_ok v \<Longrightarrow> 0 < src_p r \<Longrightarrow> textures_ok (plus_blitRenderer r v)"
proof (cases "pv_size v = (true_w r, true_h r, src_p r)")
  case True
  assume "textures_ok v" "0 < src_p r"
  then show ?thesis using True by (simp add: plus_blitRenderer_def resizeVideo_def textures_ok_def)
next
  case False
  assume "0 < src_p r"
  then show ?thesis unfolding plus_blitRenderer_def using False by (intro resize_fresh) auto
qed

lemma flip_ok: "textures_ok v \<Longrightarrow> textures_ok (snd (plus_flip rnd img h p ow made v))"
proof (cases "pv_blit v")
  case None
  assume ok: "textures_ok v"
  obtain dw dh where dev: "pv_device v = (dw, dh)" by (cases "pv_device v")
  have "textures_ok (resizeVideo dw dh FIXED_PITCH (v\<lparr>pv_hdmi := h\<rparr>))"
  proof (cases "pv_size v = (dw, dh, FIXED_PITCH)")
    case True
    then show ?thesis using ok None by (simp add: resizeVideo_def textures_ok_def)
  next
    case False
    then show ?thesis using None by (intro resize_fresh) (auto simp: FIXED_PITCH_def FIXED_WIDTH_def)
  qed
  then show ?thesis using None dev by (simp add: plus_flip_def Let_def)
next
  case (Some r)
  assume "textures_ok v"
  then show ?thesis using Some by (auto simp: plus_flip_def textures_ok_def Let_def split: prod.splits)
qed

lemma textures_ok_apart: "textures_ok (v\<lparr>pv_fx := x\<rparr>) = textures_ok v" "textures_ok (v\<lparr>pv_hwg := s\<rparr>) = textures_ok v"
  by (auto simp: textures_ok_def split: prod.split)

lemma plus_do_ok:
  assumes "textures_ok v" "\<And>r. op = Do_Frame r \<Longrightarrow> 0 < src_p r"
  shows "textures_ok (plus_do rnd img op v)"
  using assms by (cases op)
    (auto simp: setSharpness_ok blitRenderer_ok flip_ok textures_ok_apart plus_setEffect_def plus_setEffectColor_def plus_getScaler_def
      plus_setHardwareGroup_def)

lemma resize_keeps: "pv_device (resizeVideo w h p v) = pv_device v" "pv_blit (resizeVideo w h p v) = pv_blit v"
  by (simp_all add: resizeVideo_def Let_def)

lemma plus_do_device: "pv_device (plus_do rnd img op v) = pv_device v"
  by (cases op) (auto simp: plus_setSharpness_def plus_blitRenderer_def plus_flip_def plus_setEffect_def plus_setEffectColor_def
      plus_getScaler_def plus_setHardwareGroup_def resize_keeps Let_def split: prod.split option.split)

lemma plus_do_blit: "pv_blit (plus_do rnd img op v) = Some r \<Longrightarrow> pv_blit v = Some r \<or> op = Do_Frame r"
  by (cases op) (auto simp: plus_setSharpness_def plus_blitRenderer_def plus_flip_def plus_setEffect_def plus_setEffectColor_def
      plus_getScaler_def plus_setHardwareGroup_def resize_keeps Let_def split: prod.splits option.splits if_splits)

subsection \<open>Where a frame is drawn\<close>

definition plus_device :: "int \<times> int \<Rightarrow> device" where
  "plus_device dims = \<lparr>DEVICE_WIDTH = fst dims, DEVICE_HEIGHT = snd dims, DEVICE_PITCH = fst dims * 2, HDMI_WIDTH = 1280\<rparr>"

definition plus_placed :: "(rat \<Rightarrow> rat) \<Rightarrow> int \<times> int \<Rightarrow> renderer \<Rightarrow> bool" where
  \<comment> \<open>by \<open>selectScaler\<close>, a frame no larger than the screen, not cropped\<close>
  "plus_placed rnd dims r \<longleftrightarrow>
     (\<exists>ratio w h p vv. 0 < ratio \<and> 0 < w \<and> w \<le> fst dims \<and> 0 < h \<and> h \<le> snd dims \<and> 0 < p
        \<and> (scaling_mode vv = SCALE_CROPPED \<longrightarrow> fst dims = 1280) \<and> r = rend (selectScaler rnd (plus_device dims) ratio w h p vv))"

lemma cdiv_least: "0 < b \<Longrightarrow> b \<le> a \<Longrightarrow> 1 \<le> cdiv a b \<and> b * cdiv a b \<le> a"
proof -
  assume "0 < b" "b \<le> (a :: int)"
  then have "cdiv a b = a div b" "1 \<le> a div b" using pos_imp_zdiv_pos_iff [of b a] by (simp_all add: cdiv_nonneg)
  moreover have "b * (a div b) \<le> a" using \<open>0 < b\<close> by (metis mult_div_mod_eq le_add_same_cancel1 pos_mod_sign)
  ultimately show ?thesis by simp
qed

lemma plus_placed_shape:
  assumes "plus_placed rnd (dw, dh) r"
  shows "src_x r = 0 \<and> src_y r = 0 \<and> src_w r = true_w r \<and> src_h r = true_h r \<and> 0 < true_w r \<and> 0 < true_h r \<and> 0 < src_p r"
    and "r_aspect r = 0 \<Longrightarrow> 0 < r_scale r \<and> src_w r * r_scale r \<le> dw \<and> src_h r * r_scale r \<le> dh"
proof -
  obtain ratio w h p vv where r: "0 < ratio" "0 < w" "w \<le> dw" "0 < h" "h \<le> dh" "0 < p" "scaling_mode vv = SCALE_CROPPED \<longrightarrow> dw = 1280"
    "r = rend (selectScaler rnd (plus_device (dw, dh)) ratio w h p vv)"
    using assms unfolding plus_placed_def fst_conv snd_conv by blast
  let ?sc = "min (cdiv dw w) (cdiv dh h)"
  have sc: "1 \<le> ?sc" "w * ?sc \<le> dw" "h * ?sc \<le> dh"
    using cdiv_least [OF r(2,3)] cdiv_least [OF r(4,5)] r(2,4) mult_left_mono [of ?sc "cdiv dw w" w] mult_left_mono [of ?sc "cdiv dh h" h]
    by linarith+
  show "src_x r = 0 \<and> src_y r = 0 \<and> src_w r = true_w r \<and> src_h r = true_h r \<and> 0 < true_w r \<and> 0 < true_h r \<and> 0 < src_p r"
    using r sc(1) by (cases "scaling_mode vv")
      (auto simp: selectScaler_def place_def plus_device_def integer_scale_def oversized_def aspect_scale_def Let_def)
  show "0 < r_scale r \<and> src_w r * r_scale r \<le> dw \<and> src_h r * r_scale r \<le> dh" if "r_aspect r = 0"
    using r sc that by (cases "scaling_mode vv")
      (auto simp: selectScaler_def place_def plus_device_def integer_scale_def oversized_def aspect_scale_def Let_def)
qed

lemma to_int_near:
  assumes "double_rounding rnd" "0 \<le> x" "x < 2000"
  shows "\<bar>of_int (to_int (rnd x)) - x\<bar> \<le> 1" "0 \<le> rnd x"
proof -
  have n: "of_int \<lfloor>x\<rfloor> \<le> x" "x < of_int (\<lfloor>x\<rfloor> + 1)" "0 \<le> \<lfloor>x\<rfloor>" "\<lfloor>x\<rfloor> < 2000"
    using assms(2,3) floor_correct [of x] by (auto simp: floor_less_iff)
  have "rnd (of_int \<lfloor>x\<rfloor>) \<le> rnd x" "rnd x \<le> rnd (of_int (\<lfloor>x\<rfloor> + 1))"
    using rnd_laws(1) [OF assms(1)] n by (metis, metis less_imp_le)
  then have r: "of_int \<lfloor>x\<rfloor> \<le> rnd x" "rnd x \<le> of_int (\<lfloor>x\<rfloor> + 1)"
    using rnd_laws(2) [OF assms(1), of "\<lfloor>x\<rfloor>"] rnd_laws(2) [OF assms(1), of "\<lfloor>x\<rfloor> + 1"] n(3,4) by simp_all
  have "0 \<le> (of_int \<lfloor>x\<rfloor> :: rat)" using n(3) by simp
  then show pos: "0 \<le> rnd x" using r(1) by linarith
  have "\<lfloor>x\<rfloor> \<le> \<lfloor>rnd x\<rfloor>" "\<lfloor>rnd x\<rfloor> \<le> \<lfloor>x\<rfloor> + 1" using r by (simp add: le_floor_iff, metis floor_mono floor_of_int)
  then have f: "of_int \<lfloor>x\<rfloor> \<le> (of_int \<lfloor>rnd x\<rfloor> :: rat)" "(of_int \<lfloor>rnd x\<rfloor> :: rat) \<le> of_int (\<lfloor>x\<rfloor> + 1)" by (simp_all only: of_int_le_iff)
  have "x - 1 \<le> of_int \<lfloor>rnd x\<rfloor>" "of_int \<lfloor>rnd x\<rfloor> \<le> x + 1" using n(1,2) f unfolding of_int_add of_int_1 by linarith+
  then show "\<bar>of_int (to_int (rnd x)) - x\<bar> \<le> 1" using pos by (simp add: to_int_def abs_le_iff)
qed

lemma flip_target_near:
  \<comment> \<open>the shape is the aspect up to a pixel\<close>
  assumes "double_rounding rnd" "(dw, dh) \<in> {(640, 480), (1280, 720)}" "0 < r_aspect r" "flip_target rnd (dw, dh) r = (x, y, w, h)"
  shows "h = dh \<and> \<bar>of_int w - of_int dh * r_aspect r\<bar> \<le> 1 \<or> w = dw \<and> \<bar>of_int h - of_int dw * rnd (1 / r_aspect r)\<bar> \<le> 1"
proof -
  let ?a = "r_aspect r"
  have dims: "0 < dw" "0 < dh" "dw \<le> 1280" "dh \<le> dw" using assms(2) by auto
  show ?thesis
  proof (cases "to_int (rnd (of_int dh * ?a)) > dw")
    case False
    then have wh: "w = to_int (rnd (of_int dh * ?a))" "h = dh" using assms(3,4) by (auto simp: flip_target_def Let_def split: if_splits)
    have "of_int dh * ?a < 2000"
    proof (rule ccontr)
      assume "\<not> of_int dh * ?a < 2000"
      then have "rnd 2000 \<le> rnd (of_int dh * ?a)" by (intro rnd_laws(1) [OF assms(1)]) simp
      then have "2000 \<le> rnd (of_int dh * ?a)" using rnd_laws(2) [OF assms(1), of 2000] by simp
      moreover from this have "2000 \<le> \<lfloor>rnd (of_int dh * ?a)\<rfloor>" by (simp add: le_floor_iff)
      ultimately have "2000 \<le> to_int (rnd (of_int dh * ?a))" by (simp add: to_int_def)
      then show False using False dims(3) by linarith
    qed
    then show ?thesis using to_int_near(1) [OF assms(1)] assms(3) dims wh by simp
  next
    case True
    then have wh: "w = dw" "h = to_int (rnd (of_int dw * rnd (1 / ?a)))" using assms(3,4) by (auto simp: flip_target_def Let_def split: if_splits)
    have "1 < ?a"
    proof (rule ccontr)
      assume "\<not> 1 < ?a"
      then have "of_int dh * ?a \<le> of_int dw" using dims by (metis less_eq_rat_def linorder_not_le mult.right_neutral mult_left_mono of_int_0_le_iff of_int_le_iff order_trans)
      then have "rnd (of_int dh * ?a) \<le> of_int dw" using rnd_laws(1) [OF assms(1)] rnd_laws(2) [OF assms(1), of dw] dims by fastforce
      moreover have "0 \<le> rnd (of_int dh * ?a)" using rnd_laws(3) [OF assms(1), of 0 0] assms(3) dims by simp
      ultimately show False using True by (simp add: to_int_def floor_le_iff) linarith
    qed
    then have "rnd (1 / ?a) \<le> 1" "0 \<le> rnd (1 / ?a)"
      using rnd_laws(1) [OF assms(1), of "1 / ?a" 1] rnd_laws(2) [OF assms(1), of 1] rnd_laws(3) [OF assms(1), of 0 0 "1 / ?a"] by simp_all
    moreover have "(of_int dw :: rat) \<le> 1280" "0 \<le> (of_int dw :: rat)" using dims by simp_all
    ultimately have "0 \<le> of_int dw * rnd (1 / ?a)" "of_int dw * rnd (1 / ?a) < 2000"
      using mult_mono [of "of_int dw" 1280 "rnd (1 / ?a)" 1] by simp_all
    from to_int_near(1) [OF assms(1) this] show ?thesis using wh by simp
  qed
qed

lemma flip_target_aspect:
  assumes "double_rounding rnd" "(dw, dh) \<in> {(640, 480), (1280, 720)}" "0 < r_aspect r" "flip_target rnd (dw, dh) r = (x, y, w, h)"
  shows "0 \<le> w \<and> w \<le> dw \<and> 0 \<le> h \<and> h \<le> dh \<and> (w = dw \<or> h = dh)"
proof -
  let ?a = "r_aspect r"
  have dims: "0 < dw" "0 < dh" "dw \<le> 2 ^ 53" "dh \<le> 2 ^ 53" using assms(2) by auto
  have nonneg: "0 \<le> rnd z" if "0 \<le> z" for z using rnd_laws(3) [OF assms(1), of 0 0 z] that by simp
  define wide where "wide = rnd (of_int dh * ?a)"
  have wide: "0 \<le> wide" using dims assms(3) by (simp add: wide_def nonneg)
  show ?thesis
  proof (cases "to_int wide > dw")
    case False
    then have "w = to_int wide" "h = dh" using assms(3,4) by (auto simp: flip_target_def wide_def Let_def split: if_splits)
    then show ?thesis using False wide dims by (simp add: to_int_def)
  next
    case True
    define tall where "tall = rnd (of_int dw * rnd (1 / ?a))"
    have wh: "w = dw" "h = to_int tall" using True assms(3,4) by (auto simp: flip_target_def wide_def tall_def Let_def split: if_splits)
    have "of_int dw < of_int dh * ?a"
    proof (rule ccontr)
      assume "\<not> of_int dw < of_int dh * ?a"
      then have "wide \<le> rnd (of_int dw)" unfolding wide_def using rnd_laws(1) [OF assms(1)] by simp
      then have "wide \<le> of_int dw" using rnd_laws(2) [OF assms(1), of dw] dims by simp
      then show False using True wide by (simp add: to_int_def floor_le_iff) linarith
    qed
    then have "1 / ?a \<le> of_int dh / of_int dw" using dims assms(3) by (simp add: field_simps)
    then have "rnd (1 / ?a) \<le> rnd (of_int dh / of_int dw)" by (rule rnd_laws(1) [OF assms(1)])
    moreover have "rnd (of_int dh / of_int dw) = of_int dh / of_int dw"
      using assms(1,2) spec [OF spec [of "\<lambda>n. \<forall>k. \<bar>n\<bar> \<le> 2 ^ 53 \<and> k \<le> 53 \<longrightarrow> rnd (of_int n / 2 ^ k) = of_int n / 2 ^ k" 3], of 2]
        spec [OF spec [of "\<lambda>n. \<forall>k. \<bar>n\<bar> \<le> 2 ^ 53 \<and> k \<le> 53 \<longrightarrow> rnd (of_int n / 2 ^ k) = of_int n / 2 ^ k" 9], of 4]
      by (auto simp: double_rounding_def)
    ultimately have "of_int dw * rnd (1 / ?a) \<le> of_int dh" using dims by (simp add: field_simps)
    then have "tall \<le> rnd (of_int dh)" unfolding tall_def by (rule rnd_laws(1) [OF assms(1)])
    then have "tall \<le> of_int dh" using rnd_laws(2) [OF assms(1), of dh] dims by simp
    moreover have "0 \<le> tall" unfolding tall_def using dims assms(3) by (intro nonneg mult_nonneg_nonneg nonneg) simp_all
    ultimately show ?thesis using wh dims by (simp add: to_int_def floor_le_iff)
  qed
qed

lemma flip_target_inside:
  assumes "double_rounding rnd" "(dw, dh) \<in> {(640, 480), (1280, 720)}" "plus_placed rnd (dw, dh) r"
  shows "inside (flip_target rnd (dw, dh) r) (0, 0, dw, dh)"
proof -
  obtain x y w h where t: "flip_target rnd (dw, dh) r = (x, y, w, h)" by (rule prod_cases4)
  have "0 \<le> w \<and> w \<le> dw \<and> 0 \<le> h \<and> h \<le> dh" if "r_aspect r \<ge> 0"
  proof (cases "r_aspect r = 0")
    case True
    then show ?thesis using plus_placed_shape [OF assms(3)] t by (auto simp: flip_target_def Let_def)
  next
    case False
    then show ?thesis using flip_target_aspect [OF assms(1,2) _ t] that by simp
  qed
  moreover have "x = cdiv (dw - w) 2 \<and> y = cdiv (dh - h) 2" if "r_aspect r \<ge> 0"
    using t that by (auto simp: flip_target_def Let_def split: if_splits)
  moreover have "(x, y, w, h) = (0, 0, dw, dh)" if "r_aspect r < 0" using t that by (simp add: flip_target_def)
  ultimately show ?thesis unfolding t by (cases "r_aspect r < 0") (auto simp: cdiv_nonneg)
qed

lemma init_ok: "textures_ok (plus_initVideo state dims)" "pv_blit (plus_initVideo state dims) = None"
  "pv_device (plus_initVideo state dims) \<in> {(640, 480), (1280, 720)}"
  by (cases "state = 0"; simp add: plus_initVideo_def textures_ok_def FIXED_PITCH_def FIXED_WIDTH_def FIXED_HEIGHT_def HDMI_PITCH_def Let_def)+

lemma plus_session_ok:
  assumes "\<forall>r. Do_Frame r \<in> set ops \<longrightarrow> plus_placed rnd (pv_device v0) r" "textures_ok v0" "\<forall>r. pv_blit v0 = Some r \<longrightarrow> plus_placed rnd (pv_device v0) r"
    and "v = fold (plus_do rnd img) ops v0"
  shows "textures_ok v \<and> pv_device v = pv_device v0 \<and> (\<forall>r. pv_blit v = Some r \<longrightarrow> plus_placed rnd (pv_device v0) r)"
  using assms
proof (induction ops arbitrary: v0)
  case (Cons op ops)
  let ?v1 = "plus_do rnd img op v0"
  have dev: "pv_device ?v1 = pv_device v0" by (rule plus_do_device)
  have frame: "plus_placed rnd (pv_device v0) r" if "op = Do_Frame r" for r using Cons.prems(1) that by simp
  obtain dw dh where "pv_device v0 = (dw, dh)" by (rule prod.exhaust)
  then have "textures_ok ?v1" using Cons.prems(2) frame plus_placed_shape(1) by (intro plus_do_ok) auto
  moreover have "\<forall>r. pv_blit ?v1 = Some r \<longrightarrow> plus_placed rnd (pv_device ?v1) r"
    using plus_do_blit Cons.prems(3) frame unfolding dev by blast
  moreover have "\<forall>r. Do_Frame r \<in> set ops \<longrightarrow> plus_placed rnd (pv_device ?v1) r" using Cons.prems(1) by (simp add: dev)
  moreover have "v = fold (plus_do rnd img) ops ?v1" using Cons.prems(4) by simp
  ultimately have "textures_ok v \<and> pv_device v = pv_device ?v1 \<and> (\<forall>r. pv_blit v = Some r \<longrightarrow> plus_placed rnd (pv_device ?v1) r)"
    by (intro Cons.IH)
  then show ?case unfolding dev .
qed simp

text \<open>C20: On the rg35xxplus a frame that selectScaler placed, that is no larger than the screen and is not cropped on the panel, is flipped whole and
  onto the screen. Whatever was drawn, flipped and set before, of
  sharpness, effects and overlays, as long as that holds of all frames: the texture has the size of the frame, with crisp scaling the enlarged texture
  exists, the part that is copied is exactly the whole of the one or the other, and it is drawn inside the screen. Where the renderer asks for
  an aspect, the picture has the height of the screen and a width of that aspect up to a pixel, or the width of the screen and a height of the rounded reciprocal
  up to a pixel.\<close>

theorem plus_flip_inside:
  assumes "double_rounding rnd" "v0 = plus_initVideo state dims" "v = fold (plus_do rnd img) ops v0"
    and "\<forall>r. Do_Frame r \<in> set ops \<longrightarrow> plus_placed rnd (pv_device v0) r" "pv_blit v = Some r" "pv_device v = (dw, dh)"
    and "t = (if pv_sharpness v = SHARPNESS_CRISP then Target_Texture else Frame_Texture)"
    and "dims_t = (if pv_sharpness v = SHARPNESS_CRISP then pv_target v else Some (pv_texture v))"
    and "flip_target rnd (dw, dh) r = (x, y, w, h)"
  shows "\<exists>tw th. pv_texture v = (true_w r, true_h r) \<and> dims_t = Some (tw, th) \<and> flip_source v r = (0, 0, tw, th)
    \<and> inside (x, y, w, h) (0, 0, dw, dh) \<and> (0 < r_aspect r \<longrightarrow> h = dh \<and> \<bar>of_int w - of_int dh * r_aspect r\<bar> \<le> 1
         \<or> w = dw \<and> \<bar>of_int h - of_int dw * rnd (1 / r_aspect r)\<bar> \<le> 1)
    \<and> show_rect (v\<lparr>pv_hdmi := on_hdmi\<rparr>) t (0, 0, tw, th) (x, y, w, h) \<in> set (fst (plus_flip rnd img on_hdmi pad ow made v))"
proof -
  have ok: "textures_ok v" "plus_placed rnd (dw, dh) r" and dims: "(dw, dh) \<in> {(640, 480), (1280, 720)}"
    using plus_session_ok [OF assms(4) _ _ assms(3)] init_ok [of state dims] assms(2,5,6) by auto
  note shape = plus_placed_shape(1) [OF ok(2)]
  define k where "k = (if pv_sharpness v = SHARPNESS_CRISP then pv_hard_scale v else 1)"
  have tex: "pv_texture v = (true_w r, true_h r)" "dims_t = Some (true_w r * k, true_h r * k)"
    using ok(1) assms(5,8) by (auto simp: textures_ok_def k_def)
  have src: "flip_source v r = (0, 0, true_w r * k, true_h r * k)" using shape by (simp add: flip_source_def k_def Let_def)
  have "inside (x, y, w, h) (0, 0, dw, dh)" using flip_target_inside [OF assms(1) dims ok(2)] assms(9) by simp
  moreover note flip_target_near [OF assms(1) dims _ assms(9)]
  moreover have "show_rect (v\<lparr>pv_hdmi := on_hdmi\<rparr>) t (flip_source v r) (x, y, w, h) \<in> set (fst (plus_flip rnd img on_hdmi pad ow made v))"
    using assms(5-7,9) by (simp add: plus_flip_def flip_source_def Let_def)
  ultimately show ?thesis using tex src by auto
qed

text \<open>A frame larger than the screen in the scaling Native gets the scale 0, and on this platform an empty rectangle.\<close>

lemma forced_crop_empty:
  assumes "r = rend (selectScaler rnd (plus_device (640, 480)) ratio 640 512 1280 vv)" "scaling_mode vv = SCALE_NATIVE"
  shows "flip_target rnd (640, 480) r = (320, 240, 0, 0)"
proof -
  have "cdiv 640 640 = 1" "cdiv 480 512 = 0" "cdiv 640 2 = 320" "cdiv 480 2 = 240" by code_simp+
  then show ?thesis using assms by (simp add: selectScaler_def place_def plus_device_def forced_crop_def flip_target_def Let_def)
qed

subsection \<open>The pattern follows the options\<close>

definition fx_step :: "(string \<Rightarrow> rgba list option) \<Rightarrow> int \<times> effect \<times> u32 \<Rightarrow> fx_context \<Rightarrow> fx_context" where
  \<comment> \<open>a frame with this scale, effect and colour\<close>
  "fx_step img s x = (case s of (scale, t, c) \<Rightarrow> updateEffect img (x\<lparr>fx_next_scale := scale, fx_next_type := t, fx_next_color := c\<rparr>))"

fun steady :: "int \<Rightarrow> u32 \<Rightarrow> (int \<times> effect \<times> u32) list \<Rightarrow> bool" where
  \<comment> \<open>the scale and the colour do not change in a frame without an effect\<close>
  "steady scale c [] \<longleftrightarrow> True"
| "steady scale c ((scale', t, c') # ss) \<longleftrightarrow> (t = EFFECT_NONE \<longrightarrow> scale' = scale \<and> c' = c) \<and> steady scale' c' ss"

definition fx_ok :: "(string \<Rightarrow> rgba list option) \<Rightarrow> fx_context \<Rightarrow> bool" where
  "fx_ok img x \<longleftrightarrow> (fx_live_type x \<noteq> EFFECT_NONE \<longrightarrow> fx_texture x = load_effect img (fx_live_type x) (fx_scale x) (fx_color x))
     \<and> (fx_type x \<noteq> EFFECT_NONE \<longrightarrow> fx_live_type x = fx_type x)"

lemma load_effect_read:
  assumes "\<forall>p. img p \<noteq> None"
  shows "\<exists>l. load_effect img t scale c = Some l"
proof -
  obtain path opacity where "effect_picture t scale = (path, opacity)" by (rule prod.exhaust)
  moreover obtain ps where "img path = Some ps" using assms by (metis option.exhaust)
  ultimately show ?thesis by (simp add: load_effect_def)
qed

lemma fx_step_ok:
  assumes "\<forall>p. img p \<noteq> None" "fx_ok img x" "t = EFFECT_NONE \<longrightarrow> scale = fx_scale x \<and> c = fx_color x"
  shows "fx_ok img (fx_step img (scale, t, c) x)" "fx_type (fx_step img (scale, t, c) x) = t"
    "fx_scale (fx_step img (scale, t, c) x) = scale" "fx_color (fx_step img (scale, t, c) x) = c"
proof -
  obtain l where "load_effect img t scale c = Some l" using load_effect_read [OF assms(1)] by blast
  then show "fx_ok img (fx_step img (scale, t, c) x)" "fx_type (fx_step img (scale, t, c) x) = t"
    "fx_scale (fx_step img (scale, t, c) x) = scale" "fx_color (fx_step img (scale, t, c) x) = c"
    using assms(2,3) by (auto simp: fx_ok_def fx_step_def updateEffect_def Let_def)
qed

lemma fx_steps_ok:
  assumes "\<forall>p. img p \<noteq> None" "fx_ok img x" "steady (fx_scale x) (fx_color x) ss" "ss \<noteq> []" "last ss = (scale, t, c)"
  shows "fx_ok img (fold (fx_step img) ss x) \<and> fx_type (fold (fx_step img) ss x) = t \<and> fx_scale (fold (fx_step img) ss x) = scale
    \<and> fx_color (fold (fx_step img) ss x) = c"
  using assms(2-5)
proof (induction ss arbitrary: x)
  case (Cons s ss)
  obtain scale' t' c' where s: "s = (scale', t', c')" by (rule prod_cases3)
  note step = fx_step_ok [OF assms(1) Cons.prems(1), of t' scale' c']
  show ?case
  proof (cases "ss = []")
    case True
    then show ?thesis using Cons.prems s step by simp
  next
    case False
    then show ?thesis using Cons.IH [of "fx_step img s x"] Cons.prems s step by simp
  qed
qed simp

text \<open>C21: The pattern drawn over a game is the one of the present effect, scale and colour: after any frames the texture is the picture for
  the effect and scale of the last frame, with its opacity and coloured for it, provided the scale and colour do not change in a
  frame without an effect and every picture can be read.\<close>

theorem effect_follows:
  assumes "\<forall>p. img p \<noteq> None" "steady 1 0 ss" "ss \<noteq> []" "last ss = (scale, t, c)" "t \<noteq> EFFECT_NONE"
  shows "fx_texture (fold (fx_step img) ss fx_start) = load_effect img t scale c"
proof -
  have "fx_ok img fx_start" "fx_scale fx_start = 1" "fx_color fx_start = 0" by (simp_all add: fx_ok_def fx_start_def)
  then show ?thesis using fx_steps_ok [OF assms(1), of fx_start ss scale t c] assms(2-5) by (simp add: fx_ok_def)
qed

text \<open>Without that proviso it is not: when the scale changes while the effect is off, the old pattern is taken for the new one.\<close>

lemma effect_stale:
  assumes "\<forall>p. img p \<noteq> None"
  shows "fx_texture (fold (fx_step img) [(3, EFFECT_GRID, 0), (4, EFFECT_NONE, 0), (4, EFFECT_GRID, 0)] fx_start) = load_effect img EFFECT_GRID 3 0"
proof -
  obtain l where "load_effect img EFFECT_GRID 3 0 = Some l" using load_effect_read [OF assms] by blast
  then show ?thesis by (simp add: fx_step_def updateEffect_def fx_start_def Let_def)
qed

theorem effect_follows_witness:
  "fx_texture (fold (fx_step (\<lambda>p. Some [(1, 2, 3, 255)])) [(3, EFFECT_GRID, 0), (3, EFFECT_NONE, 0), (4, EFFECT_GRID, 0x07E0)] fx_start)
    = Some ([(0, 255, 0, 255)], 144)"
proof -
  have "load_effect (\<lambda>p. Some [(1, 2, 3, 255)]) EFFECT_GRID 4 0x07E0 = Some ([(0, 255, 0, 255)], 144)" by code_simp
  then show ?thesis
    using effect_follows [where img = "\<lambda>p. Some [(1, 2, 3, 255)]" and ss = "[(3, EFFECT_GRID, 0), (3, EFFECT_NONE, 0), (4, EFFECT_GRID, 0x07E0)]"
      and scale = 4 and t = EFFECT_GRID and c = "0x07E0"]
    by simp
qed

definition demo_shown :: "video \<Rightarrow> renderer" where
  "demo_shown vv = rend (selectScaler id (plus_device (640, 480)) (4 / 3) 256 224 512 (vv\<lparr>scaling_mode := SCALE_ASPECT\<rparr>))"

definition demo_crisp :: "video \<Rightarrow> plus_video" where
  "demo_crisp vv = fold (plus_do id (\<lambda>p. None)) [Do_Sharpness SHARPNESS_CRISP, Do_Frame (demo_shown vv)] (plus_initVideo 0 (640, 480))"

lemma demo_crisp_facts:
  "plus_placed id (640, 480) (demo_shown vv)" "pv_device (plus_initVideo 0 (640, 480)) = (640, 480)" "pv_device (demo_crisp vv) = (640, 480)"
  "pv_blit (demo_crisp vv) = Some (demo_shown vv)" "pv_sharpness (demo_crisp vv) = SHARPNESS_CRISP"
  "true_w (demo_shown vv) = 256" "true_h (demo_shown vv) = 224" "pv_hard_scale (demo_crisp vv) = 2"
proof -
  show "plus_placed id (640, 480) (demo_shown vv)"
    unfolding plus_placed_def demo_shown_def
    by (intro exI [of _ "4 / 3"] exI [of _ 256] exI [of _ 224] exI [of _ 512] exI [of _ "vv\<lparr>scaling_mode := SCALE_ASPECT\<rparr>"]) simp
  show dev: "pv_device (plus_initVideo 0 (640, 480)) = (640, 480)"
    by (simp add: plus_initVideo_def FIXED_WIDTH_def FIXED_HEIGHT_def Let_def)
  then show "pv_device (demo_crisp vv) = (640, 480)" by (simp add: demo_crisp_def plus_do_device del: plus_do.simps)
  show sizes: "true_w (demo_shown vv) = 256" "true_h (demo_shown vv) = 224" by (simp_all add: demo_shown_def selectScaler_def Let_def)
  show "pv_blit (demo_crisp vv) = Some (demo_shown vv)" "pv_sharpness (demo_crisp vv) = SHARPNESS_CRISP" "pv_hard_scale (demo_crisp vv) = 2"
    using sizes by (simp_all add: demo_crisp_def plus_initVideo_def plus_setSharpness_def plus_blitRenderer_def resizeVideo_def FIXED_PITCH_def
      FIXED_WIDTH_def FIXED_HEIGHT_def Let_def)
qed

theorem plus_flip_inside_witness:
  "\<forall>vv. \<exists>x y w h. flip_target id (640, 480) (demo_shown vv) = (x, y, w, h) \<and> inside (x, y, w, h) (0, 0, 640, 480)
    \<and> flip_source (demo_crisp vv) (demo_shown vv) = (0, 0, 512, 448)"
proof
  fix vv
  obtain x y w h where t: "flip_target id (640, 480) (demo_shown vv) = (x, y, w, h)" by (rule prod_cases4)
  have frames: "\<forall>r. Do_Frame r \<in> set [Do_Sharpness SHARPNESS_CRISP, Do_Frame (demo_shown vv)]
      \<longrightarrow> plus_placed id (pv_device (plus_initVideo 0 (640, 480))) r"
    using demo_crisp_facts(1,2) by simp
  have "inside (x, y, w, h) (0, 0, 640, 480)" "\<exists>tw th. flip_source (demo_crisp vv) (demo_shown vv) = (0, 0, tw, th)"
    using plus_flip_inside [OF double_rounding_id refl demo_crisp_def frames demo_crisp_facts(4,3) refl refl t,
        where on_hdmi = False and pad = 0 and ow = 0 and made = False] by auto
  moreover have "flip_source (demo_crisp vv) (demo_shown vv) = (src_x (demo_shown vv) * 2, src_y (demo_shown vv) * 2, 512, 448)"
    using plus_placed_shape(1) [OF demo_crisp_facts(1), of vv] demo_crisp_facts(5-8) by (simp add: flip_source_def Let_def)
  ultimately show "\<exists>x y w h. flip_target id (640, 480) (demo_shown vv) = (x, y, w, h) \<and> inside (x, y, w, h) (0, 0, 640, 480)
      \<and> flip_source (demo_crisp vv) (demo_shown vv) = (0, 0, 512, 448)" using t by auto
qed

end
