(* ===== verification/ToolScreen.thy ===== *)
theory ToolScreen
  imports Screen Wifi Clock Picker
begin

text \<open>
  What the tools draw: the date of the clock with the bar under the selected field (\<open>clock/clock.c\<close>), the list of networks
  (\<open>wifi/wifi.c\<close>) and the two on-screen keyboards (\<open>wifi.c\<close>, \<open>minarch/menu.c\<close>), with the places where they leave the screen.
\<close>

subsection \<open>The clock\<close>

definition CHAR_SLASH :: int where "CHAR_SLASH = 10"
definition CHAR_COLON :: int where "CHAR_COLON = 11"

type_synonym clock_digit = "int \<times> int \<times> int" \<comment> \<open>a column of the digits' surface, copied to a position\<close>

definition blitNumber :: "int \<Rightarrow> int \<Rightarrow> int \<Rightarrow> clock_digit list \<times> int" where
  "blitNumber num x y =
     (let (ds, num, x) =
        (if num > 999 then
           (let n = cdiv num 1000; num = num - n * 1000; m = cdiv num 100; num = num - m * 100
            in ([(n, x, y), (m, x + SCALE1 10, y)], num, x + SCALE1 10 + SCALE1 10))
         else ([], num, x));
          n = cdiv num 10; num = num - n * 10
      in (ds @ [(n, x, y), (num, x + SCALE1 10, y)], x + SCALE1 10 + SCALE1 10))"

definition shown_hour :: "clock \<Rightarrow> int" where
  "shown_hour c = (if show_24hour c then hour c else if hour c = 0 then 12 else if hour c > 12 then hour c - 12 else hour c)"

definition clock_digits :: "clock \<Rightarrow> int \<Rightarrow> int \<Rightarrow> clock_digit list \<times> int" where
  "clock_digits c x y =
     (let (d1, x) = blitNumber (year c) x y;
          d2 = (CHAR_SLASH, x, y); (d3, x) = blitNumber (month c) (x + SCALE1 10) y;
          d4 = (CHAR_SLASH, x, y); (d5, x) = blitNumber (day c) (x + SCALE1 10) y;
          (d6, x) = blitNumber (shown_hour c) (x + SCALE1 10) y;
          d7 = (CHAR_COLON, x, y); (d8, x) = blitNumber (minute c) (x + SCALE1 10) y;
          d9 = (CHAR_COLON, x, y); (d10, x) = blitNumber (seconds c) (x + SCALE1 10) y
      in (d1 @ [d2] @ d3 @ [d4] @ d5 @ d6 @ [d7] @ d8 @ [d9] @ d10, x))"

definition clock_x :: "screen_env \<Rightarrow> clock \<Rightarrow> int" where
  "clock_x e c = half (screen_w e - (if show_24hour c then SCALE1 188 else SCALE1 223))"

definition clock_y :: int where
  "clock_y = SCALE1 (cdiv (cdiv FIXED_HEIGHT FIXED_SCALE - PILL_SIZE - 16) 2)"

definition ampm :: "clock \<Rightarrow> string" where
  "ampm c = (if hour c < 12 then ''AM'' else ''PM'')"

definition cursor_bar :: "screen_env \<Rightarrow> clock \<Rightarrow> (int \<times> int) option" where
  \<comment> \<open>where it starts and how wide it is; no result for the width of AM or PM when neither is drawn, an uninitialised variable\<close>
  "cursor_bar e c =
     (let x = (if cursor c \<noteq> CURSOR_YEAR then clock_x e c + SCALE1 50 + (cursor c - 1) * SCALE1 30 else clock_x e c) in
      if cursor c = CURSOR_YEAR then Some (x, SCALE1 40)
      else if cursor c = CURSOR_AMPM then (if show_24hour c then None else Some (x, text_w e font_large (ampm c) + SCALE1 2))
      else Some (x, SCALE1 20))"

definition clock_screen :: "screen_env \<Rightarrow> hardware \<Rightarrow> int \<Rightarrow> clock \<Rightarrow> (draw list \<times> clock_digit list) option" where
  \<comment> \<open>after \<open>validate\<close>\<close>
  "clock_screen e hw setting c =
     (let (digits, x) = clock_digits c (clock_x e c) clock_y in
      map_option (\<lambda>(bx, bw).
        (fst (GFX_blitHardwareGroup e hw setting)
         @ (if setting \<noteq> 0 then GFX_blitHardwareHints e setting
            else fst (GFX_blitButtonGroup e [(''SELECT'', if show_24hour c then ''12 HOUR'' else ''24 HOUR'')] 0 False))
         @ fst (GFX_blitButtonGroup e [(''B'', ''CANCEL''), (''A'', ''SET'')] 1 True)
         @ (if show_24hour c then [] else [Glyphs font_large (ampm c) RGB_WHITE (x + SCALE1 10) (clock_y - SCALE1 3)])
         @ GFX_blitPill ASSET_UNDERLINE (bx, clock_y + SCALE1 19, bw, 0), digits))
        (cursor_bar e c))"

lemma blitNumber_small: "0 \<le> n \<Longrightarrow> n \<le> 99 \<Longrightarrow> blitNumber n x y = ([(n div 10, x, y), (n mod 10, x + 20, y)], x + 40)"
  by (simp add: blitNumber_def cdiv_nonneg layout_defs minus_div_mult_eq_mod [symmetric] Let_def)

lemma blitNumber_year:
  "1000 \<le> n \<Longrightarrow> n \<le> 9999 \<Longrightarrow>
    blitNumber n x y = ([(n div 1000, x, y), (n div 100 mod 10, x + 20, y), (n div 10 mod 10, x + 40, y), (n mod 10, x + 60, y)], x + 80)"
proof -
  assume n: "1000 \<le> n" "n \<le> 9999"
  have k: "n - n div 1000 * 1000 = n mod 1000" by (simp add: minus_div_mult_eq_mod)
  have sub: "n mod (a * b) - n mod (a * b) div a * a = n mod a" "n mod (a * b) div a = n div a mod b" if "0 < a" "0 < b" for a b :: int
    using that by (simp_all add: minus_div_mult_eq_mod mod_mod_cancel zmod_zmult2_eq)
  note h = sub [of 100 10, simplified] and t = sub [of 10 10, simplified]
  have "0 \<le> n mod 1000" "0 \<le> n mod 100" by simp_all
  then show ?thesis using n k h t by (simp add: blitNumber_def cdiv_nonneg layout_defs Let_def)
qed

definition two :: "int \<Rightarrow> int list" where "two n = [n div 10, n mod 10]"

definition date_digits :: "clock \<Rightarrow> int list" where
  \<comment> \<open>YYYY/MM/DD hh:mm:ss\<close>
  "date_digits c =
     [year c div 1000, year c div 100 mod 10, year c div 10 mod 10, year c mod 10, CHAR_SLASH] @ two (month c) @ [CHAR_SLASH] @ two (day c)
     @ two (shown_hour c) @ [CHAR_COLON] @ two (minute c) @ [CHAR_COLON] @ two (seconds c)"

definition digit_columns :: "int list" where
  "digit_columns = [0 .. 9] @ [11 .. 18]"

definition field_columns :: "int \<Rightarrow> int \<times> int" where
  \<comment> \<open>the first column of a field of the date and how many it has\<close>
  "field_columns k = [(0, 4), (5, 2), (8, 2), (11, 2), (14, 2), (17, 2)] ! nat k"

text \<open>The date is drawn with the bar under the field the buttons change: the digits are those of year, month, day, hour (of twelve or
  twenty-four), minute and second in columns of their own, and the bar covers exactly the columns of the selected field, or the letters
  for morning and afternoon behind the last column.\<close>

lemma clock_shows_date:
  assumes "valid_date c" "0 \<le> cursor c" "cursor c \<le> (if show_24hour c then CURSOR_SECOND else CURSOR_AMPM)" "x0 = clock_x e c"
  shows "\<exists>draws bx bw. clock_screen e hw setting c = Some (draws, map2 (\<lambda>d k. (d, x0 + 20 * k, clock_y)) (date_digits c) digit_columns)
    \<and> set (GFX_blitPill ASSET_UNDERLINE (bx, clock_y + 38, bw, 0)) \<subseteq> set draws
    \<and> (if cursor c = CURSOR_AMPM then Glyphs font_large (ampm c) RGB_WHITE bx (clock_y - 6) \<in> set draws \<and> bw = text_w e font_large (ampm c) + 4
       else (bx, bw) = (case field_columns (cursor c) of (k, n) \<Rightarrow> (x0 + 20 * k, 20 * n)))"
proof -
  have date: "1000 \<le> year c" "year c \<le> 9999" "0 \<le> month c" "month c \<le> 99" "0 \<le> day c" "day c \<le> 99" "0 \<le> shown_hour c" "shown_hour c \<le> 99"
    "0 \<le> minute c" "minute c \<le> 99" "0 \<le> seconds c" "seconds c \<le> 99"
    using assms(1) by (auto simp: valid_date_def shown_hour_def days_in_def split: if_splits)
  have columns: "digit_columns = [0, 1, 2, 3, 4, 5, 6, 7, 8, 9, 11, 12, 13, 14, 15, 16, 17, 18]" by code_simp
  have digits: "clock_digits c x0 clock_y = (map2 (\<lambda>d k. (d, x0 + 20 * k, clock_y)) (date_digits c) digit_columns, x0 + 380)"
    using date unfolding columns
    by (simp add: clock_digits_def blitNumber_small blitNumber_year date_digits_def two_def layout_defs)
  have "cursor c \<in> {0, 1, 2, 3, 4, 5, 6}" using assms(2,3) by (auto split: if_splits)
  then obtain bx bw where bar: "cursor_bar e c = Some (bx, bw)"
    "if cursor c = CURSOR_AMPM then \<not> show_24hour c \<and> bx = x0 + 400 \<and> bw = text_w e font_large (ampm c) + 4
     else (bx, bw) = (case field_columns (cursor c) of (k, n) \<Rightarrow> (x0 + 20 * k, 20 * n))"
    using assms(3,4) by (auto simp: cursor_bar_def field_columns_def layout_defs Let_def split: if_splits)
  define front where "front = fst (GFX_blitHardwareGroup e hw setting)
     @ (if setting \<noteq> 0 then GFX_blitHardwareHints e setting
        else fst (GFX_blitButtonGroup e [(''SELECT'', if show_24hour c then ''12 HOUR'' else ''24 HOUR'')] 0 False))
     @ fst (GFX_blitButtonGroup e [(''B'', ''CANCEL''), (''A'', ''SET'')] 1 True)"
  let ?letters = "if show_24hour c then [] else [Glyphs font_large (ampm c) RGB_WHITE (x0 + 400) (clock_y - 6)]"
  let ?draws = "front @ ?letters @ GFX_blitPill ASSET_UNDERLINE (bx, clock_y + 38, bw, 0)"
  have pill: "set (GFX_blitPill ASSET_UNDERLINE (bx, clock_y + 38, bw, 0)) \<subseteq> set ?draws" by auto
  have "clock_screen e hw setting c = Some (?draws, map2 (\<lambda>d k. (d, x0 + 20 * k, clock_y)) (date_digits c) digit_columns)"
    using digits bar(1) by (simp add: clock_screen_def assms(4) [symmetric] front_def SCALE1_def FIXED_SCALE_def)
  then show ?thesis using bar(2) pill
    by (intro exI [of _ ?draws] exI [of _ bx] exI [of _ bw] conjI) (assumption | simp)+
qed

lemma clock_screen_ampm: "show_24hour c \<Longrightarrow> cursor c = CURSOR_AMPM \<Longrightarrow> clock_screen e hw setting c = None"
  by (simp add: clock_screen_def cursor_bar_def split: prod.splits)

definition shows_date :: "screen_env \<Rightarrow> clock \<Rightarrow> (draw list \<times> clock_digit list) option \<Rightarrow> bool" where
  \<comment> \<open>the date in its columns and the bar under the selected field\<close>
  "shows_date e c screen \<longleftrightarrow>
     (\<exists>draws bx bw. screen = Some (draws, map2 (\<lambda>d k. (d, clock_x e c + 20 * k, clock_y)) (date_digits c) digit_columns)
      \<and> set (GFX_blitPill ASSET_UNDERLINE (bx, clock_y + 38, bw, 0)) \<subseteq> set draws
      \<and> (if cursor c = CURSOR_AMPM then Glyphs font_large (ampm c) RGB_WHITE bx (clock_y - 6) \<in> set draws \<and> bw = text_w e font_large (ampm c) + 4
         else (bx, bw) = (case field_columns (cursor c) of (k, n) \<Rightarrow> (clock_x e c + 20 * k, 20 * n))))"

text \<open>C39: however the fields are changed, after every frame the clock holds a real date and time between 1970 and 2100 (month lengths
  and leap years included) with the cursor on a field, so that what is saved is one, and it shows this date: the digits of year, month,
  day, hour (of twelve or twenty-four), minute and second in columns of their own and a bar under exactly the columns of the field the
  buttons change, or under the letters for morning and afternoon; except that a tool started with the 24-hour clock lets the cursor reach those
  letters, which are not drawn, and then the width of the bar is an uninitialised variable.\<close>

theorem clock_session:
  assumes "start_date (clock_start y m d h mi s is24)" "evs \<noteq> []" "c = clock_run evs (clock_start y m d h mi s is24)"
  shows "valid_date c \<and> cursor_ok c \<and> validate c = c
    \<and> (if show_24hour c \<and> cursor c = CURSOR_AMPM then clock_screen e hw setting c = None else shows_date e c (clock_screen e hw setting c))"
proof -
  have ok: "valid_date c \<and> cursor_ok c \<and> validate c = c" using clock_always_valid [OF assms(1,2)] assms(3) by simp
  have "shows_date e c (clock_screen e hw setting c)" if "\<not> (show_24hour c \<and> cursor c = CURSOR_AMPM)"
    unfolding shows_date_def using ok that by (intro clock_shows_date) (auto simp: cursor_ok_def)
  then show ?thesis using ok clock_screen_ampm by auto
qed

theorem clock_session_witness:
  "\<forall>e hw setting. shows_date e (clock_run [(press_up, False)] (clock_start 2024 2 29 23 59 60 True))
     (clock_screen e hw setting (clock_run [(press_up, False)] (clock_start 2024 2 29 23 59 60 True)))"
proof (intro allI)
  fix e hw setting
  have "start_date (clock_start 2024 2 29 23 59 60 True)" by (simp add: start_date_def clock_start_def)
  moreover have "cursor (clock_run [(press_up, False)] (clock_start 2024 2 29 23 59 60 True)) = 0" by code_simp
  ultimately show "shows_date e (clock_run [(press_up, False)] (clock_start 2024 2 29 23 59 60 True))
     (clock_screen e hw setting (clock_run [(press_up, False)] (clock_start 2024 2 29 23 59 60 True)))"
    using clock_session [of 2024 2 29 23 59 60 True "[(press_up, False)]" _ e hw setting] by simp
qed

subsection \<open>Keyboards\<close>

definition key_text :: "char \<Rightarrow> string" where
  "key_text k = (if k = CHR '' '' then ''SP'' else [k])"

definition key_draws :: "screen_env \<Rightarrow> int \<Rightarrow> int \<Rightarrow> bool \<Rightarrow> char \<Rightarrow> draw list" where
  "key_draws e x y on k =
     (let cw = SCALE1 30; ch = SCALE1 30; s = key_text k in
      (if on then GFX_blitPill ASSET_WHITE_PILL (x, y, cw, ch) else [])
      @ [Glyphs font_small s RGB_WHITE (x + half (cw - text_w e font_small s)) (y + half (ch - text_h e font_small s))])"

definition keys_y :: "screen_env \<Rightarrow> nat \<Rightarrow> int" where
  "keys_y e r = SCALE1 (PADDING e * 2 + PILL_SIZE) + int r * SCALE1 30"

definition key_rows :: "screen_env \<Rightarrow> (nat \<Rightarrow> int) \<Rightarrow> string list \<Rightarrow> keyboard \<Rightarrow> draw list list list" where
  \<comment> \<open>where each row starts; for each row the keys\<close>
  "key_rows e gx kb k =
     map (\<lambda>r. map (\<lambda>c. key_draws e (gx r + int c * SCALE1 30) (keys_y e r) (int r = cr k \<and> int c = cc k) (kb ! r ! c)) [0 ..< length (kb ! r)])
       [0 ..< length kb]"

definition keyboard_screen :: "screen_env \<Rightarrow> (nat \<Rightarrow> int) \<Rightarrow> string list \<Rightarrow> string \<Rightarrow> keyboard \<Rightarrow> draw list option" where
  "keyboard_screen e gx kb prompt k =
     map_option (\<lambda>text. text @ concat (concat (key_rows e gx kb k))
         @ fst (GFX_blitButtonGroup e [(''A'', ''ADD''), (''B'', ''DEL'')] 0 False) @ fst (GFX_blitButtonGroup e [(''START'', ''SAVE'')] 1 True))
       (GFX_blitText e font_medium (if typed k \<noteq> [] then typed k @ ''_'' else prompt) 0 RGB_WHITE
         (Some (SCALE1 (PADDING e), SCALE1 (PADDING e), screen_w e - SCALE1 (PADDING e * 2), SCALE1 PILL_SIZE)))"

definition Menu_keys_x :: "screen_env \<Rightarrow> nat \<Rightarrow> int" where
  "Menu_keys_x e r = half (screen_w e - 10 * SCALE1 30)"

definition Wifi_keys_x :: "screen_env \<Rightarrow> nat \<Rightarrow> int" where
  "Wifi_keys_x e r = half (screen_w e - int (length (KB ! r)) * SCALE1 30)"

definition Menu_keyboard_screen :: "screen_env \<Rightarrow> keyboard \<Rightarrow> draw list option" where
  "Menu_keyboard_screen e k = keyboard_screen e (Menu_keys_x e) COLL_KB ''Enter collection name'' k"

definition Wifi_keyboard_screen :: "screen_env \<Rightarrow> keyboard \<Rightarrow> draw list option" where
  "Wifi_keyboard_screen e k = keyboard_screen e (Wifi_keys_x e) KB ''Enter password'' k"

definition key_rect :: "screen_env \<Rightarrow> (nat \<Rightarrow> int) \<Rightarrow> nat \<Rightarrow> nat \<Rightarrow> rect" where
  "key_rect e gx r c = (gx r + int c * 60, keys_y e r, 60, 60)"

lemma key_draws_inside:
  assumes "0 \<le> text_w e font_small (key_text k)" "text_w e font_small (key_text k) \<le> 60" "text_h e font_small (key_text k) \<le> 60"
  shows "draws_inside e (key_draws e x y on k) (x, y, 60, 60)"
  using assms half_bounds [of "60 - text_w e font_small (key_text k)"] half_bounds [of "60 - text_h e font_small (key_text k)"]
  by (auto simp: key_draws_def layout_defs Let_def intro!: blitPill_inside)

text \<open>The keyboard of the menu fits a screen of 640 by 480: every key is drawn in its square, on the screen, above the hints and
  apart from the other keys.\<close>

lemma Menu_keyboard_fits:
  assumes "640 \<le> screen_w e" "0 \<le> PADDING e" "SCALE1 (PADDING e * 3 + PILL_SIZE * 2) + 240 \<le> screen_h e" "r < 4" "c < length (COLL_KB ! r)"
    and "\<forall>s. 0 \<le> text_w e font_small s \<and> text_w e font_small s \<le> 60 \<and> text_h e font_small s \<le> 60"
  shows "draws_inside e (key_rows e (Menu_keys_x e) COLL_KB k ! r ! c) (key_rect e (Menu_keys_x e) r c)"
    and "inside (key_rect e (Menu_keys_x e) r c) (0, 0, screen_w e, screen_h e)"
    and "Draw.apart (key_rect e (Menu_keys_x e) r c) (group_rect e hints right)"
    and "(r, c) \<noteq> (r', c') \<Longrightarrow> Draw.apart (key_rect e (Menu_keys_x e) r c) (key_rect e (Menu_keys_x e) r' c')"
proof -
  have "list_all (\<lambda>row. length row \<le> 10) COLL_KB" "length COLL_KB = 4" by code_simp+
  then have c: "int c \<le> 9" "r < length COLL_KB" using assms(4,5) by (auto simp: list_all_length)
  have r: "int r \<le> 3" using assms(4) by simp
  show "draws_inside e (key_rows e (Menu_keys_x e) COLL_KB k ! r ! c) (key_rect e (Menu_keys_x e) r c)"
    using c(2) assms(5,6) by (simp add: key_rows_def key_rect_def key_draws_inside layout_defs)
  have x: "0 \<le> Menu_keys_x e r" "Menu_keys_x e r + 600 \<le> screen_w e"
    using assms(1) half_bounds [of "screen_w e - 600"] by (simp_all add: Menu_keys_x_def layout_defs)
  then show "inside (key_rect e (Menu_keys_x e) r c) (0, 0, screen_w e, screen_h e)"
    using assms(2,3) c(1) r by (simp add: key_rect_def keys_y_def layout_defs)
  show "Draw.apart (key_rect e (Menu_keys_x e) r c) (group_rect e hints right)"
    using assms(3) r by (simp add: key_rect_def keys_y_def group_rect_def layout_defs)
  show "Draw.apart (key_rect e (Menu_keys_x e) r c) (key_rect e (Menu_keys_x e) r' c')" if "(r, c) \<noteq> (r', c')"
    using that by (auto simp: key_rect_def keys_y_def Menu_keys_x_def layout_defs)
qed

text \<open>The one for passwords does not: on that screen the first letter of each row of letters is left of the screen, and the keys of the last row lie
  on the hints.\<close>

lemma Wifi_keyboard_outside:
  assumes "screen_w e = 640" "screen_h e = 480" "PADDING e = 10"
  shows "r < 4 \<Longrightarrow> Draw.apart (key_rect e (Wifi_keys_x e) r 0) (0, 0, screen_w e, screen_h e)"
    and "r < 4 \<Longrightarrow> Draw.apart (key_rect e (Wifi_keys_x e) r 12) (0, 0, screen_w e, screen_h e)"
    and "\<not> Draw.apart (key_rect e (Wifi_keys_x e) 5 4) (20, 400, 100, 60)"
proof -
  have KB: "map length KB = [13, 13, 13, 13, 10, 17]" by code_simp
  have rows: "length (KB ! r) = map length KB ! r" if "r < 6" for r
  proof -
    have "length KB = 6" by code_simp
    then show ?thesis using that by simp
  qed
  have letters: "length (KB ! r) = 13" if "r < 4"
  proof -
    have "r = 0 \<or> r = 1 \<or> r = 2 \<or> r = 3" using that by arith
    then show ?thesis using rows [of r] that by (elim disjE) (simp_all add: KB)
  qed
  have last: "length (KB ! 5) = 17" using rows [of 5] by (simp add: KB)
  show "r < 4 \<Longrightarrow> Draw.apart (key_rect e (Wifi_keys_x e) r 0) (0, 0, screen_w e, screen_h e)"
    "r < 4 \<Longrightarrow> Draw.apart (key_rect e (Wifi_keys_x e) r 12) (0, 0, screen_w e, screen_h e)"
    using assms letters by (simp_all add: key_rect_def Wifi_keys_x_def layout_defs half_def)
  show "\<not> Draw.apart (key_rect e (Wifi_keys_x e) 5 4) (20, 400, 100, 60)"
    using assms last by (simp add: key_rect_def Wifi_keys_x_def keys_y_def layout_defs half_def)
qed

subsection \<open>The list of networks\<close>

definition wifi_y :: "screen_env \<Rightarrow> int \<Rightarrow> int" where
  "wifi_y e j = SCALE1 (PADDING e * 2 + PILL_SIZE) + j * SCALE1 PILL_SIZE"

definition wifi_bottom :: "screen_env \<Rightarrow> int" where
  "wifi_bottom e = screen_h e - SCALE1 (PADDING e * 2 + PILL_SIZE * 2)"

definition wifi_row :: "screen_env \<Rightarrow> int \<Rightarrow> bool \<Rightarrow> WifiNetwork \<Rightarrow> draw list option" where
  "wifi_row e j on n =
     (let avail = screen_w e - SCALE1 (PADDING e * 2); label = (if is_open n then [] else ''* '') @ ssid n in
      case GFX_truncateText (text_w e font_large) label avail (SCALE1 (BUTTON_PADDING * 2)) of
        None \<Rightarrow> None
      | Some (display, text_width) \<Rightarrow>
          map_option (\<lambda>t. (if on then GFX_blitPill ASSET_WHITE_PILL (SCALE1 (PADDING e), wifi_y e j, min avail text_width, SCALE1 PILL_SIZE) else []) @ t)
            (GFX_blitText e font_large display 0 RGB_WHITE
              (Some (SCALE1 (PADDING e + BUTTON_PADDING), wifi_y e j + SCALE1 4, avail - SCALE1 (BUTTON_PADDING * 2), SCALE1 PILL_SIZE))))"

definition wifi_rows :: "screen_env \<Rightarrow> wifi_list \<Rightarrow> draw list list option" where
  "wifi_rows e w =
     those (map (\<lambda>i. wifi_row e (i - list_top w) (i = wselected w) (networks w ! nat i))
       [list_top w .. min (int (length (networks w))) (list_top w + int WIFI_VISIBLE_ROWS) - 1])"

definition wifi_screen :: "screen_env \<Rightarrow> bool \<Rightarrow> string \<Rightarrow> wifi_list \<Rightarrow> draw list option" where
  \<comment> \<open>whether Wi-Fi is on, and the status line\<close>
  "wifi_screen e on status w =
     (let line = (\<lambda>f s y. GFX_blitText e f s 0 RGB_WHITE (Some (SCALE1 (PADDING e), y, screen_w e - SCALE1 (PADDING e * 2), SCALE1 PILL_SIZE))) in
      case (line font_large (if on then ''Wi-Fi: On'' else ''Wi-Fi: Off'') (SCALE1 (PADDING e)),
            (if networks w = [] then GFX_blitMessage e font_large (if on then ''No networks found'' else ''Wi-Fi is off'')
                (Some (0, wifi_y e 0, screen_w e, wifi_bottom e - wifi_y e 0))
             else map_option concat (wifi_rows e w)),
            (if status = [] then Some [] else line font_small status (wifi_bottom e))) of
        (Some header, Some body, Some st) \<Rightarrow>
          Some (header @ body @ st @ fst (GFX_blitButtonGroup e [(''Y'', ''RESCAN''), (''X'', ''ON/OFF'')] 0 False)
            @ fst (GFX_blitButtonGroup e [(''B'', ''EXIT''), (''A'', ''CONNECT'')] 1 True))
      | _ \<Rightarrow> None)"

text \<open>The window has nine rows, but on 640 by 480 only three end above the status line and the sixth lies on the hints: the selection
  can be moved to networks that are drawn below the screen.\<close>

lemma wifi_rows_outside:
  assumes "screen_w e = 640" "screen_h e = 480" "PADDING e = 10"
  shows "wifi_y e 4 > wifi_bottom e" "\<not> Draw.apart (20, wifi_y e 5, 100, 60) (20, 400, 100, 60)" "wifi_y e 7 \<ge> screen_h e"
    and "length (networks w) = 9 \<Longrightarrow> list_top w = 0 \<Longrightarrow> wselected w = 7 \<Longrightarrow> wifi_window w = w"
  using assms by (simp_all add: wifi_y_def wifi_bottom_def layout_defs wifi_window_def WIFI_VISIBLE_ROWS_def)

subsection \<open>What the tools ask and run\<close>

definition Wifi_isOn :: "fs \<Rightarrow> bool" where
  "Wifi_isOn fs = prefix_match ''up'' (trimTrailingNewlines (getFile fs ''/sys/class/net/wlan0/operstate'' [] 16))"

definition line_found :: "string \<Rightarrow> string option \<Rightarrow> bool" where
  \<comment> \<open>reading the output of a program in lines of at most 255 characters until one contains the word\<close>
  "line_found word output =
     (case output of None \<Rightarrow> False | Some s \<Rightarrow> list_ex (\<lambda>line. containsString line word) (fgets_all 256 s))"

definition Wifi_hasIPv4 :: "(string \<Rightarrow> string option) \<Rightarrow> bool" where
  "Wifi_hasIPv4 popen = line_found ''inet '' (popen ''ip -4 addr show wlan0 2>/dev/null'')"

definition Wifi_stateCompleted :: "(string \<Rightarrow> string option) \<Rightarrow> bool" where
  "Wifi_stateCompleted popen = line_found ''wpa_state=COMPLETED'' (popen ''wpa_cli -i wlan0 status 2>/dev/null'')"

definition PLAT_setDateTime :: "int \<Rightarrow> int \<Rightarrow> int \<Rightarrow> int \<Rightarrow> int \<Rightarrow> int \<Rightarrow> string" where
  \<comment> \<open>the command it runs\<close>
  "PLAT_setDateTime y m d h i s =
     ''date -s '' @ [CHR 0x27] @ dec_int y @ ''-'' @ dec_int m @ ''-'' @ dec_int d @ '' '' @ dec_int h @ '':'' @ dec_int i @ '':'' @ dec_int s
     @ [CHR 0x27] @ ''; hwclock --utc -w''"

definition clock_end :: "clock \<Rightarrow> string list" where
  "clock_end c = (if save_changes c then [PLAT_setDateTime (year c) (month c) (day c) (hour c) (minute c) (seconds c)] else [])"

definition Wifi_message :: "screen_env \<Rightarrow> string \<Rightarrow> draw list option" where
  "Wifi_message e msg = GFX_blitMessage e font_large msg (Some (0, 0, screen_w e, screen_h e))"

end
