(* ===== verification/Sleep.thy ===== *)
theory Sleep
  imports Screen Keymon Pwr
begin

text \<open>
  Sleeping and switching off (\<open>common/pwr.c\<close>: \<open>PWR_enterSleep\<close>, \<open>PWR_exitSleep\<close>, \<open>PWR_fauxSleep\<close>, \<open>PWR_powerOff\<close>;
  \<open>platform.c\<close> of both platforms: back light, power, CPU speed, rumble, model): what happens to the sound, the panel,
  the key monitor and the buttons, and the message before the power goes. The shared settings and the hardware they drive are
  those of \<open>Settings\<close>; the key monitor, which wakes with the program, is an argument.
\<close>

subsection \<open>The device\<close>

record 'a handheld =
  levels :: "'a Settings_scheme dev"
  pads :: PAD_Context
  paused :: bool     \<comment> \<open>the last argument of \<open>SDL_PauseAudio\<close>\<close>
  held :: bool       \<comment> \<open>whether \<open>keymon.elf\<close> is stopped by a signal\<close>
  blanked :: bool    \<comment> \<open>what was last written to the panel's blank file\<close>
  led :: bool        \<comment> \<open>the work LED, on the rg35xxplus\<close>
  black :: bool      \<comment> \<open>whether the last frame shown is a cleared one\<close>

record 'a sleep_ops =
  hdmi_in :: "'a Settings_scheme dev \<Rightarrow> bool"    \<comment> \<open>\<open>GetHDMI\<close>\<close>
  backlight :: "bool \<Rightarrow> 'a handheld \<Rightarrow> 'a handheld"  \<comment> \<open>\<open>PLAT_enableBacklight\<close>\<close>
  volume :: "u32 \<Rightarrow> 'a Settings_scheme dev \<Rightarrow> 'a Settings_scheme dev" \<comment> \<open>\<open>SetVolume\<close>\<close>

definition MUTE_VOLUME_RAW :: u32 where "MUTE_VOLUME_RAW = 0"

definition SetRawVolume :: "u32 \<Rightarrow> 's dev \<Rightarrow> 's dev" where
  "SetRawVolume val l = l\<lparr>amp := Some val\<rparr>"

definition rg35xx_enableBacklight :: "bool \<Rightarrow> unit handheld \<Rightarrow> unit handheld" where
  "rg35xx_enableBacklight enable d = d\<lparr>blanked := \<not> enable\<rparr>"

definition plus_enableBacklight :: "u32 \<Rightarrow> bool \<Rightarrow> \<lparr>hdmi :: u32\<rparr> handheld \<Rightarrow> \<lparr>hdmi :: u32\<rparr> handheld" where
  "plus_enableBacklight uninit enable d =
     (if enable then
        (let d = d\<lparr>blanked := False\<rparr>;
             d = d\<lparr>levels := plus_SetBrightness uninit (GetBrightness (levels d)) (levels d)\<rparr>
         in d\<lparr>led := False\<rparr>)
      else
        (let d = d\<lparr>blanked := True\<rparr>;
             d = d\<lparr>levels := plus_SetRawBrightness 0 (levels d)\<rparr>
         in d\<lparr>led := True\<rparr>))"

definition rg35xx_sleep :: "unit sleep_ops" where
  "rg35xx_sleep = \<lparr>hdmi_in = (\<lambda>l. False), backlight = rg35xx_enableBacklight, volume = SetVolume\<rparr>"

definition plus_sleep :: "u32 \<Rightarrow> \<lparr>hdmi :: u32\<rparr> sleep_ops" where
  "plus_sleep uninit = \<lparr>hdmi_in = (\<lambda>l. plus_Settings.hdmi (shm l) \<noteq> 0), backlight = plus_enableBacklight uninit, volume = plus_SetVolume\<rparr>"

subsection \<open>Asleep and awake again\<close>

definition PWR_enterSleep :: "'a sleep_ops \<Rightarrow> 'a handheld \<Rightarrow> 'a handheld" where
  "PWR_enterSleep ops d =
     (let d = d\<lparr>paused := True\<rparr>;
          d = (if hdmi_in ops (levels d) then d\<lparr>black := True\<rparr>
               else (let d = d\<lparr>levels := SetRawVolume MUTE_VOLUME_RAW (levels d)\<rparr> in backlight ops False d))
      in d\<lparr>held := True\<rparr>)"

definition PWR_exitSleep :: "'a sleep_ops \<Rightarrow> ('a Settings_scheme dev \<Rightarrow> 'a Settings_scheme dev) \<Rightarrow> 'a handheld \<Rightarrow> 'a handheld" where
  \<comment> \<open>\<open>keymon\<close>: what the key monitor does between going on and the test for HDMI\<close>
  "PWR_exitSleep ops keymon d =
     (let d = d\<lparr>held := False\<rparr>;
          d = d\<lparr>levels := keymon (levels d)\<rparr>;
          d = (if hdmi_in ops (levels d) then d
               else (let d = backlight ops True d in d\<lparr>levels := volume ops (GetVolume (levels d)) (levels d)\<rparr>))
      in d\<lparr>paused := False\<rparr>)"

definition powerOff_message :: "bool \<Rightarrow> bool \<Rightarrow> string" where
  "powerOff_message has_button resumes =
     (if has_button then (if resumes then ''Quicksave created,'' @ [char_newline] @ ''powering off'' else ''Powering off'')
      else (if resumes then ''Quicksave created,'' @ [char_newline] @ ''power off now'' else ''Power off now''))"

definition powerOff_size :: "int \<times> int \<Rightarrow> bool \<Rightarrow> int \<times> int" where
  "powerOff_size hdmi_size plugged = (let w = FIXED_WIDTH; h = FIXED_HEIGHT in if plugged then hdmi_size else (w, h))"

definition powerOff_screen :: "screen_env \<Rightarrow> int \<times> int \<Rightarrow> bool \<Rightarrow> bool \<Rightarrow> bool \<Rightarrow> draw list option" where
  \<comment> \<open>on the cleared screen of the new size\<close>
  "powerOff_screen e hdmi_size has_button plugged resumes =
     (case powerOff_size hdmi_size plugged of (w, h) \<Rightarrow>
        GFX_blitMessage (e\<lparr>screen_w := w, screen_h := h\<rparr>) font_large (powerOff_message has_button resumes) (Some (0, 0, w, h)))"

datatype quit_step = SND_quit | VIB_quit | PWR_quit | GFX_quit | Command string | Gone

definition rg35xx_powerOff :: "unit handheld \<Rightarrow> unit handheld \<times> quit_step list" where
  \<comment> \<open>the last step never returns\<close>
  "rg35xx_powerOff d =
     (let d = d\<lparr>levels := SetRawVolume MUTE_VOLUME_RAW (levels d)\<rparr>
      in (rg35xx_enableBacklight False d, [SND_quit, VIB_quit, PWR_quit, GFX_quit, Command ''shutdown'', Gone]))"

definition plus_powerOff :: "u32 \<Rightarrow> \<lparr>hdmi :: u32\<rparr> handheld \<Rightarrow> \<lparr>hdmi :: u32\<rparr> handheld \<times> quit_step list" where
  \<comment> \<open>without \<open>/tmp/minui_exec\<close> the script that started the program ends with it\<close>
  "plus_powerOff uninit d =
     (let d = d\<lparr>levels := (levels d)\<lparr>card := unlink ''/tmp/minui_exec'' (card (levels d))\<rparr>\<rparr>;
          d = d\<lparr>levels := SetRawVolume MUTE_VOLUME_RAW (levels d)\<rparr>;
          d = plus_enableBacklight uninit False d
      in (d\<lparr>led := True\<rparr>, [SND_quit, VIB_quit, PWR_quit, GFX_quit, Gone]))"

datatype 'd after_sleep = Awake 'd | Off 'd "quit_step list"

definition PWR_fauxSleep ::
  "'a sleep_ops \<Rightarrow> ('a handheld \<Rightarrow> 'a handheld \<times> quit_step list) \<Rightarrow> ('a Settings_scheme dev \<Rightarrow> 'a Settings_scheme dev) \<Rightarrow> bool \<Rightarrow> u32 \<Rightarrow>
   wake_poll list \<Rightarrow> 'a handheld \<Rightarrow> 'a handheld after_sleep" where
  "PWR_fauxSleep ops powerOff keymon can_off sleep_ticks polls d =
     (let d = d\<lparr>pads := PAD_reset (pads d)\<rparr>; d = PWR_enterSleep ops d in
      if Power_Off \<in> set (PWR_waitForWake can_off sleep_ticks polls) then (case powerOff d of (d, steps) \<Rightarrow> Off d steps)
      else (let d = PWR_exitSleep ops keymon d in Awake (d\<lparr>pads := PAD_reset (pads d)\<rparr>)))"

subsection \<open>Speed, rumble and the name of the model\<close>

datatype cpu_speed = CPU_SPEED_MENU | CPU_SPEED_POWERSAVE | CPU_SPEED_NORMAL | CPU_SPEED_PERFORMANCE

fun rg35xx_freq :: "cpu_speed \<Rightarrow> int" where
  "rg35xx_freq CPU_SPEED_MENU = 504000"
| "rg35xx_freq CPU_SPEED_POWERSAVE = 1104000"
| "rg35xx_freq CPU_SPEED_NORMAL = 1296000"
| "rg35xx_freq CPU_SPEED_PERFORMANCE = 1488000"

definition rg35xx_setCPUSpeed :: "cpu_speed \<Rightarrow> string" where
  \<comment> \<open>the command it runs\<close>
  "rg35xx_setCPUSpeed speed = ''overclock.elf '' @ dec_int (rg35xx_freq speed) @ [char_newline]"

fun plus_freq :: "cpu_speed \<Rightarrow> int" where
  "plus_freq CPU_SPEED_MENU = 720000"
| "plus_freq CPU_SPEED_POWERSAVE = 1104000"
| "plus_freq CPU_SPEED_NORMAL = 1320000"
| "plus_freq CPU_SPEED_PERFORMANCE = 1512000"

definition MIN_FREQ_PATH :: string where "MIN_FREQ_PATH = ''/sys/devices/system/cpu/cpu0/cpufreq/scaling_min_freq''"
definition MAX_FREQ_PATH :: string where "MAX_FREQ_PATH = ''/sys/devices/system/cpu/cpu0/cpufreq/scaling_max_freq''"
definition GOVERNOR_PATH :: string where "GOVERNOR_PATH = ''/sys/devices/system/cpu/cpu0/cpufreq/scaling_governor''"

definition plus_setCPUSpeed :: "cpu_speed \<Rightarrow> fs \<Rightarrow> fs list" where
  \<comment> \<open>the files after each write\<close>
  "plus_setCPUSpeed speed fs =
     (let a = putInt MIN_FREQ_PATH 480000 fs; b = putInt MAX_FREQ_PATH (plus_freq speed) a; c = putInt MIN_FREQ_PATH (plus_freq speed) b
      in [a, b, c, putFile GOVERNOR_PATH ''performance'' c])"

definition rg35xx_setRumble :: "int \<Rightarrow> fs \<Rightarrow> fs" where
  "rg35xx_setRumble strong fs =
     (let val = max 0 (min (100 * strong div 2 ^ 16) 100) in putInt ''/sys/class/power_supply/battery/moto'' val fs)"

definition plus_setRumble :: "bool \<Rightarrow> int \<Rightarrow> fs \<Rightarrow> fs" where
  "plus_setRumble plugged strong fs =
     (if plugged then fs else putInt ''/sys/class/power_supply/axp2202-battery/moto'' (if strong \<noteq> 0 then 1 else 0) fs)"

definition PLAT_pickSampleRate :: "int \<Rightarrow> int \<Rightarrow> int" where
  "PLAT_pickSampleRate requested limit = min requested limit"

definition plus_getModel :: "string option \<Rightarrow> string" where
  \<comment> \<open>the environment's \<open>RGXX_MODEL\<close>\<close>
  "plus_getModel env =
     (case env of
        None \<Rightarrow> ''Anbernic RG*XX''
      | Some m \<Rightarrow>
          (let name = ''Anbernic '' @ m in case strrchr name CHR ''_'' of None \<Rightarrow> name | Some i \<Rightarrow> take i name))"

subsection \<open>Properties\<close>

definition keymon_wakes ::
  "(nat \<Rightarrow> role) \<Rightarrow> 'd level_ops \<Rightarrow> u32 \<Rightarrow> input_event list \<Rightarrow> keymon \<Rightarrow> 'd \<Rightarrow> 'd" where
  \<comment> \<open>the first frame of the key monitor after it was stopped, with the events that waited\<close>
  "keymon_wakes role_of ops ms evs k l = snd (keymon_frame role_of ops ms evs (k, l))"

definition in_tune :: "'a sleep_ops \<Rightarrow> 'a handheld \<Rightarrow> bool" where
  \<comment> \<open>sound on, keys heeded and, unless a cable has taken over, the panel lit and amplifier and back light as the settings say\<close>
  "in_tune ops d \<longleftrightarrow> \<not> paused d \<and> \<not> held d
     \<and> (hdmi_in ops (levels d)
        \<or> \<not> blanked d \<and> \<not> led d \<and> lcd (levels (backlight ops True d)) = lcd (levels d)
          \<and> amp (volume ops (GetVolume (levels d)) (levels d)) = amp (levels d))"

definition asleep :: "'a sleep_ops \<Rightarrow> 'a handheld \<Rightarrow> bool" where
  \<comment> \<open>no sound, no picture, no keys\<close>
  "asleep ops d \<longleftrightarrow> paused d \<and> held d
     \<and> (if hdmi_in ops (levels d) then black d else blanked d \<and> amp (levels d) = Some MUTE_VOLUME_RAW)"

lemma GetVolume_amp [simp]: "GetVolume (l\<lparr>amp := a\<rparr>) = GetVolume l" "GetVolume (l\<lparr>lcd := b\<rparr>) = GetVolume l"
  by (simp_all add: GetVolume_def)

lemma SetVolume_own: "SetVolume (GetVolume l) l = SaveSettings (l\<lparr>amp := Some (GetVolume l * 2)\<rparr>)"
  by (simp add: SetVolume_def GetVolume_def Let_def)

lemma plus_SetVolume_own:
  "plus_Settings.hdmi (shm l) = 0 \<Longrightarrow> plus_SetVolume (GetVolume l) l = plus_SaveSettings (l\<lparr>amp := Some (GetVolume l * 5)\<rparr>)"
  by (simp add: plus_SetVolume_def GetVolume_def Let_def)

lemma plus_SaveSettings_amp: "plus_SaveSettings (l\<lparr>amp := a\<rparr>) = (plus_SaveSettings l)\<lparr>amp := a\<rparr>"
  by (simp add: plus_SaveSettings_def)

lemma sleeps: "asleep rg35xx_sleep (PWR_enterSleep rg35xx_sleep d)" "asleep (plus_sleep u) (PWR_enterSleep (plus_sleep u) e)"
  by (simp_all add: asleep_def PWR_enterSleep_def rg35xx_sleep_def plus_sleep_def rg35xx_enableBacklight_def plus_enableBacklight_def
      SetRawVolume_def plus_SetRawBrightness_def Let_def)

lemma rg35xx_wakes:
  assumes "in_tune rg35xx_sleep d" "\<And>l. keymon l = l"
  shows "PWR_exitSleep rg35xx_sleep keymon (PWR_enterSleep rg35xx_sleep d) = d\<lparr>levels := SaveSettings (levels d)\<rparr>"
proof -
  have d: "\<not> paused d" "\<not> held d" "\<not> blanked d" "amp (levels d) = Some (GetVolume (levels d) * 2)"
    using assms(1) by (simp_all add: in_tune_def rg35xx_sleep_def SetVolume_own)
  then have own: "(levels d)\<lparr>amp := Some (GetVolume (levels d) * 2)\<rparr> = levels d" by simp
  show ?thesis
    using d(1-3) by (intro handheld.equality)
      (simp_all add: own PWR_enterSleep_def PWR_exitSleep_def rg35xx_sleep_def rg35xx_enableBacklight_def SetRawVolume_def assms(2) Let_def SetVolume_own)
qed

lemma plus_wakes:
  assumes "in_tune (plus_sleep u) e" "\<And>l. keymon l = l"
  shows "PWR_exitSleep (plus_sleep u) keymon (PWR_enterSleep (plus_sleep u) e) =
    (if plus_Settings.hdmi (shm (levels e)) \<noteq> 0 then e\<lparr>black := True\<rparr> else e\<lparr>levels := plus_SaveSettings (plus_SaveSettings (levels e))\<rparr>)"
proof (cases "plus_Settings.hdmi (shm (levels e)) = 0")
  case hdmi: True
  have e: "\<not> paused e" "\<not> held e" "\<not> blanked e" "\<not> led e" "amp (levels e) = Some (GetVolume (levels e) * 5)"
    "lcd (plus_SetBrightness u (GetBrightness (levels e)) (levels e)) = lcd (levels e)"
    using assms(1) hdmi by (simp_all add: in_tune_def plus_sleep_def plus_SetVolume_own plus_enableBacklight_def)
  define l where "l = (levels e)\<lparr>amp := Some MUTE_VOLUME_RAW, lcd := Some 0\<rparr>"
  define l' where "l' = plus_SetBrightness u (GetBrightness l) l"
  have l': "l' = plus_SaveSettings ((levels e)\<lparr>amp := Some MUTE_VOLUME_RAW\<rparr>)"
    using e(6) hdmi by (simp add: l'_def l_def plus_SetBrightness_def plus_SetRawBrightness_def GetBrightness_def Let_def)
  have v: "GetVolume l' = GetVolume (levels e)" by (simp add: l' GetVolume_def)
  have "plus_SetVolume (GetVolume l') l' = plus_SaveSettings (plus_SaveSettings (levels e))"
  proof -
    have own: "(levels e)\<lparr>amp := Some (GetVolume (levels e) * 5)\<rparr> = levels e" using e(5) by simp
    have "plus_SetVolume (GetVolume l') l' = plus_SaveSettings (l'\<lparr>amp := Some (GetVolume l' * 5)\<rparr>)"
      using hdmi by (intro plus_SetVolume_own) (simp add: l')
    also have "l'\<lparr>amp := Some (GetVolume l' * 5)\<rparr> = plus_SaveSettings ((levels e)\<lparr>amp := Some (GetVolume (levels e) * 5)\<rparr>)"
      by (simp add: v) (simp add: l' plus_SaveSettings_amp)
    finally show ?thesis by (simp only: own)
  qed
  then show ?thesis
    using e hdmi l_def l'_def
    by (intro handheld.equality)
      (simp_all add: PWR_enterSleep_def PWR_exitSleep_def plus_sleep_def plus_enableBacklight_def SetRawVolume_def plus_SetRawBrightness_def assms(2) Let_def)
next
  case False
  then show ?thesis
    using assms by (intro handheld.equality) (simp_all add: PWR_enterSleep_def PWR_exitSleep_def plus_sleep_def in_tune_def Let_def)
qed

lemma plus_cable_dark:
  assumes "plus_Settings.hdmi (shm (levels e)) = 0"
  shows "blanked (PWR_exitSleep (plus_sleep u) (plus_SetHDMI 1) (PWR_enterSleep (plus_sleep u) e))"
  using assms by (simp add: PWR_enterSleep_def PWR_exitSleep_def plus_sleep_def plus_enableBacklight_def plus_SetHDMI_def SetRawVolume_def
      plus_SetRawBrightness_def Let_def)

text \<open>C30: whatever keys were pressed meanwhile, a device that sleeps for more than a second, during which no cable of a display is plugged in or out, and is
  woken is as it was on both platforms: the panel lit, the back light and the amplifier at the levels of the settings, the sound going on, the key monitor
  running and every button released, with the settings saved once more; with a display plugged in on the rg35xxplus only its picture was cleared. While it
  sleeps it makes no sound, shows nothing and has the
  key monitor stopped. One that is switched off in its sleep ends silent and dark, on the rg35xxplus without the file that would start
  the program again. The exception: when a cable is plugged in during the sleep of the rg35xxplus and the key monitor, going on, reports it before
  the program looks, the device wakes with its panel off.\<close>

theorem sleep_restores:
  fixes d :: "unit handheld" and e :: "\<lparr>hdmi :: u32\<rparr> handheld"
  assumes "in_tune rg35xx_sleep d" "in_tune (plus_sleep u) e" "ms - then_ms k > 1000"
  shows "asleep rg35xx_sleep (PWR_enterSleep rg35xx_sleep d) \<and> asleep (plus_sleep u) (PWR_enterSleep (plus_sleep u) e)
    \<and> (if Power_Off \<in> set (PWR_waitForWake can_off t polls)
       then (\<exists>d' steps. PWR_fauxSleep rg35xx_sleep rg35xx_powerOff (keymon_wakes rg35xx_role (rg35xx_ops u) ms evs k) can_off t polls d = Off d' steps
               \<and> blanked d' \<and> amp (levels d') = Some 0 \<and> last steps = Gone)
          \<and> (\<exists>e' steps. PWR_fauxSleep (plus_sleep u) (plus_powerOff u) (keymon_wakes plus_role (plus_ops u) ms evs k) can_off t polls e = Off e' steps
               \<and> blanked e' \<and> amp (levels e') = Some 0 \<and> (plus_Settings.hdmi (shm (levels e)) = 0 \<longrightarrow> lcd (levels e') = Some 0) \<and> last steps = Gone
               \<and> \<not> exists (card (levels e')) ''/tmp/minui_exec'')
       else PWR_fauxSleep rg35xx_sleep rg35xx_powerOff (keymon_wakes rg35xx_role (rg35xx_ops u) ms evs k) can_off t polls d
              = Awake (d\<lparr>pads := PAD_reset (pads d), levels := SaveSettings (levels d)\<rparr>)
          \<and> PWR_fauxSleep (plus_sleep u) (plus_powerOff u) (keymon_wakes plus_role (plus_ops u) ms evs k) can_off t polls e
              = Awake (if plus_Settings.hdmi (shm (levels e)) \<noteq> 0 then e\<lparr>pads := PAD_reset (pads e), black := True\<rparr>
                       else e\<lparr>pads := PAD_reset (pads e), levels := plus_SaveSettings (plus_SaveSettings (levels e))\<rparr>)
          \<and> (plus_Settings.hdmi (shm (levels e)) = 0 \<longrightarrow>
              (\<exists>e'. PWR_fauxSleep (plus_sleep u) (plus_powerOff u) (plus_SetHDMI 1) can_off t polls e = Awake e' \<and> blanked e')))"
proof -
  have quiet: "keymon_wakes role_of ops ms evs k = (\<lambda>l. l)" for role_of ops
    using keymon_ignores_sleep [of ms k ms role_of ops evs] assms(3) by (simp add: keymon_wakes_def fun_eq_iff)
  define d0 where "d0 = d\<lparr>pads := PAD_reset (pads d)\<rparr>"
  define e0 where "e0 = e\<lparr>pads := PAD_reset (pads e)\<rparr>"
  have tune: "in_tune rg35xx_sleep d0" "in_tune (plus_sleep u) e0"
    using assms(1,2) by (simp_all add: in_tune_def d0_def e0_def rg35xx_sleep_def plus_sleep_def rg35xx_enableBacklight_def plus_enableBacklight_def)
  have reset: "PAD_reset (PAD_reset p) = PAD_reset p" for p by (simp add: PAD_reset_def)
  show ?thesis
  proof (cases "Power_Off \<in> set (PWR_waitForWake can_off t polls)")
    case True
    then show ?thesis
      by (intro conjI sleeps) (simp add: PWR_fauxSleep_def rg35xx_powerOff_def plus_powerOff_def rg35xx_enableBacklight_def plus_enableBacklight_def
          plus_SetRawBrightness_def SetRawVolume_def MUTE_VOLUME_RAW_def PWR_enterSleep_def plus_sleep_def exists_unlink Let_def)
  next
    case False
    then show ?thesis
      using rg35xx_wakes [OF tune(1), of "\<lambda>l. l"] plus_wakes [OF tune(2), of "\<lambda>l. l"] plus_cable_dark [of e0 u]
      by (simp add: sleeps PWR_fauxSleep_def quiet reset d0_def e0_def Let_def)
  qed
qed

definition demo_pad :: PAD_Context where
  "demo_pad = \<lparr>is_pressed = BTN_UP, just_pressed = 0, just_released = 0, just_repeated = 0,
     repeat_at = replicate 25 0, laxis = \<lparr>ax_x = 0, ax_y = 0\<rparr>, raxis = \<lparr>ax_x = 0, ax_y = 0\<rparr>\<rparr>"

definition demo_handheld :: "'a Settings_scheme dev \<Rightarrow> 'a handheld" where
  "demo_handheld l = \<lparr>levels = l, pads = demo_pad, paused = False, held = False, blanked = False, led = False, black = False\<rparr>"

text \<open>The rg35xx on its own, the rg35xxplus with a display.\<close>

theorem sleep_restores_witness:
  "PWR_fauxSleep rg35xx_sleep rg35xx_powerOff (keymon_wakes rg35xx_role (rg35xx_ops 0) 5000 [(1, 0x6C, 1)] (keymon_start 0)) True 0
     [\<lparr>woken = True, wake_request = False, ticks = 5000, charging = False\<rparr>] (demo_handheld (demo_dev\<lparr>amp := Some 24\<rparr>))
   = Awake ((demo_handheld (demo_dev\<lparr>amp := Some 24\<rparr>))\<lparr>pads := PAD_reset demo_pad, levels := SaveSettings (demo_dev\<lparr>amp := Some 24\<rparr>)\<rparr>)
   \<and> PWR_fauxSleep (plus_sleep 0) (plus_powerOff 0) (keymon_wakes plus_role (plus_ops 0) 5000 [(1, 0x6C, 1)] (keymon_start 0)) True 0
     [\<lparr>woken = True, wake_request = False, ticks = 5000, charging = False\<rparr>] (demo_handheld (plus_SetHDMI 1 plus_demo_dev))
   = Awake ((demo_handheld (plus_SetHDMI 1 plus_demo_dev))\<lparr>pads := PAD_reset demo_pad, black := True\<rparr>)"
proof -
  let ?d = "demo_handheld (demo_dev\<lparr>amp := Some 24\<rparr>)"
  let ?e = "demo_handheld (plus_SetHDMI 1 plus_demo_dev) :: \<lparr>hdmi :: u32\<rparr> handheld"
  let ?polls = "[\<lparr>woken = True, wake_request = False, ticks = 5000, charging = False\<rparr>]"
  have plugged: "plus_Settings.hdmi (shm (levels ?e)) \<noteq> 0" by (simp add: demo_handheld_def plus_SetHDMI_def)
  have "in_tune rg35xx_sleep ?d"
    by (simp add: in_tune_def demo_handheld_def rg35xx_sleep_def rg35xx_enableBacklight_def demo_dev_def DefaultSettings_def GetVolume_def)
  moreover have "in_tune (plus_sleep 0) ?e" using plugged by (simp add: in_tune_def plus_sleep_def) (simp add: demo_handheld_def)
  moreover have "5000 - then_ms (keymon_start 0) > 1000" by (simp add: keymon_start_def)
  moreover have "Power_Off \<notin> set (PWR_waitForWake True 0 ?polls)" by simp
  ultimately show ?thesis
    using sleep_restores [of ?d 0 ?e 5000 "keymon_start 0" True 0 ?polls "[(1, 0x6C, 1)]"] plugged
    by (simp add: demo_handheld_def)
qed

text \<open>The message before the power goes has its rows in the middle of the screen, whichever screen that is.\<close>

lemma powerOff_centred:
  "powerOff_screen e (hw, hh) button plugged True =
     (let w = (if plugged then hw else 640); h = (if plugged then hh else 480); last = (if button then ''powering off'' else ''power off now'') in
      Some [Glyphs font_large ''Quicksave created,'' RGB_WHITE (half (w - text_w e font_large ''Quicksave created,'')) (half (h - 96)),
            Glyphs font_large last RGB_WHITE (half (w - text_w e font_large last)) (half (h - 96) + 48)])"
proof -
  have rows: "message_rows (TEXT_BOX_MAX_ROWS - 2) (powerOff_message True True) = Some [''Quicksave created,'', ''powering off'']"
    "message_rows (TEXT_BOX_MAX_ROWS - 2) (powerOff_message False True) = Some [''Quicksave created,'', ''power off now'']" by code_simp+
  have "text_w (e\<lparr>screen_w := w, screen_h := h\<rparr>) = text_w e" for w h by (simp add: fun_eq_iff text_w_def)
  then show ?thesis
    by (cases button) (simp_all add: powerOff_screen_def powerOff_size_def GFX_blitMessage_def rows line_fits_def layout_defs LINE_HEIGHT_def Let_def del: message_rows.simps)
qed

text \<open>While the speed is changed, the lowest frequency is never above the highest, and it ends pinned.\<close>

lemma plus_speed_pinned:
  assumes "fopen_w fs MIN_FREQ_PATH" "fopen_w fs MAX_FREQ_PATH" "480000 \<le> getInt fs MAX_FREQ_PATH"
  shows "list_all (\<lambda>s. getInt s MIN_FREQ_PATH \<le> getInt s MAX_FREQ_PATH) (plus_setCPUSpeed speed fs)"
    and "getInt (last (plus_setCPUSpeed speed fs)) MIN_FREQ_PATH = plus_freq speed"
    and "getInt (last (plus_setCPUSpeed speed fs)) MAX_FREQ_PATH = plus_freq speed"
proof -
  have paths: "MIN_FREQ_PATH \<noteq> MAX_FREQ_PATH" "GOVERNOR_PATH \<noteq> MAX_FREQ_PATH" "GOVERNOR_PATH \<noteq> MIN_FREQ_PATH" by code_simp+
  have own: "getInt (putInt p v fs) p = v" if "fopen_w fs p" "v \<in> {480000, plus_freq speed}" for p v fs
    using getInt_putInt [OF that(1), of v] that(2) by (cases speed) auto
  have other: "getInt (putInt p v fs) q = getInt fs q" "getInt (putFile p c fs) q = getInt fs q" if "q \<noteq> p" for p q v c fs
    using that by (simp_all add: getInt_def putInt_def fopen_r_putFile_other)
  have w: "fopen_w (putInt p v fs) q" if "fopen_w fs q" for p q v fs
    using that by (simp add: putInt_def fopen_w_putFile)
  have "480000 \<le> plus_freq speed" by (cases speed) simp_all
  then show "list_all (\<lambda>s. getInt s MIN_FREQ_PATH \<le> getInt s MAX_FREQ_PATH) (plus_setCPUSpeed speed fs)"
    "getInt (last (plus_setCPUSpeed speed fs)) MIN_FREQ_PATH = plus_freq speed"
    "getInt (last (plus_setCPUSpeed speed fs)) MAX_FREQ_PATH = plus_freq speed"
    using assms paths [symmetric] paths by (simp_all add: plus_setCPUSpeed_def own other w Let_def)
qed

end
