(* ===== verification/DisplayEngine.thy ===== *)
theory DisplayEngine
  imports PlusVideo Screen
begin

unbundle bit_operations_syntax

text \<open>
  The display engine of the rg35xx as its platform code programs it (\<open>rg35xx/platform.c\<close>: \<open>DE_setScaleCoef\<close>,
  \<open>DE_enableLayer\<close>, \<open>DE_setRect\<close>, the register halves of \<open>PLAT_initVideo\<close>, \<open>PLAT_resizeVideo\<close>, \<open>PLAT_flip\<close> and
  \<open>PLAT_setSharpness\<close>, and the battery overlay). The mapped registers are a function from word offsets; what the
  engine does with them is in the comments of the code: a step of \<open>0x2000\<close> is one source pixel, a tap of \<open>0x40\<close> is 100%.
\<close>

subsection \<open>Registers\<close>

type_synonym regs = "nat \<Rightarrow> u32"

definition DE_PATH_CTL :: "nat \<Rightarrow> nat" where "DE_PATH_CTL n = 0x100 + n * 0x100"
definition DE_PATH_SIZE :: "nat \<Rightarrow> nat" where "DE_PATH_SIZE n = 0x100 + n * 0x100 + 0x24"
definition DE_OVL_ISIZE :: "nat \<Rightarrow> nat" where "DE_OVL_ISIZE n = 0x400 + n * 0x100 + 4"
definition DE_OVL_OSIZE :: "nat \<Rightarrow> nat" where "DE_OVL_OSIZE n = 0x400 + n * 0x100 + 8"
definition DE_OVL_SR :: "nat \<Rightarrow> nat" where "DE_OVL_SR n = 0x400 + n * 0x100 + 0xC"
definition DE_OVL_SCOEF :: "nat \<Rightarrow> nat \<Rightarrow> nat" where "DE_OVL_SCOEF k n = 0x400 + n * 0x100 + 0x10 + 4 * k"
definition DE_OVL_BA0 :: "nat \<Rightarrow> nat" where "DE_OVL_BA0 n = 0x400 + n * 0x100 + 0x30"
definition DE_OVL_STR :: "nat \<Rightarrow> nat" where "DE_OVL_STR n = 0x400 + n * 0x100 + 0x48"
definition DE_OVL_COOR :: "nat \<Rightarrow> nat \<Rightarrow> nat" where "DE_OVL_COOR m n = 0x400 + n * 0x100 + 0x54"

definition put_reg :: "nat \<Rightarrow> u32 \<Rightarrow> regs \<Rightarrow> regs" where
  "put_reg a v r = r(a div 4 := v)"

definition get_reg :: "nat \<Rightarrow> regs \<Rightarrow> u32" where
  "get_reg a r = r (a div 4)"

lemmas de_addresses = DE_PATH_CTL_def DE_PATH_SIZE_def DE_OVL_ISIZE_def DE_OVL_OSIZE_def DE_OVL_SR_def DE_OVL_SCOEF_def DE_OVL_BA0_def
  DE_OVL_STR_def DE_OVL_COOR_def

datatype scoef = DE_SCOEF_NONE | DE_SCOEF_CRISPY | DE_SCOEF_ZOOMIN | DE_SCOEF_HALF_ZOOMOUT | DE_SCOEF_SMALLER_ZOOMOUT

fun coefficients :: "scoef \<Rightarrow> u32 list" where
  "coefficients DE_SCOEF_NONE =
     [0x00400000, 0x00400000, 0x00400000, 0x00400000, 0x00004000, 0x00004000, 0x00004000, 0x00004000]"
| "coefficients DE_SCOEF_CRISPY =
     [0x00400000, 0x00400000, 0x00400000, 0x00400000, 0x00202000, 0x00004000, 0x00004000, 0x00004000]"
| "coefficients DE_SCOEF_ZOOMIN =
     [0x00400000, 0xFC3E07FF, 0xFA3810FE, 0xF9301BFC, 0xFA2626FA, 0xFC1B30F9, 0xFE1038FA, 0xFF073EFC]"
| "coefficients DE_SCOEF_HALF_ZOOMOUT =
     [0x00400000, 0x00380800, 0x00301000, 0x00281800, 0x00202000, 0x00182800, 0x00103000, 0x00083800]"
| "coefficients DE_SCOEF_SMALLER_ZOOMOUT =
     [0x10201000, 0x0E1E1202, 0x0C1C1404, 0x0A1A1606, 0x08181808, 0x06161A0A, 0x04141C0C, 0x02121E0E]"

definition DE_setScaleCoef :: "nat \<Rightarrow> scoef \<Rightarrow> regs \<Rightarrow> regs" where
  "DE_setScaleCoef plane scale r = fold (\<lambda>k. put_reg (DE_OVL_SCOEF k plane) (coefficients scale ! k)) [0 ..< 8] r"

definition DE_enableLayer :: "bool \<Rightarrow> regs \<Rightarrow> regs" where
  "DE_enableLayer overlay r =
     put_reg (DE_PATH_CTL 0) ((if overlay then 0x30300000 else 0x30100000) OR (get_reg (DE_PATH_CTL 0) r AND 0xCF0FFFFF)) r"

definition packed :: "u32 \<Rightarrow> u32 \<Rightarrow> u32" where
  \<comment> \<open>\<open>(lo & 0xFFFF) | (hi << 16)\<close>\<close>
  "packed lo hi = (lo AND 0xFFFF) OR push_bit 16 hi"

definition DE_setRect :: "u32 \<Rightarrow> u32 \<Rightarrow> u32 \<Rightarrow> u32 \<Rightarrow> regs \<Rightarrow> regs" where
  "DE_setRect x y w h r =
     (let r = put_reg (DE_OVL_OSIZE 0) (packed (w - 1) (h - 1)) r;
          s = get_reg (DE_OVL_ISIZE 0) r;
          r = put_reg (DE_OVL_SR 0) (packed (0x2000 * ((s AND 0xFFFF) + 1) div w) (0x2000 * (drop_bit 16 s + 1) div h)) r
      in put_reg (DE_OVL_COOR 0 0) (packed x y) r)"

subsection \<open>What the platform writes\<close>

definition panel :: "regs \<Rightarrow> int \<times> int" where
  \<comment> \<open>\<open>vw\<close> and \<open>vh\<close>\<close>
  "panel r = (let s = get_reg (DE_PATH_SIZE 0) r in (uint (s AND 0xFFFF) + 1, uint (drop_bit 16 s) + 1))"

definition set_layers :: "int \<Rightarrow> int \<Rightarrow> int \<Rightarrow> u32 \<Rightarrow> regs \<Rightarrow> regs" where
  "set_layers w h p base r =
     (let (vw, vh) = panel r;
          isize = packed (word_of_int (w - 1)) (word_of_int (h - 1));
          r = put_reg (DE_OVL_ISIZE 0) isize (put_reg (DE_OVL_ISIZE 2) isize r);
          sr = packed (word_of_int (cdiv (0x2000 * w) vw)) (word_of_int (cdiv (0x2000 * h) vh));
          r = put_reg (DE_OVL_SR 0) sr (put_reg (DE_OVL_SR 2) sr r);
          stride = word_of_int (cdiv p 8);
          r = put_reg (DE_OVL_STR 0) stride (put_reg (DE_OVL_STR 2) stride r)
      in put_reg (DE_OVL_BA0 0) base r)"

definition PAGE_SIZE :: int where "PAGE_SIZE = 2 * int PAGE_PIXELS"

definition page_base :: "u32 \<Rightarrow> nat \<Rightarrow> u32" where
  "page_base padd n = padd + word_of_int (int n * PAGE_SIZE)"

definition four_planes :: "scoef \<Rightarrow> regs \<Rightarrow> regs" where
  "four_planes s r = DE_setScaleCoef 3 s (DE_setScaleCoef 2 s (DE_setScaleCoef 1 s (DE_setScaleCoef 0 s r)))"

definition setNearestNeighbor_regs :: "bool \<Rightarrow> regs \<Rightarrow> regs" where
  "setNearestNeighbor_regs enabled r = four_planes (if enabled then DE_SCOEF_NONE else DE_SCOEF_HALF_ZOOMOUT) r"

fun sharpness_coef :: "sharpness \<Rightarrow> scoef" where
  "sharpness_coef SHARPNESS_SHARP = DE_SCOEF_NONE"
| "sharpness_coef SHARPNESS_CRISP = DE_SCOEF_CRISPY"
| "sharpness_coef SHARPNESS_SOFT = DE_SCOEF_HALF_ZOOMOUT"

definition setSharpness_regs :: "sharpness \<Rightarrow> regs \<Rightarrow> regs" where
  "setSharpness_regs s r = four_planes (sharpness_coef s) r"

definition initVideo_regs :: "u32 \<Rightarrow> regs \<Rightarrow> regs" where
  "initVideo_regs padd r = setNearestNeighbor_regs False (set_layers FIXED_WIDTH FIXED_HEIGHT (FIXED_WIDTH * 2) (page_base padd 1) r)"

definition resizeVideo_regs :: "u32 \<Rightarrow> int \<Rightarrow> int \<Rightarrow> int \<Rightarrow> nat \<Rightarrow> regs \<Rightarrow> regs" where
  "resizeVideo_regs padd w h p pg r = set_layers w h p (page_base padd pg) r"

definition flip_regs :: "u32 \<Rightarrow> nat \<Rightarrow> bool \<Rightarrow> regs \<Rightarrow> regs" where
  "flip_regs padd pg overlay r =
     (let r = put_reg (DE_OVL_BA0 0) (page_base padd pg) (put_reg (DE_OVL_BA0 2) (page_base padd pg) r) in DE_enableLayer overlay r)"

subsection \<open>The overlay with the battery\<close>

record overlay_info =
  ov_mem_off :: u32
  ov_mem_size :: int
  ov_screen_width :: int
  ov_img :: "int \<times> int"
  ov_off :: "int \<times> int"
  ov_cut :: "int \<times> int"       \<comment> \<open>\<open>width\<close>, \<open>height\<close>\<close>
  ov_pos :: "int \<times> int"
  ov_out :: "int \<times> int"
  ov_zorder :: int

definition OVERLAY_PITCH :: int where "OVERLAY_PITCH = PILL_SIZE * 4"

definition overlay_side :: int where
  \<comment> \<open>width and height of the overlay's surface\<close>
  "overlay_side = SCALE1 PILL_SIZE"

definition PLAT_initOverlay :: "screen_env \<Rightarrow> u32 \<Rightarrow> u32 \<Rightarrow> overlay_info" where
  \<comment> \<open>the physical addresses of its memory and of the frame buffer\<close>
  "PLAT_initOverlay e padd smem_start =
     (let size = overlay_side * SCALE1 OVERLAY_PITCH; w = overlay_side; h = w; x = FIXED_WIDTH - SCALE1 (PADDING e) - w; y = SCALE1 (PADDING e) in
      \<lparr>ov_mem_off = padd - smem_start, ov_mem_size = size, ov_screen_width = FIXED_WIDTH * 3, ov_img = (w, h), ov_off = (0, 0), ov_cut = (w, h),
       ov_pos = (x, y), ov_out = (w, h), ov_zorder = 3\<rparr>)"

definition PWR_initOverlay :: "bool \<Rightarrow> int \<Rightarrow> draw list" where
  \<comment> \<open>what is drawn into it, from its corner\<close>
  "PWR_initOverlay plugged percent = GFX_blitAsset ASSET_BLACK_PILL None 0 0 @ GFX_blitBattery plugged percent 0 0"

subsection \<open>Facts\<close>

definition taps :: "u32 \<Rightarrow> int list" where
  \<comment> \<open>the four signed bytes of a coefficient\<close>
  "taps c = map (\<lambda>k. signed_take_bit 7 (uint (drop_bit (8 * k) c))) [3, 2, 1, 0]"

text \<open>Every set of coefficients keeps the brightness: the taps of each phase add up to 100%. The one for sharp pictures takes
  the nearest pixel alone, the one for soft ones is linear interpolation, and the sets for zooming are mirror images of
  themselves about the middle phase.\<close>

lemma taps_sum: "k < 8 \<Longrightarrow> sum_list (taps (coefficients s ! k)) = 0x40"
proof -
  have "list_all (\<lambda>s. list_all (\<lambda>c. sum_list (taps c) = 0x40) (coefficients s))
      [DE_SCOEF_NONE, DE_SCOEF_CRISPY, DE_SCOEF_ZOOMIN, DE_SCOEF_HALF_ZOOMOUT, DE_SCOEF_SMALLER_ZOOMOUT]" by code_simp
  then have "list_all (\<lambda>c. sum_list (taps c) = 0x40) (coefficients s)" by (cases s) simp_all
  moreover have "length (coefficients s) = 8" by (cases s) simp_all
  ultimately show "k < 8 \<Longrightarrow> ?thesis" by (simp add: list_all_length)
qed

lemma taps_shapes:
  "map taps (coefficients DE_SCOEF_NONE) = replicate 4 [0, 0x40, 0, 0] @ replicate 4 [0, 0, 0x40, 0]"
  "map taps (coefficients DE_SCOEF_HALF_ZOOMOUT) = map (\<lambda>k. [0, 0x40 - 8 * k, 8 * k, 0]) [0 .. 7]"
  by code_simp+

lemma taps_mirrored:
  "list_all (\<lambda>s. map taps (rev (tl (coefficients s))) = map (\<lambda>c. rev (taps c)) (tl (coefficients s)))
     [DE_SCOEF_ZOOMIN, DE_SCOEF_HALF_ZOOMOUT, DE_SCOEF_SMALLER_ZOOMOUT]"
  by code_simp

lemma get_put_reg: "get_reg a (put_reg b v r) = (if a div 4 = b div 4 then v else get_reg a r)"
  by (simp add: get_reg_def put_reg_def)

lemma low_half: "(0xFFFF :: u32) = mask 16" by (simp add: mask_eq_exp_minus_1)

lemma packed_low: "uint (packed a b AND 0xFFFF) = uint a mod 2 ^ 16"
proof -
  have "packed a b AND 0xFFFF = take_bit 16 a"
    unfolding packed_def low_half by (rule bit_word_eqI) (auto simp: bit_simps)
  then have "uint (packed a b AND 0xFFFF) = take_bit 16 (uint a)" by (simp only: unsigned_take_bit_eq)
  then show ?thesis by (simp only: take_bit_eq_mod)
qed

lemma packed_high: "uint (drop_bit 16 (packed a b)) = uint b mod 2 ^ 16"
proof -
  have "drop_bit 16 (packed a b) = take_bit 16 b"
    unfolding packed_def low_half by (rule bit_word_eqI) (auto simp: bit_simps)
  then have "uint (drop_bit 16 (packed a b)) = take_bit 16 (uint b)" by (simp only: unsigned_take_bit_eq)
  then show ?thesis by (simp only: take_bit_eq_mod)
qed

lemma uint_small: "0 \<le> x \<Longrightarrow> x < 2 ^ 16 \<Longrightarrow> uint (word_of_int x :: u32) mod 2 ^ 16 = x"
  by (simp add: uint_word_of_int)

text \<open>The overlay is switched by a bit of its own; the bits the mask leaves keep their values.\<close>

lemma enableLayer_bits:
  "bit (get_reg (DE_PATH_CTL 0) (DE_enableLayer overlay r)) 21 = overlay"
  "get_reg (DE_PATH_CTL 0) (DE_enableLayer overlay r) AND 0xCF0FFFFF = get_reg (DE_PATH_CTL 0) r AND 0xCF0FFFFF"
  "a div 4 \<noteq> DE_PATH_CTL 0 div 4 \<Longrightarrow> get_reg a (DE_enableLayer overlay r) = get_reg a r"
  by (simp_all add: DE_enableLayer_def get_put_reg bit_or_iff bit_and_iff bit.conj_disj_distrib2 and.assoc)

lemma set_layers_regs:
  "panel r = (vw, vh) \<Longrightarrow> n \<in> {0, 2} \<Longrightarrow>
    get_reg (DE_OVL_SR n) (set_layers w h p base r) = packed (word_of_int (cdiv (0x2000 * w) vw)) (word_of_int (cdiv (0x2000 * h) vh))"
  by (auto simp: set_layers_def get_put_reg de_addresses Let_def)

lemma set_layers_others:
  "n \<in> {0, 2} \<Longrightarrow> get_reg (DE_OVL_STR n) (set_layers w h p base r) = word_of_int (cdiv p 8)"
  "n \<in> {0, 2} \<Longrightarrow> get_reg (DE_OVL_ISIZE n) (set_layers w h p base r) = packed (word_of_int (w - 1)) (word_of_int (h - 1))"
  "get_reg (DE_OVL_BA0 0) (set_layers w h p base r) = base"
  by (auto simp: set_layers_def get_put_reg de_addresses Let_def split: prod.splits)

lemma panel_positive: "panel r = (vw, vh) \<Longrightarrow> 1 \<le> vw \<and> 1 \<le> vh"
  by (auto simp: panel_def Let_def)

definition sample :: "int \<Rightarrow> int \<Rightarrow> int" where
  \<comment> \<open>the source pixel for a pixel of the panel, at a step\<close>
  "sample step i = i * step div 0x2000"

lemma sample_inside:
  assumes "0 \<le> i" "i < v" "0 \<le> w"
  shows "0 \<le> sample (0x2000 * w div v) i" "0 < w \<Longrightarrow> sample (0x2000 * w div v) i < w"
proof -
  let ?s = "0x2000 * w div v"
  have s: "0 \<le> ?s" using assms by (simp add: pos_imp_zdiv_nonneg_iff)
  then show "0 \<le> sample ?s i" using assms(1) by (simp add: sample_def pos_imp_zdiv_nonneg_iff)
  have "v * ?s \<le> 0x2000 * w" using assms(1,2) by (simp add: minus_mod_eq_mult_div [symmetric])
  moreover have "i * ?s \<le> (v - 1) * ?s" using assms s by (intro mult_right_mono) simp_all
  ultimately have le: "i * ?s + ?s \<le> 0x2000 * w" by (simp add: algebra_simps)
  show "sample ?s i < w" if "0 < w"
  proof (cases "?s = 0")
    case True
    then show ?thesis using that by (simp add: sample_def)
  next
    case False
    then have "i * ?s < 0x2000 * w" using s le by linarith
    then show ?thesis by (simp add: sample_def div_less_iff_less_mult mult.commute)
  qed
qed

text \<open>With a surface that is not eight times wider or higher than the panel, every pixel of the panel shows a pixel of the surface, and
  the engine's row length is the surface's when that is a multiple of eight bytes, otherwise shorter.\<close>

lemma engine_samples:
  fixes padd :: u32 and pg :: nat and X Y :: int
  assumes "panel r = (vw, vh)" "0 < w" "w < 8 * vw" "w < 2 ^ 15" "0 < h" "h < 8 * vh" "h < 2 ^ 15" "2 * w \<le> p" "p < 2 ^ 18"
    and "0 \<le> X" "X < vw" "0 \<le> Y" "Y < vh"
  defines "r' \<equiv> resizeVideo_regs padd w h p pg r"
  defines "x \<equiv> sample (uint (get_reg (DE_OVL_SR 0) r' AND 0xFFFF)) X" and "y \<equiv> sample (uint (drop_bit 16 (get_reg (DE_OVL_SR 0) r'))) Y"
    and "stride \<equiv> 8 * uint (get_reg (DE_OVL_STR 0) r')"
  shows "0 \<le> x" "x < w" "0 \<le> y" "y < h" "stride \<le> p" "stride = p \<longleftrightarrow> 8 dvd p" "0 \<le> y * stride + 2 * x" "y * stride + 2 * x + 1 < p * h"
proof -
  have v: "1 \<le> vw" "1 \<le> vh" using panel_positive [OF assms(1)] by auto
  have step: "0 \<le> 0x2000 * a div b" "0x2000 * a div b < 2 ^ 16" if "0 < a" "a < 8 * b" for a b :: int
  proof -
    have b: "0 < b" using that by simp
    show "0 \<le> 0x2000 * a div b" using that b by (simp add: pos_imp_zdiv_nonneg_iff)
    have "0x2000 * a div b \<le> (2 ^ 16 * b - 1) div b" using that b by (intro zdiv_mono1) simp_all
    also have "\<dots> = 2 ^ 16 - 1" using b div_mult_self3 [of b "2 ^ 16" "- 1"] by (cases "b = 1") (simp_all add: zdiv_zminus1_eq_if)
    finally show "0x2000 * a div b < 2 ^ 16" by simp
  qed
  have SR: "get_reg (DE_OVL_SR 0) r' = packed (word_of_int (0x2000 * w div vw)) (word_of_int (0x2000 * h div vh))"
    using set_layers_regs [OF assms(1), of 0] assms(2,5) v by (simp add: r'_def resizeVideo_regs_def cdiv_nonneg)
  have x: "x = sample (0x2000 * w div vw) X" and y: "y = sample (0x2000 * h div vh) Y"
    using step [OF assms(2,3)] step [OF assms(5,6)] by (simp_all only: x_def y_def SR packed_low packed_high uint_small)
  show xs: "0 \<le> x" "x < w" using sample_inside [of X vw w] assms by (simp_all add: x)
  show ys: "0 \<le> y" "y < h" using sample_inside [of Y vh h] assms by (simp_all add: y)
  have "0 \<le> p div 8" "p div 8 < 2 ^ 32" using assms(2,8,9) by (simp_all add: pos_imp_zdiv_nonneg_iff div_less_iff_less_mult)
  then have stride: "stride = 8 * (p div 8)"
    using assms(2,8) by (simp add: stride_def r'_def resizeVideo_regs_def set_layers_others cdiv_nonneg uint_word_of_int)
  then show "stride \<le> p" "stride = p \<longleftrightarrow> 8 dvd p" by (auto simp: dvd_eq_mod_eq_0 minus_mod_eq_mult_div [symmetric])
  have s0: "0 \<le> stride" using \<open>0 \<le> p div 8\<close> stride by simp
  then show "0 \<le> y * stride + 2 * x" using xs ys by simp
  have "y * stride \<le> (h - 1) * p" using ys s0 \<open>stride \<le> p\<close> by (intro mult_mono) simp_all
  then show "y * stride + 2 * x + 1 < p * h" using xs assms(8) by (simp add: algebra_simps)
qed

lemma scoef_index: "DE_OVL_SCOEF j m div 4 = 0x104 + 64 * m + j"
  by (simp add: DE_OVL_SCOEF_def)

lemma setScaleCoef_other:
  "\<forall>k < 8. a div 4 \<noteq> DE_OVL_SCOEF k plane div 4 \<Longrightarrow> get_reg a (DE_setScaleCoef plane s r) = get_reg a r"
proof -
  assume other: "\<forall>k < 8. a div 4 \<noteq> DE_OVL_SCOEF k plane div 4"
  have "get_reg a (fold (\<lambda>j. put_reg (DE_OVL_SCOEF j plane) (coefficients s ! j)) [0 ..< n] r) = get_reg a r" if "n \<le> 8" for n
    using that other by (induction n) (auto simp: get_put_reg)
  from this [of 8] show ?thesis by (simp add: DE_setScaleCoef_def)
qed

lemma four_planes_base: "get_reg (DE_OVL_BA0 0) (four_planes s r) = get_reg (DE_OVL_BA0 0) r"
proof -
  have "DE_OVL_BA0 0 div 4 \<noteq> DE_OVL_SCOEF k plane div 4" if "k < 8" for k plane
  proof -
    have "DE_OVL_BA0 0 div 4 = 0x104 + 8" by (simp add: DE_OVL_BA0_def)
    then show ?thesis using that unfolding scoef_index by arith
  qed
  then show ?thesis by (simp add: four_planes_def setScaleCoef_other)
qed

lemma scoef_apart: "k < 8 \<Longrightarrow> k' < 8 \<Longrightarrow> DE_OVL_SCOEF k n div 4 = DE_OVL_SCOEF k' n' div 4 \<longleftrightarrow> k = k' \<and> n = n'"
proof -
  assume k: "k < 8" "k' < 8"
  have "n = n' \<and> k = k'" if "64 * n + k = 64 * n' + k'"
  proof -
    have "(64 * n + k) div 64 = n" "(64 * n' + k') div 64 = n'" using k by simp_all
    then have "n = n'" using that by simp
    then show ?thesis using that by simp
  qed
  then show ?thesis unfolding scoef_index by auto
qed

lemma setScaleCoef_get:
  assumes "k < 8"
  shows "get_reg (DE_OVL_SCOEF k q) (DE_setScaleCoef plane s r) = (if q = plane then coefficients s ! k else get_reg (DE_OVL_SCOEF k q) r)"
proof -
  have "get_reg (DE_OVL_SCOEF k q) (fold (\<lambda>j. put_reg (DE_OVL_SCOEF j plane) (coefficients s ! j)) [0 ..< n] r) =
      (if q = plane \<and> k < n then coefficients s ! k else get_reg (DE_OVL_SCOEF k q) r)" if "n \<le> 8" for n
    using that assms by (induction n) (auto simp: get_put_reg scoef_apart)
  from this [of 8] show ?thesis using assms by (simp add: DE_setScaleCoef_def)
qed

lemma four_planes_coef: "plane < 4 \<Longrightarrow> k < 8 \<Longrightarrow> get_reg (DE_OVL_SCOEF k plane) (four_planes s r) = coefficients s ! k"
  by (auto simp: four_planes_def setScaleCoef_get)

datatype engine_call = Resize int int int | Flip bool | Sharpness sharpness | Clear

fun engine_step :: "u32 \<Rightarrow> engine_call \<Rightarrow> regs \<times> vid_context \<Rightarrow> regs \<times> vid_context" where
  "engine_step padd (Resize w h p) (r, v) = (resizeVideo_regs padd w h p (page v) r, PLAT_resizeVideo w h p v)"
| "engine_step padd (Flip overlay) (r, v) = (flip_regs padd (page v) overlay r, PLAT_flip v)"
| "engine_step padd (Sharpness s) (r, v) = (setSharpness_regs s r, v)"
| "engine_step padd Clear (r, v) = (r, PLAT_clearAll v)"

definition engine_shows :: "u32 \<Rightarrow> regs \<times> vid_context \<Rightarrow> bool" where
  "engine_shows padd s \<longleftrightarrow> (case s of (r, v) \<Rightarrow> get_reg (DE_OVL_BA0 0) r = page_base padd (shown v) \<and> page v \<le> 1 \<and> shown v \<le> 1)"

text \<open>In any sequence of calls the engine's base address is that of the page the model of the frame buffer says is shown.\<close>

lemma engine_step_shows: "engine_shows padd s \<Longrightarrow> engine_shows padd (engine_step padd c s)"
proof -
  have "get_reg (DE_OVL_BA0 0) (flip_regs padd n overlay r) = page_base padd n" for n overlay r
    by (simp add: flip_regs_def enableLayer_bits get_put_reg de_addresses)
  then show "engine_shows padd s \<Longrightarrow> ?thesis"
    by (cases s; cases c) (auto simp: engine_shows_def resizeVideo_regs_def set_layers_others setSharpness_regs_def four_planes_base
      PLAT_resizeVideo_def PLAT_flip_def PLAT_clearAll_def PLAT_clearVideo_def Let_def)
qed

lemma engine_follows: "engine_shows padd s \<Longrightarrow> engine_shows padd (fold (engine_step padd) cs s)"
  by (induction cs arbitrary: s) (simp_all add: engine_step_shows)

lemma engine_starts: "get_reg (DE_OVL_BA0 0) (initVideo_regs padd r) = page_base padd 1"
  by (simp add: initVideo_regs_def setNearestNeighbor_regs_def four_planes_base set_layers_others)

text \<open>The battery lies where the hardware group of the menus has its pill, and its pixels fill the memory given to it.\<close>

lemma overlay_place:
  "ov_pos (PLAT_initOverlay e padd base) = (FIXED_WIDTH - SCALE1 (PADDING e) - SCALE1 PILL_SIZE, SCALE1 (PADDING e))"
  "ov_mem_size (PLAT_initOverlay e padd base) = 4 * fst (ov_img (PLAT_initOverlay e padd base)) * snd (ov_img (PLAT_initOverlay e padd base))"
  by (simp_all add: PLAT_initOverlay_def overlay_side_def OVERLAY_PITCH_def layout_defs Let_def)

end
