(* ===== verification/Spec2Isabelle.thy ===== *)
theory Spec2Isabelle
  imports Redraw Keymon Wifi Snd Clock Running OptionScreen MenuScreen Hud PlusVideo ToolScreen Sleep DisplayEngine
begin

text \<open>
  \<^bold>\<open>Verification of darkui\<close>, a launcher and emulator frontend for two handheld consoles (rg35xx and
  rg35xxplus). All sources named below are under \<open>src/workspace\<close>.

  \<^bold>\<open>The program.\<close> The launcher (\<open>all/minui\<close>) shows the card's folders, remembers what was played and
  writes the command to run next; a shell loop runs it and starts the launcher again. The command
  starts the emulator frontend (\<open>all/minarch\<close>), which loads an emulator core, keeps its saves and
  states and shows the in-game menu. Both use the common library (\<open>all/common\<close>: files and strings,
  input, power, audio, graphics) and a platform layer (\<open>rg35xx/platform\<close>, \<open>rg35xxplus/platform\<close>).
  A key monitor (\<open>keymon\<close>) owns the shared settings (\<open>libmsettings\<close>, \<open>common/msettings_core.c\<close>) and
  handles volume and brightness keys beside whatever runs. Small tools set the clock
  (\<open>all/clock\<close>) and the network (\<open>all/wifi\<close>).

  \<^bold>\<open>The theories.\<close>
  \<^item> \<open>Prelude\<close>: machine types, rule collections, lemmas on lists and loops.
  \<^item> \<open>CString\<close>, \<open>FileSystem\<close>, \<open>Utils\<close>: the C string functions, the file system (an association list
    from paths to nodes) with the file helpers, and the string helpers of \<open>common/utils.c\<close>.
  \<^item> \<open>Collections\<close>: the growing arrays, the hash and the integer array of \<open>minui/collections.c\<close>, with
    allocation failure; the locale \<open>growing_seq\<close> is the list contract the array meets.
  \<^item> \<open>Directory\<close>, \<open>Recents\<close>, \<open>Roms\<close>: entries, sorting, map.txt, labels and the alphabetical index;
    the recents and their file; what the root menu, folders, collections and disc lists show
    (\<open>minui/minui.c\<close>). \<open>entry_sorter\<close> is the contract of \<open>qsort\<close>.
  \<^item> \<open>Shell\<close>: quoting for the shell (\<open>escapeSingleQuotes\<close>, \<open>Wifi_shellQuote\<close>) against a lexer of the
    shell; both interpret the locale \<open>shell_quoting\<close>.
  \<^item> \<open>Pad\<close>, \<open>Pwr\<close>: button state, both platforms' pollers (interpretations of \<open>pad_poller\<close>), menu taps,
    vibration (\<open>common/pad.c\<close>, \<open>platform.c\<close>); battery, sleep and power off (\<open>common/pwr.c\<close>).
  \<^item> \<open>Launcher\<close>, \<open>Browse\<close>: the launcher's state and operations; the step relation \<open>browse_step\<close> of a
    browsing session and its invariant, starting games, restoring positions.
  \<^item> \<open>Text\<close>, \<open>Draw\<close>: cutting, breaking and measuring text; everything \<open>common/gfx.c\<close> draws, as the list of its calls
    of SDL (\<open>draw\<close>), with the rectangles each group keeps to. The width a font gives a text is an argument.
  \<^item> \<open>Screen\<close>, \<open>Redraw\<close>: the launcher's screen for a state (\<open>Menu_draw\<close>) and its layout; a pass of the launcher's loop
    (\<open>main_pass\<close>) and why a pass that draws nothing leaves the right picture.
  \<^item> \<open>Atomic\<close>: replacing a file through a temporary one, on a card that may fill up, also unnoticed while the last block of a
    file is in its stream's buffer; the locale \<open>atomic_save\<close> says what a power cut
    may leave. It is interpreted on the settings (\<open>Settings\<close>) and on the three kinds of saves of the
    emulator frontend (\<open>Saves\<close>).
  \<^item> \<open>Settings\<close>, \<open>Keymon\<close>: the settings struct as bytes, in shared memory and on the card, the setters
    of both platforms; the key monitors' frames and port threads over the contract \<open>level_store\<close>.
  \<^item> \<open>Saves\<close>: battery saves, cartridge clock, save states, automatic save and resume
    (\<open>minarch/minarch.c\<close>).
  \<^item> \<open>Wifi\<close>: scan results, the supplicant's configuration, credentials, the list and the keyboard.
  \<^item> \<open>Snd\<close>: the audio ring buffer as a bounded queue (\<open>bounded_fifo\<close>) between two threads, and the
    resampler.
  \<^item> \<open>Clock\<close>: editing and validating a date.
  \<^item> \<open>Options\<close>, \<open>Config\<close>: option lists as a core announces them, the text of a configuration file, reading and
    writing the frontend's configuration (\<open>minarch/minarch.c\<close>).
  \<^item> \<open>Input\<close>: what a core reads of the buttons, the shortcuts and the menu button, frame by frame.
  \<^item> \<open>Keyboard\<close>, \<open>Picker\<close>: the on-screen keyboard the Wi-Fi tool and the menu share; the collections of a game.
  \<^item> \<open>Game\<close>: opening a game, archives included, with stored and deflated files; zlib's \<open>inflate\<close> is an argument, of which
    \<open>zlib_decodes\<close> states the documented behaviour.
  \<^item> \<open>OptionMenu\<close>, \<open>Menu\<close>: the option menus and their rows; the in-game menu with its discs and slots
    (\<open>minarch/menu.c\<close>), its frames with what the items do and \<open>PWR_update\<close> with the saving before a sleep.
  \<^item> \<open>Scaler\<close>: the C and NEON scalers and the screen effects (\<open>common/scaler.c\<close>) against one description of the
    picture they draw; the locales \<open>row_scaler\<close>, \<open>neon_row_scaler\<close> and \<open>block_scaler\<close> say what a line must do.
  \<^item> \<open>Video\<close>: placing a frame, the renderer, the two pages of the frame buffer (\<open>selectScaler\<close>, \<open>rg35xx/platform.c\<close>),
    and the step relation \<open>video_step\<close> of a session with frames, overlays, option changes and menu visits.
  \<^item> \<open>PlusVideo\<close>: the screen of the rg35xxplus (\<open>rg35xxplus/platform.c\<close>): textures, effects, the overlay and flipping.
  \<^item> \<open>DisplayEngine\<close>: the registers of the rg35xx's display engine and the battery overlay: filter taps, sampling inside the
    page, and that the engine shows the page \<open>Video\<close> says.
  \<^item> \<open>Sleep\<close>: sleeping, waking and switching off over \<open>Settings\<close>, \<open>Keymon\<close> and \<open>Pwr\<close>; back light, speed, rumble.
  \<^item> \<open>ToolScreen\<close>: what the clock, the Wi-Fi tool and the two keyboards draw and ask.
  \<^item> \<open>OptionScreen\<close>, \<open>MenuScreen\<close>: what the option menus, messages and the in-game menu draw, and that it does not collide.
  \<^item> \<open>Preview\<close>, \<open>Hud\<close>: the screenshot of a slot in the menu (\<open>Menu_scale\<close>) against nearest-neighbour scaling; the debug
    text drawn into a frame (\<open>blitBitmapText\<close>), pixel by pixel, and the digits of the frame counters.
  \<^item> \<open>Environment\<close>: what a core asks of the frontend (\<open>environment_callback\<close>) and how it learns of changed options;
    the step relation \<open>session_step\<close> mixes menus, configuration files and requests.
  \<^item> \<open>Running\<close>: loading and leaving a core, frames handed from thread to thread (\<open>thread_step\<close>), the pace of
    fast-forward, restarting for a display.

  The last section of this theory spans the frontend and the launcher: a device that sleeps in a game and is switched
  off comes back to it.

  \<^bold>\<open>How code becomes definitions.\<close> A function of the source is a definition of the same name where the
  name is free; loops are recursive functions on lists or with a measure, and pieces of a long
  function are definitions of their own that the whole one composes. Static variables are records
  (\<open>launcher\<close>, \<open>PAD_Context\<close>, \<open>keymon\<close>, \<open>SND_Context\<close>, \<open>core\<close>, \<open>arch\<close>). A read out of bounds, a failed
  allocation or system call, and an unassigned local variable are arguments or explicit results.
  What other programs and devices answer (polls, events, clocks, the room on the card, the output of
  commands, what an emulator core returns) is an argument. Buttons, ticks and settings are 32-bit
  words that wrap; counters that stay small are \<open>nat\<close> or \<open>int\<close>. Loops are
  structural or have a termination proof, and loops that wait for events consume a list of them. The one loop that may run
  forever by its own arithmetic, the walk through an archive, takes fuel: more than the length of the archive is enough when no size in
  it is 2 GiB or more, and no bound is enough without that. The loop around \<open>inflate\<close>, which ends only when that function does its
  part, is a \<open>partial_function\<close>, and that it ends is part of what is shown of it.

  \<^bold>\<open>Not modelled.\<close> The pixels SDL draws, decoding pictures and rendering glyphs,
  clearing and releasing on the rg35xxplus, ion memory, opening video, audio and input devices, the dynamic loading of cores, starting and leaving the programs, \<open>minput\<close>, \<open>say\<close>,
  \<open>show\<close>, \<open>init\<close> and \<open>syncsettings\<close> (glue around drawing or one call), \<open>overclock\<close> (registers), boot and install scripts, and the
  vendored MTP responder.
\<close>

subsection \<open>Sleeping in one program and waking in another\<close>

definition on_card :: "string \<Rightarrow> bool" where
  "on_card p \<longleftrightarrow> take (length SDCARD_PATH) p = SDCARD_PATH"

definition saved_game :: "core \<Rightarrow> string \<Rightarrow> nat \<Rightarrow> arch \<Rightarrow> arch" where
  \<comment> \<open>after the battery save and the cartridge clock, before the state\<close>
  "saved_game c nm spc a = a\<lparr>afs := last (RTC_write c nm spc (last (SRAM_write c nm spc (afs a))))\<rparr>"

lemma State_path_apart:
  "State_getPath c nm 9 \<noteq> AUTO_RESUME_PATH" "on_card (State_getPath c nm 9) \<Longrightarrow> State_getPath c nm 9 \<noteq> RESUME_SLOT_PATH"
  "on_card (State_getPath c nm 9) \<Longrightarrow> State_getPath c nm 9 \<noteq> NEXT_PATH" "on_card AUTO_RESUME_PATH"
proof -
  have "dec_int 9 = ''9''" by code_simp
  then have "last (State_getPath c nm 9) = CHR ''9''" by (simp add: State_getPath_def)
  moreover have "last AUTO_RESUME_PATH \<noteq> CHR ''9''" by (simp add: AUTO_RESUME_PATH_def)
  ultimately show "State_getPath c nm 9 \<noteq> AUTO_RESUME_PATH" by metis
  have "\<not> on_card RESUME_SLOT_PATH" "\<not> on_card NEXT_PATH" by code_simp+
  then show "on_card (State_getPath c nm 9) \<Longrightarrow> State_getPath c nm 9 \<noteq> RESUME_SLOT_PATH"
    "on_card (State_getPath c nm 9) \<Longrightarrow> State_getPath c nm 9 \<noteq> NEXT_PATH" by metis+
  show "on_card AUTO_RESUME_PATH" by code_simp
qed

lemma beforeSleep_files:
  assumes "fopen_w (afs (State_autosave c nm spc alloc (saved_game c nm spc a))) AUTO_RESUME_PATH"
    and "snd (State_write c nm spc alloc ((saved_game c nm spc a)\<lparr>state_slot := 9\<rparr>))"
    and "length (State_getPath c nm 9) < 507" and "serialize_size c \<noteq> 0" and "serialize c = Some d" and "length d = serialize_size c"
    and "serialize_size c \<le> spc"
  shows "fopen_r (afs (Menu_beforeSleep c nm p spc alloc a)) AUTO_RESUME_PATH = Some (drop (length SDCARD_PATH) p)"
    and "State_load c nm True 9 (afs (Menu_beforeSleep c nm p spc alloc a)) = Some d"
proof -
  let ?s = "State_autosave c nm spc alloc (saved_game c nm spc a)"
  have b: "afs (Menu_beforeSleep c nm p spc alloc a) = putFile AUTO_RESUME_PATH (drop (length SDCARD_PATH) p) (afs ?s)"
    by (simp add: Menu_beforeSleep_def saved_game_def Let_def)
  then show "fopen_r (afs (Menu_beforeSleep c nm p spc alloc a)) AUTO_RESUME_PATH = Some (drop (length SDCARD_PATH) p)"
    using assms(1) by (simp add: fopen_r_putFile)
  have "State_load c nm True 9 (afs ?s) = Some d"
    using State_write_load [OF assms(2)] assms(3-7) by (simp add: State_autosave_def AUTO_RESUME_SLOT_def Let_def)
  moreover have "fopen_r (afs (Menu_beforeSleep c nm p spc alloc a)) (State_getPath c nm 9) = fopen_r (afs ?s) (State_getPath c nm 9)"
    unfolding b using State_path_apart(1) by (rule fopen_r_putFile_other)
  ultimately show "State_load c nm True 9 (afs (Menu_beforeSleep c nm p spc alloc a)) = Some d" using State_load_cong by metis
qed

lemma autoResume_queues:
  assumes "fopen_r (lfs st) AUTO_RESUME_PATH = Some rel" and "length (SDCARD_PATH @ rel) < MAX_PATH"
    and "fs1 = unlink AUTO_RESUME_PATH (lfs st)" and "exists fs1 (SDCARD_PATH @ rel)"
    and "emu = getEmuPath fs1 plat (getEmuName (SDCARD_PATH @ rel))" and "exists fs1 emu"
  shows "autoResume plat st = (True, queueNext (run_command emu (SDCARD_PATH @ rel)) (st\<lparr>lfs := putInt RESUME_SLOT_PATH 9 fs1\<rparr>))"
proof -
  have "getFile (lfs st) AUTO_RESUME_PATH [] MAX_PATH = rel" using assms(1,2) by (simp add: getFile_def MAX_PATH_def)
  moreover have "snprintf_buf MAX_PATH (SDCARD_PATH @ rel) = SDCARD_PATH @ rel" using assms(2) by (rule snprintf_buf_fits)
  ultimately show ?thesis using assms fopen_r_exists [OF assms(1)] by (simp add: autoResume_def Let_def AUTO_RESUME_SLOT_def)
qed

lemma State_resume_loads:
  assumes "fopen_w fs RESUME_SLOT_PATH" and "State_load c nm True 9 fs = Some d" and "serialize_size c \<noteq> 0"
    and "State_getPath c nm 9 \<noteq> RESUME_SLOT_PATH" and "State_getPath c nm 9 \<noteq> q" and "q \<noteq> RESUME_SLOT_PATH"
  shows "snd (State_resume c nm True (b\<lparr>afs := putFile q cmd (putInt RESUME_SLOT_PATH 9 fs)\<rparr>)) = Some d"
proof -
  let ?fs = "putFile q cmd (putInt RESUME_SLOT_PATH 9 fs)"
  have "fopen_r ?fs RESUME_SLOT_PATH = Some (dec_int 9)"
    using assms(1,6) dec_int_length [of 9 0] by (simp add: fopen_r_putFile' fopen_r_putInt snprintf_buf_fits)
  then have slot: "getInt ?fs RESUME_SLOT_PATH = 9" "exists ?fs RESUME_SLOT_PATH"
    using fopen_r_exists by (auto simp: getInt_def scan_int_dec_int)
  have "State_load c nm True 9 (unlink RESUME_SLOT_PATH ?fs) = State_load c nm True 9 fs"
    using assms(4,5) by (intro State_load_cong) (simp add: fopen_r_unlink fopen_r_putFile' fopen_r_putInt)
  then show ?thesis using slot assms(2,3) by (simp add: State_resume_def State_read_def Let_def)
qed

text \<open>C1: a device that goes to sleep in a game, with room on the card for the state, and is switched off comes back to it: at the next start, with the card
  as it was left, the launcher queues exactly that game with its emulator, forgets the request, and the
  emulator frontend then gives the core the very state it serialised before sleeping.\<close>

theorem sleep_power_off_resumes:
  assumes "fopen_w (afs (State_autosave c nm spc alloc (saved_game c nm spc a))) AUTO_RESUME_PATH"
    and "snd (State_write c nm spc alloc ((saved_game c nm spc a)\<lparr>state_slot := 9\<rparr>))"
    and "length (State_getPath c nm 9) < 507" and "serialize_size c \<noteq> 0" and "serialize c = Some d" and "length d = serialize_size c"
    and "on_card (State_getPath c nm 9)"
    and "\<forall>p. on_card p \<longrightarrow> map_of (lfs st) p = map_of (afs (Menu_beforeSleep c nm (SDCARD_PATH @ rel) spc alloc a)) p"
    and "length (SDCARD_PATH @ rel) < MAX_PATH"
    and "exists (unlink AUTO_RESUME_PATH (lfs st)) (SDCARD_PATH @ rel)"
    and "emu = getEmuPath (unlink AUTO_RESUME_PATH (lfs st)) plat (getEmuName (SDCARD_PATH @ rel))"
    and "exists (unlink AUTO_RESUME_PATH (lfs st)) emu"
    and "fopen_w (lfs st) RESUME_SLOT_PATH" and "fopen_w (lfs st) NEXT_PATH" and "serialize_size c \<le> spc"
  shows "let (resumed, st') = autoResume plat st in
    resumed \<and> quit st' \<and> fopen_r (lfs st') NEXT_PATH = Some (run_command emu (SDCARD_PATH @ rel))
    \<and> \<not> exists (lfs st') AUTO_RESUME_PATH
    \<and> snd (State_resume c nm True (b\<lparr>afs := lfs st'\<rparr>)) = Some d"
proof -
  let ?a = "Menu_beforeSleep c nm (SDCARD_PATH @ rel) spc alloc a" and ?fs = "unlink AUTO_RESUME_PATH (lfs st)"
  let ?st = "queueNext (run_command emu (SDCARD_PATH @ rel)) (st\<lparr>lfs := putInt RESUME_SLOT_PATH 9 ?fs\<rparr>)"
  note slept = beforeSleep_files [OF assms(1-6,15), of "SDCARD_PATH @ rel"]
  have card: "on_card p \<Longrightarrow> fopen_r (lfs st) p = fopen_r (afs ?a) p" for p using assms(8) by (simp add: fopen_r_def)
  have "fopen_r (lfs st) AUTO_RESUME_PATH = Some rel" using slept(1) card [OF State_path_apart(4)] by simp
  from autoResume_queues [OF this assms(9) refl assms(10,11,12)] have queued: "autoResume plat st = (True, ?st)" .
  have apart: "NEXT_PATH \<noteq> AUTO_RESUME_PATH" "RESUME_SLOT_PATH \<noteq> AUTO_RESUME_PATH" "NEXT_PATH \<noteq> RESUME_SLOT_PATH"
    "dirname NEXT_PATH \<noteq> AUTO_RESUME_PATH" "dirname RESUME_SLOT_PATH \<noteq> AUTO_RESUME_PATH" by code_simp+
  then have w: "fopen_w ?fs RESUME_SLOT_PATH" "fopen_w ?fs NEXT_PATH"
    using assms(13,14) by (simp_all add: fopen_w_def map_of_unlink)
  then have next_w: "fopen_w (putInt RESUME_SLOT_PATH 9 ?fs) NEXT_PATH" by (simp add: putInt_def fopen_w_putFile)
  have "State_load c nm True 9 ?fs = State_load c nm True 9 (afs ?a)"
    using card [OF assms(7)] State_path_apart(1) by (intro State_load_cong) (simp add: fopen_r_unlink)
  then have "snd (State_resume c nm True (b\<lparr>afs := lfs ?st\<rparr>)) = Some d"
    using State_resume_loads [OF w(1) _ assms(4) State_path_apart(2,3) apart(3)] assms(7) slept(2) by (simp add: queueNext_def)
  then show ?thesis using queued next_w apart by (simp add: queueNext_def fopen_r_putFile exists_putFile exists_unlink putInt_def)
qed

definition demo_sleep_core :: core where
  "demo_sleep_core = demo_core\<lparr>saves_dir := ''/mnt/sdcard/s'', states_dir := ''/mnt/sdcard/s''\<rparr>"

definition demo_sleep_files :: fs where
  "demo_sleep_files = [(''/tmp'', Dir), (''/mnt/sdcard/s'', Dir), (SHARED_USERDATA_PATH @ ''/.minui'', Dir),
     (''/mnt/sdcard/Roms/GB/a.gb'', File ''rom''), (paks_path ''rg35xx'' @ ''/Emus/GB.pak/launch.sh'', File ''#!'')]"

definition demo_slept :: arch where
  "demo_slept = Menu_beforeSleep demo_sleep_core ''a.gb'' (SDCARD_PATH @ ''/Roms/GB/a.gb'') 100 True
     \<lparr>afs = demo_sleep_files, state_slot = 2, fast_forward = False\<rparr>"

theorem sleep_power_off_resumes_witness:
  "let (resumed, st') = autoResume ''rg35xx'' (demo_launcher\<lparr>lfs := afs demo_slept\<rparr>) in
    resumed \<and> snd (State_resume demo_sleep_core ''a.gb'' True (demo_arch\<lparr>afs := lfs st'\<rparr>)) = Some ''wxyz''"
proof -
  let ?a = "\<lparr>afs = demo_sleep_files, state_slot = 2, fast_forward = False\<rparr>"
  let ?emu = "getEmuPath (unlink AUTO_RESUME_PATH (afs demo_slept)) ''rg35xx'' (getEmuName (SDCARD_PATH @ ''/Roms/GB/a.gb''))"
  have "fopen_w (afs (State_autosave demo_sleep_core ''a.gb'' 100 True (saved_game demo_sleep_core ''a.gb'' 100 ?a))) AUTO_RESUME_PATH"
    by code_simp
  moreover have "snd (State_write demo_sleep_core ''a.gb'' 100 True ((saved_game demo_sleep_core ''a.gb'' 100 ?a)\<lparr>state_slot := 9\<rparr>))"
    by code_simp
  moreover have "length (State_getPath demo_sleep_core ''a.gb'' 9) < 507" by code_simp
  moreover have "serialize_size demo_sleep_core \<noteq> 0" "serialize demo_sleep_core = Some ''wxyz''"
    "length ''wxyz'' = serialize_size demo_sleep_core" "on_card (State_getPath demo_sleep_core ''a.gb'' 9)"
    "serialize_size demo_sleep_core \<le> 100" by code_simp+
  moreover have "length (SDCARD_PATH @ ''/Roms/GB/a.gb'') < MAX_PATH" by code_simp
  moreover have "exists (unlink AUTO_RESUME_PATH (afs demo_slept)) (SDCARD_PATH @ ''/Roms/GB/a.gb'')" by code_simp
  moreover have "exists (unlink AUTO_RESUME_PATH (afs demo_slept)) ?emu" by code_simp
  moreover have "fopen_w (afs demo_slept) RESUME_SLOT_PATH" "fopen_w (afs demo_slept) NEXT_PATH" by code_simp+
  ultimately show ?thesis
    using sleep_power_off_resumes [where c = demo_sleep_core and nm = "''a.gb''" and spc = 100 and alloc = True and a = ?a
        and d = "''wxyz''" and st = "demo_launcher\<lparr>lfs := afs demo_slept\<rparr>" and rel = "''/Roms/GB/a.gb''"
        and plat = "''rg35xx''" and emu = ?emu and b = demo_arch]
    by (simp add: demo_slept_def split_beta)
qed

end
